(* ===== verification/Prelude.thy ===== *)
theory Prelude
  imports Main "HOL-Library.Char_ord" "HOL-Library.List_Lexorder"
begin

text \<open>
  Shared vocabulary of the development.

  A Go string is a sequence of bytes and is modelled by \<open>string\<close>, whose characters are bytes; the
  byte-wise order of Go strings is the lexicographic order of \<open>List_Lexorder\<close>.

  A Go map is modelled by the list of its entries in increasing key order (type \<open>gomap\<close>): a lookup is
  \<open>map_of\<close>, an assignment is a sorted insertion, \<open>delete\<close> removes the key.  The representation is
  canonical, so two maps are equal exactly when their entry lists are, which is also when
  \<open>encoding/json\<close> (which writes keys in increasing order) produces the same text for them.  Where
  the code ranges over a map, whose iteration order Go leaves open, the model either ranges in key order and
  a lemma shows that the order is irrelevant, or takes the iteration order as an argument.

  The nil map, from which Go reads the zero value and to which it panics on writing, is \<open>None\<close> of an
  option type where the code can meet it.
\<close>

named_theorems go_simps \<open>unfolding rules of the modelled operations\<close>
named_theorems gm_simps \<open>rewrite rules of the map operations\<close>

section \<open>Go maps\<close>

type_synonym ('k, 'v) gomap = "('k \<times> 'v) list"

abbreviation gm_lookup :: "('k, 'v) gomap \<Rightarrow> 'k \<Rightarrow> 'v option" where
  "gm_lookup m k \<equiv> map_of m k"

fun gm_update :: "'k::linorder \<Rightarrow> 'v \<Rightarrow> ('k, 'v) gomap \<Rightarrow> ('k, 'v) gomap" where
  "gm_update k v [] = [(k, v)]"
| "gm_update k v ((a, b) # m) =
     (if k < a then (k, v) # (a, b) # m
      else if k = a then (k, v) # m
      else (a, b) # gm_update k v m)"

definition gm_delete :: "'k \<Rightarrow> ('k, 'v) gomap \<Rightarrow> ('k, 'v) gomap" where
  "gm_delete k m = filter (\<lambda>e. fst e \<noteq> k) m"

definition gm_wf :: "('k::linorder, 'v) gomap \<Rightarrow> bool" where
  "gm_wf m \<longleftrightarrow> sorted_wrt (<) (map fst m)"

text \<open>A list-valued map entry read with the zero value nil: \<open>m[k]\<close> for \<open>map[K][]V\<close>.\<close>

definition gm_list :: "('k, 'v list) gomap \<Rightarrow> 'k \<Rightarrow> 'v list" where
  "gm_list m k = (case gm_lookup m k of None \<Rightarrow> [] | Some vs \<Rightarrow> vs)"

text \<open>\<open>m[k] = append(m[k], v)\<close>.\<close>

definition gm_append :: "'k::linorder \<Rightarrow> 'v \<Rightarrow> ('k, 'v list) gomap \<Rightarrow> ('k, 'v list) gomap" where
  "gm_append k v m = gm_update k (gm_list m k @ [v]) m"

lemma gm_lookup_update [simp, gm_simps]:
  "gm_lookup (gm_update k v m) x = (if x = k then Some v else gm_lookup m x)"
  by (induction k v m rule: gm_update.induct) auto

lemma gm_lookup_delete [simp, gm_simps]:
  "gm_lookup (gm_delete k m) x = (if x = k then None else gm_lookup m x)"
  by (induction m) (auto simp: gm_delete_def)

lemma gm_list_append [simp, gm_simps]:
  "gm_list (gm_append k v m) x = (if x = k then gm_list m k @ [v] else gm_list m x)"
  by (simp add: gm_append_def gm_list_def)

lemma gm_list_Cons: "gm_list ((k, v) # m) x = (if x = k then v else gm_list m x)"
  by (simp add: gm_list_def)

lemma gm_list_Nil [simp, gm_simps]: "gm_list [] k = []"
  by (simp add: gm_list_def)

lemma gm_list_update [simp, gm_simps]:
  "gm_list (gm_update k v m) x = (if x = k then v else gm_list m x)"
  by (simp add: gm_list_def)

lemma set_fst_gm_update: "fst ` set (gm_update k v m) = insert k (fst ` set m)"
  by (induction k v m rule: gm_update.induct) auto

lemma gm_wf_Nil [simp]: "gm_wf []"
  by (simp add: gm_wf_def)

lemma gm_wf_update [simp, intro]: "gm_wf m \<Longrightarrow> gm_wf (gm_update k v m)"
proof (induction k v m rule: gm_update.induct)
  case (1 k v)
  then show ?case by (simp add: gm_wf_def)
next
  case (2 k v a b m)
  have keys: "set (map fst (gm_update k v m)) = insert k (fst ` set m)"
    by (simp add: set_fst_gm_update)
  consider "k < a" | "k = a" | "a < k" by fastforce
  then show ?case
  proof cases
    case 3
    then have "gm_wf (gm_update k v m)"
      using "2.IH" "2.prems" by (simp add: gm_wf_def)
    with 3 "2.prems" keys show ?thesis by (auto simp: gm_wf_def)
  qed (use "2.prems" in \<open>auto simp: gm_wf_def\<close>)
qed

lemma gm_wf_append [simp, intro]: "gm_wf m \<Longrightarrow> gm_wf (gm_append k v m)"
  by (simp add: gm_append_def gm_wf_update)

lemma gm_wf_delete [simp, intro]: "gm_wf m \<Longrightarrow> gm_wf (gm_delete k m)"
  by (induction m) (auto simp: gm_wf_def gm_delete_def)

lemma gm_wf_distinct: "gm_wf m \<Longrightarrow> distinct (map fst m)"
  unfolding gm_wf_def strict_sorted_iff by simp

lemma gm_entries_lookup:
  "distinct (map fst m) \<Longrightarrow> map (\<lambda>k. (k, the (gm_lookup m k))) (map fst m) = m"
  unfolding map_map by (rule map_idI) (auto simp: map_of_is_SomeI)

text \<open>The representation is canonical: a well-formed entry list is determined by its lookups.\<close>

lemma gm_wf_ext:
  assumes "gm_wf m" and "gm_wf n" and eq: "\<And>k. gm_lookup m k = gm_lookup n k"
  shows "m = n"
proof -
  have d: "distinct (map fst m)" "distinct (map fst n)"
    using assms by (auto dest: gm_wf_distinct)
  have "set (map fst n) = set (map fst m)"
    using eq by (metis dom_map_of_conv_image_fst domIff set_map subset_antisym subsetI)
  then have keys: "map fst n = map fst m"
    using assms(1,2) unfolding gm_wf_def by (intro strict_sorted_equal) auto
  have "m = map (\<lambda>k. (k, the (gm_lookup m k))) (map fst m)"
    by (rule gm_entries_lookup[OF d(1), symmetric])
  also have "\<dots> = map (\<lambda>k. (k, the (gm_lookup n k))) (map fst n)"
    by (simp only: eq keys)
  also have "\<dots> = n" by (rule gm_entries_lookup[OF d(2)])
  finally show ?thesis .
qed

section \<open>Lists\<close>

text \<open>\<open>slices.Contains\<close> is list membership; a search loop that returns the first hit is \<open>List.find\<close>.\<close>

lemma find_Some_iff_append:
  "List.find P xs = Some x \<longleftrightarrow>
   (\<exists>us vs. xs = us @ x # vs \<and> P x \<and> (\<forall>u \<in> set us. \<not> P u))"
proof (induction xs)
  case (Cons a xs)
  show ?case
  proof (cases "P a")
    case True
    have "(\<exists>us vs. a # xs = us @ x # vs \<and> P x \<and> (\<forall>u \<in> set us. \<not> P u)) \<longleftrightarrow> a = x"
      using True by (auto simp: Cons_eq_append_conv)
    with True show ?thesis by auto
  next
    case False
    with Cons show ?thesis by (auto simp: Cons_eq_append_conv) (metis list.set_intros(2) set_ConsD)
  qed
qed simp

lemma find_append:
  "List.find P (xs @ ys) = (case List.find P xs of Some x \<Rightarrow> Some x | None \<Rightarrow> List.find P ys)"
  by (induction xs) auto

lemma find_SomeD: "List.find P xs = Some x \<Longrightarrow> x \<in> set xs \<and> P x"
  by (auto simp: find_Some_iff_append)

lemma filter_hd_find:
  "(case filter P xs of [] \<Rightarrow> None | x # _ \<Rightarrow> Some x) = List.find P xs"
  by (induction xs) auto

text \<open>
  \<open>append_new x xs\<close> is the Go idiom of recording a value once, in first-seen order:
  \<open>if slices.Contains(xs, x) { return }; xs = append(xs, x)\<close>.
\<close>

definition append_new :: "'a \<Rightarrow> 'a list \<Rightarrow> 'a list" where
  "append_new x xs = (if x \<in> set xs then xs else xs @ [x])"

lemma set_append_new [simp]: "set (append_new x xs) = insert x (set xs)"
  by (auto simp: append_new_def)

lemma distinct_append_new [simp]: "distinct (append_new x xs) = distinct xs"
  by (auto simp: append_new_def)

section \<open>\<open>strings.TrimSpace\<close>\<close>

text \<open>
  The UTF-8 encodings of the characters with the Unicode property White Space.  An encoding is recognised
  at the start of a string as a prefix and at its end as a suffix, which is where decoding the first or the last
  character finds it.
\<close>

definition white_space :: "string list" where
  "white_space =
     [[CHR 0x09], [CHR 0x0A], [CHR 0x0B], [CHR 0x0C], [CHR 0x0D], [CHR 0x20],
      [CHR 0xC2, CHR 0x85], [CHR 0xC2, CHR 0xA0], [CHR 0xE1, CHR 0x9A, CHR 0x80],
      [CHR 0xE2, CHR 0x80, CHR 0x80], [CHR 0xE2, CHR 0x80, CHR 0x81], [CHR 0xE2, CHR 0x80, CHR 0x82],
      [CHR 0xE2, CHR 0x80, CHR 0x83], [CHR 0xE2, CHR 0x80, CHR 0x84], [CHR 0xE2, CHR 0x80, CHR 0x85],
      [CHR 0xE2, CHR 0x80, CHR 0x86], [CHR 0xE2, CHR 0x80, CHR 0x87], [CHR 0xE2, CHR 0x80, CHR 0x88],
      [CHR 0xE2, CHR 0x80, CHR 0x89], [CHR 0xE2, CHR 0x80, CHR 0x8A], [CHR 0xE2, CHR 0x80, CHR 0xA8],
      [CHR 0xE2, CHR 0x80, CHR 0xA9], [CHR 0xE2, CHR 0x80, CHR 0xAF], [CHR 0xE2, CHR 0x81, CHR 0x9F],
      [CHR 0xE3, CHR 0x80, CHR 0x80]]"

definition starts_with :: "'a list \<Rightarrow> 'a list \<Rightarrow> bool" where
  "starts_with p s \<longleftrightarrow> take (length p) s = p"

function trim_start :: "'a list list \<Rightarrow> 'a list \<Rightarrow> 'a list" where
  "trim_start ps s =
     (case List.find (\<lambda>p. p \<noteq> [] \<and> starts_with p s) ps of
        None \<Rightarrow> s
      | Some p \<Rightarrow> trim_start ps (drop (length p) s))"
  by pat_completeness auto
termination
proof (relation "measure (length \<circ> snd)")
  fix ps and s p :: "'a list"
  assume "List.find (\<lambda>p. p \<noteq> [] \<and> starts_with p s) ps = Some p"
  then have "p \<noteq> []" "take (length p) s = p"
    by (auto dest: find_SomeD simp: starts_with_def)
  then have "s \<noteq> []" "p \<noteq> []" by auto
  then show "((ps, drop (length p) s), (ps, s)) \<in> measure (length \<circ> snd)"
    by (cases s; cases p) auto
qed simp

declare trim_start.simps [simp del]

definition trim_space :: "string \<Rightarrow> string" where
  "trim_space s = rev (trim_start (map rev white_space) (rev (trim_start white_space s)))"

lemma trim_start_idem: "trim_start ps (trim_start ps s) = trim_start ps s"
proof (induction ps s rule: trim_start.induct)
  case (1 ps s)
  show ?case
  proof (cases "List.find (\<lambda>p. p \<noteq> [] \<and> starts_with p s) ps")
    case None
    then show ?thesis by (simp add: trim_start.simps[of ps s])
  next
    case (Some p)
    with "1.IH" show ?thesis by (simp add: trim_start.simps[of ps s])
  qed
qed

section \<open>Sequences of writes\<close>

text \<open>
  A method that makes several writes returns its result, an error on the left, beside the state it leaves: when a
  write fails the method returns the error, and what was written before stays.  \<open>attempt s res k\<close> is
  \<open>if err := write(); err != nil { return err }; k\<close> for a write that leaves the state \<open>s\<close> alone when it fails.
\<close>

definition attempt :: "'s \<Rightarrow> 'e + 's \<Rightarrow> ('s \<Rightarrow> ('e + 'a) \<times> 's) \<Rightarrow> ('e + 'a) \<times> 's" where
  "attempt s res k = (case res of Inl e \<Rightarrow> (Inl e, s) | Inr s' \<Rightarrow> k s')"

definition attempt_val ::
  "'s \<Rightarrow> 'e + ('v \<times> 's) \<Rightarrow> ('v \<Rightarrow> 's \<Rightarrow> ('e + 'a) \<times> 's) \<Rightarrow> ('e + 'a) \<times> 's" where
  "attempt_val s res k = (case res of Inl e \<Rightarrow> (Inl e, s) | Inr (v, s') \<Rightarrow> k v s')"

text \<open>Continuing after a method of several writes.\<close>

definition andthen :: "('e + 'v) \<times> 's \<Rightarrow> ('v \<Rightarrow> 's \<Rightarrow> ('e + 'a) \<times> 's) \<Rightarrow> ('e + 'a) \<times> 's" where
  "andthen r k = (case r of (Inl e, s) \<Rightarrow> (Inl e, s) | (Inr v, s) \<Rightarrow> k v s)"

fun for_each :: "('a \<Rightarrow> 's \<Rightarrow> ('e + unit) \<times> 's) \<Rightarrow> 'a list \<Rightarrow> 's \<Rightarrow> ('e + unit) \<times> 's" where
  "for_each f [] s = (Inr (), s)"
| "for_each f (x # xs) s = andthen (f x s) (\<lambda>_. for_each f xs)"

lemma attempt_simps [simp]:
  "attempt s (Inl e) k = (Inl e, s)" "attempt s (Inr s') k = k s'"
  "attempt_val s (Inl e) kv = (Inl e, s)" "attempt_val s (Inr (v, s')) kv = kv v s'"
  "andthen (Inl e, s) kv = (Inl e, s)" "andthen (Inr v, s) kv = kv v s"
  by (simp_all add: attempt_def attempt_val_def andthen_def)

text \<open>Invariants: what every write keeps, the sequence keeps.\<close>

lemma attempt_inv:
  assumes "P s" and "\<And>s'. res = Inr s' \<Longrightarrow> P s'" and "\<And>s'. res = Inr s' \<Longrightarrow> P s' \<Longrightarrow> P (snd (k s'))"
  shows "P (snd (attempt s res k))"
  using assms by (cases res) auto

lemma attempt_val_inv:
  assumes "P s" and "\<And>v s'. res = Inr (v, s') \<Longrightarrow> P s'"
    and "\<And>v s'. res = Inr (v, s') \<Longrightarrow> P s' \<Longrightarrow> P (snd (k v s'))"
  shows "P (snd (attempt_val s res k))"
  using assms by (cases res) (auto simp: attempt_val_def)

lemma andthen_inv:
  assumes "P (snd r)" and "\<And>v s. r = (Inr v, s) \<Longrightarrow> P s \<Longrightarrow> P (snd (k v s))"
  shows "P (snd (andthen r k))"
  using assms by (cases r; cases "fst r") (auto simp: andthen_def)

lemma for_each_inv:
  assumes "P s" and "\<And>x s. x \<in> set xs \<Longrightarrow> P s \<Longrightarrow> P (snd (f x s))"
  shows "P (snd (for_each f xs s))"
  using assms
proof (induction xs arbitrary: s)
  case (Cons x xs)
  have "P (snd (f x s))" using Cons.prems by simp
  then show ?case
    unfolding for_each.simps by (rule andthen_inv) (use Cons in auto)
qed simp

end
