(* ===== verification/Float64.thy ===== *)
theory Float64
  imports Complex_Main "HOL-Library.Log_Nat" Prelude
begin

text \<open>
  Go's \<open>float64\<close>: IEEE 754 binary64 with round-to-nearest-even.  A value is NaN, an infinity, the negative zero,
  or \<open>F64 q\<close> for the rational number \<open>q\<close> it stands for (\<open>F64 0\<close> is the positive zero).  Each
  operation computes the exact rational result and rounds it once (\<open>f64_round\<close>), so every rounding the
  tolerance checks of \<open>pkg/validation\<close> go through is in the model.

  Lemmas: the rounding is exact on every representable number (\<open>f64_round_exact\<close>), in particular on
  integers up to \<open>2 ^ 53\<close> in size, its result is representable (\<open>f64_round_wf\<close>), and it is within half a
  unit in the last place (\<open>f64_round_error\<close>).
\<close>

section \<open>Binary logarithm and rounding to an integer\<close>

text \<open>\<open>pow2 e\<close> is \<open>2 ^ e\<close> for a possibly negative exponent.\<close>

abbreviation pow2 :: "int \<Rightarrow> rat" where
  "pow2 e \<equiv> (2 :: rat) powi e"

definition ilog2 :: "rat \<Rightarrow> int" where
  "ilog2 q =
     (let (n, d) = quotient_of q;
          k = int (floorlog 2 (nat n)) - int (floorlog 2 (nat d))
      in if pow2 k \<le> q then k else k - 1)"

definition round_half_even :: "rat \<Rightarrow> int" where
  "round_half_even q =
     (let f = floor q; r = q - of_int f
      in if r < 1 / 2 then f else if 1 / 2 < r then f + 1 else if even f then f else f + 1)"

lemma pow2_pos [simp]: "0 < pow2 e"
  by (simp add: zero_less_power_int)

lemma pow2_add: "pow2 (a + b) = pow2 a * pow2 b"
  by (simp add: power_int_add)

lemma pow2_nat: "pow2 (int n) = 2 ^ n"
  by (simp add: power_int_of_nat)

lemma pow2_mono_iff [simp]: "pow2 a \<le> pow2 b \<longleftrightarrow> a \<le> b"
  by (metis linorder_not_less one_less_numeral_iff power_int_increasing
      power_int_strict_increasing semiring_norm(76) less_imp_le)

lemma pow2_less_iff [simp]: "pow2 a < pow2 b \<longleftrightarrow> a < b"
  by (metis linorder_not_less pow2_mono_iff)

lemma floorlog_bounds_rat:
  assumes "0 < (n :: int)"
  shows "pow2 (int (floorlog 2 (nat n)) - 1) \<le> of_int n" and "of_int n < pow2 (int (floorlog 2 (nat n)))"
proof -
  have pos: "0 < nat n" using assms by simp
  have b: "2 ^ (floorlog 2 (nat n) - 1) \<le> nat n" "nat n < 2 ^ floorlog 2 (nat n)"
    using floorlog_bounds[OF pos, of 2] by auto
  have ge1: "1 \<le> floorlog 2 (nat n)"
    using pos b(2) by (cases "floorlog 2 (nat n)") auto
  have "(2 :: rat) ^ (floorlog 2 (nat n) - 1) \<le> of_nat (nat n)"
    using b(1) by (metis of_nat_le_iff of_nat_numeral of_nat_power)
  then show "pow2 (int (floorlog 2 (nat n)) - 1) \<le> of_int n"
    using assms ge1 by (metis of_nat_1 of_nat_diff of_nat_nat order_less_imp_le pow2_nat of_int_of_nat_eq)
  have "of_nat (nat n) < (2 :: rat) ^ floorlog 2 (nat n)"
    using b(2) by (metis of_nat_less_iff of_nat_numeral of_nat_power)
  then show "of_int n < pow2 (int (floorlog 2 (nat n)))"
    using assms by (metis of_nat_nat order_less_imp_le pow2_nat of_int_of_nat_eq)
qed

lemma ilog2_bounds:
  assumes "0 < q"
  shows "pow2 (ilog2 q) \<le> q" and "q < pow2 (ilog2 q + 1)"
proof -
  obtain n d where nd: "quotient_of q = (n, d)" by (cases "quotient_of q")
  have d: "0 < d" using nd by (rule quotient_of_denom_pos)
  have q: "q = of_int n / of_int d" using nd by (rule quotient_of_div)
  have n: "0 < n" using assms q d by (simp add: zero_less_divide_iff)
  define a b where "a = int (floorlog 2 (nat n))" and "b = int (floorlog 2 (nat d))"
  have na: "pow2 (a - 1) \<le> of_int n" "of_int n < pow2 a"
    using floorlog_bounds_rat[OF n] by (simp_all add: a_def)
  have db: "pow2 (b - 1) \<le> of_int d" "of_int d < pow2 b"
    using floorlog_bounds_rat[OF d] by (simp_all add: b_def)
  have lo: "pow2 (a - b - 1) \<le> q"
  proof -
    have "pow2 (a - b - 1) * of_int d \<le> pow2 (a - b - 1) * pow2 b"
      using db(2) by (intro mult_left_mono) auto
    also have "\<dots> = pow2 (a - 1)" by (simp flip: pow2_add)
    also have "\<dots> \<le> of_int n" by (rule na(1))
    finally show ?thesis using d by (simp add: q pos_le_divide_eq)
  qed
  have hi: "q < pow2 (a - b + 1)"
  proof -
    have "of_int n < pow2 a" by (rule na(2))
    also have "\<dots> = pow2 (a - b + 1) * pow2 (b - 1)" by (simp flip: pow2_add)
    also have "\<dots> \<le> pow2 (a - b + 1) * of_int d"
      using db(1) by (intro mult_left_mono) auto
    finally show ?thesis using d by (simp add: q pos_divide_less_eq)
  qed
  have e: "ilog2 q = (if pow2 (a - b) \<le> q then a - b else a - b - 1)"
    by (simp add: ilog2_def nd a_def b_def Let_def)
  show "pow2 (ilog2 q) \<le> q" using lo e by auto
  show "q < pow2 (ilog2 q + 1)" using hi e by (auto split: if_splits)
qed

lemma ilog2_unique:
  assumes "pow2 e \<le> q" and "q < pow2 (e + 1)"
  shows "ilog2 q = e"
proof -
  have "0 < q" using assms(1) pow2_pos by (rule less_le_trans[rotated])
  then have "pow2 (ilog2 q) \<le> q" "q < pow2 (ilog2 q + 1)" by (rule ilog2_bounds)+
  then have "pow2 e < pow2 (ilog2 q + 1)" "pow2 (ilog2 q) < pow2 (e + 1)"
    using assms by (meson le_less_trans)+
  then show ?thesis by (simp only: pow2_less_iff)
qed

lemma round_half_even_int [simp]: "round_half_even (of_int n) = n"
  by (simp add: round_half_even_def)

lemma round_half_even_error: "\<bar>of_int (round_half_even q) - q\<bar> \<le> 1 / 2"
proof -
  have "of_int (floor q) \<le> q" "q < of_int (floor q) + 1" by linarith+
  then show ?thesis by (auto simp: round_half_even_def Let_def)
qed

lemma round_half_even_mono: "p \<le> q \<Longrightarrow> round_half_even p \<le> round_half_even q"
proof -
  assume pq: "p \<le> q"
  have f: "of_int (floor p) \<le> p" "p < of_int (floor p) + 1"
    "of_int (floor q) \<le> q" "q < of_int (floor q) + 1" by linarith+
  have fl: "floor p \<le> floor q" using pq by (rule floor_mono)
  have b: "floor x \<le> round_half_even x" "round_half_even x \<le> floor x + 1" for x
    by (auto simp: round_half_even_def Let_def)
  show ?thesis
  proof (cases "floor p = floor q")
    case True
    then show ?thesis using pq f by (auto simp: round_half_even_def Let_def)
  next
    case False
    then have "floor p + 1 \<le> floor q" using fl by linarith
    then show ?thesis using b(2)[of p] b(1)[of q] by linarith
  qed
qed

lemma round_half_even_le: "q \<le> of_int n \<Longrightarrow> round_half_even q \<le> n"
  using round_half_even_mono[of q "of_int n"] by simp

lemma round_half_even_ge: "of_int n \<le> q \<Longrightarrow> n \<le> round_half_even q"
  using round_half_even_mono[of "of_int n" q] by simp

section \<open>The values and the rounding\<close>

datatype float64 = NaN | PInf | NInf | NZero | F64 rat

text \<open>
  The unit in the last place at magnitude \<open>q\<close>: 53 significant bits, and not below the subnormal
  spacing \<open>2 ^ -1074\<close>.
\<close>

definition ulp_exp :: "rat \<Rightarrow> int" where
  "ulp_exp q = max (ilog2 \<bar>q\<bar> - 52) (-1074)"

definition f64_round :: "rat \<Rightarrow> float64" where
  "f64_round q =
     (if q = 0 then F64 0
      else let u = pow2 (ulp_exp q); r = of_int (round_half_even (q / u)) * u
           in if pow2 1024 \<le> \<bar>r\<bar> then (if q < 0 then NInf else PInf)
              else if r = 0 then (if q < 0 then NZero else F64 0)
              else F64 r)"

text \<open>A rational is representable when it has at most 53 significant bits in the exponent range.\<close>

definition representable :: "rat \<Rightarrow> bool" where
  "representable q \<longleftrightarrow>
     (\<exists>n e. q = of_int n * pow2 e \<and> \<bar>n\<bar> \<le> 2 ^ 53 \<and> -1074 \<le> e) \<and> \<bar>q\<bar> < pow2 1024"

lemma ulp_exp_bounds:
  assumes "q \<noteq> 0"
  shows "\<bar>q / pow2 (ulp_exp q)\<bar> \<le> 2 ^ 53" and "-1074 \<le> ulp_exp q"
proof -
  have "\<bar>q\<bar> < pow2 (ilog2 \<bar>q\<bar> + 1)" using assms by (intro ilog2_bounds) simp
  also have "\<dots> \<le> pow2 (ulp_exp q + 53)" by (simp add: ulp_exp_def)
  also have "\<dots> = pow2 53 * pow2 (ulp_exp q)" by (simp add: pow2_add mult.commute)
  finally have "\<bar>q\<bar> / pow2 (ulp_exp q) \<le> pow2 53"
    by (simp add: pos_divide_le_eq)
  then show "\<bar>q / pow2 (ulp_exp q)\<bar> \<le> 2 ^ 53" by simp
  show "-1074 \<le> ulp_exp q" by (simp add: ulp_exp_def)
qed

lemma representable_minus [simp]: "representable (- q) = representable q"
proof -
  have "representable (- q)" if "representable q" for q
  proof -
    from that obtain n e where "q = of_int n * pow2 e" "\<bar>n\<bar> \<le> 2 ^ 53" "-1074 \<le> e" "\<bar>q\<bar> < pow2 1024"
      by (auto simp: representable_def)
    then show ?thesis
      unfolding representable_def by (intro conjI exI[of _ "- n"] exI[of _ e]) auto
  qed
  from this[of q] this[of "- q"] show ?thesis by auto
qed

lemma representable_0 [simp]: "representable 0"
  unfolding representable_def by (intro conjI exI[of _ 0] exI[of _ 0]) auto

text \<open>A representable number is an integral multiple of its own unit in the last place.\<close>

lemma representable_multiple:
  assumes "representable q" and "q \<noteq> 0"
  obtains k where "q = of_int k * pow2 (ulp_exp q)"
proof -
  from assms obtain n e where q: "q = of_int n * pow2 e" and n: "\<bar>n\<bar> \<le> 2 ^ 53" and e: "-1074 \<le> e"
    by (auto simp: representable_def)
  have n0: "n \<noteq> 0" using assms(2) q by auto
  show ?thesis
  proof (cases "\<bar>n\<bar> = 2 ^ 53")
    case True
    have "\<bar>q\<bar> = pow2 (e + 53)" using True
      by (simp add: q abs_mult pow2_add flip: of_int_abs)
    then have "ilog2 \<bar>q\<bar> = e + 53" by (intro ilog2_unique) auto
    then have u: "ulp_exp q = e + 1" using e by (simp add: ulp_exp_def)
    have "q = of_int (sgn n * 2 ^ 52) * pow2 (e + 1)"
    proof -
      have "n = sgn n * 2 ^ 52 * 2" using True by (cases "0 \<le> n") (auto simp: sgn_if)
      then have "q = of_int (sgn n * 2 ^ 52 * 2) * pow2 e" using q by simp
      then show ?thesis by (simp add: pow2_add)
    qed
    with u that show ?thesis by metis
  next
    case False
    with n have "\<bar>n\<bar> < 2 ^ 53" by simp
    then have "of_int \<bar>n\<bar> < (of_int (2 ^ 53) :: rat)" by (simp only: of_int_less_iff)
    then have "\<bar>q\<bar> < 2 ^ 53 * pow2 e" by (simp add: q abs_mult)
    also have "\<dots> = pow2 (e + 53)" by (simp add: pow2_add)
    finally have "pow2 (ilog2 \<bar>q\<bar>) < pow2 (e + 53)"
      using ilog2_bounds(1)[of "\<bar>q\<bar>"] assms(2) by (meson le_less_trans zero_less_abs_iff)
    then have u: "ulp_exp q \<le> e" using e by (simp add: ulp_exp_def)
    define d where "d = nat (e - ulp_exp q)"
    have e_split: "e = int d + ulp_exp q" using u by (simp add: d_def)
    have "pow2 e = 2 ^ d * pow2 (ulp_exp q)"
      by (subst e_split) (simp only: pow2_add pow2_nat)
    with q have "q = of_int n * (2 ^ d * pow2 (ulp_exp q))" by (simp only:)
    then have "q = of_int (n * 2 ^ d) * pow2 (ulp_exp q)" by (simp add: mult.assoc)
    with that show ?thesis .
  qed
qed

lemma f64_round_exact:
  assumes "representable q"
  shows "f64_round q = F64 q"
proof (cases "q = 0")
  case False
  obtain k where k: "q = of_int k * pow2 (ulp_exp q)"
    using assms False by (rule representable_multiple)
  then have "q / pow2 (ulp_exp q) = of_int k"
    by (metis nonzero_mult_div_cancel_right pow2_pos less_irrefl)
  moreover have "\<bar>q\<bar> < pow2 1024" using assms by (simp add: representable_def)
  ultimately show ?thesis using False k
    by (simp add: f64_round_def Let_def)
qed (simp add: f64_round_def)

lemma f64_round_representable:
  assumes "f64_round q = F64 r"
  shows "representable r"
proof (cases "q = 0 \<or> r = 0")
  case True
  with assms show ?thesis by (auto simp: f64_round_def)
next
  case False
  define u where "u = pow2 (ulp_exp q)"
  define n where "n = round_half_even (q / u)"
  have r: "r = of_int n * u" "\<bar>r\<bar> < pow2 1024"
    using assms False by (auto simp: f64_round_def Let_def u_def n_def split: if_splits)
  have "\<bar>q / u\<bar> \<le> of_int (2 ^ 53)" using ulp_exp_bounds(1)[of q] False by (simp add: u_def)
  then have "q / u \<le> of_int (2 ^ 53)" "of_int (- (2 ^ 53)) \<le> q / u" by linarith+
  then have "n \<le> 2 ^ 53" "- (2 ^ 53) \<le> n"
    unfolding n_def using round_half_even_le round_half_even_ge by blast+
  then have "\<bar>n\<bar> \<le> 2 ^ 53" by simp
  with r ulp_exp_bounds(2)[of q] False show ?thesis
    unfolding representable_def u_def by blast
qed

lemma f64_round_idem: "f64_round q = F64 r \<Longrightarrow> f64_round r = F64 r"
  by (rule f64_round_exact) (rule f64_round_representable)

lemma representable_of_int: "\<bar>n\<bar> \<le> 2 ^ 53 \<Longrightarrow> representable (of_int n)"
proof -
  assume n: "\<bar>n\<bar> \<le> 2 ^ 53"
  have "\<bar>of_int n :: rat\<bar> \<le> of_int (2 ^ 53)" using n by (metis of_int_abs of_int_le_iff)
  also have "\<dots> < pow2 1024" by simp
  finally show ?thesis
    using n unfolding representable_def by (intro conjI exI[of _ n] exI[of _ 0]) auto
qed

lemma f64_round_of_int: "\<bar>n\<bar> \<le> 2 ^ 53 \<Longrightarrow> f64_round (of_int n) = F64 (of_int n)"
  by (rule f64_round_exact) (rule representable_of_int)

lemma f64_round_error:
  assumes "f64_round q = F64 r" and "q \<noteq> 0"
  shows "\<bar>r - q\<bar> \<le> pow2 (ulp_exp q) / 2"
proof -
  define u where "u = pow2 (ulp_exp q)"
  have u: "0 < u" by (simp add: u_def)
  have "r = of_int (round_half_even (q / u)) * u"
    using assms by (auto simp: f64_round_def Let_def u_def split: if_splits)
  then have "r - q = (of_int (round_half_even (q / u)) - q / u) * u"
    using u by (simp add: left_diff_distrib)
  then have "\<bar>r - q\<bar> = \<bar>of_int (round_half_even (q / u)) - q / u\<bar> * u"
    using u by (simp add: abs_mult)
  also have "\<dots> \<le> 1 / 2 * u"
    using u by (intro mult_right_mono round_half_even_error) simp
  finally show ?thesis by (simp add: u_def)
qed

section \<open>Arithmetic and comparison\<close>

fun f64_val :: "float64 \<Rightarrow> rat" where
  "f64_val (F64 q) = q"
| "f64_val _ = 0"

fun is_finite :: "float64 \<Rightarrow> bool" where
  "is_finite (F64 _) = True"
| "is_finite NZero = True"
| "is_finite _ = False"

text \<open>The sign bit, as used by division.\<close>

fun signbit :: "float64 \<Rightarrow> bool" where
  "signbit (F64 q) = (q < 0)"
| "signbit NInf = True"
| "signbit NZero = True"
| "signbit _ = False"

fun f64_neg :: "float64 \<Rightarrow> float64" where
  "f64_neg NaN = NaN"
| "f64_neg PInf = NInf"
| "f64_neg NInf = PInf"
| "f64_neg NZero = F64 0"
| "f64_neg (F64 q) = (if q = 0 then NZero else F64 (- q))"

definition f64_add :: "float64 \<Rightarrow> float64 \<Rightarrow> float64" where
  "f64_add x y =
     (if x = NaN \<or> y = NaN then NaN
      else if x = PInf then (if y = NInf then NaN else PInf)
      else if x = NInf then (if y = PInf then NaN else NInf)
      else if y = PInf \<or> y = NInf then y
      else if x = NZero \<and> y = NZero then NZero
      else f64_round (f64_val x + f64_val y))"

definition f64_sub :: "float64 \<Rightarrow> float64 \<Rightarrow> float64" where
  "f64_sub x y = f64_add x (f64_neg y)"

text \<open>\<open>x / y\<close>; a zero result carries the sign of the quotient.\<close>

definition f64_div :: "float64 \<Rightarrow> float64 \<Rightarrow> float64" where
  "f64_div x y =
     (let neg = (signbit x \<noteq> signbit y)
      in if x = NaN \<or> y = NaN then NaN
         else if \<not> is_finite x then (if is_finite y then (if neg then NInf else PInf) else NaN)
         else if \<not> is_finite y then (if neg then NZero else F64 0)
         else if f64_val y = 0 then
           (if f64_val x = 0 then NaN else if neg then NInf else PInf)
         else if f64_val x = 0 then (if neg then NZero else F64 0)
         else f64_round (f64_val x / f64_val y))"

text \<open>\<open>x * y\<close>.\<close>

definition f64_mul :: "float64 \<Rightarrow> float64 \<Rightarrow> float64" where
  "f64_mul x y =
     (let neg = (signbit x \<noteq> signbit y)
      in if x = NaN \<or> y = NaN then NaN
         else if \<not> is_finite x \<or> \<not> is_finite y then
           (if is_finite x \<and> f64_val x = 0 \<or> is_finite y \<and> f64_val y = 0 then NaN
            else if neg then NInf else PInf)
         else if f64_val x = 0 \<or> f64_val y = 0 then (if neg then NZero else F64 0)
         else f64_round (f64_val x * f64_val y))"

text \<open>\<open>math.Round\<close>: half away from zero, keeping the sign of a zero result.\<close>

fun f64_Round :: "float64 \<Rightarrow> float64" where
  "f64_Round (F64 q) =
     (if 0 \<le> q then F64 (of_int (floor (q + 1 / 2)))
      else if - (1 / 2) < q then NZero
      else F64 (of_int (ceiling (q - 1 / 2))))"
| "f64_Round x = x"

text \<open>\<open>math.Abs\<close>.\<close>

fun f64_abs :: "float64 \<Rightarrow> float64" where
  "f64_abs NaN = NaN"
| "f64_abs PInf = PInf"
| "f64_abs NInf = PInf"
| "f64_abs NZero = F64 0"
| "f64_abs (F64 q) = F64 \<bar>q\<bar>"

text \<open>\<open>math.Trunc\<close>: towards zero, keeping the sign of a zero result.\<close>

fun f64_trunc :: "float64 \<Rightarrow> float64" where
  "f64_trunc (F64 q) =
     (if 0 \<le> q then F64 (of_int (floor q))
      else if - 1 < q then NZero
      else F64 (of_int (ceiling q)))"
| "f64_trunc x = x"

text \<open>Comparisons: false whenever an operand is NaN; the zeros are equal.\<close>

definition f64_lt :: "float64 \<Rightarrow> float64 \<Rightarrow> bool" where
  "f64_lt x y \<longleftrightarrow>
     x \<noteq> NaN \<and> y \<noteq> NaN \<and>
     (if x = PInf \<or> y = NInf then False
      else if x = NInf \<or> y = PInf then True
      else f64_val x < f64_val y)"

definition f64_eq :: "float64 \<Rightarrow> float64 \<Rightarrow> bool" where
  "f64_eq x y \<longleftrightarrow>
     x \<noteq> NaN \<and> y \<noteq> NaN \<and>
     (if is_finite x \<and> is_finite y then f64_val x = f64_val y else x = y)"

definition f64_le :: "float64 \<Rightarrow> float64 \<Rightarrow> bool" where
  "f64_le x y \<longleftrightarrow> f64_lt x y \<or> f64_eq x y"

text \<open>Go writes \<open>a > b\<close> and \<open>a >= b\<close>.\<close>

abbreviation f64_gt :: "float64 \<Rightarrow> float64 \<Rightarrow> bool" where
  "f64_gt x y \<equiv> f64_lt y x"

abbreviation f64_ge :: "float64 \<Rightarrow> float64 \<Rightarrow> bool" where
  "f64_ge x y \<equiv> f64_le y x"

text \<open>The conversion \<open>float64(n)\<close> of an integer, and the value of a decimal constant of the source.\<close>

definition f64_of_int :: "int \<Rightarrow> float64" where
  "f64_of_int n = f64_round (of_int n)"

definition f64_const :: "rat \<Rightarrow> float64" where
  "f64_const q = f64_round q"

lemma f64_lt_finite [simp]: "f64_lt (F64 p) (F64 q) \<longleftrightarrow> p < q"
  by (simp add: f64_lt_def)

lemma f64_eq_finite [simp]: "f64_eq (F64 p) (F64 q) \<longleftrightarrow> p = q"
  by (simp add: f64_eq_def)

lemma f64_le_finite [simp]: "f64_le (F64 p) (F64 q) \<longleftrightarrow> p \<le> q"
  by (auto simp: f64_le_def)

lemma f64_add_finite [simp]: "f64_add (F64 p) (F64 q) = f64_round (p + q)"
  by (simp add: f64_add_def)

lemma f64_sub_finite [simp]: "f64_sub (F64 p) (F64 q) = f64_round (p - q)"
  by (simp add: f64_sub_def f64_add_def)

lemma f64_round_0 [simp]: "f64_round 0 = F64 0"
  by (simp add: f64_round_def)

lemma f64_of_int_exact: "\<bar>n\<bar> \<le> 2 ^ 53 \<Longrightarrow> f64_of_int n = F64 (of_int n)"
  by (simp add: f64_of_int_def f64_round_of_int)

lemma f64_add_ints:
  "\<bar>m + n\<bar> \<le> 2 ^ 53 \<Longrightarrow> f64_add (F64 (of_int m)) (F64 (of_int n)) = F64 (of_int (m + n))"
  using f64_round_of_int[of "m + n"] by simp

lemma f64_sub_ints:
  "\<bar>m - n\<bar> \<le> 2 ^ 53 \<Longrightarrow> f64_sub (F64 (of_int m)) (F64 (of_int n)) = F64 (of_int (m - n))"
  using f64_round_of_int[of "m - n"] by simp

text \<open>The ordering facts that hold for every operand, NaN included.\<close>

lemma f64_lt_irrefl [simp]: "\<not> f64_lt x x"
  by (cases x) (auto simp: f64_lt_def)

lemma f64_lt_trans: "f64_lt x y \<Longrightarrow> f64_lt y z \<Longrightarrow> f64_lt x z"
  by (cases x; cases y; cases z) (auto simp: f64_lt_def)

lemma f64_lt_asym: "f64_lt x y \<Longrightarrow> \<not> f64_lt y x"
  using f64_lt_trans f64_lt_irrefl by blast

end
