(* ===== verification/GoTime.thy ===== *)
theory GoTime
  imports Float64 "HOL-Library.Signed_Division"
begin

text \<open>
  The part of Go's package \<open>time\<close> the program uses.  An instant (\<open>time.Time\<close>, always UTC here) is
  the number of nanoseconds since the Unix epoch, a \<open>time.Duration\<close> the number of nanoseconds; the zero
  \<open>time.Time\<close> is midnight, January 1 of year 1.  \<open>time.Parse\<close> is modelled for the three layouts
  \<open>pkg/validation\<close> declares, chunk by chunk, with the library's own leniencies: a space of the layout matches
  any run of spaces and the hour may have one digit.
\<close>

section \<open>Instants and durations\<close>

type_synonym gotime = int
type_synonym duration = int

definition nanosecond :: duration where "nanosecond = 1"
definition second :: duration where "second = 1000000000"
definition minute :: duration where "minute = 60 * second"
definition hour :: duration where "hour = 60 * minute"

definition zero_time :: gotime where
  "zero_time = - 62135596800 * second"

definition is_zero :: "gotime \<Rightarrow> bool" where
  "is_zero t \<longleftrightarrow> t = zero_time"

definition min_duration :: duration where "min_duration = - (2 ^ 63)"
definition max_duration :: duration where "max_duration = 2 ^ 63 - 1"

text \<open>\<open>t.Sub(u)\<close> saturates at the bounds of a 64-bit duration.\<close>

definition time_sub :: "gotime \<Rightarrow> gotime \<Rightarrow> duration" where
  "time_sub t u = max min_duration (min max_duration (t - u))"

text \<open>\<open>d.Hours()\<close>: whole hours and the rest are converted and added as \<open>float64\<close>.\<close>

definition duration_hours :: "duration \<Rightarrow> float64" where
  "duration_hours d =
     f64_add (f64_of_int (d sdiv hour))
       (f64_div (f64_of_int (d smod hour)) (f64_of_int (60 * 60 * second)))"

text \<open>\<open>t.Unix()\<close> is the number of whole seconds, rounded down.\<close>

definition time_unix :: "gotime \<Rightarrow> int" where
  "time_unix t = t div second"

lemmas duration_defs = nanosecond_def second_def minute_def hour_def

lemma time_sub_exact: "min_duration \<le> t - u \<Longrightarrow> t - u \<le> max_duration \<Longrightarrow> time_sub t u = t - u"
  by (simp add: time_sub_def)

text \<open>A whole number of hours converts exactly.\<close>

lemma duration_hours_whole:
  assumes "\<bar>n\<bar> \<le> 2 ^ 53"
  shows "duration_hours (n * hour) = F64 (of_int n)"
proof -
  have "(n * hour) sdiv hour = n" "(n * hour) smod hour = 0"
    by (simp_all add: duration_defs signed_divide_int_def signed_modulo_int_def abs_mult sgn_mult
        sgn_mult_abs flip: mult.assoc)
  moreover have "f64_div (f64_of_int 0) (f64_of_int (60 * 60 * second)) = F64 0"
    by (simp add: f64_of_int_exact second_def f64_div_def)
  ultimately show ?thesis
    using f64_add_ints[of n 0] assms by (simp add: duration_hours_def f64_of_int_exact)
qed

section \<open>Calendar dates\<close>

definition is_leap :: "int \<Rightarrow> bool" where
  "is_leap y \<longleftrightarrow> y mod 4 = 0 \<and> (y mod 100 \<noteq> 0 \<or> y mod 400 = 0)"

definition days_in :: "int \<Rightarrow> int \<Rightarrow> int" where
  "days_in m y =
     (if m = 2 then (if is_leap y then 29 else 28)
      else if m \<in> {4, 6, 9, 11} then 30 else 31)"

text \<open>Days of a common year before the month \<open>m\<close>.\<close>

definition days_before :: "int \<Rightarrow> int" where
  "days_before m =
     [0, 31, 59, 90, 120, 151, 181, 212, 243, 273, 304, 334] ! nat (m - 1)"

text \<open>Days from January 1 of year 1 (proleptic Gregorian) to the given date.\<close>

definition days_since_year_one :: "int \<Rightarrow> int \<Rightarrow> int \<Rightarrow> int" where
  "days_since_year_one y m d =
     365 * (y - 1) + (y - 1) div 4 - (y - 1) div 100 + (y - 1) div 400 +
     days_before m + (if is_leap y \<and> 2 < m then 1 else 0) + (d - 1)"

text \<open>\<open>time.Date(y, m, d, h, mi, 0, 0, time.UTC)\<close>; January 1, 1970 is day 719162.\<close>

definition time_date :: "int \<Rightarrow> int \<Rightarrow> int \<Rightarrow> int \<Rightarrow> int \<Rightarrow> gotime" where
  "time_date y m d h mi =
     (((days_since_year_one y m d - 719162) * 24 + h) * 60 + mi) * minute"

lemma time_date_minute: "minute dvd time_date y m d h mi"
  by (simp add: time_date_def)

lemma time_date_epoch: "time_date 1970 1 1 0 0 = 0"
  by (simp add: time_date_def days_since_year_one_def days_before_def is_leap_def)

lemma time_date_zero: "time_date 1 1 1 0 0 = zero_time"
  by (simp add: time_date_def days_since_year_one_def days_before_def is_leap_def zero_time_def
      duration_defs)

section \<open>Parsing\<close>

text \<open>
  The chunks of a layout.  A literal space and another literal character follow \<open>skip\<close> of the library; the
  other chunks are the standard elements \<open>2006\<close>, \<open>01\<close>, \<open>02\<close>, \<open>15\<close> and \<open>04\<close>.
\<close>

datatype chunk = LYear | LMonth | LDay | LHour | LMinute | LLit char

record civil =
  c_year :: int
  c_month :: int
  c_day :: int
  c_hour :: int
  c_min :: int

text \<open>Unset elements default to January 1 of year 0, midnight.\<close>

definition civil_zero :: civil where
  "civil_zero = \<lparr>c_year = 0, c_month = 1, c_day = 1, c_hour = 0, c_min = 0\<rparr>"

definition is_digit :: "char \<Rightarrow> bool" where
  "is_digit c \<longleftrightarrow> CHR ''0'' \<le> c \<and> c \<le> CHR ''9''"

definition digit_val :: "char \<Rightarrow> int" where
  "digit_val c = int (of_char c) - 48"

text \<open>\<open>getnum(s, fixed)\<close>: two digits, or one when not \<open>fixed\<close>.\<close>

fun getnum :: "string \<Rightarrow> bool \<Rightarrow> (int \<times> string) option" where
  "getnum [] fixed = None"
| "getnum [a] fixed =
     (if is_digit a \<and> \<not> fixed then Some (digit_val a, []) else None)"
| "getnum (a # b # s) fixed =
     (if \<not> is_digit a then None
      else if \<not> is_digit b then (if fixed then None else Some (digit_val a, b # s))
      else Some (digit_val a * 10 + digit_val b, s))"

fun getyear :: "string \<Rightarrow> (int \<times> string) option" where
  "getyear (a # b # c # d # s) =
     (if is_digit a \<and> is_digit b \<and> is_digit c \<and> is_digit d
      then Some (((digit_val a * 10 + digit_val b) * 10 + digit_val c) * 10 + digit_val d, s)
      else None)"
| "getyear _ = None"

text \<open>\<open>skip(value, prefix)\<close> for one character of the prefix.\<close>

definition skip_char :: "char \<Rightarrow> string \<Rightarrow> string option" where
  "skip_char c s =
     (if c = CHR '' '' then
        (case s of [] \<Rightarrow> Some []
         | x # _ \<Rightarrow> if x = CHR '' '' then Some (dropWhile (\<lambda>y. y = CHR '' '') s) else None)
      else (case s of [] \<Rightarrow> None | x # s' \<Rightarrow> if x = c then Some s' else None))"

fun parse_chunks :: "chunk list \<Rightarrow> string \<Rightarrow> civil \<Rightarrow> civil option" where
  "parse_chunks [] s c = (if s = [] then Some c else None)"
| "parse_chunks (LLit l # ls) s c =
     (case skip_char l s of None \<Rightarrow> None | Some s' \<Rightarrow> parse_chunks ls s' c)"
| "parse_chunks (LYear # ls) s c =
     (case getyear s of None \<Rightarrow> None | Some (n, s') \<Rightarrow> parse_chunks ls s' (c\<lparr>c_year := n\<rparr>))"
| "parse_chunks (LMonth # ls) s c =
     (case getnum s True of None \<Rightarrow> None
      | Some (n, s') \<Rightarrow>
          if n \<le> 0 \<or> 12 < n then None else parse_chunks ls s' (c\<lparr>c_month := n\<rparr>))"
| "parse_chunks (LDay # ls) s c =
     (case getnum s True of None \<Rightarrow> None | Some (n, s') \<Rightarrow> parse_chunks ls s' (c\<lparr>c_day := n\<rparr>))"
| "parse_chunks (LHour # ls) s c =
     (case getnum s False of None \<Rightarrow> None
      | Some (n, s') \<Rightarrow> if 24 \<le> n then None else parse_chunks ls s' (c\<lparr>c_hour := n\<rparr>))"
| "parse_chunks (LMinute # ls) s c =
     (case getnum s True of None \<Rightarrow> None
      | Some (n, s') \<Rightarrow> if 60 \<le> n then None else parse_chunks ls s' (c\<lparr>c_min := n\<rparr>))"

text \<open>\<open>time.Parse(layout, value)\<close>; \<open>None\<close> is the error.  The day is checked at the end.\<close>

definition time_parse :: "chunk list \<Rightarrow> string \<Rightarrow> gotime option" where
  "time_parse layout s =
     (case parse_chunks layout s civil_zero of None \<Rightarrow> None
      | Some c \<Rightarrow>
          if c_day c < 1 \<or> days_in (c_month c) (c_year c) < c_day c then None
          else Some (time_date (c_year c) (c_month c) (c_day c) (c_hour c) (c_min c)))"

lemma time_parse_minute: "time_parse layout s = Some t \<Longrightarrow> minute dvd t"
  by (auto simp: time_parse_def time_date_minute split: option.splits if_splits)

end
