(* ===== verification/GoValue.thy ===== *)
theory GoValue
  imports Float64 GoTime
begin

text \<open>
  Values of Go's type \<open>any\<close> as \<open>encoding/json\<close> decodes them (the field values of a report, the
  details of an audit event), \<open>reflect.DeepEqual\<close> on them, and the messages the code builds with
  \<open>fmt.Sprintf\<close>.  An object is its entry list in increasing key order, as every Go map of this development.
  A message is kept as its format string and arguments: rendering the arguments is the library's business and no
  code of the program reads a rendered message back.
\<close>

datatype json =
    JNull
  | JBool bool
  | JNum float64
  | JStr string
  | JArr "json list"
  | JObj "(string \<times> json) list"

text \<open>\<open>reflect.DeepEqual\<close>: numbers are compared with \<open>==\<close>, so the two zeros are equal.\<close>

fun deep_equal :: "json \<Rightarrow> json \<Rightarrow> bool"
  and deep_equal_list :: "json list \<Rightarrow> json list \<Rightarrow> bool"
  and deep_equal_obj :: "(string \<times> json) list \<Rightarrow> (string \<times> json) list \<Rightarrow> bool" where
  "deep_equal JNull JNull = True"
| "deep_equal (JBool a) (JBool b) = (a = b)"
| "deep_equal (JNum a) (JNum b) = f64_eq a b"
| "deep_equal (JStr a) (JStr b) = (a = b)"
| "deep_equal (JArr a) (JArr b) = deep_equal_list a b"
| "deep_equal (JObj a) (JObj b) = deep_equal_obj a b"
| "deep_equal _ _ = False"
| "deep_equal_list [] [] = True"
| "deep_equal_list (x # xs) (y # ys) = (deep_equal x y \<and> deep_equal_list xs ys)"
| "deep_equal_list _ _ = False"
| "deep_equal_obj [] [] = True"
| "deep_equal_obj ((k, x) # xs) ((l, y) # ys) = (k = l \<and> deep_equal x y \<and> deep_equal_obj xs ys)"
| "deep_equal_obj _ _ = False"

text \<open>No value decoded from JSON contains NaN, so comparison with itself succeeds.\<close>

fun json_no_nan :: "json \<Rightarrow> bool"
  and json_no_nan_list :: "json list \<Rightarrow> bool"
  and json_no_nan_obj :: "(string \<times> json) list \<Rightarrow> bool" where
  "json_no_nan (JNum x) = (x \<noteq> NaN)"
| "json_no_nan (JArr xs) = json_no_nan_list xs"
| "json_no_nan (JObj xs) = json_no_nan_obj xs"
| "json_no_nan _ = True"
| "json_no_nan_list [] = True"
| "json_no_nan_list (x # xs) = (json_no_nan x \<and> json_no_nan_list xs)"
| "json_no_nan_obj [] = True"
| "json_no_nan_obj ((k, x) # xs) = (json_no_nan x \<and> json_no_nan_obj xs)"

lemma deep_equal_refl:
  "json_no_nan x \<Longrightarrow> deep_equal x x"
  "json_no_nan_list xs \<Longrightarrow> deep_equal_list xs xs"
  "json_no_nan_obj es \<Longrightarrow> deep_equal_obj es es"
  by (induction x and xs and es rule: json_no_nan_json_no_nan_list_json_no_nan_obj.induct)
    (auto simp: f64_eq_def)

text \<open>The type assertions \<open>v.(float64)\<close>, \<open>v.(string)\<close> and \<open>v.(bool)\<close>.\<close>

fun as_float :: "json \<Rightarrow> float64 option" where
  "as_float (JNum x) = Some x"
| "as_float _ = None"

fun as_string :: "json \<Rightarrow> string option" where
  "as_string (JStr s) = Some s"
| "as_string _ = None"

fun as_bool :: "json \<Rightarrow> bool option" where
  "as_bool (JBool b) = Some b"
| "as_bool _ = None"

section \<open>Formatted messages\<close>

datatype fmt_arg = AFloat float64 | AString string | AInt int | ATime gotime

datatype message = Sprintf string "fmt_arg list"

abbreviation Msg :: "string \<Rightarrow> message" where
  "Msg s \<equiv> Sprintf s []"

end
