(* ===== verification/Schema.thy ===== *)
theory Schema
  imports Prelude
begin

text \<open>
  \<open>pkg/schema\<close>: the curated OVD schema document (\<open>schema.go\<close>), the comparison of two versions
  (\<open>diff.go\<close>) and the table of enum files (\<open>enums.go\<close>).  Reading and validating the embedded JSON
  documents is left to the file system and the jsonschema library and is not modelled.

  Lemmas: what each category of a diff contains, and that a diff is empty exactly when the two versions agree on
  every field name and on its type, mandatoriness and enum.
\<close>

datatype field_type =
    FieldTypeText
  | FieldTypeWholeNumber
  | FieldTypeDecimal
  | FieldTypeDate
  | FieldTypeTime
  | FieldTypeDateTime
  | FieldTypeBoolean
  | FieldTypeEnum
  | FieldTypeOther string

record field =
  fieldName :: string
  fieldLabel :: string
  fieldType :: field_type
  fieldUnit :: "string option"
  fieldMaxLength :: "int option"
  fieldEnumRef :: "string option"
  fieldSchemaMandatory :: bool
  fieldMandatoryNote :: "string option"
  fieldRelevance :: string
  fieldSection :: string
  fieldAppliesToEvents :: "string list"
  fieldDescription :: string
  fieldUnsupportedByDnv :: bool

record schema =
  schemaName :: string
  schemaOvdVersion :: string
  schemaVersion :: string
  schemaSections :: "string list"
  schemaFields :: "field list"

text \<open>\<open>FieldByName\<close>: the first field of that name.\<close>

definition fieldByName :: "schema \<Rightarrow> string \<Rightarrow> field option" where
  "fieldByName s name = List.find (\<lambda>f. fieldName f = name) (schemaFields s)"

section \<open>Schema diff\<close>

record field_change =
  changeName :: string
  changeBefore :: field
  changeAfter :: field

record schema_diff =
  diffAdded :: "field list"
  diffRemoved :: "field list"
  diffTypeChanged :: "field_change list"
  diffMandatorinessChanged :: "field_change list"
  diffEnumChanged :: "field_change list"

definition diff_empty :: "schema_diff \<Rightarrow> bool" where
  "diff_empty d \<longleftrightarrow>
     diffAdded d = [] \<and> diffRemoved d = [] \<and> diffTypeChanged d = [] \<and>
     diffMandatorinessChanged d = [] \<and> diffEnumChanged d = []"

text \<open>\<open>equalStringPtr\<close> on optional strings.\<close>

definition equalStringPtr :: "string option \<Rightarrow> string option \<Rightarrow> bool" where
  "equalStringPtr a b =
     (case (a, b) of (Some x, Some y) \<Rightarrow> x = y | (None, None) \<Rightarrow> True | _ \<Rightarrow> False)"

text \<open>The index by name the code builds first: a later field of the same name replaces an earlier one.\<close>

definition index_by_name :: "field list \<Rightarrow> (string, field) gomap" where
  "index_by_name fs = fold (\<lambda>f m. gm_update (fieldName f) f m) fs []"

text \<open>The body of the loop over the fields of the new version.\<close>

definition diff_step :: "(string, field) gomap \<Rightarrow> field \<Rightarrow> schema_diff \<Rightarrow> schema_diff" where
  "diff_step beforeByName f d =
     (case gm_lookup beforeByName (fieldName f) of
        None \<Rightarrow> d\<lparr>diffAdded := diffAdded d @ [f]\<rparr>
      | Some bf \<Rightarrow>
          let ch = \<lparr>changeName = fieldName f, changeBefore = bf, changeAfter = f\<rparr>;
              d1 = (if fieldType bf \<noteq> fieldType f
                    then d\<lparr>diffTypeChanged := diffTypeChanged d @ [ch]\<rparr> else d);
              d2 = (if fieldSchemaMandatory bf \<noteq> fieldSchemaMandatory f
                    then d1\<lparr>diffMandatorinessChanged := diffMandatorinessChanged d1 @ [ch]\<rparr> else d1)
          in if \<not> equalStringPtr (fieldEnumRef bf) (fieldEnumRef f)
             then d2\<lparr>diffEnumChanged := diffEnumChanged d2 @ [ch]\<rparr> else d2)"

definition diffSchemas :: "schema \<Rightarrow> schema \<Rightarrow> schema_diff" where
  "diffSchemas before after =
     (let beforeByName = index_by_name (schemaFields before);
          afterByName = index_by_name (schemaFields after);
          d0 = \<lparr>diffAdded = [], diffRemoved = [], diffTypeChanged = [],
                diffMandatorinessChanged = [], diffEnumChanged = []\<rparr>;
          d = fold (diff_step beforeByName) (schemaFields after) d0
      in d\<lparr>diffRemoved :=
            filter (\<lambda>f. gm_lookup afterByName (fieldName f) = None) (schemaFields before)\<rparr>)"

text \<open>\<open>schemaHasSection\<close> and \<open>hasField\<close> of \<open>vessel/httpapi\<close> search the fields.\<close>

definition schemaHasSection :: "schema \<Rightarrow> string \<Rightarrow> bool" where
  "schemaHasSection sch sec \<longleftrightarrow> list_ex (\<lambda>f. fieldSection f = sec) (schemaFields sch)"

definition hasField :: "schema \<Rightarrow> string \<Rightarrow> bool" where
  "hasField sch name \<longleftrightarrow> list_ex (\<lambda>f. fieldName f = name) (schemaFields sch)"

subsection \<open>Lemmas\<close>

lemma equalStringPtr_eq [simp]: "equalStringPtr a b \<longleftrightarrow> a = b"
  by (auto simp: equalStringPtr_def split: option.splits)

lemma index_by_name_fold:
  "gm_lookup (fold (\<lambda>f m. gm_update (fieldName f) f m) fs m0) n =
   (case List.find (\<lambda>f. fieldName f = n) (rev fs) of Some f \<Rightarrow> Some f | None \<Rightarrow> gm_lookup m0 n)"
proof (induction fs arbitrary: m0)
  case (Cons f fs)
  show ?case by (auto simp: Cons find_append split: option.splits)
qed simp

lemma index_by_name_lookup:
  "gm_lookup (index_by_name fs) n = List.find (\<lambda>f. fieldName f = n) (rev fs)"
  by (simp add: index_by_name_def index_by_name_fold split: option.splits)

lemma index_by_name_None [simp]:
  "gm_lookup (index_by_name fs) n = None \<longleftrightarrow> n \<notin> fieldName ` set fs"
  by (auto simp: index_by_name_lookup find_None_iff)

text \<open>With distinct names the index finds the field itself.\<close>

lemma index_by_name_Some:
  assumes "distinct (map fieldName fs)"
  shows "gm_lookup (index_by_name fs) n = Some f \<longleftrightarrow> f \<in> set fs \<and> fieldName f = n"
proof
  assume "gm_lookup (index_by_name fs) n = Some f"
  then show "f \<in> set fs \<and> fieldName f = n"
    using find_SomeD by (fastforce simp: index_by_name_lookup)
next
  assume f: "f \<in> set fs \<and> fieldName f = n"
  then obtain g where g: "gm_lookup (index_by_name fs) n = Some g"
    by (metis image_eqI index_by_name_None not_None_eq)
  then have "g \<in> set fs \<and> fieldName g = n"
    using find_SomeD by (fastforce simp: index_by_name_lookup)
  with f assms have "g = f" by (metis distinct_map inj_onD)
  with g show "gm_lookup (index_by_name fs) n = Some f" by simp
qed

lemma diff_fold_added:
  "diffAdded (fold (diff_step m) fs d) =
   diffAdded d @ filter (\<lambda>f. gm_lookup m (fieldName f) = None) fs"
  by (induction fs arbitrary: d) (auto simp: diff_step_def Let_def split: option.splits)

definition changes_where ::
  "(field \<Rightarrow> field \<Rightarrow> bool) \<Rightarrow> (string, field) gomap \<Rightarrow> field list \<Rightarrow> field_change list" where
  "changes_where P m fs =
     concat (map (\<lambda>f. case gm_lookup m (fieldName f) of None \<Rightarrow> []
       | Some bf \<Rightarrow> if P bf f
           then [\<lparr>changeName = fieldName f, changeBefore = bf, changeAfter = f\<rparr>] else []) fs)"

lemma diff_fold_changes:
  "diffTypeChanged (fold (diff_step m) fs d) =
     diffTypeChanged d @ changes_where (\<lambda>b a. fieldType b \<noteq> fieldType a) m fs"
  "diffMandatorinessChanged (fold (diff_step m) fs d) =
     diffMandatorinessChanged d @
     changes_where (\<lambda>b a. fieldSchemaMandatory b \<noteq> fieldSchemaMandatory a) m fs"
  "diffEnumChanged (fold (diff_step m) fs d) =
     diffEnumChanged d @ changes_where (\<lambda>b a. fieldEnumRef b \<noteq> fieldEnumRef a) m fs"
  by (induction fs arbitrary: d)
    (auto simp: diff_step_def changes_where_def Let_def split: option.splits)

lemma diffSchemas_sel [simp]:
  "diffAdded (diffSchemas b a) =
     filter (\<lambda>f. fieldName f \<notin> fieldName ` set (schemaFields b)) (schemaFields a)"
  "diffRemoved (diffSchemas b a) =
     filter (\<lambda>f. fieldName f \<notin> fieldName ` set (schemaFields a)) (schemaFields b)"
  "diffTypeChanged (diffSchemas b a) =
     changes_where (\<lambda>x y. fieldType x \<noteq> fieldType y) (index_by_name (schemaFields b)) (schemaFields a)"
  "diffMandatorinessChanged (diffSchemas b a) =
     changes_where (\<lambda>x y. fieldSchemaMandatory x \<noteq> fieldSchemaMandatory y)
       (index_by_name (schemaFields b)) (schemaFields a)"
  "diffEnumChanged (diffSchemas b a) =
     changes_where (\<lambda>x y. fieldEnumRef x \<noteq> fieldEnumRef y)
       (index_by_name (schemaFields b)) (schemaFields a)"
  by (simp_all add: diffSchemas_def Let_def diff_fold_added diff_fold_changes)

lemma changes_where_empty:
  "changes_where P m fs = [] \<longleftrightarrow>
   (\<forall>f \<in> set fs. \<forall>bf. gm_lookup m (fieldName f) = Some bf \<longrightarrow> \<not> P bf f)"
  by (auto simp: changes_where_def split: option.splits if_splits)

text \<open>The part of a field the diff looks at.\<close>

definition diff_key :: "field \<Rightarrow> string \<times> field_type \<times> bool \<times> string option" where
  "diff_key f = (fieldName f, fieldType f, fieldSchemaMandatory f, fieldEnumRef f)"

lemma diff_empty_keys:
  assumes "distinct (map fieldName (schemaFields b))" and "distinct (map fieldName (schemaFields a))"
  shows "diff_empty (diffSchemas b a) \<longleftrightarrow>
    diff_key ` set (schemaFields b) = diff_key ` set (schemaFields a)" (is "?L \<longleftrightarrow> ?K b = ?K a")
proof
  assume ?L
  then have add: "\<forall>f \<in> set (schemaFields a). fieldName f \<in> fieldName ` set (schemaFields b)"
    and rem: "\<forall>f \<in> set (schemaFields b). fieldName f \<in> fieldName ` set (schemaFields a)"
    and same: "\<And>f g. f \<in> set (schemaFields a) \<Longrightarrow> g \<in> set (schemaFields b) \<Longrightarrow>
      fieldName g = fieldName f \<Longrightarrow> diff_key g = diff_key f"
    by (auto simp: diff_empty_def filter_empty_conv changes_where_empty diff_key_def
        index_by_name_Some[OF assms(1)])
  show "?K b = ?K a"
  proof (intro set_eqI iffI)
    fix k assume "k \<in> ?K b"
    then obtain g where g: "g \<in> set (schemaFields b)" "k = diff_key g" by blast
    with rem obtain f where "f \<in> set (schemaFields a)" "fieldName g = fieldName f" by auto
    with g same show "k \<in> ?K a" by blast
  next
    fix k assume "k \<in> ?K a"
    then obtain f where f: "f \<in> set (schemaFields a)" "k = diff_key f" by blast
    with add obtain g where "g \<in> set (schemaFields b)" "fieldName f = fieldName g" by auto
    with f same[of f g] show "k \<in> ?K b" by (metis imageI)
  qed
next
  assume eq: "?K b = ?K a"
  have names: "fieldName ` set (schemaFields b) = fieldName ` set (schemaFields a)"
    using arg_cong[OF eq, of "image fst"] by (simp add: image_image diff_key_def)
  have same: "diff_key g = diff_key f"
    if "f \<in> set (schemaFields a)" "g \<in> set (schemaFields b)" "fieldName g = fieldName f" for f g
  proof -
    from that(2) eq obtain f' where f': "f' \<in> set (schemaFields a)" "diff_key g = diff_key f'" by blast
    then have "fieldName f' = fieldName f" using that(3) by (simp add: diff_key_def)
    then have "f' = f" using f'(1) that(1) assms(2) by (metis distinct_map inj_onD)
    with f'(2) show ?thesis by simp
  qed
  show ?L
    using names same
    by (auto simp: diff_empty_def filter_empty_conv changes_where_empty diff_key_def
        index_by_name_Some[OF assms(1)])
qed

end
