(* ===== verification/ValReport.thy ===== *)
theory ValReport
  imports GoValue Schema
begin

text \<open>
  The data of \<open>pkg/validation\<close>: the rule engine's view of a report (\<open>report.go\<close>), findings
  (\<open>finding.go\<close>) and the tunable configuration (\<open>config.go\<close>).
\<close>

section \<open>Reports\<close>

text \<open>\<open>map[string]any\<close>; \<open>None\<close> is the nil map.\<close>

type_synonym fields = "(string, json) gomap option"

definition field_get :: "fields \<Rightarrow> string \<Rightarrow> json option" where
  "field_get fs name = (case fs of None \<Rightarrow> None | Some m \<Rightarrow> gm_lookup m name)"

record vreport =
  vReportID :: string
  vVersionNo :: int
  vSchemaName :: string
  vEventType :: string
  vEventTime :: gotime
  vFields :: fields

text \<open>The accessors \<open>Float\<close>, \<open>String\<close> and \<open>Bool\<close>; \<open>None\<close> is \<open>ok = false\<close>.\<close>

definition r_Float :: "vreport \<Rightarrow> string \<Rightarrow> float64 option" where
  "r_Float r name = (case field_get (vFields r) name of None \<Rightarrow> None | Some v \<Rightarrow> as_float v)"

definition r_String :: "vreport \<Rightarrow> string \<Rightarrow> string option" where
  "r_String r name = (case field_get (vFields r) name of None \<Rightarrow> None | Some v \<Rightarrow> as_string v)"

definition r_Bool :: "vreport \<Rightarrow> string \<Rightarrow> bool option" where
  "r_Bool r name = (case field_get (vFields r) name of None \<Rightarrow> None | Some v \<Rightarrow> as_bool v)"

definition isEmpty :: "vreport \<Rightarrow> string \<Rightarrow> bool" where
  "isEmpty r name =
     (case field_get (vFields r) name of
        None \<Rightarrow> True
      | Some v \<Rightarrow> if v = JNull then True
          else (case as_string v of Some s \<Rightarrow> s = '''' | None \<Rightarrow> False))"

lemma field_get_None [simp]: "field_get None n = None"
  by (simp add: field_get_def)

lemma field_get_Some [simp]: "field_get (Some m) n = gm_lookup m n"
  by (simp add: field_get_def)

lemma r_Float_Some_iff: "r_Float r n = Some x \<longleftrightarrow> field_get (vFields r) n = Some (JNum x)"
  by (auto simp: r_Float_def split: option.splits elim: as_float.elims)

lemma r_Float_not_empty: "r_Float r n = Some x \<Longrightarrow> \<not> isEmpty r n"
  by (auto simp: r_Float_Some_iff isEmpty_def)

section \<open>Findings\<close>

datatype severity = SeverityError | SeverityWarning | SeverityInfo | SeverityOther string

record finding =
  RuleID :: string
  Severity :: severity
  Field :: string
  Message :: message

type_synonym findings = "finding list"

definition hasErrors :: "findings \<Rightarrow> bool" where
  "hasErrors fs \<longleftrightarrow> list_ex (\<lambda>f. Severity f = SeverityError) fs"

definition byRule :: "findings \<Rightarrow> string \<Rightarrow> findings" where
  "byRule fs ruleID = filter (\<lambda>f. RuleID f = ruleID) fs"

lemma hasErrors_simps [simp]:
  "\<not> hasErrors []"
  "hasErrors (f # fs) \<longleftrightarrow> Severity f = SeverityError \<or> hasErrors fs"
  "hasErrors (fs @ gs) \<longleftrightarrow> hasErrors fs \<or> hasErrors gs"
  by (auto simp: hasErrors_def)

lemma hasErrors_iff: "hasErrors fs \<longleftrightarrow> (\<exists>f \<in> set fs. Severity f = SeverityError)"
  by (auto simp: hasErrors_def list_ex_iff)

section \<open>Configuration\<close>

record robSeries =
  Name :: string
  ROBField :: string
  ConsumptionFields :: "string list"

record alternatingGroup =
  groupName :: string
  Stage0 :: "string list"
  Stage1 :: "string list"

definition defaultEventGroups :: "alternatingGroup list" where
  "defaultEventGroups =
     [\<lparr>groupName = ''arrivalDeparture'',
       Stage0 = [''Arrival'', ''ArrivalSTS''], Stage1 = [''Departure'', ''DepartureSTS'']\<rparr>,
      \<lparr>groupName = ''seaPassage'',
       Stage0 = [''BOSP'', ''BeginOfSeaPassage'', ''FAOP'', ''FullAheadOnPassage''],
       Stage1 = [''EOSP'', ''EndOfSeaPassage'']\<rparr>,
      \<lparr>groupName = ''shifting'', Stage0 = [''BeginOfShifting''], Stage1 = [''EndOfShifting'']\<rparr>,
      \<lparr>groupName = ''canalPassage'', Stage0 = [''Begin canal passage''], Stage1 = [''End canal passage'']\<rparr>,
      \<lparr>groupName = ''anchoringDrifting'',
       Stage0 = [''Begin Anchoring/Drifting''], Stage1 = [''End Anchoring/Drifting'']\<rparr>,
      \<lparr>groupName = ''fuelChangeOver'',
       Stage0 = [''Begin fuel change over''], Stage1 = [''End fuel change over'']\<rparr>,
      \<lparr>groupName = ''deviation'', Stage0 = [''Begin of deviation''], Stage1 = [''End of deviation'']\<rparr>,
      \<lparr>groupName = ''specialArea'',
       Stage0 = [''Entering special area''], Stage1 = [''Leaving special area'']\<rparr>,
      \<lparr>groupName = ''offhire'', Stage0 = [''Beginofoffhire''], Stage1 = [''Endofoffhire'']\<rparr>]"

record config =
  TimeBucketToleranceHours :: float64
  ImpliedSpeedMinKn :: float64
  ImpliedSpeedMaxKn :: float64
  TimeChainToleranceHours :: float64
  ROBToleranceMt :: float64
  ROBSeriesList :: "robSeries list"
  BunkeredAmounts :: "(string, float64) gomap"
  FuelTypeConsumptionFields :: "string list"
  BDNMarkerFields :: "string list"
  EventGroups :: "alternatingGroup list"
  Severities :: "(string, severity) gomap"

definition defaultConfig :: config where
  "defaultConfig =
     \<lparr>TimeBucketToleranceHours = f64_const (1 / 10),
      ImpliedSpeedMinKn = f64_const 0,
      ImpliedSpeedMaxKn = f64_const 30,
      TimeChainToleranceHours = f64_const (1 / 10),
      ROBToleranceMt = f64_const (1 / 2),
      ROBSeriesList = [],
      BunkeredAmounts = [],
      FuelTypeConsumptionFields = [],
      BDNMarkerFields = [],
      EventGroups = defaultEventGroups,
      Severities = []\<rparr>"

text \<open>Suffix, ROB field and whether the extra consumers exist, per fuel type.\<close>

definition logAbstractFuelTypes :: "(string \<times> string \<times> bool) list" where
  "logAbstractFuelTypes =
     [(''HFO'', ''HFO_ROB'', True),
      (''LFO'', ''LFO_ROB'', True),
      (''MGO'', ''MGO_ROB'', True),
      (''MDO'', ''MDO_ROB'', True),
      (''LPGP'', ''LPGP_ROB'', False),
      (''LPGB'', ''LPGB_ROB'', False),
      (''LNG'', ''LNG_ROB'', False),
      (''M'', ''Methanol_ROB'', False),
      (''E'', ''Ethanol_ROB'', False),
      (''O'', ''O_ROB'', False)]"

definition fuelConsumers :: "string \<Rightarrow> bool \<Rightarrow> string list" where
  "fuelConsumers suffix extraConsumers =
     [''ME_Consumption_'' @ suffix, ''AE_Consumption_'' @ suffix, ''Boiler_Consumption_'' @ suffix] @
     (if extraConsumers
      then [''Inert_gas_Consumption_'' @ suffix, ''Cargo_heating_Consumption_'' @ suffix] else [])"

definition logAbstractConfig :: config where
  "logAbstractConfig =
     defaultConfig\<lparr>
       ROBSeriesList :=
         map (\<lambda>(suffix, robField, extra).
           \<lparr>Name = suffix, ROBField = robField, ConsumptionFields = fuelConsumers suffix extra\<rparr>)
           logAbstractFuelTypes,
       FuelTypeConsumptionFields :=
         concat (map (\<lambda>(suffix, robField, extra). fuelConsumers suffix extra) logAbstractFuelTypes)\<rparr>"

text \<open>\<open>validationConfigFor\<close> of the vessel and \<open>ValidationConfigFor\<close> of the office.\<close>

definition validationConfigFor :: "string \<Rightarrow> config" where
  "validationConfigFor sname =
     (if sname \<noteq> ''log-abstract'' then defaultConfig else logAbstractConfig)"

text \<open>\<open>cfg.severity(ruleID, deflt)\<close>.\<close>

definition severity_of :: "config \<Rightarrow> string \<Rightarrow> severity \<Rightarrow> severity" where
  "severity_of c ruleID deflt =
     (case gm_lookup (Severities c) ruleID of Some s \<Rightarrow> s | None \<Rightarrow> deflt)"

text \<open>The \<open>nil\<close> configuration stands for the default one at the engine's entry points.\<close>

definition config_or_default :: "config option \<Rightarrow> config" where
  "config_or_default c = (case c of None \<Rightarrow> defaultConfig | Some cfg \<Rightarrow> cfg)"

lemma severity_of_no_override [simp]: "Severities c = [] \<Longrightarrow> severity_of c r s = s"
  by (simp add: severity_of_def)

text \<open>Every consumption field of a ROB series is also a marker of the fuel-type scheme.\<close>

lemma logAbstract_fields_cover:
  "s \<in> set (ROBSeriesList logAbstractConfig) \<Longrightarrow>
   set (ConsumptionFields s) \<subseteq> set (FuelTypeConsumptionFields logAbstractConfig)"
  by (auto simp: logAbstractConfig_def)

end
