(* ===== verification/Policy.thy ===== *)
theory Policy
  imports ValReport
begin

text \<open>
  \<open>pkg/validation/policy.go\<close> and \<open>regulatory.go\<close>: the company's policy state of a field, the voyage
  events it applies to, and the readiness of a report for the regulatory profiles.

  Lemmas: schema mandatoriness can neither be overridden nor gated; a field scoped away from an event is hidden;
  the missing fields of a profile are exactly its needed, visible, empty fields, in schema order.
\<close>

section \<open>Field policy\<close>

datatype policy_state =
    FieldHidden
  | FieldOptional
  | FieldRecommended
  | FieldCompanyMandatory
  | FieldSchemaMandatory
  | FieldStateOther string

type_synonym fieldPolicy = "(string, policy_state) gomap"
type_synonym fieldEvents = "(string, string list) gomap"

section \<open>Regulatory relevance\<close>

datatype profile =
    ProfileMRV
  | ProfileDCS
  | ProfileCII
  | ProfileVoyageVerification
  | ProfileOther string

definition allRegulatoryProfiles :: "profile list" where
  "allRegulatoryProfiles = [ProfileMRV, ProfileDCS, ProfileCII, ProfileVoyageVerification]"

datatype requirement = RequirementNone | RequirementInformational | RequirementNeeded

definition profileRelevance :: "string \<Rightarrow> (profile \<times> requirement) list" where
  "profileRelevance relevance =
     (let r = trim_space relevance in
      if r = ''mandatory for MRV&DCS'' \<or> r = ''recommended for MRV&DCS''
        then [(ProfileMRV, RequirementNeeded), (ProfileDCS, RequirementNeeded)]
      else if r = ''mandatory for MRV'' then [(ProfileMRV, RequirementNeeded)]
      else if r = ''voluntary wrt MRV'' then [(ProfileMRV, RequirementInformational)]
      else if r = ''for CII correction, voluntary wrt MRV''
        then [(ProfileCII, RequirementInformational), (ProfileMRV, RequirementInformational)]
      else if r = ''for CII correction'' then [(ProfileCII, RequirementInformational)]
      else if r = ''DSC only, voluntary wrt MRV''
        then [(ProfileDCS, RequirementNeeded), (ProfileMRV, RequirementInformational)]
      else if r = ''mandatory for FEUM and in case of no fuel consumption for any verification''
        then [(ProfileMRV, RequirementNeeded)]
      else if r = ''recommended for voyage level verfication schemes''
        then [(ProfileVoyageVerification, RequirementNeeded)]
      else [])"

definition ghgRelevant :: "string \<Rightarrow> bool" where
  "ghgRelevant relevance \<longleftrightarrow> profileRelevance relevance \<noteq> []"

section \<open>Effective policy state\<close>

definition stateFor :: "fieldPolicy \<Rightarrow> string \<Rightarrow> bool \<Rightarrow> string \<Rightarrow> policy_state" where
  "stateFor p fname schemaMandatory relevance =
     (if schemaMandatory then FieldSchemaMandatory
      else case gm_lookup p fname of
        Some s \<Rightarrow> s
      | None \<Rightarrow> if ghgRelevant relevance then FieldRecommended else FieldOptional)"

definition allEvents :: string where "allEvents = ''*''"

definition appliesTo :: "fieldEvents \<Rightarrow> string \<Rightarrow> string \<Rightarrow> bool" where
  "appliesTo e fname eventType =
     (if eventType = '''' then True
      else case gm_lookup e fname of
        None \<Rightarrow> True
      | Some events \<Rightarrow>
          if events = [] then True
          else list_ex (\<lambda>ev. ev = allEvents \<or> ev = eventType) events)"

definition stateForEvent ::
  "fieldPolicy \<Rightarrow> string \<Rightarrow> bool \<Rightarrow> string \<Rightarrow> fieldEvents \<Rightarrow> string \<Rightarrow> policy_state" where
  "stateForEvent p fname schemaMandatory relevance events eventType =
     (if schemaMandatory then FieldSchemaMandatory
      else if \<not> appliesTo events fname eventType then FieldHidden
      else stateFor p fname schemaMandatory relevance)"

definition field_state :: "fieldPolicy \<Rightarrow> fieldEvents \<Rightarrow> vreport \<Rightarrow> field \<Rightarrow> policy_state" where
  "field_state p events r f =
     stateForEvent p (fieldName f) (fieldSchemaMandatory f) (fieldRelevance f) events (vEventType r)"

lemma stateForEvent_mandatory [simp]: "stateForEvent p n True rel e ev = FieldSchemaMandatory"
  by (simp add: stateForEvent_def)

lemma stateForEvent_gated:
  "\<not> m \<Longrightarrow> \<not> appliesTo e n ev \<Longrightarrow> stateForEvent p n m rel e ev = FieldHidden"
  by (simp add: stateForEvent_def)

lemma appliesTo_no_event [simp]: "appliesTo e n ''''"
  by (simp add: appliesTo_def)

lemma appliesTo_absent [simp]: "gm_lookup e n = None \<Longrightarrow> appliesTo e n ev"
  by (simp add: appliesTo_def)

lemma stateForEvent_absent:
  "gm_lookup e n = None \<Longrightarrow> stateForEvent p n m rel e ev = stateFor p n m rel"
  by (simp add: stateForEvent_def stateFor_def)

section \<open>Regulatory readiness\<close>

record profileReadiness =
  Profile :: profile
  MissingFields :: "string list"

definition ready :: "profileReadiness \<Rightarrow> bool" where
  "ready p \<longleftrightarrow> MissingFields p = []"

text \<open>
  The loop state: \<open>seenByProfile\<close> and \<open>missingByProfile\<close>.  The inner loop ranges over the map
  \<open>profileRelevance\<close> returns, at most one entry per profile, so its order does not matter.
\<close>

type_synonym readiness_acc = "(profile \<Rightarrow> bool) \<times> (profile \<Rightarrow> string list)"

definition readiness_entry ::
  "vreport \<Rightarrow> profile list \<Rightarrow> field \<Rightarrow> profile \<times> requirement \<Rightarrow> readiness_acc \<Rightarrow> readiness_acc" where
  "readiness_entry r enabled f e acc =
     (case e of (p, req) \<Rightarrow>
        if req = RequirementNone \<or> p \<notin> set enabled then acc
        else case acc of (seen, missing) \<Rightarrow>
          (seen(p := True),
           if req = RequirementNeeded \<and> isEmpty r (fieldName f)
           then missing(p := missing p @ [fieldName f]) else missing))"

definition readiness_field ::
  "vreport \<Rightarrow> profile list \<Rightarrow> fieldPolicy \<Rightarrow> fieldEvents \<Rightarrow> field \<Rightarrow> readiness_acc \<Rightarrow> readiness_acc" where
  "readiness_field r enabled policy events f acc =
     (if field_state policy events r f = FieldHidden then acc
      else fold (readiness_entry r enabled f) (profileRelevance (fieldRelevance f)) acc)"

definition evaluateRegulatoryReadiness ::
  "vreport \<Rightarrow> field list \<Rightarrow> profile list \<Rightarrow> fieldPolicy \<Rightarrow> fieldEvents \<Rightarrow> profileReadiness list" where
  "evaluateRegulatoryReadiness r fs enabled policy events =
     (case fold (readiness_field r enabled policy events) fs (\<lambda>_. False, \<lambda>_. []) of
        (seen, missing) \<Rightarrow>
          map (\<lambda>p. \<lparr>Profile = p, MissingFields = missing p\<rparr>) (filter seen enabled))"

subsection \<open>Lemmas\<close>

definition requires :: "profile \<Rightarrow> field \<Rightarrow> bool" where
  "requires p f \<longleftrightarrow> (p, RequirementNeeded) \<in> set (profileRelevance (fieldRelevance f))"

definition touches :: "profile \<Rightarrow> field \<Rightarrow> bool" where
  "touches p f \<longleftrightarrow> p \<in> fst ` set (profileRelevance (fieldRelevance f))"

lemma profileRelevance_distinct: "distinct (map fst (profileRelevance rel))"
  by (simp add: profileRelevance_def Let_def)

lemma profileRelevance_not_none: "(p, RequirementNone) \<notin> set (profileRelevance rel)"
  by (auto simp: profileRelevance_def Let_def split: if_splits)

lemma readiness_entry_sel:
  assumes "req \<noteq> RequirementNone"
  shows "fst (readiness_entry r en f (q, req) acc) p \<longleftrightarrow> fst acc p \<or> (q = p \<and> p \<in> set en)"
    and "snd (readiness_entry r en f (q, req) acc) p =
      snd acc p @ (if q = p \<and> p \<in> set en \<and> req = RequirementNeeded \<and> isEmpty r (fieldName f)
                   then [fieldName f] else [])"
  using assms by (cases acc; auto simp: readiness_entry_def)+

lemma readiness_entries_seen:
  "(\<And>p. (p, RequirementNone) \<notin> set es) \<Longrightarrow>
   fst (fold (readiness_entry r en f) es acc) p \<longleftrightarrow>
     fst acc p \<or> (p \<in> set en \<and> p \<in> fst ` set es)"
proof (induction es arbitrary: acc)
  case (Cons e es)
  obtain q req where e: "e = (q, req)" by (cases e)
  then have "req \<noteq> RequirementNone" "\<And>p. (p, RequirementNone) \<notin> set es"
    using Cons.prems by auto
  then show ?case using Cons.IH by (auto simp: e readiness_entry_sel)
qed simp

lemma readiness_entries_missing:
  "distinct (map fst es) \<Longrightarrow> (\<And>p. (p, RequirementNone) \<notin> set es) \<Longrightarrow>
   snd (fold (readiness_entry r en f) es acc) p =
     snd acc p @ (if p \<in> set en \<and> (p, RequirementNeeded) \<in> set es \<and> isEmpty r (fieldName f)
                  then [fieldName f] else [])"
proof (induction es arbitrary: acc)
  case (Cons e es)
  obtain q req where e: "e = (q, req)" by (cases e)
  then have "req \<noteq> RequirementNone" "\<And>p. (p, RequirementNone) \<notin> set es"
    "distinct (map fst es)" "\<And>x. (q, x) \<notin> set es"
    using Cons.prems by force+
  then show ?case using Cons.IH by (auto simp: e readiness_entry_sel)
qed simp

lemma readiness_field_sel:
  "fst (readiness_field r en pol ev f acc) p \<longleftrightarrow>
     fst acc p \<or> (p \<in> set en \<and> field_state pol ev r f \<noteq> FieldHidden \<and> touches p f)"
  "snd (readiness_field r en pol ev f acc) p =
     snd acc p @ (if p \<in> set en \<and> field_state pol ev r f \<noteq> FieldHidden \<and> requires p f \<and>
       isEmpty r (fieldName f) then [fieldName f] else [])"
  by (auto simp: readiness_field_def touches_def requires_def readiness_entries_seen
      readiness_entries_missing profileRelevance_distinct profileRelevance_not_none)

lemma readiness_fields_seen:
  "fst (fold (readiness_field r en pol ev) fs acc) p \<longleftrightarrow>
     fst acc p \<or> (p \<in> set en \<and> (\<exists>f \<in> set fs. field_state pol ev r f \<noteq> FieldHidden \<and> touches p f))"
  by (induction fs arbitrary: acc) (auto simp: readiness_field_sel)

lemma readiness_fields_missing:
  "p \<in> set en \<Longrightarrow>
   snd (fold (readiness_field r en pol ev) fs acc) p =
     snd acc p @ map fieldName (filter (\<lambda>f. field_state pol ev r f \<noteq> FieldHidden \<and> requires p f \<and>
       isEmpty r (fieldName f)) fs)"
  by (induction fs arbitrary: acc) (simp_all add: readiness_field_sel)

lemma evaluateRegulatoryReadiness_eq:
  "evaluateRegulatoryReadiness r fs enabled pol ev =
   map (\<lambda>p. \<lparr>Profile = p, MissingFields = map fieldName
          (filter (\<lambda>f. field_state pol ev r f \<noteq> FieldHidden \<and> requires p f \<and>
             isEmpty r (fieldName f)) fs)\<rparr>)
     (filter (\<lambda>p. \<exists>f \<in> set fs. field_state pol ev r f \<noteq> FieldHidden \<and> touches p f) enabled)"
proof -
  obtain s m where sm: "fold (readiness_field r enabled pol ev) fs (\<lambda>_. False, \<lambda>_. []) = (s, m)"
    by (cases "fold (readiness_field r enabled pol ev) fs (\<lambda>_. False, \<lambda>_. [])")
  have s: "s p \<longleftrightarrow> p \<in> set enabled \<and>
      (\<exists>f \<in> set fs. field_state pol ev r f \<noteq> FieldHidden \<and> touches p f)" for p
    using readiness_fields_seen[of r enabled pol ev fs "(\<lambda>_. False, \<lambda>_. [])" p] sm by simp
  have m: "m p = map fieldName (filter (\<lambda>f. field_state pol ev r f \<noteq> FieldHidden \<and> requires p f \<and>
      isEmpty r (fieldName f)) fs)" if "p \<in> set enabled" for p
    using readiness_fields_missing[OF that, of r pol ev fs "(\<lambda>_. False, \<lambda>_. [])"] sm by simp
  have "filter s enabled = filter (\<lambda>p. \<exists>f \<in> set fs. field_state pol ev r f \<noteq> FieldHidden \<and> touches p f) enabled"
    by (rule filter_cong) (auto simp: s)
  then show ?thesis
    using m by (auto simp: evaluateRegulatoryReadiness_def sm intro!: map_cong)
qed

end
