(* ===== verification/FieldRules.thy ===== *)
theory FieldRules
  imports Policy
begin

text \<open>
  \<open>pkg/validation/fieldrules.go\<close>: the findings generated from the schema and the field policy, and
  \<open>ParseEventTime\<close>.

  Lemmas: the field rules report an error exactly when a visible mandatory field is empty or a visible filled field
  does not conform to its type (\<open>conforms\<close>, the abstract reading of the format rules); hidden fields have no
  findings; a recommended field never blocks.
\<close>

definition RuleFieldRequired :: string where "RuleFieldRequired = ''field.required''"
definition RuleFieldType :: string where "RuleFieldType = ''field.type''"
definition RuleFieldMaxLength :: string where "RuleFieldMaxLength = ''field.maxLength''"
definition RuleFieldFormat :: string where "RuleFieldFormat = ''field.format''"

definition dateLayout :: "chunk list" where
  "dateLayout = [LYear, LLit CHR ''-'', LMonth, LLit CHR ''-'', LDay]"

definition timeLayout :: "chunk list" where
  "timeLayout = [LHour, LLit CHR '':'', LMinute]"

definition dateTimeLayout :: "chunk list" where
  "dateTimeLayout =
     [LYear, LLit CHR ''-'', LMonth, LLit CHR ''-'', LDay, LLit CHR '' '', LHour, LLit CHR '':'', LMinute]"

definition typeErr :: "field \<Rightarrow> string \<Rightarrow> finding" where
  "typeErr f want =
     \<lparr>RuleID = RuleFieldType, Severity = SeverityError, Field = fieldName f,
      Message = Sprintf ''%s must be %s'' [AString (fieldLabel f), AString want]\<rparr>"

definition check_datetime :: "chunk list \<Rightarrow> field \<Rightarrow> json option \<Rightarrow> findings" where
  "check_datetime layout f v =
     (case Option.bind v as_string of
        None \<Rightarrow> [typeErr f ''a date/time string'']
      | Some s \<Rightarrow>
          if time_parse layout s = None then
            [\<lparr>RuleID = RuleFieldFormat, Severity = SeverityError, Field = fieldName f,
              Message = Sprintf ''%s does not match the expected format'' [AString (fieldLabel f)]\<rparr>]
          else [])"

definition check_text :: "field \<Rightarrow> json option \<Rightarrow> findings" where
  "check_text f v =
     (case Option.bind v as_string of
        None \<Rightarrow> [typeErr f ''text'']
      | Some s \<Rightarrow>
          (case fieldMaxLength f of
             None \<Rightarrow> []
           | Some n \<Rightarrow>
               if n < int (length s) then
                 [\<lparr>RuleID = RuleFieldMaxLength, Severity = SeverityError, Field = fieldName f,
                   Message = Sprintf ''%s exceeds maximum length of %d'' [AString (fieldLabel f), AInt n]\<rparr>]
               else []))"

text \<open>\<open>checkFieldFormat\<close>, by the field's type; a field of an unknown type has no findings.\<close>

definition checkFieldFormat :: "vreport \<Rightarrow> field \<Rightarrow> findings" where
  "checkFieldFormat r f =
     (let v = field_get (vFields r) (fieldName f) in
      case fieldType f of
        FieldTypeText \<Rightarrow> check_text f v
      | FieldTypeEnum \<Rightarrow> check_text f v
      | FieldTypeWholeNumber \<Rightarrow>
          (case Option.bind v as_float of
             None \<Rightarrow> [typeErr f ''a whole number'']
           | Some n \<Rightarrow>
               if \<not> f64_eq n (f64_trunc n) then
                 [\<lparr>RuleID = RuleFieldFormat, Severity = SeverityError, Field = fieldName f,
                   Message = Sprintf ''%s must be a whole number'' [AString (fieldLabel f)]\<rparr>]
               else [])
      | FieldTypeDecimal \<Rightarrow>
          (case Option.bind v as_float of None \<Rightarrow> [typeErr f ''a number''] | Some _ \<Rightarrow> [])
      | FieldTypeBoolean \<Rightarrow>
          (case Option.bind v as_bool of None \<Rightarrow> [typeErr f ''true or false''] | Some _ \<Rightarrow> [])
      | FieldTypeDate \<Rightarrow> check_datetime dateLayout f v
      | FieldTypeTime \<Rightarrow> check_datetime timeLayout f v
      | FieldTypeDateTime \<Rightarrow> check_datetime dateTimeLayout f v
      | FieldTypeOther _ \<Rightarrow> [])"

text \<open>The body of the loop over the schema's fields.\<close>

definition evaluateField :: "vreport \<Rightarrow> fieldPolicy \<Rightarrow> fieldEvents \<Rightarrow> field \<Rightarrow> findings" where
  "evaluateField r policy events f =
     (let state = stateForEvent policy (fieldName f) (fieldSchemaMandatory f) (fieldRelevance f)
                    events (vEventType r);
          empty = isEmpty r (fieldName f)
      in if state = FieldHidden then []
         else
           (if state = FieldSchemaMandatory \<or> state = FieldCompanyMandatory then
              (if empty then
                 [\<lparr>RuleID = RuleFieldRequired, Severity = SeverityError, Field = fieldName f,
                   Message = Sprintf ''%s is required'' [AString (fieldLabel f)]\<rparr>] else [])
            else if state = FieldRecommended then
              (if empty then
                 [\<lparr>RuleID = RuleFieldRequired, Severity = SeverityWarning, Field = fieldName f,
                   Message = Sprintf ''%s is recommended but empty'' [AString (fieldLabel f)]\<rparr>] else [])
            else []) @
           (if \<not> empty then checkFieldFormat r f else []))"

definition evaluateFieldRules ::
  "vreport \<Rightarrow> schema \<Rightarrow> fieldPolicy \<Rightarrow> fieldEvents \<Rightarrow> findings" where
  "evaluateFieldRules r s policy events =
     concat (map (evaluateField r policy events) (schemaFields s))"

definition parseEventTime :: "string \<Rightarrow> string \<Rightarrow> gotime option" where
  "parseEventTime dateUTC timeUTC = time_parse dateTimeLayout (dateUTC @ '' '' @ timeUTC)"

section \<open>Lemmas\<close>

text \<open>What it means for a value to conform to the declaration of its field.\<close>

fun whole :: "float64 \<Rightarrow> bool" where
  "whole NaN = False"
| "whole (F64 q) \<longleftrightarrow> q = of_int \<lfloor>q\<rfloor>"
| "whole _ = True"

definition is_layout :: "chunk list \<Rightarrow> json option \<Rightarrow> bool" where
  "is_layout l v \<longleftrightarrow> (\<exists>s t. v = Some (JStr s) \<and> time_parse l s = Some t)"

definition conforms :: "field \<Rightarrow> json option \<Rightarrow> bool" where
  "conforms f v =
     (case fieldType f of
        FieldTypeText \<Rightarrow>
          \<exists>s. v = Some (JStr s) \<and> (\<forall>n. fieldMaxLength f = Some n \<longrightarrow> int (length s) \<le> n)
      | FieldTypeEnum \<Rightarrow>
          \<exists>s. v = Some (JStr s) \<and> (\<forall>n. fieldMaxLength f = Some n \<longrightarrow> int (length s) \<le> n)
      | FieldTypeWholeNumber \<Rightarrow> \<exists>x. v = Some (JNum x) \<and> whole x
      | FieldTypeDecimal \<Rightarrow> \<exists>x. v = Some (JNum x)
      | FieldTypeBoolean \<Rightarrow> \<exists>b. v = Some (JBool b)
      | FieldTypeDate \<Rightarrow> is_layout dateLayout v
      | FieldTypeTime \<Rightarrow> is_layout timeLayout v
      | FieldTypeDateTime \<Rightarrow> is_layout dateTimeLayout v
      | FieldTypeOther _ \<Rightarrow> True)"

lemma as_Some_iff [simp]:
  "as_float v = Some x \<longleftrightarrow> v = JNum x"
  "as_string v = Some s \<longleftrightarrow> v = JStr s"
  "as_bool v = Some b \<longleftrightarrow> v = JBool b"
  by (cases v; auto)+

lemma f64_eq_trunc: "f64_eq x (f64_trunc x) \<longleftrightarrow> whole x"
proof (cases x)
  case (F64 q)
  have "q = of_int \<lceil>q\<rceil> \<longleftrightarrow> q = of_int \<lfloor>q\<rfloor>"
    by (metis ceiling_of_int floor_of_int)
  moreover have "q \<noteq> of_int \<lfloor>q\<rfloor>" if "- 1 < q" "q < 0"
  proof
    assume eq: "q = of_int \<lfloor>q\<rfloor>"
    with that have "- 1 < \<lfloor>q\<rfloor>" "\<lfloor>q\<rfloor> < 0" by linarith+
    then show False by simp
  qed
  ultimately show ?thesis using F64 by (auto simp: f64_eq_def)
qed (auto simp: f64_eq_def)

lemma check_text_Nil: "check_text f v = [] \<longleftrightarrow>
    (\<exists>s. v = Some (JStr s) \<and> (\<forall>n. fieldMaxLength f = Some n \<longrightarrow> int (length s) \<le> n))"
  by (auto simp: check_text_def not_less bind_eq_Some_conv split: option.splits)

lemma check_datetime_Nil: "check_datetime l f v = [] \<longleftrightarrow> is_layout l v"
  by (auto simp: check_datetime_def is_layout_def bind_eq_Some_conv split: option.splits)

lemma checkFieldFormat_Nil:
  "checkFieldFormat r f = [] \<longleftrightarrow> conforms f (field_get (vFields r) (fieldName f))"
  by (auto simp: checkFieldFormat_def conforms_def check_text_Nil check_datetime_Nil f64_eq_trunc
      bind_eq_Some_conv split: field_type.splits option.splits)

lemma checkFieldFormat_severity: "x \<in> set (checkFieldFormat r f) \<Longrightarrow>
    Severity x = SeverityError \<and> Field x = fieldName f \<and> RuleID x \<noteq> RuleFieldRequired"
  by (auto simp: checkFieldFormat_def Let_def check_text_def check_datetime_def typeErr_def
      RuleFieldRequired_def RuleFieldType_def RuleFieldMaxLength_def RuleFieldFormat_def
      split: field_type.splits option.splits if_splits)

definition mandatory :: "policy_state \<Rightarrow> bool" where
  "mandatory s \<longleftrightarrow> s = FieldSchemaMandatory \<or> s = FieldCompanyMandatory"

lemma evaluateField_hidden: "field_state p e r f = FieldHidden \<Longrightarrow> evaluateField r p e f = []"
  by (simp add: evaluateField_def field_state_def)

lemma hasErrors_checkFieldFormat:
  "hasErrors (checkFieldFormat r f) \<longleftrightarrow> \<not> conforms f (field_get (vFields r) (fieldName f))"
  using checkFieldFormat_severity[of _ r f] checkFieldFormat_Nil[of r f]
  by (cases "checkFieldFormat r f") auto

lemma hasErrors_evaluateField:
  "hasErrors (evaluateField r p e f) \<longleftrightarrow>
   field_state p e r f \<noteq> FieldHidden \<and>
   (if isEmpty r (fieldName f) then mandatory (field_state p e r f)
    else \<not> conforms f (field_get (vFields r) (fieldName f)))"
  by (auto simp: evaluateField_def field_state_def mandatory_def Let_def hasErrors_checkFieldFormat)

lemma hasErrors_concat: "hasErrors (concat fss) \<longleftrightarrow> (\<exists>fs \<in> set fss. hasErrors fs)"
  by (auto simp: hasErrors_iff)

lemma evaluateField_Field: "x \<in> set (evaluateField r p e f) \<Longrightarrow> Field x = fieldName f"
  by (auto simp: evaluateField_def Let_def dest: checkFieldFormat_severity split: if_splits)

lemma parseEventTime_minute: "parseEventTime d t = Some x \<Longrightarrow> minute dvd x"
  unfolding parseEventTime_def by (rule time_parse_minute)

end
