(* ===== verification/Continuity.thy ===== *)
theory Continuity
  imports FieldRules Plausibility "HOL-Library.Multiset"
begin

text \<open>
  \<open>pkg/validation/continuity.go\<close>, \<open>cascade.go\<close> and \<open>precheck.go\<close>: the rules that span
  consecutive reports, cascade revalidation of a chain and the pre-submit check of one report against the chain.

  \<open>sort.Slice\<close> may order reports of equal event time in any way: it is an argument, a function from the list of
  keys to the list of positions in sorted order, and the locale \<open>slice_sort\<close> states its contract.
  \<open>sort.SliceStable\<close> is the stable instance.

  Lemmas: closed forms of the four rules, the rules a cascade records for a report, independence of the sort and
  of the iteration order of Go's maps, and the agreement of the pre-submit check with the cascade.
\<close>

section \<open>Sorting\<close>

type_synonym slice_sorter = "int list \<Rightarrow> nat list"

definition sort_slice :: "slice_sorter \<Rightarrow> ('a \<Rightarrow> int) \<Rightarrow> 'a list \<Rightarrow> 'a list" where
  "sort_slice p key xs = map ((!) xs) (p (map key xs))"

definition stable_sorter :: slice_sorter where
  "stable_sorter ks = sort_key ((!) ks) [0..<length ks]"

definition slice_stable :: "('a \<Rightarrow> int) \<Rightarrow> 'a list \<Rightarrow> 'a list" where
  "slice_stable key xs = sort_slice stable_sorter key xs"

locale slice_sort =
  fixes p :: slice_sorter
  assumes permutes: "mset (p ks) = mset [0..<length ks]"
    and sorts: "sorted (map ((!) ks) (p ks))"
begin

lemma mset_sort_slice: "mset (sort_slice p key xs) = mset xs"
proof -
  have "mset (sort_slice p key xs) = image_mset ((!) xs) (mset [0..<length xs])"
    using permutes[of "map key xs"] by (simp add: sort_slice_def)
  also have "\<dots> = mset (map ((!) xs) [0..<length xs])" by simp
  also have "\<dots> = mset xs" by (simp only: map_nth)
  finally show ?thesis .
qed

lemma set_sort_slice [simp]: "set (sort_slice p key xs) = set xs"
  using mset_sort_slice by (rule mset_eq_setD)

lemma length_sort_slice [simp]: "length (sort_slice p key xs) = length xs"
  using mset_sort_slice by (rule mset_eq_length)

lemma distinct_map_sort_slice: "distinct (map f (sort_slice p key xs)) = distinct (map f xs)"
proof (rule mset_eq_imp_distinct_iff)
  show "mset (map f (sort_slice p key xs)) = mset (map f xs)"
    unfolding mset_map mset_sort_slice ..
qed

lemma sorted_sort_slice: "sorted (map key (sort_slice p key xs))"
proof -
  have "set (p (map key xs)) = {0..<length xs}"
    using permutes[of "map key xs"] by (metis length_map mset_eq_setD set_upt)
  then have "map key (sort_slice p key xs) = map ((!) (map key xs)) (p (map key xs))"
    by (auto simp: sort_slice_def)
  with sorts[of "map key xs"] show ?thesis by simp
qed

text \<open>With distinct keys there is only one sorted order.\<close>

lemma sort_slice_unique:
  assumes "distinct (map key xs)" and "mset ys = mset xs" and "sorted (map key ys)"
  shows "sort_slice p key xs = ys"
proof (rule map_inj_on)
  have "mset (map key (sort_slice p key xs)) = mset (map key ys)"
    using assms(2) mset_sort_slice[of key xs] by (simp only: mset_map)
  then show "map key (sort_slice p key xs) = map key ys"
    using assms(3) sorted_sort_slice[of key xs] by (metis properties_for_sort)
  show "inj_on key (set (sort_slice p key xs) \<union> set ys)"
    using assms by (auto simp: distinct_map dest: mset_eq_setD)
qed

end

lemma set_stable_sorter: "set (stable_sorter ks) = {0..<length ks}"
  by (simp add: stable_sorter_def)

lemma slice_sort_stable: "slice_sort stable_sorter"
  by unfold_locales (simp_all add: stable_sorter_def)

interpretation stable: slice_sort stable_sorter
  by (rule slice_sort_stable)

text \<open>A sorter that is not stable: it puts reports of equal event time in the opposite of their given order.\<close>

definition reversing_sorter :: slice_sorter where
  "reversing_sorter ks = sort_key ((!) ks) (rev [0..<length ks])"

lemma slice_sort_reversing: "slice_sort reversing_sorter"
  by unfold_locales (simp_all add: reversing_sorter_def)

interpretation reversing: slice_sort reversing_sorter
  by (rule slice_sort_reversing)

lemma map_insort_key: "map f (insort_key (\<lambda>x. g (f x)) a xs) = insort_key g (f a) (map f xs)"
  by (induction xs) auto

lemma map_sort_key: "map f (sort_key (\<lambda>x. g (f x)) xs) = sort_key g (map f xs)"
  by (induction xs) (auto simp: map_insort_key)

lemma sort_key_idx_cong: "(\<And>x. x \<in> set xs \<Longrightarrow> f x = g x) \<Longrightarrow> sort_key f xs = sort_key g xs"
proof (induction xs)
  case (Cons a xs)
  have "insort_key f a ys = insort_key g a ys" if "set ys \<subseteq> set (a # xs)" for ys
    using that Cons.prems by (induction ys) auto
  then have "insort_key f a (sort_key f xs) = insort_key g a (sort_key f xs)"
    by (metis list.simps(15) set_sort subset_insertI)
  with Cons show ?case by simp
qed simp

lemma slice_stable_sort_key: "slice_stable key xs = sort_key key xs"
proof -
  have "sort_key ((!) (map key xs)) [0..<length xs] = sort_key (\<lambda>i. key (xs ! i)) [0..<length xs]"
    by (rule sort_key_idx_cong) auto
  then have "slice_stable key xs = map ((!) xs) (sort_key (\<lambda>i. key (xs ! i)) [0..<length xs])"
    by (simp add: slice_stable_def sort_slice_def stable_sorter_def)
  also have "\<dots> = sort_key key (map ((!) xs) [0..<length xs])" by (rule map_sort_key)
  finally show ?thesis by (simp only: map_nth)
qed

section \<open>Continuity rules\<close>

definition RuleTimeChain :: string where "RuleTimeChain = ''continuity.timeChain''"
definition RuleROBContinuity :: string where "RuleROBContinuity = ''continuity.robContinuity''"
definition RuleEventOrdering :: string where "RuleEventOrdering = ''continuity.eventOrdering''"
definition RuleTimestampUniqueness :: string where
  "RuleTimestampUniqueness = ''continuity.timestampUniqueness''"

lemmas continuity_rules =
  RuleTimeChain_def RuleROBContinuity_def RuleEventOrdering_def RuleTimestampUniqueness_def

definition evaluateTimeChain :: "vreport \<Rightarrow> vreport option \<Rightarrow> config \<Rightarrow> findings" where
  "evaluateTimeChain r prev cfg =
     (case prev of None \<Rightarrow> []
      | Some pr \<Rightarrow>
          (case r_Float r ''Time_Since_Previous_Report'' of None \<Rightarrow> []
           | Some tsp \<Rightarrow>
               let actual = duration_hours (time_sub (vEventTime r) (vEventTime pr)) in
               if f64_gt (f64_abs (f64_sub tsp actual)) (TimeChainToleranceHours cfg) then
                 [\<lparr>RuleID = RuleTimeChain, Severity = severity_of cfg RuleTimeChain SeverityWarning,
                   Field = ''Time_Since_Previous_Report'',
                   Message = Sprintf
                     ''Time_Since_Previous_Report is %.2fh, but %.2fh elapsed since the previous report''
                     [AFloat tsp, AFloat actual]\<rparr>]
               else []))"

text \<open>The accumulation loop over the consumption fields; an absent value counts as zero.\<close>

definition consumption_of :: "vreport \<Rightarrow> string list \<Rightarrow> float64" where
  "consumption_of r fs =
     fold (\<lambda>f acc. f64_add acc (case r_Float r f of Some v \<Rightarrow> v | None \<Rightarrow> f64_zero)) fs f64_zero"

definition rob_series_findings :: "vreport \<Rightarrow> vreport \<Rightarrow> config \<Rightarrow> robSeries \<Rightarrow> findings" where
  "rob_series_findings r prev cfg s =
     (case (r_Float r (ROBField s), r_Float prev (ROBField s)) of
        (Some cur, Some prior) \<Rightarrow>
          let consumption = consumption_of r (ConsumptionFields s);
              bunkered = (case gm_lookup (BunkeredAmounts cfg) (Name s) of Some b \<Rightarrow> b | None \<Rightarrow> f64_zero);
              expected = f64_add (f64_sub prior consumption) bunkered
          in if f64_gt (f64_abs (f64_sub cur expected)) (ROBToleranceMt cfg) then
               [\<lparr>RuleID = RuleROBContinuity,
                 Severity = severity_of cfg RuleROBContinuity SeverityWarning,
                 Field = ROBField s,
                 Message = Sprintf
                   ''%s is %.2f, expected %.2f (previous %.2f - consumption %.2f + bunkered %.2f)''
                   [AString (ROBField s), AFloat cur, AFloat expected, AFloat prior,
                    AFloat consumption, AFloat bunkered]\<rparr>]
             else []
      | _ \<Rightarrow> [])"

definition evaluateROBContinuity :: "vreport \<Rightarrow> vreport option \<Rightarrow> config \<Rightarrow> findings" where
  "evaluateROBContinuity r prev cfg =
     (case prev of None \<Rightarrow> []
      | Some pr \<Rightarrow> concat (map (rob_series_findings r pr cfg) (ROBSeriesList cfg)))"

text \<open>\<open>map[string]Findings\<close>, and \<open>r.EventTime.Unix() / 60\<close>, a division that truncates.\<close>

type_synonym findings_map = "(string, findings) gomap"

definition minute_key :: "vreport \<Rightarrow> int" where
  "minute_key r = time_unix (vEventTime r) sdiv 60"

definition by_minute :: "vreport list \<Rightarrow> (int, vreport list) gomap" where
  "by_minute chain = fold (\<lambda>r m. gm_append (minute_key r) r m) chain []"

definition uniqueness_finding :: "config \<Rightarrow> vreport \<Rightarrow> finding" where
  "uniqueness_finding cfg r =
     \<lparr>RuleID = RuleTimestampUniqueness,
      Severity = severity_of cfg RuleTimestampUniqueness SeverityError, Field = '''',
      Message = Sprintf ''another report shares the same timestamp %s at minute resolution''
        [ATime (vEventTime r)]\<rparr>"

text \<open>The loop over the buckets, in the iteration order given by the list.\<close>

definition uniqueness_buckets :: "config \<Rightarrow> (int \<times> vreport list) list \<Rightarrow> findings_map" where
  "uniqueness_buckets cfg buckets =
     fold (\<lambda>(key, reports) out.
         if length reports < 2 then out
         else fold (\<lambda>r out. gm_append (vReportID r) (uniqueness_finding cfg r) out) reports out)
       buckets []"

definition evaluateTimestampUniqueness :: "vreport list \<Rightarrow> config \<Rightarrow> findings_map" where
  "evaluateTimestampUniqueness chain cfg = uniqueness_buckets cfg (by_minute chain)"

definition stageOf :: "alternatingGroup \<Rightarrow> string \<Rightarrow> int" where
  "stageOf g eventType =
     (if eventType \<in> set (Stage0 g) then 0
      else if eventType \<in> set (Stage1 g) then 1
      else -1)"

definition ordering_finding :: "config \<Rightarrow> alternatingGroup \<Rightarrow> vreport \<Rightarrow> finding" where
  "ordering_finding cfg g r =
     \<lparr>RuleID = RuleEventOrdering, Severity = severity_of cfg RuleEventOrdering SeverityWarning,
      Field = '''',
      Message = Sprintf ''%q cannot follow another event in the same %q sequence without alternating''
        [AString (vEventType r), AString (groupName g)]\<rparr>"

text \<open>The pass over the chain for one group, with its loop variable \<open>lastStage\<close>.\<close>

fun ordering_pass ::
  "config \<Rightarrow> alternatingGroup \<Rightarrow> int \<Rightarrow> vreport list \<Rightarrow> findings_map \<Rightarrow> findings_map" where
  "ordering_pass cfg g lastStage [] out = out"
| "ordering_pass cfg g lastStage (r # chain) out =
     (let stage = stageOf g (vEventType r) in
      if stage = -1 then ordering_pass cfg g lastStage chain out
      else ordering_pass cfg g stage chain
        (if lastStage = stage then gm_append (vReportID r) (ordering_finding cfg g r) out else out))"

definition evaluateEventOrdering :: "vreport list \<Rightarrow> config \<Rightarrow> findings_map" where
  "evaluateEventOrdering chain cfg =
     fold (\<lambda>g out. ordering_pass cfg g (-1) chain out) (EventGroups cfg) []"

section \<open>Cascade revalidation\<close>

type_synonym cascadeResult = "(string, string list) gomap"

definition isInvalidated :: "cascadeResult \<Rightarrow> string \<Rightarrow> bool" where
  "isInvalidated c reportID \<longleftrightarrow> length (gm_list c reportID) > 0"

text \<open>The closure \<open>record\<close>.\<close>

definition record_rule :: "string \<Rightarrow> string \<Rightarrow> cascadeResult \<Rightarrow> cascadeResult" where
  "record_rule reportID ruleID m =
     (if ruleID \<in> set (gm_list m reportID) then m else gm_append reportID ruleID m)"

fun neighbour_pass :: "config \<Rightarrow> vreport option \<Rightarrow> vreport list \<Rightarrow> cascadeResult \<Rightarrow> cascadeResult" where
  "neighbour_pass cfg prev [] m = m"
| "neighbour_pass cfg prev (r # rs) m =
     (let m = (if hasErrors (evaluateTimeChain r prev cfg)
                 then record_rule (vReportID r) RuleTimeChain m else m);
          m = (if hasErrors (evaluateROBContinuity r prev cfg)
                 then record_rule (vReportID r) RuleROBContinuity m else m)
      in neighbour_pass cfg (Some r) rs m)"

text \<open>The loop over a map of findings, in the iteration order given by the list.\<close>

definition record_findings :: "string \<Rightarrow> (string \<times> findings) list \<Rightarrow> cascadeResult \<Rightarrow> cascadeResult" where
  "record_findings ruleID es m =
     fold (\<lambda>(reportID, fs) m. if hasErrors fs then record_rule reportID ruleID m else m) es m"

definition revalidate :: "slice_sorter \<Rightarrow> vreport list \<Rightarrow> config option \<Rightarrow> cascadeResult" where
  "revalidate p chain cfg0 =
     (let cfg = config_or_default cfg0;
          ordered = sort_slice p vEventTime chain;
          result = neighbour_pass cfg None ordered [];
          result = record_findings RuleEventOrdering (evaluateEventOrdering ordered cfg) result
      in record_findings RuleTimestampUniqueness (evaluateTimestampUniqueness ordered cfg) result)"

section \<open>The pre-submit check\<close>

text \<open>The search loop for the report among the merged chain.\<close>

fun precheck_pass :: "config \<Rightarrow> vreport \<Rightarrow> vreport option \<Rightarrow> vreport list \<Rightarrow> findings" where
  "precheck_pass cfg r prev [] = []"
| "precheck_pass cfg r prev (candidate # rest) =
     (if vReportID candidate = vReportID r
      then evaluateTimeChain r prev cfg @ evaluateROBContinuity r prev cfg
      else precheck_pass cfg r (Some candidate) rest)"

definition evaluateContinuity :: "vreport \<Rightarrow> vreport list \<Rightarrow> config option \<Rightarrow> findings" where
  "evaluateContinuity r chain cfg0 =
     (let cfg = config_or_default cfg0;
          merged = slice_stable vEventTime (filter (\<lambda>other. vReportID other \<noteq> vReportID r) chain @ [r])
      in precheck_pass cfg r None merged @
         gm_list (evaluateEventOrdering merged cfg) (vReportID r) @
         gm_list (evaluateTimestampUniqueness merged cfg) (vReportID r))"

section \<open>Closed forms\<close>

text \<open>Every report of a chain with its predecessor.\<close>

fun preds :: "'a option \<Rightarrow> 'a list \<Rightarrow> ('a option \<times> 'a) list" where
  "preds prev [] = []"
| "preds prev (r # rs) = (prev, r) # preds (Some r) rs"

lemma snd_preds: "map snd (preds prev rs) = rs"
  by (induction prev rs rule: preds.induct) auto

lemma gm_list_record_rule [simp]:
  "gm_list (record_rule i rule m) x = (if x = i then append_new rule (gm_list m i) else gm_list m x)"
  by (auto simp: record_rule_def append_new_def)

lemma gm_wf_record_rule [simp, intro]: "gm_wf m \<Longrightarrow> gm_wf (record_rule i rule m)"
  by (simp add: record_rule_def)

lemma set_neighbour_pass:
  "set (gm_list (neighbour_pass cfg prev rs m) i) = set (gm_list m i) \<union>
     {rule. \<exists>(pr, r) \<in> set (preds prev rs). vReportID r = i \<and>
        (rule = RuleTimeChain \<and> hasErrors (evaluateTimeChain r pr cfg) \<or>
         rule = RuleROBContinuity \<and> hasErrors (evaluateROBContinuity r pr cfg))}"
  by (induction cfg prev rs m rule: neighbour_pass.induct) (auto simp: Let_def)

lemma gm_wf_neighbour_pass: "gm_wf m \<Longrightarrow> gm_wf (neighbour_pass cfg prev rs m)"
  by (induction cfg prev rs m rule: neighbour_pass.induct) (simp_all add: Let_def)

lemma distinct_neighbour_pass:
  "(\<And>i. distinct (gm_list m i)) \<Longrightarrow> distinct (gm_list (neighbour_pass cfg prev rs m) i)"
  by (induction cfg prev rs m rule: neighbour_pass.induct) (simp_all add: Let_def)

text \<open>
  The loop over a map of findings reads each entry once: its result does not depend on the iteration order.
\<close>

lemma gm_list_record_findings:
  "distinct (map fst es) \<Longrightarrow>
   gm_list (record_findings rule es m) i =
     (if hasErrors (gm_list es i) then append_new rule (gm_list m i) else gm_list m i)"
proof (induction es arbitrary: m)
  case (Cons e es)
  obtain k fs where e: "e = (k, fs)" by (cases e)
  have "gm_list es k = []"
    using Cons.prems e by (simp add: gm_list_def map_of_eq_None_iff[THEN iffD2])
  then show ?case
    using Cons e by (auto simp: record_findings_def gm_list_Cons)
qed (simp add: record_findings_def)

lemma gm_wf_record_findings: "gm_wf m \<Longrightarrow> gm_wf (record_findings rule es m)"
  unfolding record_findings_def by (induction es arbitrary: m) (auto split: prod.splits)

lemma gm_list_perm:
  assumes "distinct (map fst es)" and "mset es' = mset es"
  shows "gm_list es' i = gm_list es i"
proof -
  have "distinct (map fst es')"
    using assms by (metis mset_eq_imp_distinct_iff mset_map)
  then have "map_of es' i = Some v \<longleftrightarrow> map_of es i = Some v" for v
    using assms by (metis map_of_eq_Some_iff mset_eq_setD)
  then have "map_of es' i = map_of es i" by (metis not_Some_eq)
  then show ?thesis by (simp add: gm_list_def)
qed

text \<open>Event ordering: the reports that repeat the last stage of a group.\<close>

fun repeats :: "alternatingGroup \<Rightarrow> int \<Rightarrow> vreport list \<Rightarrow> vreport list" where
  "repeats g lastStage [] = []"
| "repeats g lastStage (r # chain) =
     (let stage = stageOf g (vEventType r) in
      if stage = -1 then repeats g lastStage chain
      else (if lastStage = stage then [r] else []) @ repeats g stage chain)"

lemma gm_list_ordering_pass:
  "gm_list (ordering_pass cfg g l chain out) i =
     gm_list out i @ map (ordering_finding cfg g) (filter (\<lambda>r. vReportID r = i) (repeats g l chain))"
  by (induction cfg g l chain out rule: ordering_pass.induct) (auto simp: Let_def)

lemma gm_wf_ordering_pass: "gm_wf out \<Longrightarrow> gm_wf (ordering_pass cfg g l chain out)"
  by (induction cfg g l chain out rule: ordering_pass.induct) (simp_all add: Let_def)

definition ordering_findings :: "config \<Rightarrow> vreport list \<Rightarrow> string \<Rightarrow> findings" where
  "ordering_findings cfg chain i =
     concat (map (\<lambda>g. map (ordering_finding cfg g)
       (filter (\<lambda>r. vReportID r = i) (repeats g (-1) chain))) (EventGroups cfg))"

lemma gm_list_evaluateEventOrdering [simp]:
  "gm_list (evaluateEventOrdering chain cfg) i = ordering_findings cfg chain i"
proof -
  have "gm_list (fold (\<lambda>g out. ordering_pass cfg g (-1) chain out) gs out) i =
      gm_list out i @ concat (map (\<lambda>g. map (ordering_finding cfg g)
        (filter (\<lambda>r. vReportID r = i) (repeats g (-1) chain))) gs)" for gs out
    by (induction gs arbitrary: out) (simp_all add: gm_list_ordering_pass)
  then show ?thesis by (simp add: evaluateEventOrdering_def ordering_findings_def)
qed

lemma gm_wf_evaluateEventOrdering [simp]: "gm_wf (evaluateEventOrdering chain cfg)"
proof -
  have "gm_wf out \<Longrightarrow> gm_wf (fold (\<lambda>g out. ordering_pass cfg g (-1) chain out) gs out)" for gs out
    by (induction gs arbitrary: out) (auto intro: gm_wf_ordering_pass)
  then show ?thesis by (simp add: evaluateEventOrdering_def)
qed

text \<open>Timestamp uniqueness: the buckets, and the findings of a report.\<close>

lemma by_minute_bucket: "gm_list (by_minute chain) k = filter (\<lambda>r. minute_key r = k) chain"
proof -
  have "gm_list (fold (\<lambda>r m. gm_append (minute_key r) r m) chain m) k =
      gm_list m k @ filter (\<lambda>r. minute_key r = k) chain" for m
    by (induction chain arbitrary: m) auto
  then show ?thesis by (simp add: by_minute_def)
qed

lemma gm_wf_by_minute [simp]: "gm_wf (by_minute chain)"
proof -
  have "gm_wf m \<Longrightarrow> gm_wf (fold (\<lambda>r m. gm_append (minute_key r) r m) chain m)" for m
    by (induction chain arbitrary: m) auto
  then show ?thesis by (simp add: by_minute_def)
qed

lemma set_uniqueness_buckets:
  "set (gm_list (uniqueness_buckets cfg bs) i) =
     uniqueness_finding cfg ` {r. vReportID r = i \<and> (\<exists>(k, rs) \<in> set bs. 2 \<le> length rs \<and> r \<in> set rs)}"
proof -
  have in1: "gm_list (fold (\<lambda>r out. gm_append (vReportID r) (uniqueness_finding cfg r) out) rs out) i =
      gm_list out i @ map (uniqueness_finding cfg) (filter (\<lambda>r. vReportID r = i) rs)" for rs out
    by (induction rs arbitrary: out) auto
  have "set (gm_list (fold (\<lambda>(key, reports) out.
         if length reports < 2 then out
         else fold (\<lambda>r out. gm_append (vReportID r) (uniqueness_finding cfg r) out) reports out) bs out) i) =
      set (gm_list out i) \<union>
      uniqueness_finding cfg ` {r. vReportID r = i \<and> (\<exists>(k, rs) \<in> set bs. 2 \<le> length rs \<and> r \<in> set rs)}" for out
  proof (induction bs arbitrary: out)
    case (Cons b bs)
    obtain k rs where b: "b = (k, rs)" by (cases b)
    have split: "{r. vReportID r = i \<and> (\<exists>(k, rs) \<in> set (b # bs). 2 \<le> length rs \<and> r \<in> set rs)} =
        (if length rs < 2 then {} else {r. vReportID r = i \<and> r \<in> set rs}) \<union>
        {r. vReportID r = i \<and> (\<exists>(k, rs) \<in> set bs. 2 \<le> length rs \<and> r \<in> set rs)}"
      by (auto simp: b)
    show ?case
      unfolding split image_Un fold_Cons comp_apply Cons b prod.case
      by (simp add: in1 b) blast
  qed simp
  then show ?thesis by (simp add: uniqueness_buckets_def)
qed

text \<open>Whether a report shares its minute with another entry of the chain.\<close>

definition shares_minute :: "vreport list \<Rightarrow> vreport \<Rightarrow> bool" where
  "shares_minute chain r \<longleftrightarrow> 2 \<le> length (filter (\<lambda>x. minute_key x = minute_key r) chain)"

lemma set_evaluateTimestampUniqueness:
  "set (gm_list (evaluateTimestampUniqueness chain cfg) i) =
     uniqueness_finding cfg ` {r \<in> set chain. vReportID r = i \<and> shares_minute chain r}"
proof -
  have "(\<exists>(k, rs) \<in> set (by_minute chain). 2 \<le> length rs \<and> r \<in> set rs) \<longleftrightarrow>
      r \<in> set chain \<and> shares_minute chain r" (is "?L \<longleftrightarrow> ?R") for r
  proof
    assume ?L
    then obtain k rs where b: "(k, rs) \<in> set (by_minute chain)" "2 \<le> length rs" "r \<in> set rs" by blast
    then have "gm_list (by_minute chain) k = rs"
      using gm_wf_distinct[OF gm_wf_by_minute[of chain]] by (simp add: gm_list_def)
    with b by_minute_bucket[of chain k] show ?R by (auto simp: shares_minute_def)
  next
    assume r: ?R
    let ?rs = "filter (\<lambda>x. minute_key x = minute_key r) chain"
    from r have "gm_list (by_minute chain) (minute_key r) = ?rs" "?rs \<noteq> []"
      by (auto simp: by_minute_bucket filter_empty_conv)
    then have "(minute_key r, ?rs) \<in> set (by_minute chain)"
      by (auto simp: gm_list_def split: option.splits dest: map_of_SomeD)
    with r show ?L by (auto simp: shares_minute_def)
  qed
  then show ?thesis
    unfolding evaluateTimestampUniqueness_def set_uniqueness_buckets by auto
qed

lemma gm_wf_evaluateTimestampUniqueness [simp]: "gm_wf (evaluateTimestampUniqueness chain cfg)"
proof -
  have "gm_wf out \<Longrightarrow> gm_wf (fold (\<lambda>r out. gm_append (vReportID r) (uniqueness_finding cfg r) out) rs out)"
    for rs out by (induction rs arbitrary: out) auto
  then have "gm_wf out \<Longrightarrow> gm_wf (fold (\<lambda>(key, reports) out.
         if length reports < 2 then out
         else fold (\<lambda>r out. gm_append (vReportID r) (uniqueness_finding cfg r) out) reports out) bs out)"
    for bs :: "(int \<times> vreport list) list" and out by (induction bs arbitrary: out) auto
  then show ?thesis by (simp add: evaluateTimestampUniqueness_def uniqueness_buckets_def)
qed

definition stages :: "alternatingGroup \<Rightarrow> vreport list \<Rightarrow> int list" where
  "stages g chain = filter (\<lambda>s. s \<noteq> -1) (map (\<lambda>r. stageOf g (vEventType r)) chain)"

lemma repeats_Nil_iff:
  "repeats g l chain = [] \<longleftrightarrow>
   successively (\<noteq>) ((if l = -1 then [] else [l]) @ stages g chain)"
proof (induction g l chain rule: repeats.induct)
  case (2 g l r chain)
  then show ?case
    by (cases "stageOf g (vEventType r) = -1"; cases "l = stageOf g (vEventType r)")
      (auto simp: stages_def Let_def)
qed (simp add: stages_def)

text \<open>The chain has no ordering finding exactly when every group alternates.\<close>

lemma ordering_findings_none:
  "(\<forall>i. ordering_findings cfg chain i = []) \<longleftrightarrow>
   (\<forall>g \<in> set (EventGroups cfg). successively (\<noteq>) (stages g chain))"
proof -
  have iff: "ordering_findings cfg chain i = [] \<longleftrightarrow>
      (\<forall>g \<in> set (EventGroups cfg). \<forall>r \<in> set (repeats g (-1) chain). vReportID r \<noteq> i)" for i
    by (simp add: ordering_findings_def filter_empty_conv)
  have "repeats g (-1) chain = []"
    if "\<forall>i. ordering_findings cfg chain i = []" "g \<in> set (EventGroups cfg)" for g
  proof (cases "repeats g (-1) chain")
    case (Cons r rs)
    with that(2) iff[of "vReportID r"] have "ordering_findings cfg chain (vReportID r) \<noteq> []" by auto
    with that(1) show ?thesis by blast
  qed
  moreover have "ordering_findings cfg chain i = []"
    if "\<forall>g \<in> set (EventGroups cfg). repeats g (-1) chain = []" for i
    using that by (simp add: ordering_findings_def)
  ultimately have "(\<forall>i. ordering_findings cfg chain i = []) \<longleftrightarrow>
      (\<forall>g \<in> set (EventGroups cfg). repeats g (-1) chain = [])" by blast
  then show ?thesis by (simp add: repeats_Nil_iff)
qed

subsection \<open>The rules recorded for a report\<close>

definition broken_rules :: "config \<Rightarrow> vreport list \<Rightarrow> string \<Rightarrow> string set" where
  "broken_rules cfg ordered i =
     {rule. \<exists>(pr, r) \<in> set (preds None ordered). vReportID r = i \<and>
        (rule = RuleTimeChain \<and> hasErrors (evaluateTimeChain r pr cfg) \<or>
         rule = RuleROBContinuity \<and> hasErrors (evaluateROBContinuity r pr cfg))} \<union>
     {rule. rule = RuleEventOrdering \<and> hasErrors (ordering_findings cfg ordered i)} \<union>
     {rule. rule = RuleTimestampUniqueness \<and>
        hasErrors (gm_list (evaluateTimestampUniqueness ordered cfg) i)}"

lemma revalidate_wf: "gm_wf (revalidate p chain cfg)"
  by (simp add: revalidate_def Let_def gm_wf_record_findings gm_wf_neighbour_pass)

lemma revalidate_set:
  "set (gm_list (revalidate p chain cfg) i) =
   broken_rules (config_or_default cfg) (sort_slice p vEventTime chain) i"
  by (auto simp: revalidate_def Let_def gm_list_record_findings gm_wf_distinct set_neighbour_pass
      broken_rules_def)

lemma revalidate_distinct: "distinct (gm_list (revalidate p chain cfg) i)"
  by (simp add: revalidate_def Let_def gm_list_record_findings gm_wf_distinct distinct_neighbour_pass)

lemma revalidate_rules:
  "set (gm_list (revalidate p chain cfg) i) \<subseteq>
   {RuleTimeChain, RuleROBContinuity, RuleEventOrdering, RuleTimestampUniqueness}"
  by (auto simp: revalidate_set broken_rules_def)

lemma isInvalidated_iff: "isInvalidated c i \<longleftrightarrow> set (gm_list c i) \<noteq> {}"
  by (simp add: isInvalidated_def)

text \<open>Under the default severities a cascade invalidates for shared minutes only.\<close>

lemma no_override_warnings:
  assumes "Severities cfg = []"
  shows "\<not> hasErrors (evaluateTimeChain r pr cfg)" "\<not> hasErrors (evaluateROBContinuity r pr cfg)"
    "\<not> hasErrors (ordering_findings cfg chain i)"
proof -
  show "\<not> hasErrors (evaluateTimeChain r pr cfg)"
    using assms by (simp add: evaluateTimeChain_def Let_def split: option.split)
  have "\<not> hasErrors (rob_series_findings r q cfg s)" for q s
    using assms by (simp add: rob_series_findings_def Let_def split: option.split)
  then show "\<not> hasErrors (evaluateROBContinuity r pr cfg)"
    by (simp add: evaluateROBContinuity_def hasErrors_concat split: option.split)
  show "\<not> hasErrors (ordering_findings cfg chain i)"
    using assms by (auto simp: ordering_findings_def hasErrors_iff ordering_finding_def)
qed

lemma hasErrors_uniqueness:
  assumes "Severities cfg = []"
  shows "hasErrors (gm_list (evaluateTimestampUniqueness chain cfg) i) \<longleftrightarrow>
    (\<exists>r \<in> set chain. vReportID r = i \<and> shares_minute chain r)"
  using assms by (auto simp: hasErrors_iff set_evaluateTimestampUniqueness uniqueness_finding_def)

lemma distinct_set_singleton: "distinct xs \<Longrightarrow> set xs = {x} \<Longrightarrow> xs = [x]"
  by (cases xs; cases "tl xs") auto

lemma shares_minute_perm: "mset xs = mset ys \<Longrightarrow> shares_minute xs r = shares_minute ys r"
  unfolding shares_minute_def by (metis mset_filter size_mset)

context slice_sort begin

lemma revalidate_sorter:
  assumes "distinct (map vEventTime chain)"
  shows "revalidate p chain cfg = revalidate stable_sorter chain cfg"
proof -
  have "sort_slice p vEventTime chain = sort_slice stable_sorter vEventTime chain"
    using assms by (rule sort_slice_unique) (simp_all add: stable.mset_sort_slice stable.sorted_sort_slice)
  then show ?thesis by (simp only: revalidate_def)
qed

lemma revalidate_input_order:
  assumes "distinct (map vEventTime chain)" and "mset chain' = mset chain"
  shows "revalidate p chain' cfg = revalidate p chain cfg"
proof -
  have "distinct (map vEventTime chain')"
    using assms by (metis mset_eq_imp_distinct_iff mset_map)
  then have "sort_slice p vEventTime chain' = sort_slice p vEventTime chain"
    by (rule sort_slice_unique) (simp_all add: assms mset_sort_slice sorted_sort_slice)
  then show ?thesis by (simp only: revalidate_def)
qed

lemma revalidate_default:
  assumes "Severities (config_or_default cfg) = []"
  shows "gm_list (revalidate p chain cfg) i =
    (if \<exists>r \<in> set chain. vReportID r = i \<and> shares_minute chain r then [RuleTimestampUniqueness] else [])"
proof -
  have "set (gm_list (revalidate p chain cfg) i) =
      (if \<exists>r \<in> set chain. vReportID r = i \<and> shares_minute chain r then {RuleTimestampUniqueness} else {})"
    using assms shares_minute_perm[OF mset_sort_slice[of vEventTime chain]]
    by (auto simp: revalidate_set broken_rules_def no_override_warnings hasErrors_uniqueness)
  then show ?thesis
    using revalidate_distinct[of p chain cfg i]
    by (cases "\<exists>r \<in> set chain. vReportID r = i \<and> shares_minute chain r") (simp_all add: distinct_set_singleton)
qed

end

subsection \<open>The pre-submit check agrees with the cascade\<close>

lemma precheck_pass_unique:
  assumes "filter (\<lambda>x. vReportID x = vReportID r) ms = [r]"
  shows "\<exists>pr. {(q, x). (q, x) \<in> set (preds prev ms) \<and> vReportID x = vReportID r} = {(pr, r)} \<and>
    precheck_pass cfg r prev ms = evaluateTimeChain r pr cfg @ evaluateROBContinuity r pr cfg"
  using assms
proof (induction cfg r prev ms rule: precheck_pass.induct)
  case (2 cfg r prev c rest)
  show ?case
  proof (cases "vReportID c = vReportID r")
    case True
    with "2.prems" have "c = r" "filter (\<lambda>x. vReportID x = vReportID r) rest = []" by auto
    moreover have "x \<in> set rest" if "(q, x) \<in> set (preds (Some r) rest)" for q x
      using that snd_preds[of "Some r" rest] by (metis image_eqI set_map snd_conv)
    ultimately show ?thesis
      by (intro exI[of _ prev]) (auto simp: filter_empty_conv)
  next
    case False
    with 2 have "filter (\<lambda>x. vReportID x = vReportID r) rest = [r]" by simp
    with "2.IH"[OF False] False show ?thesis by fastforce
  qed
qed simp

lemma RuleID_continuity:
  "f \<in> set (evaluateTimeChain r pr cfg) \<Longrightarrow> RuleID f = RuleTimeChain"
  "f \<in> set (evaluateROBContinuity r pr cfg) \<Longrightarrow> RuleID f = RuleROBContinuity"
  "f \<in> set (ordering_findings cfg chain i) \<Longrightarrow> RuleID f = RuleEventOrdering"
  "f \<in> set (gm_list (evaluateTimestampUniqueness chain cfg) i) \<Longrightarrow> RuleID f = RuleTimestampUniqueness"
  by (auto simp: evaluateTimeChain_def evaluateROBContinuity_def rob_series_findings_def Let_def
      ordering_findings_def ordering_finding_def set_evaluateTimestampUniqueness uniqueness_finding_def
      split: option.splits if_splits)

lemma blocking_rule_ids:
  assumes "\<And>f. f \<in> set fs \<Longrightarrow> RuleID f = rule"
  shows "RuleID ` {f \<in> set fs. Severity f = SeverityError} = {x. x = rule \<and> hasErrors fs}"
  using assms by (auto simp: hasErrors_iff)

lemma blocking_append:
  "RuleID ` {f \<in> set (xs @ ys). Severity f = SeverityError} =
   RuleID ` {f \<in> set xs. Severity f = SeverityError} \<union> RuleID ` {f \<in> set ys. Severity f = SeverityError}"
  by auto

lemma evaluateContinuity_blocking:
  "RuleID ` {f \<in> set (evaluateContinuity r chain cfg). Severity f = SeverityError} =
   set (gm_list (revalidate stable_sorter
     (filter (\<lambda>x. vReportID x \<noteq> vReportID r) chain @ [r]) cfg) (vReportID r))"
proof -
  define c where "c = config_or_default cfg"
  define ms where "ms = slice_stable vEventTime (filter (\<lambda>x. vReportID x \<noteq> vReportID r) chain @ [r])"
  have "mset (filter (\<lambda>x. vReportID x = vReportID r) ms) = {#r#}"
    by (simp add: ms_def slice_stable_def stable.mset_sort_slice mset_filter filter_mset_eq_conv)
  then have "filter (\<lambda>x. vReportID x = vReportID r) ms = [r]"
    by (metis mset_single_iff)
  from precheck_pass_unique[OF this, of None c] obtain pr where
    pr: "{(q, x). (q, x) \<in> set (preds None ms) \<and> vReportID x = vReportID r} = {(pr, r)}"
    and pass: "precheck_pass c r None ms = evaluateTimeChain r pr c @ evaluateROBContinuity r pr c"
    by blast
  have "(q, x) \<in> set (preds None ms) \<and> vReportID x = vReportID r \<longleftrightarrow> q = pr \<and> x = r" for q x
    using arg_cong[OF pr, of "\<lambda>S. (q, x) \<in> S"] by simp
  then have ex: "(\<exists>(q, x) \<in> set (preds None ms). vReportID x = vReportID r \<and> P q x) \<longleftrightarrow> P pr r" for P
    by fastforce
  have "evaluateContinuity r chain cfg = evaluateTimeChain r pr c @ evaluateROBContinuity r pr c @
      ordering_findings c ms (vReportID r) @ gm_list (evaluateTimestampUniqueness ms c) (vReportID r)"
    by (simp add: evaluateContinuity_def Let_def pass flip: c_def ms_def)
  then have "RuleID ` {f \<in> set (evaluateContinuity r chain cfg). Severity f = SeverityError} =
      {x. x = RuleTimeChain \<and> hasErrors (evaluateTimeChain r pr c)} \<union>
      {x. x = RuleROBContinuity \<and> hasErrors (evaluateROBContinuity r pr c)} \<union>
      {x. x = RuleEventOrdering \<and> hasErrors (ordering_findings c ms (vReportID r))} \<union>
      {x. x = RuleTimestampUniqueness \<and>
        hasErrors (gm_list (evaluateTimestampUniqueness ms c) (vReportID r))}"
    by (simp only: blocking_append RuleID_continuity[THEN blocking_rule_ids] Un_assoc)
  also have "\<dots> = broken_rules c ms (vReportID r)"
    unfolding broken_rules_def ex by blast
  finally show ?thesis
    by (simp add: revalidate_set c_def ms_def slice_stable_def)
qed

lemma evaluateContinuity_hasErrors:
  "hasErrors (evaluateContinuity r chain cfg) \<longleftrightarrow>
   isInvalidated (revalidate stable_sorter
     (filter (\<lambda>x. vReportID x \<noteq> vReportID r) chain @ [r]) cfg) (vReportID r)"
  unfolding isInvalidated_iff evaluateContinuity_blocking[symmetric] by (auto simp: hasErrors_iff)

end
