(* ===== verification/Domain.thy ===== *)
theory Domain
  imports Continuity
begin

text \<open>
  \<open>pkg/domain\<close>: the report aggregate (\<open>report.go\<close>), its lifecycle (\<open>lifecycle.go\<close>,
  \<open>state.go\<close>), audit events (\<open>event.go\<close>), chat messages, remarks and invalidation notices.

  A method that changes its receiver returns the changed report.  The clock (\<open>time.Now\<close>) and the generated
  identifier (\<open>uuid.NewV7\<close>, which may fail) are arguments.  An event's detail is kept as the JSON value the
  stores persist; a nil slice is the empty list and its JSON is \<open>null\<close>.

  Lemmas: what each method changes, the state machine of one report version, the immutability of committed data,
  the effect of a section save and when it panics, event times after a save.
\<close>

section \<open>States and events\<close>

datatype state =
    StateDraft
  | StateReady
  | StateSubmitted
  | StateSynced
  | StatePushed
  | StateRemarked
  | StateInvalidated
  | StateOther string

fun state_text :: "state \<Rightarrow> string" where
  "state_text StateDraft = ''draft''"
| "state_text StateReady = ''ready''"
| "state_text StateSubmitted = ''submitted''"
| "state_text StateSynced = ''synced''"
| "state_text StatePushed = ''pushed''"
| "state_text StateRemarked = ''remarked''"
| "state_text StateInvalidated = ''invalidated''"
| "state_text (StateOther s) = s"

text \<open>The zero value of \<open>State\<close>, the empty string.\<close>

abbreviation StateZero :: state where
  "StateZero \<equiv> StateOther ''''"

definition inChain :: "state \<Rightarrow> bool" where
  "inChain s \<longleftrightarrow> s \<noteq> StateDraft \<and> s \<noteq> StateReady"

datatype event_type =
    EventCreated
  | EventSectionSaved
  | EventHealthCheckResult
  | EventSubmitted
  | EventSynced
  | EventRemarked
  | EventCorrectionStarted
  | EventResubmitted
  | EventInvalidated
  | EventRestoreApplied
  | EventFindingAcknowledged
  | EventOther string

record event =
  evReportID :: string
  evVersionNo :: int
  evType :: event_type
  evAt :: gotime
  evActor :: string
  evDetail :: fields

definition zero_event :: event where
  "zero_event = \<lparr>evReportID = '''', evVersionNo = 0, evType = EventOther '''', evAt = zero_time,
     evActor = '''', evDetail = None\<rparr>"

record fieldChange =
  fcField :: string
  fcOldValue :: json
  fcNewValue :: json

text \<open>A map literal, and the JSON values of the Go values stored in details.\<close>

definition mk_detail :: "(string \<times> json) list \<Rightarrow> fields" where
  "mk_detail es = Some (fold (\<lambda>(k, v). gm_update k v) es [])"

definition json_of_int :: "int \<Rightarrow> json" where
  "json_of_int n = JNum (f64_of_int n)"

definition json_of_strings :: "string list \<Rightarrow> json" where
  "json_of_strings xs = (if xs = [] then JNull else JArr (map JStr xs))"

definition json_of_changes :: "fieldChange list \<Rightarrow> json" where
  "json_of_changes ds =
     (if ds = [] then JNull
      else JArr (map (\<lambda>d. JObj [(''Field'', JStr (fcField d)), (''NewValue'', fcNewValue d),
                               (''OldValue'', fcOldValue d)]) ds))"

datatype domain_error =
    ErrGenerateID
  | ErrHealthCheckState state
  | ErrHealthCheckErrors nat
  | ErrSubmitState state
  | ErrRemarkState state
  | ErrCorrectState state
  | ErrChatTooLong nat

section \<open>Reports\<close>

record report =
  ReportID :: string
  VersionNo :: int
  SchemaName :: string
  EventType :: string
  EventTime :: gotime
  Fields :: fields
  State :: state
  InvalidatedFrom :: state
  InvalidatedRules :: "string list"
  CreatedAt :: gotime
  CreatedBy :: string
  UpdatedAt :: gotime
  SubmittedAt :: gotime
  SubmittedBy :: string

definition toValidation :: "report \<Rightarrow> vreport" where
  "toValidation r =
     \<lparr>vReportID = ReportID r, vVersionNo = VersionNo r, vSchemaName = SchemaName r,
      vEventType = EventType r, vEventTime = EventTime r, vFields = Fields r\<rparr>"

definition field_string :: "fields \<Rightarrow> string \<Rightarrow> string option" where
  "field_string fs name = Option.bind (field_get fs name) as_string"

definition recomputeEventTime :: "report \<Rightarrow> report \<times> bool" where
  "recomputeEventTime r =
     (case (field_string (Fields r) ''Date_UTC'', field_string (Fields r) ''Time_UTC'') of
        (Some dateVal, Some timeVal) \<Rightarrow>
          (case parseEventTime dateVal timeVal of
             None \<Rightarrow> (r, False)
           | Some t \<Rightarrow> if t = EventTime r then (r, False) else (r\<lparr>EventTime := t\<rparr>, True))
      | _ \<Rightarrow> (r, False))"

text \<open>\<open>strconv.FormatFloat(x, 'f', 0, 64)\<close>: the nearest integer, ties to even, in decimal.\<close>

fun decimal :: "nat \<Rightarrow> string" where
  "decimal n = (if n < 10 then [char_of (48 + n)] else decimal (n div 10) @ [char_of (48 + n mod 10)])"

declare decimal.simps [simp del]

fun format_float0 :: "float64 \<Rightarrow> string" where
  "format_float0 NaN = ''NaN''"
| "format_float0 PInf = ''+Inf''"
| "format_float0 NInf = ''-Inf''"
| "format_float0 NZero = ''-0''"
| "format_float0 (F64 q) =
     (if q < 0 then ''-'' else '''') @ decimal (nat (round_half_even \<bar>q\<bar>))"

definition naturalKey :: "report \<Rightarrow> (string \<times> string \<times> string) option" where
  "naturalKey r =
     (case (field_string (Fields r) ''Date_UTC'', field_string (Fields r) ''Time_UTC'',
            Option.bind (field_get (Fields r) ''IMO'') as_float) of
        (Some dateVal, Some timeVal, Some imoVal) \<Rightarrow> Some (format_float0 imoVal, dateVal, timeVal)
      | _ \<Rightarrow> None)"

definition newReport ::
  "string option \<Rightarrow> gotime \<Rightarrow> string \<Rightarrow> string \<Rightarrow> gotime \<Rightarrow> fields \<Rightarrow> string
   \<Rightarrow> domain_error + (report \<times> event)" where
  "newReport uuid now schema_name event_type event_time flds createdBy =
     (case uuid of
        None \<Rightarrow> Inl ErrGenerateID
      | Some uid \<Rightarrow>
          let r = \<lparr>ReportID = uid, VersionNo = 1, SchemaName = schema_name, EventType = event_type,
                   EventTime = event_time, Fields = flds, State = StateDraft,
                   InvalidatedFrom = StateZero, InvalidatedRules = [], CreatedAt = now,
                   CreatedBy = createdBy, UpdatedAt = now, SubmittedAt = zero_time, SubmittedBy = ''''\<rparr>;
              r = fst (recomputeEventTime r)
          in Inr (r, \<lparr>evReportID = ReportID r, evVersionNo = VersionNo r, evType = EventCreated,
                     evAt = now, evActor = createdBy,
                     evDetail = mk_detail [(''schemaName'', JStr schema_name),
                                           (''eventType'', JStr event_type)]\<rparr>))"

text \<open>
  The loop of \<open>SaveSection\<close> over the changed fields, in the order in which Go ranges over the map
  \<open>changes\<close>; \<open>None\<close> is the panic of a write to the nil map.
\<close>

definition any_value :: "json option \<Rightarrow> json" where
  "any_value v = (case v of None \<Rightarrow> JNull | Some x \<Rightarrow> x)"

fun save_loop ::
  "(string \<times> json) list \<Rightarrow> fields \<Rightarrow> fieldChange list \<Rightarrow> (fields \<times> fieldChange list) option" where
  "save_loop [] fs ds = Some (fs, ds)"
| "save_loop ((name, newVal) # cs) fs ds =
     (let oldVal = any_value (field_get fs name) in
      if deep_equal oldVal newVal then save_loop cs fs ds
      else case fs of
        None \<Rightarrow> None
      | Some m \<Rightarrow>
          save_loop cs (Some (gm_update name newVal m))
            (ds @ [\<lparr>fcField = name, fcOldValue = oldVal, fcNewValue = newVal\<rparr>]))"

definition saveSection ::
  "gotime \<Rightarrow> string \<Rightarrow> (string \<times> json) list \<Rightarrow> string \<Rightarrow> report \<Rightarrow> (report \<times> event) option" where
  "saveSection now section changes actor r =
     (case save_loop changes (Fields r) [] of
        None \<Rightarrow> None
      | Some (fs, deltas) \<Rightarrow>
          let r = r\<lparr>Fields := fs\<rparr>;
              r = (if deltas \<noteq> [] then
                     fst (recomputeEventTime
                       (r\<lparr>UpdatedAt := now,
                         State := (if State r = StateReady then StateDraft else State r)\<rparr>))
                   else r)
          in Some (r, \<lparr>evReportID = ReportID r, evVersionNo = VersionNo r, evType = EventSectionSaved,
                      evAt = now, evActor = actor,
                      evDetail = mk_detail [(''section'', JStr section),
                                            (''changes'', json_of_changes deltas)]\<rparr>))"

section \<open>Lifecycle\<close>

text \<open>\<open>MarkReady\<close> returns its event and its error side by side; \<open>None\<close> is the nil error.\<close>

definition markReady :: "gotime \<Rightarrow> findings \<Rightarrow> report \<Rightarrow> report \<times> event \<times> domain_error option" where
  "markReady now fs r =
     (if State r \<noteq> StateDraft \<and> State r \<noteq> StateReady
      then (r, zero_event, Some (ErrHealthCheckState (State r)))
      else
        let errs = length (filter (\<lambda>f. Severity f = SeverityError) fs);
            warnings = length (filter (\<lambda>f. Severity f = SeverityWarning) fs);
            infos = length (filter (\<lambda>f. Severity f \<noteq> SeverityError \<and> Severity f \<noteq> SeverityWarning) fs);
            r = r\<lparr>UpdatedAt := now\<rparr>;
            event = \<lparr>evReportID = ReportID r, evVersionNo = VersionNo r,
                     evType = EventHealthCheckResult, evAt = now, evActor = '''',
                     evDetail = mk_detail [(''errors'', json_of_int (int errs)),
                                           (''warnings'', json_of_int (int warnings)),
                                           (''info'', json_of_int (int infos))]\<rparr>
        in if errs > 0
           then (r\<lparr>State := StateDraft\<rparr>, event, Some (ErrHealthCheckErrors errs))
           else (r\<lparr>State := StateReady\<rparr>, event, None))"

definition submit :: "gotime \<Rightarrow> string \<Rightarrow> report \<Rightarrow> domain_error + (report \<times> event)" where
  "submit now actor r =
     (if State r \<noteq> StateReady then Inl (ErrSubmitState (State r))
      else
        let eventType = (if VersionNo r > 1 then EventResubmitted else EventSubmitted);
            r = r\<lparr>State := StateSubmitted, SubmittedAt := now, SubmittedBy := actor, UpdatedAt := now\<rparr>
        in Inr (r, \<lparr>evReportID = ReportID r, evVersionNo = VersionNo r, evType = eventType,
                   evAt = now, evActor = actor, evDetail = None\<rparr>))"

definition markSynced :: "gotime \<Rightarrow> report \<Rightarrow> (report \<times> event) option" where
  "markSynced at_time r =
     (if State r \<noteq> StateSubmitted then None
      else
        let r = r\<lparr>State := StateSynced, UpdatedAt := at_time\<rparr>
        in Some (r, \<lparr>evReportID = ReportID r, evVersionNo = VersionNo r, evType = EventSynced,
                    evAt = at_time, evActor = '''', evDetail = None\<rparr>))"

definition markRemarked ::
  "string list \<Rightarrow> string \<Rightarrow> gotime \<Rightarrow> report \<Rightarrow> domain_error + (report \<times> event)" where
  "markRemarked flds actor at_time r =
     (if State r = StateDraft \<or> State r = StateReady then Inl (ErrRemarkState (State r))
      else
        let r = r\<lparr>State := StateRemarked, UpdatedAt := at_time\<rparr>
        in Inr (r, \<lparr>evReportID = ReportID r, evVersionNo = VersionNo r, evType = EventRemarked,
                   evAt = at_time, evActor = actor,
                   evDetail = mk_detail [(''fields'', json_of_strings flds)]\<rparr>))"

definition invalidate :: "string list \<Rightarrow> gotime \<Rightarrow> report \<Rightarrow> report \<times> event" where
  "invalidate brokenRules at_time r =
     (let r = (if State r \<noteq> StateInvalidated then r\<lparr>InvalidatedFrom := State r\<rparr> else r);
          r = r\<lparr>State := StateInvalidated, InvalidatedRules := brokenRules, UpdatedAt := at_time\<rparr>
      in (r, \<lparr>evReportID = ReportID r, evVersionNo = VersionNo r, evType = EventInvalidated,
             evAt = at_time, evActor = '''',
             evDetail = mk_detail [(''brokenRules'', json_of_strings brokenRules),
                                   (''fromState'', JStr (state_text (InvalidatedFrom r)))]\<rparr>))"

definition newCorrection :: "gotime \<Rightarrow> string \<Rightarrow> report \<Rightarrow> domain_error + (report \<times> event)" where
  "newCorrection now actor r =
     (if State r = StateDraft \<or> State r = StateReady then Inl (ErrCorrectState (State r))
      else
        let nxt = \<lparr>ReportID = ReportID r, VersionNo = VersionNo r + 1, SchemaName = SchemaName r,
                    EventType = EventType r, EventTime = EventTime r, Fields = Fields r,
                    State = StateDraft, InvalidatedFrom = StateZero, InvalidatedRules = [],
                    CreatedAt = now, CreatedBy = actor, UpdatedAt = now, SubmittedAt = zero_time,
                    SubmittedBy = ''''\<rparr>
        in Inr (nxt, \<lparr>evReportID = ReportID r, evVersionNo = VersionNo r,
                     evType = EventCorrectionStarted, evAt = now, evActor = actor,
                     evDetail = mk_detail [(''newVersionNo'', json_of_int (VersionNo nxt))]\<rparr>))"

section \<open>Chat messages, remarks and notices\<close>

datatype chatDirection = ChatFromVessel | ChatFromOffice

record chatMessage =
  cmID :: string
  cmReportID :: string
  cmSender :: string
  cmBody :: string
  cmSentAt :: gotime
  cmDirection :: chatDirection

definition maxChatBodyBytes :: nat where
  "maxChatBodyBytes = 4096"

definition newChatMessage ::
  "string option \<Rightarrow> gotime \<Rightarrow> string \<Rightarrow> string \<Rightarrow> string \<Rightarrow> chatDirection
   \<Rightarrow> domain_error + chatMessage" where
  "newChatMessage uuid now reportID sender body direction =
     (if length body > maxChatBodyBytes then Inl (ErrChatTooLong (length body))
      else case uuid of
        None \<Rightarrow> Inl ErrGenerateID
      | Some uid \<Rightarrow> Inr \<lparr>cmID = uid, cmReportID = reportID, cmSender = sender, cmBody = body,
                         cmSentAt = now, cmDirection = direction\<rparr>)"

record remark =
  rmID :: string
  rmReportID :: string
  rmVersionNo :: int
  rmFieldName :: string
  rmBody :: string
  rmAuthor :: string
  rmCreatedAt :: gotime
  rmResolved :: bool

record invalidationNotice =
  inReportID :: string
  inVersionNo :: int
  inBrokenRules :: "string list"
  inComputedAt :: gotime

section \<open>Lemmas\<close>

lemma recomputeEventTime_sel [simp]:
  "ReportID (fst (recomputeEventTime r)) = ReportID r"
  "VersionNo (fst (recomputeEventTime r)) = VersionNo r"
  "SchemaName (fst (recomputeEventTime r)) = SchemaName r"
  "EventType (fst (recomputeEventTime r)) = EventType r"
  "Fields (fst (recomputeEventTime r)) = Fields r"
  "State (fst (recomputeEventTime r)) = State r"
  "InvalidatedFrom (fst (recomputeEventTime r)) = InvalidatedFrom r"
  "InvalidatedRules (fst (recomputeEventTime r)) = InvalidatedRules r"
  "CreatedAt (fst (recomputeEventTime r)) = CreatedAt r"
  "CreatedBy (fst (recomputeEventTime r)) = CreatedBy r"
  "UpdatedAt (fst (recomputeEventTime r)) = UpdatedAt r"
  "SubmittedAt (fst (recomputeEventTime r)) = SubmittedAt r"
  "SubmittedBy (fst (recomputeEventTime r)) = SubmittedBy r"
  by (simp_all add: recomputeEventTime_def split: option.split)

text \<open>The event time the fields of a report spell, if they spell one.\<close>

definition spelled_time :: "fields \<Rightarrow> gotime option" where
  "spelled_time fs =
     (case (field_string fs ''Date_UTC'', field_string fs ''Time_UTC'') of
        (Some d, Some t) \<Rightarrow> parseEventTime d t | _ \<Rightarrow> None)"

lemma recomputeEventTime_time:
  "EventTime (fst (recomputeEventTime r)) =
     (case spelled_time (Fields r) of None \<Rightarrow> EventTime r | Some t \<Rightarrow> t)"
  by (simp add: recomputeEventTime_def spelled_time_def split: option.split)

lemma recomputeEventTime_idem:
  "recomputeEventTime (fst (recomputeEventTime r)) = (fst (recomputeEventTime r), False)"
  by (simp add: recomputeEventTime_def split: option.split)

subsection \<open>Section saves\<close>

definition changed :: "fields \<Rightarrow> string \<times> json \<Rightarrow> bool" where
  "changed fs e \<longleftrightarrow> \<not> deep_equal (any_value (field_get fs (fst e))) (snd e)"

definition delta :: "fields \<Rightarrow> string \<times> json \<Rightarrow> fieldChange" where
  "delta fs e = \<lparr>fcField = fst e, fcOldValue = any_value (field_get fs (fst e)), fcNewValue = snd e\<rparr>"

definition put_all :: "(string \<times> json) list \<Rightarrow> (string, json) gomap \<Rightarrow> (string, json) gomap" where
  "put_all es m = fold (\<lambda>(k, v). gm_update k v) es m"

lemma put_all_lookup:
  "distinct (map fst es) \<Longrightarrow>
   gm_lookup (put_all es m) k = (case map_of es k of Some v \<Rightarrow> Some v | None \<Rightarrow> gm_lookup m k)"
proof (induction es arbitrary: m)
  case (Cons e es)
  obtain a b where e: "e = (a, b)" by (cases e)
  with Cons.prems have "map_of es a = None" by (simp add: map_of_eq_None_iff)
  with Cons e show ?case by (auto simp: put_all_def split: option.split)
qed (simp add: put_all_def)

lemma put_all_wf: "gm_wf m \<Longrightarrow> gm_wf (put_all es m)"
  unfolding put_all_def by (induction es arbitrary: m) auto

lemma save_loop_nil_map:
  "save_loop cs None ds = (if \<exists>c \<in> set cs. changed None c then None else Some (None, ds))"
  by (induction cs) (auto simp: changed_def Let_def split: if_splits)

lemma save_loop_map:
  "distinct (map fst cs) \<Longrightarrow>
   save_loop cs (Some m) ds =
     Some (Some (put_all (filter (changed (Some m)) cs) m),
           ds @ map (delta (Some m)) (filter (changed (Some m)) cs))"
proof (induction cs arbitrary: m ds)
  case (Cons c cs)
  obtain n v where c: "c = (n, v)" by (cases c)
  let ?m = "gm_update n v m"
  have same: "field_get (Some ?m) (fst e) = field_get (Some m) (fst e)" if "e \<in> set cs" for e
    using that Cons.prems c by force
  then have "filter (changed (Some ?m)) cs = filter (changed (Some m)) cs"
    by (intro filter_cong) (simp_all add: changed_def)
  moreover have "map (delta (Some ?m)) (filter (changed (Some m)) cs) =
      map (delta (Some m)) (filter (changed (Some m)) cs)"
    using same by (auto simp: delta_def)
  moreover have "changed (Some m) c \<longleftrightarrow> \<not> deep_equal (any_value (gm_lookup m n)) v"
    by (simp add: changed_def c)
  moreover have "put_all (c # es) m = put_all es ?m" for es by (simp add: put_all_def c)
  ultimately show ?case
    using Cons.prems Cons.IH[of m] Cons.IH[of ?m] by (simp add: c Let_def delta_def)
qed (simp add: put_all_def)

lemma saveSection_panics:
  "saveSection now section changes actor r = None \<longleftrightarrow>
     save_loop changes (Fields r) [] = None"
  by (simp add: saveSection_def Let_def split: option.split prod.split)

text \<open>A save panics exactly when the report has no field map and a value is set.\<close>

lemma saveSection_panics_iff:
  assumes "distinct (map fst changes)"
  shows "saveSection now section changes actor r = None \<longleftrightarrow>
    Fields r = None \<and> (\<exists>c \<in> set changes. changed None c)"
  using assms by (cases "Fields r") (auto simp: saveSection_panics save_loop_nil_map save_loop_map)

lemma saveSection_SomeD:
  assumes "saveSection now section changes actor r = Some (r', e)"
  obtains fs deltas where "save_loop changes (Fields r) [] = Some (fs, deltas)"
    and "r' = (if deltas = [] then r\<lparr>Fields := fs\<rparr>
      else fst (recomputeEventTime (r\<lparr>Fields := fs, UpdatedAt := now,
             State := if State r = StateReady then StateDraft else State r\<rparr>)))"
  using assms by (auto simp: saveSection_def Let_def split: option.splits prod.splits if_splits)

lemma save_loop_no_delta: "save_loop cs fs ds = Some (fs', ds') \<Longrightarrow> length ds \<le> length ds' \<and> (ds' = ds \<longrightarrow> fs' = fs)"
proof (induction cs fs ds rule: save_loop.induct)
  case (2 name newVal cs fs ds)
  then show ?case
    by (cases fs) (fastforce simp: Let_def split: if_splits)+
qed simp

lemma saveSection_identity:
  assumes "saveSection now section changes actor r = Some (r', e)"
  shows "ReportID r' = ReportID r" "VersionNo r' = VersionNo r" "SchemaName r' = SchemaName r"
    "EventType r' = EventType r" "InvalidatedFrom r' = InvalidatedFrom r"
    "InvalidatedRules r' = InvalidatedRules r" "CreatedAt r' = CreatedAt r" "CreatedBy r' = CreatedBy r"
    "SubmittedAt r' = SubmittedAt r" "SubmittedBy r' = SubmittedBy r"
  using assms by (auto elim!: saveSection_SomeD)

text \<open>A report that is ready after a save is the report before it: nothing has changed since the check.\<close>

lemma saveSection_ready:
  assumes "saveSection now section changes actor r = Some (r', e)" and "State r' = StateReady"
  shows "r' = r"
  using assms(1)
proof (rule saveSection_SomeD)
  fix fs ds assume l: "save_loop changes (Fields r) [] = Some (fs, ds)"
    and r': "r' = (if ds = [] then r\<lparr>Fields := fs\<rparr>
      else fst (recomputeEventTime (r\<lparr>Fields := fs, UpdatedAt := now,
             State := if State r = StateReady then StateDraft else State r\<rparr>)))"
  with assms(2) have "ds = []" by (auto split: if_splits)
  with save_loop_no_delta[OF l] r' show "r' = r" by simp
qed

lemma saveSection_state:
  assumes "saveSection now section changes actor r = Some (r', e)"
  shows "State r' = State r \<or> State r = StateReady \<and> State r' = StateDraft"
  using assms by (auto elim!: saveSection_SomeD split: if_splits)

text \<open>The fields after a save, and that the iteration order of the changes is irrelevant to the report.\<close>

lemma saveSection_fields:
  assumes "distinct (map fst changes)" and "Fields r = Some m"
    and "saveSection now section changes actor r = Some (r', e)"
  shows "Fields r' = Some (put_all (filter (changed (Some m)) changes) m)"
  using assms by (auto simp: save_loop_map elim!: saveSection_SomeD)

lemma put_all_perm:
  assumes "distinct (map fst es)" and "mset es' = mset es" and "gm_wf m"
  shows "put_all es' m = put_all es m"
proof (rule gm_wf_ext)
  have d: "distinct (map fst es')"
    using assms by (metis mset_eq_imp_distinct_iff mset_map)
  then have "map_of es' k = map_of es k" for k
    using assms by (metis map_of_eq_Some_iff mset_eq_setD not_Some_eq)
  then show "gm_lookup (put_all es' m) k = gm_lookup (put_all es m) k" for k
    using assms(1) d by (simp add: put_all_lookup)
qed (simp_all add: assms put_all_wf)

lemma saveSection_order:
  assumes "distinct (map fst changes)" and "mset changes' = mset changes"
    and "Fields r = Some m" and "gm_wf m"
    and "saveSection now section changes actor r = Some (r1, e1)"
    and "saveSection now section changes' actor r = Some (r2, e2)"
  shows "r1 = r2"
proof -
  let ?f = "filter (changed (Some m))"
  have d: "distinct (map fst changes')"
    using assms by (metis mset_eq_imp_distinct_iff mset_map)
  have m: "mset (?f changes') = mset (?f changes)" using assms(2) by simp
  have "distinct (map fst (?f changes))" using assms(1) by (rule distinct_map_filter)
  then have "put_all (?f changes') m = put_all (?f changes) m"
    using m assms(4) by (rule put_all_perm)
  moreover have "?f changes' = [] \<longleftrightarrow> ?f changes = []" using m by (metis mset_zero_iff)
  ultimately show ?thesis
    using assms(1,3,5,6) d by (simp add: saveSection_def save_loop_map Let_def split: if_splits)
qed

subsection \<open>The lifecycle of one report version\<close>

text \<open>
  The steps a stored report version can make: the methods above, a section save under the guard its callers apply
  (\<open>loadEditableReport\<close>).  \<open>NewCorrection\<close> starts another version and changes nothing here.
\<close>

inductive lifecycle :: "report \<Rightarrow> report \<Rightarrow> bool" where
  save: "\<not> inChain (State r) \<Longrightarrow> saveSection now sec changes actor r = Some (r', e) \<Longrightarrow>
    lifecycle r r'"
| check: "markReady now fs r = (r', e, err) \<Longrightarrow> lifecycle r r'"
| submit: "submit now actor r = Inr (r', e) \<Longrightarrow> lifecycle r r'"
| synced: "markSynced now r = Some (r', e) \<Longrightarrow> lifecycle r r'"
| remarked: "markRemarked flds actor now r = Inr (r', e) \<Longrightarrow> lifecycle r r'"
| invalidated: "invalidate rules now r = (r', e) \<Longrightarrow> lifecycle r r'"

text \<open>The abstract state machine.\<close>

fun edge :: "state \<Rightarrow> state \<Rightarrow> bool" where
  "edge StateDraft s \<longleftrightarrow> s \<in> {StateDraft, StateReady, StateInvalidated}"
| "edge StateReady s \<longleftrightarrow> s \<in> {StateDraft, StateReady, StateSubmitted, StateInvalidated}"
| "edge StateSubmitted s \<longleftrightarrow> s \<in> {StateSubmitted, StateSynced, StateRemarked, StateInvalidated}"
| "edge s t \<longleftrightarrow> t = s \<or> t \<in> {StateRemarked, StateInvalidated}"

lemma edge_refl: "edge s s"
  by (cases s) auto

lemma markReady_cases:
  assumes "markReady now fs r = (r', e, err)"
  obtains "inChain (State r)" "r' = r"
  | "\<not> inChain (State r)" "hasErrors fs" "r' = r\<lparr>UpdatedAt := now, State := StateDraft\<rparr>" "err \<noteq> None"
  | "\<not> inChain (State r)" "\<not> hasErrors fs" "r' = r\<lparr>UpdatedAt := now, State := StateReady\<rparr>" "err = None"
  using assms by (auto simp: markReady_def inChain_def Let_def hasErrors_iff filter_empty_conv
      split: if_splits)

lemma submit_SomeD:
  "submit now actor r = Inr (r', e) \<Longrightarrow> State r = StateReady \<and>
   r' = r\<lparr>State := StateSubmitted, SubmittedAt := now, SubmittedBy := actor, UpdatedAt := now\<rparr>"
  by (auto simp: submit_def Let_def split: if_splits)

lemma markSynced_SomeD:
  "markSynced now r = Some (r', e) \<Longrightarrow> State r = StateSubmitted \<and> r' = r\<lparr>State := StateSynced, UpdatedAt := now\<rparr>"
  by (auto simp: markSynced_def Let_def split: if_splits)

lemma markRemarked_SomeD:
  "markRemarked flds actor now r = Inr (r', e) \<Longrightarrow>
   inChain (State r) \<and> r' = r\<lparr>State := StateRemarked, UpdatedAt := now\<rparr>"
  by (auto simp: markRemarked_def inChain_def Let_def split: if_splits)

lemma invalidate_sel:
  "invalidate rules now r = (r', e) \<Longrightarrow>
   r' = r\<lparr>InvalidatedFrom := if State r = StateInvalidated then InvalidatedFrom r else State r,
          State := StateInvalidated, InvalidatedRules := rules, UpdatedAt := now\<rparr>"
  by (auto simp: invalidate_def Let_def)

lemma lifecycle_edge: "lifecycle r r' \<Longrightarrow> edge (State r) (State r')"
proof (induction rule: lifecycle.induct)
  case (save r now sec changes actor r' e)
  then show ?case
    using saveSection_state[OF save(2)] by (cases "State r") (auto simp: inChain_def)
next
  case (check now fs r r' e err)
  then show ?case
    by (rule markReady_cases) (cases "State r"; auto simp: inChain_def edge_refl)+
next
  case (remarked flds actor now r r' e)
  then show ?case by (cases "State r") (auto dest!: markRemarked_SomeD simp: inChain_def)
next
  case (invalidated rules now r r' e)
  then show ?case by (cases "State r") (auto dest!: invalidate_sel)
qed (auto dest!: submit_SomeD markSynced_SomeD)

lemma lifecycle_identity:
  "lifecycle r r' \<Longrightarrow> ReportID r' = ReportID r \<and> VersionNo r' = VersionNo r \<and>
     SchemaName r' = SchemaName r \<and> EventType r' = EventType r \<and>
     CreatedAt r' = CreatedAt r \<and> CreatedBy r' = CreatedBy r"
  by (induction rule: lifecycle.induct)
    (auto simp: saveSection_identity elim!: markReady_cases
      dest!: submit_SomeD markSynced_SomeD markRemarked_SomeD invalidate_sel)

lemma lifecycle_committed:
  "lifecycle r r' \<Longrightarrow> inChain (State r) \<Longrightarrow>
   inChain (State r') \<and> Fields r' = Fields r \<and> EventTime r' = EventTime r \<and>
   SubmittedAt r' = SubmittedAt r \<and> SubmittedBy r' = SubmittedBy r"
  by (induction rule: lifecycle.induct)
    (auto simp: inChain_def elim!: markReady_cases
      dest!: submit_SomeD markSynced_SomeD markRemarked_SomeD invalidate_sel)

lemma lifecycle_star_committed:
  "lifecycle\<^sup>*\<^sup>* r r' \<Longrightarrow> inChain (State r) \<Longrightarrow>
   inChain (State r') \<and> Fields r' = Fields r \<and> EventTime r' = EventTime r \<and> EventType r' = EventType r \<and>
   SubmittedAt r' = SubmittedAt r \<and> SubmittedBy r' = SubmittedBy r"
  by (induction rule: rtranclp_induct) (auto dest: lifecycle_committed lifecycle_identity)

text \<open>Every edge of the automaton is a step of the code.\<close>

lemma edge_lifecycle:
  assumes "edge (State r) s"
  shows "\<exists>r'. lifecycle r r' \<and> State r' = s"
proof -
  have inv: "\<exists>r'. lifecycle r r' \<and> State r' = StateInvalidated"
    by (intro exI conjI lifecycle.invalidated[of "[]" 0 r])
      (auto simp: invalidate_def Let_def)
  have rem: "\<exists>r'. lifecycle r r' \<and> State r' = StateRemarked" if "inChain (State r)"
    using that by (intro exI conjI lifecycle.remarked[of "[]" "[]" 0 r])
      (auto simp: markRemarked_def inChain_def Let_def)
  have stay: "\<exists>r'. lifecycle r r' \<and> State r' = State r" if "inChain (State r)"
  proof -
    have "markReady 0 [] r = (r, zero_event, Some (ErrHealthCheckState (State r)))"
      using that by (simp add: markReady_def inChain_def)
    then show ?thesis by (blast intro: lifecycle.check)
  qed
  have ready: "\<exists>r'. lifecycle r r' \<and> State r' = StateReady" if "\<not> inChain (State r)"
    using that by (intro exI conjI lifecycle.check[of 0 "[]" r])
      (auto simp: markReady_def inChain_def Let_def)
  let ?f = "\<lparr>RuleID = [], Severity = SeverityError, Field = [], Message = Msg []\<rparr>"
  have draft: "\<exists>r'. lifecycle r r' \<and> State r' = StateDraft" if "\<not> inChain (State r)"
    using that by (intro exI conjI lifecycle.check[of 0 "[?f]" r])
      (auto simp: markReady_def inChain_def Let_def)
  have sub: "\<exists>r'. lifecycle r r' \<and> State r' = StateSubmitted" if "State r = StateReady"
    using that by (intro exI conjI lifecycle.submit[of 0 "[]" r]) (auto simp: submit_def Let_def)
  have syn: "\<exists>r'. lifecycle r r' \<and> State r' = StateSynced" if "State r = StateSubmitted"
    using that by (intro exI conjI lifecycle.synced[of 0 r]) (auto simp: markSynced_def Let_def)
  show ?thesis
    using assms inv rem stay ready draft sub syn
    by (cases "State r") (auto simp: inChain_def)
qed

text \<open>
  \<open>InvalidatedFrom\<close> never stacks, so the state before the first of a run of invalidations is kept.
\<close>

definition invalidation_kept :: "report \<Rightarrow> bool" where
  "invalidation_kept r \<longleftrightarrow> (State r = StateInvalidated \<longrightarrow> InvalidatedFrom r \<noteq> StateInvalidated)"

lemma lifecycle_invalidation_kept:
  "lifecycle r r' \<Longrightarrow> invalidation_kept r \<Longrightarrow> invalidation_kept r'"
proof (induction rule: lifecycle.induct)
  case (save r now sec changes actor r' e)
  then show ?case
    using saveSection_state[OF save(2)] by (auto simp: inChain_def invalidation_kept_def)
qed (auto simp: invalidation_kept_def elim!: markReady_cases
      dest!: submit_SomeD markSynced_SomeD markRemarked_SomeD invalidate_sel split: if_splits)

lemma newCorrection_SomeD:
  assumes "newCorrection now actor r = Inr (n, e)"
  shows "inChain (State r)" "ReportID n = ReportID r" "VersionNo n = VersionNo r + 1"
    "SchemaName n = SchemaName r" "EventType n = EventType r" "EventTime n = EventTime r"
    "Fields n = Fields r" "State n = StateDraft" "evReportID e = ReportID r" "evVersionNo e = VersionNo r"
  using assms by (auto simp: newCorrection_def inChain_def Let_def split: if_splits)

lemma newReport_SomeD:
  assumes "newReport uuid now sn et t fs by = Inr (r, e)"
  shows "uuid = Some (ReportID r)" "VersionNo r = 1" "SchemaName r = sn" "EventType r = et"
    "Fields r = fs" "State r = StateDraft" "evReportID e = ReportID r" "evVersionNo e = 1"
    "EventTime r = (case spelled_time fs of None \<Rightarrow> t | Some t' \<Rightarrow> t')"
  using assms
  by (auto simp: newReport_def Let_def recomputeEventTime_time split: option.splits)

end
