(* ===== verification/Tables.thy ===== *)
theory Tables
  imports Prelude
begin

text \<open>
  The contracts of the database tables of both stores, as the code relies on them.  \<open>insert_table\<close> is
  \<open>INSERT ... ON CONFLICT DO NOTHING\<close>: a retransmitted row changes nothing.  \<open>upsert_table\<close> is
  \<open>INSERT ... ON CONFLICT DO UPDATE\<close>, which a constraint or trigger may refuse: \<open>merge old new\<close> is the row it leaves.
\<close>

section \<open>Insert if absent\<close>

locale insert_table =
  fixes key :: "'v \<Rightarrow> 'k" and look :: "'s \<Rightarrow> 'k \<Rightarrow> 'v option" and put :: "'v \<Rightarrow> 's \<Rightarrow> 's"
  assumes put_new: "look s (key v) = None \<Longrightarrow> look (put v s) k = (if k = key v then Some v else look s k)"
    and put_present: "look s (key v) \<noteq> None \<Longrightarrow> put v s = s"
begin

lemma look_put: "look (put v s) k =
    (case look s k of Some w \<Rightarrow> Some w | None \<Rightarrow> if k = key v then Some v else None)"
  using put_new[of s v k] put_present[of s v] by (cases "look s (key v)") (auto split: option.split)

lemma put_idem: "put v (put v s) = put v s"
  by (rule put_present) (simp add: look_put split: option.split)

text \<open>A row once stored is never changed.\<close>

lemma put_stable: "look s k = Some v \<Longrightarrow> look (put w s) k = Some v"
  by (simp add: look_put)

lemma fold_put_look:
  "look (fold put vs s) k =
   (case look s k of Some w \<Rightarrow> Some w | None \<Rightarrow> List.find (\<lambda>v. key v = k) vs)"
  by (induction vs arbitrary: s) (auto simp: look_put split: option.split)

lemma fold_put_stable: "look s k = Some v \<Longrightarrow> look (fold put vs s) k = Some v"
  by (simp add: fold_put_look)

lemma fold_put_present: "(\<And>v. v \<in> set vs \<Longrightarrow> look s (key v) \<noteq> None) \<Longrightarrow> fold put vs s = s"
  by (induction vs arbitrary: s) (auto simp: put_present)

text \<open>Retransmission: a batch that has been stored, or any part of it, may arrive again.\<close>

lemma fold_put_retransmit: "set ws \<subseteq> set vs \<Longrightarrow> fold put ws (fold put vs s) = fold put vs s"
proof (rule fold_put_present)
  fix v assume "set ws \<subseteq> set vs" "v \<in> set ws"
  then have "List.find (\<lambda>w. key w = key v) vs \<noteq> None" by (auto simp: find_None_iff)
  then show "look (fold put vs s) (key v) \<noteq> None" by (auto simp: fold_put_look split: option.split)
qed

end

section \<open>Upsert\<close>

locale upsert_table =
  fixes key :: "'v \<Rightarrow> 'k" and look :: "'s \<Rightarrow> 'k \<Rightarrow> 'v option" and put :: "'v \<Rightarrow> 's \<Rightarrow> 'e + 's"
    and merge :: "'v \<Rightarrow> 'v \<Rightarrow> 'v"
  assumes put_look: "put v s = Inr s' \<Longrightarrow> look s' k =
      (if k = key v then Some (case look s k of None \<Rightarrow> v | Some old \<Rightarrow> merge old v) else look s k)"
begin

lemma put_look_key: "put v s = Inr s' \<Longrightarrow> look s' (key v) =
    Some (case look s (key v) of None \<Rightarrow> v | Some old \<Rightarrow> merge old v)"
  by (simp add: put_look)

lemma put_look_other: "put v s = Inr s' \<Longrightarrow> k \<noteq> key v \<Longrightarrow> look s' k = look s k"
  by (simp add: put_look)

lemma put_grows: "put v s = Inr s' \<Longrightarrow> look s k \<noteq> None \<Longrightarrow> look s' k \<noteq> None"
  by (simp add: put_look)

text \<open>
  What holds of every stored row, and of the row a write leaves, holds after the write; and a relation between old
  and new rows that every write respects holds between the rows before and after it.
\<close>

lemma put_all_rows:
  assumes "put v s = Inr s'" and "\<And>k w. look s k = Some w \<Longrightarrow> P k w"
    and "look s (key v) = None \<Longrightarrow> P (key v) v"
    and "\<And>old. look s (key v) = Some old \<Longrightarrow> P (key v) (merge old v)"
    and "look s' k = Some w"
  shows "P k w"
  using assms by (auto simp: put_look split: if_splits option.splits)

lemma put_related:
  assumes "put v s = Inr s'" and "look s k = Some w" and "R w w"
    and "\<And>old. look s (key v) = Some old \<Longrightarrow> R old (merge old v)"
  shows "\<exists>w'. look s' k = Some w' \<and> R w w'"
  using assms by (auto simp: put_look)

end

section \<open>Row lists\<close>

text \<open>Both kinds over a list of rows searched by key.\<close>

definition find_row :: "('v \<Rightarrow> 'k) \<Rightarrow> 'v list \<Rightarrow> 'k \<Rightarrow> 'v option" where
  "find_row key rows k = List.find (\<lambda>v. key v = k) rows"

lemma find_row_append: "find_row key (rows @ [v]) k =
    (case find_row key rows k of Some w \<Rightarrow> Some w | None \<Rightarrow> if key v = k then Some v else None)"
  by (simp add: find_row_def find_append split: option.split)

lemma find_row_None_iff: "find_row key rows k = None \<longleftrightarrow> k \<notin> key ` set rows"
  by (auto simp: find_row_def find_None_iff)

lemma find_row_SomeD: "find_row key rows k = Some v \<Longrightarrow> v \<in> set rows \<and> key v = k"
  by (auto simp: find_row_def dest: find_SomeD)

lemma find_row_unique:
  "distinct (map key rows) \<Longrightarrow> v \<in> set rows \<Longrightarrow> find_row key rows (key v) = Some v"
  by (induction rows) (auto simp: find_row_def)

lemma find_row_update:
  assumes "\<And>x. key (f x) = key x"
  shows "find_row key (map (\<lambda>x. if key x = k then f x else x) rows) j =
    (if j = k then map_option f (find_row key rows j) else find_row key rows j)"
  using assms by (induction rows) (auto simp: find_row_def)

lemma find_row_filter_other:
  "(\<And>v. key v = k \<Longrightarrow> P v) \<Longrightarrow> find_row key (filter P rows) k = find_row key rows k"
  by (induction rows) (auto simp: find_row_def)

definition insert_absent :: "('v \<Rightarrow> 'k) \<Rightarrow> 'v \<Rightarrow> 'v list \<Rightarrow> 'v list" where
  "insert_absent key v rows = (if list_ex (\<lambda>x. key x = key v) rows then rows else rows @ [v])"

lemma find_row_insert_absent:
  "find_row key rows (key v) = None \<Longrightarrow>
   find_row key (insert_absent key v rows) k = (if k = key v then Some v else find_row key rows k)"
proof -
  assume none: "find_row key rows (key v) = None"
  then have "insert_absent key v rows = rows @ [v]"
    by (auto simp: insert_absent_def find_row_None_iff list_ex_iff image_iff)
  with none show ?thesis by (auto simp: find_row_append split: option.split)
qed

lemma insert_absent_present: "find_row key rows (key v) \<noteq> None \<Longrightarrow> insert_absent key v rows = rows"
  by (auto simp: insert_absent_def find_row_None_iff list_ex_iff image_iff)

lemma distinct_insert_absent:
  "distinct (map key rows) \<Longrightarrow> distinct (map key (insert_absent key v rows))"
  by (auto simp: insert_absent_def list_ex_iff)

section \<open>Counters\<close>

text \<open>Rows numbered by a counter: numbers increase and stay below its next value.\<close>

definition ids_ok :: "int list \<Rightarrow> int \<Rightarrow> bool" where
  "ids_ok is n \<longleftrightarrow> sorted_wrt (<) is \<and> (\<forall>i \<in> set is. i < n)"

lemma ids_ok_Nil [simp]: "ids_ok [] n"
  by (simp add: ids_ok_def)

lemma ids_ok_append [simp]: "ids_ok is n \<Longrightarrow> ids_ok (is @ [n]) (n + 1)"
  by (auto simp: ids_ok_def sorted_wrt_append)

lemma ids_ok_filter [simp]: "ids_ok (map f xs) n \<Longrightarrow> ids_ok (map f (filter P xs)) n"
  by (induction xs) (auto simp: ids_ok_def)

lemma ids_ok_distinct: "ids_ok is n \<Longrightarrow> distinct is"
  unfolding ids_ok_def strict_sorted_iff by blast

lemma ids_ok_fresh: "ids_ok is n \<Longrightarrow> n \<notin> set is"
  by (auto simp: ids_ok_def)

end
