(* ===== verification/VesselStore.thy ===== *)
theory VesselStore
  imports Domain Tables "HOL-Library.Product_Lexorder"
begin

text \<open>
  \<open>vessel/store\<close>: the SQLite persistence of the vessel.  A table is the list of its rows, an
  \<open>INTEGER PRIMARY KEY AUTOINCREMENT\<close> column comes with its counter, and each store method is a function on
  the store that fails with a \<open>store_error\<close> where a constraint, the trigger \<open>reports_locked_after_submit\<close>,
  the JSON encoder or the identifier generator fails; failures of the file system are not modelled.  Text columns that
  hold JSON or times are kept decoded: encoding is canonical, so equality of the text is equality of the value,
  and the order of time texts is \<open>text_key\<close>.

  Lemmas: the table invariants and their preservation, what a lookup returns after a write, immutability of committed
  rows under every write, monotone outbox sequence numbers, idempotence of the pull inserts.
\<close>

section \<open>Time texts\<close>

text \<open>
  Times are stored with \<open>time.RFC3339Nano\<close>, which drops trailing zeros of the fraction: \<open>00Z\<close>, \<open>00.5Z\<close>.  Up to the
  second the text has fixed width for the years 0 to 9999, so \<open>ORDER BY\<close> compares seconds first; in the fraction a dropped digit
  meets a digit, or \<open>Z\<close> the point, and \<open>Z\<close> is greater than both.  A dropped digit therefore counts as ten.
\<close>

fun frac_rank :: "bool \<Rightarrow> nat \<Rightarrow> int \<Rightarrow> int" where
  "frac_rank trailing 0 n = 0"
| "frac_rank trailing (Suc k) n =
     (let z = trailing \<and> n mod 10 = 0
      in frac_rank z k (n div 10) * 11 + (if z then 10 else n mod 10))"

definition text_key :: "gotime \<Rightarrow> int" where
  "text_key t = (t div second) * 11 ^ 9 + frac_rank True 9 (t mod second)"

section \<open>Tables\<close>

datatype store_error = ErrNotFound | ErrMarshal | ErrLocked | ErrConstraint | ErrNewID

datatype outboxItemKind = OutboxItemKindReportVersion | OutboxItemKindReportAuditEvent | OutboxItemKindChat

record outboxItem =
  obItemID :: string
  obSequenceNo :: int
  obKind :: outboxItemKind
  obReportID :: string
  obVersionNo :: int
  obReportEventID :: "int option"
  obChatMessageID :: "string option"
  obCreatedAt :: gotime

record pulledSchemaVersion =
  psvSchemaName :: string
  psvVersion :: string
  psvContent :: string
  psvPublishedAt :: gotime

text \<open>The content of a bundle is the bundle document itself, whose type is left open here.\<close>

record 'b pulledConfigBundle =
  pcbBundleID :: string
  pcbVersionNo :: int
  pcbContent :: 'b
  pcbPublishedAt :: gotime

record inboxCursors =
  ConfigBundleCursor :: int
  SchemaVersionCursor :: int
  RemarkCursor :: int
  ChatCursor :: int
  InvalidationNoticeCursor :: int
  RestoreCommandCursor :: int
  UserCommandCursor :: int

record attachment =
  atID :: string
  atReportID :: string
  atVersionNo :: int
  atFieldName :: string
  atFilename :: string
  atContentType :: string
  atContentHash :: string
  atSizeBytes :: int
  atUploadedAt :: gotime
  atUploadedBy :: string
  atSyncedAt :: "gotime option"

record deletedReport =
  drReportID :: string
  drSchemaName :: string
  drEventType :: string
  drEventTime :: gotime
  drState :: state
  drDeletedBy :: string
  drDeletedAt :: gotime

record 'b vstore =
  vsReports :: "report list"
  vsEvents :: "(int \<times> event) list"
  vsNextEvent :: int
  vsOutbox :: "outboxItem list"
  vsOutboxNext :: int
  vsSchemaVersions :: "pulledSchemaVersion list"
  vsConfigBundles :: "'b pulledConfigBundle list"
  vsCursors :: inboxCursors
  vsChat :: "chatMessage list"
  vsNotices :: "(int \<times> invalidationNotice) list"
  vsNextNotice :: int
  vsRemarks :: "remark list"
  vsAttachments :: "attachment list"
  vsDeletedLog :: "deletedReport list"

text \<open>The store after the migrations: every table empty, the counters and the cursor row seeded.\<close>

definition zero_cursors :: inboxCursors where
  "zero_cursors = \<lparr>ConfigBundleCursor = 0, SchemaVersionCursor = 0, RemarkCursor = 0, ChatCursor = 0,
     InvalidationNoticeCursor = 0, RestoreCommandCursor = 0, UserCommandCursor = 0\<rparr>"

definition empty_vstore :: "'b vstore" where
  "empty_vstore = \<lparr>vsReports = [], vsEvents = [], vsNextEvent = 1, vsOutbox = [], vsOutboxNext = 1,
     vsSchemaVersions = [], vsConfigBundles = [], vsCursors = zero_cursors, vsChat = [], vsNotices = [],
     vsNextNotice = 1, vsRemarks = [], vsAttachments = [], vsDeletedLog = []\<rparr>"

text \<open>\<open>json.Marshal\<close> refuses NaN and the infinities.\<close>

fun json_finite :: "json \<Rightarrow> bool"
  and json_finite_list :: "json list \<Rightarrow> bool"
  and json_finite_obj :: "(string \<times> json) list \<Rightarrow> bool" where
  "json_finite (JNum x) = is_finite x"
| "json_finite (JArr xs) = json_finite_list xs"
| "json_finite (JObj xs) = json_finite_obj xs"
| "json_finite _ = True"
| "json_finite_list [] = True"
| "json_finite_list (x # xs) = (json_finite x \<and> json_finite_list xs)"
| "json_finite_obj [] = True"
| "json_finite_obj ((k, x) # xs) = (json_finite x \<and> json_finite_obj xs)"

definition fields_finite :: "fields \<Rightarrow> bool" where
  "fields_finite fs = (case fs of None \<Rightarrow> True | Some m \<Rightarrow> json_finite_obj m)"

section \<open>Reports\<close>

definition report_key :: "report \<Rightarrow> string \<times> int" where
  "report_key r = (ReportID r, VersionNo r)"

text \<open>The row an upsert leaves where a row exists: the columns the \<open>DO UPDATE SET\<close> clause does not list keep their value.\<close>

definition upsert_row :: "report \<Rightarrow> report \<Rightarrow> report" where
  "upsert_row old r = r\<lparr>CreatedAt := CreatedAt old, CreatedBy := CreatedBy old\<rparr>"

text \<open>The condition of the trigger \<open>reports_locked_after_submit\<close>.\<close>

definition trigger_aborts :: "report \<Rightarrow> report \<Rightarrow> bool" where
  "trigger_aborts old new \<longleftrightarrow> inChain (State old) \<and>
     (Fields new \<noteq> Fields old \<or> EventTime new \<noteq> EventTime old \<or> EventType new \<noteq> EventType old)"

definition saveReport :: "report \<Rightarrow> 'b vstore \<Rightarrow> store_error + 'b vstore" where
  "saveReport r st =
     (if \<not> fields_finite (Fields r) then Inl ErrMarshal
      else case find_row report_key (vsReports st) (report_key r) of
        None \<Rightarrow> Inr (st\<lparr>vsReports := vsReports st @ [r]\<rparr>)
      | Some old \<Rightarrow>
          if trigger_aborts old r then Inl ErrLocked
          else Inr (st\<lparr>vsReports :=
                 map (\<lambda>x. if report_key x = report_key r then upsert_row x r else x) (vsReports st)\<rparr>))"

definition getReport :: "string \<Rightarrow> int \<Rightarrow> 'b vstore \<Rightarrow> store_error + report" where
  "getReport reportID versionNo st =
     (case find_row report_key (vsReports st) (reportID, versionNo) of
        None \<Rightarrow> Inl ErrNotFound | Some r \<Rightarrow> Inr r)"

text \<open>\<open>ORDER BY version_no DESC LIMIT 1\<close>.\<close>

fun max_version :: "report list \<Rightarrow> report option" where
  "max_version [] = None"
| "max_version (r # rs) =
     (case max_version rs of
        None \<Rightarrow> Some r
      | Some m \<Rightarrow> if VersionNo m < VersionNo r then Some r else Some m)"

definition versions_of :: "string \<Rightarrow> report list \<Rightarrow> report list" where
  "versions_of reportID rows = filter (\<lambda>r. ReportID r = reportID) rows"

definition latest_version :: "report list \<Rightarrow> string \<Rightarrow> report option" where
  "latest_version rows reportID = max_version (versions_of reportID rows)"

definition getLatestVersion :: "string \<Rightarrow> 'b vstore \<Rightarrow> store_error + report" where
  "getLatestVersion reportID st =
     (case latest_version (vsReports st) reportID of None \<Rightarrow> Inl ErrNotFound | Some r \<Rightarrow> Inr r)"

text \<open>The correlated subqueries: whether a row has the highest version of its report, among all or the committed ones.\<close>

definition is_latest :: "report list \<Rightarrow> report \<Rightarrow> bool" where
  "is_latest rows r \<longleftrightarrow>
     list_all (\<lambda>x. ReportID x = ReportID r \<longrightarrow> VersionNo x \<le> VersionNo r) rows"

definition is_latest_committed :: "report list \<Rightarrow> report \<Rightarrow> bool" where
  "is_latest_committed rows r \<longleftrightarrow> inChain (State r) \<and> is_latest (filter (\<lambda>x. inChain (State x)) rows) r"

definition listLatestReports :: "slice_sorter \<Rightarrow> string \<Rightarrow> 'b vstore \<Rightarrow> report list" where
  "listLatestReports p sname st =
     sort_slice p (\<lambda>r. - text_key (EventTime r))
       (filter (\<lambda>r. SchemaName r = sname \<and> is_latest (vsReports st) r) (vsReports st))"

definition listCommittedChain :: "slice_sorter \<Rightarrow> string \<Rightarrow> 'b vstore \<Rightarrow> report list" where
  "listCommittedChain p sname st =
     sort_slice p (\<lambda>r. text_key (EventTime r))
       (filter (\<lambda>r. SchemaName r = sname \<and> is_latest_committed (vsReports st) r) (vsReports st))"

definition listChain :: "slice_sorter \<Rightarrow> string \<Rightarrow> 'b vstore \<Rightarrow> report list" where
  "listChain p sname st =
     sort_slice p (\<lambda>r. text_key (EventTime r))
       (filter (\<lambda>r. SchemaName r = sname \<and> is_latest (vsReports st) r) (vsReports st))"

definition listVersions :: "string \<Rightarrow> 'b vstore \<Rightarrow> report list" where
  "listVersions reportID st = sort_key VersionNo (versions_of reportID (vsReports st))"

definition deleteReport :: "gotime \<Rightarrow> string \<Rightarrow> string \<Rightarrow> 'b vstore \<Rightarrow> store_error + 'b vstore" where
  "deleteReport now reportID deletedBy st =
     (case getLatestVersion reportID st of
        Inl e \<Rightarrow> Inl e
      | Inr latest \<Rightarrow>
          Inr (st\<lparr>vsDeletedLog := vsDeletedLog st @
                    [\<lparr>drReportID = ReportID latest, drSchemaName = SchemaName latest,
                      drEventType = EventType latest, drEventTime = EventTime latest,
                      drState = State latest, drDeletedBy = deletedBy, drDeletedAt = now\<rparr>],
                  vsAttachments := filter (\<lambda>a. atReportID a \<noteq> reportID) (vsAttachments st),
                  vsChat := filter (\<lambda>m. cmReportID m \<noteq> reportID) (vsChat st),
                  vsRemarks := filter (\<lambda>m. rmReportID m \<noteq> reportID) (vsRemarks st),
                  vsNotices := filter (\<lambda>n. inReportID (snd n) \<noteq> reportID) (vsNotices st),
                  vsEvents := filter (\<lambda>e. evReportID (snd e) \<noteq> reportID) (vsEvents st),
                  vsReports := filter (\<lambda>r. ReportID r \<noteq> reportID) (vsReports st)\<rparr>))"

section \<open>Audit events\<close>

definition appendEvent :: "event \<Rightarrow> 'b vstore \<Rightarrow> store_error + (int \<times> 'b vstore)" where
  "appendEvent e st =
     (let detail = (case evDetail e of None \<Rightarrow> [] | Some d \<Rightarrow> d) in
      if \<not> json_finite_obj detail then Inl ErrMarshal
      else Inr (vsNextEvent st,
        st\<lparr>vsEvents := vsEvents st @ [(vsNextEvent st, e\<lparr>evDetail := Some detail\<rparr>)],
           vsNextEvent := vsNextEvent st + 1\<rparr>))"

definition listEvents :: "string \<Rightarrow> 'b vstore \<Rightarrow> event list" where
  "listEvents reportID st =
     map snd (sort_key (\<lambda>(i, e). (text_key (evAt e), i))
       (filter (\<lambda>(i, e). evReportID e = reportID) (vsEvents st)))"

definition getEventByID :: "int \<Rightarrow> 'b vstore \<Rightarrow> store_error + event" where
  "getEventByID i st =
     (case find_row fst (vsEvents st) i of None \<Rightarrow> Inl ErrNotFound | Some e \<Rightarrow> Inr (snd e))"

section \<open>Outbox\<close>

text \<open>One transaction: an error leaves the counter as it was.\<close>

definition enqueueOutboxItem ::
  "string option \<Rightarrow> gotime \<Rightarrow> outboxItemKind \<Rightarrow> string \<Rightarrow> int \<Rightarrow> int option \<Rightarrow> string option
   \<Rightarrow> 'b vstore \<Rightarrow> store_error + (outboxItem \<times> 'b vstore)" where
  "enqueueOutboxItem uuid now kind reportID versionNo reportEventID chatMessageID st =
     (let seq = vsOutboxNext st in
      case uuid of
        None \<Rightarrow> Inl ErrNewID
      | Some uid \<Rightarrow>
          let item = \<lparr>obItemID = uid, obSequenceNo = seq, obKind = kind, obReportID = reportID,
                      obVersionNo = versionNo, obReportEventID = reportEventID,
                      obChatMessageID = chatMessageID, obCreatedAt = now\<rparr>
          in if list_ex (\<lambda>o'. obItemID o' = uid \<or> obSequenceNo o' = seq) (vsOutbox st)
             then Inl ErrConstraint
             else Inr (item, st\<lparr>vsOutbox := vsOutbox st @ [item], vsOutboxNext := seq + 1\<rparr>))"

definition enqueueReportVersion ::
  "string option \<Rightarrow> gotime \<Rightarrow> string \<Rightarrow> int \<Rightarrow> 'b vstore \<Rightarrow> store_error + (outboxItem \<times> 'b vstore)" where
  "enqueueReportVersion uuid now reportID versionNo st =
     enqueueOutboxItem uuid now OutboxItemKindReportVersion reportID versionNo None None st"

definition enqueueReportAuditEvent ::
  "string option \<Rightarrow> gotime \<Rightarrow> string \<Rightarrow> int \<Rightarrow> int \<Rightarrow> 'b vstore \<Rightarrow> store_error + (outboxItem \<times> 'b vstore)" where
  "enqueueReportAuditEvent uuid now reportID versionNo eventID st =
     enqueueOutboxItem uuid now OutboxItemKindReportAuditEvent reportID versionNo (Some eventID) None st"

definition enqueueChatMessage ::
  "string option \<Rightarrow> gotime \<Rightarrow> string \<Rightarrow> string \<Rightarrow> 'b vstore \<Rightarrow> store_error + (outboxItem \<times> 'b vstore)" where
  "enqueueChatMessage uuid now reportID chatMessageID st =
     enqueueOutboxItem uuid now OutboxItemKindChat reportID 0 None (Some chatMessageID) st"

definition listOutboxItems :: "'b vstore \<Rightarrow> outboxItem list" where
  "listOutboxItems st = sort_key obSequenceNo (vsOutbox st)"

definition ackOutboxItem :: "string \<Rightarrow> 'b vstore \<Rightarrow> 'b vstore" where
  "ackOutboxItem itemID st = st\<lparr>vsOutbox := filter (\<lambda>i. obItemID i \<noteq> itemID) (vsOutbox st)\<rparr>"

section \<open>Chat, remarks, notices, attachments\<close>

definition insertChatMessage :: "chatMessage \<Rightarrow> 'b vstore \<Rightarrow> 'b vstore" where
  "insertChatMessage m st =
     st\<lparr>vsChat := insert_absent cmID m (vsChat st)\<rparr>"

definition listChatMessages :: "slice_sorter \<Rightarrow> string \<Rightarrow> 'b vstore \<Rightarrow> chatMessage list" where
  "listChatMessages p reportID st =
     sort_slice p (\<lambda>m. text_key (cmSentAt m)) (filter (\<lambda>m. cmReportID m = reportID) (vsChat st))"

definition getChatMessage :: "string \<Rightarrow> 'b vstore \<Rightarrow> store_error + chatMessage" where
  "getChatMessage i st =
     (case find_row cmID (vsChat st) i of None \<Rightarrow> Inl ErrNotFound | Some m \<Rightarrow> Inr m)"

definition insertRemark :: "remark \<Rightarrow> 'b vstore \<Rightarrow> 'b vstore" where
  "insertRemark r st =
     st\<lparr>vsRemarks := insert_absent rmID r (vsRemarks st)\<rparr>"

definition listRemarks :: "string \<Rightarrow> 'b vstore \<Rightarrow> remark list" where
  "listRemarks reportID st =
     sort_key (\<lambda>r. (text_key (rmCreatedAt r), rmID r))
       (filter (\<lambda>r. rmReportID r = reportID) (vsRemarks st))"

text \<open>\<open>ORDER BY id DESC LIMIT 1\<close> over the notices of one version.\<close>

definition latestInvalidationNotice :: "string \<Rightarrow> int \<Rightarrow> 'b vstore \<Rightarrow> invalidationNotice option" where
  "latestInvalidationNotice reportID versionNo st =
     (case filter (\<lambda>n. inReportID (snd n) = reportID \<and> inVersionNo (snd n) = versionNo)
             (rev (sort_key fst (vsNotices st))) of
        [] \<Rightarrow> None
      | n # _ \<Rightarrow> Some (snd n))"

definition insertInvalidationNotice :: "invalidationNotice \<Rightarrow> 'b vstore \<Rightarrow> 'b vstore" where
  "insertInvalidationNotice n st =
     (let insert = st\<lparr>vsNotices := vsNotices st @ [(vsNextNotice st, n)],
                      vsNextNotice := vsNextNotice st + 1\<rparr>
      in case latestInvalidationNotice (inReportID n) (inVersionNo n) st of
           Some l \<Rightarrow> if inBrokenRules l = inBrokenRules n then st else insert
         | None \<Rightarrow> insert)"

definition listInvalidationNotices :: "string \<Rightarrow> 'b vstore \<Rightarrow> invalidationNotice list" where
  "listInvalidationNotices reportID st =
     map snd (filter (\<lambda>n. inReportID (snd n) = reportID) (sort_key fst (vsNotices st)))"

definition insertAttachment :: "attachment \<Rightarrow> 'b vstore \<Rightarrow> store_error + 'b vstore" where
  "insertAttachment a st =
     (if list_ex (\<lambda>x. atID x = atID a) (vsAttachments st) then Inl ErrConstraint
      else Inr (st\<lparr>vsAttachments := vsAttachments st @ [a\<lparr>atSyncedAt := None\<rparr>]\<rparr>))"

definition listAttachments :: "slice_sorter \<Rightarrow> string \<Rightarrow> int \<Rightarrow> 'b vstore \<Rightarrow> attachment list" where
  "listAttachments p reportID versionNo st =
     sort_slice p (\<lambda>a. text_key (atUploadedAt a))
       (filter (\<lambda>a. atReportID a = reportID \<and> atVersionNo a = versionNo) (vsAttachments st))"

definition getAttachment :: "string \<Rightarrow> 'b vstore \<Rightarrow> store_error + attachment" where
  "getAttachment i st =
     (case find_row atID (vsAttachments st) i of None \<Rightarrow> Inl ErrNotFound | Some a \<Rightarrow> Inr a)"

definition deleteAttachment :: "string \<Rightarrow> 'b vstore \<Rightarrow> 'b vstore" where
  "deleteAttachment i st = st\<lparr>vsAttachments := filter (\<lambda>a. atID a \<noteq> i) (vsAttachments st)\<rparr>"

definition listPendingAttachments :: "slice_sorter \<Rightarrow> 'b vstore \<Rightarrow> attachment list" where
  "listPendingAttachments p st =
     sort_slice p (\<lambda>a. text_key (atUploadedAt a)) (filter (\<lambda>a. atSyncedAt a = None) (vsAttachments st))"

definition markAttachmentSynced :: "string \<Rightarrow> gotime \<Rightarrow> 'b vstore \<Rightarrow> 'b vstore" where
  "markAttachmentSynced i at_time st =
     st\<lparr>vsAttachments :=
         map (\<lambda>a. if atID a = i then a\<lparr>atSyncedAt := Some at_time\<rparr> else a) (vsAttachments st)\<rparr>"

section \<open>Inbox\<close>

definition getInboxCursors :: "'b vstore \<Rightarrow> inboxCursors" where
  "getInboxCursors st = vsCursors st"

definition applyConfigBundle :: "'b pulledConfigBundle \<Rightarrow> 'b vstore \<Rightarrow> 'b vstore" where
  "applyConfigBundle cb st =
     st\<lparr>vsConfigBundles := insert_absent pcbBundleID cb (vsConfigBundles st)\<rparr>"

text \<open>\<open>ORDER BY version_no DESC LIMIT 1\<close>; which of several bundles of equal version is left to the sorter.\<close>

definition latestConfigBundle :: "slice_sorter \<Rightarrow> 'b vstore \<Rightarrow> 'b pulledConfigBundle option" where
  "latestConfigBundle p st =
     (case sort_slice p (\<lambda>b. - pcbVersionNo b) (vsConfigBundles st) of [] \<Rightarrow> None | b # _ \<Rightarrow> Some b)"

definition schema_version_key :: "pulledSchemaVersion \<Rightarrow> string \<times> string" where
  "schema_version_key sv = (psvSchemaName sv, psvVersion sv)"

definition storeSchemaVersion :: "pulledSchemaVersion \<Rightarrow> 'b vstore \<Rightarrow> 'b vstore" where
  "storeSchemaVersion sv st =
     st\<lparr>vsSchemaVersions := insert_absent schema_version_key sv (vsSchemaVersions st)\<rparr>"

text \<open>The transaction of \<open>ApplyInboxPull\<close>: contents first, then the cursors.\<close>

definition pull_transaction ::
  "pulledSchemaVersion list \<Rightarrow> 'b pulledConfigBundle list \<Rightarrow> chatMessage list \<Rightarrow> inboxCursors
   \<Rightarrow> 'b vstore \<Rightarrow> 'b vstore" where
  "pull_transaction svs cbs msgs next_cursors st =
     (let st = fold storeSchemaVersion svs st;
          st = fold applyConfigBundle cbs st;
          st = fold insertChatMessage msgs st
      in st\<lparr>vsCursors := next_cursors\<rparr>)"

text \<open>\<open>SaveReport\<close> and then \<open>AppendEvent\<close>, the pair of writes that ends both kinds of application.\<close>

definition save_and_append :: "report \<Rightarrow> event \<Rightarrow> 'b vstore \<Rightarrow> (store_error + unit) \<times> 'b vstore" where
  "save_and_append r event st =
     attempt st (saveReport r st) (\<lambda>st.
     attempt_val st (appendEvent event st) (\<lambda>_ st. (Inr (), st)))"

definition applyInvalidationNotice ::
  "invalidationNotice \<Rightarrow> 'b vstore \<Rightarrow> (store_error + unit) \<times> 'b vstore" where
  "applyInvalidationNotice n st =
     (case getLatestVersion (inReportID n) st of
        Inl e \<Rightarrow> if e = ErrNotFound then (Inr (), st) else (Inl e, st)
      | Inr r \<Rightarrow>
          if State r = StateInvalidated \<and> InvalidatedRules r = inBrokenRules n then (Inr (), st)
          else
            (case invalidate (inBrokenRules n) (inComputedAt n) r of (r, event) \<Rightarrow>
               save_and_append r event st))"

text \<open>
  The groups of \<open>applyRemarks\<close>, one for each report, instant and author, in first-seen order.  Go ranges over
  them in an order of its own: \<open>iter\<close> is that order.
\<close>

type_synonym remarkGroupKey = "string \<times> gotime \<times> string"
type_synonym remark_groups = "(remarkGroupKey \<times> string list) list"

definition remark_key :: "remark \<Rightarrow> remarkGroupKey" where
  "remark_key rm = (rmReportID rm, rmCreatedAt rm, rmAuthor rm)"

fun add_to_group :: "remarkGroupKey \<Rightarrow> string \<Rightarrow> remark_groups \<Rightarrow> remark_groups" where
  "add_to_group k f [] = [(k, [f])]"
| "add_to_group k f ((l, fs) # gs) =
     (if k = l then (l, fs @ [f]) # gs else (l, fs) # add_to_group k f gs)"

definition group_remarks :: "remark list \<Rightarrow> remark_groups" where
  "group_remarks rms = fold (\<lambda>rm gs. add_to_group (remark_key rm) (rmFieldName rm) gs) rms []"

definition applyRemarkGroup ::
  "remarkGroupKey \<times> string list \<Rightarrow> 'b vstore \<Rightarrow> (store_error + unit) \<times> 'b vstore" where
  "applyRemarkGroup g st =
     (case g of ((reportID, createdAt, author), fieldNames) \<Rightarrow>
        (case getLatestVersion reportID st of
           Inl e \<Rightarrow> if e = ErrNotFound then (Inr (), st) else (Inl e, st)
         | Inr r \<Rightarrow>
             (case markRemarked fieldNames author createdAt r of
                Inl _ \<Rightarrow> (Inr (), st)
              | Inr (r, event) \<Rightarrow> save_and_append r event st)))"

definition applyRemarks ::
  "(remark_groups \<Rightarrow> remark_groups) \<Rightarrow> remark list \<Rightarrow> 'b vstore \<Rightarrow> (store_error + unit) \<times> 'b vstore" where
  "applyRemarks iter newlyInserted st = for_each applyRemarkGroup (iter (group_remarks newlyInserted)) st"

text \<open>The two loops after the transaction of \<open>ApplyInboxPull\<close>.\<close>

definition notice_step :: "invalidationNotice \<Rightarrow> 'b vstore \<Rightarrow> (store_error + unit) \<times> 'b vstore" where
  "notice_step n st = applyInvalidationNotice n (insertInvalidationNotice n st)"

definition remark_step :: "remark \<Rightarrow> remark list \<times> 'b vstore \<Rightarrow> remark list \<times> 'b vstore" where
  "remark_step rm acc =
     (case acc of (newlyInserted, st) \<Rightarrow>
        let alreadyExists = list_ex (\<lambda>x. rmID x = rmID rm) (vsRemarks st) in
        (if alreadyExists then newlyInserted else newlyInserted @ [rm], insertRemark rm st))"

definition applyInboxPull ::
  "(remark_groups \<Rightarrow> remark_groups) \<Rightarrow> pulledSchemaVersion list \<Rightarrow> 'b pulledConfigBundle list
   \<Rightarrow> chatMessage list \<Rightarrow> invalidationNotice list \<Rightarrow> remark list \<Rightarrow> inboxCursors \<Rightarrow> 'b vstore
   \<Rightarrow> (store_error + unit) \<times> 'b vstore" where
  "applyInboxPull iter svs cbs msgs notices rms next_cursors st =
     andthen (for_each notice_step notices (pull_transaction svs cbs msgs next_cursors st)) (\<lambda>_ st.
       case fold remark_step rms ([], st) of
         (newlyInserted, st) \<Rightarrow> applyRemarks iter newlyInserted st)"

section \<open>Lookups after writes\<close>

definition look_report :: "'b vstore \<Rightarrow> string \<times> int \<Rightarrow> report option" where
  "look_report st k = find_row report_key (vsReports st) k"

lemma report_key_upsert [simp]: "report_key (upsert_row old r) = report_key r"
  by (simp add: report_key_def upsert_row_def)

interpretation report_table: upsert_table report_key look_report saveReport upsert_row
proof unfold_locales
  fix v :: report and s s' :: "'b vstore" and k
  assume save: "saveReport v s = Inr s'"
  show "look_report s' k = (if k = report_key v
      then Some (case look_report s k of None \<Rightarrow> v | Some old \<Rightarrow> upsert_row old v) else look_report s k)"
  proof (cases "look_report s (report_key v)")
    case None
    with save have "s' = s\<lparr>vsReports := vsReports s @ [v]\<rparr>"
      by (auto simp: saveReport_def look_report_def split: if_splits)
    with None show ?thesis by (auto simp: look_report_def find_row_append split: option.split)
  next
    case (Some old)
    let ?f = "\<lambda>x. if report_key x = report_key v then upsert_row x v else x"
    have f: "?f = (\<lambda>x. if report_key x = report_key v then ?f x else x)" by auto
    from save Some have "s' = s\<lparr>vsReports := map ?f (vsReports s)\<rparr>"
      by (auto simp: saveReport_def look_report_def split: if_splits)
    moreover have "find_row report_key (map ?f (vsReports s)) k =
        (if k = report_key v then map_option ?f (find_row report_key (vsReports s) k)
         else find_row report_key (vsReports s) k)"
      by (subst f, rule find_row_update) simp
    ultimately show ?thesis
      using Some by (auto simp: look_report_def dest: find_row_SomeD)
  qed
qed

interpretation chat_table: insert_table cmID "\<lambda>st. find_row cmID (vsChat st)" insertChatMessage
  by unfold_locales (simp_all add: insertChatMessage_def find_row_insert_absent insert_absent_present)

interpretation remark_table: insert_table rmID "\<lambda>st. find_row rmID (vsRemarks st)" insertRemark
  by unfold_locales (simp_all add: insertRemark_def find_row_insert_absent insert_absent_present)

interpretation bundle_table: insert_table pcbBundleID "\<lambda>st. find_row pcbBundleID (vsConfigBundles st)"
    applyConfigBundle
  by unfold_locales (simp_all add: applyConfigBundle_def find_row_insert_absent insert_absent_present)

interpretation schema_table: insert_table schema_version_key
    "\<lambda>st. find_row schema_version_key (vsSchemaVersions st)" storeSchemaVersion
  by unfold_locales (simp_all add: storeSchemaVersion_def find_row_insert_absent insert_absent_present)

section \<open>Frame rules\<close>

text \<open>Which table each write touches.\<close>

named_theorems frame \<open>tables a write leaves alone\<close>

lemma saveReport_frame [frame]:
  "saveReport r st = Inr st' \<Longrightarrow> vsEvents st' = vsEvents st"
  "saveReport r st = Inr st' \<Longrightarrow> vsNextEvent st' = vsNextEvent st"
  "saveReport r st = Inr st' \<Longrightarrow> vsOutbox st' = vsOutbox st"
  "saveReport r st = Inr st' \<Longrightarrow> vsOutboxNext st' = vsOutboxNext st"
  "saveReport r st = Inr st' \<Longrightarrow> vsSchemaVersions st' = vsSchemaVersions st"
  "saveReport r st = Inr st' \<Longrightarrow> vsConfigBundles st' = vsConfigBundles st"
  "saveReport r st = Inr st' \<Longrightarrow> vsCursors st' = vsCursors st"
  "saveReport r st = Inr st' \<Longrightarrow> vsChat st' = vsChat st"
  "saveReport r st = Inr st' \<Longrightarrow> vsNotices st' = vsNotices st"
  "saveReport r st = Inr st' \<Longrightarrow> vsNextNotice st' = vsNextNotice st"
  "saveReport r st = Inr st' \<Longrightarrow> vsRemarks st' = vsRemarks st"
  "saveReport r st = Inr st' \<Longrightarrow> vsAttachments st' = vsAttachments st"
  "saveReport r st = Inr st' \<Longrightarrow> vsDeletedLog st' = vsDeletedLog st"
  by (auto simp: saveReport_def split: if_splits option.splits)

lemma appendEvent_SomeD:
  "appendEvent e st = Inr (i, st') \<Longrightarrow> i = vsNextEvent st \<and>
   st' = st\<lparr>vsEvents := vsEvents st @ [(i, e\<lparr>evDetail := Some (case evDetail e of None \<Rightarrow> [] | Some d \<Rightarrow> d)\<rparr>)],
            vsNextEvent := i + 1\<rparr>"
  by (auto simp: appendEvent_def Let_def split: if_splits)

lemma enqueue_SomeD:
  "enqueueOutboxItem uuid now kind rid v ev cm st = Inr (item, st') \<Longrightarrow>
   obSequenceNo item = vsOutboxNext st \<and> Some (obItemID item) = uuid \<and> obKind item = kind \<and>
   obReportID item = rid \<and> obVersionNo item = v \<and> obReportEventID item = ev \<and> obChatMessageID item = cm \<and>
   obItemID item \<notin> obItemID ` set (vsOutbox st) \<and>
   st' = st\<lparr>vsOutbox := vsOutbox st @ [item], vsOutboxNext := vsOutboxNext st + 1\<rparr>"
  by (auto simp: enqueueOutboxItem_def Let_def list_ex_iff split: option.splits if_splits)

section \<open>Table invariants\<close>

definition store_wf :: "'b vstore \<Rightarrow> bool" where
  "store_wf st \<longleftrightarrow>
     distinct (map report_key (vsReports st)) \<and>
     ids_ok (map fst (vsEvents st)) (vsNextEvent st) \<and>
     distinct (map obItemID (vsOutbox st)) \<and> ids_ok (map obSequenceNo (vsOutbox st)) (vsOutboxNext st) \<and>
     distinct (map cmID (vsChat st)) \<and> distinct (map rmID (vsRemarks st)) \<and>
     distinct (map atID (vsAttachments st)) \<and> distinct (map pcbBundleID (vsConfigBundles st)) \<and>
     distinct (map schema_version_key (vsSchemaVersions st)) \<and>
     ids_ok (map fst (vsNotices st)) (vsNextNotice st)"

lemma store_wf_empty: "store_wf empty_vstore"
  by (simp add: store_wf_def empty_vstore_def)

lemma distinct_map_report_key_update:
  "map report_key (map (\<lambda>x. if report_key x = report_key r then upsert_row x r else x) rows) = map report_key rows"
  by simp

lemma saveReport_rows:
  "saveReport r st = Inr st' \<Longrightarrow>
   map report_key (vsReports st') =
     (if report_key r \<in> set (map report_key (vsReports st)) then map report_key (vsReports st)
      else map report_key (vsReports st) @ [report_key r])"
proof (cases "find_row report_key (vsReports st) (report_key r)")
  case None
  assume "saveReport r st = Inr st'"
  moreover have "report_key r \<notin> set (map report_key (vsReports st))"
    using None by (simp add: find_row_None_iff)
  ultimately show ?thesis using None by (auto simp: saveReport_def split: if_splits)
next
  case (Some old)
  assume "saveReport r st = Inr st'"
  moreover have "report_key r \<in> set (map report_key (vsReports st))"
    using find_row_SomeD[OF Some] by (metis image_eqI set_map)
  ultimately show ?thesis
    using Some by (auto simp: saveReport_def split: if_splits)
qed

lemma store_wf_saveReport: "store_wf st \<Longrightarrow> saveReport r st = Inr st' \<Longrightarrow> store_wf st'"
  using saveReport_rows[of r st st'] by (simp add: store_wf_def saveReport_frame)

lemma store_wf_appendEvent: "store_wf st \<Longrightarrow> appendEvent e st = Inr (i, st') \<Longrightarrow> store_wf st'"
  using appendEvent_SomeD[of e st i st'] by (simp add: store_wf_def)

lemma store_wf_enqueue:
  assumes "store_wf st" and "enqueueOutboxItem uuid now kind rid v ev cm st = Inr (item, st')"
  shows "store_wf st'"
proof -
  from enqueue_SomeD[OF assms(2)] have i: "obSequenceNo item = vsOutboxNext st"
    "obItemID item \<notin> obItemID ` set (vsOutbox st)"
    "st' = st\<lparr>vsOutbox := vsOutbox st @ [item], vsOutboxNext := vsOutboxNext st + 1\<rparr>" by auto
  with assms(1) show ?thesis by (simp add: store_wf_def)
qed

lemma store_wf_ack: "store_wf st \<Longrightarrow> store_wf (ackOutboxItem i st)"
  by (simp add: store_wf_def ackOutboxItem_def distinct_map_filter)

lemma store_wf_deleteReport: "store_wf st \<Longrightarrow> deleteReport now rid by st = Inr st' \<Longrightarrow> store_wf st'"
  by (auto simp: store_wf_def deleteReport_def distinct_map_filter split: sum.splits)

lemma store_wf_inserts:
  "store_wf st \<Longrightarrow> store_wf (insertChatMessage m st)"
  "store_wf st \<Longrightarrow> store_wf (insertRemark rm st)"
  "store_wf st \<Longrightarrow> store_wf (applyConfigBundle cb st)"
  "store_wf st \<Longrightarrow> store_wf (storeSchemaVersion sv st)"
  "store_wf st \<Longrightarrow> store_wf (st\<lparr>vsCursors := c\<rparr>)"
  by (simp_all add: store_wf_def insertChatMessage_def insertRemark_def applyConfigBundle_def
      storeSchemaVersion_def distinct_insert_absent)

lemma store_wf_notice: "store_wf st \<Longrightarrow> store_wf (insertInvalidationNotice n st)"
  by (simp add: store_wf_def insertInvalidationNotice_def Let_def split: option.split)

lemma store_wf_attachments:
  assumes "store_wf st"
  shows "insertAttachment a st = Inr st' \<Longrightarrow> store_wf st'"
    and "store_wf (deleteAttachment i st)"
    and "store_wf (markAttachmentSynced i t st)"
proof -
  note wf = assms
  show "insertAttachment a st = Inr st' \<Longrightarrow> store_wf st'"
    using wf by (force simp: store_wf_def insertAttachment_def list_ex_iff split: if_splits)
  show "store_wf (deleteAttachment i st)"
    using wf by (simp add: store_wf_def deleteAttachment_def distinct_map_filter)
  have eq: "map atID (map (\<lambda>a. if atID a = i then a\<lparr>atSyncedAt := Some t\<rparr> else a) (vsAttachments st)) =
      map atID (vsAttachments st)" by simp
  show "store_wf (markAttachmentSynced i t st)"
    using wf by (simp add: markAttachmentSynced_def store_wf_def eq del: map_map)
qed

lemma store_wf_fold: "(\<And>x s. store_wf s \<Longrightarrow> store_wf (f x s)) \<Longrightarrow> store_wf s \<Longrightarrow> store_wf (fold f xs s)"
  by (induction xs arbitrary: s) auto

lemma store_wf_pull_transaction: "store_wf st \<Longrightarrow> store_wf (pull_transaction svs cbs msgs c st)"
  by (auto simp: pull_transaction_def Let_def intro!: store_wf_inserts(5) store_wf_fold store_wf_inserts)

lemma store_wf_save_and_append: "store_wf st \<Longrightarrow> store_wf (snd (save_and_append r event st))"
  by (cases "saveReport r st")
    (auto simp: save_and_append_def attempt_val_def split: sum.split
      dest: store_wf_saveReport store_wf_appendEvent)

lemma store_wf_applyInvalidationNotice:
  "store_wf st \<Longrightarrow> store_wf (snd (applyInvalidationNotice n st))"
  by (simp add: applyInvalidationNotice_def store_wf_save_and_append split: sum.split prod.split)

lemma store_wf_applyRemarkGroup: "store_wf st \<Longrightarrow> store_wf (snd (applyRemarkGroup g st))"
  by (simp add: applyRemarkGroup_def store_wf_save_and_append split: sum.split prod.split)

lemma store_wf_remark_steps:
  "store_wf (snd acc) \<Longrightarrow> store_wf (snd (fold remark_step rms acc))"
proof (induction rms arbitrary: acc)
  case (Cons rm rms)
  have "store_wf (snd (remark_step rm acc))"
    using Cons.prems by (cases acc) (simp add: remark_step_def Let_def store_wf_inserts)
  then show ?case using Cons.IH by simp
qed simp

lemma store_wf_applyInboxPull:
  assumes "store_wf st"
  shows "store_wf (snd (applyInboxPull iter svs cbs msgs notices rms c st))"
proof -
  have "store_wf (snd (for_each notice_step notices (pull_transaction svs cbs msgs c st)))"
    using assms by (auto intro!: for_each_inv[where P = store_wf] store_wf_pull_transaction
        simp: notice_step_def store_wf_applyInvalidationNotice store_wf_notice)
  then show ?thesis
    unfolding applyInboxPull_def
  proof (rule andthen_inv)
    fix v s assume "store_wf s"
    then have "store_wf (snd (fold remark_step rms ([], s)))" using store_wf_remark_steps[of "([], s)"] by simp
    then show "store_wf (snd (case fold remark_step rms ([], s) of (new, st) \<Rightarrow> applyRemarks iter new st))"
      by (auto split: prod.split simp: applyRemarks_def intro!: for_each_inv[where P = store_wf]
          store_wf_applyRemarkGroup)
  qed
qed

section \<open>Committed rows are immutable\<close>

text \<open>
  What the trigger protects, with the state kept in the chain: every committed row of the first store is a
  committed row of the second, with the same data.
\<close>

definition same_data :: "report \<Rightarrow> report \<Rightarrow> bool" where
  "same_data a b \<longleftrightarrow> report_key b = report_key a \<and> Fields b = Fields a \<and>
     EventTime b = EventTime a \<and> EventType b = EventType a"

definition frozen :: "report \<Rightarrow> report \<Rightarrow> bool" where
  "frozen a b \<longleftrightarrow> (inChain (State a) \<longrightarrow> inChain (State b) \<and> same_data a b)"

definition rows_frozen :: "'b vstore \<Rightarrow> 'b vstore \<Rightarrow> bool" where
  "rows_frozen st st' \<longleftrightarrow>
     (\<forall>k a. look_report st k = Some a \<longrightarrow> (\<exists>b. look_report st' k = Some b \<and> frozen a b))"

lemma same_data_refl [simp]: "same_data a a"
  by (simp add: same_data_def)

lemma frozen_refl [simp]: "frozen a a"
  by (simp add: frozen_def)

lemma frozen_trans: "frozen a b \<Longrightarrow> frozen b c \<Longrightarrow> frozen a c"
  by (auto simp: frozen_def same_data_def)

lemma rows_frozen_refl [simp]: "rows_frozen st st"
  by (simp add: rows_frozen_def)

lemma rows_frozen_trans: "rows_frozen a b \<Longrightarrow> rows_frozen b c \<Longrightarrow> rows_frozen a c"
  unfolding rows_frozen_def by (metis frozen_trans)

lemma rows_frozen_same_reports: "vsReports st' = vsReports st \<Longrightarrow> rows_frozen st st'"
  by (auto simp: rows_frozen_def look_report_def)

lemma rows_frozen_committed:
  "rows_frozen st st' \<Longrightarrow> look_report st k = Some a \<Longrightarrow> inChain (State a) \<Longrightarrow>
   \<exists>b. look_report st' k = Some b \<and> inChain (State b) \<and> same_data a b"
  unfolding rows_frozen_def frozen_def by blast

text \<open>The trigger makes a save respect this, unless the save moves a committed row back to draft or ready.\<close>

lemma saveReport_not_locked:
  assumes "saveReport r st = Inr st'" and "look_report st (report_key r) = Some old"
  shows "\<not> trigger_aborts old r"
  using assms by (auto simp: saveReport_def look_report_def split: if_splits)

lemma saveReport_frozen:
  assumes "saveReport r st = Inr st'"
    and "\<And>old. look_report st (report_key r) = Some old \<Longrightarrow> inChain (State old) \<Longrightarrow> inChain (State r)"
  shows "rows_frozen st st'"
  unfolding rows_frozen_def
proof (intro allI impI)
  fix k a assume "look_report st k = Some a"
  with assms(1) show "\<exists>b. look_report st' k = Some b \<and> frozen a b"
  proof (rule report_table.put_related)
    fix old assume old: "look_report st (report_key r) = Some old"
    have "report_key old = report_key r"
      using old by (auto simp: look_report_def dest: find_row_SomeD)
    with saveReport_not_locked[OF assms(1) old] assms(2)[OF old] show "frozen old (upsert_row old r)"
      by (auto simp: frozen_def same_data_def trigger_aborts_def upsert_row_def report_key_def)
  qed simp
qed

lemma appendEvent_reports: "appendEvent e st = Inr (i, st') \<Longrightarrow> vsReports st' = vsReports st"
  by (auto dest: appendEvent_SomeD)

lemma enqueue_reports:
  "enqueueOutboxItem uuid now kind rid v ev cm st = Inr (item, st') \<Longrightarrow> vsReports st' = vsReports st"
  by (auto dest: enqueue_SomeD)

lemma save_and_append_frozen:
  assumes "\<And>old. look_report st (report_key r) = Some old \<Longrightarrow> inChain (State old) \<Longrightarrow> inChain (State r)"
  shows "rows_frozen st (snd (save_and_append r event st))"
proof (cases "saveReport r st")
  case (Inr st1)
  then have f: "rows_frozen st st1" using assms by (rule saveReport_frozen)
  show ?thesis
  proof (cases "appendEvent event st1")
    case (Inr iv)
    with \<open>saveReport r st = Inr st1\<close> f show ?thesis
      by (cases iv) (auto simp: save_and_append_def
          intro: rows_frozen_trans rows_frozen_same_reports dest: appendEvent_reports)
  qed (use f \<open>saveReport r st = Inr st1\<close> in \<open>simp add: save_and_append_def\<close>)
qed (simp add: save_and_append_def)

text \<open>The latest version is a row of the table with the highest version number of its report.\<close>

lemma max_version_SomeD:
  "max_version rs = Some m \<Longrightarrow> m \<in> set rs \<and> (\<forall>r \<in> set rs. VersionNo r \<le> VersionNo m)"
proof (induction rs arbitrary: m)
  case (Cons r rs)
  show ?case
  proof (cases "max_version rs")
    case None
    then have "rs = []" by (cases rs) (auto split: option.splits if_splits)
    with Cons.prems show ?thesis by simp
  next
    case (Some x)
    from Cons.IH[OF Some] Cons.prems Some show ?thesis by (force split: if_splits)
  qed
qed simp

lemma max_version_None_iff [simp]: "max_version rs = None \<longleftrightarrow> rs = []"
  by (cases rs) (auto split: option.split)

lemma latest_version_SomeD:
  assumes "latest_version rows i = Some r"
  shows "r \<in> set rows" "ReportID r = i" "\<And>x. x \<in> set rows \<Longrightarrow> ReportID x = i \<Longrightarrow> VersionNo x \<le> VersionNo r"
  using max_version_SomeD[OF assms[unfolded latest_version_def]] by (auto simp: versions_of_def)

lemma getLatestVersion_Inr:
  "getLatestVersion i st = Inr r \<longleftrightarrow> latest_version (vsReports st) i = Some r"
  by (simp add: getLatestVersion_def split: option.split)

lemma latest_version_None: "latest_version rows i = None \<longleftrightarrow> i \<notin> ReportID ` set rows"
  by (auto simp: latest_version_def versions_of_def filter_empty_conv)

lemma getLatestVersion_Inl:
  "getLatestVersion i st = Inl e \<longleftrightarrow> e = ErrNotFound \<and> i \<notin> ReportID ` set (vsReports st)"
  by (auto simp: getLatestVersion_def simp flip: latest_version_None split: option.split)

lemma latest_is_row:
  "store_wf st \<Longrightarrow> getLatestVersion i st = Inr r \<Longrightarrow> look_report st (report_key r) = Some r"
  by (auto simp: getLatestVersion_Inr look_report_def store_wf_def
      intro!: find_row_unique dest: latest_version_SomeD)

lemma invalidate_report_key:
  "invalidate rules t r = (r', e) \<Longrightarrow> report_key r' = report_key r \<and> State r' = StateInvalidated"
  by (auto simp: report_key_def dest!: invalidate_sel)

lemma applyInvalidationNotice_frozen: "rows_frozen st (snd (applyInvalidationNotice n st))"
  by (auto simp: applyInvalidationNotice_def inChain_def split: sum.split prod.split
      intro!: save_and_append_frozen dest!: invalidate_report_key)

lemma applyRemarkGroup_frozen: "rows_frozen st (snd (applyRemarkGroup g st))"
  by (auto simp: applyRemarkGroup_def inChain_def split: sum.split prod.split
      intro!: save_and_append_frozen dest!: markRemarked_SomeD)

lemma insertInvalidationNotice_reports [simp]: "vsReports (insertInvalidationNotice n st) = vsReports st"
  by (simp add: insertInvalidationNotice_def Let_def split: option.split)

lemma insertRemark_reports [simp]: "vsReports (insertRemark rm st) = vsReports st"
  by (simp add: insertRemark_def)

lemma fold_frame: "(\<And>x s. g (f x s) = g s) \<Longrightarrow> g (fold f xs s) = g s"
  by (induction xs arbitrary: s) auto

lemma pull_transaction_frame [simp]:
  "vsReports (pull_transaction svs cbs msgs c st) = vsReports st"
  "vsNotices (pull_transaction svs cbs msgs c st) = vsNotices st"
  "vsRemarks (pull_transaction svs cbs msgs c st) = vsRemarks st"
  "vsEvents (pull_transaction svs cbs msgs c st) = vsEvents st"
  "vsOutbox (pull_transaction svs cbs msgs c st) = vsOutbox st"
  "vsCursors (pull_transaction svs cbs msgs c st) = c"
  by (simp_all add: pull_transaction_def Let_def fold_frame storeSchemaVersion_def applyConfigBundle_def
      insertChatMessage_def)

lemma remark_steps_reports: "vsReports (snd (fold remark_step rms acc)) = vsReports (snd acc)"
  by (rule fold_frame) (simp add: remark_step_def Let_def split: prod.split)

lemma for_each_frozen:
  assumes "\<And>x s. rows_frozen s (snd (f x s))"
  shows "rows_frozen s (snd (for_each f xs s))"
  by (rule for_each_inv[where P = "rows_frozen s"]) (auto intro: rows_frozen_trans assms)

text \<open>A pull never changes the data of a committed version.\<close>

lemma applyInboxPull_frozen:
  "rows_frozen st (snd (applyInboxPull iter svs cbs msgs notices rms c st))"
proof -
  have n: "rows_frozen s (snd (notice_step n s))" for n s
    unfolding notice_step_def
    by (rule rows_frozen_trans[OF rows_frozen_same_reports applyInvalidationNotice_frozen]) simp
  have "rows_frozen st (snd (for_each notice_step notices (pull_transaction svs cbs msgs c st)))"
    by (rule rows_frozen_trans[OF rows_frozen_same_reports for_each_frozen[OF n]]) simp
  then show ?thesis
    unfolding applyInboxPull_def
  proof (rule andthen_inv)
    fix v s assume "rows_frozen st s"
    obtain new s2 where f: "fold remark_step rms ([], s) = (new, s2)"
      by (cases "fold remark_step rms ([], s)")
    have "vsReports s2 = vsReports s" using remark_steps_reports[of rms "([], s)"] f by simp
    then have "rows_frozen s s2" by (rule rows_frozen_same_reports)
    moreover have "rows_frozen s2 (snd (applyRemarks iter new s2))"
      unfolding applyRemarks_def by (rule for_each_frozen[OF applyRemarkGroup_frozen])
    ultimately show "rows_frozen st (snd (case fold remark_step rms ([], s) of (new, st) \<Rightarrow> applyRemarks iter new st))"
      using \<open>rows_frozen st s\<close> f by (auto intro: rows_frozen_trans)
  qed
qed

section \<open>Order and content of the lists\<close>

lemma frac_rank_bounds: "0 \<le> n \<Longrightarrow> 0 \<le> frac_rank z k n \<and> frac_rank z k n \<le> 11 ^ k - 1"
proof (induction z k n rule: frac_rank.induct)
  case (2 z k n)
  then have "0 \<le> frac_rank (z \<and> n mod 10 = 0) k (n div 10)"
    "frac_rank (z \<and> n mod 10 = 0) k (n div 10) \<le> 11 ^ k - 1"
    by (simp_all add: pos_imp_zdiv_nonneg_iff)
  moreover have "0 \<le> n mod 10" "n mod 10 \<le> 9" by simp_all
  ultimately show ?case by (auto simp: Let_def)
qed simp

lemma frac_rank_zero: "frac_rank True k 0 = 11 ^ k - 1"
  by (induction k) (simp_all add: Let_def)

lemma frac_rank_less: "0 < n \<Longrightarrow> n < 10 ^ k \<Longrightarrow> frac_rank True k n < 11 ^ k - 1"
proof (induction k arbitrary: n)
  case (Suc k)
  show ?case
  proof (cases "n mod 10 = 0")
    case True
    then obtain q where q: "n = 10 * q" by (auto simp: mod_eq_0_iff_dvd)
    with Suc.prems have "0 < q" "q < 10 ^ k" by simp_all
    from Suc.IH[OF this] show ?thesis by (simp add: q Let_def)
  next
    case False
    have "frac_rank False k (n div 10) \<le> 11 ^ k - 1"
      using Suc.prems frac_rank_bounds[of "n div 10"] by (simp add: pos_imp_zdiv_nonneg_iff)
    moreover have "n mod 10 \<le> 9" by simp
    ultimately show ?thesis using False by (simp add: Let_def)
  qed
qed simp

text \<open>Times of whole seconds, as those parsed from the entered date and time, are listed in order.\<close>

lemma text_key_whole_seconds:
  assumes "second dvd t" and "second dvd u"
  shows "text_key t \<le> text_key u \<longleftrightarrow> t \<le> u"
proof -
  obtain a b where "t = second * a" "u = second * b" using assms by (elim dvdE)
  then show ?thesis by (simp add: text_key_def second_def)
qed

text \<open>A fraction of a second sorts before the second it follows.\<close>

lemma text_key_fraction:
  assumes "second dvd t" and "0 < n" and "n < second"
  shows "text_key (t + n) < text_key t"
proof -
  obtain a where a: "t = second * a" using assms(1) by (elim dvdE)
  have "(t + n) div second = a" "(t + n) mod second = n" "t div second = a" "t mod second = 0"
    using assms(2,3) by (simp_all add: a second_def)
  then show ?thesis
    using frac_rank_less[of n 9] assms(2,3) by (simp add: text_key_def frac_rank_zero second_def)
qed

lemma is_latest_iff:
  assumes "store_wf st" and "r \<in> set (vsReports st)"
  shows "is_latest (vsReports st) r \<longleftrightarrow> getLatestVersion (ReportID r) st = Inr r"
proof -
  obtain m where m: "latest_version (vsReports st) (ReportID r) = Some m"
    using assms(2) latest_version_None[of "vsReports st" "ReportID r"]
    by (cases "latest_version (vsReports st) (ReportID r)") auto
  note m' = latest_version_SomeD[OF m]
  have "is_latest (vsReports st) r \<longleftrightarrow> m = r"
  proof
    assume "is_latest (vsReports st) r"
    with m' assms(2) have "VersionNo m = VersionNo r"
      by (fastforce simp: is_latest_def list_all_iff)
    with m'(1,2) assms show "m = r"
      by (metis distinct_map inj_onD report_key_def store_wf_def)
  qed (use m' in \<open>simp add: is_latest_def list_all_iff\<close>)
  then show ?thesis by (simp add: getLatestVersion_Inr m)
qed

lemma latest_committed_unique:
  assumes "store_wf st" and "a \<in> set (vsReports st)" and "b \<in> set (vsReports st)"
    and "is_latest_committed (vsReports st) a" and "is_latest_committed (vsReports st) b"
    and "ReportID a = ReportID b"
  shows "a = b"
proof -
  have "VersionNo a = VersionNo b"
    using assms(2-6) by (fastforce simp: is_latest_committed_def is_latest_def list_all_iff)
  with assms(1-3,6) show ?thesis
    by (metis distinct_map inj_onD report_key_def store_wf_def)
qed

context slice_sort begin

lemma set_listCommittedChain: "set (listCommittedChain p sname st) =
    {r \<in> set (vsReports st). SchemaName r = sname \<and> is_latest_committed (vsReports st) r}"
  by (auto simp: listCommittedChain_def)

text \<open>The committed chain has one entry for each report.\<close>

lemma distinct_listCommittedChain:
  assumes "store_wf st"
  shows "distinct (map ReportID (listCommittedChain p sname st))"
proof -
  let ?rows = "filter (\<lambda>r. SchemaName r = sname \<and> is_latest_committed (vsReports st) r) (vsReports st)"
  have "distinct (vsReports st)"
    using assms by (auto simp: store_wf_def distinct_map)
  moreover have "inj_on ReportID (set ?rows)"
    using latest_committed_unique[OF assms] by (auto intro!: inj_onI)
  ultimately have "distinct (map ReportID ?rows)" by (simp add: distinct_map)
  then show ?thesis
    unfolding listCommittedChain_def by (simp only: distinct_map_sort_slice)
qed

lemma latestConfigBundle_max:
  assumes "latestConfigBundle p st = Some b"
  shows "b \<in> set (vsConfigBundles st) \<and> (\<forall>x \<in> set (vsConfigBundles st). pcbVersionNo x \<le> pcbVersionNo b)"
proof -
  obtain bs where bs: "sort_slice p (\<lambda>b. - pcbVersionNo b) (vsConfigBundles st) = b # bs"
    using assms by (auto simp: latestConfigBundle_def split: list.splits)
  have "set (b # bs) = set (vsConfigBundles st)"
    using set_sort_slice[of "\<lambda>b. - pcbVersionNo b" "vsConfigBundles st"] by (simp only: bs)
  moreover have "\<forall>x \<in> set bs. pcbVersionNo x \<le> pcbVersionNo b"
    using sorted_sort_slice[of "\<lambda>b. - pcbVersionNo b" "vsConfigBundles st"] by (auto simp: bs)
  ultimately show ?thesis by auto
qed

end

section \<open>A notice acts on the latest version\<close>

text \<open>
  Whatever version an invalidation notice names, the version it invalidates is the latest one of its report: a draft
  correction in progress is invalidated, and so committed to the chain, by a notice about the version it corrects.
\<close>

lemma json_of_strings_finite [simp]: "json_finite (json_of_strings xs)"
proof -
  have "json_finite_list (map JStr xs)" by (induction xs) auto
  then show ?thesis by (simp add: json_of_strings_def)
qed

lemma applyInvalidationNotice_latest:
  assumes "store_wf st" and "getLatestVersion (inReportID n) st = Inr r" and "fields_finite (Fields r)"
    and "State r \<noteq> StateInvalidated"
  shows "fst (applyInvalidationNotice n st) = Inr ()"
    and "\<exists>r'. look_report (snd (applyInvalidationNotice n st)) (report_key r) = Some r' \<and>
      State r' = StateInvalidated \<and> InvalidatedFrom r' = State r \<and> same_data r r'"
proof -
  obtain r1 e where inv: "invalidate (inBrokenRules n) (inComputedAt n) r = (r1, e)" by fastforce
  note r1 = invalidate_sel[OF inv]
  have key: "report_key r1 = report_key r" using r1 by (simp add: report_key_def)
  have row: "look_report st (report_key r) = Some r" using assms(1,2) by (rule latest_is_row)
  obtain st1 where st1: "saveReport r1 st = Inr st1"
    using row assms(3) key r1 by (auto simp: saveReport_def look_report_def trigger_aborts_def)
  have "evDetail e = mk_detail [(''brokenRules'', json_of_strings (inBrokenRules n)),
      (''fromState'', JStr (state_text (InvalidatedFrom r1)))]"
    using inv by (auto simp: invalidate_def Let_def)
  then obtain i st2 where st2: "appendEvent e st1 = Inr (i, st2)"
    by (auto simp: appendEvent_def mk_detail_def json_of_strings_finite Let_def)
  have res: "applyInvalidationNotice n st = (Inr (), st2)"
    using assms(2,4) by (simp add: applyInvalidationNotice_def inv save_and_append_def st1 st2)
  have "look_report st2 (report_key r) = Some (upsert_row r r1)"
    using report_table.put_look_key[OF st1] row appendEvent_reports[OF st2]
    by (simp add: key look_report_def)
  with res r1 assms(4) show "\<exists>r'. look_report (snd (applyInvalidationNotice n st)) (report_key r) = Some r' \<and>
      State r' = StateInvalidated \<and> InvalidatedFrom r' = State r \<and> same_data r r'"
    by (auto simp: upsert_row_def same_data_def report_key_def)
  show "fst (applyInvalidationNotice n st) = Inr ()" by (simp add: res)
qed

end
