(* ===== verification/ConfigWire.thy ===== *)
theory ConfigWire
  imports VesselStore
begin

text \<open>
  The configuration a vessel runs with: the wire document of \<open>pkg/configwire\<close> and the resolvers of
  \<open>vessel/httpapi/configbundle.go\<close> and \<open>schemas.go\<close> that turn the applied bundle, or its absence, into field
  policy, event applicability, prefill classes, engine configuration, profiles and cadence; the schema endpoint, which fills
  a new report from the last submitted one.

  A document is \<open>NotJSON\<close> when \<open>encoding/json\<close> refuses it.  The strings of the document are converted to the engine's
  vocabulary where the code converts them.

  Lemmas: which documents are accepted, what a bundle changes in the configuration, that severities come from the bundle
  alone, that no configuration the program builds names delivery-note fields.
\<close>

section \<open>The wire document\<close>

definition wireVersion :: int where "wireVersion = 1"

record schemaConfig =
  scSchemaName :: string
  scVersion :: string
  scPolicy :: "(string, string) gomap"
  scPrefill :: "(string, string) gomap"
  scEvents :: fieldEvents

record wireBundle =
  bWireVersion :: int
  bBundleID :: string
  bVersionNo :: int
  bPublishedAt :: gotime
  bSchemas :: "schemaConfig list"
  bRegulatoryProfiles :: "string list"
  bMaxGapHours :: float64
  bRuleSeverities :: "(string, string) gomap"
  bDefaultRoleNames :: "string list"

datatype bundle_doc = NotJSON | Doc wireBundle

definition schemaConfigFor :: "wireBundle \<Rightarrow> string \<Rightarrow> schemaConfig option" where
  "schemaConfigFor b sname = List.find (\<lambda>sc. scSchemaName sc = sname) (bSchemas b)"

datatype decode_error = ErrDecodeBundle | ErrWireVersion int

definition decodeBundle :: "bundle_doc \<Rightarrow> decode_error + wireBundle" where
  "decodeBundle d =
     (case d of
        NotJSON \<Rightarrow> Inl ErrDecodeBundle
      | Doc b \<Rightarrow>
          if bWireVersion b < 1 \<or> bWireVersion b > wireVersion then Inl (ErrWireVersion (bWireVersion b))
          else Inr b)"

type_synonym store = "bundle_doc vstore"

section \<open>Vocabulary\<close>

definition to_severity :: "string \<Rightarrow> severity" where
  "to_severity s =
     (if s = ''error'' then SeverityError else if s = ''warning'' then SeverityWarning
      else if s = ''info'' then SeverityInfo else SeverityOther s)"

definition to_policy_state :: "string \<Rightarrow> policy_state" where
  "to_policy_state s =
     (if s = ''hidden'' then FieldHidden else if s = ''optional'' then FieldOptional
      else if s = ''recommended'' then FieldRecommended
      else if s = ''companyMandatory'' then FieldCompanyMandatory
      else if s = ''schemaMandatory'' then FieldSchemaMandatory else FieldStateOther s)"

definition to_profile :: "string \<Rightarrow> profile" where
  "to_profile s =
     (if s = ''mrv'' then ProfileMRV else if s = ''dcs'' then ProfileDCS else if s = ''cii'' then ProfileCII
      else if s = ''voyageVerification'' then ProfileVoyageVerification else ProfileOther s)"

definition profile_text :: "profile \<Rightarrow> string" where
  "profile_text p =
     (case p of ProfileMRV \<Rightarrow> ''mrv'' | ProfileDCS \<Rightarrow> ''dcs'' | ProfileCII \<Rightarrow> ''cii''
      | ProfileVoyageVerification \<Rightarrow> ''voyageVerification'' | ProfileOther s \<Rightarrow> s)"

definition toFieldPolicy :: "(string, string) gomap \<Rightarrow> fieldPolicy" where
  "toFieldPolicy raw = map (\<lambda>(name, state). (name, to_policy_state state)) raw"

section \<open>Resolvers\<close>

record prefillEntry =
  peClass :: string
  peValue :: "json option"
  peFormula :: "message option"

definition prefill_class :: "string \<Rightarrow> prefillEntry" where
  "prefill_class c = \<lparr>peClass = c, peValue = None, peFormula = None\<rparr>"

definition gm_of :: "('k::linorder \<times> 'v) list \<Rightarrow> ('k, 'v) gomap" where
  "gm_of es = fold (\<lambda>(k, v). gm_update k v) es []"

definition fieldConfigFor :: "string \<Rightarrow> (string, string) gomap \<times> (string, prefillEntry) gomap" where
  "fieldConfigFor sname =
     (if sname \<noteq> ''log-abstract'' then ([], [])
      else
        (gm_of [(''O_ROB'', ''hidden''), (''O_ROB_type'', ''hidden''), (''Cleaning_Event'', ''hidden''),
                (''Boiler_1_Operation_Mode'', ''hidden''),
                (''Wind_Force_Kn'', ''recommended''), (''Sea_state_Force_Douglas'', ''recommended''),
                (''Temperature_Ambient'', ''recommended''),
                (''Distance_To_Go'', ''recommended''),
                (''Voyage_Number'', ''companyMandatory''), (''Voyage_From'', ''companyMandatory''),
                (''Voyage_To'', ''companyMandatory'')],
         gm_of [(''Wind_Force_Kn'', \<lparr>peClass = ''ghost'', peValue = Some (JNum (f64_const (124 / 10))), peFormula = None\<rparr>),
                (''Distance'', \<lparr>peClass = ''ghost'', peValue = Some (JNum (f64_const (1873 / 10))), peFormula = None\<rparr>)]))"

text \<open>The server's store is \<open>None\<close> until the setup wizard opened it.\<close>

definition appliedBundle :: "slice_sorter \<Rightarrow> store option \<Rightarrow> wireBundle option" where
  "appliedBundle p st =
     (case st of
        None \<Rightarrow> None
      | Some st \<Rightarrow>
          (case latestConfigBundle p st of
             None \<Rightarrow> None
           | Some cb \<Rightarrow> (case decodeBundle (pcbContent cb) of Inl _ \<Rightarrow> None | Inr b \<Rightarrow> Some b)))"

definition fieldConfigFromBundle ::
  "wireBundle option \<Rightarrow> string \<Rightarrow> (string, string) gomap \<times> fieldEvents \<times> (string, prefillEntry) gomap" where
  "fieldConfigFromBundle b sname =
     (case b of
        None \<Rightarrow> (case fieldConfigFor sname of (policy, prefill) \<Rightarrow> (policy, [], prefill))
      | Some b \<Rightarrow>
          (case schemaConfigFor b sname of
             None \<Rightarrow> ([], [], [])
           | Some sc \<Rightarrow> (scPolicy sc, scEvents sc, map (\<lambda>(f, c). (f, prefill_class c)) (scPrefill sc))))"

definition validationConfigFromBundle :: "wireBundle option \<Rightarrow> string \<Rightarrow> config" where
  "validationConfigFromBundle b sname =
     (let cfg = validationConfigFor sname in
      case b of
        None \<Rightarrow> cfg
      | Some b \<Rightarrow> cfg\<lparr>Severities := map (\<lambda>(ruleID, v). (ruleID, to_severity v)) (bRuleSeverities b)\<rparr>)"

definition profilesFromBundle :: "wireBundle option \<Rightarrow> profile list" where
  "profilesFromBundle b =
     (case b of None \<Rightarrow> allRegulatoryProfiles | Some b \<Rightarrow> map to_profile (bRegulatoryProfiles b))"

definition maxGapHoursFromBundle :: "wireBundle option \<Rightarrow> float64" where
  "maxGapHoursFromBundle b =
     (case b of
        None \<Rightarrow> f64_of_int 12
      | Some b \<Rightarrow> if f64_gt (bMaxGapHours b) (F64 0) then bMaxGapHours b else f64_of_int 12)"

record vesselConfigView =
  vcMaxGapHours :: float64
  vcRegulatoryProfiles :: "string list"
  vcBundleID :: string
  vcBundleVersionNo :: int

text \<open>The body of \<open>handleGetVesselConfig\<close>.\<close>

definition vesselConfigView_of :: "wireBundle option \<Rightarrow> vesselConfigView" where
  "vesselConfigView_of b =
     \<lparr>vcMaxGapHours = maxGapHoursFromBundle b,
      vcRegulatoryProfiles = map profile_text (profilesFromBundle b),
      vcBundleID = (case b of None \<Rightarrow> '''' | Some b \<Rightarrow> bBundleID b),
      vcBundleVersionNo = (case b of None \<Rightarrow> 0 | Some b \<Rightarrow> bVersionNo b)\<rparr>"

section \<open>The schema endpoint\<close>

definition lastSubmittedReport :: "slice_sorter \<Rightarrow> store \<Rightarrow> string \<Rightarrow> report option" where
  "lastSubmittedReport p st sname =
     List.find (\<lambda>r. \<not> is_zero (SubmittedAt r)) (listLatestReports p sname st)"

record robSeriesView =
  rsName :: string
  rsROBField :: string
  rsConsumptionFields :: "string list"

record schemaConfigResponse =
  scrSchema :: schema
  scrFieldPolicy :: "(string, string) gomap"
  scrPrefill :: "(string, prefillEntry) gomap"
  scrFieldEvents :: fieldEvents
  scrRobSeries :: "robSeriesView list"
  scrLastReportEventTime :: "gotime option"

text \<open>The computed prefill of the ROB series.\<close>

definition prefill_series :: "vreport \<Rightarrow> robSeries list \<Rightarrow> (string, prefillEntry) gomap \<Rightarrow> (string, prefillEntry) gomap" where
  "prefill_series prev series prefill =
     fold (\<lambda>s pf. case r_Float prev (ROBField s) of
                     None \<Rightarrow> pf
                   | Some prior \<Rightarrow>
                       gm_update (ROBField s)
                         \<lparr>peClass = ''computed'', peValue = Some (JNum prior),
                          peFormula = Some (Sprintf ''%.2f previous, minus consumption entered on this report'' [AFloat prior])\<rparr> pf)
       series prefill"

definition prefill_elapsed :: "schema \<Rightarrow> gotime \<Rightarrow> gotime \<Rightarrow> (string, prefillEntry) gomap \<Rightarrow> (string, prefillEntry) gomap" where
  "prefill_elapsed sch now lastTime prefill =
     (if hasField sch ''Time_Since_Previous_Report'' then
        let hours = duration_hours (time_sub now lastTime) in
        gm_update ''Time_Since_Previous_Report''
          \<lparr>peClass = ''computed'',
           peValue = Some (JNum (f64_div (f64_Round (f64_mul hours (F64 100))) (F64 100))),
           peFormula = Some (Sprintf ''Elapsed since the previous report at %s UTC'' [ATime lastTime])\<rparr> prefill
      else prefill)"

text \<open>Carrying the fields of the last report forward; each step reads and writes the entry of its own field only.\<close>

definition prefill_carry :: "bool \<Rightarrow> string \<times> json \<Rightarrow> (string, prefillEntry) gomap \<Rightarrow> (string, prefillEntry) gomap" where
  "prefill_carry applied e prefill =
     (case e of (name, v) \<Rightarrow>
        if name = ''IMO'' then prefill
        else case gm_lookup prefill name of
          Some existing \<Rightarrow>
            if peClass existing \<noteq> ''carryForward'' then prefill
            else gm_update name \<lparr>peClass = ''carryForward'', peValue = Some v, peFormula = None\<rparr> prefill
        | None \<Rightarrow>
            if applied then prefill
            else gm_update name \<lparr>peClass = ''carryForward'', peValue = Some v, peFormula = None\<rparr> prefill)"

text \<open>\<open>identity\<close> is the IMO number of the enrolled vessel.\<close>

definition getSchema ::
  "slice_sorter \<Rightarrow> (string \<Rightarrow> schema option) \<Rightarrow> gotime \<Rightarrow> string option \<Rightarrow> string \<Rightarrow> store option
   \<Rightarrow> schemaConfigResponse option" where
  "getSchema p load now identity name st =
     (case load name of
        None \<Rightarrow> None
      | Some sch \<Rightarrow>
          let applied = appliedBundle p st;
              cfg = validationConfigFromBundle applied name;
              prev = Option.bind st (\<lambda>st. lastSubmittedReport p st name)
          in case fieldConfigFromBundle applied name of (policy, events, prefill) \<Rightarrow>
             let prefill = (if hasField sch ''IMO'' \<and> st \<noteq> None then
                     (case identity of
                        None \<Rightarrow> prefill
                      | Some imo \<Rightarrow>
                          gm_update ''IMO'' \<lparr>peClass = ''carryForward'', peValue = Some (JStr imo), peFormula = None\<rparr> prefill)
                   else prefill);
                 prefill = (case prev of
                     None \<Rightarrow> prefill
                   | Some r \<Rightarrow>
                       fold (prefill_carry (applied \<noteq> None)) (case Fields r of None \<Rightarrow> [] | Some m \<Rightarrow> m)
                         (prefill_elapsed sch now (EventTime r)
                           (prefill_series (toValidation r) (ROBSeriesList cfg) prefill)))
             in Some \<lparr>scrSchema = sch, scrFieldPolicy = policy, scrPrefill = prefill, scrFieldEvents = events,
                  scrRobSeries = map (\<lambda>s. \<lparr>rsName = Name s, rsROBField = ROBField s,
                                           rsConsumptionFields = ConsumptionFields s\<rparr>) (ROBSeriesList cfg),
                  scrLastReportEventTime = map_option EventTime prev\<rparr>)"

section \<open>What the configuration can be\<close>

lemma decodeBundle_Inr: "decodeBundle d = Inr b \<longleftrightarrow> d = Doc b \<and> bWireVersion b = wireVersion"
  by (auto simp: decodeBundle_def wireVersion_def split: bundle_doc.split)

lemma validationConfigFor_Severities [simp]: "Severities (validationConfigFor sname) = []"
  by (simp add: validationConfigFor_def defaultConfig_def logAbstractConfig_def)

lemma severity_from_bundle:
  "severity_of (validationConfigFromBundle b sname) ruleID deflt =
   (case Option.bind b (\<lambda>b. gm_lookup (bRuleSeverities b) ruleID) of None \<Rightarrow> deflt | Some s \<Rightarrow> to_severity s)"
  by (cases b) (auto simp: validationConfigFromBundle_def severity_of_def map_of_map split: option.split)

text \<open>No configuration of the program names a delivery-note field or a bunkered amount.\<close>

lemma config_no_bunkers:
  "BDNMarkerFields (validationConfigFromBundle b sname) = []" "BunkeredAmounts (validationConfigFromBundle b sname) = []"
  by (auto simp: validationConfigFromBundle_def validationConfigFor_def defaultConfig_def logAbstractConfig_def Let_def
      split: option.split)

lemma prefill_carry_other:
  "name \<noteq> fst e \<Longrightarrow> gm_lookup (prefill_carry a e pf) name = gm_lookup pf name"
  by (auto simp: prefill_carry_def split: prod.split option.split)

text \<open>Whatever the report history, the carry-forward pass leaves computed entries alone.\<close>

lemma prefill_carry_computed:
  "gm_lookup pf name = Some e \<Longrightarrow> peClass e \<noteq> ''carryForward'' \<Longrightarrow>
   gm_lookup (fold (prefill_carry a) es pf) name = Some e"
proof (induction es arbitrary: pf)
  case (Cons x es)
  have "gm_lookup (prefill_carry a x pf) name = Some e"
    using Cons.prems by (auto simp: prefill_carry_def split: prod.split option.split)
  then show ?case using Cons.IH Cons.prems(2) by simp
qed simp

text \<open>With a bundle applied, a field the bundle gives no prefill class is not filled.\<close>

lemma prefill_carry_applied_None:
  "gm_lookup pf name = None \<Longrightarrow> gm_lookup (fold (prefill_carry True) es pf) name = None"
proof (induction es arbitrary: pf)
  case (Cons x es)
  have "gm_lookup (prefill_carry True x pf) name = None"
    using Cons.prems by (auto simp: prefill_carry_def split: prod.split option.split)
  then show ?case using Cons.IH by simp
qed simp

end
