(* ===== verification/Http.thy ===== *)
theory Http
  imports Prelude
begin

text \<open>
  HTTP handlers of both programs, as functions from the request and the state to a response and the state they leave.
  A response is a status with an error message (\<open>httpjson.WriteError\<close>) or a status with a body
  (\<open>httpjson.WriteJSON\<close>).  An error message is a literal of the source or the text of an error value, which is kept
  unrendered.  A request body is \<open>None\<close> when \<open>httpjson.DecodeJSON\<close> refuses it.
\<close>

datatype 'e http_message = Literal string | ErrorText 'e

type_synonym 'e failure = "int \<times> 'e http_message"
type_synonym ('e, 'a) response = "'e failure + (int \<times> 'a)"
type_synonym ('e, 'a, 's) handled = "('e, 'a) response \<times> 's"

definition StatusOK :: int where "StatusOK = 200"
definition StatusCreated :: int where "StatusCreated = 201"
definition StatusNoContent :: int where "StatusNoContent = 204"
definition StatusBadRequest :: int where "StatusBadRequest = 400"
definition StatusUnauthorized :: int where "StatusUnauthorized = 401"
definition StatusForbidden :: int where "StatusForbidden = 403"
definition StatusNotFound :: int where "StatusNotFound = 404"
definition StatusConflict :: int where "StatusConflict = 409"
definition StatusInternalServerError :: int where "StatusInternalServerError = 500"

lemmas status_defs = StatusOK_def StatusCreated_def StatusNoContent_def StatusBadRequest_def
  StatusUnauthorized_def StatusForbidden_def StatusNotFound_def StatusConflict_def
  StatusInternalServerError_def

definition writeError :: "int \<Rightarrow> string \<Rightarrow> 's \<Rightarrow> ('e failure + 'a) \<times> 's" where
  "writeError status msg s = (Inl (status, Literal msg), s)"

definition writeErrorText :: "int \<Rightarrow> 'e \<Rightarrow> 's \<Rightarrow> ('e failure + 'a) \<times> 's" where
  "writeErrorText status e s = (Inl (status, ErrorText e), s)"

definition writeJSON :: "int \<Rightarrow> 'a \<Rightarrow> 's \<Rightarrow> ('e, 'a, 's) handled" where
  "writeJSON status body s = (Inr (status, body), s)"

lemma write_snd [simp]:
  "snd (writeError c m s) = s" "snd (writeErrorText c e s) = s" "snd (writeJSON c b s) = s"
  by (simp_all add: writeError_def writeErrorText_def writeJSON_def)

lemma write_fst [simp]:
  "fst (writeError c m s) = Inl (c, Literal m)" "fst (writeErrorText c e s) = Inl (c, ErrorText e)"
  "fst (writeJSON c b s) = Inr (c, b)"
  by (simp_all add: writeError_def writeErrorText_def writeJSON_def)

lemma andthen_write [simp]:
  "andthen (writeError c m s) k = writeError c m s" "andthen (writeErrorText c e s) k = writeErrorText c e s"
  "andthen (writeJSON c b s) kb = kb (c, b) s"
  by (simp_all add: writeError_def writeErrorText_def writeJSON_def)

text \<open>\<open>guard\<close> is a test whose failure ends the handler with an error; \<open>decode\<close> reads the body.\<close>

definition guard ::
  "bool \<Rightarrow> int \<Rightarrow> string \<Rightarrow> 's \<Rightarrow> ('s \<Rightarrow> ('e failure + 'a) \<times> 's) \<Rightarrow> ('e failure + 'a) \<times> 's" where
  "guard bad status msg s k = (if bad then writeError status msg s else k s)"

definition decode ::
  "'r option \<Rightarrow> 's \<Rightarrow> ('r \<Rightarrow> ('e failure + 'a) \<times> 's) \<Rightarrow> ('e failure + 'a) \<times> 's" where
  "decode body s k =
     (case body of None \<Rightarrow> writeError StatusBadRequest ''invalid request body'' s | Some r \<Rightarrow> k r)"

lemma guard_inv: "P s \<Longrightarrow> (\<not> bad \<Longrightarrow> P (snd (k s))) \<Longrightarrow> P (snd (guard bad c m s k))"
  by (simp add: guard_def)

lemma decode_inv: "P s \<Longrightarrow> (\<And>r. body = Some r \<Longrightarrow> P (snd (k r))) \<Longrightarrow> P (snd (decode body s k))"
  by (simp add: decode_def split: option.split)

lemma guard_simps [simp]: "guard True c m s k = writeError c m s" "guard False c m s k = k s"
  by (simp_all add: guard_def)

lemma decode_simps [simp]:
  "decode None s k = writeError StatusBadRequest ''invalid request body'' s" "decode (Some r) s k = k r"
  by (simp_all add: decode_def)

section \<open>Handlers that answered with success\<close>

named_theorems succeeded \<open>what each construct of a successful handler went through\<close>

lemma andthen_succeeded [succeeded]:
  "andthen r k = (Inr v, s') \<longleftrightarrow> (\<exists>x s1. r = (Inr x, s1) \<and> k x s1 = (Inr v, s'))"
  by (cases r; cases "fst r") auto

lemma guard_succeeded [succeeded]: "guard bad c m s k = (Inr v, s') \<longleftrightarrow> \<not> bad \<and> k s = (Inr v, s')"
  by (cases bad) (simp_all add: writeError_def)

lemma decode_succeeded [succeeded]: "decode body s k = (Inr v, s') \<longleftrightarrow> (\<exists>r. body = Some r \<and> k r = (Inr v, s'))"
  by (cases body) (simp_all add: writeError_def)

lemma write_succeeded [succeeded]:
  "writeError c m s = (Inr v, s') \<longleftrightarrow> False" "writeErrorText c e s = (Inr v, s') \<longleftrightarrow> False"
  "writeJSON c b s = (Inr w, s') \<longleftrightarrow> w = (c, b) \<and> s' = s"
  by (auto simp: writeError_def writeErrorText_def writeJSON_def)

lemma case_succeeded [succeeded]:
  "(case x of Inl e \<Rightarrow> writeErrorText c (g e) s | Inr r \<Rightarrow> k r) = (Inr v, s') \<longleftrightarrow> (\<exists>r. x = Inr r \<and> k r = (Inr v, s'))"
  "(case y of Some l \<Rightarrow> writeErrorText c (h l) s | None \<Rightarrow> m) = (Inr v, s') \<longleftrightarrow> y = None \<and> m = (Inr v, s')"
  by (cases x; simp add: write_succeeded) (cases y; simp add: write_succeeded)

end
