(* ===== verification/Users.thy ===== *)
theory Users
  imports Http GoTime VesselStore
begin

text \<open>
  The accounts of a vessel: \<open>vessel/auth\<close>, \<open>pkg/authcrypto\<close>, the \<open>users\<close> table of
  \<open>vessel/store/users.go\<close>, the session table, the handlers that log in and administer accounts, first-run setup of the
  Master account and the commands the office queues for a vessel (\<open>vessel/httpapi\<close>).

  The argon2id package is a parameter: a record of its two functions.  \<open>crypto_ok\<close> is what its documentation promises and
  the code relies on: a password matches the hash created from it.  Random tokens, random digits, fresh identifiers and the
  clock are arguments.

  Lemmas: every handler and every office command is one of the abstract steps of \<open>user_change\<close>; the accounts
  stay well formed, there is never a second Master, no step deactivates the Master.
\<close>

section \<open>Roles and passwords\<close>

type_synonym role = string

definition RoleMaster :: role where "RoleMaster = ''master''"

definition defaultRoles :: "role list" where
  "defaultRoles = [RoleMaster, ''chiefOfficer'', ''secondOfficer'', ''thirdOfficer'', ''chiefEngineer'',
     ''secondEngineer'']"

definition role_valid :: "role \<Rightarrow> bool" where
  "role_valid r \<longleftrightarrow> r \<in> set defaultRoles"

datatype user_error =
    ErrUsernameRequired
  | ErrInvalidRole role
  | ErrPasswordTooShort
  | ErrPasswordTooLong
  | ErrHashing
  | ErrVerifying
  | ErrUserID
  | ErrMasterPromotion
  | ErrMasterCreationForbidden
  | ErrUsernameTaken
  | ErrMasterDeactivation
  | ErrUserStore store_error
  | ErrSessionToken

definition validateRole :: "role \<Rightarrow> user_error option" where
  "validateRole r = (if \<not> role_valid r then Some (ErrInvalidRole r) else None)"

definition minPasswordLength :: nat where "minPasswordLength = 8"
definition maxPasswordLength :: nat where "maxPasswordLength = 256"

definition validatePassword :: "string \<Rightarrow> user_error option" where
  "validatePassword password =
     (if length password < minPasswordLength then Some ErrPasswordTooShort
      else if length password > maxPasswordLength then Some ErrPasswordTooLong
      else None)"

record crypto =
  createHash :: "string \<Rightarrow> string option"
  comparePasswordAndHash :: "string \<Rightarrow> string \<Rightarrow> bool option"

definition crypto_ok :: "crypto \<Rightarrow> bool" where
  "crypto_ok c \<longleftrightarrow> (\<forall>p h. createHash c p = Some h \<longrightarrow> comparePasswordAndHash c p h = Some True)"

definition hashPassword :: "crypto \<Rightarrow> string \<Rightarrow> user_error + string" where
  "hashPassword c password =
     (case validatePassword password of
        Some e \<Rightarrow> Inl e
      | None \<Rightarrow> (case createHash c password of None \<Rightarrow> Inl ErrHashing | Some h \<Rightarrow> Inr h))"

definition verifyPassword :: "crypto \<Rightarrow> string \<Rightarrow> string \<Rightarrow> user_error + bool" where
  "verifyPassword c password hash =
     (case comparePasswordAndHash c password hash of None \<Rightarrow> Inl ErrVerifying | Some b \<Rightarrow> Inr b)"

definition temporaryPasswordAlphabet :: string where
  "temporaryPasswordAlphabet = ''23456789ABCDEFGHJKLMNPQRSTUVWXYZabcdefghijkmnopqrstuvwxyz''"

definition temporaryPasswordLength :: nat where "temporaryPasswordLength = 12"

text \<open>\<open>rnd i\<close> is the \<open>i\<close>-th number drawn by \<open>rand.Int\<close>, below the length of the alphabet.\<close>

definition generateTemporaryPassword :: "(nat \<Rightarrow> nat) \<Rightarrow> string" where
  "generateTemporaryPassword rnd =
     map (\<lambda>i. temporaryPasswordAlphabet ! (rnd i mod length temporaryPasswordAlphabet)) [0..<temporaryPasswordLength]"

section \<open>Accounts\<close>

record user =
  uID :: string
  uUsername :: string
  uPasswordHash :: string
  uRole :: role
  uCanSubmit :: bool
  uMustChangePassword :: bool
  uActive :: bool
  uCreatedAt :: gotime
  uUpdatedAt :: gotime

definition newUser ::
  "crypto \<Rightarrow> string option \<Rightarrow> gotime \<Rightarrow> string \<Rightarrow> string \<Rightarrow> role \<Rightarrow> user_error + user" where
  "newUser c uuid now username temporaryPassword role =
     (let username = trim_space username in
      if username = '''' then Inl ErrUsernameRequired
      else case validateRole role of
        Some e \<Rightarrow> Inl e
      | None \<Rightarrow>
          (case hashPassword c temporaryPassword of
             Inl e \<Rightarrow> Inl e
           | Inr hash \<Rightarrow>
               (case uuid of
                  None \<Rightarrow> Inl ErrUserID
                | Some i \<Rightarrow>
                    Inr \<lparr>uID = i, uUsername = username, uPasswordHash = hash, uRole = role, uCanSubmit = False,
                         uMustChangePassword = True, uActive = True, uCreatedAt = now, uUpdatedAt = now\<rparr>)))"

definition changePassword :: "crypto \<Rightarrow> gotime \<Rightarrow> string \<Rightarrow> user \<Rightarrow> user_error + user" where
  "changePassword c now newPassword u =
     (case hashPassword c newPassword of
        Inl e \<Rightarrow> Inl e
      | Inr hash \<Rightarrow> Inr (u\<lparr>uPasswordHash := hash, uMustChangePassword := False, uUpdatedAt := now\<rparr>))"

definition resetPassword :: "crypto \<Rightarrow> gotime \<Rightarrow> string \<Rightarrow> user \<Rightarrow> user_error + user" where
  "resetPassword c now temporaryPassword u =
     (case hashPassword c temporaryPassword of
        Inl e \<Rightarrow> Inl e
      | Inr hash \<Rightarrow> Inr (u\<lparr>uPasswordHash := hash, uMustChangePassword := True, uUpdatedAt := now\<rparr>))"

definition setRole :: "gotime \<Rightarrow> role \<Rightarrow> user \<Rightarrow> user_error + user" where
  "setRole now role u =
     (if role = RoleMaster then Inl ErrMasterPromotion
      else case validateRole role of
        Some e \<Rightarrow> Inl e
      | None \<Rightarrow> Inr (u\<lparr>uRole := role, uUpdatedAt := now\<rparr>))"

definition setCanSubmit :: "gotime \<Rightarrow> bool \<Rightarrow> user \<Rightarrow> user" where
  "setCanSubmit now b u = u\<lparr>uCanSubmit := b, uUpdatedAt := now\<rparr>"

definition setActive :: "gotime \<Rightarrow> bool \<Rightarrow> user \<Rightarrow> user" where
  "setActive now b u = u\<lparr>uActive := b, uUpdatedAt := now\<rparr>"

definition canSubmitReports :: "user \<Rightarrow> bool" where
  "canSubmitReports u \<longleftrightarrow> uRole u = RoleMaster \<or> uCanSubmit u"

definition isSuperAdmin :: "user \<Rightarrow> bool" where
  "isSuperAdmin u \<longleftrightarrow> uRole u = RoleMaster"

definition authenticate :: "crypto \<Rightarrow> string \<Rightarrow> user \<Rightarrow> user_error + bool" where
  "authenticate c password u = verifyPassword c password (uPasswordHash u)"

section \<open>The users table\<close>

definition createUser :: "user \<Rightarrow> user list \<Rightarrow> store_error + user list" where
  "createUser u us =
     (if list_ex (\<lambda>x. uID x = uID u \<or> uUsername x = uUsername u) us then Inl ErrConstraint
      else Inr (us @ [u]))"

text \<open>The update leaves \<open>created_at\<close> as it is.\<close>

definition updateUser :: "user \<Rightarrow> user list \<Rightarrow> store_error + user list" where
  "updateUser u us =
     (if \<not> list_ex (\<lambda>x. uID x = uID u) us then Inl ErrNotFound
      else if list_ex (\<lambda>x. uID x \<noteq> uID u \<and> uUsername x = uUsername u) us then Inl ErrConstraint
      else Inr (map (\<lambda>x. if uID x = uID u then u\<lparr>uCreatedAt := uCreatedAt x\<rparr> else x) us))"

definition getUser :: "string \<Rightarrow> user list \<Rightarrow> store_error + user" where
  "getUser i us = (case find_row uID us i of None \<Rightarrow> Inl ErrNotFound | Some u \<Rightarrow> Inr u)"

definition getUserByUsername :: "string \<Rightarrow> user list \<Rightarrow> store_error + user" where
  "getUserByUsername n us = (case find_row uUsername us n of None \<Rightarrow> Inl ErrNotFound | Some u \<Rightarrow> Inr u)"

definition hasAnyUser :: "user list \<Rightarrow> bool" where
  "hasAnyUser us \<longleftrightarrow> us \<noteq> []"

definition listUsers :: "user list \<Rightarrow> user list" where
  "listUsers us = sort_key uUsername us"
section \<open>Sessions\<close>

record sessionEntry =
  seUserID :: string
  seExpiresAt :: gotime

type_synonym sessions = "(string, sessionEntry) gomap"

definition sessionTTL :: int where "sessionTTL = 12 * hour"

definition session_create :: "string option \<Rightarrow> gotime \<Rightarrow> string \<Rightarrow> sessions \<Rightarrow> user_error + (string \<times> sessions)" where
  "session_create rnd now userID ss =
     (case rnd of
        None \<Rightarrow> Inl ErrSessionToken
      | Some token \<Rightarrow> Inr (token, gm_update token \<lparr>seUserID = userID, seExpiresAt = now + sessionTTL\<rparr> ss))"

definition session_lookup :: "gotime \<Rightarrow> string \<Rightarrow> sessions \<Rightarrow> string option \<times> sessions" where
  "session_lookup now token ss =
     (case gm_lookup ss token of
        None \<Rightarrow> (None, ss)
      | Some e \<Rightarrow>
          if seExpiresAt e < now then (None, gm_delete token ss) else (Some (seUserID e), ss))"

definition session_revoke :: "string \<Rightarrow> sessions \<Rightarrow> sessions" where
  "session_revoke token ss = gm_delete token ss"

section \<open>The server's view of the caller\<close>

text \<open>The store is opened by the first step of the setup wizard; until then every handler refuses.\<close>

record userServer =
  svUsers :: "user list option"
  svSessions :: sessions

type_synonym 'a user_handled = "(user_error, 'a, userServer) handled"
type_synonym 'a user_step = "(user_error failure + 'a) \<times> userServer"

definition requireStore :: "userServer \<Rightarrow> user list user_step" where
  "requireStore sv =
     (case svUsers sv of
        None \<Rightarrow> writeError StatusBadRequest ''vessel is not set up yet'' sv
      | Some us \<Rightarrow> (Inr us, sv))"

definition authenticatedUser :: "gotime \<Rightarrow> string option \<Rightarrow> userServer \<Rightarrow> user user_step" where
  "authenticatedUser now cookie sv =
     (case cookie of
        None \<Rightarrow> writeError StatusUnauthorized ''not logged in'' sv
      | Some token \<Rightarrow>
          (case session_lookup now token (svSessions sv) of (found, ss) \<Rightarrow>
             let sv = sv\<lparr>svSessions := ss\<rparr> in
             case found of
               None \<Rightarrow> writeError StatusUnauthorized ''session expired'' sv
             | Some userID \<Rightarrow>
                 andthen (requireStore sv) (\<lambda>us sv.
                   case getUser userID us of
                     Inl _ \<Rightarrow> writeError StatusUnauthorized ''session refers to an unknown user'' sv
                   | Inr u \<Rightarrow>
                       guard (\<not> uActive u) StatusUnauthorized ''this account has been deactivated'' sv (\<lambda>sv.
                         (Inr u, sv)))))"

definition requireSuperAdmin :: "gotime \<Rightarrow> string option \<Rightarrow> userServer \<Rightarrow> user list user_step" where
  "requireSuperAdmin now cookie sv =
     andthen (requireStore sv) (\<lambda>us sv.
     andthen (authenticatedUser now cookie sv) (\<lambda>u sv.
       guard (\<not> isSuperAdmin u) StatusForbidden ''only the Master account can manage backups'' sv (\<lambda>sv.
         (Inr us, sv))))"

definition startSession :: "string option \<Rightarrow> gotime \<Rightarrow> string \<Rightarrow> userServer \<Rightarrow> (user_error + string) \<times> userServer" where
  "startSession rnd now userID sv =
     (case session_create rnd now userID (svSessions sv) of
        Inl e \<Rightarrow> (Inl e, sv)
      | Inr (token, ss) \<Rightarrow> (Inr token, sv\<lparr>svSessions := ss\<rparr>))"

record userView =
  uvID :: string
  uvUsername :: string
  uvRole :: role
  uvCanSubmit :: bool
  uvMustChangePassword :: bool

definition toUserView :: "user \<Rightarrow> userView" where
  "toUserView u = \<lparr>uvID = uID u, uvUsername = uUsername u, uvRole = uRole u,
     uvCanSubmit = canSubmitReports u, uvMustChangePassword = uMustChangePassword u\<rparr>"

record adminUserView = userView +
  uvActive :: bool
  uvCreatedAt :: gotime
  uvUpdatedAt :: gotime

definition toAdminUserView :: "user \<Rightarrow> adminUserView" where
  "toAdminUserView u = userView.extend (toUserView u)
     \<lparr>uvActive = uActive u, uvCreatedAt = uCreatedAt u, uvUpdatedAt = uUpdatedAt u\<rparr>"

text \<open>A write to the table that fails is answered with the status of an internal error.\<close>

definition store_users ::
  "store_error + user list \<Rightarrow> userServer \<Rightarrow> (userServer \<Rightarrow> 'a user_step) \<Rightarrow> 'a user_step" where
  "store_users res sv k =
     (case res of
        Inl e \<Rightarrow> writeErrorText StatusInternalServerError (ErrUserStore e) sv
      | Inr us \<Rightarrow> k (sv\<lparr>svUsers := Some us\<rparr>))"

section \<open>Logging in and out\<close>

record loginRequest =
  lrUsername :: string
  lrPassword :: string

text \<open>The response carries the token of the session cookie. \<open>dummy\<close> is \<open>auth.DummyHash()\<close>.\<close>

definition handleLogin ::
  "crypto \<Rightarrow> string \<Rightarrow> string option \<Rightarrow> gotime \<Rightarrow> loginRequest option \<Rightarrow> userServer
   \<Rightarrow> (userView \<times> string) user_handled" where
  "handleLogin c dummy rnd now body sv =
     andthen (requireStore sv) (\<lambda>us sv.
     decode body sv (\<lambda>req.
       let found = getUserByUsername (lrUsername req) us;
           hash = (case found of Inr u \<Rightarrow> uPasswordHash u | Inl _ \<Rightarrow> dummy)
       in case verifyPassword c (lrPassword req) hash of
            Inl verr \<Rightarrow> writeErrorText StatusInternalServerError verr sv
          | Inr match \<Rightarrow>
              (case found of
                 Inl _ \<Rightarrow> writeError StatusUnauthorized ''incorrect username or password'' sv
               | Inr u \<Rightarrow>
                   guard (\<not> match) StatusUnauthorized ''incorrect username or password'' sv (\<lambda>sv.
                   guard (\<not> uActive u) StatusUnauthorized ''this account has been deactivated'' sv (\<lambda>sv.
                     case startSession rnd now (uID u) sv of
                       (Inl e, sv) \<Rightarrow> writeErrorText StatusInternalServerError e sv
                     | (Inr token, sv) \<Rightarrow> writeJSON StatusOK (toUserView u, token) sv)))))"

definition handleLogout :: "string option \<Rightarrow> userServer \<Rightarrow> unit user_handled" where
  "handleLogout cookie sv =
     (let sv = (case cookie of
                  None \<Rightarrow> sv
                | Some token \<Rightarrow> sv\<lparr>svSessions := session_revoke token (svSessions sv)\<rparr>)
      in writeJSON StatusNoContent () sv)"

definition handleMe :: "gotime \<Rightarrow> string option \<Rightarrow> userServer \<Rightarrow> userView user_handled" where
  "handleMe now cookie sv =
     andthen (authenticatedUser now cookie sv) (\<lambda>u sv. writeJSON StatusOK (toUserView u) sv)"

record changePasswordRequest =
  cpCurrentPassword :: string
  cpNewPassword :: string

definition handleChangePassword ::
  "crypto \<Rightarrow> gotime \<Rightarrow> string option \<Rightarrow> changePasswordRequest option \<Rightarrow> userServer \<Rightarrow> userView user_handled" where
  "handleChangePassword c now cookie body sv =
     andthen (authenticatedUser now cookie sv) (\<lambda>u sv.
     andthen (requireStore sv) (\<lambda>us sv.
     decode body sv (\<lambda>req.
       case authenticate c (cpCurrentPassword req) u of
         Inl e \<Rightarrow> writeErrorText StatusInternalServerError e sv
       | Inr match \<Rightarrow>
           guard (\<not> match) StatusUnauthorized ''current password is incorrect'' sv (\<lambda>sv.
             case changePassword c now (cpNewPassword req) u of
               Inl e \<Rightarrow> writeErrorText StatusBadRequest e sv
             | Inr u \<Rightarrow> store_users (updateUser u us) sv (writeJSON StatusOK (toUserView u))))))"

section \<open>Administration\<close>

definition handleListUsers :: "gotime \<Rightarrow> string option \<Rightarrow> userServer \<Rightarrow> adminUserView list user_handled" where
  "handleListUsers now cookie sv =
     andthen (requireSuperAdmin now cookie sv) (\<lambda>us sv.
       writeJSON StatusOK (map toAdminUserView (listUsers us)) sv)"

text \<open>Shared by the local handler and the office command.\<close>

definition createLocalUser ::
  "crypto \<Rightarrow> string option \<Rightarrow> gotime \<Rightarrow> string \<Rightarrow> role \<Rightarrow> string \<Rightarrow> user list
   \<Rightarrow> user_error + (user \<times> user list)" where
  "createLocalUser c uuid now username role temporaryPassword us =
     (if role = RoleMaster then Inl ErrMasterCreationForbidden
      else if \<not> role_valid role then Inl (ErrInvalidRole role)
      else case getUserByUsername username us of
        Inr _ \<Rightarrow> Inl ErrUsernameTaken
      | Inl e \<Rightarrow>
          if e \<noteq> ErrNotFound then Inl (ErrUserStore e)
          else case newUser c uuid now username temporaryPassword role of
            Inl e \<Rightarrow> Inl e
          | Inr u \<Rightarrow>
              (case createUser u us of Inl e \<Rightarrow> Inl (ErrUserStore e) | Inr us' \<Rightarrow> Inr (u, us')))"

record createUserRequest =
  crUsername :: string
  crRole :: role

definition handleCreateUser ::
  "crypto \<Rightarrow> string option \<Rightarrow> (nat \<Rightarrow> nat) \<Rightarrow> gotime \<Rightarrow> string option \<Rightarrow> createUserRequest option \<Rightarrow> userServer
   \<Rightarrow> (adminUserView \<times> string) user_handled" where
  "handleCreateUser c uuid rnd now cookie body sv =
     andthen (requireSuperAdmin now cookie sv) (\<lambda>us sv.
     decode body sv (\<lambda>req.
       let temporaryPassword = generateTemporaryPassword rnd
       in case createLocalUser c uuid now (crUsername req) (crRole req) temporaryPassword us of
            Inl e \<Rightarrow>
              if e = ErrMasterCreationForbidden then writeErrorText StatusBadRequest e sv
              else if e = ErrUsernameTaken then writeErrorText StatusConflict e sv
              else writeErrorText StatusInternalServerError e sv
          | Inr (u, us) \<Rightarrow>
              writeJSON StatusCreated (toAdminUserView u, temporaryPassword) (sv\<lparr>svUsers := Some us\<rparr>)))"

definition handleResetUserPassword ::
  "crypto \<Rightarrow> (nat \<Rightarrow> nat) \<Rightarrow> gotime \<Rightarrow> string option \<Rightarrow> string \<Rightarrow> userServer \<Rightarrow> string user_handled" where
  "handleResetUserPassword c rnd now cookie i sv =
     andthen (requireSuperAdmin now cookie sv) (\<lambda>us sv.
       case getUser i us of
         Inl e \<Rightarrow>
           if e = ErrNotFound then writeError StatusNotFound ''user not found'' sv
           else writeErrorText StatusInternalServerError (ErrUserStore e) sv
       | Inr u \<Rightarrow>
           (let temporaryPassword = generateTemporaryPassword rnd
            in case resetPassword c now temporaryPassword u of
                 Inl e \<Rightarrow> writeErrorText StatusInternalServerError e sv
               | Inr u \<Rightarrow> store_users (updateUser u us) sv (writeJSON StatusOK temporaryPassword)))"

record updateUserRequest =
  urCanSubmit :: "bool option"
  urActive :: "bool option"

definition update_fields :: "gotime \<Rightarrow> updateUserRequest \<Rightarrow> user \<Rightarrow> user" where
  "update_fields now req u =
     (let u = (case urCanSubmit req of None \<Rightarrow> u | Some b \<Rightarrow> setCanSubmit now b u)
      in case urActive req of None \<Rightarrow> u | Some b \<Rightarrow> setActive now b u)"

definition handleUpdateUser ::
  "gotime \<Rightarrow> string option \<Rightarrow> string \<Rightarrow> updateUserRequest option \<Rightarrow> userServer \<Rightarrow> adminUserView user_handled" where
  "handleUpdateUser now cookie i body sv =
     andthen (authenticatedUser now cookie sv) (\<lambda>caller sv.
     andthen (requireSuperAdmin now cookie sv) (\<lambda>us sv.
       case getUser i us of
         Inl e \<Rightarrow>
           if e = ErrNotFound then writeError StatusNotFound ''user not found'' sv
           else writeErrorText StatusInternalServerError (ErrUserStore e) sv
       | Inr u \<Rightarrow>
           decode body sv (\<lambda>req.
           guard (urActive req = Some False \<and> uID u = uID caller) StatusBadRequest
             ''you cannot deactivate your own account'' sv (\<lambda>sv.
           guard (urActive req = Some False \<and> isSuperAdmin u) StatusBadRequest
             ''the Master account cannot be deactivated'' sv (\<lambda>sv.
             let u = update_fields now req u
             in store_users (updateUser u us) sv (writeJSON StatusOK (toAdminUserView u)))))))"

section \<open>First-run setup\<close>

definition handleSetupMaster ::
  "crypto \<Rightarrow> string option \<Rightarrow> string option \<Rightarrow> gotime \<Rightarrow> loginRequest option \<Rightarrow> userServer
   \<Rightarrow> (userView \<times> string) user_handled" where
  "handleSetupMaster c uuid rnd now body sv =
     andthen (requireStore sv) (\<lambda>us sv.
     guard (hasAnyUser us) StatusConflict ''a user already exists; use the login screen instead'' sv (\<lambda>sv.
     decode body sv (\<lambda>req.
       case newUser c uuid now (lrUsername req) (lrPassword req) RoleMaster of
         Inl e \<Rightarrow> writeErrorText StatusBadRequest e sv
       | Inr u \<Rightarrow>
           (let u = u\<lparr>uMustChangePassword := False\<rparr>
            in store_users (createUser u us) sv (\<lambda>sv.
                 case startSession rnd now (uID u) sv of
                   (Inl e, sv) \<Rightarrow> writeErrorText StatusInternalServerError e sv
                 | (Inr token, sv) \<Rightarrow> writeJSON StatusCreated (toUserView u, token) sv)))))"

section \<open>Commands of the office\<close>

datatype userCommandAction =
    UserCommandActionUnspecified
  | UserCommandActionCreate
  | UserCommandActionResetPassword
  | UserCommandActionSetRole
  | UserCommandActionSetActive
  | UserCommandActionSetCanSubmit

record userCommand =
  ucAction :: userCommandAction
  ucUsername :: string
  ucRole :: role
  ucTemporaryPassword :: string
  ucActive :: bool
  ucCanSubmit :: bool

datatype command_error = ErrUnknownAction | ErrUser user_error

text \<open>The common frame of the commands that change one account.\<close>

definition change_by_name ::
  "string \<Rightarrow> (user \<Rightarrow> user_error + user) \<Rightarrow> user list \<Rightarrow> user_error + user list" where
  "change_by_name username f us =
     (case getUserByUsername username us of
        Inl e \<Rightarrow> Inl (ErrUserStore e)
      | Inr u \<Rightarrow>
          (case f u of
             Inl e \<Rightarrow> Inl e
           | Inr u \<Rightarrow> (case updateUser u us of Inl e \<Rightarrow> Inl (ErrUserStore e) | Inr us \<Rightarrow> Inr us)))"

definition applyResetPasswordCommand ::
  "crypto \<Rightarrow> gotime \<Rightarrow> userCommand \<Rightarrow> user list \<Rightarrow> user_error + user list" where
  "applyResetPasswordCommand c now cmd us =
     change_by_name (ucUsername cmd) (resetPassword c now (ucTemporaryPassword cmd)) us"

definition applySetRoleCommand :: "gotime \<Rightarrow> userCommand \<Rightarrow> user list \<Rightarrow> user_error + user list" where
  "applySetRoleCommand now cmd us = change_by_name (ucUsername cmd) (setRole now (ucRole cmd)) us"

definition applySetActiveCommand :: "gotime \<Rightarrow> userCommand \<Rightarrow> user list \<Rightarrow> user_error + user list" where
  "applySetActiveCommand now cmd us =
     change_by_name (ucUsername cmd)
       (\<lambda>u. if \<not> ucActive cmd \<and> isSuperAdmin u then Inl ErrMasterDeactivation
            else Inr (setActive now (ucActive cmd) u)) us"

definition applySetCanSubmitCommand :: "gotime \<Rightarrow> userCommand \<Rightarrow> user list \<Rightarrow> user_error + user list" where
  "applySetCanSubmitCommand now cmd us =
     change_by_name (ucUsername cmd) (\<lambda>u. Inr (setCanSubmit now (ucCanSubmit cmd) u)) us"

definition applyUserCommand ::
  "crypto \<Rightarrow> string option \<Rightarrow> gotime \<Rightarrow> userCommand \<Rightarrow> user list \<Rightarrow> command_error + user list" where
  "applyUserCommand c uuid now cmd us =
     (let wrap = (\<lambda>res. case res of Inl e \<Rightarrow> Inl (ErrUser e) | Inr us \<Rightarrow> Inr us) in
      case ucAction cmd of
        UserCommandActionUnspecified \<Rightarrow> Inl ErrUnknownAction
      | UserCommandActionCreate \<Rightarrow>
          wrap (map_sum id snd
            (createLocalUser c uuid now (ucUsername cmd) (ucRole cmd) (ucTemporaryPassword cmd) us))
      | UserCommandActionResetPassword \<Rightarrow> wrap (applyResetPasswordCommand c now cmd us)
      | UserCommandActionSetRole \<Rightarrow> wrap (applySetRoleCommand now cmd us)
      | UserCommandActionSetActive \<Rightarrow> wrap (applySetActiveCommand now cmd us)
      | UserCommandActionSetCanSubmit \<Rightarrow> wrap (applySetCanSubmitCommand now cmd us))"

record vesselUserSummary =
  vsuUsername :: string
  vsuRole :: role
  vsuActive :: bool
  vsuCanSubmit :: bool
  vsuUpdatedAt :: gotime

definition buildVesselUserSummaries :: "user list \<Rightarrow> vesselUserSummary list" where
  "buildVesselUserSummaries us =
     map (\<lambda>u. \<lparr>vsuUsername = uUsername u, vsuRole = uRole u, vsuActive = uActive u, vsuCanSubmit = uCanSubmit u,
               vsuUpdatedAt = uUpdatedAt u\<rparr>) (listUsers us)"
section \<open>Passwords and names\<close>

lemma trim_start_suffix: "\<exists>us. s = us @ trim_start ps s"
proof (induction ps s rule: trim_start.induct)
  case (1 ps s)
  show ?case
  proof (cases "List.find (\<lambda>p. p \<noteq> [] \<and> starts_with p s) ps")
    case None
    then show ?thesis by (subst trim_start.simps) simp
  next
    case (Some p)
    from "1.IH"[OF Some] obtain us where us: "drop (length p) s = us @ trim_start ps (drop (length p) s)" by auto
    have "s = (take (length p) s @ us) @ trim_start ps (drop (length p) s)"
      using us by (metis append_assoc append_take_drop_id)
    moreover have "trim_start ps s = trim_start ps (drop (length p) s)"
      by (subst trim_start.simps) (simp add: Some)
    ultimately show ?thesis by metis
  qed
qed

lemma trim_start_fixed_iff:
  "trim_start ps s = s \<longleftrightarrow> (\<forall>p \<in> set ps. p \<noteq> [] \<longrightarrow> \<not> starts_with p s)"
proof (cases "List.find (\<lambda>p. p \<noteq> [] \<and> starts_with p s) ps")
  case None
  then have "trim_start ps s = s" by (subst trim_start.simps) simp
  then show ?thesis using None by (auto simp: find_None_iff)
next
  case (Some p)
  then have p: "p \<in> set ps" "p \<noteq> []" "starts_with p s" by (auto dest: find_SomeD)
  then have "s \<noteq> []" by (auto simp: starts_with_def)
  obtain us where "drop (length p) s = us @ trim_start ps (drop (length p) s)"
    using trim_start_suffix by blast
  then have "length (trim_start ps (drop (length p) s)) \<le> length (drop (length p) s)"
    by (metis length_append le_add2)
  also have "\<dots> < length s" using \<open>s \<noteq> []\<close> p(2) by (cases s; cases p) auto
  finally have "trim_start ps s \<noteq> s" using Some by (subst trim_start.simps) auto
  with p show ?thesis by blast
qed

lemma starts_with_append: "starts_with p s \<Longrightarrow> starts_with p (s @ t)"
  by (auto simp: starts_with_def) (metis length_take min.absorb_iff2 diff_is_0_eq' append.right_neutral take0)

lemma trim_space_idem [simp]: "trim_space (trim_space s) = trim_space s"
proof -
  let ?a = "trim_start white_space s" and ?W = "map rev white_space"
  let ?b = "rev (trim_start ?W (rev ?a))"
  obtain us where "rev ?a = us @ trim_start ?W (rev ?a)" using trim_start_suffix by blast
  then have "?a = ?b @ rev us" by (metis rev_append rev_rev_ident)
  moreover have "\<forall>p \<in> set white_space. p \<noteq> [] \<longrightarrow> \<not> starts_with p ?a"
    using trim_start_idem[of white_space s] by (simp only: trim_start_fixed_iff)
  ultimately have "\<forall>p \<in> set white_space. p \<noteq> [] \<longrightarrow> \<not> starts_with p ?b"
    by (metis starts_with_append)
  then have "trim_start white_space ?b = ?b" by (simp only: trim_start_fixed_iff)
  then show ?thesis by (simp add: trim_space_def trim_start_idem)
qed

lemma generateTemporaryPassword_valid: "validatePassword (generateTemporaryPassword rnd) = None"
  by (simp add: validatePassword_def generateTemporaryPassword_def temporaryPasswordLength_def
      minPasswordLength_def maxPasswordLength_def)

lemma hashPassword_Inr: "hashPassword c p = Inr h \<longleftrightarrow> validatePassword p = None \<and> createHash c p = Some h"
  by (auto simp: hashPassword_def split: option.splits)

lemma newUser_InrD:
  assumes "newUser c uuid now n p r = Inr u"
  shows "uuid = Some (uID u)" "uUsername u = trim_space n" "uUsername u \<noteq> ''''" "uRole u = r" "role_valid r"
    "uActive u" "uMustChangePassword u" "hashPassword c p = Inr (uPasswordHash u)" "\<not> uCanSubmit u"
  using assms by (auto simp: newUser_def Let_def validateRole_def split: if_splits option.splits sum.splits)

section \<open>Well-formed tables\<close>

definition user_ok :: "user \<Rightarrow> bool" where
  "user_ok u \<longleftrightarrow> role_valid (uRole u) \<and> uUsername u \<noteq> '''' \<and> trim_space (uUsername u) = uUsername u \<and>
     (isSuperAdmin u \<longrightarrow> uActive u)"

definition master_ids :: "user list \<Rightarrow> string list" where
  "master_ids us = map uID (filter isSuperAdmin us)"

definition users_wf :: "user list \<Rightarrow> bool" where
  "users_wf us \<longleftrightarrow> distinct (map uID us) \<and> distinct (map uUsername us) \<and> list_all user_ok us \<and>
     length (master_ids us) \<le> 1"

text \<open>What a handler or command can do to the table.\<close>

inductive user_change :: "user list \<Rightarrow> user list \<Rightarrow> bool" where
  keep: "user_change us us"
| bootstrap: "user_ok u \<Longrightarrow> isSuperAdmin u \<Longrightarrow> user_change [] [u]"
| enrol: "createUser u us = Inr us' \<Longrightarrow> user_ok u \<Longrightarrow> \<not> isSuperAdmin u \<Longrightarrow> user_change us us'"
| amend: "updateUser u us = Inr us' \<Longrightarrow> old \<in> set us \<Longrightarrow> uID u = uID old \<Longrightarrow> uUsername u = uUsername old \<Longrightarrow>
    uRole u = uRole old \<Longrightarrow> (isSuperAdmin old \<Longrightarrow> uActive old \<Longrightarrow> uActive u) \<Longrightarrow> user_change us us'"

text \<open>The command \<open>setRole\<close> is the one further change, and only the office can send it.\<close>

inductive role_change :: "user list \<Rightarrow> user list \<Rightarrow> bool" where
  reassign: "updateUser (old\<lparr>uRole := r, uUpdatedAt := t\<rparr>) us = Inr us' \<Longrightarrow> old \<in> set us \<Longrightarrow>
    role_valid r \<Longrightarrow> r \<noteq> RoleMaster \<Longrightarrow> role_change us us'"

inductive_cases role_changeE: "role_change us us'"

definition set_row :: "user \<Rightarrow> user list \<Rightarrow> user list" where
  "set_row u us = map (\<lambda>x. if uID x = uID u then u\<lparr>uCreatedAt := uCreatedAt x\<rparr> else x) us"

lemma updateUser_InrD: "updateUser u us = Inr us' \<Longrightarrow> us' = set_row u us \<and> uID u \<in> uID ` set us"
  by (auto simp: updateUser_def set_row_def list_ex_iff split: if_splits) (metis imageI)

lemma createUser_InrD:
  "createUser u us = Inr us' \<Longrightarrow> us' = us @ [u] \<and> uID u \<notin> uID ` set us \<and> uUsername u \<notin> uUsername ` set us"
  by (auto simp: createUser_def list_ex_iff split: if_splits)

lemma set_row_ids [simp]: "map uID (set_row u us) = map uID us"
  by (simp add: set_row_def)

lemma set_row_congruent:
  assumes "distinct (map uID us)" and "old \<in> set us" and "uID u = uID old"
    and "\<And>t. f (u\<lparr>uCreatedAt := t\<rparr>) = f u" and "f u = f old"
  shows "map f (set_row u us) = map f us"
proof -
  have "f (if uID x = uID u then u\<lparr>uCreatedAt := uCreatedAt x\<rparr> else x) = f x" if "x \<in> set us" for x
    using assms that by (auto simp: distinct_map inj_on_def)
  then show ?thesis by (simp add: set_row_def)
qed

lemma set_row_ok: "list_all user_ok us \<Longrightarrow> user_ok u \<Longrightarrow> list_all user_ok (set_row u us)"
  by (auto simp: set_row_def list_all_iff user_ok_def isSuperAdmin_def)

lemma master_ids_map: "master_ids us = map fst (filter (\<lambda>e. snd e = RoleMaster) (map (\<lambda>u. (uID u, uRole u)) us))"
  by (simp add: master_ids_def filter_map o_def isSuperAdmin_def[abs_def])

lemma set_row_masters:
  assumes "distinct (map uID us)" and "old \<in> set us" and "uID u = uID old" and "uRole u = uRole old"
  shows "master_ids (set_row u us) = master_ids us"
  unfolding master_ids_map using assms by (subst set_row_congruent[of us old u]) auto

lemma set_row_demotes:
  assumes "\<not> isSuperAdmin u"
  shows "master_ids (set_row u us) = filter (\<lambda>i. i \<noteq> uID u) (master_ids us)"
  using assms by (induction us) (auto simp: master_ids_def set_row_def isSuperAdmin_def)

lemma user_change_wf: "user_change us us' \<Longrightarrow> users_wf us \<Longrightarrow> users_wf us'"
proof (induction rule: user_change.induct)
  case (bootstrap u)
  then show ?case by (simp add: users_wf_def master_ids_def)
next
  case (enrol u us us')
  then show ?case using createUser_InrD[OF enrol.hyps(1)] by (auto simp: users_wf_def master_ids_def)
next
  case (amend u us us' old)
  have us': "us' = set_row u us" using updateUser_InrD[OF amend.hyps(1)] by simp
  have "user_ok old" using amend by (auto simp: users_wf_def list_all_iff)
  then have "user_ok u" using amend by (auto simp: user_ok_def isSuperAdmin_def)
  with amend show ?case
    unfolding us' users_wf_def
    by (simp add: set_row_ok set_row_masters set_row_congruent[where f = uUsername])
qed

lemma user_change_masters:
  "user_change us us' \<Longrightarrow> users_wf us \<Longrightarrow> us \<noteq> [] \<Longrightarrow> master_ids us' = master_ids us \<and> us' \<noteq> []"
proof (induction rule: user_change.induct)
  case (enrol u us us')
  then show ?case using createUser_InrD[OF enrol.hyps(1)] by (auto simp: master_ids_def)
next
  case (amend u us us' old)
  then show ?case using updateUser_InrD[OF amend.hyps(1)] set_row_masters[of us old u]
    by (auto simp: users_wf_def set_row_def)
qed auto

lemma role_change_wf: "role_change us us' \<Longrightarrow> users_wf us \<Longrightarrow> users_wf us'"
proof (induction rule: role_change.induct)
  case (reassign t r old us us')
  let ?u = "old\<lparr>uRole := r, uUpdatedAt := t\<rparr>"
  have us': "us' = set_row ?u us" using updateUser_InrD[OF reassign.hyps(1)] by simp
  have "user_ok ?u" using reassign by (auto simp: users_wf_def list_all_iff user_ok_def isSuperAdmin_def)
  moreover have "length (master_ids us') \<le> length (master_ids us)"
    unfolding us' using reassign.hyps by (subst set_row_demotes) (auto simp: isSuperAdmin_def)
  ultimately show ?case
    using reassign unfolding us' users_wf_def
    by (auto simp: set_row_ok set_row_congruent[where f = uUsername])
qed

lemma role_change_masters:
  "role_change us us' \<Longrightarrow> set (master_ids us') \<subseteq> set (master_ids us) \<and> us' \<noteq> []"
proof (induction rule: role_change.induct)
  case (reassign t r old us us')
  let ?u = "old\<lparr>uRole := r, uUpdatedAt := t\<rparr>"
  have us': "us' = set_row ?u us" using updateUser_InrD[OF reassign.hyps(1)] by simp
  have "master_ids us' = filter (\<lambda>i. i \<noteq> uID ?u) (master_ids us)"
    unfolding us' by (rule set_row_demotes) (simp add: isSuperAdmin_def reassign)
  moreover have "us \<noteq> []" using reassign by auto
  ultimately show ?case by (auto simp: us' set_row_def)
qed
section \<open>Every handler is a change of the table\<close>

definition user_effect :: "userServer \<Rightarrow> userServer \<Rightarrow> bool" where
  "user_effect sv sv' \<longleftrightarrow>
     (case svUsers sv of
        None \<Rightarrow> svUsers sv' = None
      | Some us \<Rightarrow> \<exists>us'. svUsers sv' = Some us' \<and> user_change us us')"

lemma user_effect_same: "svUsers sv' = svUsers sv \<Longrightarrow> user_effect sv sv'"
  by (auto simp: user_effect_def intro: user_change.keep split: option.split)

lemma user_effect_refl [simp]: "user_effect sv sv"
  by (simp add: user_effect_same)

lemma user_effect_write: "svUsers sv = Some us \<Longrightarrow> user_change us us' \<Longrightarrow> svUsers sv' = Some us' \<Longrightarrow> user_effect sv sv'"
  by (simp add: user_effect_def)

lemma requireStore_snd [simp]: "snd (requireStore sv) = sv"
  by (simp add: requireStore_def split: option.split)

lemma requireStore_Inr: "requireStore sv = (Inr us, sv') \<longleftrightarrow> svUsers sv = Some us \<and> sv' = sv"
  by (auto simp: requireStore_def writeError_def split: option.split)

lemma getUser_InrD: "getUser i us = Inr u \<Longrightarrow> u \<in> set us \<and> uID u = i"
  by (auto simp: getUser_def dest: find_row_SomeD split: option.splits)

lemma getUserByUsername_InrD: "getUserByUsername n us = Inr u \<Longrightarrow> u \<in> set us \<and> uUsername u = n"
  by (auto simp: getUserByUsername_def dest: find_row_SomeD split: option.splits)

lemma authenticatedUser_users [simp]: "svUsers (snd (authenticatedUser now cookie sv)) = svUsers sv"
  by (auto simp: authenticatedUser_def Let_def requireStore_def writeError_def guard_def
      split: option.split prod.split sum.split)

lemma authenticatedUser_InrD:
  assumes "authenticatedUser now cookie sv = (Inr u, sv')"
  shows "svUsers sv' = svUsers sv" and "\<exists>us. svUsers sv = Some us \<and> u \<in> set us" and "uActive u"
    and "\<exists>token e. cookie = Some token \<and> gm_lookup (svSessions sv) token = Some e \<and> seUserID e = uID u \<and>
      now \<le> seExpiresAt e"
proof -
  show "svUsers sv' = svUsers sv" using authenticatedUser_users[of now cookie sv] assms by simp
  obtain token where t: "cookie = Some token" using assms by (cases cookie) (auto simp: authenticatedUser_def writeError_def)
  with assms obtain e where e: "gm_lookup (svSessions sv) token = Some e" "\<not> seExpiresAt e < now"
    by (cases "gm_lookup (svSessions sv) token")
      (auto simp: authenticatedUser_def session_lookup_def Let_def writeError_def split: if_splits)
  with t assms obtain us where us: "svUsers sv = Some us"
    by (cases "svUsers sv") (auto simp: authenticatedUser_def session_lookup_def requireStore_def writeError_def)
  then have "getUser (seUserID e) us = Inr u \<and> uActive u"
    using assms by (auto simp: t e authenticatedUser_def session_lookup_def requireStore_def writeError_def guard_def
        split: sum.splits if_splits)
  with us t e show "\<exists>us. svUsers sv = Some us \<and> u \<in> set us" "uActive u"
    "\<exists>token e. cookie = Some token \<and> gm_lookup (svSessions sv) token = Some e \<and> seUserID e = uID u \<and> now \<le> seExpiresAt e"
    by (auto dest: getUser_InrD)
qed

lemma requireSuperAdmin_users [simp]: "svUsers (snd (requireSuperAdmin now cookie sv)) = svUsers sv"
  unfolding requireSuperAdmin_def
  by (rule andthen_inv[where P = "\<lambda>s. svUsers s = svUsers sv"], simp)
    (rule andthen_inv[where P = "\<lambda>s. svUsers s = svUsers sv"]; auto simp: guard_def requireStore_Inr)

lemma requireSuperAdmin_InrD:
  assumes "requireSuperAdmin now cookie sv = (Inr us, sv')"
  shows "svUsers sv = Some us" "svUsers sv' = Some us" "\<exists>u \<in> set us. isSuperAdmin u \<and> uActive u"
proof -
  obtain us0 where us0: "svUsers sv = Some us0"
    using assms by (cases "svUsers sv") (auto simp: requireSuperAdmin_def requireStore_def writeError_def)
  obtain r s where r: "authenticatedUser now cookie sv = (r, s)" by fastforce
  obtain u where u: "r = Inr u"
    using assms by (cases r) (auto simp: requireSuperAdmin_def requireStore_def us0 r)
  note A = authenticatedUser_InrD[OF r[unfolded u]]
  have "isSuperAdmin u" "us = us0" "sv' = s"
    using assms by (auto simp: requireSuperAdmin_def requireStore_def us0 r u guard_def writeError_def split: if_splits)
  with A us0 show "svUsers sv = Some us" "svUsers sv' = Some us" "\<exists>u \<in> set us. isSuperAdmin u \<and> uActive u" by auto
qed

lemma store_users_effect:
  assumes "svUsers sv0 = Some us" and "svUsers sv = Some us" and "\<And>us'. res = Inr us' \<Longrightarrow> user_change us us'"
    and "\<And>s. svUsers (snd (k s)) = svUsers s"
  shows "user_effect sv0 (snd (store_users res sv k))"
  using assms by (cases res) (auto simp: store_users_def writeErrorText_def user_effect_def intro: user_change.keep)

lemma startSession_users [simp]: "svUsers (snd (startSession rnd now i sv)) = svUsers sv"
  by (auto simp: startSession_def split: sum.split)

lemma amend_simple:
  "u \<in> set us \<Longrightarrow> updateUser u' us = Inr us' \<Longrightarrow> uID u' = uID u \<Longrightarrow> uUsername u' = uUsername u \<Longrightarrow>
   uRole u' = uRole u \<Longrightarrow> (isSuperAdmin u \<Longrightarrow> uActive u \<Longrightarrow> uActive u') \<Longrightarrow> user_change us us'"
  by (rule user_change.amend)

lemma changePassword_InrD: "changePassword c now p u = Inr u' \<Longrightarrow>
    uID u' = uID u \<and> uUsername u' = uUsername u \<and> uRole u' = uRole u \<and> uActive u' = uActive u \<and>
    hashPassword c p = Inr (uPasswordHash u') \<and> \<not> uMustChangePassword u'"
  by (auto simp: changePassword_def split: sum.splits)

lemma resetPassword_InrD: "resetPassword c now p u = Inr u' \<Longrightarrow>
    uID u' = uID u \<and> uUsername u' = uUsername u \<and> uRole u' = uRole u \<and> uActive u' = uActive u \<and>
    hashPassword c p = Inr (uPasswordHash u') \<and> uMustChangePassword u'"
  by (auto simp: resetPassword_def split: sum.splits)

lemma setters_sel [simp]:
  "uID (setCanSubmit t b u) = uID u" "uUsername (setCanSubmit t b u) = uUsername u"
  "uRole (setCanSubmit t b u) = uRole u" "uActive (setCanSubmit t b u) = uActive u"
  "uCanSubmit (setCanSubmit t b u) = b"
  "uID (setActive t b u) = uID u" "uUsername (setActive t b u) = uUsername u"
  "uRole (setActive t b u) = uRole u" "uActive (setActive t b u) = b"
  "uCanSubmit (setActive t b u) = uCanSubmit u"
  by (simp_all add: setCanSubmit_def setActive_def)

lemma createLocalUser_change:
  assumes "createLocalUser c uuid now n role p us = Inr (u, us')"
  shows "user_change us us'" "newUser c uuid now n p role = Inr u" "createUser u us = Inr us'"
proof -
  have role: "role \<noteq> RoleMaster" "role_valid role"
    and u: "newUser c uuid now n p role = Inr u" "createUser u us = Inr us'"
    using assms by (auto simp: createLocalUser_def split: if_splits sum.splits)
  show "newUser c uuid now n p role = Inr u" "createUser u us = Inr us'" by (fact u)+
  note nu = newUser_InrD[OF u(1)]
  have "user_ok u" "\<not> isSuperAdmin u" using nu role by (auto simp: user_ok_def isSuperAdmin_def)
  with u(2) show "user_change us us'" by (rule user_change.enrol)
qed

lemma handleLogin_effect: "user_effect sv (snd (handleLogin c dummy rnd now body sv))"
  by (rule user_effect_same)
    (auto simp: handleLogin_def Let_def startSession_def requireStore_def guard_def decode_def
      split: option.split sum.split)

lemma handleLogout_effect: "user_effect sv (snd (handleLogout cookie sv))"
  by (rule user_effect_same) (simp add: handleLogout_def Let_def split: option.split)

lemma handleMe_effect: "user_effect sv (snd (handleMe now cookie sv))"
  unfolding handleMe_def
  by (rule andthen_inv[where P = "user_effect sv"]) (simp_all add: user_effect_same)

lemma handleListUsers_effect: "user_effect sv (snd (handleListUsers now cookie sv))"
  unfolding handleListUsers_def
  by (rule andthen_inv[where P = "user_effect sv"]) (simp_all add: user_effect_same)

lemma handleChangePassword_effect: "user_effect sv (snd (handleChangePassword c now cookie body sv))"
  unfolding handleChangePassword_def
proof (rule andthen_inv[where P = "user_effect sv"])
  fix u s assume a: "authenticatedUser now cookie sv = (Inr u, s)" and s: "user_effect sv s"
  note A = authenticatedUser_InrD(1,2)[OF a]
  then obtain us where us: "svUsers sv = Some us" "svUsers s = Some us" "u \<in> set us" by auto
  have "user_change us us'" if "changePassword c now p u = Inr u'" "updateUser u' us = Inr us'" for p u' us'
    using amend_simple[OF us(3) that(2)] changePassword_InrD[OF that(1)] by simp
  then show "user_effect sv (snd (andthen (requireStore s) (\<lambda>us sv. decode body sv (\<lambda>req.
       case authenticate c (cpCurrentPassword req) u of
         Inl e \<Rightarrow> writeErrorText StatusInternalServerError e sv
       | Inr match \<Rightarrow>
           guard (\<not> match) StatusUnauthorized ''current password is incorrect'' sv (\<lambda>sv.
             case changePassword c now (cpNewPassword req) u of
               Inl e \<Rightarrow> writeErrorText StatusBadRequest e sv
             | Inr u \<Rightarrow> store_users (updateUser u us) sv (writeJSON StatusOK (toUserView u)))))))"
    using us s by (auto simp: requireStore_def decode_def guard_def split: option.split sum.split
        intro: store_users_effect)
qed (simp add: user_effect_same)

lemma handleCreateUser_effect: "user_effect sv (snd (handleCreateUser c uuid rnd now cookie body sv))"
  unfolding handleCreateUser_def
proof (rule andthen_inv[where P = "user_effect sv"])
  fix us s assume a: "requireSuperAdmin now cookie sv = (Inr us, s)" and s: "user_effect sv s"
  note us = requireSuperAdmin_InrD(1,2)[OF a]
  show "user_effect sv (snd (decode body s (\<lambda>req. let temporaryPassword = generateTemporaryPassword rnd
       in case createLocalUser c uuid now (crUsername req) (crRole req) temporaryPassword us of
            Inl e \<Rightarrow>
              if e = ErrMasterCreationForbidden then writeErrorText StatusBadRequest e s
              else if e = ErrUsernameTaken then writeErrorText StatusConflict e s
              else writeErrorText StatusInternalServerError e s
          | Inr (u, us) \<Rightarrow>
              writeJSON StatusCreated (toAdminUserView u, temporaryPassword) (s\<lparr>svUsers := Some us\<rparr>))))"
    using us s by (auto simp: decode_def Let_def split: option.split sum.split
        intro: user_effect_write dest: createLocalUser_change(1))
qed (simp add: user_effect_same)

lemma handleResetUserPassword_effect: "user_effect sv (snd (handleResetUserPassword c rnd now cookie i sv))"
  unfolding handleResetUserPassword_def
proof (rule andthen_inv[where P = "user_effect sv"])
  fix us s assume a: "requireSuperAdmin now cookie sv = (Inr us, s)" and s: "user_effect sv s"
  note us = requireSuperAdmin_InrD(1,2)[OF a]
  have "user_change us us'" if "getUser i us = Inr u" "resetPassword c now p u = Inr u'" "updateUser u' us = Inr us'"
    for u u' p us'
    using amend_simple[OF _ that(3)] getUser_InrD[OF that(1)] resetPassword_InrD[OF that(2)] by auto
  then show "user_effect sv (snd (case getUser i us of
         Inl e \<Rightarrow>
           if e = ErrNotFound then writeError StatusNotFound ''user not found'' s
           else writeErrorText StatusInternalServerError (ErrUserStore e) s
       | Inr u \<Rightarrow>
           (let temporaryPassword = generateTemporaryPassword rnd
            in case resetPassword c now temporaryPassword u of
                 Inl e \<Rightarrow> writeErrorText StatusInternalServerError e s
               | Inr u \<Rightarrow> store_users (updateUser u us) s (writeJSON StatusOK temporaryPassword))))"
    using us s by (auto simp: Let_def split: sum.split intro: store_users_effect)
qed (simp add: user_effect_same)

lemma update_fields_sel [simp]:
  "uID (update_fields now req u) = uID u" "uUsername (update_fields now req u) = uUsername u"
  "uRole (update_fields now req u) = uRole u"
  "uActive (update_fields now req u) = (case urActive req of None \<Rightarrow> uActive u | Some b \<Rightarrow> b)"
  "uCanSubmit (update_fields now req u) = (case urCanSubmit req of None \<Rightarrow> uCanSubmit u | Some b \<Rightarrow> b)"
  by (simp_all add: update_fields_def Let_def split: option.split)

lemma updated_user_change:
  assumes "u \<in> set us" and "urActive req = Some False \<longrightarrow> \<not> isSuperAdmin u"
    and "updateUser (update_fields now req u) us = Inr us'"
  shows "user_change us us'"
  by (rule amend_simple[OF assms(1,3)]) (use assms(2) in \<open>auto split: option.split\<close>)

lemma handleUpdateUser_effect: "user_effect sv (snd (handleUpdateUser now cookie i body sv))"
  unfolding handleUpdateUser_def
proof (rule andthen_inv[where P = "user_effect sv"])
  fix caller s assume "authenticatedUser now cookie sv = (Inr caller, s)"
  note s = authenticatedUser_InrD(1)[OF this]
  let ?rest = "\<lambda>us s. case getUser i us of
         Inl e \<Rightarrow>
           if e = ErrNotFound then writeError StatusNotFound ''user not found'' s
           else writeErrorText StatusInternalServerError (ErrUserStore e) s
       | Inr u \<Rightarrow>
           decode body s (\<lambda>req.
           guard (urActive req = Some False \<and> uID u = uID caller) StatusBadRequest
             ''you cannot deactivate your own account'' s (\<lambda>s.
           guard (urActive req = Some False \<and> isSuperAdmin u) StatusBadRequest
             ''the Master account cannot be deactivated'' s (\<lambda>s.
             let u = update_fields now req u
             in store_users (updateUser u us) s (writeJSON StatusOK (toAdminUserView u)))))"
  show "user_effect sv (snd (andthen (requireSuperAdmin now cookie s) ?rest))"
  proof (rule andthen_inv[where P = "user_effect sv"])
    fix us s' assume "requireSuperAdmin now cookie s = (Inr us, s')"
    note us = requireSuperAdmin_InrD(1,2)[OF this]
    show "user_effect sv (snd (?rest us s'))"
    proof (cases "getUser i us")
      case (Inr u)
      then have "u \<in> set us" by (auto dest: getUser_InrD)
      note change = updated_user_change[OF this, where now = now]
      from Inr show ?thesis
        using us s by (cases body) (auto simp: Let_def guard_def user_effect_same intro!: store_users_effect change)
    qed (use us s in \<open>auto simp: user_effect_same\<close>)
  qed (simp add: user_effect_same s)
qed (simp add: user_effect_same)

lemma handleSetupMaster_effect: "user_effect sv (snd (handleSetupMaster c uuid rnd now body sv))"
  unfolding handleSetupMaster_def
proof (rule andthen_inv[where P = "user_effect sv"])
  fix us s assume a: "requireStore sv = (Inr us, s)"
  have "user_change us us'"
    if "\<not> hasAnyUser us" "newUser c uuid now n p RoleMaster = Inr u" "createUser (u\<lparr>uMustChangePassword := False\<rparr>) us = Inr us'"
    for n p u us'
  proof -
    have "us = []" using that(1) by (simp add: hasAnyUser_def)
    moreover have "us' = us @ [u\<lparr>uMustChangePassword := False\<rparr>]" using createUser_InrD[OF that(3)] by simp
    moreover have "user_ok (u\<lparr>uMustChangePassword := False\<rparr>)" "isSuperAdmin u"
      using newUser_InrD[OF that(2)] by (auto simp: user_ok_def isSuperAdmin_def)
    ultimately show ?thesis by (auto intro: user_change.bootstrap simp: isSuperAdmin_def)
  qed
  then show "user_effect sv (snd (guard (hasAnyUser us) StatusConflict ''a user already exists; use the login screen instead'' s (\<lambda>sv.
    decode body sv (\<lambda>req.
       case newUser c uuid now (lrUsername req) (lrPassword req) RoleMaster of
         Inl e \<Rightarrow> writeErrorText StatusBadRequest e sv
       | Inr u \<Rightarrow>
           (let u = u\<lparr>uMustChangePassword := False\<rparr>
            in store_users (createUser u us) sv (\<lambda>sv.
                 case startSession rnd now (uID u) sv of
                   (Inl e, sv) \<Rightarrow> writeErrorText StatusInternalServerError e sv
                 | (Inr token, sv) \<Rightarrow> writeJSON StatusCreated (toUserView u, token) sv))))))"
    using a by (auto simp: requireStore_Inr guard_def decode_def Let_def startSession_def split: option.split sum.split prod.split
        intro!: store_users_effect)
qed simp

lemma change_by_name_InrD:
  "change_by_name n f us = Inr us' \<Longrightarrow> \<exists>u u'. u \<in> set us \<and> uUsername u = n \<and> f u = Inr u' \<and> updateUser u' us = Inr us'"
  by (auto simp: change_by_name_def dest: getUserByUsername_InrD split: sum.splits)

lemma applySetRoleCommand_change: "applySetRoleCommand now cmd us = Inr us' \<Longrightarrow> role_change us us'"
  by (auto simp: applySetRoleCommand_def setRole_def validateRole_def dest!: change_by_name_InrD
      split: if_splits intro: role_change.reassign)

lemma applyUserCommand_change:
  assumes "applyUserCommand c uuid now cmd us = Inr us'"
  shows "user_change us us' \<or> (ucAction cmd = UserCommandActionSetRole \<and> role_change us us')"
proof (cases "ucAction cmd")
  case UserCommandActionUnspecified
  then show ?thesis using assms by (simp add: applyUserCommand_def)
next
  case UserCommandActionCreate
  then show ?thesis using assms
    by (cases "createLocalUser c uuid now (ucUsername cmd) (ucRole cmd) (ucTemporaryPassword cmd) us")
      (auto simp: applyUserCommand_def dest: createLocalUser_change(1))
next
  case UserCommandActionResetPassword
  then have "applyResetPasswordCommand c now cmd us = Inr us'"
    using assms by (auto simp: applyUserCommand_def split: sum.splits)
  then show ?thesis
    by (auto simp: applyResetPasswordCommand_def dest!: change_by_name_InrD resetPassword_InrD intro: amend_simple)
next
  case UserCommandActionSetRole
  then have "applySetRoleCommand now cmd us = Inr us'"
    using assms by (auto simp: applyUserCommand_def split: sum.splits)
  then show ?thesis using UserCommandActionSetRole by (simp add: applySetRoleCommand_change)
next
  case UserCommandActionSetActive
  then have "applySetActiveCommand now cmd us = Inr us'"
    using assms by (auto simp: applyUserCommand_def split: sum.splits)
  then obtain u u' where u: "u \<in> set us" "updateUser u' us = Inr us'"
    "(if \<not> ucActive cmd \<and> isSuperAdmin u then Inl ErrMasterDeactivation
      else Inr (setActive now (ucActive cmd) u)) = Inr u'"
    by (auto simp: applySetActiveCommand_def dest!: change_by_name_InrD)
  then have "user_change us us'" using amend_simple[OF u(1,2)] by (auto split: if_splits)
  then show ?thesis ..
next
  case UserCommandActionSetCanSubmit
  then have "applySetCanSubmitCommand now cmd us = Inr us'"
    using assms by (auto simp: applyUserCommand_def split: sum.splits)
  then show ?thesis
    by (auto simp: applySetCanSubmitCommand_def dest!: change_by_name_InrD intro: amend_simple)
qed

section \<open>Histories\<close>

text \<open>Everything the running program does to its accounts and sessions, local requests and commands of the office.\<close>

inductive account_step :: "crypto \<Rightarrow> userServer \<Rightarrow> userServer \<Rightarrow> bool" for c where
  login: "account_step c sv (snd (handleLogin c dummy rnd now lbody sv))"
| logout: "account_step c sv (snd (handleLogout cookie sv))"
| me: "account_step c sv (snd (handleMe now cookie sv))"
| changePassword: "account_step c sv (snd (handleChangePassword c now cookie cbody sv))"
| listUsers: "account_step c sv (snd (handleListUsers now cookie sv))"
| createUser: "account_step c sv (snd (handleCreateUser c uuid digits now cookie nbody sv))"
| resetUserPassword: "account_step c sv (snd (handleResetUserPassword c digits now cookie i sv))"
| updateUser: "account_step c sv (snd (handleUpdateUser now cookie i ubody sv))"
| setupMaster: "account_step c sv (snd (handleSetupMaster c uuid rnd now lbody sv))"
| office: "svUsers sv = Some us \<Longrightarrow> applyUserCommand c uuid now cmd us = Inr us' \<Longrightarrow>
    account_step c sv (sv\<lparr>svUsers := Some us'\<rparr>)"

lemmas handler_effects = handleLogin_effect handleLogout_effect handleMe_effect handleChangePassword_effect
  handleListUsers_effect handleCreateUser_effect handleResetUserPassword_effect handleUpdateUser_effect
  handleSetupMaster_effect

lemma user_effect_change:
  "user_effect sv sv' \<Longrightarrow> svUsers sv = Some us \<Longrightarrow> \<exists>us'. svUsers sv' = Some us' \<and> (user_change us us' \<or> role_change us us')"
  by (auto simp: user_effect_def)

lemma account_step_change:
  assumes "account_step c sv sv'" and "svUsers sv = Some us"
  shows "\<exists>us'. svUsers sv' = Some us' \<and> (user_change us us' \<or> role_change us us')"
  using assms
proof (induction rule: account_step.induct)
  case (office sv us0 uuid now cmd us')
  then show ?case using applyUserCommand_change[OF office.hyps(2)] by auto
qed (rule user_effect_change[OF handler_effects(1)] user_effect_change[OF handler_effects(2)]
    user_effect_change[OF handler_effects(3)] user_effect_change[OF handler_effects(4)]
    user_effect_change[OF handler_effects(5)] user_effect_change[OF handler_effects(6)]
    user_effect_change[OF handler_effects(7)] user_effect_change[OF handler_effects(8)]
    user_effect_change[OF handler_effects(9)], assumption)+

lemma account_steps_wf:
  assumes "(account_step c)\<^sup>*\<^sup>* sv sv'" and "svUsers sv = Some us" and "users_wf us"
  shows "\<exists>us'. svUsers sv' = Some us' \<and> users_wf us'"
  using assms
proof (induction rule: rtranclp_induct)
  case (step sv' sv'')
  then obtain us' where "svUsers sv' = Some us'" "users_wf us'" by auto
  then show ?case using account_step_change[OF step.hyps(2)] user_change_wf role_change_wf by blast
qed simp

text \<open>Once there is an account, no step creates a Master.\<close>

lemma account_steps_masters:
  assumes "(account_step c)\<^sup>*\<^sup>* sv sv'" and "svUsers sv = Some us" and "users_wf us" and "us \<noteq> []"
  shows "\<exists>us'. svUsers sv' = Some us' \<and> users_wf us' \<and> us' \<noteq> [] \<and> set (master_ids us') \<subseteq> set (master_ids us)"
  using assms
proof (induction rule: rtranclp_induct)
  case (step sv' sv'')
  then obtain us' where us': "svUsers sv' = Some us'" "users_wf us'" "us' \<noteq> []" "set (master_ids us') \<subseteq> set (master_ids us)"
    by auto
  obtain us'' where us'': "svUsers sv'' = Some us''" "user_change us' us'' \<or> role_change us' us''"
    using account_step_change[OF step.hyps(2) us'(1)] by auto
  show ?case
    using us' us'' user_change_wf role_change_wf user_change_masters role_change_masters
    by (metis subset_trans)
qed simp
section \<open>Sessions and passwords\<close>

lemma session_lookup_created:
  assumes "session_create rnd now i ss = Inr (token, ss')"
  shows "session_lookup t token ss' =
    (if now + sessionTTL < t then (None, gm_delete token ss') else (Some i, ss'))"
  using assms by (auto simp: session_create_def session_lookup_def split: option.splits)

lemma session_lookup_revoked: "session_lookup t token (session_revoke token ss) = (None, session_revoke token ss)"
  by (simp add: session_lookup_def session_revoke_def)

lemma session_lookup_evicts:
  "session_lookup t token ss = (None, ss') \<Longrightarrow> session_lookup t' token ss' = (None, ss')"
  by (auto simp: session_lookup_def split: option.splits if_splits)

text \<open>When a login succeeds, and that its refusal does not tell an unknown name from a wrong password.\<close>

lemma handleLogin_succeeds_iff:
  "(\<exists>v. fst (handleLogin c dummy rnd now (Some req) sv) = Inr v) \<longleftrightarrow>
   (\<exists>us u. svUsers sv = Some us \<and> getUserByUsername (lrUsername req) us = Inr u \<and> uActive u \<and>
      verifyPassword c (lrPassword req) (uPasswordHash u) = Inr True \<and> rnd \<noteq> None)"
  by (auto simp: handleLogin_def requireStore_def Let_def guard_def startSession_def session_create_def
      split: option.splits sum.splits)

lemma handleLogin_refusal:
  assumes "svUsers sv = Some us" and "\<And>h. comparePasswordAndHash c (lrPassword req) h \<noteq> None"
    and "\<And>u. getUserByUsername (lrUsername req) us = Inr u \<Longrightarrow> verifyPassword c (lrPassword req) (uPasswordHash u) \<noteq> Inr True"
  shows "handleLogin c dummy rnd now (Some req) sv =
    writeError StatusUnauthorized ''incorrect username or password'' sv"
proof (cases "getUserByUsername (lrUsername req) us")
  case (Inl e)
  then show ?thesis using assms(1) assms(2)[of dummy]
    by (auto simp: handleLogin_def requireStore_def verifyPassword_def split: option.split)
next
  case (Inr u)
  then show ?thesis using assms(1) assms(2)[of "uPasswordHash u"] assms(3)[OF Inr]
    by (auto simp: handleLogin_def requireStore_def verifyPassword_def split: option.splits)
qed

lemma verify_hash: "crypto_ok c \<Longrightarrow> hashPassword c p = Inr h \<Longrightarrow> verifyPassword c p h = Inr True"
  by (auto simp: hashPassword_Inr crypto_ok_def verifyPassword_def)

lemma find_name_set_row:
  assumes "distinct (map uID us)" and "distinct (map uUsername us)" and "old \<in> set us"
    and "uID u = uID old" and "uUsername u = uUsername old"
  shows "getUserByUsername (uUsername u) (set_row u us) = Inr (u\<lparr>uCreatedAt := uCreatedAt old\<rparr>)"
proof -
  have "u\<lparr>uCreatedAt := uCreatedAt old\<rparr> \<in> set (set_row u us)"
    using assms(3,4) by (force simp: set_row_def image_iff)
  moreover have "distinct (map uUsername (set_row u us))"
    using assms by (subst set_row_congruent[of us old u]) auto
  ultimately have "find_row uUsername (set_row u us) (uUsername u) = Some (u\<lparr>uCreatedAt := uCreatedAt old\<rparr>)"
    using find_row_unique[of uUsername "set_row u us" "u\<lparr>uCreatedAt := uCreatedAt old\<rparr>"] by simp
  then show ?thesis by (simp add: getUserByUsername_def)
qed

lemma handleResetUserPassword_InrD:
  assumes "handleResetUserPassword c rnd now cookie i sv = (Inr v, sv')"
  shows "\<exists>us u u'. svUsers sv = Some us \<and> getUser i us = Inr u \<and> v = (StatusOK, generateTemporaryPassword rnd) \<and>
    resetPassword c now (generateTemporaryPassword rnd) u = Inr u' \<and> svUsers sv' = Some (set_row u' us)"
proof -
  obtain us s where r: "requireSuperAdmin now cookie sv = (Inr us, s)"
    using assms by (cases "requireSuperAdmin now cookie sv"; cases "fst (requireSuperAdmin now cookie sv)")
      (auto simp: handleResetUserPassword_def)
  obtain u where u: "getUser i us = Inr u"
    using assms by (cases "getUser i us") (auto simp: handleResetUserPassword_def r writeError_def writeErrorText_def split: if_splits)
  obtain u' where u': "resetPassword c now (generateTemporaryPassword rnd) u = Inr u'"
    using assms by (cases "resetPassword c now (generateTemporaryPassword rnd) u")
      (auto simp: handleResetUserPassword_def r u writeErrorText_def)
  show ?thesis
    using assms requireSuperAdmin_InrD(1)[OF r] u u'
    by (auto simp: handleResetUserPassword_def r store_users_def writeErrorText_def writeJSON_def
        split: sum.splits dest!: updateUser_InrD)
qed

text \<open>The temporary password shown to the Master logs its user in, who must then change it.\<close>

lemma reset_then_login:
  assumes "crypto_ok c" and "svUsers sv = Some us" and "users_wf us" and "u \<in> set us" and "uActive u"
    and "handleResetUserPassword c rnd now cookie (uID u) sv = (Inr (status, password), sv')"
  shows "\<exists>view token. fst (handleLogin c dummy (Some tok) t (Some \<lparr>lrUsername = uUsername u, lrPassword = password\<rparr>) sv') =
      Inr (StatusOK, view, token) \<and> uvID view = uID u \<and> uvMustChangePassword view"
proof -
  from handleResetUserPassword_InrD[OF assms(6)] assms(2) obtain u0 u' where
    h: "getUser (uID u) us = Inr u0" "password = generateTemporaryPassword rnd"
      "resetPassword c now password u0 = Inr u'" "svUsers sv' = Some (set_row u' us)" by auto
  have d: "distinct (map uID us)" "distinct (map uUsername us)" using assms(3) by (simp_all add: users_wf_def)
  have "u0 = u"
    using h(1) find_row_unique[OF d(1) assms(4)] by (simp add: getUser_def)
  note u' = resetPassword_InrD[OF h(3)[unfolded this]]
  have "getUserByUsername (uUsername u) (set_row u' us) = Inr (u'\<lparr>uCreatedAt := uCreatedAt u\<rparr>)"
    using find_name_set_row[OF d assms(4), of u'] u' by simp
  then show ?thesis
    using u' h(4) assms(5) verify_hash[OF assms(1), of password "uPasswordHash u'"]
    by (simp add: handleLogin_def requireStore_def startSession_def session_create_def toUserView_def)
qed

text \<open>A deactivated account has no session any more, whatever its cookies.\<close>

lemma deactivated_unauthenticated:
  assumes "svUsers sv = Some us" and "\<And>u. u \<in> set us \<Longrightarrow> uID u = i \<Longrightarrow> \<not> uActive u"
    and "authenticatedUser now cookie sv = (Inr u, sv')"
  shows "uID u \<noteq> i"
  using authenticatedUser_InrD(2,3)[OF assms(3)] assms(1,2) by auto

lemma handleUpdateUser_InrD:
  assumes "handleUpdateUser now cookie i (Some req) sv = (Inr v, sv')"
  shows "\<exists>us u. svUsers sv = Some us \<and> getUser i us = Inr u \<and>
    svUsers sv' = Some (set_row (update_fields now req u) us) \<and>
    (urActive req = Some False \<longrightarrow> \<not> isSuperAdmin u)"
proof -
  obtain caller s0 where a: "authenticatedUser now cookie sv = (Inr caller, s0)"
    using assms by (cases "authenticatedUser now cookie sv"; cases "fst (authenticatedUser now cookie sv)")
      (auto simp: handleUpdateUser_def)
  obtain us s where r: "requireSuperAdmin now cookie s0 = (Inr us, s)"
    using assms by (cases "requireSuperAdmin now cookie s0"; cases "fst (requireSuperAdmin now cookie s0)")
      (auto simp: handleUpdateUser_def a)
  obtain u where u: "getUser i us = Inr u"
    using assms by (cases "getUser i us") (auto simp: handleUpdateUser_def a r writeError_def writeErrorText_def split: if_splits)
  have us: "svUsers sv = Some us" using authenticatedUser_InrD(1)[OF a] requireSuperAdmin_InrD(1)[OF r] by simp
  show ?thesis
    using assms u
    by (auto simp: us handleUpdateUser_def a r guard_def Let_def store_users_def writeError_def writeErrorText_def
        writeJSON_def split: sum.splits if_splits dest!: updateUser_InrD)
qed

lemma deactivation_ends_sessions:
  assumes "svUsers sv = Some us" and "users_wf us"
    and "handleUpdateUser now cookie i (Some req) sv = (Inr v, sv')" and "urActive req = Some False"
    and "authenticatedUser t cookie' sv' = (Inr u, sv'')"
  shows "uID u \<noteq> i"
proof -
  from handleUpdateUser_InrD[OF assms(3)] assms(1) obtain u0 where
    h: "getUser i us = Inr u0" "svUsers sv' = Some (set_row (update_fields now req u0) us)" by auto
  have "uID u0 = i" using getUser_InrD[OF h(1)] by simp
  then show ?thesis
    using h by (intro deactivated_unauthenticated[OF h(2) _ assms(5)]) (auto simp: set_row_def assms(4) split: if_splits)
qed

end
