(* ===== verification/Locks.thy ===== *)
theory Locks
  imports Users
begin

text \<open>
  The section locks of \<open>vessel/httpapi/locks.go\<close>: who is editing which section of which report, held in memory
  with a time to live, and the event channels of the screens that follow a report.  Each method holds the manager's mutex from
  start to end, so it is one step; the clock is an argument.

  Lemmas: at most one holder at any time, who keeps the lock against every other user until it expires or is released;
  renewal keeps the acquisition time; a sweep removes exactly the expired locks; channels stay within their capacity.
\<close>

definition lockTTL :: int where "lockTTL = 5 * minute"

record sectionLock =
  slReportID :: string
  slSection :: string
  slUserID :: string
  slUsername :: string
  slRole :: role
  slAcquiredAt :: gotime
  slRenewedAt :: gotime

definition zero_lock :: sectionLock where
  "zero_lock = \<lparr>slReportID = '''', slSection = '''', slUserID = '''', slUsername = '''', slRole = '''',
     slAcquiredAt = zero_time, slRenewedAt = zero_time\<rparr>"

definition lock_expired :: "gotime \<Rightarrow> int \<Rightarrow> sectionLock \<Rightarrow> bool" where
  "lock_expired now ttl l \<longleftrightarrow> slRenewedAt l + ttl < now"

type_synonym lockKey = "string \<times> string"

datatype lockEventType = Locked | Unlocked

record lockEvent =
  leType :: lockEventType
  leLock :: sectionLock

text \<open>A channel is its buffered events, named by the number of the subscription.\<close>

record lockManager =
  lmLocks :: "(lockKey, sectionLock) gomap"
  lmTTL :: int
  lmSubs :: "(string, (nat, lockEvent list) gomap) gomap"

definition newLockManager :: lockManager where
  "newLockManager = \<lparr>lmLocks = [], lmTTL = lockTTL, lmSubs = []\<rparr>"

definition lock_acquire ::
  "gotime \<Rightarrow> string \<Rightarrow> string \<Rightarrow> string \<Rightarrow> string \<Rightarrow> role \<Rightarrow> lockManager \<Rightarrow> (sectionLock \<times> bool) \<times> lockManager" where
  "lock_acquire now reportID section userID username role m =
     (let key = (reportID, section);
          existing = gm_lookup (lmLocks m) key;
          fresh = (\<lambda>acquiredAt.
            \<lparr>slReportID = reportID, slSection = section, slUserID = userID, slUsername = username, slRole = role,
             slAcquiredAt = acquiredAt, slRenewedAt = now\<rparr>);
          grant = (\<lambda>l. ((l, True), m\<lparr>lmLocks := gm_update key l (lmLocks m)\<rparr>))
      in case existing of
           None \<Rightarrow> grant (fresh now)
         | Some e \<Rightarrow>
             if slUserID e \<noteq> userID \<and> \<not> lock_expired now (lmTTL m) e then ((e, False), m)
             else grant (fresh (if slUserID e = userID then slAcquiredAt e else now)))"

definition lock_release :: "string \<Rightarrow> string \<Rightarrow> string \<Rightarrow> lockManager \<Rightarrow> (sectionLock \<times> bool) \<times> lockManager" where
  "lock_release reportID section userID m =
     (case gm_lookup (lmLocks m) (reportID, section) of
        None \<Rightarrow> ((zero_lock, False), m)
      | Some e \<Rightarrow>
          if slUserID e \<noteq> userID then ((zero_lock, False), m)
          else ((e, True), m\<lparr>lmLocks := gm_delete (reportID, section) (lmLocks m)\<rparr>))"

definition lock_forceRelease :: "string \<Rightarrow> string \<Rightarrow> lockManager \<Rightarrow> (sectionLock \<times> bool) \<times> lockManager" where
  "lock_forceRelease reportID section m =
     (case gm_lookup (lmLocks m) (reportID, section) of
        None \<Rightarrow> ((zero_lock, False), m)
      | Some e \<Rightarrow> ((e, True), m\<lparr>lmLocks := gm_delete (reportID, section) (lmLocks m)\<rparr>))"

definition lock_holder :: "gotime \<Rightarrow> string \<Rightarrow> string \<Rightarrow> lockManager \<Rightarrow> sectionLock \<times> bool" where
  "lock_holder now reportID section m =
     (case gm_lookup (lmLocks m) (reportID, section) of
        None \<Rightarrow> (zero_lock, False)
      | Some e \<Rightarrow> if lock_expired now (lmTTL m) e then (zero_lock, False) else (e, True))"

text \<open>Sections of one report are distinct, so every sort gives the same list.\<close>

definition lock_snapshot :: "gotime \<Rightarrow> string \<Rightarrow> lockManager \<Rightarrow> sectionLock list" where
  "lock_snapshot now reportID m =
     sort_key slSection
       (map snd (filter (\<lambda>(k, l). \<not> (fst k \<noteq> reportID \<or> lock_expired now (lmTTL m) l)) (lmLocks m)))"

text \<open>\<open>iter\<close> is the order in which Go ranges over the map.\<close>

definition lock_sweep ::
  "(sectionLock list \<Rightarrow> sectionLock list) \<Rightarrow> gotime \<Rightarrow> lockManager \<Rightarrow> sectionLock list \<times> lockManager" where
  "lock_sweep iter now m =
     (iter (map snd (filter (\<lambda>(k, l). lock_expired now (lmTTL m) l) (lmLocks m))),
      m\<lparr>lmLocks := filter (\<lambda>(k, l). \<not> lock_expired now (lmTTL m) l) (lmLocks m)\<rparr>)"

section \<open>Subscribers\<close>

definition channelCapacity :: nat where "channelCapacity = 16"

definition subs_of :: "string \<Rightarrow> lockManager \<Rightarrow> (nat, lockEvent list) gomap" where
  "subs_of reportID m = gm_list (lmSubs m) reportID"

definition lock_subscribe :: "nat \<Rightarrow> string \<Rightarrow> lockManager \<Rightarrow> lockManager" where
  "lock_subscribe ch reportID m =
     m\<lparr>lmSubs := gm_update reportID (gm_update ch [] (subs_of reportID m)) (lmSubs m)\<rparr>"

definition lock_cancel :: "nat \<Rightarrow> string \<Rightarrow> lockManager \<Rightarrow> lockManager" where
  "lock_cancel ch reportID m =
     (let chs = gm_delete ch (subs_of reportID m) in
      m\<lparr>lmSubs := (if chs = [] then gm_delete reportID (lmSubs m) else gm_update reportID chs (lmSubs m))\<rparr>)"

text \<open>A full channel drops the event.\<close>

definition lock_broadcast :: "string \<Rightarrow> lockEvent \<Rightarrow> lockManager \<Rightarrow> lockManager" where
  "lock_broadcast reportID ev m =
     (case gm_lookup (lmSubs m) reportID of
        None \<Rightarrow> m
      | Some chs \<Rightarrow>
          m\<lparr>lmSubs := gm_update reportID
              (map (\<lambda>(ch, evs). (ch, if length evs < channelCapacity then evs @ [ev] else evs)) chs) (lmSubs m)\<rparr>)"

text \<open>The receiving end of \<open>handleLockStream\<close> takes the oldest event.\<close>

definition lock_receive :: "nat \<Rightarrow> string \<Rightarrow> lockManager \<Rightarrow> (lockEvent \<times> lockManager) option" where
  "lock_receive ch reportID m =
     (case gm_list (subs_of reportID m) ch of
        [] \<Rightarrow> None
      | ev # evs \<Rightarrow> Some (ev, m\<lparr>lmSubs := gm_update reportID (gm_update ch evs (subs_of reportID m)) (lmSubs m)\<rparr>))"

section \<open>Views\<close>

record lockView =
  lvSection :: string
  lvUserID :: string
  lvUsername :: string
  lvRole :: role
  lvAcquiredAt :: gotime
  lvExpiresAt :: gotime

definition toLockView :: "sectionLock \<Rightarrow> lockView" where
  "toLockView l = \<lparr>lvSection = slSection l, lvUserID = slUserID l, lvUsername = slUsername l, lvRole = slRole l,
     lvAcquiredAt = slAcquiredAt l, lvExpiresAt = slRenewedAt l + lockTTL\<rparr>"

definition broadcastLock :: "string \<Rightarrow> lockEventType \<Rightarrow> sectionLock \<Rightarrow> lockManager \<Rightarrow> lockManager" where
  "broadcastLock reportID ty l m = lock_broadcast reportID \<lparr>leType = ty, leLock = l\<rparr> m"

definition sweepExpiredLocks ::
  "(sectionLock list \<Rightarrow> sectionLock list) \<Rightarrow> gotime \<Rightarrow> lockManager \<Rightarrow> lockManager" where
  "sweepExpiredLocks iter now m =
     (case lock_sweep iter now m of (expired, m) \<Rightarrow> fold (\<lambda>l. broadcastLock (slReportID l) Unlocked l) expired m)"

section \<open>The lock contract\<close>

definition locks_wf :: "lockManager \<Rightarrow> bool" where
  "locks_wf m \<longleftrightarrow> gm_wf (lmLocks m) \<and>
     (\<forall>k l. gm_lookup (lmLocks m) k = Some l \<longrightarrow> k = (slReportID l, slSection l)) \<and>
     (\<forall>r chs ch evs. gm_lookup (lmSubs m) r = Some chs \<longrightarrow> (ch, evs) \<in> set chs \<longrightarrow> length evs \<le> channelCapacity)"

text \<open>\<open>holds now u k m\<close>: user \<open>u\<close> holds the lock \<open>k\<close> at time \<open>now\<close>.\<close>

definition holds :: "gotime \<Rightarrow> string \<Rightarrow> lockKey \<Rightarrow> lockManager \<Rightarrow> bool" where
  "holds now u k m \<longleftrightarrow> (\<exists>l. gm_lookup (lmLocks m) k = Some l \<and> slUserID l = u \<and> \<not> lock_expired now (lmTTL m) l)"

lemma holder_holds: "lock_holder now r s m = (l, True) \<Longrightarrow> holds now (slUserID l) (r, s) m"
  by (auto simp: lock_holder_def holds_def split: option.splits if_splits)

lemma holds_unique: "holds now u k m \<Longrightarrow> holds now v k m \<Longrightarrow> u = v"
  by (auto simp: holds_def)

lemma acquire_granted:
  assumes "lock_acquire now r s u n ro m = ((l, True), m')" and "0 \<le> lmTTL m"
  shows "holds now u (r, s) m'" and "slUserID l = u" and "slRenewedAt l = now" and "lmTTL m' = lmTTL m"
    and "gm_lookup (lmLocks m') k = (if k = (r, s) then Some l else gm_lookup (lmLocks m) k)"
    and "lmSubs m' = lmSubs m"
  using assms by (auto simp: lock_acquire_def Let_def holds_def lock_expired_def split: option.splits if_splits)

lemma acquire_refused_iff:
  "snd (fst (lock_acquire now r s u n ro m)) \<longleftrightarrow> \<not> (\<exists>v. v \<noteq> u \<and> holds now v (r, s) m)"
  by (auto simp: lock_acquire_def Let_def holds_def split: option.split)

lemma acquire_refused_same:
  "\<not> snd (fst (lock_acquire now r s u n ro m)) \<Longrightarrow> snd (lock_acquire now r s u n ro m) = m"
  by (auto simp: lock_acquire_def Let_def split: option.splits if_splits)

text \<open>Whoever holds a lock still holds it after any other user's request for any section.\<close>

lemma acquire_keeps_holder:
  assumes "holds now v k m" and "0 \<le> lmTTL m"
  shows "holds now v k (snd (lock_acquire now r s u n ro m))"
proof (cases "snd (fst (lock_acquire now r s u n ro m))")
  case True
  then obtain l m' where a: "lock_acquire now r s u n ro m = ((l, True), m')"
    by (cases "lock_acquire now r s u n ro m") (auto simp: prod_eq_iff)
  have "k = (r, s) \<Longrightarrow> v = u" using True assms(1) by (auto simp: acquire_refused_iff)
  with a assms acquire_granted[OF a assms(2)] show ?thesis
    by (cases "k = (r, s)") (auto simp: holds_def)
next
  case False
  then show ?thesis using assms(1) by (simp add: acquire_refused_same)
qed

lemma release_keeps_holder:
  "holds now v k m \<Longrightarrow> v \<noteq> u \<Longrightarrow> holds now v k (snd (lock_release r s u m))"
  by (auto simp: holds_def lock_release_def split: option.split)

lemma release_ends: "gm_lookup (lmLocks m) (r, s) = Some l \<Longrightarrow> slUserID l = u \<Longrightarrow>
    gm_lookup (lmLocks (snd (lock_release r s u m))) (r, s) = None"
  by (simp add: lock_release_def)

lemma renewal_keeps_acquired:
  assumes "gm_lookup (lmLocks m) (r, s) = Some l0" and "slUserID l0 = u"
  shows "\<exists>l. fst (lock_acquire now r s u n ro m) = (l, True) \<and> slAcquiredAt l = slAcquiredAt l0 \<and> slRenewedAt l = now"
  using assms by (simp add: lock_acquire_def Let_def)

lemma map_of_filter:
  "distinct (map fst xs) \<Longrightarrow> map_of (filter (\<lambda>(k, l). P l) xs) k =
    (case map_of xs k of Some l \<Rightarrow> if P l then Some l else None | None \<Rightarrow> None)"
  by (induction xs) (auto split: option.splits simp: map_of_eq_None_iff[symmetric] dest: map_of_SomeD
      intro!: map_of_eq_None_iff[THEN iffD2])

lemma sweep_sel [simp]: "lmTTL (snd (lock_sweep iter now m)) = lmTTL m" "lmSubs (snd (lock_sweep iter now m)) = lmSubs m"
  by (simp_all add: lock_sweep_def)

lemma sweep_lookup:
  assumes "gm_wf (lmLocks m)"
  shows "gm_lookup (lmLocks (snd (lock_sweep iter now m))) k =
    (case gm_lookup (lmLocks m) k of Some l \<Rightarrow> if lock_expired now (lmTTL m) l then None else Some l | None \<Rightarrow> None)"
  using map_of_filter[OF gm_wf_distinct[OF assms], of "\<lambda>l. \<not> lock_expired now (lmTTL m) l"]
  by (auto simp: lock_sweep_def split: option.split)

lemma sweep_keeps_holder:
  "gm_wf (lmLocks m) \<Longrightarrow> holds now u k (snd (lock_sweep iter now m)) \<longleftrightarrow> holds now u k m"
  by (auto simp: holds_def sweep_lookup split: option.splits if_splits)

lemma sweep_returns:
  assumes "gm_wf (lmLocks m)" and "\<And>xs. set (iter xs) = set xs"
  shows "l \<in> set (fst (lock_sweep iter now m)) \<longleftrightarrow>
    (\<exists>k. gm_lookup (lmLocks m) k = Some l \<and> lock_expired now (lmTTL m) l)"
  using gm_wf_distinct[OF assms(1)] by (force simp: lock_sweep_def assms(2))

lemma snapshot_set:
  assumes "locks_wf m"
  shows "l \<in> set (lock_snapshot now r m) \<longleftrightarrow>
    gm_lookup (lmLocks m) (r, slSection l) = Some l \<and> \<not> lock_expired now (lmTTL m) l"
proof -
  have d: "distinct (map fst (lmLocks m))" using assms by (simp add: locks_wf_def gm_wf_distinct)
  have k: "k = (slReportID l, slSection l)" if "(k, l) \<in> set (lmLocks m)" for k l
    using assms d that by (cases k) (auto simp: locks_wf_def)
  have "l \<in> set (lock_snapshot now r m) \<longleftrightarrow>
      (\<exists>b. ((r, b), l) \<in> set (lmLocks m)) \<and> \<not> lock_expired now (lmTTL m) l"
    by (force simp: lock_snapshot_def)
  moreover have "(\<exists>b. ((r, b), l) \<in> set (lmLocks m)) \<longleftrightarrow> ((r, slSection l), l) \<in> set (lmLocks m)"
    using k by blast
  ultimately show ?thesis using d by simp
qed

text \<open>Every operation keeps the manager well formed.\<close>

lemma locks_wf_new: "locks_wf newLockManager"
  by (simp add: locks_wf_def newLockManager_def)

lemma locks_wf_acquire: "locks_wf m \<Longrightarrow> locks_wf (snd (lock_acquire now r s u n ro m))"
  by (auto simp: locks_wf_def lock_acquire_def Let_def split: option.split)

lemma locks_wf_release: "locks_wf m \<Longrightarrow> locks_wf (snd (lock_release r s u m))"
  by (auto simp: locks_wf_def lock_release_def split: option.split)

lemma locks_wf_forceRelease: "locks_wf m \<Longrightarrow> locks_wf (snd (lock_forceRelease r s m))"
  by (auto simp: locks_wf_def lock_forceRelease_def split: option.split)

lemma gm_wf_filter: "gm_wf m \<Longrightarrow> gm_wf (filter P m)"
  by (induction m) (auto simp: gm_wf_def)

lemma sweep_wf: "gm_wf (lmLocks m) \<Longrightarrow> gm_wf (lmLocks (snd (lock_sweep iter now m)))"
  by (simp add: lock_sweep_def gm_wf_filter)

lemma locks_wf_sweep: "locks_wf m \<Longrightarrow> locks_wf (snd (lock_sweep iter now m))"
  unfolding locks_wf_def
  by (auto simp: sweep_lookup sweep_wf split: option.splits if_splits)

lemma in_gm_update: "(k', v') \<in> set (gm_update k v m) \<Longrightarrow> (k', v') = (k, v) \<or> (k', v') \<in> set m"
  by (induction k v m rule: gm_update.induct) (auto split: if_splits)

lemma locks_wf_broadcast: "locks_wf m \<Longrightarrow> locks_wf (broadcastLock r ty l m)"
  unfolding broadcastLock_def lock_broadcast_def locks_wf_def
  by (auto split: option.split) fastforce?

lemma locks_wf_sweepExpired: "locks_wf m \<Longrightarrow> locks_wf (sweepExpiredLocks iter now m)"
proof -
  have "locks_wf (fold (\<lambda>l. broadcastLock (slReportID l) Unlocked l) ls m')" if "locks_wf m'" for ls m'
    using that by (induction ls arbitrary: m') (auto simp: locks_wf_broadcast)
  then show "locks_wf m \<Longrightarrow> ?thesis"
    using locks_wf_sweep[of m iter now] by (auto simp: sweepExpiredLocks_def split: prod.split)
qed

lemma broadcast_locks [simp]:
  "lmLocks (broadcastLock r ty l m) = lmLocks m" "lmTTL (broadcastLock r ty l m) = lmTTL m"
  by (simp_all add: broadcastLock_def lock_broadcast_def split: option.split)

text \<open>A subscriber with room receives the event last, after what it had buffered.\<close>

lemma gm_list_map_snd: "gm_list (map (\<lambda>(k, v). (k, f v)) m) k = (if k \<in> fst ` set m then f (gm_list m k) else [])"
  by (induction m) (auto simp: gm_list_def)

lemma broadcast_delivers:
  assumes "ch \<in> fst ` set (subs_of r m)" and "length (gm_list (subs_of r m) ch) < channelCapacity"
  shows "gm_list (subs_of r (lock_broadcast r ev m)) ch = gm_list (subs_of r m) ch @ [ev]"
proof -
  obtain chs where "gm_lookup (lmSubs m) r = Some chs" "subs_of r m = chs"
    using assms(1) by (cases "gm_lookup (lmSubs m) r") (auto simp: subs_of_def gm_list_def)
  with assms show ?thesis
    by (simp add: lock_broadcast_def subs_of_def gm_list_map_snd)
qed

end
