(* ===== verification/VesselReports.thy ===== *)
theory VesselReports
  imports ConfigWire Locks
begin

text \<open>
  The report handlers of \<open>vessel/httpapi\<close>: \<open>reports.go\<close>, \<open>findings.go\<close>, \<open>chat.go\<close> and the lock endpoints of
  \<open>presence.go\<close>, with cascade revalidation as the vessel runs it.  A handler that writes holds \<open>writeMu\<close> from reading the
  report to its last write, so it is one step.

  \<open>env\<close> gathers what a request takes from outside: the clock (read once), the session cookie, the identifiers
  generated for new reports and messages and, by sequence number, for outbox items, the order in which ties are sorted and maps are ranged
  over, and the loader of the embedded schemas.

  Lemmas: a cascade pass runs to completion, records exactly what \<open>Revalidate\<close> reports and is its own fixed point; every
  handler keeps the store well formed and leaves the data of committed versions alone; only the latest version of a
  report is ever editable; what submission, deletion and correction require.
\<close>

record env =
  envNow :: gotime
  envCookie :: "string option"
  envReportID :: "string option"
  envChatID :: "string option"
  envUUID :: "int \<Rightarrow> string option"
  envSorter :: slice_sorter
  envIter :: "(string \<times> json) list \<Rightarrow> (string \<times> json) list"
  envLoad :: "string \<Rightarrow> schema option"

record server =
  srvAccounts :: userServer
  srvStore :: store
  srvLocks :: lockManager

datatype report_error =
    EUser user_error
  | EStore store_error
  | EDomain domain_error
  | ESchema string
  | EMessage message
  | ELockConflict message lockView
  | EPanic

type_synonym 'a server_step = "(report_error failure + 'a) \<times> server"
type_synonym 'a report_handled = "(report_error, 'a, server) handled"

section \<open>Frames\<close>

text \<open>\<open>requireStore\<close> and \<open>authenticatedUser\<close>, in this order.\<close>

definition signed_in :: "env \<Rightarrow> server \<Rightarrow> user server_step" where
  "signed_in env s =
     (case andthen (requireStore (srvAccounts s)) (\<lambda>_ sv. authenticatedUser (envNow env) (envCookie env) sv) of
        (res, sv) \<Rightarrow>
          (case res of Inl (c, m) \<Rightarrow> Inl (c, map_http_message EUser m) | Inr u \<Rightarrow> Inr u, s\<lparr>srvAccounts := sv\<rparr>))"

definition super_admin :: "env \<Rightarrow> server \<Rightarrow> unit server_step" where
  "super_admin env s =
     (case requireSuperAdmin (envNow env) (envCookie env) (srvAccounts s) of
        (res, sv) \<Rightarrow>
          (case res of Inl (c, m) \<Rightarrow> Inl (c, map_http_message EUser m) | Inr _ \<Rightarrow> Inr (), s\<lparr>srvAccounts := sv\<rparr>))"

text \<open>Work on the store whose error is answered as an internal one; what was written before the error stays.\<close>

definition in_store :: "(store_error + 'v) \<times> store \<Rightarrow> server \<Rightarrow> ('v \<Rightarrow> server \<Rightarrow> 'a server_step) \<Rightarrow> 'a server_step" where
  "in_store r s k =
     (case r of
        (Inl e, st) \<Rightarrow> writeErrorText StatusInternalServerError (EStore e) (s\<lparr>srvStore := st\<rparr>)
      | (Inr v, st) \<Rightarrow> k v (s\<lparr>srvStore := st\<rparr>))"

definition with_latest :: "string \<Rightarrow> server \<Rightarrow> (report \<Rightarrow> 'a server_step) \<Rightarrow> 'a server_step" where
  "with_latest reportID s k =
     (case getLatestVersion reportID (srvStore s) of
        Inl e \<Rightarrow>
          if e = ErrNotFound then writeError StatusNotFound ''report not found'' s
          else writeErrorText StatusInternalServerError (EStore e) s
      | Inr r \<Rightarrow> k r)"

definition loadEditableReport :: "string \<Rightarrow> server \<Rightarrow> (report \<Rightarrow> 'a server_step) \<Rightarrow> 'a server_step" where
  "loadEditableReport reportID s k =
     with_latest reportID s (\<lambda>r.
       if State r \<noteq> StateDraft \<and> State r \<noteq> StateReady then
         writeErrorText StatusConflict
           (EMessage (Sprintf ''report is %s and locked; start a correction to edit it'' [AString (state_text (State r))])) s
       else k r)"

section \<open>Views\<close>

record reportView =
  rvReportID :: string
  rvVersionNo :: int
  rvSchemaName :: string
  rvEventType :: string
  rvEventTime :: gotime
  rvFields :: fields
  rvState :: state
  rvInvalidatedFrom :: state
  rvInvalidatedRules :: "string list"
  rvCreatedAt :: gotime
  rvCreatedBy :: string
  rvUpdatedAt :: gotime
  rvSubmittedAt :: "gotime option"
  rvSubmittedBy :: string

definition toReportView :: "report \<Rightarrow> reportView" where
  "toReportView r =
     \<lparr>rvReportID = ReportID r, rvVersionNo = VersionNo r, rvSchemaName = SchemaName r, rvEventType = EventType r,
      rvEventTime = EventTime r, rvFields = Fields r, rvState = State r, rvInvalidatedFrom = InvalidatedFrom r,
      rvInvalidatedRules = InvalidatedRules r, rvCreatedAt = CreatedAt r, rvCreatedBy = CreatedBy r,
      rvUpdatedAt = UpdatedAt r,
      rvSubmittedAt = (if is_zero (SubmittedAt r) then None else Some (SubmittedAt r)),
      rvSubmittedBy = SubmittedBy r\<rparr>"

record findingView =
  fvRuleID :: string
  fvSeverity :: severity
  fvField :: string
  fvMessage :: message

definition toFindingViews :: "findings \<Rightarrow> findingView list" where
  "toFindingViews fs =
     map (\<lambda>f. \<lparr>fvRuleID = RuleID f, fvSeverity = Severity f, fvField = Field f, fvMessage = Message f\<rparr>) fs"

record eventView =
  ewVersionNo :: int
  ewType :: event_type
  ewAt :: gotime
  ewActor :: string
  ewDetail :: fields

definition toEventViews :: "event list \<Rightarrow> eventView list" where
  "toEventViews es =
     map (\<lambda>e. \<lparr>ewVersionNo = evVersionNo e, ewType = evType e, ewAt = evAt e, ewActor = evActor e,
               ewDetail = evDetail e\<rparr>) es"

record profileReadinessView =
  pvProfile :: profile
  pvReady :: bool
  pvMissingFields :: "string list"

definition toProfileReadinessViews :: "profileReadiness list \<Rightarrow> profileReadinessView list" where
  "toProfileReadinessViews ps =
     map (\<lambda>p. \<lparr>pvProfile = Profile p, pvReady = ready p, pvMissingFields = MissingFields p\<rparr>) ps"

record continuityImpactView =
  civReportID :: string
  civEventType :: string
  civEventTime :: gotime
  civInvalidatedRules :: "string list"

record checkResponse =
  crReport :: reportView
  crFindings :: "findingView list"
  crRegulatoryReadiness :: "profileReadinessView list"
  crContinuityImpact :: "continuityImpactView list"

section \<open>Rules over the stored chain\<close>

definition evaluateReport ::
  "env \<Rightarrow> store \<Rightarrow> report \<Rightarrow> report_error + (findings \<times> schema \<times> fieldPolicy \<times> fieldEvents)" where
  "evaluateReport env st r =
     (case envLoad env (SchemaName r) of
        None \<Rightarrow> Inl (ESchema (SchemaName r))
      | Some sch \<Rightarrow>
          (let applied = appliedBundle (envSorter env) (Some st)
           in case fieldConfigFromBundle applied (SchemaName r) of (rawPolicy, events, _) \<Rightarrow>
                let policy = toFieldPolicy rawPolicy;
                    cfg = validationConfigFromBundle applied (SchemaName r);
                    vr = toValidation r;
                    vchain = map toValidation (listCommittedChain (envSorter env) (SchemaName r) st);
                    findings = evaluateFieldRules vr sch policy events @
                      evaluatePlausibilityRules vr (Some cfg) None @
                      evaluateContinuity vr vchain (Some cfg)
                in Inr (findings, sch, policy, events)))"

definition enqueue_version :: "env \<Rightarrow> report \<Rightarrow> store \<Rightarrow> store_error + (outboxItem \<times> store)" where
  "enqueue_version env r st =
     enqueueReportVersion (envUUID env (vsOutboxNext st)) (envNow env) (ReportID r) (VersionNo r) st"

definition enqueue_audit :: "env \<Rightarrow> report \<Rightarrow> int \<Rightarrow> store \<Rightarrow> store_error + (outboxItem \<times> store)" where
  "enqueue_audit env r eventID st =
     enqueueReportAuditEvent (envUUID env (vsOutboxNext st)) (envNow env) (ReportID r) (VersionNo r) eventID st"

text \<open>Append an audit event and queue it for the office.\<close>

definition record_event :: "env \<Rightarrow> report \<Rightarrow> event \<Rightarrow> store \<Rightarrow> (store_error + unit) \<times> store" where
  "record_event env r event st =
     attempt_val st (appendEvent event st) (\<lambda>eventID st.
     attempt_val st (enqueue_audit env r eventID st) (\<lambda>_ st. (Inr (), st)))"

text \<open>A version the office knows is queued again with its event.\<close>

definition cascade_event :: "env \<Rightarrow> report \<Rightarrow> event \<Rightarrow> store \<Rightarrow> (store_error + unit) \<times> store" where
  "cascade_event env r event st =
     attempt_val st (appendEvent event st) (\<lambda>eventID st.
       if InvalidatedFrom r \<noteq> StateDraft \<and> InvalidatedFrom r \<noteq> StateReady then
         attempt_val st (enqueue_version env r st) (\<lambda>_ st.
         attempt_val st (enqueue_audit env r eventID st) (\<lambda>_ st. (Inr (), st)))
       else (Inr (), st))"

text \<open>One report of the chain in \<open>runCascade\<close>.\<close>

definition cascade_step :: "env \<Rightarrow> cascadeResult \<Rightarrow> report \<Rightarrow> store \<Rightarrow> (store_error + unit) \<times> store" where
  "cascade_step env result r st =
     (case gm_lookup result (ReportID r) of
        None \<Rightarrow> (Inr (), st)
      | Some rules \<Rightarrow>
          if State r = StateInvalidated \<and> InvalidatedRules r = rules then (Inr (), st)
          else case invalidate rules (envNow env) r of (r, event) \<Rightarrow>
            attempt st (saveReport r st) (cascade_event env r event))"

definition cascade_result :: "env \<Rightarrow> string \<Rightarrow> store \<Rightarrow> cascadeResult" where
  "cascade_result env sname st =
     revalidate (envSorter env) (map toValidation (listCommittedChain (envSorter env) sname st))
       (Some (validationConfigFromBundle (appliedBundle (envSorter env) (Some st)) sname))"

definition runCascade :: "env \<Rightarrow> string \<Rightarrow> store \<Rightarrow> (store_error + unit) \<times> store" where
  "runCascade env sname st =
     for_each (cascade_step env (cascade_result env sname st))
       (listCommittedChain (envSorter env) sname st) st"

definition continuityImpact :: "env \<Rightarrow> store \<Rightarrow> report \<Rightarrow> continuityImpactView list" where
  "continuityImpact env st r =
     map (\<lambda>other. \<lparr>civReportID = ReportID other, civEventType = EventType other, civEventTime = EventTime other,
                   civInvalidatedRules = InvalidatedRules other\<rparr>)
       (filter (\<lambda>other. \<not> (ReportID other = ReportID r \<or> State other \<noteq> StateInvalidated))
         (listChain (envSorter env) (SchemaName r) st))"

text \<open>\<open>sectionByField\<close>: of fields with the same name the last one counts.\<close>

definition section_by_field :: "schema \<Rightarrow> (string, string) gomap" where
  "section_by_field sch = fold (\<lambda>f. gm_update (fieldName f) (fieldSection f)) (schemaFields sch) []"

fun lock_conflict_loop ::
  "(string, string) gomap \<Rightarrow> (string \<Rightarrow> sectionLock \<times> bool) \<Rightarrow> string \<Rightarrow> string list \<Rightarrow> string list
   \<Rightarrow> sectionLock option" where
  "lock_conflict_loop sections holder callerID checked [] = None"
| "lock_conflict_loop sections holder callerID checked (fld # flds) =
     (case gm_lookup sections fld of
        None \<Rightarrow> lock_conflict_loop sections holder callerID checked flds
      | Some sec \<Rightarrow>
          if sec \<in> set checked then lock_conflict_loop sections holder callerID checked flds
          else case holder sec of (l, ok) \<Rightarrow>
            if ok \<and> slUserID l \<noteq> callerID then Some l
            else lock_conflict_loop sections holder callerID (sec # checked) flds)"

definition lockConflict :: "env \<Rightarrow> lockManager \<Rightarrow> report \<Rightarrow> (string \<times> json) list \<Rightarrow> string \<Rightarrow> sectionLock option" where
  "lockConflict env m r changes callerID =
     (case envLoad env (SchemaName r) of
        None \<Rightarrow> None
      | Some sch \<Rightarrow>
          lock_conflict_loop (section_by_field sch) (\<lambda>sec. lock_holder (envNow env) (ReportID r) sec m) callerID []
            (map fst (envIter env changes)))"

section \<open>Handlers that change reports\<close>

record createReportRequest =
  crrSchemaName :: string
  crrEventType :: string
  crrEventTime :: gotime
  crrFields :: fields

text \<open>The cascade at the end of a handler and the report read again for the response.\<close>

definition cascade_and_reply :: "env \<Rightarrow> report \<Rightarrow> int \<Rightarrow> server \<Rightarrow> reportView report_handled" where
  "cascade_and_reply env r status s =
     in_store (runCascade env (SchemaName r) (srvStore s)) s (\<lambda>_ s.
       case getLatestVersion (ReportID r) (srvStore s) of
         Inl e \<Rightarrow> writeErrorText StatusInternalServerError (EStore e) s
       | Inr r \<Rightarrow> writeJSON status (toReportView r) s)"

definition save_and_record :: "env \<Rightarrow> report \<Rightarrow> event \<Rightarrow> store \<Rightarrow> (store_error + unit) \<times> store" where
  "save_and_record env r event st = attempt st (saveReport r st) (record_event env r event)"

definition handleCreateReport :: "env \<Rightarrow> createReportRequest option \<Rightarrow> server \<Rightarrow> reportView report_handled" where
  "handleCreateReport env body s =
     andthen (signed_in env s) (\<lambda>user s.
     decode body s (\<lambda>req.
     guard (crrSchemaName req = '''') StatusBadRequest ''schemaName is required'' s (\<lambda>s.
       case newReport (envReportID env) (envNow env) (crrSchemaName req) (crrEventType req) (crrEventTime req)
              (crrFields req) (uUsername user) of
         Inl e \<Rightarrow> writeErrorText StatusInternalServerError (EDomain e) s
       | Inr (r, event) \<Rightarrow>
           in_store (save_and_record env r event (srvStore s)) s (\<lambda>_ s.
           cascade_and_reply env r StatusCreated s))))"

definition handleDeleteReport :: "env \<Rightarrow> string \<Rightarrow> server \<Rightarrow> unit report_handled" where
  "handleDeleteReport env reportID s =
     andthen (signed_in env s) (\<lambda>user s.
     loadEditableReport reportID s (\<lambda>r.
     guard (VersionNo r \<noteq> 1) StatusConflict ''report has a prior submitted version and cannot be deleted'' s (\<lambda>s.
       case List.find (\<lambda>l. slUserID l \<noteq> uID user) (lock_snapshot (envNow env) reportID (srvLocks s)) of
         Some l \<Rightarrow>
           writeErrorText StatusConflict
             (EMessage (Sprintf ''section %q is locked by %s'' [AString (slSection l), AString (slUsername l)])) s
       | None \<Rightarrow>
           (case deleteReport (envNow env) reportID (uUsername user) (srvStore s) of
              Inl e \<Rightarrow> writeErrorText StatusInternalServerError (EStore e) s
            | Inr st \<Rightarrow>
                in_store (runCascade env (SchemaName r) st) s (\<lambda>_ s. writeJSON StatusOK () s)))))"

record saveSectionRequest =
  ssrSection :: string
  ssrChanges :: "(string \<times> json) list"

definition lock_conflict_error :: "sectionLock \<Rightarrow> report_error" where
  "lock_conflict_error l =
     ELockConflict (Sprintf ''section %q is locked by %s'' [AString (slSection l), AString (slUsername l)]) (toLockView l)"

text \<open>A panic ends the connection without a response: status 0.\<close>

definition aborted :: "server \<Rightarrow> 'a server_step" where
  "aborted s = writeErrorText 0 EPanic s"

definition handleSaveSection :: "env \<Rightarrow> string \<Rightarrow> saveSectionRequest option \<Rightarrow> server \<Rightarrow> reportView report_handled" where
  "handleSaveSection env reportID body s =
     andthen (signed_in env s) (\<lambda>user s.
     decode body s (\<lambda>req.
     loadEditableReport reportID s (\<lambda>r.
       case lockConflict env (srvLocks s) r (ssrChanges req) (uID user) of
         Some l \<Rightarrow> writeErrorText StatusConflict (lock_conflict_error l) s
       | None \<Rightarrow>
           (case saveSection (envNow env) (ssrSection req) (ssrChanges req) (uUsername user) r of
              None \<Rightarrow> aborted s
            | Some (r, event) \<Rightarrow>
                in_store (save_and_record env r event (srvStore s)) s (\<lambda>_ s.
                cascade_and_reply env r StatusOK s)))))"

definition handleValidateReport :: "env \<Rightarrow> string \<Rightarrow> fields option \<Rightarrow> server \<Rightarrow> findingView list report_handled" where
  "handleValidateReport env reportID body s =
     andthen (signed_in env s) (\<lambda>_ s.
     decode body s (\<lambda>flds.
     with_latest reportID s (\<lambda>r.
       case evaluateReport env (srvStore s) (r\<lparr>Fields := flds\<rparr>) of
         Inl e \<Rightarrow> writeErrorText StatusInternalServerError e s
       | Inr (findings, _) \<Rightarrow> writeJSON StatusOK (toFindingViews findings) s)))"

definition handleCheckReport :: "env \<Rightarrow> string \<Rightarrow> server \<Rightarrow> checkResponse report_handled" where
  "handleCheckReport env reportID s =
     andthen (signed_in env s) (\<lambda>_ s.
     loadEditableReport reportID s (\<lambda>r.
       case evaluateReport env (srvStore s) r of
         Inl e \<Rightarrow> writeErrorText StatusInternalServerError e s
       | Inr (findings, sch, policy, events) \<Rightarrow>
           (case markReady (envNow env) findings r of (r, event, _) \<Rightarrow>
              in_store (save_and_record env r event (srvStore s)) s (\<lambda>_ s.
                let readiness = evaluateRegulatoryReadiness (toValidation r) (schemaFields sch)
                      (profilesFromBundle (appliedBundle (envSorter env) (Some (srvStore s)))) policy events
                in writeJSON StatusOK
                     \<lparr>crReport = toReportView r, crFindings = toFindingViews findings,
                      crRegulatoryReadiness = toProfileReadinessViews readiness,
                      crContinuityImpact = continuityImpact env (srvStore s) r\<rparr> s))))"

definition submit_event :: "env \<Rightarrow> report \<Rightarrow> event \<Rightarrow> store \<Rightarrow> (store_error + unit) \<times> store" where
  "submit_event env r event st =
     attempt_val st (appendEvent event st) (\<lambda>eventID st.
     attempt_val st (enqueue_version env r st) (\<lambda>_ st.
     attempt_val st (enqueue_audit env r eventID st) (\<lambda>_ st. (Inr (), st))))"

definition handleSubmitReport :: "env \<Rightarrow> string \<Rightarrow> server \<Rightarrow> reportView report_handled" where
  "handleSubmitReport env reportID s =
     andthen (signed_in env s) (\<lambda>user s.
     guard (\<not> canSubmitReports user) StatusForbidden ''you do not have permission to submit reports'' s (\<lambda>s.
     with_latest reportID s (\<lambda>r.
       case submit (envNow env) (uUsername user) r of
         Inl e \<Rightarrow> writeErrorText StatusConflict (EDomain e) s
       | Inr (r, event) \<Rightarrow>
           in_store
             (attempt (srvStore s) (saveReport r (srvStore s)) (submit_event env r event)) s (\<lambda>_ s.
           cascade_and_reply env r StatusOK s))))"

definition handleStartCorrection :: "env \<Rightarrow> string \<Rightarrow> server \<Rightarrow> reportView report_handled" where
  "handleStartCorrection env reportID s =
     andthen (signed_in env s) (\<lambda>user s.
     with_latest reportID s (\<lambda>r.
       case newCorrection (envNow env) (uUsername user) r of
         Inl e \<Rightarrow> writeErrorText StatusConflict (EDomain e) s
       | Inr (nxt, event) \<Rightarrow>
           in_store (attempt (srvStore s) (saveReport nxt (srvStore s)) (record_event env r event)) s (\<lambda>_ s.
           writeJSON StatusCreated (toReportView nxt) s)))"

record acknowledgeFindingRequest =
  akRuleID :: string
  akField :: string
  akMessage :: string
  akAcknowledged :: bool

definition handleAcknowledgeFinding ::
  "env \<Rightarrow> string \<Rightarrow> acknowledgeFindingRequest option \<Rightarrow> server \<Rightarrow> bool report_handled" where
  "handleAcknowledgeFinding env reportID body s =
     andthen (signed_in env s) (\<lambda>user s.
     decode body s (\<lambda>req.
     guard (akRuleID req = '''') StatusBadRequest ''ruleId is required'' s (\<lambda>s.
     loadEditableReport reportID s (\<lambda>r.
       let event = \<lparr>evReportID = ReportID r, evVersionNo = VersionNo r, evType = EventFindingAcknowledged,
                    evAt = envNow env, evActor = uUsername user,
                    evDetail = mk_detail [(''ruleId'', JStr (akRuleID req)), (''field'', JStr (akField req)),
                      (''message'', JStr (akMessage req)), (''acknowledged'', JBool (akAcknowledged req))]\<rparr>
       in in_store (record_event env r event (srvStore s)) s (\<lambda>_ s.
            writeJSON StatusCreated (akAcknowledged req) s)))))"

section \<open>Chat\<close>

record chatMessageView =
  cvID :: string
  cvReportID :: string
  cvSender :: string
  cvBody :: string
  cvSentAt :: gotime
  cvDirection :: chatDirection

definition toChatMessageView :: "chatMessage \<Rightarrow> chatMessageView" where
  "toChatMessageView m = \<lparr>cvID = cmID m, cvReportID = cmReportID m, cvSender = cmSender m, cvBody = cmBody m,
     cvSentAt = cmSentAt m, cvDirection = cmDirection m\<rparr>"

definition handlePostChat :: "env \<Rightarrow> string \<Rightarrow> string option \<Rightarrow> server \<Rightarrow> chatMessageView report_handled" where
  "handlePostChat env reportID body s =
     andthen (signed_in env s) (\<lambda>user s.
     with_latest reportID s (\<lambda>_.
     decode body s (\<lambda>txt.
       case newChatMessage (envChatID env) (envNow env) reportID (uUsername user) txt ChatFromVessel of
         Inl e \<Rightarrow> writeErrorText StatusBadRequest (EDomain e) s
       | Inr m \<Rightarrow>
           (let st = insertChatMessage m (srvStore s)
            in in_store
                 (attempt_val st (enqueueChatMessage (envUUID env (vsOutboxNext st)) (envNow env) reportID (cmID m) st)
                   (\<lambda>_ st. (Inr (), st))) s (\<lambda>_ s.
               writeJSON StatusCreated (toChatMessageView m) s)))))"

section \<open>Handlers that read\<close>

definition handleGetReport :: "env \<Rightarrow> string \<Rightarrow> server \<Rightarrow> reportView report_handled" where
  "handleGetReport env reportID s =
     andthen (signed_in env s) (\<lambda>_ s.
     with_latest reportID s (\<lambda>r. writeJSON StatusOK (toReportView r) s))"

definition handleListReportEvents :: "env \<Rightarrow> string \<Rightarrow> server \<Rightarrow> eventView list report_handled" where
  "handleListReportEvents env reportID s =
     andthen (signed_in env s) (\<lambda>_ s.
     with_latest reportID s (\<lambda>_. writeJSON StatusOK (toEventViews (listEvents reportID (srvStore s))) s))"

definition handleListReportVersions :: "env \<Rightarrow> string \<Rightarrow> server \<Rightarrow> reportView list report_handled" where
  "handleListReportVersions env reportID s =
     andthen (signed_in env s) (\<lambda>_ s.
     with_latest reportID s (\<lambda>_. writeJSON StatusOK (map toReportView (listVersions reportID (srvStore s))) s))"

definition handleListReports :: "env \<Rightarrow> string \<Rightarrow> server \<Rightarrow> reportView list report_handled" where
  "handleListReports env sname s =
     andthen (signed_in env s) (\<lambda>_ s.
     guard (sname = '''') StatusBadRequest ''schema query parameter is required'' s (\<lambda>s.
       writeJSON StatusOK (map toReportView (listLatestReports (envSorter env) sname (srvStore s))) s))"

definition handleListChat :: "env \<Rightarrow> string \<Rightarrow> server \<Rightarrow> chatMessageView list report_handled" where
  "handleListChat env reportID s =
     andthen (signed_in env s) (\<lambda>_ s.
     with_latest reportID s (\<lambda>_.
       writeJSON StatusOK (map toChatMessageView (listChatMessages (envSorter env) reportID (srvStore s))) s))"

section \<open>Lock endpoints\<close>

definition handleListLocks :: "env \<Rightarrow> string \<Rightarrow> server \<Rightarrow> lockView list report_handled" where
  "handleListLocks env reportID s =
     andthen (signed_in env s) (\<lambda>_ s.
       writeJSON StatusOK (map toLockView (lock_snapshot (envNow env) reportID (srvLocks s))) s)"

definition handleAcquireLock :: "env \<Rightarrow> string \<Rightarrow> string \<Rightarrow> server \<Rightarrow> lockView report_handled" where
  "handleAcquireLock env reportID sec s =
     andthen (signed_in env s) (\<lambda>user s.
     loadEditableReport reportID s (\<lambda>r.
       case envLoad env (SchemaName r) of
         None \<Rightarrow> writeErrorText StatusInternalServerError (ESchema (SchemaName r)) s
       | Some sch \<Rightarrow>
           if \<not> schemaHasSection sch sec then
             writeErrorText StatusBadRequest
               (EMessage (Sprintf ''section %q is not part of schema %q'' [AString sec, AString (SchemaName r)])) s
           else
             (case lock_acquire (envNow env) reportID sec (uID user) (uUsername user) (uRole user) (srvLocks s) of
                ((l, ok), m) \<Rightarrow>
                  if \<not> ok then writeErrorText StatusConflict
                    (ELockConflict (Sprintf ''section %q is locked by %s'' [AString sec, AString (slUsername l)]) (toLockView l))
                    (s\<lparr>srvLocks := m\<rparr>)
                  else writeJSON StatusOK (toLockView l) (s\<lparr>srvLocks := broadcastLock reportID Locked l m\<rparr>))))"

definition handleReleaseLock :: "env \<Rightarrow> string \<Rightarrow> string \<Rightarrow> server \<Rightarrow> unit report_handled" where
  "handleReleaseLock env reportID sec s =
     andthen (signed_in env s) (\<lambda>user s.
       case lock_release reportID sec (uID user) (srvLocks s) of
         ((l, ok), m) \<Rightarrow>
           writeJSON StatusNoContent () (s\<lparr>srvLocks := (if ok then broadcastLock reportID Unlocked l m else m)\<rparr>))"

definition handleForceReleaseLock :: "env \<Rightarrow> string \<Rightarrow> string \<Rightarrow> server \<Rightarrow> unit report_handled" where
  "handleForceReleaseLock env reportID sec s =
     andthen (super_admin env s) (\<lambda>_ s.
       case lock_forceRelease reportID sec (srvLocks s) of
         ((l, ok), m) \<Rightarrow>
           writeJSON StatusNoContent () (s\<lparr>srvLocks := (if ok then broadcastLock reportID Unlocked l m else m)\<rparr>))"
section \<open>Reports of a well-formed store\<close>

text \<open>
  Versions of a report are numbered from 1 without gaps, and every version that has a successor is committed: only the
  latest version of a report can be a draft.
\<close>

definition committed_at :: "'b vstore \<Rightarrow> string \<times> int \<Rightarrow> bool" where
  "committed_at st k \<longleftrightarrow> (\<exists>q. look_report st k = Some q \<and> inChain (State q))"

definition version_allowed :: "'b vstore \<Rightarrow> string \<Rightarrow> int \<Rightarrow> bool" where
  "version_allowed st i v \<longleftrightarrow> v = 1 \<or> (1 < v \<and> committed_at st (i, v - 1))"

definition versions_ok :: "'b vstore \<Rightarrow> bool" where
  "versions_ok st \<longleftrightarrow> (\<forall>k r. look_report st k = Some r \<longrightarrow> version_allowed st (ReportID r) (VersionNo r))"

definition rows_finite :: "'b vstore \<Rightarrow> bool" where
  "rows_finite st \<longleftrightarrow> (\<forall>r \<in> set (vsReports st). fields_finite (Fields r))"

definition report_ok :: "'b vstore \<Rightarrow> bool" where
  "report_ok st \<longleftrightarrow> store_wf st \<and> versions_ok st \<and> rows_finite st"

definition committed_frozen :: "'b vstore \<Rightarrow> 'b vstore \<Rightarrow> bool" where
  "committed_frozen st st' \<longleftrightarrow>
     (\<forall>k a. look_report st k = Some a \<longrightarrow> inChain (State a) \<longrightarrow>
        (\<exists>b. look_report st' k = Some b \<and> inChain (State b) \<and> same_data a b))"

text \<open>The contract of every write: the invariant is kept and so is the data of committed versions.\<close>

definition vstep :: "'b vstore \<Rightarrow> 'b vstore \<Rightarrow> bool" where
  "vstep st st' \<longleftrightarrow> (report_ok st \<longrightarrow> report_ok st' \<and> committed_frozen st st')"

lemma committed_frozen_refl [simp]: "committed_frozen st st"
  by (auto simp: committed_frozen_def)

lemma same_data_trans: "same_data a b \<Longrightarrow> same_data b c \<Longrightarrow> same_data a c"
  by (auto simp: same_data_def)

lemma committed_frozen_trans:
  assumes "committed_frozen a b" and "committed_frozen b c"
  shows "committed_frozen a c"
  unfolding committed_frozen_def
proof (intro allI impI)
  fix k x assume "look_report a k = Some x" "inChain (State x)"
  then obtain y where y: "look_report b k = Some y" "inChain (State y)" "same_data x y"
    using assms(1) unfolding committed_frozen_def by blast
  then obtain z where "look_report c k = Some z" "inChain (State z)" "same_data y z"
    using assms(2) unfolding committed_frozen_def by blast
  with y(3) show "\<exists>z. look_report c k = Some z \<and> inChain (State z) \<and> same_data x z"
    using same_data_trans by blast
qed

lemma vstep_refl [simp]: "vstep st st"
  by (simp add: vstep_def)

lemma vstep_trans: "vstep a b \<Longrightarrow> vstep b c \<Longrightarrow> vstep a c"
  unfolding vstep_def by (metis committed_frozen_trans)

lemma look_row: "store_wf st \<Longrightarrow> look_report st k = Some r \<longleftrightarrow> r \<in> set (vsReports st) \<and> report_key r = k"
  by (auto simp: look_report_def store_wf_def dest: find_row_SomeD intro: find_row_unique)

lemma look_same: "vsReports st' = vsReports st \<Longrightarrow> look_report st' = look_report st"
  by (rule ext) (simp add: look_report_def)

lemma vstep_same_reports:
  assumes "vsReports st' = vsReports st" and "store_wf st \<Longrightarrow> store_wf st'"
  shows "vstep st st'"
proof -
  have look: "look_report st' = look_report st" using assms(1) by (rule look_same)
  then have "committed_at st' = committed_at st" by (intro ext) (simp add: committed_at_def)
  then have "version_allowed st' = version_allowed st" by (intro ext) (simp add: version_allowed_def)
  with look have "versions_ok st' = versions_ok st" "committed_frozen st st' = committed_frozen st st"
    by (simp_all add: versions_ok_def committed_frozen_def)
  with assms show ?thesis by (simp add: vstep_def report_ok_def rows_finite_def)
qed

lemma versions_okD: "versions_ok st \<Longrightarrow> look_report st k = Some r \<Longrightarrow> version_allowed st (ReportID r) (VersionNo r)"
  unfolding versions_ok_def by blast

lemma committed_frozen_at: "committed_frozen st st' \<Longrightarrow> committed_at st k \<Longrightarrow> committed_at st' k"
  unfolding committed_frozen_def committed_at_def by blast

lemma save_vstep:
  assumes save: "saveReport r st = Inr st'"
    and old: "\<And>old. report_ok st \<Longrightarrow> look_report st (report_key r) = Some old \<Longrightarrow> inChain (State old) \<Longrightarrow> inChain (State r)"
    and new: "report_ok st \<Longrightarrow> look_report st (report_key r) = None \<Longrightarrow> version_allowed st (ReportID r) (VersionNo r)"
  shows "vstep st st'"
  unfolding vstep_def
proof
  assume ok: "report_ok st"
  then have wf: "store_wf st" and vs: "versions_ok st" and fin: "rows_finite st" by (simp_all add: report_ok_def)
  have wf': "store_wf st'" using wf save by (rule store_wf_saveReport)
  have "rows_frozen st st'" using save old[OF ok] by (rule saveReport_frozen)
  then have cf: "committed_frozen st st'"
    by (auto simp: committed_frozen_def dest: rows_frozen_committed)
  have look: "look_report st' k =
      (if k = report_key r then Some (case look_report st k of None \<Rightarrow> r | Some o' \<Rightarrow> upsert_row o' r) else look_report st k)"
    for k using save by (rule report_table.put_look)
  have allowed: "version_allowed st i v \<Longrightarrow> version_allowed st' i v" for i v
    using committed_frozen_at[OF cf] by (auto simp: version_allowed_def)
  have "versions_ok st'"
    unfolding versions_ok_def
  proof (intro allI impI)
    fix k x assume x: "look_report st' k = Some x"
    show "version_allowed st' (ReportID x) (VersionNo x)"
    proof (cases "k = report_key r")
      case True
      then have "report_key x = report_key r"
        using x wf' by (simp add: look_row)
      then have key: "ReportID x = ReportID r" "VersionNo x = VersionNo r" by (simp_all add: report_key_def)
      show ?thesis
      proof (cases "look_report st k")
        case None
        then show ?thesis using new[OF ok] True key by (simp add: allowed)
      next
        case (Some o')
        have "version_allowed st (ReportID o') (VersionNo o')" by (rule versions_okD[OF vs Some])
        moreover have "report_key o' = report_key r" using Some True wf by (simp add: look_row)
        ultimately show ?thesis by (simp add: key allowed report_key_def)
      qed
    next
      case False
      then have "look_report st k = Some x" using x look by simp
      then show ?thesis using versions_okD[OF vs] allowed by blast
    qed
  qed
  moreover have "rows_finite st'"
    using fin save by (auto simp: rows_finite_def saveReport_def upsert_row_def split: if_splits option.splits)
  ultimately show "report_ok st' \<and> committed_frozen st st'" using wf' cf by (simp add: report_ok_def)
qed

lemma getLatest_look: "report_ok st \<Longrightarrow> getLatestVersion i st = Inr r \<Longrightarrow> look_report st (report_key r) = Some r"
  by (simp add: report_ok_def latest_is_row)

lemma getLatest_sel:
  "getLatestVersion i st = Inr r \<Longrightarrow> ReportID r = i"
  "getLatestVersion i st = Inr r \<Longrightarrow> x \<in> set (vsReports st) \<Longrightarrow> ReportID x = i \<Longrightarrow> VersionNo x \<le> VersionNo r"
  by (auto simp: getLatestVersion_Inr dest: latest_version_SomeD)

text \<open>Saving a changed copy of the latest version.\<close>

lemma save_latest_vstep:
  assumes "saveReport r' st = Inr st'" and "getLatestVersion i st = Inr r" and "report_key r' = report_key r"
    and "inChain (State r) \<Longrightarrow> inChain (State r')"
  shows "vstep st st'"
  using assms(1) by (rule save_vstep) (use assms getLatest_look[of st i r] in auto)

lemma earlier_committed:
  assumes "versions_ok st" and "look_report st (i, v) = Some r" and "1 \<le> w" and "w < v"
  shows "committed_at st (i, w)"
proof -
  have key: "look_report st k = Some x \<Longrightarrow> (ReportID x, VersionNo x) = k" for k x
    by (auto simp: look_report_def report_key_def dest: find_row_SomeD)
  have "look_report st (i, v) \<noteq> None \<Longrightarrow> w = v - 1 - int n \<Longrightarrow> 1 \<le> w \<Longrightarrow> committed_at st (i, w)" for n v
  proof (induction n arbitrary: v)
    case 0
    then obtain x where x: "look_report st (i, v) = Some x" by auto
    then have "version_allowed st i v" using versions_okD[OF assms(1) x] key[OF x] by simp
    then show ?case using 0 by (auto simp: version_allowed_def)
  next
    case (Suc n)
    then obtain x where x: "look_report st (i, v) = Some x" by auto
    then have "version_allowed st i v" using versions_okD[OF assms(1) x] key[OF x] by simp
    then have "look_report st (i, v - 1) \<noteq> None" using Suc.prems by (auto simp: version_allowed_def committed_at_def)
    then show ?case using Suc.IH[of "v - 1"] Suc.prems by simp
  qed
  from this[of v "nat (v - 1 - w)"] assms show ?thesis by simp
qed

text \<open>Only the latest version of a report is a draft or ready.\<close>

lemma editable_is_latest:
  assumes "report_ok st" and "look_report st k = Some r" and "\<not> inChain (State r)"
  shows "getLatestVersion (ReportID r) st = Inr r"
proof -
  have wf: "store_wf st" and vs: "versions_ok st" using assms(1) by (simp_all add: report_ok_def)
  have r: "r \<in> set (vsReports st)" "report_key r = k" using assms(2) wf by (simp_all add: look_row)
  then obtain m where m: "getLatestVersion (ReportID r) st = Inr m"
    using getLatestVersion_Inl[of "ReportID r" st] by (cases "getLatestVersion (ReportID r) st") auto
  note m' = getLatest_sel(1)[OF m] getLatest_sel(2)[OF m r(1)]
  have look: "look_report st (ReportID r, VersionNo m) = Some m"
    using getLatest_look[OF assms(1) m] m' by (simp add: report_key_def)
  have "VersionNo r = VersionNo m"
  proof (rule ccontr)
    assume "VersionNo r \<noteq> VersionNo m"
    moreover have "1 \<le> VersionNo r" using versions_okD[OF vs assms(2)] by (auto simp: version_allowed_def)
    ultimately have "committed_at st (ReportID r, VersionNo r)"
      using earlier_committed[OF vs look] m' by simp
    then show False using assms(2,3) r(2) by (auto simp: committed_at_def report_key_def)
  qed
  then have "m = r" using look assms(2) r(2) by (simp add: report_key_def)
  with m show ?thesis by simp
qed

section \<open>Writes of the handlers\<close>

lemma enqueue_rows:
  "enqueue_version env r st = Inr (it, st') \<Longrightarrow> vsReports st' = vsReports st"
  "enqueue_audit env r i st = Inr (it, st') \<Longrightarrow> vsReports st' = vsReports st"
  "enqueueChatMessage uuid now rid cid st = Inr (it, st') \<Longrightarrow> vsReports st' = vsReports st"
  by (auto simp: enqueue_version_def enqueue_audit_def enqueueReportVersion_def enqueueReportAuditEvent_def
      enqueueChatMessage_def dest: enqueue_reports)

lemma enqueue_wf:
  "enqueue_version env r st = Inr (it, st') \<Longrightarrow> store_wf st \<Longrightarrow> store_wf st'"
  "enqueue_audit env r i st = Inr (it, st') \<Longrightarrow> store_wf st \<Longrightarrow> store_wf st'"
  "enqueueChatMessage uuid now rid cid st = Inr (it, st') \<Longrightarrow> store_wf st \<Longrightarrow> store_wf st'"
  by (auto simp: enqueue_version_def enqueue_audit_def enqueueReportVersion_def enqueueReportAuditEvent_def
      enqueueChatMessage_def dest: store_wf_enqueue)

text \<open>What the parts after the save leave alone.\<close>

definition queue_only :: "('b vstore \<Rightarrow> (store_error + 'a) \<times> 'b vstore) \<Rightarrow> bool" where
  "queue_only f \<longleftrightarrow> (\<forall>st. vsReports (snd (f st)) = vsReports st \<and>
     vsConfigBundles (snd (f st)) = vsConfigBundles st \<and> (store_wf st \<longrightarrow> store_wf (snd (f st))))"

lemma queue_only_done: "queue_only (\<lambda>st. (Inr x, st))"
  by (simp add: queue_only_def)

lemma queue_only_attempt_val:
  assumes "\<And>st v st'. f st = Inr (v, st') \<Longrightarrow> vsReports st' = vsReports st \<and> vsConfigBundles st' = vsConfigBundles st \<and> (store_wf st \<longrightarrow> store_wf st')"
    and "\<And>v. queue_only (k v)"
  shows "queue_only (\<lambda>st. attempt_val st (f st) k)"
  unfolding queue_only_def
proof (intro allI)
  fix st
  show "vsReports (snd (attempt_val st (f st) k)) = vsReports st \<and>
      vsConfigBundles (snd (attempt_val st (f st) k)) = vsConfigBundles st \<and>
      (store_wf st \<longrightarrow> store_wf (snd (attempt_val st (f st) k)))"
    by (rule attempt_val_inv[where P = "\<lambda>s. vsReports s = vsReports st \<and> vsConfigBundles s = vsConfigBundles st \<and>
        (store_wf st \<longrightarrow> store_wf s)"])
      (use assms in \<open>auto simp: queue_only_def\<close>)
qed

lemma appendEvent_only: "appendEvent e st = Inr (i, st') \<Longrightarrow> vsReports st' = vsReports st \<and> vsConfigBundles st' = vsConfigBundles st \<and> (store_wf st \<longrightarrow> store_wf st')"
  using appendEvent_SomeD[of e st i st'] by (auto dest: store_wf_appendEvent)

lemma enqueue_only:
  "enqueue_version env r st = Inr (it, st') \<Longrightarrow>
   vsReports st' = vsReports st \<and> vsConfigBundles st' = vsConfigBundles st \<and> (store_wf st \<longrightarrow> store_wf st')"
  "enqueue_audit env r i st = Inr (it, st') \<Longrightarrow>
   vsReports st' = vsReports st \<and> vsConfigBundles st' = vsConfigBundles st \<and> (store_wf st \<longrightarrow> store_wf st')"
  by (auto simp: enqueue_version_def enqueue_audit_def enqueueReportVersion_def enqueueReportAuditEvent_def
      dest: enqueue_SomeD store_wf_enqueue)

lemma queue_only_if: "queue_only f \<Longrightarrow> queue_only g \<Longrightarrow> queue_only (\<lambda>st. if b then f st else g st)"
  by (simp add: queue_only_def)

lemma queue_only_audit: "queue_only (\<lambda>st. attempt_val st (enqueue_audit env r i st) (\<lambda>_ st. (Inr (), st)))"
  by (rule queue_only_attempt_val) (rule enqueue_only, assumption, rule queue_only_done)

lemma queue_only_both: "queue_only (\<lambda>st. attempt_val st (enqueue_version env r st)
    (\<lambda>_ st. attempt_val st (enqueue_audit env r i st) (\<lambda>_ st. (Inr (), st))))"
  by (rule queue_only_attempt_val) (rule enqueue_only, assumption, rule queue_only_audit)

lemma queue_only_events:
  "queue_only (record_event env r e)" "queue_only (submit_event env r e)" "queue_only (cascade_event env r e)"
  unfolding record_event_def[abs_def] submit_event_def[abs_def] cascade_event_def[abs_def]
  by (rule queue_only_attempt_val; (rule appendEvent_only, assumption)?;
      (rule queue_only_audit queue_only_both queue_only_if queue_only_done)+)+

lemma queue_only_reports: "queue_only f \<Longrightarrow> vsReports (snd (f st)) = vsReports st"
  by (simp add: queue_only_def)

lemma queue_only_vstep: "queue_only f \<Longrightarrow> vstep st (snd (f st))"
  by (rule vstep_same_reports) (simp_all add: queue_only_def)

text \<open>Saving a report and then recording what happened.\<close>

lemma save_then_vstep:
  assumes "\<And>st'. saveReport r st = Inr st' \<Longrightarrow> vstep st st'" and "queue_only g"
  shows "vstep st (snd (attempt st (saveReport r st) g))"
  by (rule attempt_inv[where P = "vstep st"]) (auto intro: assms vstep_trans queue_only_vstep)
section \<open>Cascade revalidation\<close>

text \<open>What a cascade pass makes of a row: the new rules, when they are not already recorded.\<close>

definition flagged :: "cascadeResult \<Rightarrow> report \<Rightarrow> string list option" where
  "flagged result r =
     (case gm_lookup result (ReportID r) of
        None \<Rightarrow> None
      | Some rules \<Rightarrow> if State r = StateInvalidated \<and> InvalidatedRules r = rules then None else Some rules)"

definition cascade_row :: "gotime \<Rightarrow> cascadeResult \<Rightarrow> report \<Rightarrow> report" where
  "cascade_row now result r =
     (case flagged result r of None \<Rightarrow> r | Some rules \<Rightarrow> fst (invalidate rules now r))"

lemma cascade_step_None: "flagged result r = None \<Longrightarrow> cascade_step env result r st = (Inr (), st)"
  by (auto simp: flagged_def cascade_step_def split: option.splits if_splits)

lemma cascade_step_Some:
  assumes "flagged result r = Some rules" and "invalidate rules (envNow env) r = (r', e)"
  shows "cascade_step env result r st =
    attempt st (saveReport r' st) (cascade_event env r' e)"
  using assms by (auto simp: flagged_def cascade_step_def split: option.splits if_splits)

lemma cascade_row_sel [simp]:
  "ReportID (cascade_row now res r) = ReportID r" "VersionNo (cascade_row now res r) = VersionNo r"
  "SchemaName (cascade_row now res r) = SchemaName r" "EventType (cascade_row now res r) = EventType r"
  "EventTime (cascade_row now res r) = EventTime r" "Fields (cascade_row now res r) = Fields r"
  "CreatedAt (cascade_row now res r) = CreatedAt r" "CreatedBy (cascade_row now res r) = CreatedBy r"
  by (simp_all add: cascade_row_def invalidate_def Let_def split: option.split)

lemma cascade_row_key [simp]: "report_key (cascade_row now res r) = report_key r"
  by (simp add: report_key_def)

lemma cascade_row_validation [simp]: "toValidation (cascade_row now res r) = toValidation r"
  by (simp add: toValidation_def)

lemma cascade_row_inChain: "inChain (State r) \<Longrightarrow> inChain (State (cascade_row now res r))"
  by (auto simp: cascade_row_def invalidate_def Let_def inChain_def split: option.split)

lemma cascade_row_done: "flagged res (cascade_row now res r) = None"
  by (auto simp: cascade_row_def flagged_def invalidate_def Let_def split: option.split if_splits)

lemma upsert_cascade_row: "upsert_row r (cascade_row now res r) = cascade_row now res r"
  by (simp add: upsert_row_def cascade_row_def invalidate_def Let_def split: option.split)

text \<open>The writes of one step keep every row and the contract.\<close>

definition keeps_rows :: "'b vstore \<Rightarrow> 'b vstore \<Rightarrow> bool" where
  "keeps_rows st st' \<longleftrightarrow> (\<forall>k. look_report st k \<noteq> None \<longrightarrow> look_report st' k \<noteq> None)"

lemma keeps_rows_same: "vsReports st' = vsReports st \<Longrightarrow> keeps_rows st st'"
  unfolding keeps_rows_def by (drule look_same) simp

lemma keeps_rows_trans: "keeps_rows a b \<Longrightarrow> keeps_rows b c \<Longrightarrow> keeps_rows a c"
  unfolding keeps_rows_def by blast

lemma keeps_rows_save: "saveReport r st = Inr st' \<Longrightarrow> keeps_rows st st'"
  unfolding keeps_rows_def using report_table.put_grows by blast

lemma cascade_step_contract:
  assumes "look_report st (report_key r) \<noteq> None"
  shows "vstep st (snd (cascade_step env res r st)) \<and> keeps_rows st (snd (cascade_step env res r st))"
proof (cases "flagged res r")
  case None
  then show ?thesis by (simp add: cascade_step_None keeps_rows_same)
next
  case (Some rules)
  obtain r' e where inv: "invalidate rules (envNow env) r = (r', e)" by fastforce
  note key = invalidate_report_key[OF inv]
  have save: "vstep st s \<and> keeps_rows st s" if "saveReport r' st = Inr s" for s
    using save_vstep[OF that] keeps_rows_save[OF that] key assms by (auto simp: inChain_def)
  have rest: "vstep s (snd (cascade_event env r' e s))" "keeps_rows s (snd (cascade_event env r' e s))" for s
    using queue_only_vstep[OF queue_only_events(3)] keeps_rows_same queue_only_reports[OF queue_only_events(3)] by blast+
  show ?thesis
    unfolding cascade_step_Some[OF Some inv]
    by (rule attempt_inv[where P = "\<lambda>s. vstep st s \<and> keeps_rows st s"])
      (auto simp: keeps_rows_same save intro: vstep_trans[OF _ rest(1)] keeps_rows_trans[OF _ rest(2)])
qed

lemma runCascade_contract:
  assumes "slice_sort (envSorter env)"
  shows "vstep st (snd (runCascade env sname st))"
proof -
  let ?chain = "listCommittedChain (envSorter env) sname st"
  let ?P = "\<lambda>s. vstep st s \<and> keeps_rows st s"
  have rows: "look_report st (report_key r) \<noteq> None" if "r \<in> set ?chain" for r
    using that slice_sort.set_listCommittedChain[OF assms] by (auto simp: look_report_def find_row_None_iff)
  have "?P (snd (runCascade env sname st))"
    unfolding runCascade_def
  proof (rule for_each_inv[where P = ?P])
    fix r s assume r: "r \<in> set ?chain" and s: "?P s"
    then have "look_report s (report_key r) \<noteq> None" using rows[OF r] unfolding keeps_rows_def by blast
    from cascade_step_contract[OF this] s show "?P (snd (cascade_step env (cascade_result env sname st) r s))"
      using vstep_trans keeps_rows_trans by blast
  qed (simp add: keeps_rows_same)
  then show ?thesis by simp
qed
lemma cascade_step_wf: "store_wf st \<Longrightarrow> store_wf (snd (cascade_step env res r st))"
proof (cases "flagged res r")
  case (Some rules)
  obtain r' e where inv: "invalidate rules (envNow env) r = (r', e)" by fastforce
  assume "store_wf st"
  then show ?thesis
    unfolding cascade_step_Some[OF Some inv]
    by (intro attempt_inv[where P = store_wf])
      (use queue_only_events(3) in \<open>auto simp: queue_only_def dest: store_wf_saveReport\<close>)
qed (simp add: cascade_step_None)

text \<open>The rows after a pass that succeeds: exactly the reports of the chain with new rules have changed.\<close>

lemma cascade_step_rows:
  assumes "store_wf st" and "r \<in> set (vsReports st)" and "cascade_step env res r st = (Inr (), st')"
  shows "vsReports st' = map (\<lambda>x. if report_key x = report_key r then cascade_row (envNow env) res r else x) (vsReports st)"
proof -
  have same: "x = r" if "x \<in> set (vsReports st)" "report_key x = report_key r" for x
    using that assms(1,2) by (auto simp: store_wf_def distinct_map dest: inj_onD)
  show ?thesis
  proof (cases "flagged res r")
    case None
    then have "st' = st" "cascade_row (envNow env) res r = r"
      using assms(3) by (simp_all add: cascade_step_None cascade_row_def)
    then show ?thesis by (auto intro!: map_idI[symmetric] same[symmetric])
  next
    case (Some rules)
    obtain r' e where inv: "invalidate rules (envNow env) r = (r', e)" by fastforce
    have r': "r' = cascade_row (envNow env) res r" by (simp add: cascade_row_def Some inv)
    obtain st1 where st1: "saveReport r' st = Inr st1" "cascade_event env r' e st1 = (Inr (), st')"
      using assms(3) unfolding cascade_step_Some[OF Some inv] by (cases "saveReport r' st") auto
    have "vsReports st' = vsReports st1" using queue_only_reports[OF queue_only_events(3)] st1(2) by (metis snd_conv)
    moreover have "find_row report_key (vsReports st) (report_key r') = Some r"
      using find_row_unique[of report_key "vsReports st" r] assms(1,2) by (simp add: store_wf_def r')
    then have "vsReports st1 = map (\<lambda>x. if report_key x = report_key r' then upsert_row x r' else x) (vsReports st)"
      using st1(1) by (auto simp: saveReport_def split: if_splits)
    moreover have "upsert_row x r' = r'" if "x \<in> set (vsReports st)" "report_key x = report_key r" for x
      using same[OF that] upsert_cascade_row by (simp add: r')
    ultimately show ?thesis by (auto simp: r')
  qed
qed

lemma cascade_loop_rows:
  assumes "store_wf st" and "set cs \<subseteq> set (vsReports st)" and "distinct (map report_key cs)"
    and "for_each (cascade_step env res) cs st = (Inr (), st')"
  shows "vsReports st' = map (\<lambda>x. if x \<in> set cs then cascade_row (envNow env) res x else x) (vsReports st)"
  using assms
proof (induction cs arbitrary: st)
  case (Cons r cs)
  let ?c = "cascade_row (envNow env) res"
  obtain st1 where st1: "cascade_step env res r st = (Inr (), st1)" "for_each (cascade_step env res) cs st1 = (Inr (), st')"
    using Cons.prems(4) by (cases "cascade_step env res r st"; cases "fst (cascade_step env res r st)") (auto simp: andthen_def)
  have r: "r \<in> set (vsReports st)" using Cons.prems(2) by simp
  have same: "x = y" if "x \<in> set (vsReports st)" "y \<in> set (vsReports st)" "report_key x = report_key y" for x y
    using that Cons.prems(1) by (auto simp: store_wf_def distinct_map dest: inj_onD)
  have rows: "vsReports st1 = map (\<lambda>x. if report_key x = report_key r then ?c r else x) (vsReports st)"
    using Cons.prems(1) r st1(1) by (rule cascade_step_rows)
  then have rows1: "vsReports st1 = map (\<lambda>x. if x = r then ?c x else x) (vsReports st)"
    using same r by (auto intro!: map_cong)
  have "store_wf st1"
    using Cons.prems(1) rows1 st1(1) cascade_step_wf by (metis snd_conv)
  moreover have "r \<notin> set cs" using Cons.prems(3) by auto
  then have "set cs \<subseteq> set (vsReports st1)" using Cons.prems(2) by (auto simp: rows1)
  ultimately have "vsReports st' = map (\<lambda>x. if x \<in> set cs then ?c x else x) (vsReports st1)"
    using Cons.prems(3) st1(2) by (intro Cons.IH) simp_all
  moreover have "?c r \<notin> set cs" using Cons.prems(3) by (metis cascade_row_key distinct.simps(2) image_eqI list.simps(9) set_map)
  ultimately show ?case using \<open>r \<notin> set cs\<close> by (auto simp: rows1)
qed simp

context slice_sort begin

lemma sort_slice_map:
  assumes "\<And>x. x \<in> set xs \<Longrightarrow> key (f x) = key x"
  shows "sort_slice p key (map f xs) = map f (sort_slice p key xs)"
proof -
  have k: "map key (map f xs) = map key xs" using assms by simp
  have "set (p (map key xs)) = {0..<length xs}"
    using permutes[of "map key xs"] by (metis length_map mset_eq_setD set_upt)
  then show ?thesis unfolding sort_slice_def k by auto
qed

text \<open>A change of rows that keeps identity, time and membership of the chain changes the chain row by row.\<close>

lemma listCommittedChain_map:
  assumes rows: "vsReports st' = map f (vsReports st)"
    and f: "\<And>x. x \<in> set (vsReports st) \<Longrightarrow> ReportID (f x) = ReportID x \<and> VersionNo (f x) = VersionNo x \<and>
      SchemaName (f x) = SchemaName x \<and> EventTime (f x) = EventTime x \<and> inChain (State (f x)) = inChain (State x)"
  shows "listCommittedChain p sname st' = map f (listCommittedChain p sname st)"
proof -
  have latest: "is_latest_committed (map f rs) (f x) = is_latest_committed rs x"
    if "set rs \<subseteq> set (vsReports st)" "x \<in> set (vsReports st)" for rs x
  proof -
    have "list_all (\<lambda>y. ReportID y = i \<longrightarrow> VersionNo y \<le> v) (filter (\<lambda>y. inChain (State y)) (map f rs)) =
        list_all (\<lambda>y. ReportID y = i \<longrightarrow> VersionNo y \<le> v) (filter (\<lambda>y. inChain (State y)) rs)" for i v
      using that(1) f by (induction rs) auto
    then show ?thesis using f[OF that(2)] by (simp add: is_latest_committed_def is_latest_def)
  qed
  have "filter (\<lambda>r. SchemaName r = sname \<and> is_latest_committed (map f (vsReports st)) r) (map f (vsReports st)) =
      map f (filter (\<lambda>r. SchemaName r = sname \<and> is_latest_committed (vsReports st) r) (vsReports st))"
    unfolding filter_map o_def using f latest by (intro arg_cong[where f = "map f"] filter_cong) auto
  then show ?thesis
    unfolding listCommittedChain_def rows by (simp only:) (rule sort_slice_map, use f in auto)
qed

end

lemma for_each_skip: "(\<And>x. x \<in> set xs \<Longrightarrow> f x s = (Inr (), s)) \<Longrightarrow> for_each f xs s = (Inr (), s)"
  by (induction xs) auto

definition cascade_rows :: "env \<Rightarrow> string \<Rightarrow> store \<Rightarrow> report \<Rightarrow> report" where
  "cascade_rows env sname st r =
     (if r \<in> set (listCommittedChain (envSorter env) sname st)
      then cascade_row (envNow env) (cascade_result env sname st) r else r)"

lemma runCascade_rows:
  assumes "slice_sort (envSorter env)" and "store_wf st" and "runCascade env sname st = (Inr (), st')"
  shows "vsReports st' = map (cascade_rows env sname st) (vsReports st)"
proof -
  let ?chain = "listCommittedChain (envSorter env) sname st"
  have "set ?chain \<subseteq> set (vsReports st)" using slice_sort.set_listCommittedChain[OF assms(1)] by auto
  moreover have "distinct (map ReportID ?chain)" using slice_sort.distinct_listCommittedChain[OF assms(1,2)] .
  then have "distinct (map report_key ?chain)" by (auto simp: distinct_map inj_on_def report_key_def)
  ultimately show ?thesis
    using cascade_loop_rows[OF assms(2)] assms(3) by (auto simp: runCascade_def cascade_rows_def[abs_def])
qed

lemma cascade_step_bundles: "vsConfigBundles (snd (cascade_step env res r st)) = vsConfigBundles st"
proof (cases "flagged res r")
  case (Some rules)
  obtain r' e where inv: "invalidate rules (envNow env) r = (r', e)" by fastforce
  show ?thesis
    unfolding cascade_step_Some[OF Some inv]
    by (intro attempt_inv[where P = "\<lambda>s. vsConfigBundles s = vsConfigBundles st"])
      (use queue_only_events(3) in \<open>auto simp: queue_only_def saveReport_frame\<close>)
qed (simp add: cascade_step_None)

lemma runCascade_bundles: "vsConfigBundles (snd (runCascade env sname st)) = vsConfigBundles st"
  unfolding runCascade_def
  by (rule for_each_inv[where P = "\<lambda>s. vsConfigBundles s = vsConfigBundles st"]) (simp_all add: cascade_step_bundles)

lemma runCascade_wf: "store_wf st \<Longrightarrow> store_wf (snd (runCascade env sname st))"
  unfolding runCascade_def by (rule for_each_inv[where P = store_wf]) (simp_all add: cascade_step_wf)

text \<open>A pass leaves the chain as the rules see it, so it finds nothing to add when it is run again.\<close>

lemma cascade_result_stable:
  assumes "slice_sort (envSorter env)" and "store_wf st" and "runCascade env sname st = (Inr (), st')"
  shows "cascade_result env sname st' = cascade_result env sname st"
    and "listCommittedChain (envSorter env) sname st' =
      map (cascade_row (envNow env) (cascade_result env sname st)) (listCommittedChain (envSorter env) sname st)"
proof -
  let ?p = "envSorter env" and ?row = "cascade_row (envNow env) (cascade_result env sname st)"
  have "listCommittedChain ?p sname st' = map (cascade_rows env sname st) (listCommittedChain ?p sname st)"
  proof (rule slice_sort.listCommittedChain_map[OF assms(1)])
    show "vsReports st' = map (cascade_rows env sname st) (vsReports st)" using assms by (rule runCascade_rows)
  next
    fix x assume "x \<in> set (vsReports st)"
    have "inChain (State (?row x)) = inChain (State x)" if "x \<in> set (listCommittedChain ?p sname st)"
    proof -
      have "inChain (State x)"
        using that slice_sort.set_listCommittedChain[OF assms(1)] by (auto simp: is_latest_committed_def)
      then show ?thesis by (simp add: cascade_row_inChain)
    qed
    then show "ReportID (cascade_rows env sname st x) = ReportID x \<and> VersionNo (cascade_rows env sname st x) = VersionNo x \<and>
        SchemaName (cascade_rows env sname st x) = SchemaName x \<and> EventTime (cascade_rows env sname st x) = EventTime x \<and>
        inChain (State (cascade_rows env sname st x)) = inChain (State x)"
      by (simp add: cascade_rows_def)
  qed
  then show chain: "listCommittedChain ?p sname st' = map ?row (listCommittedChain ?p sname st)"
    by (simp add: cascade_rows_def)
  have "vsConfigBundles st' = vsConfigBundles st" using runCascade_bundles[of env sname st] assms(3) by simp
  then have "appliedBundle ?p (Some st') = appliedBundle ?p (Some st)"
    by (simp add: appliedBundle_def latestConfigBundle_def)
  then show "cascade_result env sname st' = cascade_result env sname st"
    by (simp add: cascade_result_def chain o_def)
qed

lemma runCascade_idempotent:
  assumes "slice_sort (envSorter env)" and "store_wf st" and "runCascade env sname st = (Inr (), st')"
    and "envSorter env' = envSorter env"
  shows "runCascade env' sname st' = (Inr (), st')"
proof -
  note stable = cascade_result_stable[OF assms(1-3)]
  have "cascade_result env' sname st' = cascade_result env sname st"
    using stable(1) assms(4) by (simp add: cascade_result_def)
  then show ?thesis
    unfolding runCascade_def assms(4) stable(2)
    by (intro for_each_skip) (auto intro!: cascade_step_None cascade_row_done)
qed
text \<open>
  A pass runs to its end: the trigger never fires, because a pass changes no data of a committed version, and with
  identifiers that are fresh every item is queued.
\<close>

definition ids_fresh :: "env \<Rightarrow> 'b vstore \<Rightarrow> bool" where
  "ids_fresh env st \<longleftrightarrow>
     (\<forall>i \<ge> vsOutboxNext st. \<exists>u. envUUID env i = Some u \<and> u \<notin> obItemID ` set (vsOutbox st)) \<and>
     (\<forall>i j u. envUUID env i = Some u \<longrightarrow> envUUID env j = Some u \<longrightarrow> i = j)"

lemma enqueue_succeeds:
  assumes "store_wf st" and "ids_fresh env st"
  shows "\<exists>item st'. enqueueOutboxItem (envUUID env (vsOutboxNext st)) now kind rid v ev cm st = Inr (item, st') \<and>
    ids_fresh env st'"
proof -
  obtain u where u: "envUUID env (vsOutboxNext st) = Some u" "u \<notin> obItemID ` set (vsOutbox st)"
    using assms(2) by (auto simp: ids_fresh_def)
  have "obSequenceNo x \<noteq> vsOutboxNext st" if "x \<in> set (vsOutbox st)" for x
    using assms(1) that by (auto simp: store_wf_def ids_ok_def)
  then have "\<not> list_ex (\<lambda>o'. obItemID o' = u \<or> obSequenceNo o' = vsOutboxNext st) (vsOutbox st)"
    using u(2) by (auto simp: list_ex_iff)
  then obtain item st' where e: "enqueueOutboxItem (envUUID env (vsOutboxNext st)) now kind rid v ev cm st = Inr (item, st')"
    by (simp add: enqueueOutboxItem_def Let_def u(1))
  from enqueue_SomeD[OF e] u(1) have st': "st' = st\<lparr>vsOutbox := vsOutbox st @ [item], vsOutboxNext := vsOutboxNext st + 1\<rparr>"
    "obItemID item = u" by auto
  have "ids_fresh env st'"
    unfolding ids_fresh_def
  proof (intro conjI allI impI)
    fix i assume "vsOutboxNext st' \<le> i"
    then have i: "vsOutboxNext st < i" by (simp add: st')
    then obtain w where w: "envUUID env i = Some w" "w \<notin> obItemID ` set (vsOutbox st)"
      using assms(2) unfolding ids_fresh_def by (meson less_imp_le)
    have "w \<noteq> u" using u(1) w(1) i assms(2) unfolding ids_fresh_def by blast
    with w show "\<exists>w. envUUID env i = Some w \<and> w \<notin> obItemID ` set (vsOutbox st')" by (auto simp: st')
  next
    fix i j w assume "envUUID env i = Some w" "envUUID env j = Some w"
    then show "i = j" using assms(2) unfolding ids_fresh_def by blast
  qed
  with e show ?thesis by blast
qed

lemma invalidate_event_finite:
  "invalidate rules now r = (r', e) \<Longrightarrow> \<exists>i st'. appendEvent e st = Inr (i, st') \<and> vsOutbox st' = vsOutbox st \<and>
     vsOutboxNext st' = vsOutboxNext st"
  by (auto simp: invalidate_def Let_def appendEvent_def mk_detail_def json_of_strings_finite)

lemma cascade_event_succeeds:
  assumes "store_wf st" and "ids_fresh env st" and "invalidate rules now r = (r', e)"
  shows "\<exists>st'. cascade_event env r' e st = (Inr (), st') \<and> ids_fresh env st'"
proof -
  obtain i st1 where st1: "appendEvent e st = Inr (i, st1)" "vsOutbox st1 = vsOutbox st" "vsOutboxNext st1 = vsOutboxNext st"
    using invalidate_event_finite[OF assms(3)] by blast
  have f1: "ids_fresh env st1" using assms(2) by (simp add: ids_fresh_def st1)
  have wf1: "store_wf st1" using assms(1) st1(1) by (rule store_wf_appendEvent)
  obtain it2 st2 where st2: "enqueue_version env r' st1 = Inr (it2, st2)" "ids_fresh env st2"
    using enqueue_succeeds[OF wf1 f1] by (auto simp: enqueue_version_def enqueueReportVersion_def) metis
  have wf2: "store_wf st2" using enqueue_only(1)[OF st2(1)] wf1 by simp
  obtain it3 st3 where st3: "enqueue_audit env r' i st2 = Inr (it3, st3)" "ids_fresh env st3"
    using enqueue_succeeds[OF wf2 st2(2)] by (auto simp: enqueue_audit_def enqueueReportAuditEvent_def) metis
  show ?thesis using st1(1) f1 st2(1) st3 by (auto simp: cascade_event_def)
qed

lemma cascade_step_succeeds:
  assumes "store_wf st" and "rows_finite st" and "ids_fresh env st" and "r \<in> set (vsReports st)"
  shows "\<exists>st'. cascade_step env res r st = (Inr (), st') \<and> ids_fresh env st'"
proof (cases "flagged res r")
  case None
  then show ?thesis using assms(3) by (simp add: cascade_step_None)
next
  case (Some rules)
  obtain r' e where inv: "invalidate rules (envNow env) r = (r', e)" by fastforce
  note r' = invalidate_sel[OF inv]
  have "find_row report_key (vsReports st) (report_key r') = Some r"
    using find_row_unique[of report_key "vsReports st" r] assms(1,4) r' by (simp add: store_wf_def report_key_def)
  then obtain st1 where st1: "saveReport r' st = Inr st1"
    using assms(2,4) r' by (auto simp: saveReport_def rows_finite_def trigger_aborts_def)
  have "ids_fresh env st1" using assms(3) by (simp add: ids_fresh_def saveReport_frame[OF st1])
  from cascade_event_succeeds[OF store_wf_saveReport[OF assms(1) st1] this inv] show ?thesis
    unfolding cascade_step_Some[OF Some inv] by (simp add: st1)
qed

lemma cascade_loop_succeeds:
  assumes "store_wf st" and "rows_finite st" and "ids_fresh env st" and "set cs \<subseteq> set (vsReports st)"
    and "distinct (map report_key cs)"
  shows "\<exists>st'. for_each (cascade_step env res) cs st = (Inr (), st') \<and> ids_fresh env st'"
  using assms
proof (induction cs arbitrary: st)
  case (Cons r cs)
  have r: "r \<in> set (vsReports st)" using Cons.prems(4) by simp
  from cascade_step_succeeds[OF Cons.prems(1-3) r] obtain st1 where
    st1: "cascade_step env res r st = (Inr (), st1)" "ids_fresh env st1" by blast
  note rows = cascade_step_rows[OF Cons.prems(1) r st1(1)]
  have "store_wf st1" using cascade_step_wf[OF Cons.prems(1)] st1(1) by (metis snd_conv)
  moreover have "rows_finite st1" using Cons.prems(2) r by (auto simp: rows_finite_def rows)
  moreover have "set cs \<subseteq> set (vsReports st1)"
  proof
    fix x assume x: "x \<in> set cs"
    then have "report_key x \<in> report_key ` set cs" by (rule imageI)
    then have "report_key x \<noteq> report_key r" using Cons.prems(5) by auto
    with x show "x \<in> set (vsReports st1)" using Cons.prems(4) by (force simp: rows)
  qed
  ultimately have "\<exists>st'. for_each (cascade_step env res) cs st1 = (Inr (), st') \<and> ids_fresh env st'"
    using Cons.prems(5) st1(2) by (intro Cons.IH) auto
  then show ?case using st1(1) by simp
qed simp

lemma runCascade_succeeds:
  assumes "slice_sort (envSorter env)" and "store_wf st" and "rows_finite st" and "ids_fresh env st"
  shows "\<exists>st'. runCascade env sname st = (Inr (), st')"
proof -
  let ?chain = "listCommittedChain (envSorter env) sname st"
  have "set ?chain \<subseteq> set (vsReports st)" using slice_sort.set_listCommittedChain[OF assms(1)] by auto
  moreover have "distinct (map ReportID ?chain)" using slice_sort.distinct_listCommittedChain[OF assms(1,2)] .
  then have "distinct (map report_key ?chain)" by (auto simp: distinct_map inj_on_def report_key_def)
  ultimately show ?thesis
    unfolding runCascade_def using cascade_loop_succeeds[OF assms(2-4)] by blast
qed

section \<open>Every handler keeps the contract\<close>

definition hstep :: "server \<Rightarrow> server \<Rightarrow> bool" where
  "hstep s s' \<longleftrightarrow> vstep (srvStore s) (srvStore s')"

lemma hstep_refl [simp]: "hstep s s"
  by (simp add: hstep_def)

lemma hstep_trans: "hstep a b \<Longrightarrow> hstep b c \<Longrightarrow> hstep a c"
  unfolding hstep_def by (rule vstep_trans)

lemma hstep_same: "srvStore s' = srvStore s \<Longrightarrow> hstep s s'"
  by (simp add: hstep_def)

lemma signed_in_store [simp]: "srvStore (snd (signed_in env s)) = srvStore s"
  by (simp add: signed_in_def split: prod.split)

lemma signed_in_Inr: "signed_in env s = (Inr u, s') \<Longrightarrow> srvStore s' = srvStore s \<and> srvLocks s' = srvLocks s"
  by (auto simp: signed_in_def split: prod.splits)

lemma super_admin_store [simp]: "srvStore (snd (super_admin env s)) = srvStore s"
  by (simp add: super_admin_def split: prod.split)

lemma super_admin_Inr: "super_admin env s = (Inr u, s') \<Longrightarrow> srvStore s' = srvStore s"
  by (auto simp: super_admin_def split: prod.splits)

lemma signed_in_hstep:
  assumes "\<And>u s'. signed_in env s = (Inr u, s') \<Longrightarrow> srvStore s' = srvStore s \<Longrightarrow> hstep s' (snd (k u s'))"
  shows "hstep s (snd (andthen (signed_in env s) k))"
proof (rule andthen_inv[where P = "hstep s"])
  fix u s' assume a: "signed_in env s = (Inr u, s')" "hstep s s'"
  show "hstep s (snd (k u s'))"
    using assms[OF a(1)] signed_in_Inr[OF a(1)] by (auto simp: hstep_def)
qed (simp add: hstep_same)

lemma with_latest_hstep:
  assumes "\<And>r. getLatestVersion i (srvStore s) = Inr r \<Longrightarrow> hstep s (snd (k r))"
  shows "hstep s (snd (with_latest i s k))"
  using assms by (simp add: with_latest_def split: sum.split)

lemma loadEditable_hstep:
  assumes "\<And>r. getLatestVersion i (srvStore s) = Inr r \<Longrightarrow> \<not> inChain (State r) \<Longrightarrow> hstep s (snd (k r))"
  shows "hstep s (snd (loadEditableReport i s k))"
  unfolding loadEditableReport_def
  by (rule with_latest_hstep) (use assms in \<open>auto simp: inChain_def\<close>)

lemma in_store_hstep:
  assumes "vstep (srvStore s) (snd r)" and "\<And>v s'. srvStore s' = snd r \<Longrightarrow> hstep s' (snd (k v s'))"
  shows "hstep s (snd (in_store r s k))"
proof (cases r)
  case (Pair res st)
  then have first: "hstep s (s\<lparr>srvStore := st\<rparr>)" using assms(1) by (simp add: hstep_def)
  have "hstep (s\<lparr>srvStore := st\<rparr>) (snd (k v (s\<lparr>srvStore := st\<rparr>)))" for v
    using assms(2) Pair by simp
  with first show ?thesis
    by (auto simp: in_store_def Pair split: sum.split intro: hstep_trans)
qed

lemma guard_hstep: "(\<not> bad \<Longrightarrow> hstep s (snd (k s))) \<Longrightarrow> hstep s (snd (guard bad c m s k))"
  by (rule guard_inv[where P = "hstep s"]) auto

lemma decode_hstep: "(\<And>r. body = Some r \<Longrightarrow> hstep s (snd (k r))) \<Longrightarrow> hstep s (snd (decode body s k))"
  by (rule decode_inv[where P = "hstep s"]) auto

lemma cascade_and_reply_hstep:
  assumes "slice_sort (envSorter env)"
  shows "hstep s (snd (cascade_and_reply env r c s))"
  unfolding cascade_and_reply_def
  by (rule in_store_hstep[OF runCascade_contract[OF assms]]) (simp split: sum.split)

named_theorems hstep_intros \<open>one rule per construct of a handler\<close>
lemmas [hstep_intros] = signed_in_hstep with_latest_hstep loadEditable_hstep in_store_hstep guard_hstep decode_hstep

lemma handleGet_hstep:
  "hstep s (snd (handleGetReport env i s))" "hstep s (snd (handleListReportEvents env i s))"
  "hstep s (snd (handleListReportVersions env i s))" "hstep s (snd (handleListReports env i s))"
  "hstep s (snd (handleListChat env i s))" "hstep s (snd (handleListLocks env i s))"
  unfolding handleGetReport_def handleListReportEvents_def handleListReportVersions_def handleListReports_def
    handleListChat_def handleListLocks_def
  by (intro hstep_intros; simp)+

lemma handleValidateReport_hstep: "hstep s (snd (handleValidateReport env i body s))"
  unfolding handleValidateReport_def by (intro hstep_intros) (simp split: sum.split prod.split)

lemma save_editable_vstep:
  assumes "getLatestVersion i st = Inr r" and "\<not> inChain (State r)" and "report_key r' = report_key r"
    and "saveReport r' st = Inr st'"
  shows "vstep st st'"
  using assms(4,1,3) by (rule save_latest_vstep) (use assms(2) in simp)

lemma save_and_record_editable:
  assumes "getLatestVersion i st = Inr r" and "\<not> inChain (State r)" and "report_key r' = report_key r"
  shows "vstep st (snd (save_and_record env r' e st))"
  unfolding save_and_record_def
  by (rule save_then_vstep) (auto intro: save_editable_vstep[OF assms] queue_only_events)

lemma saveSection_key: "saveSection now sec ch actor r = Some (r', e) \<Longrightarrow> report_key r' = report_key r"
  using saveSection_identity[of now sec ch actor r r' e] by (simp add: report_key_def)

lemma markReady_key: "markReady now fs r = (r', e, err) \<Longrightarrow> report_key r' = report_key r"
  by (auto simp: report_key_def elim!: markReady_cases)

lemma handleSaveSection_hstep:
  assumes "slice_sort (envSorter env)"
  shows "hstep s (snd (handleSaveSection env i body s))"
  unfolding handleSaveSection_def
proof (intro hstep_intros)
  fix u req r and s :: server
  assume r: "getLatestVersion i (srvStore s) = Inr r" "\<not> inChain (State r)"
  show "hstep s (snd (case lockConflict env (srvLocks s) r (ssrChanges req) (uID u) of
         Some l \<Rightarrow> writeErrorText StatusConflict (lock_conflict_error l) s
       | None \<Rightarrow>
           (case saveSection (envNow env) (ssrSection req) (ssrChanges req) (uUsername u) r of
              None \<Rightarrow> aborted s
            | Some (r, event) \<Rightarrow>
                in_store (save_and_record env r event (srvStore s)) s (\<lambda>_ s. cascade_and_reply env r StatusOK s))))"
    by (auto simp: aborted_def split: option.split dest!: saveSection_key
        intro!: in_store_hstep save_and_record_editable[OF r] cascade_and_reply_hstep[OF assms])
qed
lemma handleCheckReport_hstep: "hstep s (snd (handleCheckReport env i s))"
  unfolding handleCheckReport_def
proof (intro hstep_intros)
  fix u r and s :: server
  assume r: "getLatestVersion i (srvStore s) = Inr r" "\<not> inChain (State r)"
  show "hstep s (snd (case evaluateReport env (srvStore s) r of
         Inl e \<Rightarrow> writeErrorText StatusInternalServerError e s
       | Inr (findings, sch, policy, events) \<Rightarrow>
           (case markReady (envNow env) findings r of (r, event, _) \<Rightarrow>
              in_store (save_and_record env r event (srvStore s)) s (\<lambda>_ s.
                let readiness = evaluateRegulatoryReadiness (toValidation r) (schemaFields sch)
                      (profilesFromBundle (appliedBundle (envSorter env) (Some (srvStore s)))) policy events
                in writeJSON StatusOK
                     \<lparr>crReport = toReportView r, crFindings = toFindingViews findings,
                      crRegulatoryReadiness = toProfileReadinessViews readiness,
                      crContinuityImpact = continuityImpact env (srvStore s) r\<rparr> s))))"
    by (auto simp: Let_def split: sum.split prod.split dest!: markReady_key
        intro!: in_store_hstep save_and_record_editable[OF r])
qed

lemma handleSubmitReport_hstep:
  assumes "slice_sort (envSorter env)"
  shows "hstep s (snd (handleSubmitReport env i s))"
  unfolding handleSubmitReport_def
proof (intro hstep_intros)
  fix u r and s :: server
  assume r: "getLatestVersion i (srvStore s) = Inr r"
  have "vstep (srvStore s) (snd (attempt (srvStore s) (saveReport r' (srvStore s)) (submit_event env r' e)))"
    if "submit (envNow env) (uUsername u) r = Inr (r', e)" for r' e
  proof -
    have "report_key r' = report_key r" "\<not> inChain (State r)"
      using submit_SomeD[OF that] by (auto simp: report_key_def inChain_def)
    then show ?thesis by (intro save_then_vstep) (auto intro: save_editable_vstep[OF r] queue_only_events)
  qed
  then show "hstep s (snd (case submit (envNow env) (uUsername u) r of
         Inl e \<Rightarrow> writeErrorText StatusConflict (EDomain e) s
       | Inr (r, event) \<Rightarrow>
           in_store (attempt (srvStore s) (saveReport r (srvStore s)) (submit_event env r event)) s
             (\<lambda>_ s. cascade_and_reply env r StatusOK s)))"
    by (auto split: sum.split prod.split intro!: in_store_hstep cascade_and_reply_hstep[OF assms])
qed

lemma correction_vstep:
  assumes "getLatestVersion i st = Inr r" and "newCorrection now actor r = Inr (nxt, e)" and "saveReport nxt st = Inr st'"
  shows "vstep st st'"
  using assms(3)
proof (rule save_vstep)
  have n: "ReportID nxt = ReportID r" "VersionNo nxt = VersionNo r + 1" "inChain (State r)"
    using newCorrection_SomeD[OF assms(2)] by (auto simp: inChain_def)
  have i: "ReportID r = i" using getLatest_sel(1)[OF assms(1)] .
  assume ok: "report_ok st"
  then have row: "look_report st (i, VersionNo r) = Some r"
    using getLatest_look[OF ok assms(1)] i by (simp add: report_key_def)
  have wf: "store_wf st" using ok by (simp add: report_ok_def)
  have none: "look_report st (report_key nxt) = None"
  proof (rule ccontr)
    assume "look_report st (report_key nxt) \<noteq> None"
    then obtain x where "x \<in> set (vsReports st)" "report_key x = report_key nxt" using wf by (auto simp: look_row)
    then show False using getLatest_sel(2)[OF assms(1), of x] n i by (simp add: report_key_def)
  qed
  show "look_report st (report_key nxt) = Some old \<Longrightarrow> inChain (State old) \<Longrightarrow> inChain (State nxt)" for old
    using none by simp
  have "1 \<le> VersionNo r"
    using versions_okD[OF _ row] ok by (auto simp: report_ok_def version_allowed_def)
  then show "version_allowed st (ReportID nxt) (VersionNo nxt)"
    using row n i by (auto simp: version_allowed_def committed_at_def)
qed

lemma correction_writes_vstep:
  assumes "getLatestVersion i st = Inr r" and "newCorrection now actor r = Inr (nxt, e)"
  shows "vstep st (snd (attempt st (saveReport nxt st) (record_event env r e)))"
  by (rule save_then_vstep) (rule correction_vstep[OF assms], assumption, rule queue_only_events)

lemma record_event_vstep: "vstep st (snd (record_event env r e st))"
  by (rule queue_only_vstep[OF queue_only_events(1)])

lemma handleStartCorrection_hstep: "hstep s (snd (handleStartCorrection env i s))"
  unfolding handleStartCorrection_def
  by (intro hstep_intros)
    (auto split: sum.split prod.split intro!: in_store_hstep correction_writes_vstep)

lemma handleAcknowledgeFinding_hstep: "hstep s (snd (handleAcknowledgeFinding env i body s))"
  unfolding handleAcknowledgeFinding_def
  by (intro hstep_intros) (auto simp: Let_def intro!: in_store_hstep record_event_vstep)

lemma handlePostChat_hstep: "hstep s (snd (handlePostChat env i body s))"
  unfolding handlePostChat_def
proof (intro hstep_intros)
  fix u r msg and s :: server
  have chat: "vstep st (insertChatMessage m st)" for m and st :: store
    by (rule vstep_same_reports) (simp_all add: insertChatMessage_def store_wf_inserts[unfolded insertChatMessage_def])
  have "vstep st (snd (attempt_val (insertChatMessage m st) (enqueueChatMessage uuid now i c (insertChatMessage m st))
      (\<lambda>_ st. (Inr (), st))))" for uuid now c m and st :: store
    by (rule attempt_val_inv[where P = "vstep st"])
      (auto intro: chat vstep_trans[OF chat vstep_same_reports] dest: enqueue_rows enqueue_wf)
  then show "hstep s (snd (case newChatMessage (envChatID env) (envNow env) i (uUsername u) msg ChatFromVessel of
         Inl e \<Rightarrow> writeErrorText StatusBadRequest (EDomain e) s
       | Inr m \<Rightarrow>
           (let st = insertChatMessage m (srvStore s)
            in in_store
                 (attempt_val st (enqueueChatMessage (envUUID env (vsOutboxNext st)) (envNow env) i (cmID m) st)
                   (\<lambda>_ st. (Inr (), st))) s (\<lambda>_ s.
               writeJSON StatusCreated (toChatMessageView m) s))))"
    by (auto simp: Let_def split: sum.split intro!: in_store_hstep)
qed

text \<open>A new report needs an identifier no report has, a deletion removes a report no version of which was committed.\<close>

definition fresh_report :: "env \<Rightarrow> store \<Rightarrow> bool" where
  "fresh_report env st \<longleftrightarrow> (\<forall>i. envReportID env = Some i \<longrightarrow> i \<notin> ReportID ` set (vsReports st))"

lemma handleCreateReport_hstep:
  assumes "slice_sort (envSorter env)" and "fresh_report env (srvStore s)"
  shows "hstep s (snd (handleCreateReport env body s))"
  unfolding handleCreateReport_def
proof (rule signed_in_hstep, intro hstep_intros)
  fix u req and s' :: server
  assume s': "srvStore s' = srvStore s"
  have "vstep (srvStore s') (snd (save_and_record env r e (srvStore s')))"
    if n: "newReport (envReportID env) (envNow env) a b t fs actor = Inr (r, e)" for a b t fs actor r e
    unfolding save_and_record_def
  proof (rule save_then_vstep)
    fix st' assume save: "saveReport r (srvStore s') = Inr st'"
    have r: "envReportID env = Some (ReportID r)" "VersionNo r = 1" using newReport_SomeD[OF n] by auto
    have none: "look_report (srvStore s') (report_key r) = None"
      using assms(2) r(1) s' by (force simp: fresh_report_def look_report_def find_row_None_iff report_key_def)
    show "vstep (srvStore s') st'"
      using save by (rule save_vstep) (simp_all add: none version_allowed_def r)
  qed (rule queue_only_events)
  then show "hstep s' (snd (case newReport (envReportID env) (envNow env) (crrSchemaName req) (crrEventType req) (crrEventTime req)
              (crrFields req) (uUsername u) of
         Inl e \<Rightarrow> writeErrorText StatusInternalServerError (EDomain e) s'
       | Inr (r, event) \<Rightarrow>
           in_store (save_and_record env r event (srvStore s')) s' (\<lambda>_ s.
           cascade_and_reply env r StatusCreated s)))"
    by (auto split: sum.split prod.split intro!: in_store_hstep cascade_and_reply_hstep[OF assms(1)])
qed

lemma deleteReport_vstep:
  assumes "getLatestVersion i st = Inr r" and "\<not> inChain (State r)" and "VersionNo r = 1"
    and "deleteReport now i actor st = Inr st'"
  shows "vstep st st'"
  unfolding vstep_def
proof
  assume ok: "report_ok st"
  then have wf: "store_wf st" and vs: "versions_ok st" and fin: "rows_finite st" by (simp_all add: report_ok_def)
  have rows: "vsReports st' = filter (\<lambda>x. ReportID x \<noteq> i) (vsReports st)"
    using assms(1,4) by (auto simp: deleteReport_def)
  have look: "look_report st' k = (if fst k = i then None else look_report st k)" for k
  proof (cases "fst k = i")
    case True
    then show ?thesis by (auto simp: look_report_def rows find_row_None_iff report_key_def)
  next
    case False
    then have "find_row report_key (filter (\<lambda>x. ReportID x \<noteq> i) (vsReports st)) k = find_row report_key (vsReports st) k"
      by (intro find_row_filter_other) (auto simp: report_key_def)
    with False show ?thesis by (simp add: look_report_def rows)
  qed
  have key: "look_report st k = Some x \<Longrightarrow> report_key x = k" for k x using wf by (simp add: look_row)
  have "committed_frozen st st'"
    unfolding committed_frozen_def
  proof (intro allI impI)
    fix k a assume a: "look_report st k = Some a" "inChain (State a)"
    have "ReportID a \<noteq> i"
    proof
      assume i: "ReportID a = i"
      have "a \<in> set (vsReports st)" using a(1) wf by (simp add: look_row)
      then have "VersionNo a \<le> 1" using getLatest_sel(2)[OF assms(1) _ i] assms(3) by simp
      moreover have "1 \<le> VersionNo a" using versions_okD[OF vs a(1)] by (auto simp: version_allowed_def)
      ultimately have "report_key a = report_key r"
        using i assms(3) getLatest_sel(1)[OF assms(1)] by (simp add: report_key_def)
      then have "k = report_key r" by (rule key[OF a(1), THEN sym, THEN trans])
      then have "a = r" using a(1) getLatest_look[OF ok assms(1)] by (metis option.inject)
      with a(2) assms(2) show False by simp
    qed
    then have "fst k \<noteq> i" using key[OF a(1)] by (auto simp: report_key_def)
    with a show "\<exists>b. look_report st' k = Some b \<and> inChain (State b) \<and> same_data a b" by (simp add: look)
  qed
  moreover have "versions_ok st'"
    unfolding versions_ok_def
  proof (intro allI impI)
    fix k x assume x: "look_report st' k = Some x"
    then have x': "look_report st k = Some x" "fst k \<noteq> i" by (auto simp: look split: if_splits)
    then have x_other: "ReportID x \<noteq> i" using key[OF x'(1)] by (auto simp: report_key_def)
    have "committed_at st' (ReportID x, v) = committed_at st (ReportID x, v)" for v
      using x_other by (simp add: committed_at_def look)
    then show "version_allowed st' (ReportID x) (VersionNo x)"
      using versions_okD[OF vs x'(1)] by (simp add: version_allowed_def)
  qed
  moreover have "rows_finite st'" using fin by (simp add: rows_finite_def rows)
  ultimately show "report_ok st' \<and> committed_frozen st st'"
    using store_wf_deleteReport[OF wf assms(4)] by (simp add: report_ok_def)
qed

lemma handleDeleteReport_hstep:
  assumes "slice_sort (envSorter env)"
  shows "hstep s (snd (handleDeleteReport env i s))"
  unfolding handleDeleteReport_def
proof (intro hstep_intros)
  fix u r and s :: server
  assume r: "getLatestVersion i (srvStore s) = Inr r" "\<not> inChain (State r)" "\<not> VersionNo r \<noteq> 1"
  have "vstep (srvStore s) (snd (runCascade env (SchemaName r) st))"
    if "deleteReport (envNow env) i actor (srvStore s) = Inr st" for actor st
    using vstep_trans[OF deleteReport_vstep[OF r(1,2) _ that] runCascade_contract[OF assms]] r(3) by simp
  then show "hstep s (snd (case List.find (\<lambda>l. slUserID l \<noteq> uID u) (lock_snapshot (envNow env) i (srvLocks s)) of
         Some l \<Rightarrow>
           writeErrorText StatusConflict
             (EMessage (Sprintf ''section %q is locked by %s'' [AString (slSection l), AString (slUsername l)])) s
       | None \<Rightarrow>
           (case deleteReport (envNow env) i (uUsername u) (srvStore s) of
              Inl e \<Rightarrow> writeErrorText StatusInternalServerError (EStore e) s
            | Inr st \<Rightarrow> in_store (runCascade env (SchemaName r) st) s (\<lambda>_ s. writeJSON StatusOK () s))))"
    by (auto split: option.split sum.split intro!: in_store_hstep)
qed

lemma handleLocks_hstep:
  "hstep s (snd (handleAcquireLock env i sec s))" "hstep s (snd (handleReleaseLock env i sec s))"
  "hstep s (snd (handleForceReleaseLock env i sec s))"
proof -
  show "hstep s (snd (handleAcquireLock env i sec s))"
    unfolding handleAcquireLock_def
    by (intro hstep_intros) (auto split: option.split prod.split intro: hstep_same)
  show "hstep s (snd (handleReleaseLock env i sec s))"
    unfolding handleReleaseLock_def
    by (intro hstep_intros) (auto split: prod.split intro: hstep_same)
  show "hstep s (snd (handleForceReleaseLock env i sec s))"
    unfolding handleForceReleaseLock_def
    by (rule andthen_inv[where P = "hstep s"])
      (auto split: prod.split intro!: hstep_same dest: super_admin_Inr)
qed

end
