(* ===== verification/VesselServer.thy ===== *)
theory VesselServer
  imports VesselReports
begin

text \<open>
  The vessel server as a whole: what a request that succeeded went through, handler by handler, and the runs of the
  server as sequences of requests.  The rules of \<open>succeeded\<close> turn an equation that a handler answered with success into
  the conditions its guards tested and the writes it made.
\<close>

lemma with_latest_succeeded [succeeded]:
  "with_latest i s k = (Inr v, s') \<longleftrightarrow> (\<exists>r. getLatestVersion i (srvStore s) = Inr r \<and> k r = (Inr v, s'))"
  by (auto simp: with_latest_def writeError_def writeErrorText_def split: sum.split)

lemma loadEditable_succeeded [succeeded]:
  "loadEditableReport i s k = (Inr v, s') \<longleftrightarrow>
   (\<exists>r. getLatestVersion i (srvStore s) = Inr r \<and> \<not> inChain (State r) \<and> k r = (Inr v, s'))"
  by (auto simp: loadEditableReport_def with_latest_succeeded write_succeeded inChain_def)

lemma in_store_succeeded [succeeded]:
  "in_store r s k = (Inr v, s') \<longleftrightarrow> (\<exists>x st. r = (Inr x, st) \<and> k x (s\<lparr>srvStore := st\<rparr>) = (Inr v, s'))"
  by (auto simp: in_store_def writeErrorText_def split: prod.split sum.split)

lemma attempt_succeeded [succeeded]:
  "attempt s res k = (Inr v, s') \<longleftrightarrow> (\<exists>s1. res = Inr s1 \<and> k s1 = (Inr v, s'))"
  "attempt_val s res' k' = (Inr v, s') \<longleftrightarrow> (\<exists>x s1. res' = Inr (x, s1) \<and> k' x s1 = (Inr v, s'))"
  by (auto simp: attempt_def attempt_val_def split: sum.split)

lemma cascade_and_reply_succeeded [succeeded]:
  "cascade_and_reply env r c s = (Inr v, s') \<longleftrightarrow>
   (\<exists>st x. runCascade env (SchemaName r) (srvStore s) = (Inr (), st) \<and> getLatestVersion (ReportID r) st = Inr x \<and>
      v = (c, toReportView x) \<and> s' = s\<lparr>srvStore := st\<rparr>)"
  by (auto simp: cascade_and_reply_def succeeded)

text \<open>Who is signed in.\<close>

definition signed_in_as :: "env \<Rightarrow> server \<Rightarrow> user \<Rightarrow> bool" where
  "signed_in_as env s u \<longleftrightarrow> fst (signed_in env s) = Inr u"

lemma signed_in_succeeded [succeeded]:
  "signed_in env s = (Inr u, s') \<longleftrightarrow> signed_in_as env s u \<and> s' = s\<lparr>srvAccounts := srvAccounts (snd (signed_in env s))\<rparr>"
  by (auto simp: signed_in_as_def signed_in_def split: prod.splits)

lemma signed_in_as_user:
  assumes "signed_in_as env s u"
  shows "\<exists>us. svUsers (srvAccounts s) = Some us \<and> u \<in> set us \<and> uActive u"
proof -
  obtain us sv where "andthen (requireStore (srvAccounts s)) (\<lambda>_ sv. authenticatedUser (envNow env) (envCookie env) sv) = (Inr u, sv)"
    "requireStore (srvAccounts s) = (Inr us, srvAccounts s)"
    using assms by (auto simp: signed_in_as_def signed_in_def requireStore_def writeError_def split: prod.splits sum.splits option.splits)
  then show ?thesis
    using authenticatedUser_InrD[of "envNow env" "envCookie env" "srvAccounts s" u sv] by (auto simp: requireStore_Inr)
qed

section \<open>What a successful request did\<close>

text \<open>What is queued for the office stays queued.\<close>

definition queued :: "'b vstore \<Rightarrow> 'b vstore \<Rightarrow> bool" where
  "queued st st' \<longleftrightarrow> set (vsOutbox st) \<subseteq> set (vsOutbox st')"

lemma queued_refl [simp]: "queued st st"
  by (simp add: queued_def)

lemma queued_trans: "queued a b \<Longrightarrow> queued b c \<Longrightarrow> queued a c"
  unfolding queued_def by (rule subset_trans)

lemma queued_writes:
  "appendEvent e st = Inr (i, st') \<Longrightarrow> queued st st'"
  "saveReport r st = Inr st' \<Longrightarrow> queued st st'"
  by (auto simp: queued_def saveReport_def appendEvent_def Let_def split: if_splits option.splits)

lemma enqueue_queued:
  assumes "enqueueOutboxItem uuid now kd i v ev ch st = Inr (it, st')"
  shows "queued st st'" and "it \<in> set (vsOutbox st')" and "obKind it = kd" "obReportID it = i" "obVersionNo it = v"
  using assms by (auto simp: queued_def enqueueOutboxItem_def Let_def split: option.splits if_splits)

lemma queued_enqueue:
  "enqueue_version env r st = Inr (it, st') \<Longrightarrow> queued st st'"
  "enqueue_audit env r i st = Inr (it, st') \<Longrightarrow> queued st st'"
  by (auto simp: enqueue_version_def enqueue_audit_def enqueueReportVersion_def enqueueReportAuditEvent_def dest: enqueue_queued)

lemma queued_cascade_event: "queued st (snd (cascade_event env r e st))"
  unfolding cascade_event_def
proof (rule attempt_val_inv[where P = "queued st"])
  fix i s assume "appendEvent e st = Inr (i, s)"
  then have s: "queued st s" by (rule queued_writes)
  have v: "queued st (snd (attempt_val s1 (enqueue_audit env r i s1) (\<lambda>_ st. (Inr (), st))))" if "queued st s1" for s1
    by (rule attempt_val_inv[where P = "queued st"]) (use that in \<open>auto dest: queued_enqueue intro: queued_trans\<close>)
  have "queued st (snd (attempt_val s (enqueue_version env r s) (\<lambda>_ st.
      attempt_val st (enqueue_audit env r i st) (\<lambda>_ st. (Inr (), st)))))"
    by (rule attempt_val_inv[where P = "queued st"]) (use s in \<open>auto intro!: v dest: queued_enqueue intro: queued_trans\<close>)
  with s show "queued st (snd (if InvalidatedFrom r \<noteq> StateDraft \<and> InvalidatedFrom r \<noteq> StateReady
      then attempt_val s (enqueue_version env r s) (\<lambda>_ st.
        attempt_val st (enqueue_audit env r i st) (\<lambda>_ st. (Inr (), st)))
      else (Inr (), s)))" by simp
qed (simp_all add: queued_writes)

lemma queued_runCascade: "queued st (snd (runCascade env sname st))"
  unfolding runCascade_def
proof (rule for_each_inv[where P = "queued st"])
  fix r s assume s: "queued st s"
  show "queued st (snd (cascade_step env (cascade_result env sname st) r s))"
  proof (cases "flagged (cascade_result env sname st) r")
    case (Some rules)
    obtain r' e where inv: "invalidate rules (envNow env) r = (r', e)" by fastforce
    show ?thesis
      unfolding cascade_step_Some[OF Some inv]
      by (rule attempt_inv[where P = "queued st"])
        (auto intro: s queued_trans[OF s] queued_trans[OF _ queued_cascade_event] dest: queued_writes(2))
  qed (simp add: cascade_step_None s)
qed simp

text \<open>
  A submission: the caller may submit, the latest version was ready, and afterwards that version is committed and
  queued for the office.
\<close>

lemma handleSubmitReport_succeeded:
  assumes "handleSubmitReport env i s = (Inr v, s')"
  obtains u r r1 e st where "signed_in_as env s u" "canSubmitReports u" "getLatestVersion i (srvStore s) = Inr r"
    "submit (envNow env) (uUsername u) r = Inr (r1, e)"
    "attempt (srvStore s) (saveReport r1 (srvStore s)) (submit_event env r1 e) = (Inr (), st)"
    "runCascade env (SchemaName r1) st = (Inr (), srvStore s')"
  using assms by (fastforce simp: handleSubmitReport_def succeeded split: prod.splits)

lemma submitted_is_queued:
  assumes "handleSubmitReport env i s = (Inr v, s')" and "slice_sort (envSorter env)" and "report_ok (srvStore s)"
  shows "\<exists>u r it. signed_in_as env s u \<and> canSubmitReports u \<and> getLatestVersion i (srvStore s) = Inr r \<and>
    State r = StateReady \<and> committed_at (srvStore s') (i, VersionNo r) \<and>
    it \<in> set (vsOutbox (srvStore s')) \<and> obKind it = OutboxItemKindReportVersion \<and>
    obReportID it = i \<and> obVersionNo it = VersionNo r"
proof -
  obtain u r r1 e st where h: "signed_in_as env s u" "canSubmitReports u" "getLatestVersion i (srvStore s) = Inr r"
    "submit (envNow env) (uUsername u) r = Inr (r1, e)"
    "attempt (srvStore s) (saveReport r1 (srvStore s)) (submit_event env r1 e) = (Inr (), st)"
    "runCascade env (SchemaName r1) st = (Inr (), srvStore s')"
    by (rule handleSubmitReport_succeeded[OF assms(1)])
  have r1: "State r = StateReady" "report_key r1 = report_key r" "State r1 = StateSubmitted"
    using submit_SomeD[OF h(4)] by (auto simp: report_key_def)
  have i: "ReportID r = i" using getLatest_sel(1)[OF h(3)] .
  from h(5) obtain st1 ev st2 it st3 it' where w: "saveReport r1 (srvStore s) = Inr st1" "appendEvent e st1 = Inr (ev, st2)"
      "enqueue_version env r1 st2 = Inr (it, st3)" "enqueue_audit env r1 ev st3 = Inr (it', st)"
    by (auto simp: succeeded submit_event_def)
  have it: "it \<in> set (vsOutbox st3)" "obKind it = OutboxItemKindReportVersion" "obReportID it = i" "obVersionNo it = VersionNo r"
    using w(3) r1(2) i enqueue_queued by (auto simp: enqueue_version_def enqueueReportVersion_def report_key_def)
  have "queued st3 (srvStore s')"
    using queued_enqueue(2)[OF w(4)] queued_runCascade[of st env "SchemaName r1"] by (auto simp: h(6) intro: queued_trans)
  then have q: "it \<in> set (vsOutbox (srvStore s'))" using it(1) by (auto simp: queued_def)
  have "vstep (srvStore s) (snd (attempt (srvStore s) (saveReport r1 (srvStore s)) (submit_event env r1 e)))"
    by (rule save_then_vstep) (use r1(1) in \<open>auto intro: save_editable_vstep[OF h(3) _ r1(2)] queue_only_events simp: inChain_def\<close>)
  then have "vstep (srvStore s) st" using h(5) by simp
  then have ok: "report_ok st" using assms(3) by (simp add: vstep_def)
  have "look_report st1 (report_key r) = Some (upsert_row r r1)"
    using report_table.put_look_key[OF w(1)] getLatest_look[OF assms(3) h(3)] r1(2) by simp
  moreover have "look_report st = look_report st1"
    by (rule look_same) (use appendEvent_reports[OF w(2)] enqueue_rows(1)[OF w(3)] enqueue_rows(2)[OF w(4)] in simp)
  ultimately have "look_report st (report_key r) = Some (upsert_row r r1)" by simp
  then have "committed_at st (report_key r)"
    using r1(3) by (simp add: committed_at_def upsert_row_def inChain_def)
  moreover have "vstep st (srvStore s')"
    using runCascade_contract[OF assms(2), where st = st and sname = "SchemaName r1"] by (simp add: h(6))
  ultimately have "committed_at (srvStore s') (report_key r)"
    using ok by (auto simp: vstep_def report_key_def intro: committed_frozen_at)
  then have "committed_at (srvStore s') (i, VersionNo r)" using i by (simp add: report_key_def)
  then show ?thesis using h(1-3) r1(1) q it(2-4) by blast
qed

text \<open>A deletion: the report has one version, never committed, no section of it is locked by another, and it is gone.\<close>

lemma handleDeleteReport_succeeded:
  assumes "handleDeleteReport env i s = (Inr v, s')"
  obtains u r st where "signed_in_as env s u" "getLatestVersion i (srvStore s) = Inr r"
    "\<not> inChain (State r)" "VersionNo r = 1"
    "\<forall>l \<in> set (lock_snapshot (envNow env) i (srvLocks s)). slUserID l = uID u"
    "deleteReport (envNow env) i (uUsername u) (srvStore s) = Inr st"
    "runCascade env (SchemaName r) st = (Inr (), srvStore s')"
proof -
  obtain u r l where h: "signed_in_as env s u" "getLatestVersion i (srvStore s) = Inr r" "\<not> inChain (State r)" "VersionNo r = 1"
    "List.find (\<lambda>l. slUserID l \<noteq> uID u) (lock_snapshot (envNow env) i (srvLocks s)) = None"
    and "\<exists>st. deleteReport (envNow env) i (uUsername u) (srvStore s) = Inr st \<and>
      runCascade env (SchemaName r) st = (Inr (), srvStore s')"
    using assms by (fastforce simp: handleDeleteReport_def succeeded)
  then show thesis using that by (auto simp: find_None_iff)
qed

lemma runCascade_no_new_rows:
  assumes "slice_sort (envSorter env)" and "store_wf st" and "runCascade env sname st = (Inr (), st')"
  shows "map report_key (vsReports st') = map report_key (vsReports st)"
  using runCascade_rows[OF assms] by (simp add: cascade_rows_def split: option.split)

text \<open>A save: no section a changed field belongs to is locked by another.\<close>

lemma lock_conflict_loop_None:
  "lock_conflict_loop sections holder caller checked flds = None \<longleftrightarrow>
   (\<forall>f \<in> set flds. \<forall>sec. gm_lookup sections f = Some sec \<longrightarrow> sec \<notin> set checked \<longrightarrow>
      \<not> (snd (holder sec) \<and> slUserID (fst (holder sec)) \<noteq> caller))"
proof (induction flds arbitrary: checked)
  case (Cons f flds)
  show ?case
  proof (cases "gm_lookup sections f")
    case (Some sec)
    obtain l ok where l: "holder sec = (l, ok)" by fastforce
    show ?thesis
    proof (cases "ok \<and> slUserID l \<noteq> caller")
      case True
      with Some l Cons show ?thesis by auto
    next
      case False
      then have free: "snd (holder sec) \<Longrightarrow> slUserID (fst (holder sec)) = caller" by (auto simp: l)
      have eq: "lock_conflict_loop sections holder caller checked (f # flds) =
          lock_conflict_loop sections holder caller (if sec \<in> set checked then checked else sec # checked) flds"
        using False Some by (auto simp: l)
      show ?thesis
        unfolding eq Cons using Some free by (auto split: if_splits)
    qed
  qed (use Cons in simp)
qed simp

lemma lock_holder_free:
  "(snd (lock_holder now i sec m) \<longrightarrow> slUserID (fst (lock_holder now i sec m)) = caller) \<longleftrightarrow>
   (\<forall>u. u = caller \<or> \<not> holds now u (i, sec) m)"
  by (auto simp: lock_holder_def holds_def split: option.split)

lemma lockConflict_None:
  assumes "envLoad env (SchemaName r) = Some sch" and "\<And>xs. set (envIter env xs) = set xs"
  shows "lockConflict env m r changes caller = None \<longleftrightarrow>
    (\<forall>f \<in> fst ` set changes. \<forall>sec. gm_lookup (section_by_field sch) f = Some sec \<longrightarrow>
       \<not> (\<exists>u. u \<noteq> caller \<and> holds (envNow env) u (ReportID r, sec) m))"
  by (simp add: lockConflict_def assms lock_conflict_loop_None lock_holder_free)

lemma handleSaveSection_succeeded:
  assumes "handleSaveSection env i body s = (Inr v, s')"
  obtains u req r r1 e st where "signed_in_as env s u" "body = Some req" "getLatestVersion i (srvStore s) = Inr r"
    "\<not> inChain (State r)" "lockConflict env (srvLocks s) r (ssrChanges req) (uID u) = None"
    "saveSection (envNow env) (ssrSection req) (ssrChanges req) (uUsername u) r = Some (r1, e)"
    "save_and_record env r1 e (srvStore s) = (Inr (), st)" "runCascade env (SchemaName r1) st = (Inr (), srvStore s')"
  using assms by (fastforce simp: handleSaveSection_def succeeded aborted_def split: option.splits)

text \<open>A correction: a new draft of a committed version, with its data.\<close>

lemma handleStartCorrection_succeeded:
  assumes "handleStartCorrection env i s = (Inr v, s')"
  obtains u r nxt e where "signed_in_as env s u" "getLatestVersion i (srvStore s) = Inr r"
    "newCorrection (envNow env) (uUsername u) r = Inr (nxt, e)"
    "attempt (srvStore s) (saveReport nxt (srvStore s)) (record_event env r e) = (Inr (), srvStore s')"
  using assms by (fastforce simp: handleStartCorrection_def succeeded split: prod.splits)

section \<open>What the office sends\<close>

text \<open>Notices and remarks change only the state of a latest version, and never back to an editable one.\<close>

lemma save_and_append_vstep:
  assumes "getLatestVersion i st = Inr r" and "report_key r' = report_key r" and "inChain (State r) \<Longrightarrow> inChain (State r')"
  shows "vstep st (snd (save_and_append r' e st))"
proof -
  have "queue_only (\<lambda>st. attempt_val st (appendEvent e st) (\<lambda>_ st. (Inr (), st)))"
    by (rule queue_only_attempt_val[OF _ queue_only_done]) (rule appendEvent_only)
  then show ?thesis
    unfolding save_and_append_def by (rule save_then_vstep[rotated]) (rule save_latest_vstep[OF _ assms])
qed

lemma applyInvalidationNotice_vstep: "vstep st (snd (applyInvalidationNotice n st))"
  unfolding applyInvalidationNotice_def
  by (auto split: sum.split prod.split dest: invalidate_report_key invalidate_sel
      intro!: save_and_append_vstep simp: inChain_def)

lemma applyRemarkGroup_vstep: "vstep st (snd (applyRemarkGroup g st))"
  unfolding applyRemarkGroup_def
  by (auto split: sum.split prod.split dest!: markRemarked_SomeD intro!: save_and_append_vstep
      simp: inChain_def report_key_def)

lemma pull_transaction_vstep: "vstep st (pull_transaction svs cbs msgs c st)"
  by (rule vstep_same_reports) (simp_all add: store_wf_pull_transaction)

lemma applyInboxPull_vstep: "vstep st (snd (applyInboxPull iter svs cbs msgs notices rms c st))"
proof -
  have n: "vstep s (snd (notice_step n s))" for n s
    unfolding notice_step_def
    by (rule vstep_trans[OF vstep_same_reports applyInvalidationNotice_vstep]) (simp_all add: store_wf_notice)
  have "vstep st (snd (for_each notice_step notices (pull_transaction svs cbs msgs c st)))"
    by (rule for_each_inv[where P = "vstep st"]) (auto intro: pull_transaction_vstep vstep_trans[OF _ n])
  then show ?thesis
    unfolding applyInboxPull_def
  proof (rule andthen_inv)
    fix v s assume s: "vstep st s"
    obtain new s2 where f: "fold remark_step rms ([], s) = (new, s2)" by fastforce
    have "vsReports s2 = vsReports s" using remark_steps_reports[of rms "([], s)"] f by simp
    moreover have "store_wf s \<Longrightarrow> store_wf s2" using store_wf_remark_steps[of "([], s)" rms] f by simp
    ultimately have s2: "vstep s s2" by (rule vstep_same_reports)
    have "vstep s (snd (applyRemarks iter new s2))"
      unfolding applyRemarks_def
      by (rule for_each_inv[where P = "vstep s"]) (auto intro: s2 vstep_trans[OF _ applyRemarkGroup_vstep])
    then show "vstep st (snd (case fold remark_step rms ([], s) of (new, st) \<Rightarrow> applyRemarks iter new st))"
      using s f by (auto intro: vstep_trans)
  qed
qed

text \<open>The acknowledgement of an outbox item.\<close>

lemma ack_vstep: "vstep st (ackOutboxItem i st)"
  by (rule vstep_same_reports) (simp_all add: ackOutboxItem_def store_wf_ack[unfolded ackOutboxItem_def])

section \<open>Requests that succeed\<close>

lemma enqueue_version_succeeds:
  assumes "store_wf st" and "ids_fresh env st"
  shows "\<exists>it st'. enqueue_version env r st = Inr (it, st') \<and> ids_fresh env st'"
  unfolding enqueue_version_def enqueueReportVersion_def using assms by (rule enqueue_succeeds)

lemma enqueue_audit_succeeds:
  assumes "store_wf st" and "ids_fresh env st"
  shows "\<exists>it st'. enqueue_audit env r i st = Inr (it, st') \<and> ids_fresh env st'"
  unfolding enqueue_audit_def enqueueReportAuditEvent_def using assms by (rule enqueue_succeeds)

lemma appendEvent_fresh: "appendEvent e st = Inr (i, st') \<Longrightarrow> ids_fresh env st' = ids_fresh env st"
  using appendEvent_SomeD[of e st i st'] by (auto simp: ids_fresh_def)

lemma submit_event_succeeds:
  assumes "store_wf st" and "ids_fresh env st" and "evDetail e = None"
  shows "\<exists>st'. submit_event env r e st = (Inr (), st') \<and> ids_fresh env st'"
proof -
  obtain i st1 where st1: "appendEvent e st = Inr (i, st1)" using assms(3) by (simp add: appendEvent_def)
  have wf1: "store_wf st1" using assms(1) st1 by (rule store_wf_appendEvent)
  obtain it2 st2 where st2: "enqueue_version env r st1 = Inr (it2, st2)" "ids_fresh env st2"
    using enqueue_version_succeeds[OF wf1] assms(2) by (metis appendEvent_fresh[OF st1])
  have wf2: "store_wf st2" using enqueue_only(1)[OF st2(1)] wf1 by simp
  obtain it3 st3 where "enqueue_audit env r i st2 = Inr (it3, st3)" "ids_fresh env st3"
    using enqueue_audit_succeeds[OF wf2 st2(2)] by metis
  with st1 st2(1) show ?thesis by (auto simp: submit_event_def)
qed

lemma latest_exists: "look_report st (i, v) \<noteq> None \<Longrightarrow> \<exists>x. getLatestVersion i st = Inr x"
  by (cases "getLatestVersion i st") (auto simp: getLatestVersion_Inl look_report_def find_row_None_iff report_key_def)

lemma cascade_reads_back:
  assumes "slice_sort (envSorter env)" and "report_ok st" and "ids_fresh env st" and "look_report st (report_key r) \<noteq> None"
  shows "\<exists>st' x. runCascade env sname st = (Inr (), st') \<and> getLatestVersion (ReportID r) st' = Inr x"
proof -
  have wf: "store_wf st" "rows_finite st" using assms(2) by (simp_all add: report_ok_def)
  obtain st' where st': "runCascade env sname st = (Inr (), st')"
    using runCascade_succeeds[OF assms(1) wf assms(3)] by blast
  have "report_key ` set (vsReports st') = report_key ` set (vsReports st)"
    using runCascade_no_new_rows[OF assms(1) wf(1) st'] by (metis set_map)
  then have "look_report st' (report_key r) \<noteq> None"
    using assms(4) by (simp add: look_report_def find_row_None_iff)
  then show ?thesis using st' latest_exists[of st' "ReportID r" "VersionNo r"] by (auto simp: report_key_def)
qed

text \<open>A user who may submit can submit a report that is ready.\<close>

lemma handleSubmitReport_succeeds:
  assumes "slice_sort (envSorter env)" and "report_ok (srvStore s)" and "ids_fresh env (srvStore s)"
    and "signed_in_as env s u" and "canSubmitReports u" and "getLatestVersion i (srvStore s) = Inr r" and "State r = StateReady"
  shows "\<exists>v s'. handleSubmitReport env i s = (Inr v, s')"
proof -
  obtain r1 e where r1: "submit (envNow env) (uUsername u) r = Inr (r1, e)" "evDetail e = None"
    using assms(7) by (auto simp: submit_def Let_def)
  have key: "report_key r1 = report_key r" "Fields r1 = Fields r"
    using submit_SomeD[OF r1(1)] by (auto simp: report_key_def)
  have row: "look_report (srvStore s) (report_key r) = Some r" using assms(2,6) by (rule getLatest_look)
  then have "r \<in> set (vsReports (srvStore s))" by (auto simp: look_report_def dest: find_row_SomeD)
  then have "fields_finite (Fields r1)" using assms(2) key by (simp add: report_ok_def rows_finite_def)
  then obtain st1 where st1: "saveReport r1 (srvStore s) = Inr st1"
    using row key assms(7) by (auto simp: saveReport_def look_report_def trigger_aborts_def inChain_def)
  have wf1: "store_wf st1" using assms(2) st1 by (auto simp: report_ok_def intro: store_wf_saveReport)
  have f1: "ids_fresh env st1" using assms(3) by (simp add: ids_fresh_def saveReport_frame[OF st1])
  obtain st2 where st2: "submit_event env r1 e st1 = (Inr (), st2)" "ids_fresh env st2"
    using submit_event_succeeds[OF wf1 f1 r1(2)] by blast
  have w: "attempt (srvStore s) (saveReport r1 (srvStore s)) (submit_event env r1 e) = (Inr (), st2)"
    by (simp add: st1 st2(1))
  have "vstep (srvStore s) (snd (attempt (srvStore s) (saveReport r1 (srvStore s)) (submit_event env r1 e)))"
    by (rule save_then_vstep)
      (use assms(7) in \<open>auto intro: save_editable_vstep[OF assms(6) _ key(1)] queue_only_events simp: inChain_def\<close>)
  then have ok2: "report_ok st2" using assms(2) by (simp add: w vstep_def)
  have "look_report st1 (report_key r1) \<noteq> None" using report_table.put_look_key[OF st1] by simp
  moreover have "vsReports st2 = vsReports st1"
    using queue_only_reports[OF queue_only_events(2), of env r1 e st1] st2(1) by simp
  ultimately have "look_report st2 (report_key r1) \<noteq> None" by (simp add: look_report_def)
  from cascade_reads_back[OF assms(1) ok2 st2(2) this, of "SchemaName r1"] show ?thesis
    using assms(4-6) r1(1) w by (fastforce simp: handleSubmitReport_def succeeded)
qed

section \<open>Effects on the table of reports\<close>

lemma delete_effect:
  assumes "handleDeleteReport env i s = (Inr v, s')" and "slice_sort (envSorter env)" and "report_ok (srvStore s)"
  shows "i \<notin> ReportID ` set (vsReports (srvStore s'))" and "\<not> committed_at (srvStore s) (i, w)"
proof -
  obtain u r st where "signed_in_as env s u" and h: "getLatestVersion i (srvStore s) = Inr r"
      "\<not> inChain (State r)" "VersionNo r = 1"
    and "\<forall>l \<in> set (lock_snapshot (envNow env) i (srvLocks s)). slUserID l = uID u"
    and h': "deleteReport (envNow env) i (uUsername u) (srvStore s) = Inr st"
    "runCascade env (SchemaName r) st = (Inr (), srvStore s')"
    by (rule handleDeleteReport_succeeded[OF assms(1)])
  have wf: "store_wf st" using assms(3) h'(1) by (auto simp: report_ok_def intro: store_wf_deleteReport)
  have "i \<notin> ReportID ` set (vsReports st)" using h(1) h'(1) by (auto simp: deleteReport_def)
  moreover have "ReportID ` set (vsReports st) = fst ` set (map report_key (vsReports st))"
    "ReportID ` set (vsReports (srvStore s')) = fst ` set (map report_key (vsReports (srvStore s')))"
    by (simp_all add: image_image report_key_def)
  ultimately show "i \<notin> ReportID ` set (vsReports (srvStore s'))"
    using runCascade_no_new_rows[OF assms(2) wf h'(2)] by simp
  show "\<not> committed_at (srvStore s) (i, w)"
  proof
    assume "committed_at (srvStore s) (i, w)"
    then obtain q where q: "look_report (srvStore s) (i, w) = Some q" "inChain (State q)" by (auto simp: committed_at_def)
    then have row: "q \<in> set (vsReports (srvStore s))" "report_key q = (i, w)"
      using assms(3) by (simp_all add: report_ok_def look_row)
    have "VersionNo q \<le> 1" using getLatest_sel(2)[OF h(1) row(1)] row(2) h(3) by (simp add: report_key_def)
    moreover have "1 \<le> VersionNo q"
      using versions_okD[OF _ q(1)] assms(3) by (auto simp: report_ok_def version_allowed_def)
    ultimately have "(i, w) = report_key r"
      using row(2) h(3) getLatest_sel(1)[OF h(1)] by (simp add: report_key_def)
    then have "q = r" using q(1) getLatest_look[OF assms(3) h(1)] by simp
    with q(2) h(2) show False by simp
  qed
qed

lemma correction_effect:
  assumes "handleStartCorrection env i s = (Inr v, s')" and "report_ok (srvStore s)"
  obtains r nxt where "getLatestVersion i (srvStore s) = Inr r" "inChain (State r)"
    "getLatestVersion i (srvStore s') = Inr nxt" "VersionNo nxt = VersionNo r + 1" "State nxt = StateDraft"
    "Fields nxt = Fields r" "look_report (srvStore s') (report_key r) = Some r"
proof -
  obtain u r nxt e where "signed_in_as env s u" and h: "getLatestVersion i (srvStore s) = Inr r"
    "newCorrection (envNow env) (uUsername u) r = Inr (nxt, e)"
    "attempt (srvStore s) (saveReport nxt (srvStore s)) (record_event env r e) = (Inr (), srvStore s')"
    by (rule handleStartCorrection_succeeded[OF assms(1)])
  note n = newCorrection_SomeD[OF h(2)]
  have i: "ReportID r = i" using getLatest_sel(1)[OF h(1)] .
  from h(3) obtain st1 where st1: "saveReport nxt (srvStore s) = Inr st1" "record_event env r e st1 = (Inr (), srvStore s')"
    by (auto simp: succeeded)
  have rows: "vsReports (srvStore s') = vsReports st1"
    using queue_only_reports[OF queue_only_events(1), of env r e st1] st1(2) by simp
  have none: "find_row report_key (vsReports (srvStore s)) (report_key nxt) = None"
  proof -
    have "report_key x \<noteq> report_key nxt" if "x \<in> set (vsReports (srvStore s))" for x
      using getLatest_sel(2)[OF h(1) that] n i by (auto simp: report_key_def)
    then show ?thesis by (force simp: find_row_None_iff)
  qed
  then have new: "vsReports (srvStore s') = vsReports (srvStore s) @ [nxt]"
    using st1(1) by (auto simp: rows saveReport_def split: if_splits)
  obtain x where x: "getLatestVersion i (srvStore s') = Inr x"
    using latest_exists[of "srvStore s'" i "VersionNo nxt"] n i
    by (auto simp: look_report_def find_row_None_iff new report_key_def)
  have "x \<in> set (vsReports (srvStore s'))" using x by (auto simp: getLatestVersion_Inr dest: latest_version_SomeD)
  moreover have "VersionNo nxt \<le> VersionNo x" using getLatest_sel(2)[OF x, of nxt] n i by (simp add: new)
  ultimately have "x = nxt"
    using getLatest_sel(2)[OF h(1), of x] getLatest_sel(1)[OF x] n by (auto simp: new)
  moreover have "look_report (srvStore s') (report_key r) = Some r"
    using getLatest_look[OF assms(2) h(1)] by (simp add: look_report_def new find_row_append)
  ultimately show thesis using that[OF h(1) _ x] n by (auto simp: inChain_def)
qed

text \<open>A save that touches a section another user holds is refused and changes nothing in the store.\<close>

lemma signed_in_Inr_eq:
  "signed_in_as env s u \<Longrightarrow> \<exists>s1. signed_in env s = (Inr u, s1) \<and> srvStore s1 = srvStore s \<and> srvLocks s1 = srvLocks s"
  unfolding signed_in_as_def by (cases "signed_in env s") (auto dest: signed_in_Inr)

lemma save_refused:
  assumes "signed_in_as env s u" and "getLatestVersion i (srvStore s) = Inr r" and "\<not> inChain (State r)"
    and "envLoad env (SchemaName r) = Some sch" and "\<And>xs. set (envIter env xs) = set xs"
    and "f \<in> fst ` set (ssrChanges req)" and "gm_lookup (section_by_field sch) f = Some sec"
    and "holds (envNow env) w (ReportID r, sec) (srvLocks s)" and "w \<noteq> uID u"
  shows "\<exists>l. fst (handleSaveSection env i (Some req) s) = Inl (StatusConflict, ErrorText (lock_conflict_error l))"
    and "srvStore (snd (handleSaveSection env i (Some req) s)) = srvStore s"
proof -
  obtain s1 where s1: "signed_in env s = (Inr u, s1)" "srvStore s1 = srvStore s" "srvLocks s1 = srvLocks s"
    using signed_in_Inr_eq[OF assms(1)] by blast
  obtain l where l: "lockConflict env (srvLocks s) r (ssrChanges req) (uID u) = Some l"
    using lockConflict_None[OF assms(4,5), of "srvLocks s" "ssrChanges req" "uID u"] assms(6-9) by fastforce
  have "handleSaveSection env i (Some req) s = writeErrorText StatusConflict (lock_conflict_error l) s1"
    using assms(2,3) by (auto simp: handleSaveSection_def s1 l loadEditableReport_def with_latest_def inChain_def)
  then show "\<exists>l. fst (handleSaveSection env i (Some req) s) = Inl (StatusConflict, ErrorText (lock_conflict_error l))"
    and "srvStore (snd (handleSaveSection env i (Some req) s)) = srvStore s"
    by (auto simp: writeErrorText_def s1)
qed

end
