(* ===== verification/Compliance.thy ===== *)
theory Compliance
  imports Policy Continuity "HOL-Library.Product_Lexorder"
begin

text \<open>
  \<open>office/compliance\<close>: configuration that is assigned to the fleet, a group of vessels or one vessel, and what applies to
  a vessel: rule severities (\<open>rulesev.go\<close>), reporting cadence (\<open>cadence.go\<close>) and regulatory profiles (\<open>profiles.go\<close>).

  The assignments are a list in the order the store returned them.  Lemmas: what each resolver returns as a function of
  the assignments that cover the vessel; that severities and profiles do not depend on the order of the list when each
  scope has one assignment, as the tables enforce; that no resolver can touch the rules that are locked.
\<close>

section \<open>Scopes\<close>

datatype scopeType = ScopeFleet | ScopeGroup | ScopeVessel | ScopeTypeOther string

record scope =
  scType :: scopeType
  scKey :: string

datatype compliance_error =
    ErrGroupTagRequired
  | ErrVesselIDRequired
  | ErrFleetKey
  | ErrScopeKeyRequired scopeType
  | ErrUnknownScopeType scopeType
  | ErrHardRuleLocked
  | ErrUnknownRule string
  | ErrUnknownSeverity severity
  | ErrMinInterval float64
  | ErrMaxGap float64
  | UnknownProfileError profile

definition fleetScope :: scope where
  "fleetScope = \<lparr>scType = ScopeFleet, scKey = ''''\<rparr>"

definition groupScope :: "string \<Rightarrow> compliance_error + scope" where
  "groupScope grp =
     (let grp = trim_space grp in
      if grp = '''' then Inl ErrGroupTagRequired else Inr \<lparr>scType = ScopeGroup, scKey = grp\<rparr>)"

definition vesselScope :: "string \<Rightarrow> compliance_error + scope" where
  "vesselScope vesselID =
     (let vesselID = trim_space vesselID in
      if vesselID = '''' then Inl ErrVesselIDRequired else Inr \<lparr>scType = ScopeVessel, scKey = vesselID\<rparr>)"

definition validateScope :: "scope \<Rightarrow> compliance_error option" where
  "validateScope s =
     (case scType s of
        ScopeFleet \<Rightarrow> if scKey s \<noteq> '''' then Some ErrFleetKey else None
      | ScopeGroup \<Rightarrow> if scKey s = '''' then Some (ErrScopeKeyRequired (scType s)) else None
      | ScopeVessel \<Rightarrow> if scKey s = '''' then Some (ErrScopeKeyRequired (scType s)) else None
      | ScopeTypeOther _ \<Rightarrow> Some (ErrUnknownScopeType (scType s)))"

definition coversVessel :: "scope \<Rightarrow> string \<Rightarrow> string list \<Rightarrow> bool" where
  "coversVessel s vesselID groups =
     (case scType s of
        ScopeFleet \<Rightarrow> True
      | ScopeVessel \<Rightarrow> scKey s = vesselID
      | ScopeGroup \<Rightarrow> scKey s \<in> set groups
      | ScopeTypeOther _ \<Rightarrow> False)"

text \<open>
  The loop with which the resolvers sort assignments: the last one for the vessel, the last one for the fleet, and in
  their order those for a group of the vessel.
\<close>

type_synonym 'a scoped = "'a option \<times> 'a option \<times> 'a list"

definition scope_step :: "('a \<Rightarrow> scope) \<Rightarrow> string \<Rightarrow> string list \<Rightarrow> 'a \<Rightarrow> 'a scoped \<Rightarrow> 'a scoped" where
  "scope_step sc vesselID groups a acc =
     (case acc of (vesselA, fleetA, groupAs) \<Rightarrow>
        case scType (sc a) of
          ScopeVessel \<Rightarrow> if scKey (sc a) = vesselID then (Some a, fleetA, groupAs) else acc
        | ScopeFleet \<Rightarrow> (vesselA, Some a, groupAs)
        | ScopeGroup \<Rightarrow> if coversVessel (sc a) vesselID groups then (vesselA, fleetA, groupAs @ [a]) else acc
        | ScopeTypeOther _ \<Rightarrow> acc)"

definition by_scope :: "('a \<Rightarrow> scope) \<Rightarrow> string \<Rightarrow> string list \<Rightarrow> 'a list \<Rightarrow> 'a scoped" where
  "by_scope sc vesselID groups as = fold (scope_step sc vesselID groups) as (None, None, [])"

section \<open>Rule severities\<close>

definition overridableRuleIDs :: "string list" where
  "overridableRuleIDs =
     [RuleTimeBucketSum, RuleImpliedSpeed, RuleNoDistanceStationary, RulePositionRequired, RulePositionConsistency,
      RuleTimeChain, RuleROBContinuity, RuleEventOrdering, RuleTimestampUniqueness]"

definition hardRuleIDs :: "string list" where
  "hardRuleIDs = [RuleConsumptionSchemeExclusive]"

record ruleSeverityAssignment =
  rsScope :: scope
  rsSeverities :: "(string, severity) gomap"
  rsUpdatedAt :: gotime

definition newRuleSeverityAssignment :: "scope \<Rightarrow> compliance_error + ruleSeverityAssignment" where
  "newRuleSeverityAssignment s =
     (case validateScope s of
        Some e \<Rightarrow> Inl e
      | None \<Rightarrow> Inr \<lparr>rsScope = s, rsSeverities = [], rsUpdatedAt = zero_time\<rparr>)"

definition setSeverity ::
  "gotime \<Rightarrow> string \<Rightarrow> severity \<Rightarrow> ruleSeverityAssignment \<Rightarrow> compliance_error + ruleSeverityAssignment" where
  "setSeverity now ruleID sev a =
     (if ruleID \<in> set hardRuleIDs then Inl ErrHardRuleLocked
      else if ruleID \<notin> set overridableRuleIDs then Inl (ErrUnknownRule ruleID)
      else if sev \<notin> {SeverityError, SeverityWarning, SeverityInfo} then Inl (ErrUnknownSeverity sev)
      else Inr (a\<lparr>rsSeverities := gm_update ruleID sev (rsSeverities a), rsUpdatedAt := now\<rparr>))"

fun severityRank :: "severity \<Rightarrow> nat" where
  "severityRank SeverityError = 0"
| "severityRank SeverityWarning = 1"
| "severityRank _ = 2"

text \<open>\<open>None\<close> stands for \<open>found = false\<close>.\<close>

definition strictest_step :: "string \<Rightarrow> ruleSeverityAssignment \<Rightarrow> severity option \<Rightarrow> severity option" where
  "strictest_step ruleID a strictest =
     (case gm_lookup (rsSeverities a) ruleID of
        None \<Rightarrow> strictest
      | Some sev \<Rightarrow>
          (case strictest of
             None \<Rightarrow> Some sev
           | Some s \<Rightarrow> if severityRank sev < severityRank s then Some sev else strictest))"

definition strictestGroupSeverity :: "ruleSeverityAssignment list \<Rightarrow> string \<Rightarrow> severity option" where
  "strictestGroupSeverity groupAssignments ruleID = fold (strictest_step ruleID) groupAssignments None"

definition effective_severity :: "ruleSeverityAssignment scoped \<Rightarrow> string \<Rightarrow> severity option" where
  "effective_severity sc ruleID =
     (case sc of (vesselA, fleetA, groupAs) \<Rightarrow>
        case Option.bind vesselA (\<lambda>a. gm_lookup (rsSeverities a) ruleID) of
          Some sev \<Rightarrow> Some sev
        | None \<Rightarrow>
            (case strictestGroupSeverity groupAs ruleID of
               Some sev \<Rightarrow> Some sev
             | None \<Rightarrow> Option.bind fleetA (\<lambda>a. gm_lookup (rsSeverities a) ruleID)))"

definition effectiveSeverities ::
  "ruleSeverityAssignment list \<Rightarrow> string \<Rightarrow> string list \<Rightarrow> (string, severity) gomap" where
  "effectiveSeverities assignments vesselID vesselGroups =
     (let sc = by_scope rsScope vesselID vesselGroups assignments in
      fold (\<lambda>ruleID result. case effective_severity sc ruleID of None \<Rightarrow> result | Some sev \<Rightarrow> gm_update ruleID sev result)
        overridableRuleIDs [])"

section \<open>Cadence\<close>

record cadenceRule =
  crScope :: scope
  crMinReportIntervalHours :: float64
  crMaxGapHours :: float64
  crUpdatedAt :: gotime

definition newCadenceRule :: "gotime \<Rightarrow> scope \<Rightarrow> float64 \<Rightarrow> float64 \<Rightarrow> compliance_error + cadenceRule" where
  "newCadenceRule now s minReportIntervalHours maxGapHours =
     (case validateScope s of
        Some e \<Rightarrow> Inl e
      | None \<Rightarrow>
          if f64_le minReportIntervalHours (F64 0) then Inl (ErrMinInterval minReportIntervalHours)
          else if f64_le maxGapHours (F64 0) then Inl (ErrMaxGap maxGapHours)
          else Inr \<lparr>crScope = s, crMinReportIntervalHours = minReportIntervalHours, crMaxGapHours = maxGapHours,
                    crUpdatedAt = now\<rparr>)"

definition stricterCadence :: "cadenceRule \<Rightarrow> cadenceRule \<Rightarrow> bool" where
  "stricterCadence a b \<longleftrightarrow>
     (if \<not> f64_eq (crMaxGapHours a) (crMaxGapHours b) then f64_lt (crMaxGapHours a) (crMaxGapHours b)
      else f64_lt (crMinReportIntervalHours a) (crMinReportIntervalHours b))"

definition cadence_step ::
  "string \<Rightarrow> string list \<Rightarrow> cadenceRule \<Rightarrow> cadenceRule option \<times> cadenceRule option \<times> cadenceRule option
   \<Rightarrow> cadenceRule option \<times> cadenceRule option \<times> cadenceRule option" where
  "cadence_step vesselID vesselGroups r acc =
     (case acc of (vesselRule, fleetRule, groupRule) \<Rightarrow>
        case scType (crScope r) of
          ScopeVessel \<Rightarrow> if scKey (crScope r) = vesselID then (Some r, fleetRule, groupRule) else acc
        | ScopeFleet \<Rightarrow> (vesselRule, Some r, groupRule)
        | ScopeGroup \<Rightarrow>
            if \<not> coversVessel (crScope r) vesselID vesselGroups then acc
            else (case groupRule of
                    None \<Rightarrow> (vesselRule, fleetRule, Some r)
                  | Some g \<Rightarrow> if stricterCadence r g then (vesselRule, fleetRule, Some r) else acc)
        | ScopeTypeOther _ \<Rightarrow> acc)"

definition defaultCadence :: cadenceRule where
  "defaultCadence = \<lparr>crScope = fleetScope, crMinReportIntervalHours = F64 24, crMaxGapHours = F64 12,
     crUpdatedAt = zero_time\<rparr>"

definition effectiveCadence :: "cadenceRule list \<Rightarrow> string \<Rightarrow> string list \<Rightarrow> cadenceRule" where
  "effectiveCadence rules vesselID vesselGroups =
     (case fold (cadence_step vesselID vesselGroups) rules (None, None, None) of (vesselRule, fleetRule, groupRule) \<Rightarrow>
        case vesselRule of
          Some r \<Rightarrow> r
        | None \<Rightarrow>
            (case groupRule of
               Some r \<Rightarrow> r
             | None \<Rightarrow> (case fleetRule of Some r \<Rightarrow> r | None \<Rightarrow> defaultCadence)))"

section \<open>Regulatory profiles\<close>

record profileAssignment =
  paScope :: scope
  paProfiles :: "profile list"
  paUpdatedAt :: gotime

definition profile_step ::
  "profile \<Rightarrow> compliance_error + profile list \<Rightarrow> compliance_error + profile list" where
  "profile_step p acc =
     (case acc of
        Inl e \<Rightarrow> Inl e
      | Inr out \<Rightarrow>
          if p \<notin> set allRegulatoryProfiles then Inl (UnknownProfileError p)
          else if p \<in> set out then Inr out
          else Inr (out @ [p]))"

definition newProfileAssignment :: "gotime \<Rightarrow> scope \<Rightarrow> profile list \<Rightarrow> compliance_error + profileAssignment" where
  "newProfileAssignment now s profiles =
     (case validateScope s of
        Some e \<Rightarrow> Inl e
      | None \<Rightarrow>
          (case fold profile_step profiles (Inr []) of
             Inl e \<Rightarrow> Inl e
           | Inr out \<Rightarrow> Inr \<lparr>paScope = s, paProfiles = out, paUpdatedAt = now\<rparr>))"

definition effectiveProfiles :: "profileAssignment list \<Rightarrow> string \<Rightarrow> string list \<Rightarrow> profile list" where
  "effectiveProfiles assignments vesselID vesselGroups =
     (let enabled = concat (map paProfiles (filter (\<lambda>a. coversVessel (paScope a) vesselID vesselGroups) assignments))
      in filter (\<lambda>p. p \<in> set enabled) allRegulatoryProfiles)"
section \<open>What the scope loop finds\<close>

definition last_opt :: "'a list \<Rightarrow> 'a option" where
  "last_opt xs = (if xs = [] then None else Some (last xs))"

lemma last_opt_simps [simp]: "last_opt [] = None" "last_opt (xs @ [x]) = Some x"
  by (simp_all add: last_opt_def)

definition for_vessel :: "('a \<Rightarrow> scope) \<Rightarrow> string \<Rightarrow> 'a \<Rightarrow> bool" where
  "for_vessel sc v a \<longleftrightarrow> sc a = \<lparr>scType = ScopeVessel, scKey = v\<rparr>"

definition for_group :: "('a \<Rightarrow> scope) \<Rightarrow> string list \<Rightarrow> 'a \<Rightarrow> bool" where
  "for_group sc gs a \<longleftrightarrow> scType (sc a) = ScopeGroup \<and> scKey (sc a) \<in> set gs"

lemma by_scope_eq:
  "by_scope sc v gs as =
   (last_opt (filter (for_vessel sc v) as), last_opt (filter (\<lambda>a. scType (sc a) = ScopeFleet) as),
    filter (for_group sc gs) as)"
  by (induction as rule: rev_induct)
    (auto simp: by_scope_def scope_step_def for_vessel_def for_group_def coversVessel_def split: scopeType.split)

text \<open>A table has one row per scope, and the scope of the fleet has no key.\<close>

definition scopes_ok :: "('a \<Rightarrow> scope) \<Rightarrow> 'a list \<Rightarrow> bool" where
  "scopes_ok sc as \<longleftrightarrow> distinct (map sc as) \<and> (\<forall>a \<in> set as. validateScope (sc a) = None)"

lemma last_opt_same:
  assumes "set ys = set xs" and "\<And>x y. x \<in> set xs \<Longrightarrow> y \<in> set xs \<Longrightarrow> x = y"
  shows "last_opt ys = last_opt xs"
proof (cases "xs = []")
  case False
  then have "ys \<noteq> []" using assms(1) by auto
  then show ?thesis
    using False assms(2)[of "last ys" "last xs"] last_in_set[of xs] last_in_set[of ys] assms(1) by (simp add: last_opt_def)
qed (use assms(1) in simp)

lemma last_opt_perm:
  assumes "distinct (map f xs)" and "mset ys = mset xs" and "\<And>x y. x \<in> set xs \<Longrightarrow> y \<in> set xs \<Longrightarrow> P x \<Longrightarrow> P y \<Longrightarrow> f x = f y"
  shows "last_opt (filter P ys) = last_opt (filter P xs)"
proof (rule last_opt_same)
  show "set (filter P ys) = set (filter P xs)" using mset_eq_setD[OF assms(2)] by simp
  show "x = y" if "x \<in> set (filter P xs)" "y \<in> set (filter P xs)" for x y
    using that assms(1,3) by (auto simp: distinct_map dest: inj_onD)
qed

lemma by_scope_perm:
  assumes "scopes_ok sc as" and "mset bs = mset as"
  shows "fst (by_scope sc v gs bs) = fst (by_scope sc v gs as)"
    and "fst (snd (by_scope sc v gs bs)) = fst (snd (by_scope sc v gs as))"
    and "mset (snd (snd (by_scope sc v gs bs))) = mset (snd (snd (by_scope sc v gs as)))"
proof -
  have d: "distinct (map sc as)" and ok: "\<And>a. a \<in> set as \<Longrightarrow> validateScope (sc a) = None"
    using assms(1) by (auto simp: scopes_ok_def)
  show "fst (by_scope sc v gs bs) = fst (by_scope sc v gs as)"
    unfolding by_scope_eq fst_conv by (rule last_opt_perm[OF d assms(2)]) (simp add: for_vessel_def)
  have fleet: "sc a = fleetScope" if "a \<in> set as" "scType (sc a) = ScopeFleet" for a
    using ok[OF that(1)] that(2) by (cases "sc a") (auto simp: validateScope_def fleetScope_def split: if_splits)
  show "fst (snd (by_scope sc v gs bs)) = fst (snd (by_scope sc v gs as))"
    unfolding by_scope_eq fst_conv snd_conv by (rule last_opt_perm[OF d assms(2)]) (simp add: fleet)
  show "mset (snd (snd (by_scope sc v gs bs))) = mset (snd (snd (by_scope sc v gs as)))"
    using assms(2) by (simp add: by_scope_eq mset_filter)
qed

section \<open>Severities\<close>

definition known_severity :: "severity \<Rightarrow> bool" where
  "known_severity s \<longleftrightarrow> s \<in> {SeverityError, SeverityWarning, SeverityInfo}"

definition severities_ok :: "ruleSeverityAssignment \<Rightarrow> bool" where
  "severities_ok a \<longleftrightarrow> gm_wf (rsSeverities a) \<and>
     (\<forall>r s. gm_lookup (rsSeverities a) r = Some s \<longrightarrow> r \<in> set overridableRuleIDs \<and> known_severity s)"

lemma newRuleSeverityAssignment_ok: "newRuleSeverityAssignment s = Inr a \<Longrightarrow> severities_ok a"
  by (auto simp: newRuleSeverityAssignment_def severities_ok_def split: option.splits)

lemma setSeverity_ok: "setSeverity now r s a = Inr a' \<Longrightarrow> severities_ok a \<Longrightarrow> severities_ok a'"
  unfolding severities_ok_def
  by (auto simp: setSeverity_def known_severity_def[symmetric] simp del: insert_iff split: if_splits)

lemma hard_not_overridable: "set hardRuleIDs \<inter> set overridableRuleIDs = {}"
  by (simp add: hardRuleIDs_def overridableRuleIDs_def RuleTimeBucketSum_def RuleImpliedSpeed_def RuleNoDistanceStationary_def
      RulePositionRequired_def RulePositionConsistency_def RuleConsumptionSchemeExclusive_def RuleTimeChain_def
      RuleROBContinuity_def RuleEventOrdering_def RuleTimestampUniqueness_def)

lemma effectiveSeverities_lookup:
  "gm_lookup (effectiveSeverities as v gs) r =
   (if r \<in> set overridableRuleIDs then effective_severity (by_scope rsScope v gs as) r else None)"
proof -
  have "gm_lookup (fold (\<lambda>i m. case g i of None \<Rightarrow> m | Some s \<Rightarrow> gm_update i s m) ids m) r =
      (if r \<in> set ids \<and> g r \<noteq> None then g r else gm_lookup m r)" for g :: "string \<Rightarrow> severity option" and ids m
    by (induction ids arbitrary: m) (auto split: option.split)
  then show ?thesis by (simp add: effectiveSeverities_def Let_def)
qed

lemma gm_wf_effectiveSeverities: "gm_wf (effectiveSeverities as v gs)"
proof -
  have "gm_wf m \<Longrightarrow> gm_wf (fold (\<lambda>i m. case g i of None \<Rightarrow> m | Some s \<Rightarrow> gm_update i s m) ids m)"
    for g :: "string \<Rightarrow> severity option" and ids and m :: "(string, severity) gomap"
    by (induction ids arbitrary: m) (auto split: option.split)
  then show ?thesis by (simp add: effectiveSeverities_def Let_def)
qed

text \<open>Among groups the strictest severity wins.\<close>

lemma strictest_spec:
  "strictestGroupSeverity as r = None \<longleftrightarrow> (\<forall>a \<in> set as. gm_lookup (rsSeverities a) r = None)"
  "strictestGroupSeverity as r = Some s \<Longrightarrow>
     (\<exists>a \<in> set as. gm_lookup (rsSeverities a) r = Some s) \<and>
     (\<forall>a \<in> set as. \<forall>t. gm_lookup (rsSeverities a) r = Some t \<longrightarrow> severityRank s \<le> severityRank t)"
proof (induction as arbitrary: s rule: rev_induct)
  case (snoc a as)
  have e: "strictestGroupSeverity (as @ [a]) r = strictest_step r a (strictestGroupSeverity as r)"
    by (simp add: strictestGroupSeverity_def)
  {
    case 1
    then show ?case using snoc(1) by (auto simp: e strictest_step_def split: option.split)
  next
    case 2
    then show ?case using snoc
      by (cases "strictestGroupSeverity as r"; cases "gm_lookup (rsSeverities a) r")
        (auto simp: e strictest_step_def split: if_splits)
  }
qed (simp_all add: strictestGroupSeverity_def)

lemma severityRank_inj: "known_severity s \<Longrightarrow> known_severity t \<Longrightarrow> severityRank s = severityRank t \<Longrightarrow> s = t"
  by (auto simp: known_severity_def)

lemma strictest_perm:
  assumes "mset bs = mset as" and "\<And>a. a \<in> set as \<Longrightarrow> severities_ok a"
  shows "strictestGroupSeverity bs r = strictestGroupSeverity as r"
proof -
  have s: "set bs = set as" using assms(1) by (rule mset_eq_setD)
  show ?thesis
  proof (cases "strictestGroupSeverity as r")
    case None
    then show ?thesis using s strictest_spec(1) by metis
  next
    case (Some x)
    then obtain y where y: "strictestGroupSeverity bs r = Some y"
      using s strictest_spec(1)[of as r] strictest_spec(1)[of bs r] by (cases "strictestGroupSeverity bs r") auto
    have "x = y"
      using strictest_spec(2)[OF Some] strictest_spec(2)[OF y] assms(2)
      by (intro severityRank_inj) (auto simp: s severities_ok_def intro: antisym)
    then show ?thesis using Some y by simp
  qed
qed

text \<open>With one assignment per scope the effective severities do not depend on the order of the query's rows.\<close>

lemma effectiveSeverities_perm:
  assumes "scopes_ok rsScope as" and "\<And>a. a \<in> set as \<Longrightarrow> severities_ok a" and "mset bs = mset as"
  shows "effectiveSeverities bs v gs = effectiveSeverities as v gs"
proof (rule gm_wf_ext[OF gm_wf_effectiveSeverities gm_wf_effectiveSeverities])
  fix r
  note p = by_scope_perm[OF assms(1,3), of v gs]
  obtain va fl ga gb where sc: "by_scope rsScope v gs as = (va, fl, ga)" "by_scope rsScope v gs bs = (va, fl, gb)"
    using p(1,2) by (cases "by_scope rsScope v gs as"; cases "by_scope rsScope v gs bs") auto
  have "set ga \<subseteq> set as" using sc(1) by (auto simp: by_scope_eq)
  then have "strictestGroupSeverity gb r = strictestGroupSeverity ga r"
    using p(3) assms(2) by (intro strictest_perm) (auto simp: sc)
  then show "gm_lookup (effectiveSeverities bs v gs) r = gm_lookup (effectiveSeverities as v gs) r"
    by (simp only: effectiveSeverities_lookup sc effective_severity_def prod.case)
qed

text \<open>Every effective severity was assigned in a scope that covers the vessel.\<close>

lemma effective_severity_source:
  assumes "gm_lookup (effectiveSeverities as v gs) r = Some s"
  shows "\<exists>a \<in> set as. coversVessel (rsScope a) v gs \<and> gm_lookup (rsSeverities a) r = Some s"
proof -
  have e: "effective_severity (by_scope rsScope v gs as) r = Some s"
    using assms by (simp add: effectiveSeverities_lookup split: if_splits)
  have last: "x \<in> set (filter P as)" if "last_opt (filter P as) = Some x" for P x
    using that last_in_set[of "filter P as"] by (auto simp: last_opt_def split: if_splits)
  have cov: "for_vessel rsScope v a \<Longrightarrow> coversVessel (rsScope a) v gs" "for_group rsScope gs a \<Longrightarrow> coversVessel (rsScope a) v gs"
    "scType (rsScope a) = ScopeFleet \<Longrightarrow> coversVessel (rsScope a) v gs" for a
    by (simp_all add: for_vessel_def for_group_def coversVessel_def)
  show ?thesis
  proof (cases "Option.bind (last_opt (filter (for_vessel rsScope v) as)) (\<lambda>a. gm_lookup (rsSeverities a) r)")
    case (Some t)
    then show ?thesis using e cov(1) last by (force simp: by_scope_eq effective_severity_def bind_eq_Some_conv)
  next
    case None
    show ?thesis
    proof (cases "strictestGroupSeverity (filter (for_group rsScope gs) as) r")
      case (Some t)
      then have "t = s" using e None by (simp add: by_scope_eq effective_severity_def)
      then show ?thesis using strictest_spec(2)[OF Some] cov(2) by auto
    next
      case none: None
      show ?thesis using e None none cov(3) last by (force simp: by_scope_eq effective_severity_def bind_eq_Some_conv)
    qed
  qed
qed
section \<open>Cadence\<close>

text \<open>The order of Go on floats that are not NaN is the order of their keys.\<close>

definition f64_key :: "float64 \<Rightarrow> int \<times> rat" where
  "f64_key x = (case x of PInf \<Rightarrow> (1, 0) | NInf \<Rightarrow> (- 1, 0) | _ \<Rightarrow> (0, f64_val x))"

lemma f64_lt_key: "x \<noteq> NaN \<Longrightarrow> y \<noteq> NaN \<Longrightarrow> f64_lt x y \<longleftrightarrow> f64_key x < f64_key y"
  by (cases x; cases y) (auto simp: f64_lt_def f64_key_def)

lemma f64_eq_key: "x \<noteq> NaN \<Longrightarrow> y \<noteq> NaN \<Longrightarrow> f64_eq x y \<longleftrightarrow> f64_key x = f64_key y"
  by (cases x; cases y) (auto simp: f64_eq_def f64_key_def)

definition cadence_ok :: "cadenceRule \<Rightarrow> bool" where
  "cadence_ok r \<longleftrightarrow> crMaxGapHours r \<noteq> NaN \<and> crMinReportIntervalHours r \<noteq> NaN"

definition cadence_key :: "cadenceRule \<Rightarrow> (int \<times> rat) \<times> int \<times> rat" where
  "cadence_key r = (f64_key (crMaxGapHours r), f64_key (crMinReportIntervalHours r))"

lemma stricterCadence_key: "cadence_ok a \<Longrightarrow> cadence_ok b \<Longrightarrow> stricterCadence a b \<longleftrightarrow> cadence_key a < cadence_key b"
  by (auto simp: stricterCadence_def cadence_ok_def cadence_key_def f64_lt_key f64_eq_key)

definition stricter_step :: "cadenceRule \<Rightarrow> cadenceRule option \<Rightarrow> cadenceRule option" where
  "stricter_step r g = (case g of None \<Rightarrow> Some r | Some g \<Rightarrow> if stricterCadence r g then Some r else Some g)"

lemma cadence_loop:
  "fold (cadence_step v gs) rs (None, None, None) =
   (last_opt (filter (for_vessel crScope v) rs), last_opt (filter (\<lambda>r. scType (crScope r) = ScopeFleet) rs),
    fold stricter_step (filter (for_group crScope gs) rs) None)"
  by (induction rs rule: rev_induct)
    (auto simp: cadence_step_def stricter_step_def for_vessel_def for_group_def coversVessel_def
      split: scopeType.split option.split)

lemma stricter_fold:
  assumes "\<And>r. r \<in> set rs \<Longrightarrow> cadence_ok r"
  shows "fold stricter_step rs None = None \<longleftrightarrow> rs = []"
    and "fold stricter_step rs None = Some g \<Longrightarrow> g \<in> set rs \<and> (\<forall>r \<in> set rs. \<not> stricterCadence r g)"
  using assms
proof (induction rs arbitrary: g rule: rev_induct)
  case (snoc r rs)
  {
    case 1
    then show ?case by (auto simp: stricter_step_def split: option.splits)
  next
    case 2
    have "g \<in> set (rs @ [r])" and "\<forall>x \<in> set (rs @ [r]). cadence_key g \<le> cadence_key x"
      using snoc 2 by (auto simp: stricter_step_def stricterCadence_key not_less split: option.splits if_splits)
    then show ?case using 2(2) by (force simp: stricterCadence_key not_less)
  }
qed simp_all

text \<open>The rule of the vessel wins, then the strictest of its groups, then the fleet's, then the default.\<close>

lemma effectiveCadence_vessel:
  assumes "scopes_ok crScope rs" and "r \<in> set rs" and "for_vessel crScope v r"
  shows "effectiveCadence rs v gs = r"
proof -
  have "x = r" if "x \<in> set (filter (for_vessel crScope v) rs)" for x
    using that assms inj_onD[of crScope "set rs" x r] by (auto simp: scopes_ok_def distinct_map for_vessel_def)
  moreover have "filter (for_vessel crScope v) rs \<noteq> []" using assms(2,3) by (auto simp: filter_empty_conv)
  ultimately have "last_opt (filter (for_vessel crScope v) rs) = Some r"
    unfolding last_opt_def using last_in_set by metis
  then show ?thesis by (simp add: effectiveCadence_def cadence_loop)
qed

lemma effectiveCadence_group:
  assumes "\<And>r. r \<in> set rs \<Longrightarrow> cadence_ok r" and "\<not> (\<exists>r \<in> set rs. for_vessel crScope v r)"
    and "\<exists>r \<in> set rs. for_group crScope gs r"
  shows "effectiveCadence rs v gs \<in> set rs \<and> for_group crScope gs (effectiveCadence rs v gs) \<and>
    (\<forall>r \<in> set rs. for_group crScope gs r \<longrightarrow> \<not> stricterCadence r (effectiveCadence rs v gs))"
proof -
  let ?gs = "filter (for_group crScope gs) rs"
  have none: "last_opt (filter (for_vessel crScope v) rs) = None" using assms(2) by (auto simp: last_opt_def filter_empty_conv)
  have "?gs \<noteq> []" using assms(3) by (auto simp: filter_empty_conv)
  then obtain g where g: "fold stricter_step ?gs None = Some g"
    using stricter_fold(1)[of ?gs] assms(1) by (cases "fold stricter_step ?gs None") auto
  then have "effectiveCadence rs v gs = g" by (simp add: effectiveCadence_def cadence_loop none)
  then show ?thesis using stricter_fold(2)[OF _ g] assms(1) by auto
qed

lemma effectiveCadence_default: "(\<And>r. r \<in> set rs \<Longrightarrow> \<not> coversVessel (crScope r) v gs) \<Longrightarrow> effectiveCadence rs v gs = defaultCadence"
proof -
  assume none: "\<And>r. r \<in> set rs \<Longrightarrow> \<not> coversVessel (crScope r) v gs"
  have "filter (for_vessel crScope v) rs = []" "filter (\<lambda>r. scType (crScope r) = ScopeFleet) rs = []"
    "filter (for_group crScope gs) rs = []"
    using none by (fastforce simp: filter_empty_conv for_vessel_def for_group_def coversVessel_def)+
  then show ?thesis by (simp add: effectiveCadence_def cadence_loop)
qed

text \<open>A rule that is accepted has thresholds that are not at most zero; NaN is among them.\<close>

lemma newCadenceRule_Inr:
  "newCadenceRule now s m g = Inr r \<longleftrightarrow> validateScope s = None \<and> \<not> f64_le m (F64 0) \<and> \<not> f64_le g (F64 0) \<and>
     r = \<lparr>crScope = s, crMinReportIntervalHours = m, crMaxGapHours = g, crUpdatedAt = now\<rparr>"
  by (auto simp: newCadenceRule_def split: option.split)

section \<open>Profiles\<close>

lemma effectiveProfiles_set:
  "set (effectiveProfiles as v gs) =
   {p \<in> set allRegulatoryProfiles. \<exists>a \<in> set as. coversVessel (paScope a) v gs \<and> p \<in> set (paProfiles a)}"
  by (auto simp: effectiveProfiles_def Let_def)

lemma effectiveProfiles_distinct [simp]: "distinct (effectiveProfiles as v gs)"
  by (simp add: effectiveProfiles_def Let_def allRegulatoryProfiles_def)

lemma effectiveProfiles_cong: "set bs = set as \<Longrightarrow> effectiveProfiles bs v gs = effectiveProfiles as v gs"
  by (simp add: effectiveProfiles_def Let_def)

text \<open>An assignment in one more scope never turns a profile off.\<close>

lemma effectiveProfiles_mono: "set as \<subseteq> set bs \<Longrightarrow> set (effectiveProfiles as v gs) \<subseteq> set (effectiveProfiles bs v gs)"
  by (auto simp: effectiveProfiles_set)

lemma profile_fold_Inl: "fold profile_step ps (Inl e) = Inl e"
  by (induction ps) (simp_all add: profile_step_def)

lemma profile_fold_Inr:
  "fold profile_step ps (Inr acc) = Inr out \<longleftrightarrow>
   set ps \<subseteq> set allRegulatoryProfiles \<and> out = fold (\<lambda>p acc. if p \<in> set acc then acc else acc @ [p]) ps acc"
  by (induction ps arbitrary: acc) (auto simp: profile_step_def profile_fold_Inl)

lemma newProfileAssignment_Inr:
  assumes "newProfileAssignment now s ps = Inr a"
  shows "validateScope s = None" and "paScope a = s" and "set (paProfiles a) = set ps" and "distinct (paProfiles a)"
    and "set ps \<subseteq> set allRegulatoryProfiles"
proof -
  have f: "set (fold (\<lambda>p acc. if p \<in> set acc then acc else acc @ [p]) ps acc) = set acc \<union> set ps \<and>
      (distinct acc \<longrightarrow> distinct (fold (\<lambda>p acc. if p \<in> set acc then acc else acc @ [p]) ps acc))" for acc :: "profile list"
    by (induction ps arbitrary: acc) auto
  show "validateScope s = None" "paScope a = s" "set (paProfiles a) = set ps" "distinct (paProfiles a)"
    "set ps \<subseteq> set allRegulatoryProfiles"
    using assms f[of "[]"] by (auto simp: newProfileAssignment_def profile_fold_Inr split: option.splits sum.splits)
qed

end
