(* ===== verification/FieldPolicyScope.thy ===== *)
theory FieldPolicyScope
  imports Compliance
begin

text \<open>
  \<open>office/fieldpolicy\<close>: the company's policy for the fields of one schema version in one scope (\<open>policy.go\<close>), the rule
  that applies to a vessel for each field, and the migration of a policy to a new schema version (\<open>migrate.go\<close>).

  The maps of a policy are never nil where the program writes to them: \<open>newUnchecked\<close> and the store allocate them.

  Lemmas: the setters keep a policy well formed; a field's state and its events come from one assignment, which covers
  the vessel; among groups no state is less strict than the winner's; the states do not depend on the order in which the
  store returned the assignments, while prefill classes and events of equally strict groups do.
\<close>

datatype prefillClass = PrefillNone | PrefillCarryForward | PrefillComputed | PrefillGhost | PrefillClassOther string

record schemaFieldPolicy =
  fpScope :: scope
  fpSchemaName :: string
  fpSchemaVersion :: string
  fpPolicy :: fieldPolicy
  fpEvents :: fieldEvents
  fpPrefill :: "(string, prefillClass) gomap"
  fpUpdatedAt :: gotime

datatype fieldpolicy_error =
    ErrScope compliance_error
  | ErrSchemaMandatoryImmutable
  | ErrUnknownPolicyState policy_state
  | ErrUnknownEventType string
  | ErrUnknownPrefillClass prefillClass

definition newUnchecked :: "scope \<Rightarrow> string \<Rightarrow> string \<Rightarrow> schemaFieldPolicy" where
  "newUnchecked s sname version =
     \<lparr>fpScope = s, fpSchemaName = sname, fpSchemaVersion = version, fpPolicy = [], fpEvents = [], fpPrefill = [],
      fpUpdatedAt = zero_time\<rparr>"

definition newFieldPolicy :: "scope \<Rightarrow> string \<Rightarrow> string \<Rightarrow> fieldpolicy_error + schemaFieldPolicy" where
  "newFieldPolicy s sname version =
     (case validateScope s of Some e \<Rightarrow> Inl (ErrScope e) | None \<Rightarrow> Inr (newUnchecked s sname version))"

definition setPolicy ::
  "string \<Rightarrow> policy_state \<Rightarrow> bool \<Rightarrow> schemaFieldPolicy \<Rightarrow> fieldpolicy_error + schemaFieldPolicy" where
  "setPolicy fname st schemaMandatory p =
     (if schemaMandatory \<or> st = FieldSchemaMandatory then Inl ErrSchemaMandatoryImmutable
      else if st \<in> {FieldHidden, FieldOptional, FieldRecommended, FieldCompanyMandatory}
      then Inr (p\<lparr>fpPolicy := gm_update fname st (fpPolicy p)\<rparr>)
      else Inl (ErrUnknownPolicyState st))"

text \<open>The loop over the events: the first wildcard ends it, the first unknown event fails.\<close>

fun scan_events :: "(string, bool) gomap option \<Rightarrow> string list \<Rightarrow> fieldpolicy_error + bool" where
  "scan_events validEvents [] = Inr False"
| "scan_events validEvents (ev # evs) =
     (if ev = allEvents then Inr True
      else if (case validEvents of None \<Rightarrow> False | Some m \<Rightarrow> gm_lookup m ev \<noteq> Some True) then Inl (ErrUnknownEventType ev)
      else scan_events validEvents evs)"

definition setEvents ::
  "string \<Rightarrow> string list \<Rightarrow> (string, bool) gomap option \<Rightarrow> schemaFieldPolicy \<Rightarrow> fieldpolicy_error + schemaFieldPolicy" where
  "setEvents fname events validEvents p =
     (case scan_events validEvents events of
        Inl e \<Rightarrow> Inl e
      | Inr wildcard \<Rightarrow>
          if wildcard \<or> events = [] then Inr (p\<lparr>fpEvents := gm_delete fname (fpEvents p)\<rparr>)
          else Inr (p\<lparr>fpEvents := gm_update fname events (fpEvents p)\<rparr>))"

definition eventsFor :: "schemaFieldPolicy \<Rightarrow> string \<Rightarrow> string list" where
  "eventsFor p fname = gm_list (fpEvents p) fname"

definition setPrefillClass :: "string \<Rightarrow> prefillClass \<Rightarrow> schemaFieldPolicy \<Rightarrow> fieldpolicy_error + schemaFieldPolicy" where
  "setPrefillClass fname cls p =
     (if cls \<notin> {PrefillNone, PrefillCarryForward, PrefillComputed, PrefillGhost} then Inl (ErrUnknownPrefillClass cls)
      else if cls = PrefillNone then Inr (p\<lparr>fpPrefill := gm_delete fname (fpPrefill p)\<rparr>)
      else Inr (p\<lparr>fpPrefill := gm_update fname cls (fpPrefill p)\<rparr>))"

definition prefillFor :: "schemaFieldPolicy \<Rightarrow> string \<Rightarrow> prefillClass" where
  "prefillFor p fname = (case gm_lookup (fpPrefill p) fname of Some c \<Rightarrow> c | None \<Rightarrow> PrefillNone)"

section \<open>What applies to a vessel\<close>

definition allOf :: "schemaFieldPolicy scoped \<Rightarrow> schemaFieldPolicy list" where
  "allOf sc = (case sc of (vesselA, fleetA, groupAs) \<Rightarrow>
     (case vesselA of Some a \<Rightarrow> [a] | None \<Rightarrow> []) @ (case fleetA of Some a \<Rightarrow> [a] | None \<Rightarrow> []) @ groupAs)"

fun policyStateRank :: "policy_state \<Rightarrow> int" where
  "policyStateRank FieldHidden = 0"
| "policyStateRank FieldOptional = 1"
| "policyStateRank FieldRecommended = 2"
| "policyStateRank FieldCompanyMandatory = 3"
| "policyStateRank _ = 1"

definition hasRule :: "schemaFieldPolicy option \<Rightarrow> string \<Rightarrow> bool" where
  "hasRule a fname \<longleftrightarrow>
     (case a of None \<Rightarrow> False
      | Some a \<Rightarrow> gm_lookup (fpPolicy a) fname \<noteq> None \<or> gm_lookup (fpEvents a) fname \<noteq> None)"

text \<open>A rule without a state has the rank -1.\<close>

definition rule_rank :: "schemaFieldPolicy \<Rightarrow> string \<Rightarrow> int" where
  "rule_rank a fname = (case gm_lookup (fpPolicy a) fname of None \<Rightarrow> - 1 | Some st \<Rightarrow> policyStateRank st)"

definition rule_step ::
  "string \<Rightarrow> schemaFieldPolicy \<Rightarrow> schemaFieldPolicy option \<times> int \<Rightarrow> schemaFieldPolicy option \<times> int" where
  "rule_step fname a acc =
     (if \<not> hasRule (Some a) fname then acc
      else if fst acc = None \<or> rule_rank a fname > snd acc then (Some a, rule_rank a fname)
      else acc)"

definition strictestGroupRule :: "schemaFieldPolicy list \<Rightarrow> string \<Rightarrow> schemaFieldPolicy option" where
  "strictestGroupRule groupAs fname = fst (fold (rule_step fname) groupAs (None, 0))"

definition winningRule :: "schemaFieldPolicy scoped \<Rightarrow> string \<Rightarrow> schemaFieldPolicy option" where
  "winningRule sc fname =
     (case sc of (vesselA, fleetA, groupAs) \<Rightarrow>
        if hasRule vesselA fname then vesselA
        else case strictestGroupRule groupAs fname of
          Some a \<Rightarrow> Some a
        | None \<Rightarrow> if hasRule fleetA fname then fleetA else None)"

definition takeRule :: "schemaFieldPolicy \<Rightarrow> string \<Rightarrow> schemaFieldPolicy \<Rightarrow> schemaFieldPolicy" where
  "takeRule src fname p =
     (let p = (case gm_lookup (fpPolicy src) fname of
                 None \<Rightarrow> p | Some st \<Rightarrow> p\<lparr>fpPolicy := gm_update fname st (fpPolicy p)\<rparr>)
      in case gm_lookup (fpEvents src) fname of
           None \<Rightarrow> p | Some evs \<Rightarrow> p\<lparr>fpEvents := gm_update fname evs (fpEvents p)\<rparr>)"

fun firstGroupPrefill :: "schemaFieldPolicy list \<Rightarrow> string \<Rightarrow> prefillClass option" where
  "firstGroupPrefill [] fname = None"
| "firstGroupPrefill (a # as) fname =
     (case gm_lookup (fpPrefill a) fname of Some c \<Rightarrow> Some c | None \<Rightarrow> firstGroupPrefill as fname)"

definition winning_prefill :: "schemaFieldPolicy scoped \<Rightarrow> string \<Rightarrow> prefillClass option" where
  "winning_prefill sc fname =
     (case sc of (vesselA, fleetA, groupAs) \<Rightarrow>
        case Option.bind vesselA (\<lambda>a. gm_lookup (fpPrefill a) fname) of
          Some c \<Rightarrow> Some c
        | None \<Rightarrow>
            (case firstGroupPrefill groupAs fname of
               Some c \<Rightarrow> Some c
             | None \<Rightarrow> Option.bind fleetA (\<lambda>a. gm_lookup (fpPrefill a) fname)))"

text \<open>The sets of names that the code collects in maps to \<open>true\<close>.\<close>

definition name_set :: "string list \<Rightarrow> (string, bool) gomap" where
  "name_set ns = fold (\<lambda>n m. gm_update n True m) ns []"

definition effectiveFieldPolicy ::
  "schemaFieldPolicy list \<Rightarrow> string \<Rightarrow> string list \<Rightarrow> string \<Rightarrow> string \<Rightarrow> schemaFieldPolicy" where
  "effectiveFieldPolicy assignments vesselID vesselGroups sname version =
     (let sc = by_scope fpScope vesselID vesselGroups
                 (filter (\<lambda>a. fpSchemaName a = sname \<and> fpSchemaVersion a = version) assignments);
          fieldNames = name_set (concat (map (\<lambda>a. map fst (fpPolicy a) @ map fst (fpEvents a)) (allOf sc)));
          prefillNames = name_set (concat (map (\<lambda>a. map fst (fpPrefill a)) (allOf sc)));
          result = newUnchecked \<lparr>scType = ScopeVessel, scKey = vesselID\<rparr> sname version;
          result = fold (\<lambda>n p. case winningRule sc n of None \<Rightarrow> p | Some a \<Rightarrow> takeRule a n p) (map fst fieldNames) result
      in fold (\<lambda>n p. case winning_prefill sc n of
                 None \<Rightarrow> p | Some c \<Rightarrow> p\<lparr>fpPrefill := gm_update n c (fpPrefill p)\<rparr>) (map fst prefillNames) result)"

section \<open>Migration\<close>

record migrationResult =
  mrNewPolicy :: schemaFieldPolicy
  mrNewFields :: "string list"
  mrRemovedFields :: "string list"

definition fieldNames :: "field list \<Rightarrow> string list" where
  "fieldNames fs = map fieldName fs"

definition carry :: "string list \<Rightarrow> (string, 'v) gomap \<Rightarrow> (string, 'v) gomap" where
  "carry removed old = fold (\<lambda>(n, v) next. if n \<in> set removed then next else gm_update n v next) old []"

definition migrate :: "schemaFieldPolicy \<Rightarrow> string \<Rightarrow> schema_diff \<Rightarrow> migrationResult" where
  "migrate old newSchemaVersion diff =
     (let removed = map fieldName (diffRemoved diff)
      in \<lparr>mrNewPolicy = (newUnchecked (fpScope old) (fpSchemaName old) newSchemaVersion)
            \<lparr>fpPolicy := carry removed (fpPolicy old), fpEvents := carry removed (fpEvents old),
             fpPrefill := carry removed (fpPrefill old)\<rparr>,
          mrNewFields = fieldNames (diffAdded diff), mrRemovedFields = fieldNames (diffRemoved diff)\<rparr>)"
section \<open>Lookups\<close>

lemma name_set_keys: "fst ` set (name_set ns) = set ns"
proof -
  have "fst ` set (fold (\<lambda>n m. gm_update n True m) ns m) = fst ` set m \<union> set ns" for m :: "(string, bool) gomap"
    by (induction ns arbitrary: m) (auto simp: set_fst_gm_update)
  then show ?thesis by (simp add: name_set_def)
qed

lemma gm_lookup_None_iff: "gm_lookup m k = None \<longleftrightarrow> k \<notin> fst ` set m"
  by (rule map_of_eq_None_iff)

lemma takeRule_lookup:
  "gm_lookup (fpPolicy (takeRule a n p)) k =
     (if k = n \<and> gm_lookup (fpPolicy a) n \<noteq> None then gm_lookup (fpPolicy a) n else gm_lookup (fpPolicy p) k)"
  "gm_lookup (fpEvents (takeRule a n p)) k =
     (if k = n \<and> gm_lookup (fpEvents a) n \<noteq> None then gm_lookup (fpEvents a) n else gm_lookup (fpEvents p) k)"
  "fpPrefill (takeRule a n p) = fpPrefill p"
  by (auto simp: takeRule_def Let_def split: option.split)

lemma rules_fold:
  fixes w :: "string \<Rightarrow> schemaFieldPolicy option"
  defines "body \<equiv> \<lambda>n p. case w n of None \<Rightarrow> p | Some a \<Rightarrow> takeRule a n p"
  shows "gm_lookup (fpPolicy (fold body ns p)) k =
      (if k \<in> set ns \<and> Option.bind (w k) (\<lambda>a. gm_lookup (fpPolicy a) k) \<noteq> None
       then Option.bind (w k) (\<lambda>a. gm_lookup (fpPolicy a) k) else gm_lookup (fpPolicy p) k)"
    and "gm_lookup (fpEvents (fold body ns p)) k =
      (if k \<in> set ns \<and> Option.bind (w k) (\<lambda>a. gm_lookup (fpEvents a) k) \<noteq> None
       then Option.bind (w k) (\<lambda>a. gm_lookup (fpEvents a) k) else gm_lookup (fpEvents p) k)"
    and "fpPrefill (fold body ns p) = fpPrefill p"
  by (induction ns arbitrary: p) (auto simp: body_def takeRule_lookup split: option.splits)

lemma prefill_fold:
  fixes w :: "string \<Rightarrow> prefillClass option"
  defines "body \<equiv> \<lambda>n p. case w n of None \<Rightarrow> p | Some c \<Rightarrow> p\<lparr>fpPrefill := gm_update n c (fpPrefill p)\<rparr>"
  shows "gm_lookup (fpPrefill (fold body ns p)) k =
      (if k \<in> set ns \<and> w k \<noteq> None then w k else gm_lookup (fpPrefill p) k)"
    and "fpPolicy (fold body ns p) = fpPolicy p" and "fpEvents (fold body ns p) = fpEvents p"
  by (induction ns arbitrary: p) (auto simp: body_def split: option.splits)

definition scoped_policies ::
  "schemaFieldPolicy list \<Rightarrow> string \<Rightarrow> string list \<Rightarrow> string \<Rightarrow> string \<Rightarrow> schemaFieldPolicy scoped" where
  "scoped_policies as v gs sname version =
     by_scope fpScope v gs (filter (\<lambda>a. fpSchemaName a = sname \<and> fpSchemaVersion a = version) as)"

lemma allOf_set:
  "set (allOf (va, fl, gs)) = set_option va \<union> set_option fl \<union> set gs"
  by (auto simp: allOf_def split: option.split)

lemma strictestGroupRule_in:
  "strictestGroupRule as n = Some a \<Longrightarrow> a \<in> set as \<and> hasRule (Some a) n"
proof (induction as arbitrary: a rule: rev_induct)
  case (snoc x as)
  then show ?case by (auto simp: strictestGroupRule_def rule_step_def split: if_splits)
qed (simp add: strictestGroupRule_def)

lemma winningRule_in: "winningRule sc n = Some a \<Longrightarrow> a \<in> set (allOf sc) \<and> hasRule (Some a) n"
  by (cases sc) (auto simp: winningRule_def allOf_set dest!: strictestGroupRule_in split: if_splits option.splits)

lemma firstGroupPrefill_in: "firstGroupPrefill as n = Some c \<Longrightarrow> \<exists>a \<in> set as. gm_lookup (fpPrefill a) n = Some c"
  by (induction as) (auto split: option.splits)

lemma winning_prefill_in: "winning_prefill sc n = Some c \<Longrightarrow> \<exists>a \<in> set (allOf sc). gm_lookup (fpPrefill a) n = Some c"
  by (cases sc) (auto simp: winning_prefill_def allOf_set bind_eq_Some_conv dest: firstGroupPrefill_in split: option.splits)

text \<open>The effective policy of a field is the winning assignment's rule, states and events alike.\<close>

lemma effectiveFieldPolicy_lookup:
  fixes as v gs sname version
  defines "p \<equiv> effectiveFieldPolicy as v gs sname version" and "sc \<equiv> scoped_policies as v gs sname version"
  shows "gm_lookup (fpPolicy p) n = Option.bind (winningRule sc n) (\<lambda>a. gm_lookup (fpPolicy a) n)"
    and "gm_lookup (fpEvents p) n = Option.bind (winningRule sc n) (\<lambda>a. gm_lookup (fpEvents a) n)"
    and "gm_lookup (fpPrefill p) n = winning_prefill sc n"
proof -
  let ?rn = "name_set (concat (map (\<lambda>a. map fst (fpPolicy a) @ map fst (fpEvents a)) (allOf sc)))"
  let ?pn = "name_set (concat (map (\<lambda>a. map fst (fpPrefill a)) (allOf sc)))"
  have rn: "n \<in> fst ` set ?rn" if "winningRule sc n = Some a" for a
    using winningRule_in[OF that] by (force simp: name_set_keys hasRule_def gm_lookup_None_iff)
  have pn: "n \<in> fst ` set ?pn" if "winning_prefill sc n = Some c" for c
    using winning_prefill_in[OF that] by (force simp: name_set_keys dest: map_of_SomeD)
  show "gm_lookup (fpPolicy p) n = Option.bind (winningRule sc n) (\<lambda>a. gm_lookup (fpPolicy a) n)"
    "gm_lookup (fpEvents p) n = Option.bind (winningRule sc n) (\<lambda>a. gm_lookup (fpEvents a) n)"
    using rn unfolding p_def effectiveFieldPolicy_def sc_def[unfolded scoped_policies_def, symmetric] Let_def prefill_fold rules_fold
    by (cases "winningRule sc n"; force simp: newUnchecked_def)+
  show "gm_lookup (fpPrefill p) n = winning_prefill sc n"
    using pn unfolding p_def effectiveFieldPolicy_def sc_def[unfolded scoped_policies_def, symmetric] Let_def prefill_fold rules_fold
    by (cases "winning_prefill sc n") (force simp: newUnchecked_def)+
qed
section \<open>Well-formed policies\<close>

definition state_ok :: "policy_state \<Rightarrow> bool" where
  "state_ok st \<longleftrightarrow> st \<in> {FieldHidden, FieldOptional, FieldRecommended, FieldCompanyMandatory}"

definition prefill_ok :: "prefillClass \<Rightarrow> bool" where
  "prefill_ok c \<longleftrightarrow> c \<in> {PrefillCarryForward, PrefillComputed, PrefillGhost}"

text \<open>Only real overrides are stored: no locked state, no empty or universal event list, no class \<open>none\<close>.\<close>

definition events_ok :: "string list \<Rightarrow> bool" where
  "events_ok evs \<longleftrightarrow> evs \<noteq> [] \<and> allEvents \<notin> set evs"

definition entries_ok :: "('v \<Rightarrow> bool) \<Rightarrow> (string, 'v) gomap \<Rightarrow> bool" where
  "entries_ok P m \<longleftrightarrow> (\<forall>n v. gm_lookup m n = Some v \<longrightarrow> P v)"

lemma entries_ok_simps [simp]: "entries_ok P []"
  by (simp add: entries_ok_def)

lemma entries_ok_write: "entries_ok P m \<Longrightarrow> P v \<Longrightarrow> entries_ok P (gm_update n v m)"
  "entries_ok P m \<Longrightarrow> entries_ok P (gm_delete n m)"
  by (simp_all add: entries_ok_def)

lemma entries_okD: "entries_ok P m \<Longrightarrow> gm_lookup m n = Some v \<Longrightarrow> P v"
  by (simp add: entries_ok_def)

definition policy_ok :: "schemaFieldPolicy \<Rightarrow> bool" where
  "policy_ok p \<longleftrightarrow> entries_ok state_ok (fpPolicy p) \<and> entries_ok events_ok (fpEvents p) \<and> entries_ok prefill_ok (fpPrefill p)"

lemma policy_ok_new [simp]: "policy_ok (newUnchecked s n v)"
  by (simp add: policy_ok_def newUnchecked_def)

lemma scan_events_False: "scan_events ve evs = Inr False \<longleftrightarrow>
    allEvents \<notin> set evs \<and> (\<forall>ev \<in> set evs. \<forall>m. ve = Some m \<longrightarrow> gm_lookup m ev = Some True)"
  by (induction evs) (auto split: option.splits)

lemma setPolicy_ok: "setPolicy n st m p = Inr p' \<Longrightarrow> policy_ok p \<Longrightarrow> policy_ok p'"
  by (auto simp: setPolicy_def policy_ok_def state_ok_def[symmetric] simp del: insert_iff intro: entries_ok_write split: if_splits)

lemma setEvents_ok: "setEvents n evs ve p = Inr p' \<Longrightarrow> policy_ok p \<Longrightarrow> policy_ok p'"
  by (auto simp: setEvents_def policy_ok_def scan_events_False events_ok_def[symmetric]
      intro!: entries_ok_write split: sum.splits if_splits) (simp add: events_ok_def)

lemma setPrefillClass_ok: "setPrefillClass n c p = Inr p' \<Longrightarrow> policy_ok p \<Longrightarrow> policy_ok p'"
  by (auto simp: setPrefillClass_def policy_ok_def intro!: entries_ok_write split: if_splits) (auto simp: prefill_ok_def)

text \<open>A vessel never hears of an event filter that names every event, or of a state the company may not set.\<close>

lemma allOf_subset: "set (allOf (scoped_policies as v gs sname version)) \<subseteq> set as"
proof -
  have "set_option (last_opt xs) \<subseteq> set xs" for xs :: "'a list"
    using last_in_set[of xs] by (auto simp: last_opt_def)
  then have l: "set_option (last_opt (filter P ys)) \<subseteq> set ys" for P and ys :: "'a list"
    by (metis filter_is_subset subset_trans)
  have "set (allOf (by_scope fpScope v gs ys)) \<subseteq> set ys" for ys
    unfolding by_scope_eq allOf_set by (intro Un_least l filter_is_subset)
  then show ?thesis unfolding scoped_policies_def by (metis filter_is_subset subset_trans)
qed

lemma effective_policy_ok:
  assumes "\<And>a. a \<in> set as \<Longrightarrow> policy_ok a"
  shows "policy_ok (effectiveFieldPolicy as v gs sname version)"
proof -
  have a: "policy_ok a" if "a \<in> set (allOf (scoped_policies as v gs sname version))" for a
    using that allOf_subset assms by blast
  show ?thesis
    unfolding policy_ok_def entries_ok_def effectiveFieldPolicy_lookup bind_eq_Some_conv
    using a winningRule_in winning_prefill_in unfolding policy_ok_def by (fast dest: entries_okD)
qed

section \<open>Strictness and order\<close>

lemma rule_fold_spec:
  defines "res \<equiv> \<lambda>as n. fold (rule_step n) as (None, 0)"
  shows "fst (res as n) = None \<longleftrightarrow> (\<forall>a \<in> set as. \<not> hasRule (Some a) n)"
    and "fst (res as n) = Some a \<Longrightarrow> a \<in> set as \<and> hasRule (Some a) n \<and> snd (res as n) = rule_rank a n \<and>
      (\<forall>b \<in> set as. hasRule (Some b) n \<longrightarrow> rule_rank b n \<le> rule_rank a n)"
proof (induction as arbitrary: a rule: rev_induct)
  case (snoc x as)
  {
    case 1
    then show ?case using snoc(1) by (auto simp: res_def rule_step_def)
  next
    case 2
    show ?case
    proof (cases "fst (res as n)")
      case None
      then show ?thesis using 2 snoc(1) by (auto simp: res_def rule_step_def split: if_splits)
    next
      case (Some b)
      then show ?thesis using 2 snoc(2)[OF Some] by (fastforce simp: res_def rule_step_def split: if_splits)
    qed
  }
qed (simp_all add: res_def)

lemma strictestGroupRule_spec:
  "strictestGroupRule as n = None \<longleftrightarrow> (\<forall>a \<in> set as. \<not> hasRule (Some a) n)"
  "strictestGroupRule as n = Some a \<Longrightarrow> a \<in> set as \<and> hasRule (Some a) n \<and>
     (\<forall>b \<in> set as. hasRule (Some b) n \<longrightarrow> rule_rank b n \<le> rule_rank a n)"
  using rule_fold_spec[of n as] by (simp_all add: strictestGroupRule_def)

lemma rule_rank_state:
  assumes "policy_ok a" and "policy_ok b" and "rule_rank a n = rule_rank b n"
  shows "gm_lookup (fpPolicy a) n = gm_lookup (fpPolicy b) n"
proof (cases "gm_lookup (fpPolicy a) n"; cases "gm_lookup (fpPolicy b) n")
  fix s t assume st: "gm_lookup (fpPolicy a) n = Some s" "gm_lookup (fpPolicy b) n = Some t"
  then have "state_ok s" "state_ok t" using assms(1,2) by (auto simp: policy_ok_def dest: entries_okD)
  then show ?thesis using st assms(3) by (auto simp: rule_rank_def state_ok_def)
next
  fix s assume st: "gm_lookup (fpPolicy a) n = Some s" "gm_lookup (fpPolicy b) n = None"
  then have "state_ok s" using assms(1) by (auto simp: policy_ok_def dest: entries_okD)
  then show ?thesis using st assms(3) by (auto simp: rule_rank_def state_ok_def)
next
  fix t assume st: "gm_lookup (fpPolicy a) n = None" "gm_lookup (fpPolicy b) n = Some t"
  then have "state_ok t" using assms(2) by (auto simp: policy_ok_def dest: entries_okD)
  then show ?thesis using st assms(3) by (auto simp: rule_rank_def state_ok_def)
qed simp

lemma strictest_rank_perm:
  assumes "mset bs = mset as" and "strictestGroupRule as n = Some a"
  shows "\<exists>b. strictestGroupRule bs n = Some b \<and> rule_rank b n = rule_rank a n"
proof -
  have s: "set bs = set as" using assms(1) by (rule mset_eq_setD)
  obtain b where b: "strictestGroupRule bs n = Some b"
    using strictestGroupRule_spec[of as n] strictestGroupRule_spec(1)[of bs n] assms(2) s
    by (cases "strictestGroupRule bs n") auto
  have "rule_rank b n = rule_rank a n"
    using strictestGroupRule_spec(2)[OF b] strictestGroupRule_spec(2)[OF assms(2)] s by (simp add: antisym)
  with b show ?thesis by blast
qed

text \<open>The effective states do not depend on the order in which the store returned the assignments.\<close>

lemma effective_states_perm:
  assumes "scopes_ok fpScope (filter (\<lambda>a. fpSchemaName a = sname \<and> fpSchemaVersion a = version) as)"
    and "\<And>a. a \<in> set as \<Longrightarrow> policy_ok a" and "mset bs = mset as"
  shows "gm_lookup (fpPolicy (effectiveFieldPolicy bs v gs sname version)) n =
         gm_lookup (fpPolicy (effectiveFieldPolicy as v gs sname version)) n"
proof -
  have m: "mset (filter (\<lambda>a. fpSchemaName a = sname \<and> fpSchemaVersion a = version) bs) =
      mset (filter (\<lambda>a. fpSchemaName a = sname \<and> fpSchemaVersion a = version) as)" using assms(3) by simp
  note p = by_scope_perm[OF assms(1) m, of v gs, folded scoped_policies_def]
  obtain va fl ga gb where sc: "scoped_policies as v gs sname version = (va, fl, ga)"
      "scoped_policies bs v gs sname version = (va, fl, gb)"
    using p(1,2) by (cases "scoped_policies as v gs sname version"; cases "scoped_policies bs v gs sname version") auto
  have ok: "policy_ok a" if "a \<in> set ga" for a
    using that assms(2) allOf_subset[of as v gs sname version] by (auto simp: sc allOf_set)
  have g: "mset gb = mset ga" using p(3) by (simp add: sc)
  have "Option.bind (winningRule (va, fl, gb) n) (\<lambda>a. gm_lookup (fpPolicy a) n) =
      Option.bind (winningRule (va, fl, ga) n) (\<lambda>a. gm_lookup (fpPolicy a) n)"
  proof (cases "strictestGroupRule ga n")
    case None
    moreover have "strictestGroupRule gb n = None"
      using None mset_eq_setD[OF g] by (simp add: strictestGroupRule_spec(1))
    ultimately show ?thesis by (simp add: winningRule_def)
  next
    case (Some a)
    then obtain b where b: "strictestGroupRule gb n = Some b" "rule_rank b n = rule_rank a n"
      using strictest_rank_perm[OF g] by blast
    have "a \<in> set ga" "b \<in> set ga"
      using strictestGroupRule_in[OF Some] strictestGroupRule_in[OF b(1)] mset_eq_setD[OF g] by auto
    then have "gm_lookup (fpPolicy b) n = gm_lookup (fpPolicy a) n" using ok b(2) by (intro rule_rank_state) auto
    then show ?thesis using Some b(1) by (simp add: winningRule_def)
  qed
  then show ?thesis by (simp add: effectiveFieldPolicy_lookup sc)
qed

section \<open>Migration keeps what is still there\<close>

lemma carry_lookup:
  assumes "distinct (map fst m)"
  shows "gm_lookup (carry removed m) n = (if n \<in> set removed then None else gm_lookup m n)"
proof -
  have "distinct (map fst m) \<Longrightarrow> gm_lookup (fold (\<lambda>(n, v) next. if n \<in> set removed then next else gm_update n v next) m acc) n =
      (if n \<notin> set removed \<and> gm_lookup m n \<noteq> None then gm_lookup m n else gm_lookup acc n)" for acc
    using assms by (induction m arbitrary: acc) (auto simp: gm_lookup_None_iff image_iff)
  from this[OF assms, of "[]"] show ?thesis by (simp add: carry_def del: not_None_eq)
qed

definition maps_wf :: "schemaFieldPolicy \<Rightarrow> bool" where
  "maps_wf p \<longleftrightarrow> gm_wf (fpPolicy p) \<and> gm_wf (fpEvents p) \<and> gm_wf (fpPrefill p)"

lemma migrate_lookup:
  assumes "maps_wf old"
  shows "gm_lookup (fpPolicy (mrNewPolicy (migrate old version d))) n =
      (if n \<in> fieldName ` set (diffRemoved d) then None else gm_lookup (fpPolicy old) n)"
    and "gm_lookup (fpEvents (mrNewPolicy (migrate old version d))) n =
      (if n \<in> fieldName ` set (diffRemoved d) then None else gm_lookup (fpEvents old) n)"
    and "gm_lookup (fpPrefill (mrNewPolicy (migrate old version d))) n =
      (if n \<in> fieldName ` set (diffRemoved d) then None else gm_lookup (fpPrefill old) n)"
  using assms by (simp_all add: migrate_def Let_def carry_lookup gm_wf_distinct maps_wf_def)

lemma migrate_ok: "maps_wf old \<Longrightarrow> policy_ok old \<Longrightarrow> policy_ok (mrNewPolicy (migrate old version d))"
  by (auto simp: policy_ok_def entries_ok_def migrate_lookup)

text \<open>For a field that both versions have, a report is judged the same after the migration.\<close>

lemma migrate_state:
  assumes "maps_wf old" and "n \<notin> fieldName ` set (diffRemoved d)"
  shows "stateForEvent (fpPolicy (mrNewPolicy (migrate old version d))) n m rel
      (fpEvents (mrNewPolicy (migrate old version d))) ev = stateForEvent (fpPolicy old) n m rel (fpEvents old) ev"
  using assms by (simp add: stateForEvent_def stateFor_def appliesTo_def migrate_lookup)

end
