(* ===== verification/ConfigBundle.thy ===== *)
theory ConfigBundle
  imports FieldPolicyScope ConfigWire
begin

text \<open>
  \<open>office/configbundle\<close>: the composition and publication of a bundle and its resolution for one vessel (\<open>bundle.go\<close>),
  and which bundle is assigned to a vessel (\<open>assignment.go\<close>).

  Values are immutable here, so the clones of the code are the values themselves; the section on sharing models the
  clone of a field policy on a heap of maps, where one map stays shared.

  Lemmas: what a vessel that applied a resolved bundle runs with is what the office's resolvers give for it: the same
  severities, profiles, cadence and field policies.
\<close>

record schemaVersionRef =
  svrSchemaName :: string
  svrVersion :: string
  svrID :: string

record configBundle =
  cbID :: string
  cbLabel :: string
  cbSchemaVersions :: "schemaVersionRef list"
  cbFieldPolicies :: "schemaFieldPolicy list"
  cbRegulatoryProfiles :: "profileAssignment list"
  cbCadenceRules :: "cadenceRule list"
  cbRuleSeverities :: "ruleSeverityAssignment list"
  cbDefaultRoleNames :: "string list"
  cbPublishedAt :: gotime
  cbPublishedBy :: string

datatype bundle_error =
    ErrNilBundle
  | ErrPublishedByRequired
  | ErrBundleID
  | ErrBundleScope compliance_error
  | ErrBundleIDRequired

definition compose ::
  "schemaVersionRef list \<Rightarrow> schemaFieldPolicy list \<Rightarrow> profileAssignment list \<Rightarrow> cadenceRule list
   \<Rightarrow> ruleSeverityAssignment list \<Rightarrow> string list \<Rightarrow> configBundle" where
  "compose schemaVersions fieldPolicies regulatoryProfiles cadenceRules ruleSeverities defaultRoleNames =
     \<lparr>cbID = '''', cbLabel = '''', cbSchemaVersions = schemaVersions, cbFieldPolicies = fieldPolicies,
      cbRegulatoryProfiles = regulatoryProfiles, cbCadenceRules = cadenceRules, cbRuleSeverities = ruleSeverities,
      cbDefaultRoleNames = defaultRoleNames, cbPublishedAt = zero_time, cbPublishedBy = ''''\<rparr>"

text \<open>\<open>uuid\<close> is the result of \<open>uuid.NewV7\<close>.\<close>

definition publish ::
  "string option \<Rightarrow> gotime \<Rightarrow> configBundle option \<Rightarrow> string \<Rightarrow> string \<Rightarrow> bundle_error + configBundle" where
  "publish uuid now composed label publishedBy =
     (case composed of
        None \<Rightarrow> Inl ErrNilBundle
      | Some b \<Rightarrow>
          let publishedBy = trim_space publishedBy in
          if publishedBy = '''' then Inl ErrPublishedByRequired
          else case uuid of
            None \<Rightarrow> Inl ErrBundleID
          | Some i \<Rightarrow> Inr (b\<lparr>cbID := i, cbLabel := trim_space label, cbPublishedAt := now, cbPublishedBy := publishedBy\<rparr>))"

section \<open>Resolution\<close>

definition severity_text :: "severity \<Rightarrow> string" where
  "severity_text s =
     (case s of SeverityError \<Rightarrow> ''error'' | SeverityWarning \<Rightarrow> ''warning'' | SeverityInfo \<Rightarrow> ''info'' | SeverityOther t \<Rightarrow> t)"

definition policy_state_text :: "policy_state \<Rightarrow> string" where
  "policy_state_text s =
     (case s of FieldHidden \<Rightarrow> ''hidden'' | FieldOptional \<Rightarrow> ''optional'' | FieldRecommended \<Rightarrow> ''recommended''
      | FieldCompanyMandatory \<Rightarrow> ''companyMandatory'' | FieldSchemaMandatory \<Rightarrow> ''schemaMandatory'' | FieldStateOther t \<Rightarrow> t)"

definition prefill_text :: "prefillClass \<Rightarrow> string" where
  "prefill_text c =
     (case c of PrefillNone \<Rightarrow> ''none'' | PrefillCarryForward \<Rightarrow> ''carryForward'' | PrefillComputed \<Rightarrow> ''computed''
      | PrefillGhost \<Rightarrow> ''ghost'' | PrefillClassOther t \<Rightarrow> t)"

definition gm_map :: "('v \<Rightarrow> 'w) \<Rightarrow> ('k, 'v) gomap \<Rightarrow> ('k, 'w) gomap" where
  "gm_map f m = map (\<lambda>(k, v). (k, f v)) m"

definition resolve_schema :: "configBundle \<Rightarrow> string \<Rightarrow> string list \<Rightarrow> schemaVersionRef \<Rightarrow> schemaConfig" where
  "resolve_schema b vesselID vesselGroups sv =
     (let eff = effectiveFieldPolicy (cbFieldPolicies b) vesselID vesselGroups (svrSchemaName sv) (svrVersion sv)
      in \<lparr>scSchemaName = svrSchemaName sv, scVersion = svrVersion sv,
          scPolicy = gm_map policy_state_text (fpPolicy eff), scPrefill = gm_map prefill_text (fpPrefill eff),
          scEvents = fpEvents eff\<rparr>)"

definition resolveFor :: "configBundle \<Rightarrow> string \<Rightarrow> string list \<Rightarrow> int \<Rightarrow> wireBundle" where
  "resolveFor b vesselID vesselGroups versionNo =
     (let profiles = effectiveProfiles (cbRegulatoryProfiles b) vesselID vesselGroups;
          cadence = effectiveCadence (cbCadenceRules b) vesselID vesselGroups;
          sevs = effectiveSeverities (cbRuleSeverities b) vesselID vesselGroups
      in \<lparr>bWireVersion = wireVersion, bBundleID = cbID b, bVersionNo = versionNo, bPublishedAt = cbPublishedAt b,
          bSchemas = map (resolve_schema b vesselID vesselGroups) (cbSchemaVersions b),
          bRegulatoryProfiles = map profile_text profiles, bMaxGapHours = crMaxGapHours cadence,
          bRuleSeverities = gm_map severity_text sevs, bDefaultRoleNames = cbDefaultRoleNames b\<rparr>)"

section \<open>Assignment\<close>

record bundleAssignment =
  baScope :: scope
  baBundleID :: string
  baAssignedAt :: gotime

definition newBundleAssignment :: "gotime \<Rightarrow> scope \<Rightarrow> string \<Rightarrow> bundle_error + bundleAssignment" where
  "newBundleAssignment now s bundleID =
     (case validateScope s of
        Some e \<Rightarrow> Inl (ErrBundleScope e)
      | None \<Rightarrow>
          let bundleID = trim_space bundleID in
          if bundleID = '''' then Inl ErrBundleIDRequired
          else Inr \<lparr>baScope = s, baBundleID = bundleID, baAssignedAt = now\<rparr>)"

definition resolve :: "bundleAssignment list \<Rightarrow> string \<Rightarrow> string list \<Rightarrow> bundleAssignment option" where
  "resolve assignments vesselID vesselGroups =
     (case List.find (\<lambda>a. scType (baScope a) = ScopeVessel \<and> scKey (baScope a) = vesselID) assignments of
        Some a \<Rightarrow> Some a
      | None \<Rightarrow>
          (case List.find (\<lambda>a. scType (baScope a) = ScopeGroup \<and> scKey (baScope a) \<in> set vesselGroups) assignments of
             Some a \<Rightarrow> Some a
           | None \<Rightarrow> List.find (\<lambda>a. scType (baScope a) = ScopeFleet) assignments))"

section \<open>What the vessel runs with\<close>

lemma gm_lookup_gm_map [simp]: "gm_lookup (gm_map f m) k = map_option f (gm_lookup m k)"
  by (simp add: gm_map_def map_of_map)

lemma gm_map_map: "gm_map g (gm_map f m) = gm_map (g \<circ> f) m"
  by (auto simp: gm_map_def)

lemma gm_map_id: "(\<And>k v. (k, v) \<in> set m \<Longrightarrow> f v = v) \<Longrightarrow> gm_map f m = m"
  unfolding gm_map_def by (rule map_idI) auto

lemma severity_text_inverse: "known_severity s \<Longrightarrow> to_severity (severity_text s) = s"
  by (auto simp: known_severity_def to_severity_def severity_text_def)

lemma state_text_inverse: "state_ok s \<Longrightarrow> to_policy_state (policy_state_text s) = s"
  by (auto simp: state_ok_def to_policy_state_def policy_state_text_def)

lemma profile_text_inverse: "p \<in> set allRegulatoryProfiles \<Longrightarrow> to_profile (profile_text p) = p"
  by (auto simp: allRegulatoryProfiles_def to_profile_def profile_text_def)

lemma resolveFor_sel [simp]:
  "bWireVersion (resolveFor b v gs n) = wireVersion" "bBundleID (resolveFor b v gs n) = cbID b"
  "bVersionNo (resolveFor b v gs n) = n"
  "bRuleSeverities (resolveFor b v gs n) = gm_map severity_text (effectiveSeverities (cbRuleSeverities b) v gs)"
  "bRegulatoryProfiles (resolveFor b v gs n) = map profile_text (effectiveProfiles (cbRegulatoryProfiles b) v gs)"
  "bMaxGapHours (resolveFor b v gs n) = crMaxGapHours (effectiveCadence (cbCadenceRules b) v gs)"
  "bSchemas (resolveFor b v gs n) = map (resolve_schema b v gs) (cbSchemaVersions b)"
  by (simp_all add: resolveFor_def Let_def)

lemma resolved_is_accepted: "decodeBundle (Doc (resolveFor b v gs n)) = Inr (resolveFor b v gs n)"
  by (simp add: decodeBundle_Inr)

text \<open>The configuration a vessel validates with has exactly the effective severities.\<close>

lemma resolved_severities:
  assumes "\<And>a. a \<in> set (cbRuleSeverities b) \<Longrightarrow> severities_ok a"
  shows "Severities (validationConfigFromBundle (Some (resolveFor b v gs n)) sname) =
    effectiveSeverities (cbRuleSeverities b) v gs"
proof -
  let ?m = "effectiveSeverities (cbRuleSeverities b) v gs"
  have d: "distinct (map fst ?m)" using gm_wf_effectiveSeverities by (rule gm_wf_distinct)
  have "to_severity (severity_text s) = s" if "(r, s) \<in> set ?m" for r s
  proof -
    have "gm_lookup ?m r = Some s" using that d by simp
    then show ?thesis using effective_severity_source assms by (metis severities_ok_def severity_text_inverse)
  qed
  then have "gm_map (to_severity \<circ> severity_text) ?m = ?m" by (intro gm_map_id) auto
  then show ?thesis by (simp add: validationConfigFromBundle_def Let_def gm_map_map[symmetric]) (simp add: gm_map_def)
qed

lemma resolved_config:
  assumes "\<And>a. a \<in> set (cbRuleSeverities b) \<Longrightarrow> severities_ok a"
  shows "validationConfigFromBundle (Some (resolveFor b v gs n)) sname =
    (validationConfigFor sname)\<lparr>Severities := effectiveSeverities (cbRuleSeverities b) v gs\<rparr>"
proof -
  have "validationConfigFromBundle (Some (resolveFor b v gs n)) sname =
      (validationConfigFor sname)\<lparr>Severities := Severities (validationConfigFromBundle (Some (resolveFor b v gs n)) sname)\<rparr>"
    by (simp add: validationConfigFromBundle_def Let_def)
  then show ?thesis using resolved_severities[OF assms] by simp
qed

lemma resolved_profiles:
  "profilesFromBundle (Some (resolveFor b v gs n)) = effectiveProfiles (cbRegulatoryProfiles b) v gs"
  unfolding profilesFromBundle_def option.case resolveFor_sel map_map
  by (rule map_idI) (auto simp: effectiveProfiles_set profile_text_inverse)

lemma resolved_gap:
  assumes "\<And>r. r \<in> set (cbCadenceRules b) \<Longrightarrow> f64_gt (crMaxGapHours r) (F64 0)"
  shows "maxGapHoursFromBundle (Some (resolveFor b v gs n)) = crMaxGapHours (effectiveCadence (cbCadenceRules b) v gs)"
proof -
  have l: "set_option (last_opt (filter P (cbCadenceRules b))) \<subseteq> set (cbCadenceRules b)" for P
    using last_in_set[of "filter P (cbCadenceRules b)"] by (auto simp: last_opt_def)
  have f: "set_option (fold stricter_step rs x) \<subseteq> set_option x \<union> set rs" for rs x
  proof (induction rs arbitrary: x)
    case (Cons r rs)
    have "set_option (stricter_step r x) \<subseteq> insert r (set_option x)" by (auto simp: stricter_step_def split: option.splits if_splits)
    then show ?case using Cons[of "stricter_step r x"] by auto
  qed simp
  have g: "set_option (fold stricter_step (filter P (cbCadenceRules b)) None) \<subseteq> set (cbCadenceRules b)" for P
    using f[of "filter P (cbCadenceRules b)" None] filter_is_subset[of P "cbCadenceRules b"] by (simp add: subset_trans)
  have "effectiveCadence (cbCadenceRules b) v gs \<in> insert defaultCadence (set (cbCadenceRules b))"
    using l[of "for_vessel crScope v"] l[of "\<lambda>r. scType (crScope r) = ScopeFleet"] g[of "for_group crScope gs"]
    unfolding effectiveCadence_def cadence_loop prod.case by (auto split: option.split)
  moreover have "f64_gt (crMaxGapHours defaultCadence) (F64 0)" by (simp add: defaultCadence_def)
  ultimately have "f64_gt (crMaxGapHours (effectiveCadence (cbCadenceRules b) v gs)) (F64 0)" using assms by auto
  then show ?thesis by (simp add: maxGapHoursFromBundle_def)
qed

text \<open>The policy of a schema is the effective one of the first version of it in the bundle.\<close>

lemma find_map: "List.find P (map f xs) = map_option f (List.find (P \<circ> f) xs)"
  by (induction xs) simp_all

lemma resolved_schemaConfig:
  "schemaConfigFor (resolveFor b v gs n) sname =
   map_option (resolve_schema b v gs) (List.find (\<lambda>sv. svrSchemaName sv = sname) (cbSchemaVersions b))"
  by (simp add: schemaConfigFor_def find_map comp_def resolve_schema_def Let_def)

lemma resolved_policy:
  assumes "List.find (\<lambda>sv. svrSchemaName sv = sname) (cbSchemaVersions b) = Some sv"
    and "\<And>a. a \<in> set (cbFieldPolicies b) \<Longrightarrow> policy_ok a"
    and "fieldConfigFromBundle (Some (resolveFor b v gs n)) sname = (policy, events, prefill)"
  shows "gm_lookup (toFieldPolicy policy) f =
      gm_lookup (fpPolicy (effectiveFieldPolicy (cbFieldPolicies b) v gs sname (svrVersion sv))) f"
    and "events = fpEvents (effectiveFieldPolicy (cbFieldPolicies b) v gs sname (svrVersion sv))"
proof -
  let ?e = "effectiveFieldPolicy (cbFieldPolicies b) v gs sname (svrVersion sv)"
  have n: "svrSchemaName sv = sname" using assms(1) by (auto simp: find_Some_iff)
  have pe: "policy = gm_map policy_state_text (fpPolicy ?e)" "events = fpEvents ?e"
    using assms(1,3) n by (auto simp: fieldConfigFromBundle_def resolved_schemaConfig resolve_schema_def Let_def)
  have "toFieldPolicy policy = gm_map to_policy_state policy" by (simp add: toFieldPolicy_def gm_map_def)
  moreover have "state_ok s" if "gm_lookup (fpPolicy ?e) f = Some s" for s
    using effective_policy_ok[OF assms(2), of "cbFieldPolicies b" v gs sname "svrVersion sv"] that
    by (auto simp: policy_ok_def dest: entries_okD)
  ultimately show "gm_lookup (toFieldPolicy policy) f = gm_lookup (fpPolicy ?e) f"
    by (cases "gm_lookup (fpPolicy ?e) f") (simp_all add: pe state_text_inverse)
  show "events = fpEvents ?e" by (rule pe)
qed

text \<open>The most specific scope decides which bundle a vessel gets.\<close>

lemma resolve_specific:
  assumes "resolve as v gs = Some a"
  shows "a \<in> set as \<and> coversVessel (baScope a) v gs \<and>
    (scType (baScope a) \<noteq> ScopeVessel \<longrightarrow> (\<forall>b \<in> set as. coversVessel (baScope b) v gs \<longrightarrow> scType (baScope b) \<noteq> ScopeVessel)) \<and>
    (scType (baScope a) = ScopeFleet \<longrightarrow> (\<forall>b \<in> set as. coversVessel (baScope b) v gs \<longrightarrow> scType (baScope b) = ScopeFleet))"
proof -
  have f: "List.find P xs = Some x \<Longrightarrow> x \<in> set xs \<and> P x" for P and xs :: "bundleAssignment list" and x
    by (auto simp: find_Some_iff)
  have fn: "List.find P xs = None \<Longrightarrow> y \<in> set xs \<Longrightarrow> \<not> P y" for P and xs :: "bundleAssignment list" and y
    by (auto simp: find_None_iff)
  show ?thesis
    using assms unfolding resolve_def
    by (auto simp: coversVessel_def dest!: f dest: fn split: option.splits scopeType.splits)
qed

lemma coversVessel_cases:
  "coversVessel s v gs \<longleftrightarrow> (scType s = ScopeVessel \<and> scKey s = v) \<or> (scType s = ScopeGroup \<and> scKey s \<in> set gs) \<or> scType s = ScopeFleet"
  by (auto simp: coversVessel_def split: scopeType.split)

lemma resolve_None: "resolve as v gs = None \<longleftrightarrow> \<not> (\<exists>a \<in> set as. coversVessel (baScope a) v gs)"
proof -
  have f: "List.find P xs = None \<longleftrightarrow> \<not> (\<exists>x \<in> set xs. P x)" for P and xs :: "bundleAssignment list"
    by (auto simp: find_None_iff)
  have "resolve as v gs = None \<longleftrightarrow>
      List.find (\<lambda>a. scType (baScope a) = ScopeVessel \<and> scKey (baScope a) = v) as = None \<and>
      List.find (\<lambda>a. scType (baScope a) = ScopeGroup \<and> scKey (baScope a) \<in> set gs) as = None \<and>
      List.find (\<lambda>a. scType (baScope a) = ScopeFleet) as = None"
    by (auto simp: resolve_def split: option.split)
  then show ?thesis unfolding f coversVessel_cases by blast
qed

lemma publish_keeps:
  assumes "publish uuid now (Some b) label who = Inr b'"
  shows "resolveFor b' v gs n = (resolveFor b v gs n)\<lparr>bBundleID := cbID b', bPublishedAt := now\<rparr>"
  using assms
  by (auto simp: publish_def resolveFor_def resolve_schema_def Let_def fun_eq_iff split: if_splits option.splits)
section \<open>Sharing\<close>

text \<open>
  The clone of a field policy on a heap: a policy refers to its three maps by their addresses.  \<open>maps.Clone\<close> allocates a
  map with the same entries; the struct copy \<open>cp := *p\<close> copies the addresses.
\<close>

record mapHeap =
  hpPolicies :: "fieldPolicy list"
  hpEvents :: "fieldEvents list"
  hpPrefills :: "(string, prefillClass) gomap list"

record policyRef =
  refPolicy :: schemaFieldPolicy \<comment> \<open>scope, schema and time; its maps are those at the addresses\<close>
  refPolicyMap :: nat
  refEventsMap :: nat
  refPrefillMap :: nat

definition deref :: "mapHeap \<Rightarrow> policyRef \<Rightarrow> schemaFieldPolicy" where
  "deref h p = (refPolicy p)\<lparr>fpPolicy := hpPolicies h ! refPolicyMap p, fpEvents := hpEvents h ! refEventsMap p,
     fpPrefill := hpPrefills h ! refPrefillMap p\<rparr>"

definition ref_ok :: "mapHeap \<Rightarrow> policyRef \<Rightarrow> bool" where
  "ref_ok h p \<longleftrightarrow> refPolicyMap p < length (hpPolicies h) \<and> refEventsMap p < length (hpEvents h) \<and>
     refPrefillMap p < length (hpPrefills h)"

definition clone_policy :: "policyRef \<Rightarrow> mapHeap \<Rightarrow> policyRef \<times> mapHeap" where
  "clone_policy p h =
     (p\<lparr>refPolicyMap := length (hpPolicies h), refPrefillMap := length (hpPrefills h)\<rparr>,
      h\<lparr>hpPolicies := hpPolicies h @ [hpPolicies h ! refPolicyMap p],
        hpPrefills := hpPrefills h @ [hpPrefills h ! refPrefillMap p]\<rparr>)"

fun cloneFieldPolicies :: "policyRef list \<Rightarrow> mapHeap \<Rightarrow> policyRef list \<times> mapHeap" where
  "cloneFieldPolicies [] h = ([], h)"
| "cloneFieldPolicies (p # ps) h =
     (case clone_policy p h of (cp, h) \<Rightarrow> case cloneFieldPolicies ps h of (cps, h) \<Rightarrow> (cp # cps, h))"

text \<open>The writes \<open>p.Policy[f] = st\<close>, \<open>p.Events[f] = evs\<close> and \<open>p.Prefill[f] = c\<close>.\<close>

definition write_policy :: "policyRef \<Rightarrow> string \<Rightarrow> policy_state \<Rightarrow> mapHeap \<Rightarrow> mapHeap" where
  "write_policy p f st h = h\<lparr>hpPolicies := (hpPolicies h)[refPolicyMap p := gm_update f st (hpPolicies h ! refPolicyMap p)]\<rparr>"

definition write_events :: "policyRef \<Rightarrow> string \<Rightarrow> string list \<Rightarrow> mapHeap \<Rightarrow> mapHeap" where
  "write_events p f evs h = h\<lparr>hpEvents := (hpEvents h)[refEventsMap p := gm_update f evs (hpEvents h ! refEventsMap p)]\<rparr>"

definition write_prefill :: "policyRef \<Rightarrow> string \<Rightarrow> prefillClass \<Rightarrow> mapHeap \<Rightarrow> mapHeap" where
  "write_prefill p f c h = h\<lparr>hpPrefills := (hpPrefills h)[refPrefillMap p := gm_update f c (hpPrefills h ! refPrefillMap p)]\<rparr>"

definition heap_ext :: "mapHeap \<Rightarrow> mapHeap \<Rightarrow> bool" where
  "heap_ext h h' \<longleftrightarrow> (\<exists>ps qs. hpPolicies h' = hpPolicies h @ ps \<and> hpPrefills h' = hpPrefills h @ qs \<and> hpEvents h' = hpEvents h)"

lemma clone_ext: "cloneFieldPolicies ps h = (cps, h') \<Longrightarrow> heap_ext h h'"
proof (induction ps arbitrary: cps h)
  case (Cons p ps)
  obtain cp h1 where c: "clone_policy p h = (cp, h1)" by fastforce
  with Cons.prems obtain cps' where "cloneFieldPolicies ps h1 = (cps', h')" by (auto split: prod.splits)
  from Cons.IH[OF this] c show ?case by (auto simp: heap_ext_def clone_policy_def)
qed (auto simp: heap_ext_def)

text \<open>The clones have the values of the originals, their own policy and prefill maps, and the events map of the original.\<close>

lemma clone_spec:
  assumes "cloneFieldPolicies ps h = (cps, h')" and "\<And>p. p \<in> set ps \<Longrightarrow> ref_ok h p" and "i < length ps"
  shows "length cps = length ps" and "deref h' (cps ! i) = deref h (ps ! i)" and "ref_ok h' (cps ! i)"
    and "refEventsMap (cps ! i) = refEventsMap (ps ! i)"
    and "length (hpPolicies h) \<le> refPolicyMap (cps ! i)" and "length (hpPrefills h) \<le> refPrefillMap (cps ! i)"
proof -
  have "length cps = length ps \<and> deref h' (cps ! i) = deref h (ps ! i) \<and> ref_ok h' (cps ! i) \<and>
      refEventsMap (cps ! i) = refEventsMap (ps ! i) \<and>
      length (hpPolicies h) \<le> refPolicyMap (cps ! i) \<and> length (hpPrefills h) \<le> refPrefillMap (cps ! i)"
    using assms
  proof (induction ps arbitrary: cps h i)
    case (Cons p ps)
    obtain cp h1 where c: "clone_policy p h = (cp, h1)" by fastforce
    with Cons.prems obtain cps' where cs: "cps = cp # cps'" "cloneFieldPolicies ps h1 = (cps', h')" by (auto split: prod.splits)
    have ext: "heap_ext h h1" using c by (auto simp: heap_ext_def clone_policy_def)
    have ok: "ref_ok h1 q \<and> deref h1 q = deref h q" if "q \<in> set ps" for q
      using Cons.prems(2)[of q] that ext by (auto simp: ref_ok_def heap_ext_def deref_def nth_append)
    have len: "length cps' = length ps" using cs(2)
      by (induction ps arbitrary: h1 cps') (auto split: prod.splits)
    show ?case
    proof (cases i)
      case 0
      have "ref_ok h p" using Cons.prems(2) by simp
      then show ?thesis using 0 c clone_ext[OF cs(2)] len
        by (auto simp: cs(1) clone_policy_def heap_ext_def ref_ok_def deref_def nth_append)
    next
      case (Suc j)
      then have "j < length ps" using Cons.prems(3) by simp
      from Cons.IH[OF cs(2) _ this] ok ext Suc show ?thesis
        using \<open>j < length ps\<close> by (auto simp: cs(1) heap_ext_def)
    qed
  qed simp
  then show "length cps = length ps" "deref h' (cps ! i) = deref h (ps ! i)" "ref_ok h' (cps ! i)"
    "refEventsMap (cps ! i) = refEventsMap (ps ! i)"
    "length (hpPolicies h) \<le> refPolicyMap (cps ! i)" "length (hpPrefills h) \<le> refPrefillMap (cps ! i)" by simp_all
qed

text \<open>A later edit of the original's states or prefill classes does not reach the clone; an edit of its events does.\<close>

lemma clone_isolated:
  assumes "cloneFieldPolicies ps h = (cps, h')" and "\<And>p. p \<in> set ps \<Longrightarrow> ref_ok h p" and "i < length ps" and "q \<in> set ps"
  shows "deref (write_policy q f st h') (cps ! i) = deref h (ps ! i)"
    and "deref (write_prefill q f c h') (cps ! i) = deref h (ps ! i)"
  using clone_spec[OF assms(1-3)] assms(2)[OF assms(4)]
  by (auto simp: deref_def write_policy_def write_prefill_def ref_ok_def)

lemma clone_shares_events:
  assumes "cloneFieldPolicies ps h = (cps, h')" and "\<And>p. p \<in> set ps \<Longrightarrow> ref_ok h p" and "i < length ps"
  shows "fpEvents (deref (write_events (ps ! i) f evs h') (cps ! i)) = gm_update f evs (fpEvents (deref h (ps ! i)))"
proof -
  have "hpEvents h' = hpEvents h" using clone_ext[OF assms(1)] by (auto simp: heap_ext_def)
  moreover have "ref_ok h (ps ! i)" using assms(2,3) by simp
  ultimately show ?thesis
    using clone_spec(4)[OF assms] by (simp add: deref_def write_events_def ref_ok_def)
qed

end
