(* ===== verification/Enrollment.thy ===== *)
theory Enrollment
  imports Users
begin

text \<open>
  \<open>office/enrollment\<close>: the one enrollment record of a vessel, its one-time code and the credentials printed with it.
  Codes and passwords are drawn by \<open>authcrypto.RandomToken\<close>, an argument here (\<open>None\<close> when the system has no
  randomness); their hashes go through the package of \<open>crypto\<close>.

  Lemmas: a code is redeemed at most once, a revoked or enrolled record matches no code, and redemption finds the first
  record whose code it is.
\<close>

datatype enrollmentState = EnrollIssued | EnrollEnrolled | EnrollRevoked | EnrollOther string

record enrollment =
  enVesselID :: string
  enState :: enrollmentState
  enCodeHash :: string
  enInitialMasterUsername :: string
  enInitialMasterPasswordHash :: string
  enDRPublicKey :: string
  enIssuedAt :: gotime
  enRevokedAt :: "gotime option"
  enUpdatedAt :: gotime

datatype enrollment_error =
    ErrVesselIDRequired
  | ErrGenerateCode
  | ErrHashCode user_error
  | ErrGeneratePassword
  | ErrHashMasterPassword user_error
  | ErrVerifyCode user_error
  | ErrCodeNotFound

record issueResult =
  irEnrollment :: enrollment
  irCode :: string
  irInitialMasterPassword :: string

definition defaultMasterUsername :: string where "defaultMasterUsername = ''master''"

text \<open>\<open>code\<close> and \<open>password\<close> are the tokens drawn, in this order.\<close>

definition reissue ::
  "crypto \<Rightarrow> gotime \<Rightarrow> string option \<Rightarrow> string option \<Rightarrow> string \<Rightarrow> enrollment \<Rightarrow> enrollment_error + issueResult" where
  "reissue c now code password initialMasterUsername e =
     (let username = trim_space initialMasterUsername;
          username = (if username = '''' then defaultMasterUsername else username) in
      case code of
        None \<Rightarrow> Inl ErrGenerateCode
      | Some code \<Rightarrow>
     (case hashPassword c code of
        Inl err \<Rightarrow> Inl (ErrHashCode err)
      | Inr codeHash \<Rightarrow>
     (case password of
        None \<Rightarrow> Inl ErrGeneratePassword
      | Some password \<Rightarrow>
     (case hashPassword c password of
        Inl err \<Rightarrow> Inl (ErrHashMasterPassword err)
      | Inr passwordHash \<Rightarrow>
          Inr \<lparr>irEnrollment = e\<lparr>enState := EnrollIssued, enCodeHash := codeHash,
                 enInitialMasterUsername := username, enInitialMasterPasswordHash := passwordHash,
                 enIssuedAt := now, enRevokedAt := None, enUpdatedAt := now\<rparr>,
               irCode = code, irInitialMasterPassword = password\<rparr>))))"

definition blank_enrollment :: "string \<Rightarrow> enrollment" where
  "blank_enrollment vesselID = \<lparr>enVesselID = vesselID, enState = EnrollOther '''', enCodeHash = '''',
     enInitialMasterUsername = '''', enInitialMasterPasswordHash = '''', enDRPublicKey = '''', enIssuedAt = zero_time,
     enRevokedAt = None, enUpdatedAt = zero_time\<rparr>"

definition issue ::
  "crypto \<Rightarrow> gotime \<Rightarrow> string option \<Rightarrow> string option \<Rightarrow> string \<Rightarrow> string \<Rightarrow> enrollment_error + issueResult" where
  "issue c now code password vesselID initialMasterUsername =
     (if trim_space vesselID = '''' then Inl ErrVesselIDRequired
      else reissue c now code password initialMasterUsername (blank_enrollment vesselID))"

definition revoke :: "gotime \<Rightarrow> enrollment \<Rightarrow> enrollment" where
  "revoke now e = e\<lparr>enState := EnrollRevoked, enCodeHash := '''', enRevokedAt := Some now, enUpdatedAt := now\<rparr>"

definition verifyCode :: "crypto \<Rightarrow> string \<Rightarrow> enrollment \<Rightarrow> user_error + bool" where
  "verifyCode c code e =
     (if enState e \<noteq> EnrollIssued \<or> enCodeHash e = '''' then Inr False
      else verifyPassword c code (enCodeHash e))"

definition enrol_now :: "gotime \<Rightarrow> enrollment \<Rightarrow> enrollment" where
  "enrol_now now e = e\<lparr>enState := EnrollEnrolled, enCodeHash := '''', enUpdatedAt := now\<rparr>"

fun redeem :: "crypto \<Rightarrow> gotime \<Rightarrow> enrollment list \<Rightarrow> string \<Rightarrow> enrollment_error + enrollment" where
  "redeem c now [] code = Inl ErrCodeNotFound"
| "redeem c now (e # es) code =
     (case verifyCode c code e of
        Inl err \<Rightarrow> Inl (ErrVerifyCode err)
      | Inr found \<Rightarrow> if found then Inr (enrol_now now e) else redeem c now es code)"

section \<open>Codes\<close>

lemma reissue_InrD:
  assumes "reissue c now code password name e = Inr r"
  shows "code = Some (irCode r)" and "password = Some (irInitialMasterPassword r)"
    and "hashPassword c (irCode r) = Inr (enCodeHash (irEnrollment r))"
    and "enState (irEnrollment r) = EnrollIssued" and "enVesselID (irEnrollment r) = enVesselID e"
    and "enDRPublicKey (irEnrollment r) = enDRPublicKey e"
  using assms by (auto simp: reissue_def Let_def split: option.splits sum.splits)

lemma issue_InrD:
  assumes "issue c now code password v name = Inr r"
  shows "reissue c now code password name (blank_enrollment v) = Inr r" and "enVesselID (irEnrollment r) = v"
  using assms reissue_InrD(5)[of c now code password name "blank_enrollment v" r]
  by (auto simp: issue_def blank_enrollment_def split: if_splits)

text \<open>The code just issued opens its record; no code opens one that is not waiting.\<close>

lemma issued_code_matches:
  assumes "crypto_ok c" and "reissue c now code password name e = Inr r" and "enCodeHash (irEnrollment r) \<noteq> ''''"
  shows "verifyCode c (irCode r) (irEnrollment r) = Inr True"
  using assms(1,3) reissue_InrD(3,4)[OF assms(2)]
  by (auto simp: verifyCode_def verifyPassword_def crypto_ok_def hashPassword_Inr)

lemma spent_code: "verifyCode c code (enrol_now now e) = Inr False" "verifyCode c code (revoke now e) = Inr False"
  by (simp_all add: verifyCode_def enrol_now_def revoke_def)

lemma redeem_InrD:
  "redeem c now es code = Inr e' \<Longrightarrow>
   \<exists>xs e ys. es = xs @ e # ys \<and> verifyCode c code e = Inr True \<and> (\<forall>x \<in> set xs. verifyCode c code x = Inr False) \<and>
     e' = enrol_now now e"
proof (induction c now es code rule: redeem.induct)
  case (2 c now e es code)
  show ?case
  proof (cases "verifyCode c code e")
    case (Inr found)
    show ?thesis
    proof (cases found)
      case True
      then show ?thesis using "2.prems" Inr by (intro exI[of _ "[]"]) auto
    next
      case False
      then have "redeem c now es code = Inr e'" using "2.prems" Inr by simp
      from "2.IH"[OF Inr False this] obtain xs x ys where "es = xs @ x # ys" "verifyCode c code x = Inr True"
        "\<forall>x \<in> set xs. verifyCode c code x = Inr False" "e' = enrol_now now x" by blast
      then show ?thesis using Inr False by (intro exI[of _ "e # xs"]) auto
    qed
  qed (use "2.prems" in simp)
qed simp

lemma redeem_not_found:
  "\<forall>e \<in> set es. verifyCode c code e = Inr False \<Longrightarrow> redeem c now es code = Inl ErrCodeNotFound"
  by (induction es) auto

end
