(* ===== verification/OfficeStore.thy ===== *)
theory OfficeStore
  imports VesselStore ConfigBundle Enrollment
begin

text \<open>
  \<open>office/store\<close>: the Postgres tables into which the office lands what vessels push (\<open>reportlanding.go\<close>) and from
  which they pull (\<open>invalidation.go\<close>, \<open>remarks.go\<close>, \<open>chat.go\<close>, \<open>usercommands.go\<close>,
  \<open>restorecommands.go\<close>, \<open>schemaversions.go\<close>), check-ins (\<open>syncstatus.go\<close>), credentials (\<open>synccred.go\<close>), the fleet (\<open>vessels.go\<close>), enrollments
  (\<open>enrollments.go\<close>) and reviews (\<open>reportreviews.go\<close>).  A table is the list of its rows in
  insertion order.  What Postgres does to a value is a parameter: a \<open>TIMESTAMPTZ\<close> column keeps microseconds, a text column
  refuses some byte strings, a \<open>JSONB\<close> column refuses some documents and returns a normalised one.  A statement fails when
  a value is refused, a constraint violated or the vessel unknown; failures of the connection are not modelled.

  A \<open>BIGSERIAL\<close> column comes with its counter; numbers that failed insertions use up are not modelled.  Statements run
  one after the other: a row is visible before a larger number is handed out.
\<close>

record pg =
  pgTime :: "gotime \<Rightarrow> gotime"
  pgText :: "string \<Rightarrow> bool"
  pgFields :: "(string, json) gomap \<Rightarrow> (string, json) gomap option"

datatype ostore_error = OErrNotFound | OErrMarshal | OErrStatement

definition pgInt4 :: "int \<Rightarrow> bool" where
  "pgInt4 n \<longleftrightarrow> - (2 ^ 31) \<le> n \<and> n < 2 ^ 31"

definition pg_fields :: "pg \<Rightarrow> fields \<Rightarrow> fields option" where
  "pg_fields pg fs = (case fs of None \<Rightarrow> Some None | Some m \<Rightarrow> map_option Some (pgFields pg m))"

section \<open>Tables\<close>

record vesselRow =
  vrID :: string
  vrIMO :: string
  vrName :: string
  vrType :: string
  vrGroups :: "string list"
  vrCreatedAt :: gotime
  vrUpdatedAt :: gotime

record landedVersion =
  lvVesselID :: string
  lvReport :: report
  lvSchemaVersion :: string
  lvReceivedAt :: gotime

datatype eventOrigin = OriginVessel | OriginOffice

record auditRow =
  arVesselID :: string
  arEvent :: event
  arReceivedAt :: gotime
  arOrigin :: eventOrigin

record receipt =
  rcVesselID :: string
  rcItemID :: string
  rcSequenceNo :: int
  rcReceivedAt :: gotime

text \<open>A row of a stream a vessel pulls from: its number, its vessel and its content.\<close>

record 'a streamRow =
  srSeq :: int
  srVesselID :: string
  srItem :: 'a

record remarkRow =
  rrRemark :: remark
  rrSetID :: string
  rrResolvedAt :: "gotime option"

record officeUserCommand =
  oucID :: string
  oucAction :: string
  oucUsername :: string
  oucRole :: string
  oucTemporaryPassword :: string
  oucCanSubmit :: bool
  oucActive :: bool
  oucIssuedBy :: string
  oucIssuedAt :: gotime
  oucFetchedAt :: "gotime option"
  oucAppliedAt :: "gotime option"

record rosterRow =
  roVesselID :: string
  roUsername :: string
  roRole :: string
  roActive :: bool
  roCanSubmit :: bool
  roUpdatedAt :: gotime
  roReportedAt :: gotime

record restoreCommand =
  rsoID :: string
  rsoReason :: string
  rsoIssuedBy :: string
  rsoIssuedAt :: gotime
  rsoFetchedAt :: "gotime option"
  rsoAppliedAt :: "gotime option"

record schemaVersionRow =
  svID :: string
  svSchemaName :: string
  svVersion :: string
  svSource :: string
  svContent :: string
  svPublishedAt :: gotime
  svPublishedBy :: string

record vesselSyncStatus =
  ssVesselID :: string
  ssAppVersion :: string
  ssLastSeenAt :: gotime
  ssAppliedBundleID :: string
  ssAppliedBundleVersion :: int

record credential =
  cdVesselID :: string
  cdTokenHash :: string
  cdTokenLookupHash :: string
  cdIssuedAt :: gotime
  cdRevokedAt :: "gotime option"
  cdLastUsedAt :: "gotime option"

record reviewRow =
  rvVesselID :: string
  rvReportID :: string
  rvReviewedBy :: string
  rvReviewedAt :: gotime

record ostore =
  osVessels :: "vesselRow list"
  osVersions :: "landedVersion list"
  osEvents :: "auditRow list"
  osReceipts :: "receipt list"
  osChat :: "chatMessage streamRow list"
  osNextChat :: int
  osNotices :: "invalidationNotice streamRow list"
  osNextNotice :: int
  osRemarks :: "remarkRow streamRow list"
  osNextRemark :: int
  osCommands :: "officeUserCommand streamRow list"
  osNextCommand :: int
  osRoster :: "rosterRow list"
  osSeverities :: "ruleSeverityAssignment list"
  osCadence :: "cadenceRule list"
  osProfiles :: "profileAssignment list"
  osPolicies :: "schemaFieldPolicy list"
  osBundles :: "(int \<times> configBundle) list" \<comment> \<open>with the identity column \<open>cursor\<close>\<close>
  osNextBundle :: int
  osAssignments :: "bundleAssignment list"
  osSchemaVersions :: "schemaVersionRow streamRow list" \<comment> \<open>one stream for all vessels\<close>
  osNextSchemaVersion :: int
  osRestores :: "restoreCommand streamRow list"
  osNextRestore :: int
  osSyncStatus :: "vesselSyncStatus list"
  osCredentials :: "credential list"
  osEnrollments :: "enrollment list"
  osReviews :: "reviewRow list"

definition getVessel :: "string \<Rightarrow> ostore \<Rightarrow> ostore_error + vesselRow" where
  "getVessel i st = (case find_row vrID (osVessels st) i of None \<Rightarrow> Inl OErrNotFound | Some v \<Rightarrow> Inr v)"

definition known_vessel :: "ostore \<Rightarrow> string \<Rightarrow> bool" where
  "known_vessel st i \<longleftrightarrow> list_ex (\<lambda>v. vrID v = i) (osVessels st)"

text \<open>\<open>ON CONFLICT DO UPDATE\<close> of every column that is not part of the key.\<close>

definition upsert_by :: "('v \<Rightarrow> 'k) \<Rightarrow> 'v \<Rightarrow> 'v list \<Rightarrow> 'v list" where
  "upsert_by key v rows =
     (if list_ex (\<lambda>x. key x = key v) rows then map (\<lambda>x. if key x = key v then v else x) rows else rows @ [v])"

section \<open>Landing\<close>

definition lv_key :: "landedVersion \<Rightarrow> string \<times> string \<times> int" where
  "lv_key l = (lvVesselID l, ReportID (lvReport l), VersionNo (lvReport l))"

text \<open>The row as a query reads it: the columns there are, the rest zero.\<close>

definition landed_report :: "pg \<Rightarrow> report \<Rightarrow> fields \<Rightarrow> report" where
  "landed_report pg r fs =
     \<lparr>ReportID = ReportID r, VersionNo = VersionNo r, SchemaName = SchemaName r, EventType = EventType r,
      EventTime = pgTime pg (EventTime r), Fields = fs, State = State r, InvalidatedFrom = StateZero,
      InvalidatedRules = [], CreatedAt = zero_time, CreatedBy = '''', UpdatedAt = zero_time,
      SubmittedAt = (if is_zero (SubmittedAt r) then zero_time else pgTime pg (SubmittedAt r)), SubmittedBy = ''''\<rparr>"

definition put_row :: "landedVersion \<Rightarrow> ostore \<Rightarrow> ostore" where
  "put_row l st = st\<lparr>osVersions := upsert_by lv_key l (osVersions st)\<rparr>"

definition upsertReportVersion ::
  "pg \<Rightarrow> string \<Rightarrow> report \<Rightarrow> string \<Rightarrow> gotime \<Rightarrow> ostore \<Rightarrow> ostore_error + ostore" where
  "upsertReportVersion pg vesselID r version receivedAt st =
     (if \<not> fields_finite (Fields r) then Inl OErrMarshal
      else case pg_fields pg (Fields r) of
        None \<Rightarrow> Inl OErrStatement
      | Some fs \<Rightarrow>
          if known_vessel st vesselID \<and> pgInt4 (VersionNo r) \<and>
             list_all (pgText pg) [ReportID r, SchemaName r, version, EventType r]
          then Inr (put_row \<lparr>lvVesselID = vesselID, lvReport = landed_report pg r fs, lvSchemaVersion = version,
                             lvReceivedAt = pgTime pg receivedAt\<rparr> st)
          else Inl OErrStatement)"

definition getReportVersion :: "string \<Rightarrow> string \<Rightarrow> int \<Rightarrow> ostore \<Rightarrow> ostore_error + report" where
  "getReportVersion vesselID reportID versionNo st =
     (case find_row lv_key (osVersions st) (vesselID, reportID, versionNo) of
        None \<Rightarrow> Inl OErrNotFound | Some l \<Rightarrow> Inr (lvReport l))"

definition appendReportAuditEvent ::
  "pg \<Rightarrow> string \<Rightarrow> event \<Rightarrow> gotime \<Rightarrow> eventOrigin \<Rightarrow> ostore \<Rightarrow> ostore_error + ostore" where
  "appendReportAuditEvent pg vesselID e receivedAt origin st =
     (let detail = (case evDetail e of None \<Rightarrow> [] | Some d \<Rightarrow> d) in
      if \<not> json_finite_obj detail then Inl OErrMarshal
      else case pgFields pg detail of
        None \<Rightarrow> Inl OErrStatement
      | Some d \<Rightarrow>
          if known_vessel st vesselID \<and> pgInt4 (evVersionNo e) \<and> pgText pg (evReportID e) \<and> pgText pg (evActor e)
          then Inr (st\<lparr>osEvents := osEvents st @
                 [\<lparr>arVesselID = vesselID, arEvent = e\<lparr>evAt := pgTime pg (evAt e), evDetail := Some d\<rparr>,
                   arReceivedAt = pgTime pg receivedAt, arOrigin = origin\<rparr>]\<rparr>)
          else Inl OErrStatement)"

definition vessel_reports :: "string \<Rightarrow> ostore \<Rightarrow> report list" where
  "vessel_reports vesselID st = map lvReport (filter (\<lambda>l. lvVesselID l = vesselID) (osVersions st))"

definition listReportVersions :: "string \<Rightarrow> string \<Rightarrow> ostore \<Rightarrow> report list" where
  "listReportVersions vesselID reportID st =
     sort_key VersionNo (filter (\<lambda>r. ReportID r = reportID) (vessel_reports vesselID st))"

definition listReportAuditEvents :: "slice_sorter \<Rightarrow> string \<Rightarrow> string \<Rightarrow> ostore \<Rightarrow> (event \<times> eventOrigin) list" where
  "listReportAuditEvents p vesselID reportID st =
     map (\<lambda>a. (arEvent a, arOrigin a)) (sort_slice p (\<lambda>a. evAt (arEvent a))
       (filter (\<lambda>a. arVesselID a = vesselID \<and> evReportID (arEvent a) = reportID) (osEvents st)))"

text \<open>The latest version of each report among those of the schema; the order of ties is the sorter's.\<close>

definition ochain_rows :: "string \<Rightarrow> string \<Rightarrow> ostore \<Rightarrow> report list" where
  "ochain_rows vesselID sname st =
     (let rs = filter (\<lambda>r. SchemaName r = sname) (vessel_reports vesselID st) in filter (is_latest rs) rs)"

definition olistChain :: "slice_sorter \<Rightarrow> string \<Rightarrow> string \<Rightarrow> ostore \<Rightarrow> report list" where
  "olistChain p vesselID sname st = sort_slice p EventTime (ochain_rows vesselID sname st)"

definition updateReportVersionState :: "string \<Rightarrow> string \<Rightarrow> int \<Rightarrow> state \<Rightarrow> ostore \<Rightarrow> ostore_error + ostore" where
  "updateReportVersionState vesselID reportID versionNo s st =
     Inr (st\<lparr>osVersions := map (\<lambda>l. if lv_key l = (vesselID, reportID, versionNo)
                                   then l\<lparr>lvReport := (lvReport l)\<lparr>State := s\<rparr>\<rparr> else l) (osVersions st)\<rparr>)"

definition rc_key :: "receipt \<Rightarrow> string \<times> string" where
  "rc_key r = (rcVesselID r, rcItemID r)"

definition hasOutboxReceipt :: "pg \<Rightarrow> string \<Rightarrow> string \<Rightarrow> ostore \<Rightarrow> ostore_error + bool" where
  "hasOutboxReceipt pg vesselID itemID st =
     (if pgText pg itemID then Inr (find_row rc_key (osReceipts st) (vesselID, itemID) \<noteq> None) else Inl OErrStatement)"

definition put_receipt :: "receipt \<Rightarrow> ostore \<Rightarrow> ostore" where
  "put_receipt r st = st\<lparr>osReceipts := insert_absent rc_key r (osReceipts st)\<rparr>"

definition recordOutboxReceipt :: "pg \<Rightarrow> string \<Rightarrow> string \<Rightarrow> int \<Rightarrow> gotime \<Rightarrow> ostore \<Rightarrow> ostore_error + ostore" where
  "recordOutboxReceipt pg vesselID itemID sequenceNo receivedAt st =
     (if known_vessel st vesselID \<and> pgText pg itemID
      then Inr (put_receipt \<lparr>rcVesselID = vesselID, rcItemID = itemID, rcSequenceNo = sequenceNo,
                             rcReceivedAt = pgTime pg receivedAt\<rparr> st)
      else Inl OErrStatement)"

section \<open>Streams\<close>

text \<open>The query of every stream, and the cursor after it: the largest number delivered, or the old cursor.\<close>

definition since :: "string \<Rightarrow> int \<Rightarrow> 'a streamRow list \<Rightarrow> 'a streamRow list" where
  "since vesselID cursor rows = sort_key srSeq (filter (\<lambda>r. srVesselID r = vesselID \<and> srSeq r > cursor) rows)"

definition next_cursor :: "int \<Rightarrow> 'a streamRow list \<Rightarrow> int" where
  "next_cursor cursor rows = fold (\<lambda>r c. if srSeq r > c then srSeq r else c) rows cursor"

definition oinsertChatMessage :: "pg \<Rightarrow> string \<Rightarrow> chatMessage \<Rightarrow> ostore \<Rightarrow> ostore_error + ostore" where
  "oinsertChatMessage pg vesselID m st =
     (if known_vessel st vesselID \<and> \<not> list_ex (\<lambda>r. cmID (srItem r) = cmID m) (osChat st) \<and>
         list_all (pgText pg) [cmID m, cmReportID m, cmSender m, cmBody m]
      then Inr (st\<lparr>osChat := osChat st @ [\<lparr>srSeq = osNextChat st, srVesselID = vesselID,
                    srItem = m\<lparr>cmSentAt := pgTime pg (cmSentAt m)\<rparr>\<rparr>], osNextChat := osNextChat st + 1\<rparr>)
      else Inl OErrStatement)"

definition olistChatMessages :: "slice_sorter \<Rightarrow> string \<Rightarrow> string \<Rightarrow> ostore \<Rightarrow> chatMessage list" where
  "olistChatMessages p vesselID reportID st =
     sort_slice p cmSentAt (map srItem (filter (\<lambda>r. srVesselID r = vesselID \<and> cmReportID (srItem r) = reportID) (osChat st)))"

definition listChatMessagesSince :: "string \<Rightarrow> int \<Rightarrow> ostore \<Rightarrow> chatMessage streamRow list" where
  "listChatMessagesSince vesselID cursor st =
     since vesselID cursor (filter (\<lambda>r. cmDirection (srItem r) = ChatFromOffice) (osChat st))"

definition oinsertInvalidationNotice ::
  "pg \<Rightarrow> string \<Rightarrow> string \<Rightarrow> int \<Rightarrow> string list \<Rightarrow> gotime \<Rightarrow> ostore \<Rightarrow> ostore_error + ostore" where
  "oinsertInvalidationNotice pg vesselID reportID versionNo brokenRules computedAt st =
     (if known_vessel st vesselID \<and> pgInt4 versionNo \<and> list_all (pgText pg) (reportID # brokenRules)
      then Inr (st\<lparr>osNotices := osNotices st @ [\<lparr>srSeq = osNextNotice st, srVesselID = vesselID,
                    srItem = \<lparr>inReportID = reportID, inVersionNo = versionNo, inBrokenRules = brokenRules,
                              inComputedAt = pgTime pg computedAt\<rparr>\<rparr>], osNextNotice := osNextNotice st + 1\<rparr>)
      else Inl OErrStatement)"

definition getLatestInvalidationNotice ::
  "string \<Rightarrow> string \<Rightarrow> int \<Rightarrow> ostore \<Rightarrow> ostore_error + invalidationNotice" where
  "getLatestInvalidationNotice vesselID reportID versionNo st =
     (case rev (sort_key srSeq (filter (\<lambda>r. srVesselID r = vesselID \<and> inReportID (srItem r) = reportID \<and>
                                         inVersionNo (srItem r) = versionNo) (osNotices st))) of
        [] \<Rightarrow> Inl OErrNotFound
      | r # _ \<Rightarrow> Inr (srItem r))"

definition listInvalidationNoticesSince :: "string \<Rightarrow> int \<Rightarrow> ostore \<Rightarrow> invalidationNotice streamRow list" where
  "listInvalidationNoticesSince vesselID cursor st = since vesselID cursor (osNotices st)"

definition insert_remark :: "pg \<Rightarrow> string \<Rightarrow> string \<Rightarrow> remark \<Rightarrow> ostore \<Rightarrow> (ostore_error + unit) \<times> ostore" where
  "insert_remark pg vesselID setID r st =
     (if known_vessel st vesselID \<and> \<not> list_ex (\<lambda>x. rmID (rrRemark (srItem x)) = rmID r) (osRemarks st) \<and>
         pgInt4 (rmVersionNo r) \<and> list_all (pgText pg) [rmID r, setID, rmReportID r, rmFieldName r, rmBody r, rmAuthor r]
      then (Inr (), st\<lparr>osRemarks := osRemarks st @ [\<lparr>srSeq = osNextRemark st, srVesselID = vesselID,
                    srItem = \<lparr>rrRemark = r\<lparr>rmCreatedAt := pgTime pg (rmCreatedAt r)\<rparr>, rrSetID = setID,
                              rrResolvedAt = None\<rparr>\<rparr>], osNextRemark := osNextRemark st + 1\<rparr>)
      else (Inl OErrStatement, st))"

text \<open>The rows of a set are inserted one by one, without a transaction.\<close>

definition insertRemarkSet :: "pg \<Rightarrow> string \<Rightarrow> remark list \<Rightarrow> string \<Rightarrow> ostore \<Rightarrow> (ostore_error + unit) \<times> ostore" where
  "insertRemarkSet pg vesselID remarks setID st = for_each (insert_remark pg vesselID setID) remarks st"

definition olistRemarks :: "string \<Rightarrow> string \<Rightarrow> ostore \<Rightarrow> remark list" where
  "olistRemarks vesselID reportID st =
     sort_key (\<lambda>r. (rmCreatedAt r, rmID r))
       (map (\<lambda>x. rrRemark (srItem x)) (filter (\<lambda>x. srVesselID x = vesselID \<and> rmReportID (rrRemark (srItem x)) = reportID) (osRemarks st)))"

definition setRemarkResolved :: "pg \<Rightarrow> gotime \<Rightarrow> string \<Rightarrow> bool \<Rightarrow> ostore \<Rightarrow> ostore" where
  "setRemarkResolved pg now i resolved st =
     st\<lparr>osRemarks := map (\<lambda>x. if rmID (rrRemark (srItem x)) = i
          then x\<lparr>srItem := (srItem x)\<lparr>rrRemark := (rrRemark (srItem x))\<lparr>rmResolved := resolved\<rparr>,
                                        rrResolvedAt := (if resolved then Some (pgTime pg now) else None)\<rparr>\<rparr> else x) (osRemarks st)\<rparr>"

definition listRemarksSince :: "string \<Rightarrow> int \<Rightarrow> ostore \<Rightarrow> remarkRow streamRow list" where
  "listRemarksSince vesselID cursor st = since vesselID cursor (osRemarks st)"

section \<open>Commands\<close>

definition queueUserCommand :: "pg \<Rightarrow> string \<Rightarrow> officeUserCommand \<Rightarrow> ostore \<Rightarrow> ostore_error + ostore" where
  "queueUserCommand pg vesselID cmd st =
     (if known_vessel st vesselID \<and> \<not> list_ex (\<lambda>x. oucID (srItem x) = oucID cmd) (osCommands st) \<and>
         list_all (pgText pg) [oucID cmd, oucAction cmd, oucUsername cmd, oucRole cmd, oucTemporaryPassword cmd, oucIssuedBy cmd]
      then Inr (st\<lparr>osCommands := osCommands st @ [\<lparr>srSeq = osNextCommand st, srVesselID = vesselID,
                    srItem = cmd\<lparr>oucIssuedAt := pgTime pg (oucIssuedAt cmd), oucFetchedAt := None, oucAppliedAt := None\<rparr>\<rparr>],
                    osNextCommand := osNextCommand st + 1\<rparr>)
      else Inl OErrStatement)"

definition listUserCommandsSince :: "string \<Rightarrow> int \<Rightarrow> ostore \<Rightarrow> officeUserCommand streamRow list" where
  "listUserCommandsSince vesselID cursor st = since vesselID cursor (osCommands st)"

definition listUserCommandsForVessel :: "slice_sorter \<Rightarrow> string \<Rightarrow> ostore \<Rightarrow> officeUserCommand list" where
  "listUserCommandsForVessel p vesselID st =
     sort_slice p (\<lambda>c. - oucIssuedAt c)
       (map (\<lambda>x. (srItem x)\<lparr>oucTemporaryPassword := ''''\<rparr>) (filter (\<lambda>x. srVesselID x = vesselID) (osCommands st)))"

definition map_commands :: "(officeUserCommand streamRow \<Rightarrow> bool) \<Rightarrow> (officeUserCommand \<Rightarrow> officeUserCommand) \<Rightarrow> ostore \<Rightarrow> ostore" where
  "map_commands P f st = st\<lparr>osCommands := map (\<lambda>x. if P x then x\<lparr>srItem := f (srItem x)\<rparr> else x) (osCommands st)\<rparr>"

definition markUserCommandFetched :: "pg \<Rightarrow> string \<Rightarrow> gotime \<Rightarrow> ostore \<Rightarrow> ostore" where
  "markUserCommandFetched pg i now st =
     map_commands (\<lambda>x. oucID (srItem x) = i) (\<lambda>c. c\<lparr>oucFetchedAt := Some (pgTime pg now)\<rparr>) st"

definition markUserCommandsApplied :: "pg \<Rightarrow> string \<Rightarrow> string list \<Rightarrow> gotime \<Rightarrow> ostore \<Rightarrow> ostore" where
  "markUserCommandsApplied pg vesselID ids now st =
     (if ids = [] then st
      else map_commands (\<lambda>x. srVesselID x = vesselID \<and> oucID (srItem x) \<in> set ids)
             (\<lambda>c. c\<lparr>oucAppliedAt := Some (pgTime pg now), oucTemporaryPassword := ''''\<rparr>) st)"

text \<open>The roster is replaced in one transaction: a duplicate name or a refused value leaves it as it was.\<close>

definition replaceVesselUsers :: "pg \<Rightarrow> string \<Rightarrow> rosterRow list \<Rightarrow> gotime \<Rightarrow> ostore \<Rightarrow> ostore_error + ostore" where
  "replaceVesselUsers pg vesselID us reportedAt st =
     (let rows = map (\<lambda>u. u\<lparr>roVesselID := vesselID, roUpdatedAt := pgTime pg (roUpdatedAt u), roReportedAt := pgTime pg reportedAt\<rparr>) us in
      if (us = [] \<or> known_vessel st vesselID) \<and> distinct (map roUsername us) \<and>
         list_all (\<lambda>u. pgText pg (roUsername u) \<and> pgText pg (roRole u)) us
      then Inr (st\<lparr>osRoster := filter (\<lambda>r. roVesselID r \<noteq> vesselID) (osRoster st) @ rows\<rparr>)
      else Inl OErrStatement)"

definition listVesselUsers :: "string \<Rightarrow> ostore \<Rightarrow> rosterRow list" where
  "listVesselUsers vesselID st = sort_key roUsername (filter (\<lambda>r. roVesselID r = vesselID) (osRoster st))"

text \<open>Restore commands.\<close>

definition queueRestoreCommand :: "pg \<Rightarrow> string \<Rightarrow> restoreCommand \<Rightarrow> ostore \<Rightarrow> ostore_error + ostore" where
  "queueRestoreCommand pg vesselID cmd st =
     (if known_vessel st vesselID \<and> \<not> list_ex (\<lambda>x. rsoID (srItem x) = rsoID cmd) (osRestores st) \<and>
         list_all (pgText pg) [rsoID cmd, rsoReason cmd, rsoIssuedBy cmd]
      then Inr (st\<lparr>osRestores := osRestores st @ [\<lparr>srSeq = osNextRestore st, srVesselID = vesselID,
                    srItem = cmd\<lparr>rsoIssuedAt := pgTime pg (rsoIssuedAt cmd), rsoFetchedAt := None, rsoAppliedAt := None\<rparr>\<rparr>],
                    osNextRestore := osNextRestore st + 1\<rparr>)
      else Inl OErrStatement)"

definition listRestoreCommandsSince :: "string \<Rightarrow> int \<Rightarrow> ostore \<Rightarrow> restoreCommand streamRow list" where
  "listRestoreCommandsSince vesselID cursor st = since vesselID cursor (osRestores st)"

definition listRestoreCommandsForVessel :: "slice_sorter \<Rightarrow> string \<Rightarrow> ostore \<Rightarrow> restoreCommand list" where
  "listRestoreCommandsForVessel p vesselID st =
     sort_slice p (\<lambda>c. - rsoIssuedAt c) (map srItem (filter (\<lambda>x. srVesselID x = vesselID) (osRestores st)))"

definition getRestoreCommand :: "string \<Rightarrow> string \<Rightarrow> ostore \<Rightarrow> ostore_error + restoreCommand" where
  "getRestoreCommand i vesselID st =
     (case List.find (\<lambda>x. rsoID (srItem x) = i \<and> srVesselID x = vesselID) (osRestores st) of
        None \<Rightarrow> Inl OErrNotFound | Some x \<Rightarrow> Inr (srItem x))"

definition map_restores :: "(restoreCommand streamRow \<Rightarrow> bool) \<Rightarrow> (restoreCommand \<Rightarrow> restoreCommand) \<Rightarrow> ostore \<Rightarrow> ostore" where
  "map_restores P f st = st\<lparr>osRestores := map (\<lambda>x. if P x then x\<lparr>srItem := f (srItem x)\<rparr> else x) (osRestores st)\<rparr>"

definition markRestoreCommandFetched :: "pg \<Rightarrow> string \<Rightarrow> gotime \<Rightarrow> ostore \<Rightarrow> ostore" where
  "markRestoreCommandFetched pg i now st =
     map_restores (\<lambda>x. rsoID (srItem x) = i) (\<lambda>c. c\<lparr>rsoFetchedAt := Some (pgTime pg now)\<rparr>) st"

definition markRestoreCommandsApplied :: "pg \<Rightarrow> string \<Rightarrow> string list \<Rightarrow> gotime \<Rightarrow> ostore \<Rightarrow> ostore" where
  "markRestoreCommandsApplied pg vesselID ids now st =
     (if ids = [] then st
      else map_restores (\<lambda>x. srVesselID x = vesselID \<and> rsoID (srItem x) \<in> set ids)
             (\<lambda>c. c\<lparr>rsoAppliedAt := Some (pgTime pg now)\<rparr>) st)"

text \<open>Schema versions: one row per name and version, never changed.\<close>

definition createSchemaVersion :: "pg \<Rightarrow> schemaVersionRow \<Rightarrow> ostore \<Rightarrow> ostore_error + ostore" where
  "createSchemaVersion pg sv st =
     (if \<not> list_ex (\<lambda>x. svID (srItem x) = svID sv \<or>
            (svSchemaName (srItem x), svVersion (srItem x)) = (svSchemaName sv, svVersion sv)) (osSchemaVersions st) \<and>
         list_all (pgText pg) [svID sv, svSchemaName sv, svVersion sv, svSource sv, svPublishedBy sv]
      then Inr (st\<lparr>osSchemaVersions := osSchemaVersions st @ [\<lparr>srSeq = osNextSchemaVersion st, srVesselID = '''',
                    srItem = sv\<lparr>svPublishedAt := pgTime pg (svPublishedAt sv)\<rparr>\<rparr>],
                    osNextSchemaVersion := osNextSchemaVersion st + 1\<rparr>)
      else Inl OErrStatement)"

definition getSchemaVersion :: "string \<Rightarrow> string \<Rightarrow> ostore \<Rightarrow> ostore_error + schemaVersionRow" where
  "getSchemaVersion sname version st =
     (case List.find (\<lambda>x. svSchemaName (srItem x) = sname \<and> svVersion (srItem x) = version) (osSchemaVersions st) of
        None \<Rightarrow> Inl OErrNotFound | Some x \<Rightarrow> Inr (srItem x))"

definition listSchemaVersions :: "slice_sorter \<Rightarrow> string \<Rightarrow> ostore \<Rightarrow> schemaVersionRow list" where
  "listSchemaVersions p sname st =
     sort_slice p (\<lambda>v. - svPublishedAt v) (filter (\<lambda>v. svSchemaName v = sname) (map srItem (osSchemaVersions st)))"

definition latestSchemaVersion :: "slice_sorter \<Rightarrow> string \<Rightarrow> ostore \<Rightarrow> ostore_error + schemaVersionRow" where
  "latestSchemaVersion p sname st = (case listSchemaVersions p sname st of [] \<Rightarrow> Inl OErrNotFound | v # _ \<Rightarrow> Inr v)"

definition listSchemaNames :: "ostore \<Rightarrow> string list" where
  "listSchemaNames st = remdups (sort (map (\<lambda>x. svSchemaName (srItem x)) (osSchemaVersions st)))"

definition listSchemaVersionsSince :: "int \<Rightarrow> ostore \<Rightarrow> schemaVersionRow streamRow list" where
  "listSchemaVersionsSince cursor st = sort_key srSeq (filter (\<lambda>r. srSeq r > cursor) (osSchemaVersions st))"

section \<open>Check-ins and credentials\<close>

definition upsertVesselSyncStatus :: "pg \<Rightarrow> vesselSyncStatus \<Rightarrow> ostore \<Rightarrow> ostore_error + ostore" where
  "upsertVesselSyncStatus pg v st =
     (if known_vessel st (ssVesselID v) \<and> pgText pg (ssAppVersion v) \<and> pgText pg (ssAppliedBundleID v)
      then Inr (st\<lparr>osSyncStatus := upsert_by ssVesselID (v\<lparr>ssLastSeenAt := pgTime pg (ssLastSeenAt v)\<rparr>) (osSyncStatus st)\<rparr>)
      else Inl OErrStatement)"

definition getVesselSyncStatus :: "string \<Rightarrow> ostore \<Rightarrow> ostore_error + vesselSyncStatus" where
  "getVesselSyncStatus vesselID st =
     (case find_row ssVesselID (osSyncStatus st) vesselID of None \<Rightarrow> Inl OErrNotFound | Some v \<Rightarrow> Inr v)"

definition upsertVesselCredential :: "pg \<Rightarrow> credential \<Rightarrow> ostore \<Rightarrow> ostore_error + ostore" where
  "upsertVesselCredential pg c st =
     (if known_vessel st (cdVesselID c) \<and> pgText pg (cdTokenHash c) \<and>
         \<not> list_ex (\<lambda>x. cdVesselID x \<noteq> cdVesselID c \<and> cdTokenLookupHash x = cdTokenLookupHash c) (osCredentials st)
      then Inr (st\<lparr>osCredentials := upsert_by cdVesselID
             (c\<lparr>cdIssuedAt := pgTime pg (cdIssuedAt c), cdRevokedAt := map_option (pgTime pg) (cdRevokedAt c),
                cdLastUsedAt := map_option (pgTime pg) (cdLastUsedAt c)\<rparr>) (osCredentials st)\<rparr>)
      else Inl OErrStatement)"

definition getVesselCredentialByLookupHash :: "string \<Rightarrow> ostore \<Rightarrow> ostore_error + credential" where
  "getVesselCredentialByLookupHash h st =
     (case find_row cdTokenLookupHash (osCredentials st) h of None \<Rightarrow> Inl OErrNotFound | Some c \<Rightarrow> Inr c)"

definition revokeVesselCredential :: "pg \<Rightarrow> string \<Rightarrow> gotime \<Rightarrow> ostore \<Rightarrow> ostore" where
  "revokeVesselCredential pg vesselID now st =
     st\<lparr>osCredentials := map (\<lambda>c. if cdVesselID c = vesselID \<and> cdRevokedAt c = None
                                  then c\<lparr>cdRevokedAt := Some (pgTime pg now)\<rparr> else c) (osCredentials st)\<rparr>"

definition touchVesselCredentialLastUsed :: "pg \<Rightarrow> string \<Rightarrow> gotime \<Rightarrow> ostore \<Rightarrow> ostore" where
  "touchVesselCredentialLastUsed pg vesselID now st =
     st\<lparr>osCredentials := map (\<lambda>c. if cdVesselID c = vesselID then c\<lparr>cdLastUsedAt := Some (pgTime pg now)\<rparr> else c)
                            (osCredentials st)\<rparr>"

section \<open>Enrollments, vessels and reviews\<close>

definition upsertEnrollment :: "pg \<Rightarrow> enrollment \<Rightarrow> ostore \<Rightarrow> ostore_error + ostore" where
  "upsertEnrollment pg e st =
     (if known_vessel st (enVesselID e) \<and> list_all (pgText pg) [enInitialMasterUsername e, enDRPublicKey e]
      then Inr (st\<lparr>osEnrollments := upsert_by enVesselID
             (e\<lparr>enIssuedAt := pgTime pg (enIssuedAt e), enRevokedAt := map_option (pgTime pg) (enRevokedAt e),
                enUpdatedAt := pgTime pg (enUpdatedAt e)\<rparr>) (osEnrollments st)\<rparr>)
      else Inl OErrStatement)"

definition getEnrollment :: "string \<Rightarrow> ostore \<Rightarrow> ostore_error + enrollment" where
  "getEnrollment vesselID st =
     (case find_row enVesselID (osEnrollments st) vesselID of None \<Rightarrow> Inl OErrNotFound | Some e \<Rightarrow> Inr e)"

text \<open>A query without \<open>ORDER BY\<close> answers its rows in an order \<open>ord\<close> of the database's choice.\<close>

definition listIssuedEnrollments :: "(enrollment list \<Rightarrow> enrollment list) \<Rightarrow> ostore \<Rightarrow> enrollment list" where
  "listIssuedEnrollments ord st = ord (filter (\<lambda>e. enState e = EnrollIssued) (osEnrollments st))"

definition stored_vessel :: "pg \<Rightarrow> vesselRow \<Rightarrow> vesselRow" where
  "stored_vessel pg v = v\<lparr>vrCreatedAt := pgTime pg (vrCreatedAt v), vrUpdatedAt := pgTime pg (vrUpdatedAt v)\<rparr>"

definition createVessel :: "pg \<Rightarrow> vesselRow \<Rightarrow> ostore \<Rightarrow> ostore_error + ostore" where
  "createVessel pg v st =
     (if list_all (pgText pg) (vrIMO v # vrName v # vrType v # vrGroups v) \<and>
         \<not> list_ex (\<lambda>x. vrID x = vrID v \<or> vrIMO x = vrIMO v) (osVessels st)
      then Inr (st\<lparr>osVessels := osVessels st @ [stored_vessel pg v]\<rparr>)
      else Inl OErrStatement)"

text \<open>The IMO number and the creation time are not written.\<close>

definition updateVessel :: "pg \<Rightarrow> vesselRow \<Rightarrow> ostore \<Rightarrow> ostore_error + ostore" where
  "updateVessel pg v st =
     (if \<not> list_all (pgText pg) (vrName v # vrType v # vrGroups v) then Inl OErrStatement
      else if \<not> known_vessel st (vrID v) then Inl OErrNotFound
      else Inr (st\<lparr>osVessels := map (\<lambda>x. if vrID x = vrID v
             then x\<lparr>vrName := vrName v, vrType := vrType v, vrGroups := vrGroups v, vrUpdatedAt := pgTime pg (vrUpdatedAt v)\<rparr>
             else x) (osVessels st)\<rparr>))"

definition getVesselByIMO :: "string \<Rightarrow> ostore \<Rightarrow> ostore_error + vesselRow" where
  "getVesselByIMO imo st = (case find_row vrIMO (osVessels st) imo of None \<Rightarrow> Inl OErrNotFound | Some v \<Rightarrow> Inr v)"

text \<open>Vessels of the same name come in an order of the database's choice.\<close>

definition listVessels :: "(vesselRow list \<Rightarrow> vesselRow list) \<Rightarrow> ostore \<Rightarrow> vesselRow list" where
  "listVessels ord st = sort_key vrName (ord (osVessels st))"

definition listVesselsByGroup ::
  "(vesselRow list \<Rightarrow> vesselRow list) \<Rightarrow> pg \<Rightarrow> string \<Rightarrow> ostore \<Rightarrow> ostore_error + vesselRow list" where
  "listVesselsByGroup ord pg g st =
     (if \<not> pgText pg g then Inl OErrStatement
      else Inr (sort_key vrName (ord (filter (\<lambda>v. g \<in> set (vrGroups v)) (osVessels st)))))"

definition rv_key :: "reviewRow \<Rightarrow> string \<times> string" where
  "rv_key r = (rvVesselID r, rvReportID r)"

definition markReviewed :: "pg \<Rightarrow> gotime \<Rightarrow> string \<Rightarrow> string \<Rightarrow> string \<Rightarrow> ostore \<Rightarrow> ostore_error + ostore" where
  "markReviewed pg now vesselID reportID reviewedBy st =
     (if known_vessel st vesselID \<and> pgText pg reportID \<and> pgText pg reviewedBy
      then Inr (st\<lparr>osReviews := upsert_by rv_key
             \<lparr>rvVesselID = vesselID, rvReportID = reportID, rvReviewedBy = reviewedBy, rvReviewedAt = pgTime pg now\<rparr>
             (osReviews st)\<rparr>)
      else Inl OErrStatement)"

section \<open>The report list\<close>

record reportFilter =
  rfVesselID :: "string option"
  rfGroupID :: "string option"
  rfState :: "string option"
  rfEventType :: "string option"
  rfSchemaName :: "string option"
  rfDateFrom :: "gotime option"
  rfDateTo :: "gotime option"
  rfHasRemarks :: "bool option"
  rfInvalidatedOnly :: "bool option"
  rfReviewed :: "bool option"
  rfLimit :: "int option"
  rfOffset :: "int option"

definition no_filter :: reportFilter where
  "no_filter = \<lparr>rfVesselID = None, rfGroupID = None, rfState = None, rfEventType = None, rfSchemaName = None,
     rfDateFrom = None, rfDateTo = None, rfHasRemarks = None, rfInvalidatedOnly = None, rfReviewed = None,
     rfLimit = None, rfOffset = None\<rparr>"

record reportListRow =
  rlVesselID :: string
  rlVesselName :: string
  rlVesselIMO :: string
  rlReport :: report
  rlReviewed :: bool
  rlHasRemarks :: bool

definition latest_landed :: "landedVersion list \<Rightarrow> landedVersion list" where
  "latest_landed rows = filter (\<lambda>l. list_all (\<lambda>x. lvVesselID x = lvVesselID l \<and>
     ReportID (lvReport x) = ReportID (lvReport l) \<longrightarrow> VersionNo (lvReport x) \<le> VersionNo (lvReport l)) rows) rows"

definition list_row :: "ostore \<Rightarrow> landedVersion \<Rightarrow> (vesselRow \<times> reportListRow) option" where
  "list_row st l =
     map_option (\<lambda>v. (v,
       \<lparr>rlVesselID = lvVesselID l, rlVesselName = vrName v, rlVesselIMO = vrIMO v, rlReport = lvReport l,
        rlReviewed = list_ex (\<lambda>r. rv_key r = (lvVesselID l, ReportID (lvReport l))) (osReviews st),
        rlHasRemarks = list_ex (\<lambda>x. srVesselID x = lvVesselID l \<and>
          rmReportID (rrRemark (srItem x)) = ReportID (lvReport l)) (osRemarks st)\<rparr>))
       (find_row vrID (osVessels st) (lvVesselID l))"

text \<open>A filter that is not set holds.\<close>

definition if_set :: "'a option \<Rightarrow> ('a \<Rightarrow> bool) \<Rightarrow> bool" where
  "if_set x P \<longleftrightarrow> (case x of None \<Rightarrow> True | Some a \<Rightarrow> P a)"

definition passes :: "pg \<Rightarrow> reportFilter \<Rightarrow> vesselRow \<Rightarrow> reportListRow \<Rightarrow> bool" where
  "passes pg f v row \<longleftrightarrow> (let r = rlReport row in
     if_set (rfVesselID f) (\<lambda>i. rlVesselID row = i) \<and> if_set (rfGroupID f) (\<lambda>g. g \<in> set (vrGroups v)) \<and>
     if_set (rfState f) (\<lambda>s. state_text (State r) = s) \<and> if_set (rfEventType f) (\<lambda>t. EventType r = t) \<and>
     if_set (rfSchemaName f) (\<lambda>n. SchemaName r = n) \<and>
     if_set (rfDateFrom f) (\<lambda>t. EventTime r \<ge> pgTime pg t) \<and> if_set (rfDateTo f) (\<lambda>t. EventTime r \<le> pgTime pg t) \<and>
     if_set (rfInvalidatedOnly f) (\<lambda>b. b \<longrightarrow> State r = StateInvalidated) \<and>
     if_set (rfHasRemarks f) (\<lambda>b. b \<longrightarrow> rlHasRemarks row) \<and> if_set (rfReviewed f) (\<lambda>b. rlReviewed row = b))"

definition listReports ::
  "(landedVersion list \<Rightarrow> landedVersion list) \<Rightarrow> pg \<Rightarrow> reportFilter \<Rightarrow> ostore \<Rightarrow> ostore_error + reportListRow list" where
  "listReports ord pg f st =
     (if \<not> (if_set (rfGroupID f) (pgText pg) \<and> if_set (rfState f) (pgText pg) \<and> if_set (rfEventType f) (pgText pg) \<and>
            if_set (rfSchemaName f) (pgText pg) \<and> if_set (rfLimit f) (\<lambda>n. 0 \<le> n) \<and> if_set (rfOffset f) (\<lambda>n. 0 \<le> n))
      then Inl OErrStatement
      else
        (let rows = List.map_filter (\<lambda>l. Option.bind (list_row st l) (\<lambda>(v, row). if passes pg f v row then Some row else None))
               (ord (latest_landed (osVersions st)));
             rows = rev (sort_key (\<lambda>row. (EventTime (rlReport row), ReportID (rlReport row))) rows);
             rows = (case rfOffset f of None \<Rightarrow> rows | Some n \<Rightarrow> drop (nat n) rows)
         in Inr (case rfLimit f of None \<Rightarrow> rows | Some n \<Rightarrow> take (nat n) rows)))"

section \<open>Aggregates over the fleet\<close>

definition lastReportEventTimeByVessel :: "ostore \<Rightarrow> (string, gotime) gomap" where
  "lastReportEventTimeByVessel st =
     fold (\<lambda>l m. gm_update (lvVesselID l)
       (case gm_lookup m (lvVesselID l) of
          None \<Rightarrow> EventTime (lvReport l) | Some t \<Rightarrow> max t (EventTime (lvReport l))) m) (osVersions st) []"

record logAbstractFieldsRow =
  laFields :: fields
  laEventTime :: gotime

text \<open>Of several reports of one vessel at its latest event time, \<open>ord\<close> decides which is taken.\<close>

definition latestLogAbstractFieldsByVessel ::
  "(landedVersion list \<Rightarrow> landedVersion list) \<Rightarrow> ostore \<Rightarrow> (string, logAbstractFieldsRow) gomap" where
  "latestLogAbstractFieldsByVessel ord st =
     (let rows = latest_landed (filter (\<lambda>l. SchemaName (lvReport l) = ''log-abstract'') (osVersions st))
      in fold (\<lambda>l. gm_update (lvVesselID l) \<lparr>laFields = Fields (lvReport l), laEventTime = EventTime (lvReport l)\<rparr>)
           (sort_key (\<lambda>l. EventTime (lvReport l)) (ord rows)) [])"

end
