(* ===== verification/OfficeConfig.thy ===== *)
theory OfficeConfig
  imports OfficeStore
begin

text \<open>
  The configuration tables of \<open>office/store\<close>: rule severities (\<open>rulesev.go\<close>), cadence rules (\<open>cadence.go\<close>), regulatory
  profiles (\<open>regulatoryprofiles.go\<close>), field policies (\<open>fieldpolicies.go\<close>), bundles and their assignments
  (\<open>configbundle.go\<close>).  Each has one row per scope, by a partial unique index per scope type, and a save is an upsert.

  The queries that list a table have no \<open>ORDER BY\<close>: \<open>ord\<close> is the order in which Postgres returns the rows.

  Lemmas: every sequence of saves leaves one row per scope, so what the resolvers compute from a listing does not depend
  on that order.
\<close>

section \<open>Scope columns\<close>

definition scopeColumns :: "scope \<Rightarrow> string option \<times> string option" where
  "scopeColumns s =
     (case scType s of ScopeVessel \<Rightarrow> (Some (scKey s), None) | ScopeGroup \<Rightarrow> (None, Some (scKey s)) | _ \<Rightarrow> (None, None))"

text \<open>A NULL column scans as the empty string.\<close>

definition scopeFromColumns :: "scopeType \<Rightarrow> string option \<Rightarrow> string option \<Rightarrow> compliance_error + scope" where
  "scopeFromColumns t vesselID groupTag =
     (case t of
        ScopeFleet \<Rightarrow> Inr fleetScope
      | ScopeVessel \<Rightarrow> vesselScope (case vesselID of None \<Rightarrow> '''' | Some s \<Rightarrow> s)
      | ScopeGroup \<Rightarrow> groupScope (case groupTag of None \<Rightarrow> '''' | Some s \<Rightarrow> s)
      | ScopeTypeOther _ \<Rightarrow> Inl (ErrUnknownScopeType t))"

definition read_scope :: "scope \<Rightarrow> compliance_error + scope" where
  "read_scope s = (case scopeColumns s of (v, g) \<Rightarrow> scopeFromColumns (scType s) v g)"

text \<open>The scan loop: the first row whose scope cannot be read ends the listing with an error.\<close>

fun list_scoped :: "('a \<Rightarrow> scope) \<Rightarrow> (scope \<Rightarrow> 'a \<Rightarrow> 'a) \<Rightarrow> 'a list \<Rightarrow> compliance_error + 'a list" where
  "list_scoped sc set_sc [] = Inr []"
| "list_scoped sc set_sc (a # as) =
     (case read_scope (sc a) of
        Inl e \<Rightarrow> Inl e
      | Inr s \<Rightarrow> (case list_scoped sc set_sc as of Inl e \<Rightarrow> Inl e | Inr out \<Rightarrow> Inr (set_sc s a # out)))"

text \<open>What a row must satisfy for Postgres: a known vessel, a text it accepts.\<close>

definition scope_accepted :: "pg \<Rightarrow> ostore \<Rightarrow> scope \<Rightarrow> bool" where
  "scope_accepted pg st s \<longleftrightarrow>
     (case scType s of ScopeVessel \<Rightarrow> known_vessel st (scKey s) | ScopeGroup \<Rightarrow> pgText pg (scKey s) | _ \<Rightarrow> True)"

datatype config_error = ErrConfigScope compliance_error | ErrConfigMarshal | ErrConfigStatement | ErrConfigNotFound

definition save_scoped ::
  "pg \<Rightarrow> ostore \<Rightarrow> ('a \<Rightarrow> scope) \<Rightarrow> ('a \<Rightarrow> 'k) \<Rightarrow> bool \<Rightarrow> 'a \<Rightarrow> 'a list \<Rightarrow> config_error + 'a list" where
  "save_scoped pg st sc key accepted a rows =
     (case validateScope (sc a) of
        Some e \<Rightarrow> Inl (ErrConfigScope e)
      | None \<Rightarrow> if scope_accepted pg st (sc a) \<and> accepted then Inr (upsert_by key a rows) else Inl ErrConfigStatement)"

section \<open>Saves and listings\<close>

definition saveRuleSeverityAssignment :: "pg \<Rightarrow> ruleSeverityAssignment \<Rightarrow> ostore \<Rightarrow> config_error + ostore" where
  "saveRuleSeverityAssignment pg a st =
     map_sum id (\<lambda>rows. st\<lparr>osSeverities := rows\<rparr>)
       (save_scoped pg st rsScope rsScope True (a\<lparr>rsUpdatedAt := pgTime pg (rsUpdatedAt a)\<rparr>) (osSeverities st))"

definition listRuleSeverityAssignments ::
  "(ruleSeverityAssignment list \<Rightarrow> ruleSeverityAssignment list) \<Rightarrow> ostore \<Rightarrow> compliance_error + ruleSeverityAssignment list" where
  "listRuleSeverityAssignments ord st = list_scoped rsScope (\<lambda>s. rsScope_update (\<lambda>_. s)) (ord (osSeverities st))"

definition saveCadenceRule :: "pg \<Rightarrow> cadenceRule \<Rightarrow> ostore \<Rightarrow> config_error + ostore" where
  "saveCadenceRule pg r st =
     map_sum id (\<lambda>rows. st\<lparr>osCadence := rows\<rparr>)
       (save_scoped pg st crScope crScope True (r\<lparr>crUpdatedAt := pgTime pg (crUpdatedAt r)\<rparr>) (osCadence st))"

definition listCadenceRules :: "(cadenceRule list \<Rightarrow> cadenceRule list) \<Rightarrow> ostore \<Rightarrow> compliance_error + cadenceRule list" where
  "listCadenceRules ord st = list_scoped crScope (\<lambda>s. crScope_update (\<lambda>_. s)) (ord (osCadence st))"

definition saveProfileAssignment :: "pg \<Rightarrow> profileAssignment \<Rightarrow> ostore \<Rightarrow> config_error + ostore" where
  "saveProfileAssignment pg a st =
     map_sum id (\<lambda>rows. st\<lparr>osProfiles := rows\<rparr>)
       (save_scoped pg st paScope paScope True (a\<lparr>paUpdatedAt := pgTime pg (paUpdatedAt a)\<rparr>) (osProfiles st))"

definition listProfileAssignments ::
  "(profileAssignment list \<Rightarrow> profileAssignment list) \<Rightarrow> ostore \<Rightarrow> compliance_error + profileAssignment list" where
  "listProfileAssignments ord st = list_scoped paScope (\<lambda>s. paScope_update (\<lambda>_. s)) (ord (osProfiles st))"

definition fp_key :: "schemaFieldPolicy \<Rightarrow> scope \<times> string \<times> string" where
  "fp_key p = (fpScope p, fpSchemaName p, fpSchemaVersion p)"

definition saveFieldPolicy :: "pg \<Rightarrow> schemaFieldPolicy \<Rightarrow> ostore \<Rightarrow> config_error + ostore" where
  "saveFieldPolicy pg p st =
     map_sum id (\<lambda>rows. st\<lparr>osPolicies := rows\<rparr>)
       (save_scoped pg st fpScope fp_key
         (list_all (pgText pg) (fpSchemaName p # fpSchemaVersion p # map fst (fpPolicy p) @ map fst (fpPrefill p) @
            map fst (fpEvents p) @ concat (map snd (fpEvents p))))
         (p\<lparr>fpUpdatedAt := pgTime pg (fpUpdatedAt p)\<rparr>) (osPolicies st))"

definition loadFieldPolicy :: "scope \<Rightarrow> string \<Rightarrow> string \<Rightarrow> ostore \<Rightarrow> schemaFieldPolicy" where
  "loadFieldPolicy s sname version st =
     (case find_row fp_key (osPolicies st) (s, sname, version) of None \<Rightarrow> newUnchecked s sname version | Some p \<Rightarrow> p)"

definition listFieldPolicyAssignments ::
  "(schemaFieldPolicy list \<Rightarrow> schemaFieldPolicy list) \<Rightarrow> string \<Rightarrow> string \<Rightarrow> ostore
   \<Rightarrow> compliance_error + schemaFieldPolicy list" where
  "listFieldPolicyAssignments ord sname version st =
     list_scoped fpScope (\<lambda>s. fpScope_update (\<lambda>_. s))
       (ord (filter (\<lambda>p. fpSchemaName p = sname \<and> fpSchemaVersion p = version) (osPolicies st)))"

text \<open>A bundle is stored as JSON, which has no NaN and no infinities.\<close>

definition createConfigBundle :: "pg \<Rightarrow> configBundle \<Rightarrow> ostore \<Rightarrow> config_error + ostore" where
  "createConfigBundle pg b st =
     (if list_ex (\<lambda>r. \<not> is_finite (crMinReportIntervalHours r) \<or> \<not> is_finite (crMaxGapHours r)) (cbCadenceRules b)
      then Inl ErrConfigMarshal
      else if list_ex (\<lambda>x. cbID (snd x) = cbID b) (osBundles st) \<or> \<not> pgText pg (cbLabel b) \<or> \<not> pgText pg (cbPublishedBy b)
      then Inl ErrConfigStatement
      else Inr (st\<lparr>osBundles := osBundles st @ [(osNextBundle st, b\<lparr>cbPublishedAt := pgTime pg (cbPublishedAt b)\<rparr>)],
                   osNextBundle := osNextBundle st + 1\<rparr>))"

definition getConfigBundleCursor :: "string \<Rightarrow> ostore \<Rightarrow> config_error + int" where
  "getConfigBundleCursor i st =
     (case List.find (\<lambda>b. cbID (snd b) = i) (osBundles st) of None \<Rightarrow> Inl ErrConfigNotFound | Some b \<Rightarrow> Inr (fst b))"

definition getConfigBundle :: "string \<Rightarrow> ostore \<Rightarrow> config_error + configBundle" where
  "getConfigBundle i st =
     (case List.find (\<lambda>b. cbID (snd b) = i) (osBundles st) of None \<Rightarrow> Inl ErrConfigNotFound | Some b \<Rightarrow> Inr (snd b))"

definition listConfigBundles :: "slice_sorter \<Rightarrow> ostore \<Rightarrow> configBundle list" where
  "listConfigBundles p st = sort_slice p (\<lambda>b. - cbPublishedAt b) (map snd (osBundles st))"

text \<open>The referenced bundle must exist.\<close>

definition saveBundleAssignment :: "pg \<Rightarrow> bundleAssignment \<Rightarrow> ostore \<Rightarrow> config_error + ostore" where
  "saveBundleAssignment pg a st =
     map_sum id (\<lambda>rows. st\<lparr>osAssignments := rows\<rparr>)
       (save_scoped pg st baScope baScope (list_ex (\<lambda>b. cbID (snd b) = baBundleID a) (osBundles st))
         (a\<lparr>baAssignedAt := pgTime pg (baAssignedAt a)\<rparr>) (osAssignments st))"

definition listBundleAssignments ::
  "(bundleAssignment list \<Rightarrow> bundleAssignment list) \<Rightarrow> ostore \<Rightarrow> compliance_error + bundleAssignment list" where
  "listBundleAssignments ord st = list_scoped baScope (\<lambda>s. baScope_update (\<lambda>_. s)) (ord (osAssignments st))"

section \<open>One row per scope\<close>

lemma find_row_upsert_by:
  "find_row key (upsert_by key v rows) k = (if k = key v then Some v else find_row key rows k)"
proof (cases "list_ex (\<lambda>x. key x = key v) rows")
  case True
  have "find_row key (map (\<lambda>x. if key x = key v then v else x) rows) k =
      (if k = key v then map_option (\<lambda>_. v) (find_row key rows k) else find_row key rows k)"
    by (induction rows) (auto simp: find_row_def)
  moreover have "find_row key rows (key v) \<noteq> None"
  proof -
    from True obtain x where "x \<in> set rows" and "key x = key v" by (auto simp: list_ex_iff)
    then have "key v \<in> key ` set rows" by (metis rev_image_eqI)
    then show ?thesis by (simp only: find_row_None_iff not_not)
  qed
  ultimately show ?thesis using True by (auto simp: upsert_by_def)
next
  case False
  then have "find_row key rows (key v) = None" by (auto simp: find_row_None_iff list_ex_iff)
  with False show ?thesis by (auto simp: upsert_by_def find_row_append split: option.split)
qed

lemma distinct_upsert_by: "distinct (map key rows) \<Longrightarrow> distinct (map key (upsert_by key v rows))"
proof -
  have "map key (map (\<lambda>x. if key x = key v then v else x) rows) = map key rows" by auto
  then show "distinct (map key rows) \<Longrightarrow> distinct (map key (upsert_by key v rows))"
    by (auto simp: upsert_by_def list_ex_iff simp del: map_map)
qed

lemma set_upsert_by: "set (upsert_by key v rows) \<subseteq> insert v (set rows)"
  by (auto simp: upsert_by_def)

interpretation landing: upsert_table lv_key "\<lambda>st. find_row lv_key (osVersions st)" "\<lambda>l st. Inr (put_row l st)" "\<lambda>_ l. l"
  by unfold_locales (auto simp: put_row_def find_row_upsert_by split: option.split)

interpretation receipts: insert_table rc_key "\<lambda>st. find_row rc_key (osReceipts st)" put_receipt
  by unfold_locales (simp_all add: put_receipt_def find_row_insert_absent insert_absent_present)

text \<open>Scopes as the constructors make them read back unchanged.\<close>

definition scope_ok :: "scope \<Rightarrow> bool" where
  "scope_ok s \<longleftrightarrow> validateScope s = None \<and> trim_space (scKey s) = scKey s"

lemma read_scope_ok: "scope_ok s \<Longrightarrow> read_scope s = Inr s"
  by (cases s; cases "scType s")
    (auto simp: scope_ok_def validateScope_def read_scope_def scopeColumns_def scopeFromColumns_def fleetScope_def
      vesselScope_def groupScope_def Let_def split: if_splits)

lemma list_scoped_ok:
  assumes "\<And>a. a \<in> set as \<Longrightarrow> scope_ok (sc a)" and "\<And>a. set_sc (sc a) a = a"
  shows "list_scoped sc set_sc as = Inr as"
  using assms(1) by (induction as) (simp_all add: read_scope_ok assms(2))

text \<open>The tables of a running office: one row per key, and what the constructors and setters guarantee of each row.\<close>

definition config_wf :: "ostore \<Rightarrow> bool" where
  "config_wf st \<longleftrightarrow>
     distinct (map rsScope (osSeverities st)) \<and> (\<forall>a \<in> set (osSeverities st). scope_ok (rsScope a) \<and> severities_ok a) \<and>
     distinct (map crScope (osCadence st)) \<and> (\<forall>r \<in> set (osCadence st). scope_ok (crScope r) \<and> f64_gt (crMaxGapHours r) (F64 0)) \<and>
     distinct (map paScope (osProfiles st)) \<and> (\<forall>a \<in> set (osProfiles st). scope_ok (paScope a)) \<and>
     distinct (map fp_key (osPolicies st)) \<and> (\<forall>p \<in> set (osPolicies st). scope_ok (fpScope p) \<and> policy_ok p) \<and>
     distinct (map baScope (osAssignments st)) \<and> (\<forall>a \<in> set (osAssignments st). scope_ok (baScope a))"

text \<open>What the handlers of the configuration screens do to the tables, with values the constructors and setters built.\<close>

inductive config_step :: "pg \<Rightarrow> ostore \<Rightarrow> ostore \<Rightarrow> bool" for pg where
  severities: "saveRuleSeverityAssignment pg a st = Inr st' \<Longrightarrow> scope_ok (rsScope a) \<Longrightarrow> severities_ok a \<Longrightarrow> config_step pg st st'"
| cadence: "saveCadenceRule pg r st = Inr st' \<Longrightarrow> scope_ok (crScope r) \<Longrightarrow> f64_gt (crMaxGapHours r) (F64 0) \<Longrightarrow>
    config_step pg st st'"
| profiles: "saveProfileAssignment pg p st = Inr st' \<Longrightarrow> scope_ok (paScope p) \<Longrightarrow> config_step pg st st'"
| policy: "saveFieldPolicy pg f st = Inr st' \<Longrightarrow> scope_ok (fpScope f) \<Longrightarrow> policy_ok f \<Longrightarrow> config_step pg st st'"
| publication: "createConfigBundle pg b st = Inr st' \<Longrightarrow> config_step pg st st'"
| assignment: "saveBundleAssignment pg ba st = Inr st' \<Longrightarrow> scope_ok (baScope ba) \<Longrightarrow> config_step pg st st'"

inductive_cases config_stepE: "config_step pg st st'"

lemma save_scoped_Inr:
  "save_scoped pg st sc key ok a rows = Inr rows' \<Longrightarrow> rows' = upsert_by key a rows"
  by (auto simp: save_scoped_def split: option.splits if_splits)

lemma map_sum_Inr: "map_sum f g x = Inr y \<longleftrightarrow> (\<exists>z. x = Inr z \<and> y = g z)"
  by (cases x) auto

lemma upsert_by_rows:
  "distinct (map key rows) \<Longrightarrow> (\<And>x. x \<in> set rows \<Longrightarrow> P x) \<Longrightarrow> P v \<Longrightarrow>
   distinct (map key (upsert_by key v rows)) \<and> (\<forall>x \<in> set (upsert_by key v rows). P x)"
  using set_upsert_by[of key v rows] distinct_upsert_by[of key rows v] by blast

lemma severities_ok_time [simp]: "severities_ok (a\<lparr>rsUpdatedAt := t\<rparr>) = severities_ok a"
  by (simp add: severities_ok_def)

lemma policy_ok_time [simp]: "policy_ok (p\<lparr>fpUpdatedAt := t\<rparr>) = policy_ok p"
  by (simp add: policy_ok_def)

lemma config_step_wf: "config_step pg st st' \<Longrightarrow> config_wf st \<Longrightarrow> config_wf st'"
proof (induction rule: config_step.induct)
  case (severities a st st')
  then show ?case
    using upsert_by_rows[of rsScope "osSeverities st" "\<lambda>a. scope_ok (rsScope a) \<and> severities_ok a" "a\<lparr>rsUpdatedAt := pgTime pg (rsUpdatedAt a)\<rparr>"]
    by (auto simp: saveRuleSeverityAssignment_def map_sum_Inr config_wf_def dest!: save_scoped_Inr)
next
  case (cadence r st st')
  then show ?case
    using upsert_by_rows[of crScope "osCadence st" "\<lambda>r. scope_ok (crScope r) \<and> f64_gt (crMaxGapHours r) (F64 0)" "r\<lparr>crUpdatedAt := pgTime pg (crUpdatedAt r)\<rparr>"]
    by (auto simp: saveCadenceRule_def map_sum_Inr config_wf_def dest!: save_scoped_Inr)
next
  case (profiles a st st')
  then show ?case
    using upsert_by_rows[of paScope "osProfiles st" "\<lambda>a. scope_ok (paScope a)" "a\<lparr>paUpdatedAt := pgTime pg (paUpdatedAt a)\<rparr>"]
    by (auto simp: saveProfileAssignment_def map_sum_Inr config_wf_def dest!: save_scoped_Inr)
next
  case (policy p st st')
  then show ?case
    using upsert_by_rows[of fp_key "osPolicies st" "\<lambda>p. scope_ok (fpScope p) \<and> policy_ok p" "p\<lparr>fpUpdatedAt := pgTime pg (fpUpdatedAt p)\<rparr>"]
    by (auto simp: saveFieldPolicy_def map_sum_Inr config_wf_def dest!: save_scoped_Inr)
next
  case (publication b st st')
  then show ?case by (auto simp: createConfigBundle_def config_wf_def split: if_splits)
next
  case (assignment a st st')
  then show ?case
    using upsert_by_rows[of baScope "osAssignments st" "\<lambda>a. scope_ok (baScope a)" "a\<lparr>baAssignedAt := pgTime pg (baAssignedAt a)\<rparr>"]
    by (auto simp: saveBundleAssignment_def map_sum_Inr config_wf_def dest!: save_scoped_Inr)
qed

lemma config_steps_wf: "(config_step pg)\<^sup>*\<^sup>* st st' \<Longrightarrow> config_wf st \<Longrightarrow> config_wf st'"
  by (induction rule: rtranclp_induct) (blast intro: config_step_wf)+

text \<open>What the office resolves from its tables does not depend on the order of the rows.\<close>

lemma list_severities_ok:
  assumes "config_wf st" and "\<And>xs. mset (ord xs) = mset xs"
  shows "listRuleSeverityAssignments ord st = Inr (ord (osSeverities st))"
  unfolding listRuleSeverityAssignments_def
  by (rule list_scoped_ok) (use assms(1) mset_eq_setD[OF assms(2)] in \<open>auto simp: config_wf_def\<close>)

lemma config_scopes_ok: "config_wf st \<Longrightarrow> scopes_ok rsScope (osSeverities st)"
  by (auto simp: config_wf_def scopes_ok_def scope_ok_def)

lemma severities_order_irrelevant:
  assumes "config_wf st" and "mset as = mset (osSeverities st)"
  shows "effectiveSeverities as v gs = effectiveSeverities (osSeverities st) v gs"
  by (rule effectiveSeverities_perm) (use assms config_scopes_ok in \<open>auto simp: config_wf_def\<close>)
end
