(* ===== verification/SyncProto.thy ===== *)
theory SyncProto
  imports Users "HOL-Library.Word"
begin

text \<open>
  \<open>pkg/syncproto/convert.go\<close>: the conversions between the domain types and the messages of the sync protocol.  The
  enumerations of \<open>sync.proto\<close> are open, so a received value is an integer; version numbers are 32 bits wide on the
  wire.  The protobuf library is a parameter: \<open>pblib\<close> gathers what the code uses of it, \<open>pb_ok\<close> is its documented
  behaviour, that values converted to the wire types read back unchanged.

  Lemmas: the lookup tables are inverse to each other, every conversion reads back what was sent up to the fields the
  messages do not carry, and 32 bits are exact for version numbers below \<open>2 ^ 31\<close>.
\<close>

section \<open>Lookup tables\<close>

definition schemaKindByName :: "(string \<times> int) list" where
  "schemaKindByName = [(''log-abstract'', 1), (''bunker-report'', 2), (''edn-report'', 3),
     (''commercial-period'', 4), (''cargo-nomination'', 5)]"

definition inverse_table :: "('a \<times> 'b) list \<Rightarrow> ('b \<times> 'a) list" where
  "inverse_table xs = map (\<lambda>(a, b). (b, a)) xs"

definition schemaNameByKind :: "(int \<times> string) list" where
  "schemaNameByKind = inverse_table schemaKindByName"

datatype proto_error =
    ErrUnknownSchemaName string
  | ErrUnknownSchemaKind int
  | ErrUnknownState state
  | ErrUnknownLifecycleState int
  | ErrUnknownEventType event_type
  | ErrUnknownAuditEventType int
  | ErrUnknownActionString string
  | ErrUnknownActionProto userCommandAction
  | ErrConvertFields string int
  | ErrConvertDetail string int

definition schemaKindFromName :: "string \<Rightarrow> proto_error + int" where
  "schemaKindFromName name =
     (case map_of schemaKindByName name of None \<Rightarrow> Inl (ErrUnknownSchemaName name) | Some k \<Rightarrow> Inr k)"

definition schemaNameFromKind :: "int \<Rightarrow> proto_error + string" where
  "schemaNameFromKind k =
     (case map_of schemaNameByKind k of None \<Rightarrow> Inl (ErrUnknownSchemaKind k) | Some name \<Rightarrow> Inr name)"

definition userCommandActionByString :: "(string \<times> userCommandAction) list" where
  "userCommandActionByString = [(''create'', UserCommandActionCreate), (''resetPassword'', UserCommandActionResetPassword),
     (''setRole'', UserCommandActionSetRole), (''setActive'', UserCommandActionSetActive),
     (''setCanSubmit'', UserCommandActionSetCanSubmit)]"

definition userCommandActionByProto :: "(userCommandAction \<times> string) list" where
  "userCommandActionByProto = inverse_table userCommandActionByString"

definition userCommandActionFromString :: "string \<Rightarrow> proto_error + userCommandAction" where
  "userCommandActionFromString a =
     (case map_of userCommandActionByString a of None \<Rightarrow> Inl (ErrUnknownActionString a) | Some p \<Rightarrow> Inr p)"

definition userCommandActionToString :: "userCommandAction \<Rightarrow> proto_error + string" where
  "userCommandActionToString p =
     (case map_of userCommandActionByProto p of None \<Rightarrow> Inl (ErrUnknownActionProto p) | Some a \<Rightarrow> Inr a)"

definition isValidVesselRole :: "string \<Rightarrow> bool" where
  "isValidVesselRole r \<longleftrightarrow> r \<in> set [''master'', ''chiefOfficer'', ''secondOfficer'', ''thirdOfficer'',
     ''chiefEngineer'', ''secondEngineer'']"

definition lifecycleStateByDomain :: "(state \<times> int) list" where
  "lifecycleStateByDomain = [(StateDraft, 1), (StateReady, 2), (StateSubmitted, 3), (StateSynced, 4),
     (StatePushed, 5), (StateRemarked, 6), (StateInvalidated, 7)]"

definition domainByLifecycleState :: "(int \<times> state) list" where
  "domainByLifecycleState = inverse_table lifecycleStateByDomain"

definition auditEventTypeByDomain :: "(event_type \<times> int) list" where
  "auditEventTypeByDomain = [(EventCreated, 1), (EventSectionSaved, 2), (EventHealthCheckResult, 3),
     (EventSubmitted, 4), (EventSynced, 5), (EventRemarked, 6), (EventCorrectionStarted, 7), (EventResubmitted, 8),
     (EventInvalidated, 9), (EventRestoreApplied, 11), (EventFindingAcknowledged, 12)]"

definition domainByAuditEventType :: "(int \<times> event_type) list" where
  "domainByAuditEventType = inverse_table auditEventTypeByDomain"

section \<open>Messages\<close>

text \<open>\<open>'w\<close> is the type of \<open>structpb.Struct\<close> values, \<open>'ts\<close> of \<open>timestamppb.Timestamp\<close> values; absent messages are \<open>None\<close>.\<close>

record ('w, 'ts) pblib =
  NewStruct :: "(string, json) gomap \<Rightarrow> 'w option"
  StructAsMap :: "'w \<Rightarrow> (string, json) gomap"
  TimestampNew :: "gotime \<Rightarrow> 'ts"
  TimestampAsTime :: "'ts \<Rightarrow> gotime"

definition pb_ok :: "('w, 'ts) pblib \<Rightarrow> bool" where
  "pb_ok pb \<longleftrightarrow> (\<forall>m w. NewStruct pb m = Some w \<longrightarrow> StructAsMap pb w = m) \<and>
     (\<forall>t. TimestampAsTime pb (TimestampNew pb t) = t)"

text \<open>A nil map is converted as an empty one; an absent \<open>Struct\<close> reads as an empty map, an absent timestamp as 1970.\<close>

definition newStruct :: "('w, 'ts) pblib \<Rightarrow> fields \<Rightarrow> 'w option" where
  "newStruct pb fs = NewStruct pb (case fs of None \<Rightarrow> [] | Some m \<Rightarrow> m)"

definition asMap :: "('w, 'ts) pblib \<Rightarrow> 'w option \<Rightarrow> fields" where
  "asMap pb w = Some (case w of None \<Rightarrow> [] | Some w \<Rightarrow> StructAsMap pb w)"

definition asTime :: "('w, 'ts) pblib \<Rightarrow> 'ts option \<Rightarrow> gotime" where
  "asTime pb t = (case t of None \<Rightarrow> 0 | Some t \<Rightarrow> TimestampAsTime pb t)"

definition int32 :: "int \<Rightarrow> int" where
  "int32 n = sint (word_of_int n :: 32 word)"

record ('w, 'ts) pbReportVersion =
  pvReportId :: string
  pvVersionNo :: int
  pvSchemaKind :: int
  pvSchemaVersion :: string
  pvEventType :: string
  pvState :: int
  pvEventTime :: "'ts option"
  pvFields :: "'w option"
  pvSubmittedAt :: "'ts option"

record ('w, 'ts) pbReportAuditEvent =
  peReportId :: string
  peVersionNo :: int
  peEventType :: int
  peActor :: string
  peOccurredAt :: "'ts option"
  peDetail :: "'w option"

record 'ts pbRemark =
  prId :: string
  prReportId :: string
  prVersionNo :: int
  prFieldName :: string
  prBody :: string
  prAuthor :: string
  prCreatedAt :: "'ts option"
  prResolved :: bool

record 'ts pbChatMessage =
  pmId :: string
  pmReportId :: string
  pmSender :: string
  pmBody :: string
  pmSentAt :: "'ts option"

record 'ts pbInvalidationNotice =
  pnReportId :: string
  pnVersionNo :: int
  pnBrokenRules :: "string list"
  pnComputedAt :: "'ts option"

datatype ('w, 'ts) pbPayload =
    PayloadReportVersion "('w, 'ts) pbReportVersion"
  | PayloadAuditEvent "('w, 'ts) pbReportAuditEvent"
  | PayloadChatMessage "'ts pbChatMessage"
  | PayloadNone

record ('w, 'ts) pbOutboxItem =
  piItemId :: string
  piSequenceNo :: int
  piPayload :: "('w, 'ts) pbPayload"

section \<open>Conversions\<close>

definition reportVersionFromDomain :: "('w, 'ts) pblib \<Rightarrow> report \<Rightarrow> proto_error + ('w, 'ts) pbReportVersion" where
  "reportVersionFromDomain pb r =
     (case schemaKindFromName (SchemaName r) of
        Inl e \<Rightarrow> Inl e
      | Inr kind \<Rightarrow>
          (case map_of lifecycleStateByDomain (State r) of
             None \<Rightarrow> Inl (ErrUnknownState (State r))
           | Some st \<Rightarrow>
               (case newStruct pb (Fields r) of
                  None \<Rightarrow> Inl (ErrConvertFields (ReportID r) (VersionNo r))
                | Some flds \<Rightarrow>
                    Inr \<lparr>pvReportId = ReportID r, pvVersionNo = int32 (VersionNo r), pvSchemaKind = kind,
                         pvSchemaVersion = '''', pvEventType = EventType r, pvState = st,
                         pvEventTime = Some (TimestampNew pb (EventTime r)), pvFields = Some flds,
                         pvSubmittedAt = (if is_zero (SubmittedAt r) then None
                           else Some (TimestampNew pb (SubmittedAt r)))\<rparr>)))"

text \<open>The fields the message does not carry are zero in the report read back.\<close>

definition reportVersionToDomain :: "('w, 'ts) pblib \<Rightarrow> ('w, 'ts) pbReportVersion \<Rightarrow> proto_error + report" where
  "reportVersionToDomain pb pv =
     (case schemaNameFromKind (pvSchemaKind pv) of
        Inl e \<Rightarrow> Inl e
      | Inr name \<Rightarrow>
          (case map_of domainByLifecycleState (pvState pv) of
             None \<Rightarrow> Inl (ErrUnknownLifecycleState (pvState pv))
           | Some st \<Rightarrow>
               Inr \<lparr>ReportID = pvReportId pv, VersionNo = pvVersionNo pv, SchemaName = name,
                    EventType = pvEventType pv, EventTime = asTime pb (pvEventTime pv),
                    Fields = asMap pb (pvFields pv), State = st,
                    InvalidatedFrom = StateZero, InvalidatedRules = [], CreatedAt = zero_time, CreatedBy = '''',
                    UpdatedAt = zero_time,
                    SubmittedAt = (case pvSubmittedAt pv of None \<Rightarrow> zero_time | Some t \<Rightarrow> TimestampAsTime pb t),
                    SubmittedBy = ''''\<rparr>))"

definition reportAuditEventFromDomain :: "('w, 'ts) pblib \<Rightarrow> event \<Rightarrow> proto_error + ('w, 'ts) pbReportAuditEvent" where
  "reportAuditEventFromDomain pb e =
     (case map_of auditEventTypeByDomain (evType e) of
        None \<Rightarrow> Inl (ErrUnknownEventType (evType e))
      | Some ty \<Rightarrow>
          (case newStruct pb (evDetail e) of
             None \<Rightarrow> Inl (ErrConvertDetail (evReportID e) (evVersionNo e))
           | Some d \<Rightarrow>
               Inr \<lparr>peReportId = evReportID e, peVersionNo = int32 (evVersionNo e), peEventType = ty,
                    peActor = evActor e, peOccurredAt = Some (TimestampNew pb (evAt e)), peDetail = Some d\<rparr>))"

definition reportAuditEventToDomain :: "('w, 'ts) pblib \<Rightarrow> ('w, 'ts) pbReportAuditEvent \<Rightarrow> proto_error + event" where
  "reportAuditEventToDomain pb pe =
     (case map_of domainByAuditEventType (peEventType pe) of
        None \<Rightarrow> Inl (ErrUnknownAuditEventType (peEventType pe))
      | Some ty \<Rightarrow>
          Inr \<lparr>evReportID = peReportId pe, evVersionNo = peVersionNo pe, evType = ty,
               evAt = asTime pb (peOccurredAt pe), evActor = peActor pe, evDetail = asMap pb (peDetail pe)\<rparr>)"

definition remarkFromDomain :: "('w, 'ts) pblib \<Rightarrow> remark \<Rightarrow> 'ts pbRemark" where
  "remarkFromDomain pb r = \<lparr>prId = rmID r, prReportId = rmReportID r, prVersionNo = int32 (rmVersionNo r),
     prFieldName = rmFieldName r, prBody = rmBody r, prAuthor = rmAuthor r,
     prCreatedAt = Some (TimestampNew pb (rmCreatedAt r)), prResolved = rmResolved r\<rparr>"

definition remarkToDomain :: "('w, 'ts) pblib \<Rightarrow> 'ts pbRemark \<Rightarrow> remark" where
  "remarkToDomain pb pr = \<lparr>rmID = prId pr, rmReportID = prReportId pr, rmVersionNo = prVersionNo pr,
     rmFieldName = prFieldName pr, rmBody = prBody pr, rmAuthor = prAuthor pr,
     rmCreatedAt = asTime pb (prCreatedAt pr), rmResolved = prResolved pr\<rparr>"

definition chatMessageFromDomain :: "('w, 'ts) pblib \<Rightarrow> chatMessage \<Rightarrow> 'ts pbChatMessage" where
  "chatMessageFromDomain pb m = \<lparr>pmId = cmID m, pmReportId = cmReportID m, pmSender = cmSender m,
     pmBody = cmBody m, pmSentAt = Some (TimestampNew pb (cmSentAt m))\<rparr>"

definition chatMessageToDomain :: "('w, 'ts) pblib \<Rightarrow> chatDirection \<Rightarrow> 'ts pbChatMessage \<Rightarrow> chatMessage" where
  "chatMessageToDomain pb direction pm = \<lparr>cmID = pmId pm, cmReportID = pmReportId pm, cmSender = pmSender pm,
     cmBody = pmBody pm, cmSentAt = asTime pb (pmSentAt pm), cmDirection = direction\<rparr>"

definition invalidationNoticeFromDomain :: "('w, 'ts) pblib \<Rightarrow> invalidationNotice \<Rightarrow> 'ts pbInvalidationNotice" where
  "invalidationNoticeFromDomain pb n = \<lparr>pnReportId = inReportID n, pnVersionNo = int32 (inVersionNo n),
     pnBrokenRules = inBrokenRules n, pnComputedAt = Some (TimestampNew pb (inComputedAt n))\<rparr>"

definition invalidationNoticeToDomain :: "('w, 'ts) pblib \<Rightarrow> 'ts pbInvalidationNotice \<Rightarrow> invalidationNotice" where
  "invalidationNoticeToDomain pb pn = \<lparr>inReportID = pnReportId pn, inVersionNo = pnVersionNo pn,
     inBrokenRules = pnBrokenRules pn, inComputedAt = asTime pb (pnComputedAt pn)\<rparr>"

section \<open>Lemmas\<close>

lemma int32_exact: "- (2 ^ 31) \<le> n \<Longrightarrow> n < 2 ^ 31 \<Longrightarrow> int32 n = n"
  by (simp add: int32_def sint_sbintrunc' signed_take_bit_int_eq_self)

lemma inverse_table_map_of:
  assumes "distinct (map fst xs)" and "distinct (map snd xs)"
  shows "map_of (inverse_table xs) b = Some a \<longleftrightarrow> map_of xs a = Some b"
proof -
  have "distinct (map fst (inverse_table xs))" using assms(2) by (simp add: inverse_table_def case_prod_unfold comp_def)
  then show ?thesis using assms(1) by (auto simp: inverse_table_def map_of_eq_Some_iff)
qed

lemmas tables = schemaKindByName_def userCommandActionByString_def lifecycleStateByDomain_def auditEventTypeByDomain_def

lemma schema_tables: "map_of schemaNameByKind k = Some n \<longleftrightarrow> map_of schemaKindByName n = Some k"
  unfolding schemaNameByKind_def by (rule inverse_table_map_of) (simp_all add: tables)

lemma action_tables: "map_of userCommandActionByProto p = Some a \<longleftrightarrow> map_of userCommandActionByString a = Some p"
  unfolding userCommandActionByProto_def by (rule inverse_table_map_of) (simp_all add: tables)

lemma lifecycle_tables: "map_of domainByLifecycleState k = Some s \<longleftrightarrow> map_of lifecycleStateByDomain s = Some k"
  unfolding domainByLifecycleState_def by (rule inverse_table_map_of) (simp_all add: tables)

lemma audit_tables: "map_of domainByAuditEventType k = Some t \<longleftrightarrow> map_of auditEventTypeByDomain t = Some k"
  unfolding domainByAuditEventType_def by (rule inverse_table_map_of) (simp_all add: tables)

lemma schema_roundtrip: "schemaKindFromName n = Inr k \<longleftrightarrow> schemaNameFromKind k = Inr n"
proof -
  have "schemaKindFromName n = Inr k \<longleftrightarrow> map_of schemaKindByName n = Some k"
    "schemaNameFromKind k = Inr n \<longleftrightarrow> map_of schemaNameByKind k = Some n"
    by (simp_all add: schemaKindFromName_def schemaNameFromKind_def split: option.split)
  then show ?thesis by (simp add: schema_tables)
qed

lemma action_roundtrip: "userCommandActionFromString a = Inr p \<longleftrightarrow> userCommandActionToString p = Inr a"
proof -
  have "userCommandActionFromString a = Inr p \<longleftrightarrow> map_of userCommandActionByString a = Some p"
    "userCommandActionToString p = Inr a \<longleftrightarrow> map_of userCommandActionByProto p = Some a"
    by (simp_all add: userCommandActionFromString_def userCommandActionToString_def split: option.split)
  then show ?thesis by (simp add: action_tables)
qed

text \<open>Every lifecycle state but those of rows written by other programs has a wire value.\<close>

lemma lifecycle_total: "map_of lifecycleStateByDomain s = None \<longleftrightarrow> (\<exists>t. s = StateOther t)"
  by (cases s) (simp_all add: tables)

lemma audit_total: "map_of auditEventTypeByDomain t = None \<longleftrightarrow> (\<exists>u. t = EventOther u)"
  by (cases t) (simp_all add: tables)

lemma newStruct_asMap: "pb_ok pb \<Longrightarrow> newStruct pb fs = Some w \<Longrightarrow> asMap pb (Some w) = Some (case fs of None \<Rightarrow> [] | Some m \<Rightarrow> m)"
  by (simp add: pb_ok_def newStruct_def asMap_def)

lemma time_roundtrip: "pb_ok pb \<Longrightarrow> TimestampAsTime pb (TimestampNew pb t) = t"
  "pb_ok pb \<Longrightarrow> asTime pb (Some (TimestampNew pb t)) = t"
  by (simp_all add: pb_ok_def asTime_def)

text \<open>What the office reads of a report.\<close>

definition wire_report :: "report \<Rightarrow> report" where
  "wire_report r = r\<lparr>VersionNo := int32 (VersionNo r), Fields := Some (case Fields r of None \<Rightarrow> [] | Some m \<Rightarrow> m),
     InvalidatedFrom := StateZero, InvalidatedRules := [], CreatedAt := zero_time, CreatedBy := '''',
     UpdatedAt := zero_time, SubmittedBy := ''''\<rparr>"

lemma report_roundtrip:
  assumes "pb_ok pb" and "reportVersionFromDomain pb r = Inr pv"
  shows "reportVersionToDomain pb pv = Inr (wire_report r)"
proof -
  from assms(2) obtain kind st w where h: "schemaKindFromName (SchemaName r) = Inr kind"
      "map_of lifecycleStateByDomain (State r) = Some st" "newStruct pb (Fields r) = Some w"
    by (auto simp: reportVersionFromDomain_def split: sum.splits option.splits)
  then have "schemaNameFromKind kind = Inr (SchemaName r)" "map_of domainByLifecycleState st = Some (State r)"
    by (simp_all add: schema_roundtrip[symmetric] lifecycle_tables)
  then show ?thesis
    using assms h newStruct_asMap[OF assms(1) h(3)] time_roundtrip[OF assms(1)]
    by (auto simp: reportVersionFromDomain_def reportVersionToDomain_def wire_report_def is_zero_def)
qed

lemma event_roundtrip:
  assumes "pb_ok pb" and "reportAuditEventFromDomain pb e = Inr pe"
  shows "reportAuditEventToDomain pb pe = Inr (e\<lparr>evVersionNo := int32 (evVersionNo e),
    evDetail := Some (case evDetail e of None \<Rightarrow> [] | Some m \<Rightarrow> m)\<rparr>)"
proof -
  from assms(2) obtain ty w where h: "map_of auditEventTypeByDomain (evType e) = Some ty" "newStruct pb (evDetail e) = Some w"
    by (auto simp: reportAuditEventFromDomain_def split: option.splits)
  then have "map_of domainByAuditEventType ty = Some (evType e)" by (simp add: audit_tables)
  then show ?thesis
    using assms h newStruct_asMap[OF assms(1) h(2)] time_roundtrip[OF assms(1)]
    by (auto simp: reportAuditEventFromDomain_def reportAuditEventToDomain_def)
qed

lemma remark_roundtrip: "pb_ok pb \<Longrightarrow> remarkToDomain pb (remarkFromDomain pb r) = r\<lparr>rmVersionNo := int32 (rmVersionNo r)\<rparr>"
  by (simp add: remarkToDomain_def remarkFromDomain_def time_roundtrip)

lemma chat_roundtrip: "pb_ok pb \<Longrightarrow> chatMessageToDomain pb d (chatMessageFromDomain pb m) = m\<lparr>cmDirection := d\<rparr>"
  by (simp add: chatMessageToDomain_def chatMessageFromDomain_def time_roundtrip)

lemma notice_roundtrip:
  "pb_ok pb \<Longrightarrow> invalidationNoticeToDomain pb (invalidationNoticeFromDomain pb n) = n\<lparr>inVersionNo := int32 (inVersionNo n)\<rparr>"
  by (simp add: invalidationNoticeToDomain_def invalidationNoticeFromDomain_def time_roundtrip)

text \<open>A report whose schema is one of the five converts, unless its state or a field value has no wire form.\<close>

lemma reportVersionFromDomain_succeeds_iff:
  "(\<exists>pv. reportVersionFromDomain pb r = Inr pv) \<longleftrightarrow>
   SchemaName r \<in> fst ` set schemaKindByName \<and> (\<forall>t. State r \<noteq> StateOther t) \<and> newStruct pb (Fields r) \<noteq> None"
proof -
  have s: "SchemaName r \<in> fst ` set schemaKindByName \<longleftrightarrow> map_of schemaKindByName (SchemaName r) \<noteq> None"
    by (simp add: map_of_eq_None_iff)
  have l: "(\<forall>t. State r \<noteq> StateOther t) \<longleftrightarrow> map_of lifecycleStateByDomain (State r) \<noteq> None"
    by (simp add: lifecycle_total)
  show ?thesis
    unfolding s l
    by (cases "map_of schemaKindByName (SchemaName r)"; cases "map_of lifecycleStateByDomain (State r)"; cases "newStruct pb (Fields r)")
      (simp_all add: reportVersionFromDomain_def schemaKindFromName_def)
qed

text \<open>The wire form of a role and the roles of a vessel agree.\<close>

lemma isValidVesselRole_eq: "isValidVesselRole = role_valid"
  by (rule ext) (simp only: isValidVesselRole_def role_valid_def defaultRoles_def RoleMaster_def)

lemma wire_report_sel [simp]:
  "ReportID (wire_report r) = ReportID r" "SchemaName (wire_report r) = SchemaName r" "State (wire_report r) = State r"
  "EventTime (wire_report r) = EventTime r" "EventType (wire_report r) = EventType r"
  by (simp_all add: wire_report_def)

end
