(* ===== verification/OfficeSync.thy ===== *)
theory OfficeSync
  imports OfficeConfig SyncProto
begin

text \<open>
  \<open>office/syncservice\<close>: what the office does with the calls of a vessel.  \<open>pushoutbox.go\<close> lands the items of a vessel's
  outbox, \<open>cascade.go\<close> checks the landed chain again, \<open>pullinbox.go\<close> hands out what is new since the vessel's cursors,
  \<open>syncservice.go\<close> records a check-in and \<open>auth.go\<close> decides which vessel is calling.

  \<open>officeEnv\<close> gathers what a call takes from outside: the protobuf library, Postgres, the order in which sort treats ties and
  in which unordered queries return their rows, and the clock where an item is landed and where its cascade runs.

  Lemmas: a receipt makes a retransmitted item a no-op, a landed version reads back as it was sent, the office's cascade
  reaches the verdict of the vessel's, successive pulls deliver every row of a stream once and a check-in erases the
  passwords of the commands it acknowledges.
\<close>

record ('w, 'ts) officeEnv =
  oePb :: "('w, 'ts) pblib"
  oePg :: pg
  oeSorter :: slice_sorter
  oeOrdSeverities :: "ruleSeverityAssignment list \<Rightarrow> ruleSeverityAssignment list"
  oeOrdAssignments :: "bundleAssignment list \<Rightarrow> bundleAssignment list"
  oeNow :: gotime
  oeCascadeNow :: gotime

datatype sync_error =
    SyncStore ostore_error
  | SyncProto proto_error
  | SyncScope compliance_error
  | SyncConfig config_error
  | SyncUnknownPayload
  | SyncMarshal
  | SyncMissingCredential
  | SyncUnknownCredential
  | SyncVerify user_error

definition lift :: "('e \<Rightarrow> sync_error) \<Rightarrow> 'e + 'a \<Rightarrow> sync_error + 'a" where
  "lift f r = map_sum f id r"

lemma lift_simps [simp]: "lift f (Inl e) = Inl (f e)" "lift f (Inr a) = Inr a"
  by (simp_all add: lift_def)

lemma lift_Inr [simp]: "lift f r = Inr a \<longleftrightarrow> r = Inr a"
  by (cases r) simp_all

section \<open>Cascade\<close>

definition validationConfigForVessel ::
  "(ruleSeverityAssignment list \<Rightarrow> ruleSeverityAssignment list) \<Rightarrow> string \<Rightarrow> string \<Rightarrow> string list \<Rightarrow> ostore
   \<Rightarrow> compliance_error + config" where
  "validationConfigForVessel ord sname vesselID vesselGroups st =
     (case listRuleSeverityAssignments ord st of
        Inl e \<Rightarrow> Inl e
      | Inr assignments \<Rightarrow>
          Inr ((validationConfigFor sname)\<lparr>Severities := effectiveSeverities assignments vesselID vesselGroups\<rparr>))"

definition office_chain :: "slice_sorter \<Rightarrow> string \<Rightarrow> string \<Rightarrow> ostore \<Rightarrow> report list" where
  "office_chain p vesselID sname st = filter (\<lambda>r. inChain (State r)) (olistChain p vesselID sname st)"

text \<open>One report of the chain: the version's state, the audit event and the notice, unless the notice is there already.\<close>

definition already_noticed :: "string \<Rightarrow> report \<Rightarrow> string list \<Rightarrow> ostore \<Rightarrow> bool" where
  "already_noticed vesselID r rules st \<longleftrightarrow>
     State r = StateInvalidated \<and>
     (case getLatestInvalidationNotice vesselID (ReportID r) (VersionNo r) st of
        Inl _ \<Rightarrow> False | Inr prev \<Rightarrow> inBrokenRules prev = rules)"

definition office_cascade_step ::
  "('w, 'ts) officeEnv \<Rightarrow> string \<Rightarrow> cascadeResult \<Rightarrow> report \<Rightarrow> ostore \<Rightarrow> (ostore_error + unit) \<times> ostore" where
  "office_cascade_step env vesselID result r st =
     (case gm_lookup result (ReportID r) of
        None \<Rightarrow> (Inr (), st)
      | Some rules \<Rightarrow>
          if already_noticed vesselID r rules st then (Inr (), st)
          else case invalidate rules (oeCascadeNow env) r of (r, event) \<Rightarrow>
            attempt st (updateReportVersionState vesselID (ReportID r) (VersionNo r) (State r) st) (\<lambda>st.
            attempt st (appendReportAuditEvent (oePg env) vesselID event (oeCascadeNow env) OriginOffice st) (\<lambda>st.
            attempt st (oinsertInvalidationNotice (oePg env) vesselID (ReportID r) (VersionNo r) rules (oeCascadeNow env) st)
              (\<lambda>st. (Inr (), st)))))"

definition office_verdict ::
  "('w, 'ts) officeEnv \<Rightarrow> string \<Rightarrow> string \<Rightarrow> ostore \<Rightarrow> sync_error + cascadeResult" where
  "office_verdict env vesselID sname st =
     (case getVessel vesselID st of
        Inl e \<Rightarrow> Inl (SyncStore e)
      | Inr vessel \<Rightarrow>
          (case validationConfigForVessel (oeOrdSeverities env) sname vesselID (vrGroups vessel) st of
             Inl e \<Rightarrow> Inl (SyncScope e)
           | Inr cfg \<Rightarrow> Inr (revalidate (oeSorter env) (map toValidation (office_chain (oeSorter env) vesselID sname st)) (Some cfg))))"

definition orunCascade ::
  "('w, 'ts) officeEnv \<Rightarrow> string \<Rightarrow> string \<Rightarrow> ostore \<Rightarrow> (sync_error + unit) \<times> ostore" where
  "orunCascade env vesselID sname st =
     (case office_verdict env vesselID sname st of
        Inl e \<Rightarrow> (Inl e, st)
      | Inr result \<Rightarrow>
          map_prod (lift SyncStore) id
            (for_each (office_cascade_step env vesselID result) (office_chain (oeSorter env) vesselID sname st) st))"

section \<open>Landing\<close>

record itemAck =
  iaItemId :: string
  iaAccepted :: bool
  iaError :: "sync_error option"

definition rejectedAck :: "string \<Rightarrow> sync_error \<Rightarrow> itemAck" where
  "rejectedAck i e = \<lparr>iaItemId = i, iaAccepted = False, iaError = Some e\<rparr>"

definition accepted_ack :: "string \<Rightarrow> itemAck" where
  "accepted_ack i = \<lparr>iaItemId = i, iaAccepted = True, iaError = None\<rparr>"

text \<open>The payload's effect; an error of the cascade after a landing is only logged.\<close>

definition land_payload ::
  "('w, 'ts) officeEnv \<Rightarrow> string \<Rightarrow> ('w, 'ts) pbPayload \<Rightarrow> ostore \<Rightarrow> sync_error + ostore" where
  "land_payload env vesselID payload st =
     (case payload of
        PayloadReportVersion pv \<Rightarrow>
          (case reportVersionToDomain (oePb env) pv of
             Inl e \<Rightarrow> Inl (SyncProto e)
           | Inr r \<Rightarrow>
               (case upsertReportVersion (oePg env) vesselID r (pvSchemaVersion pv) (oeNow env) st of
                  Inl e \<Rightarrow> Inl (SyncStore e)
                | Inr st \<Rightarrow> Inr (snd (orunCascade env vesselID (SchemaName r) st))))
      | PayloadAuditEvent pe \<Rightarrow>
          (case reportAuditEventToDomain (oePb env) pe of
             Inl e \<Rightarrow> Inl (SyncProto e)
           | Inr e \<Rightarrow> lift SyncStore (appendReportAuditEvent (oePg env) vesselID e (oeNow env) OriginVessel st))
      | PayloadChatMessage pm \<Rightarrow>
          lift SyncStore (oinsertChatMessage (oePg env) vesselID (chatMessageToDomain (oePb env) ChatFromVessel pm) st)
      | PayloadNone \<Rightarrow> Inl SyncUnknownPayload)"

text \<open>Landing and receipt are separate statements: an item can land and have no receipt.\<close>

definition applyOutboxItem ::
  "('w, 'ts) officeEnv \<Rightarrow> string \<Rightarrow> ('w, 'ts) pbOutboxItem \<Rightarrow> ostore \<Rightarrow> itemAck \<times> ostore" where
  "applyOutboxItem env vesselID item st =
     (case hasOutboxReceipt (oePg env) vesselID (piItemId item) st of
        Inl e \<Rightarrow> (rejectedAck (piItemId item) (SyncStore e), st)
      | Inr True \<Rightarrow> (accepted_ack (piItemId item), st)
      | Inr False \<Rightarrow>
          (case land_payload env vesselID (piPayload item) st of
             Inl e \<Rightarrow> (rejectedAck (piItemId item) e, st)
           | Inr st \<Rightarrow>
               (case recordOutboxReceipt (oePg env) vesselID (piItemId item) (piSequenceNo item) (oeNow env) st of
                  Inl e \<Rightarrow> (rejectedAck (piItemId item) (SyncStore e), st)
                | Inr st \<Rightarrow> (accepted_ack (piItemId item), st))))"

text \<open>Every item is landed at its own time, so each comes with its environment.\<close>

fun pushOutbox ::
  "string \<Rightarrow> (('w, 'ts) officeEnv \<times> ('w, 'ts) pbOutboxItem) list \<Rightarrow> ostore \<Rightarrow> itemAck list \<times> ostore" where
  "pushOutbox vesselID [] st = ([], st)"
| "pushOutbox vesselID ((env, item) # items) st =
     (case applyOutboxItem env vesselID item st of (ack, st) \<Rightarrow>
        case pushOutbox vesselID items st of (acks, st) \<Rightarrow> (ack # acks, st))"

section \<open>Streams\<close>

record 'ts pbUserCommand =
  pucCommandId :: string
  pucAction :: userCommandAction
  pucUsername :: string
  pucRole :: string
  pucTemporaryPassword :: string
  pucCanSubmit :: bool
  pucActive :: bool
  pucIssuedBy :: string
  pucIssuedAt :: "'ts option"

record 'ts pbRestoreCommand =
  prcCommandId :: string
  prcReason :: string
  prcIssuedAt :: "'ts option"

record 'ts pbSchemaVersion =
  psSchemaKind :: int
  psVersion :: string
  psSchemaJson :: string
  psPublishedAt :: "'ts option"

text \<open>The bundle travels as JSON, which the vessel reads back as the same document.\<close>

record 'ts pbConfigBundle =
  pbcBundleId :: string
  pbcVersionNo :: int
  pbcContent :: wireBundle
  pbcPublishedAt :: "'ts option"

definition pullChatMessages ::
  "('w, 'ts) officeEnv \<Rightarrow> string \<Rightarrow> int \<Rightarrow> ostore \<Rightarrow> 'ts pbChatMessage list \<times> int" where
  "pullChatMessages env vesselID cursor st =
     (let items = listChatMessagesSince vesselID cursor st
      in (map (\<lambda>r. chatMessageFromDomain (oePb env) (srItem r)) items, next_cursor cursor items))"

definition pullInvalidationNotices ::
  "('w, 'ts) officeEnv \<Rightarrow> string \<Rightarrow> int \<Rightarrow> ostore \<Rightarrow> 'ts pbInvalidationNotice list \<times> int" where
  "pullInvalidationNotices env vesselID cursor st =
     (let items = listInvalidationNoticesSince vesselID cursor st
      in (map (\<lambda>r. invalidationNoticeFromDomain (oePb env) (srItem r)) items, next_cursor cursor items))"

definition pullRemarks :: "('w, 'ts) officeEnv \<Rightarrow> string \<Rightarrow> int \<Rightarrow> ostore \<Rightarrow> 'ts pbRemark list \<times> int" where
  "pullRemarks env vesselID cursor st =
     (let items = listRemarksSince vesselID cursor st
      in (map (\<lambda>r. remarkFromDomain (oePb env) (rrRemark (srItem r))) items, next_cursor cursor items))"

definition pullRestoreCommands :: "('w, 'ts) officeEnv \<Rightarrow> string \<Rightarrow> int \<Rightarrow> ostore \<Rightarrow> 'ts pbRestoreCommand list \<times> int" where
  "pullRestoreCommands env vesselID cursor st =
     (let items = listRestoreCommandsSince vesselID cursor st
      in (map (\<lambda>r. \<lparr>prcCommandId = rsoID (srItem r), prcReason = rsoReason (srItem r),
                     prcIssuedAt = Some (TimestampNew (oePb env) (rsoIssuedAt (srItem r)))\<rparr>) items,
          next_cursor cursor items))"

definition schemaVersionToWire :: "('w, 'ts) pblib \<Rightarrow> schemaVersionRow \<Rightarrow> sync_error + 'ts pbSchemaVersion" where
  "schemaVersionToWire pb v =
     (case schemaKindFromName (svSchemaName v) of
        Inl e \<Rightarrow> Inl (SyncProto e)
      | Inr kind \<Rightarrow> Inr \<lparr>psSchemaKind = kind, psVersion = svVersion v, psSchemaJson = svContent v,
                         psPublishedAt = Some (TimestampNew pb (svPublishedAt v))\<rparr>)"

fun collect :: "('a \<Rightarrow> 'e + 'b) \<Rightarrow> 'a list \<Rightarrow> 'e + 'b list" where
  "collect f [] = Inr []"
| "collect f (x # xs) =
     (case f x of Inl e \<Rightarrow> Inl e | Inr y \<Rightarrow> (case collect f xs of Inl e \<Rightarrow> Inl e | Inr ys \<Rightarrow> Inr (y # ys)))"

definition pullSchemaVersions :: "('w, 'ts) officeEnv \<Rightarrow> int \<Rightarrow> ostore \<Rightarrow> sync_error + 'ts pbSchemaVersion list \<times> int" where
  "pullSchemaVersions env cursor st =
     (let items = listSchemaVersionsSince cursor st in
      case collect (\<lambda>r. schemaVersionToWire (oePb env) (srItem r)) items of
        Inl e \<Rightarrow> Inl e
      | Inr out \<Rightarrow> Inr (out, next_cursor cursor items))"

definition pullAssignedBundle ::
  "('w, 'ts) officeEnv \<Rightarrow> string \<Rightarrow> int \<Rightarrow> ostore \<Rightarrow> sync_error + 'ts pbConfigBundle list \<times> int" where
  "pullAssignedBundle env vesselID cursor st =
     (case getVessel vesselID st of
        Inl e \<Rightarrow> Inl (SyncStore e)
      | Inr vessel \<Rightarrow>
     (case listBundleAssignments (oeOrdAssignments env) st of
        Inl e \<Rightarrow> Inl (SyncScope e)
      | Inr assignments \<Rightarrow>
     (case resolve assignments vesselID (vrGroups vessel) of
        None \<Rightarrow> Inr ([], cursor)
      | Some match \<Rightarrow>
     (case getConfigBundleCursor (baBundleID match) st of
        Inl e \<Rightarrow> Inl (SyncConfig e)
      | Inr bundleCursor \<Rightarrow>
          if bundleCursor \<le> cursor then Inr ([], cursor)
          else (case getConfigBundle (baBundleID match) st of
             Inl e \<Rightarrow> Inl (SyncConfig e)
           | Inr b \<Rightarrow>
               Inr ([\<lparr>pbcBundleId = cbID b, pbcVersionNo = bundleCursor,
                      pbcContent = resolveFor b vesselID (vrGroups vessel) bundleCursor,
                      pbcPublishedAt = Some (TimestampNew (oePb env) (cbPublishedAt b))\<rparr>], bundleCursor))))))"

text \<open>Handing out a command marks it fetched; an unknown action stops the call, after the commands before it are marked.\<close>

definition userCommandToWire :: "('w, 'ts) pblib \<Rightarrow> officeUserCommand \<Rightarrow> sync_error + 'ts pbUserCommand" where
  "userCommandToWire pb c =
     (case userCommandActionFromString (oucAction c) of
        Inl e \<Rightarrow> Inl (SyncProto e)
      | Inr action \<Rightarrow>
          Inr \<lparr>pucCommandId = oucID c, pucAction = action, pucUsername = oucUsername c, pucRole = oucRole c,
               pucTemporaryPassword = oucTemporaryPassword c, pucCanSubmit = oucCanSubmit c, pucActive = oucActive c,
               pucIssuedBy = oucIssuedBy c, pucIssuedAt = Some (TimestampNew pb (oucIssuedAt c))\<rparr>)"

fun pull_commands ::
  "('w, 'ts) officeEnv \<Rightarrow> officeUserCommand streamRow list \<Rightarrow> ostore \<Rightarrow> (sync_error + 'ts pbUserCommand list) \<times> ostore" where
  "pull_commands env [] st = (Inr [], st)"
| "pull_commands env (r # rs) st =
     (case userCommandToWire (oePb env) (srItem r) of
        Inl e \<Rightarrow> (Inl e, st)
      | Inr c \<Rightarrow>
          andthen (pull_commands env rs (markUserCommandFetched (oePg env) (oucID (srItem r)) (oeNow env) st))
            (\<lambda>out st. (Inr (c # out), st)))"

definition pullUserCommands ::
  "('w, 'ts) officeEnv \<Rightarrow> string \<Rightarrow> int \<Rightarrow> ostore \<Rightarrow> (sync_error + 'ts pbUserCommand list \<times> int) \<times> ostore" where
  "pullUserCommands env vesselID cursor st =
     (let items = listUserCommandsSince vesselID cursor st
      in andthen (pull_commands env items st) (\<lambda>out st. (Inr (out, next_cursor cursor items), st)))"

record 'ts pullInboxResponse =
  pirConfigBundles :: "'ts pbConfigBundle list"
  pirSchemaVersions :: "'ts pbSchemaVersion list"
  pirChatMessages :: "'ts pbChatMessage list"
  pirInvalidationNotices :: "'ts pbInvalidationNotice list"
  pirRemarks :: "'ts pbRemark list"
  pirRestoreCommands :: "'ts pbRestoreCommand list"
  pirUserCommands :: "'ts pbUserCommand list"
  pirNextCursors :: inboxCursors

definition pullInbox ::
  "('w, 'ts) officeEnv \<Rightarrow> string \<Rightarrow> inboxCursors \<Rightarrow> ostore \<Rightarrow> (sync_error + 'ts pullInboxResponse) \<times> ostore" where
  "pullInbox env vesselID c st =
     (case pullSchemaVersions env (SchemaVersionCursor c) st of
        Inl e \<Rightarrow> (Inl e, st)
      | Inr (versions, nextSchema) \<Rightarrow>
     (case pullAssignedBundle env vesselID (ConfigBundleCursor c) st of
        Inl e \<Rightarrow> (Inl e, st)
      | Inr (bundles, nextBundle) \<Rightarrow>
     (let (chat, nextChat) = pullChatMessages env vesselID (ChatCursor c) st;
          (notices, nextNotice) = pullInvalidationNotices env vesselID (InvalidationNoticeCursor c) st;
          (remarks, nextRemark) = pullRemarks env vesselID (RemarkCursor c) st;
          (restores, nextRestore) = pullRestoreCommands env vesselID (RestoreCommandCursor c) st
      in andthen (pullUserCommands env vesselID (UserCommandCursor c) st) (\<lambda>(commands, nextCommand) st.
           (Inr \<lparr>pirConfigBundles = bundles, pirSchemaVersions = versions, pirChatMessages = chat,
                 pirInvalidationNotices = notices, pirRemarks = remarks, pirRestoreCommands = restores,
                 pirUserCommands = commands,
                 pirNextCursors = \<lparr>ConfigBundleCursor = nextBundle, SchemaVersionCursor = nextSchema, RemarkCursor = nextRemark,
                    ChatCursor = nextChat, InvalidationNoticeCursor = nextNotice, RestoreCommandCursor = nextRestore,
                    UserCommandCursor = nextCommand\<rparr>\<rparr>, st)))))"

section \<open>Check-in\<close>

record syncStatusRequest =
  srqAppVersion :: string
  srqAppliedBundleId :: string
  srqAppliedBundleVersion :: int
  srqAppliedRestoreCommandIds :: "string list"
  srqAppliedUserCommandIds :: "string list"
  srqUsers :: "vesselUserSummary list"

definition roster_rows :: "vesselUserSummary list \<Rightarrow> rosterRow list" where
  "roster_rows us = map (\<lambda>u. \<lparr>roVesselID = '''', roUsername = vsuUsername u, roRole = vsuRole u, roActive = vsuActive u,
     roCanSubmit = vsuCanSubmit u, roUpdatedAt = vsuUpdatedAt u, roReportedAt = zero_time\<rparr>) us"

definition syncStatus ::
  "('w, 'ts) officeEnv \<Rightarrow> string \<Rightarrow> syncStatusRequest \<Rightarrow> ostore \<Rightarrow> (ostore_error + gotime) \<times> ostore" where
  "syncStatus env vesselID req st =
     attempt st (upsertVesselSyncStatus (oePg env) \<lparr>ssVesselID = vesselID, ssAppVersion = srqAppVersion req,
         ssLastSeenAt = oeNow env, ssAppliedBundleID = srqAppliedBundleId req,
         ssAppliedBundleVersion = srqAppliedBundleVersion req\<rparr> st) (\<lambda>st.
       let st = markRestoreCommandsApplied (oePg env) vesselID (srqAppliedRestoreCommandIds req) (oeNow env) st;
           st = markUserCommandsApplied (oePg env) vesselID (srqAppliedUserCommandIds req) (oeNow env) st
       in attempt st (replaceVesselUsers (oePg env) vesselID (roster_rows (srqUsers req)) (oeNow env) st) (\<lambda>st.
            (Inr (oeNow env), st)))"

section \<open>Authentication\<close>

definition bearer_prefix :: string where "bearer_prefix = ''Bearer ''"

definition bearerToken :: "string \<Rightarrow> string" where
  "bearerToken header =
     (if starts_with bearer_prefix header then trim_space (drop (length bearer_prefix) header) else '''')"

datatype mint_error = MintNoVessel | MintNoToken | MintHash user_error

definition mint ::
  "crypto \<Rightarrow> (string \<Rightarrow> string) \<Rightarrow> gotime \<Rightarrow> string option \<Rightarrow> string \<Rightarrow> mint_error + credential \<times> string" where
  "mint c lookupHash now random vesselID =
     (if vesselID = '''' then Inl MintNoVessel
      else case random of
        None \<Rightarrow> Inl MintNoToken
      | Some token \<Rightarrow>
          (case hashPassword c token of
             Inl e \<Rightarrow> Inl (MintHash e)
           | Inr h \<Rightarrow> Inr (\<lparr>cdVesselID = vesselID, cdTokenHash = h, cdTokenLookupHash = lookupHash token, cdIssuedAt = now,
                            cdRevokedAt = None, cdLastUsedAt = None\<rparr>, token)))"

definition credential_verify :: "crypto \<Rightarrow> string \<Rightarrow> credential \<Rightarrow> user_error + bool" where
  "credential_verify c token cred =
     (if cdRevokedAt cred \<noteq> None \<or> cdTokenHash cred = '''' then Inr False else verifyPassword c token (cdTokenHash cred))"

text \<open>The interceptor in front of every call: the vessel of the credential, or the refusal.\<close>

definition authInterceptor ::
  "crypto \<Rightarrow> (string \<Rightarrow> string) \<Rightarrow> ('w, 'ts) officeEnv \<Rightarrow> string \<Rightarrow> ostore \<Rightarrow> (sync_error + string) \<times> ostore" where
  "authInterceptor c lookupHash env header st =
     (let token = bearerToken header in
      if token = '''' then (Inl SyncMissingCredential, st)
      else case getVesselCredentialByLookupHash (lookupHash token) st of
        Inl _ \<Rightarrow> (Inl SyncUnknownCredential, st)
      | Inr cred \<Rightarrow>
          (case credential_verify c token cred of
             Inl e \<Rightarrow> (Inl (SyncVerify e), st)
           | Inr False \<Rightarrow> (Inl SyncUnknownCredential, st)
           | Inr True \<Rightarrow> (Inr (cdVesselID cred), touchVesselCredentialLastUsed (oePg env) (cdVesselID cred) (oeNow env) st)))"

section \<open>What every operation keeps\<close>

text \<open>A stream only grows: rows keep their number, vessel and identity, and new ones get numbers from the counter on.\<close>

definition tag :: "('a \<Rightarrow> 'i) \<Rightarrow> 'a streamRow \<Rightarrow> int \<times> string \<times> 'i" where
  "tag ident r = (srSeq r, srVesselID r, ident (srItem r))"

definition grows :: "('a \<Rightarrow> 'i) \<Rightarrow> 'a streamRow list \<Rightarrow> int \<Rightarrow> 'a streamRow list \<Rightarrow> int \<Rightarrow> bool" where
  "grows ident rows n rows' n' \<longleftrightarrow> n \<le> n' \<and>
     (\<exists>us. map (tag ident) rows' = map (tag ident) rows @ us \<and> sorted_wrt (<) (map fst us) \<and>
        (\<forall>u \<in> set us. n \<le> fst u \<and> fst u < n'))"

lemma grows_refl [simp]: "grows ident rows n rows n"
  by (auto simp: grows_def)

lemma grows_trans:
  assumes "grows ident a n b m" and "grows ident b m c k"
  shows "grows ident a n c k"
proof -
  obtain us vs where us: "map (tag ident) b = map (tag ident) a @ us" "sorted_wrt (<) (map fst us)" "\<forall>u \<in> set us. n \<le> fst u \<and> fst u < m"
    and vs: "map (tag ident) c = map (tag ident) b @ vs" "sorted_wrt (<) (map fst vs)" "\<forall>u \<in> set vs. m \<le> fst u \<and> fst u < k"
    and le: "n \<le> m" "m \<le> k"
    using assms by (auto simp: grows_def)
  have "sorted_wrt (<) (map fst (us @ vs))" using us vs by (fastforce simp: sorted_wrt_append)
  then show ?thesis
    unfolding grows_def using us vs le by (intro conjI exI[of _ "us @ vs"]) auto
qed

lemma grows_append [simp]: "grows ident rows n (rows @ [\<lparr>srSeq = n, srVesselID = v, srItem = x\<rparr>]) (n + 1)"
  by (auto simp: grows_def tag_def intro!: exI[of _ "[(n, v, ident x)]"])

lemma grows_map: "(\<And>r. r \<in> set rows \<Longrightarrow> tag ident (f r) = tag ident r) \<Longrightarrow> grows ident rows n (map f rows) n"
  by (auto simp: grows_def intro!: exI[of _ "[]"])

definition stream_wf :: "'a streamRow list \<Rightarrow> int \<Rightarrow> bool" where
  "stream_wf rows n \<longleftrightarrow> ids_ok (map srSeq rows) n"

lemma map_srSeq_tag: "map srSeq rows = map fst (map (tag ident) rows)"
  by (simp add: tag_def)

lemma stream_wf_grows:
  assumes "stream_wf rows n" and "grows ident rows n rows' n'"
  shows "stream_wf rows' n'"
proof -
  obtain us where us: "map (tag ident) rows' = map (tag ident) rows @ us" "sorted_wrt (<) (map fst us)"
      "\<forall>u \<in> set us. n \<le> fst u \<and> fst u < n'" "n \<le> n'"
    using assms(2) by (auto simp: grows_def)
  have "map srSeq rows' = map srSeq rows @ map fst us"
    unfolding map_srSeq_tag[of rows ident] map_srSeq_tag[of rows' ident] us(1) by simp
  then show ?thesis using assms(1) us(2-4) by (fastforce simp: stream_wf_def ids_ok_def sorted_wrt_append)
qed

text \<open>The relation of a state to every later one.\<close>

definition office_later :: "ostore \<Rightarrow> ostore \<Rightarrow> bool" where
  "office_later st st' \<longleftrightarrow>
     vrID ` set (osVessels st) \<subseteq> vrID ` set (osVessels st') \<and>
     (\<forall>k. find_row rc_key (osReceipts st) k \<noteq> None \<longrightarrow> find_row rc_key (osReceipts st') k \<noteq> None) \<and>
     (\<forall>k. find_row lv_key (osVersions st) k \<noteq> None \<longrightarrow> find_row lv_key (osVersions st') k \<noteq> None) \<and>
     grows id (osChat st) (osNextChat st) (osChat st') (osNextChat st') \<and>
     grows id (osNotices st) (osNextNotice st) (osNotices st') (osNextNotice st') \<and>
     grows (\<lambda>r. rmID (rrRemark r)) (osRemarks st) (osNextRemark st) (osRemarks st') (osNextRemark st') \<and>
     grows oucID (osCommands st) (osNextCommand st) (osCommands st') (osNextCommand st') \<and>
     grows rsoID (osRestores st) (osNextRestore st) (osRestores st') (osNextRestore st') \<and>
     grows id (osSchemaVersions st) (osNextSchemaVersion st) (osSchemaVersions st') (osNextSchemaVersion st')"

lemma office_later_refl [simp]: "office_later st st"
  by (simp add: office_later_def)

lemma office_later_trans [trans]: "office_later a b \<Longrightarrow> office_later b c \<Longrightarrow> office_later a c"
  unfolding office_later_def
  by (elim conjE, intro conjI; (erule (1) subset_trans | erule (1) grows_trans | (intro allI impI, metis)))

definition streams_wf :: "ostore \<Rightarrow> bool" where
  "streams_wf st \<longleftrightarrow> stream_wf (osChat st) (osNextChat st) \<and> stream_wf (osNotices st) (osNextNotice st) \<and>
     stream_wf (osRemarks st) (osNextRemark st) \<and> stream_wf (osCommands st) (osNextCommand st) \<and>
     stream_wf (osRestores st) (osNextRestore st) \<and> stream_wf (osSchemaVersions st) (osNextSchemaVersion st)"

lemma streams_wf_later: "office_later st st' \<Longrightarrow> streams_wf st \<Longrightarrow> streams_wf st'"
  unfolding office_later_def streams_wf_def by (blast intro: stream_wf_grows)

section \<open>Every operation leads to a later state\<close>

named_theorems later \<open>operations that lead to a later state\<close>

lemma put_row_later [later]: "office_later st (put_row l st)"
  by (auto simp: office_later_def put_row_def find_row_upsert_by)

lemma upsertReportVersion_later [later]: "upsertReportVersion pg v r ver t st = Inr st' \<Longrightarrow> office_later st st'"
  by (auto simp: upsertReportVersion_def put_row_later split: option.splits if_splits)

lemma put_receipt_later [later]: "office_later st (put_receipt r st)"
  using receipts.put_stable[of st] by (fastforce simp: office_later_def put_receipt_def)

lemma recordOutboxReceipt_later [later]: "recordOutboxReceipt pg v i n t st = Inr st' \<Longrightarrow> office_later st st'"
  by (auto simp: recordOutboxReceipt_def put_receipt_later split: if_splits)

lemma appendReportAuditEvent_later [later]: "appendReportAuditEvent pg v e t orig st = Inr st' \<Longrightarrow> office_later st st'"
  by (auto simp: appendReportAuditEvent_def office_later_def Let_def split: option.splits if_splits)

lemma find_row_map_key:
  "(\<And>x. key (f x) = key x) \<Longrightarrow> find_row key (map f rows) k = map_option f (find_row key rows k)"
  by (induction rows) (auto simp: find_row_def)

lemma updateReportVersionState_later [later]:
  assumes "updateReportVersionState v i n s st = Inr st'"
  shows "office_later st st'"
proof -
  let ?f = "\<lambda>l. if lv_key l = (v, i, n) then l\<lparr>lvReport := (lvReport l)\<lparr>State := s\<rparr>\<rparr> else l"
  have key: "lv_key (?f l) = lv_key l" for l by (simp add: lv_key_def)
  have "st' = st\<lparr>osVersions := map ?f (osVersions st)\<rparr>" using assms by (simp add: updateReportVersionState_def)
  then show ?thesis by (simp add: office_later_def find_row_map_key[where f = ?f and key = lv_key, OF key])
qed

lemma oinsertChatMessage_later [later]: "oinsertChatMessage pg v m st = Inr st' \<Longrightarrow> office_later st st'"
  by (auto simp: oinsertChatMessage_def office_later_def split: if_splits)

lemma oinsertInvalidationNotice_later [later]: "oinsertInvalidationNotice pg v i n rs t st = Inr st' \<Longrightarrow> office_later st st'"
  by (auto simp: oinsertInvalidationNotice_def office_later_def split: if_splits)

lemma insert_remark_later: "office_later st (snd (insert_remark pg v setID r st))"
  using grows_append[of "\<lambda>r. rmID (rrRemark r)" "osRemarks st" "osNextRemark st"]
  by (auto simp: insert_remark_def office_later_def)

lemma insertRemarkSet_later [later]: "office_later st (snd (insertRemarkSet pg v rs setID st))"
  unfolding insertRemarkSet_def
  by (rule for_each_inv[where P = "office_later st"]) (auto intro: office_later_trans insert_remark_later)

lemma setRemarkResolved_later [later]: "office_later st (setRemarkResolved pg now i b st)"
  by (auto simp: setRemarkResolved_def office_later_def tag_def intro!: grows_map)

lemma queueUserCommand_later [later]: "queueUserCommand pg v c st = Inr st' \<Longrightarrow> office_later st st'"
  by (auto simp: queueUserCommand_def office_later_def split: if_splits)

lemma map_commands_later: "(\<And>c. oucID (f c) = oucID c) \<Longrightarrow> office_later st (map_commands P f st)"
  by (auto simp: map_commands_def office_later_def tag_def intro!: grows_map)

lemma markUserCommandFetched_later [later]: "office_later st (markUserCommandFetched pg i now st)"
  unfolding markUserCommandFetched_def by (rule map_commands_later) simp

lemma markUserCommandsApplied_later [later]: "office_later st (markUserCommandsApplied pg v ids now st)"
  unfolding markUserCommandsApplied_def by (auto intro: map_commands_later)

lemma queueRestoreCommand_later [later]: "queueRestoreCommand pg v c st = Inr st' \<Longrightarrow> office_later st st'"
  by (auto simp: queueRestoreCommand_def office_later_def split: if_splits)

lemma map_restores_later: "(\<And>c. rsoID (f c) = rsoID c) \<Longrightarrow> office_later st (map_restores P f st)"
  by (auto simp: map_restores_def office_later_def tag_def intro!: grows_map)

lemma markRestore_later [later]:
  "office_later st (markRestoreCommandFetched pg i now st)" "office_later st (markRestoreCommandsApplied pg v ids now st)"
  unfolding markRestoreCommandFetched_def markRestoreCommandsApplied_def by (auto intro: map_restores_later)

lemma createSchemaVersion_later [later]: "createSchemaVersion pg sv st = Inr st' \<Longrightarrow> office_later st st'"
  by (auto simp: createSchemaVersion_def office_later_def split: if_splits)

lemma config_step_later [later]: "config_step pg st st' \<Longrightarrow> office_later st st'"
  by (elim config_stepE)
    (auto simp: office_later_def saveRuleSeverityAssignment_def saveCadenceRule_def saveProfileAssignment_def saveFieldPolicy_def
      createConfigBundle_def saveBundleAssignment_def map_sum_Inr split: if_splits)

lemma upsertVesselSyncStatus_later [later]: "upsertVesselSyncStatus pg v st = Inr st' \<Longrightarrow> office_later st st'"
  by (auto simp: upsertVesselSyncStatus_def office_later_def split: if_splits)

lemma replaceVesselUsers_later [later]: "replaceVesselUsers pg v us t st = Inr st' \<Longrightarrow> office_later st st'"
  by (auto simp: replaceVesselUsers_def office_later_def Let_def split: if_splits)

lemma credential_later [later]:
  "upsertVesselCredential pg c st = Inr st' \<Longrightarrow> office_later st st'"
  "office_later st (revokeVesselCredential pg v now st)"
  "office_later st (touchVesselCredentialLastUsed pg v now st)"
  by (auto simp: upsertVesselCredential_def revokeVesselCredential_def touchVesselCredentialLastUsed_def office_later_def
      split: if_splits)

text \<open>The handlers.\<close>

lemma updateVessel_later [later]:
  assumes "updateVessel pg vr st = Inr st'"
  shows "office_later st st'"
proof -
  have "map vrID (osVessels st') = map vrID (osVessels st)"
    using assms by (auto simp: updateVessel_def Let_def split: if_splits)
  then have "vrID ` set (osVessels st') = vrID ` set (osVessels st)" by (metis list.set_map)
  then show ?thesis using assms by (auto simp: updateVessel_def office_later_def Let_def split: if_splits)
qed

lemma fleet_later [later]:
  "createVessel pg vr st = Inr st' \<Longrightarrow> office_later st st'"
  "upsertEnrollment pg en st = Inr st' \<Longrightarrow> office_later st st'"
  "markReviewed pg now v i u st = Inr st' \<Longrightarrow> office_later st st'"
  by (auto simp: createVessel_def stored_vessel_def upsertEnrollment_def markReviewed_def office_later_def
      split: if_splits)

lemma attempt_later:
  assumes "\<And>st'. res = Inr st' \<Longrightarrow> office_later st st'" and "\<And>st'. res = Inr st' \<Longrightarrow> office_later st' (snd (k st'))"
  shows "office_later st (snd (attempt st res k))"
  using assms by (cases res) (auto intro: office_later_trans)

lemma office_cascade_step_later: "office_later st (snd (office_cascade_step env v res r st))"
  unfolding office_cascade_step_def by (auto split: option.split prod.split intro!: attempt_later intro: later)

lemma orunCascade_later [later]: "office_later st (snd (orunCascade env v sname st))"
proof (cases "office_verdict env v sname st")
  case (Inr result)
  have "office_later st (snd (for_each (office_cascade_step env v result) (office_chain (oeSorter env) v sname st) st))"
    by (rule for_each_inv[where P = "office_later st"]) (auto intro: office_later_trans office_cascade_step_later)
  with Inr show ?thesis by (simp add: orunCascade_def)
qed (simp add: orunCascade_def)

lemma land_payload_later [later]: "land_payload env v p st = Inr st' \<Longrightarrow> office_later st st'"
  by (auto simp: land_payload_def split: pbPayload.splits sum.splits intro: later office_later_trans)

lemma applyOutboxItem_later [later]: "office_later st (snd (applyOutboxItem env v item st))"
  by (auto simp: applyOutboxItem_def split: sum.split bool.split intro: later office_later_trans)

lemma pushOutbox_later [later]: "office_later st (snd (pushOutbox v items st))"
proof (induction v items st rule: pushOutbox.induct)
  case (2 v env item items st)
  obtain ack st1 where a: "applyOutboxItem env v item st = (ack, st1)" by fastforce
  obtain acks st2 where b: "pushOutbox v items st1 = (acks, st2)" by fastforce
  have "office_later st st1" "office_later st1 st2"
    using applyOutboxItem_later[of st env v item] "2.IH"[OF a[symmetric]] a b by simp_all
  then show ?case using a b by (auto intro: office_later_trans)
qed simp

lemma pull_commands_later: "office_later st (snd (pull_commands env rs st))"
proof (induction env rs st rule: pull_commands.induct)
  case (2 env r rs st)
  have "office_later st (snd (pull_commands env rs (markUserCommandFetched (oePg env) (oucID (srItem r)) (oeNow env) st)))"
    if "userCommandToWire (oePb env) (srItem r) = Inr c" for c
    using "2.IH"[OF that] by (rule office_later_trans[OF markUserCommandFetched_later])
  then show ?case by (auto split: sum.split intro: andthen_inv[where P = "office_later st"])
qed simp

lemma pullUserCommands_later: "office_later st (snd (pullUserCommands env v c st))"
  unfolding pullUserCommands_def Let_def
  by (rule andthen_inv[where P = "office_later st"]) (auto intro: pull_commands_later)

lemma pullInbox_later [later]: "office_later st (snd (pullInbox env v c st))"
  unfolding pullInbox_def Let_def
  by (auto split: sum.split prod.split intro!: andthen_inv[where P = "office_later st"] pullUserCommands_later)

lemma syncStatus_later [later]: "office_later st (snd (syncStatus env v req st))"
proof -
  have "office_later s (snd (attempt s (replaceVesselUsers pg v us t s) (\<lambda>st. (Inr (oeNow env), st))))" for s pg us t
    by (rule attempt_later) (auto intro: later)
  note tail = office_later_trans[OF markRestore_later(2) office_later_trans[OF markUserCommandsApplied_later this]]
  show ?thesis
    unfolding syncStatus_def Let_def by (rule attempt_later[OF upsertVesselSyncStatus_later tail])
qed

lemma authInterceptor_later [later]: "office_later st (snd (authInterceptor c h env header st))"
  by (auto simp: authInterceptor_def Let_def split: sum.split bool.split intro: later)

section \<open>Histories of the office\<close>

text \<open>
  Everything that happens to the tables modelled here: calls of vessels, what the office's own screens do, and a call that
  ends between landing an item and recording its receipt.  The protobuf library and the database are the same throughout.
\<close>

definition runs_on :: "('w, 'ts) pblib \<Rightarrow> pg \<Rightarrow> ('w, 'ts) officeEnv \<Rightarrow> bool" where
  "runs_on pb pg env \<longleftrightarrow> oePb env = pb \<and> oePg env = pg"

inductive office_step :: "('w, 'ts) pblib \<Rightarrow> pg \<Rightarrow> ostore \<Rightarrow> ostore \<Rightarrow> bool" for pb pg where
  push: "list_all (\<lambda>x. runs_on pb pg (fst x)) items \<Longrightarrow> office_step pb pg st (snd (pushOutbox v items st))"
| interrupted: "runs_on pb pg env \<Longrightarrow> land_payload env v payload st = Inr st' \<Longrightarrow> office_step pb pg st st'"
| pull: "runs_on pb pg env \<Longrightarrow> office_step pb pg st (snd (pullInbox env v c st))"
| check_in: "runs_on pb pg env \<Longrightarrow> office_step pb pg st (snd (syncStatus env v req st))"
| authentication: "runs_on pb pg env \<Longrightarrow> office_step pb pg st (snd (authInterceptor cr h env header st))"
| configuration: "config_step pg st st' \<Longrightarrow> office_step pb pg st st'"
| remarks: "office_step pb pg st (snd (insertRemarkSet pg v rs setID st))"
| resolution: "office_step pb pg st (setRemarkResolved pg now i b st)"
| chat: "oinsertChatMessage pg v m st = Inr st' \<Longrightarrow> office_step pb pg st st'"
| user_command: "queueUserCommand pg v uc st = Inr st' \<Longrightarrow> office_step pb pg st st'"
| restore_command: "queueRestoreCommand pg v rc st = Inr st' \<Longrightarrow> office_step pb pg st st'"
| fetch: "office_step pb pg st (markRestoreCommandFetched pg i now st)"
| schema_version: "createSchemaVersion pg sv st = Inr st' \<Longrightarrow> office_step pb pg st st'"
| credential: "upsertVesselCredential pg cred st = Inr st' \<Longrightarrow> office_step pb pg st st'"
| revocation: "office_step pb pg st (revokeVesselCredential pg v now st)"
| remarked: "updateReportVersionState v i n StateRemarked st = Inr st' \<Longrightarrow> office_step pb pg st st'"
| office_event: "appendReportAuditEvent pg v e t orig st = Inr st' \<Longrightarrow> office_step pb pg st st'"
| commercial: "upsertReportVersion pg v r ver t st = Inr st' \<Longrightarrow> office_step pb pg st st'"
| new_vessel: "createVessel pg vr st = Inr st' \<Longrightarrow> office_step pb pg st st'"
| vessel_profile: "updateVessel pg vr st = Inr st' \<Longrightarrow> office_step pb pg st st'"
| enrolment: "upsertEnrollment pg en st = Inr st' \<Longrightarrow> office_step pb pg st st'"
| review: "markReviewed pg now v i by_user st = Inr st' \<Longrightarrow> office_step pb pg st st'"

lemma office_step_later: "office_step pb pg st st' \<Longrightarrow> office_later st st'"
  by (induction rule: office_step.induct) (auto intro: later)

lemma office_steps_later: "(office_step pb pg)\<^sup>*\<^sup>* st st' \<Longrightarrow> office_later st st'"
  by (induction rule: rtranclp_induct) (auto intro: office_later_trans office_step_later)

section \<open>Receipts\<close>

definition received :: "string \<Rightarrow> ('w, 'ts) pbOutboxItem \<Rightarrow> ostore \<Rightarrow> bool" where
  "received v item st \<longleftrightarrow> find_row rc_key (osReceipts st) (v, piItemId item) \<noteq> None"

lemma received_later: "received v item st \<Longrightarrow> office_later st st' \<Longrightarrow> received v item st'"
  unfolding received_def office_later_def by blast

lemma applyOutboxItem_received:
  "received v item st \<Longrightarrow> pgText (oePg env) (piItemId item) \<Longrightarrow>
   applyOutboxItem env v item st = (accepted_ack (piItemId item), st)"
  by (simp add: applyOutboxItem_def hasOutboxReceipt_def received_def)

lemma ack_sel [simp]:
  "iaAccepted (accepted_ack i)" "\<not> iaAccepted (rejectedAck i e)" "iaItemId (accepted_ack i) = i" "iaItemId (rejectedAck i e) = i"
  by (simp_all add: accepted_ack_def rejectedAck_def)

lemma applyOutboxItem_accepted:
  assumes "applyOutboxItem env v item st = (ack, st')" and "iaAccepted ack"
  shows "received v item st'" and "pgText (oePg env) (piItemId item)"
proof -
  have "received v item st' \<and> pgText (oePg env) (piItemId item)"
    using assms receipts.look_put
    by (auto simp: applyOutboxItem_def hasOutboxReceipt_def received_def recordOutboxReceipt_def rc_key_def
        split: sum.splits bool.splits if_splits option.splits)
  then show "received v item st'" and "pgText (oePg env) (piItemId item)" by auto
qed

lemma pushOutbox_accepted:
  assumes "pushOutbox v items st = (acks, st')" and "((env, item), ack) \<in> set (zip items acks)" and "iaAccepted ack"
  shows "received v item st' \<and> pgText (oePg env) (piItemId item)"
  using assms
proof (induction v items st arbitrary: acks rule: pushOutbox.induct)
  case (2 v env' item' items st)
  obtain ack1 st1 where a: "applyOutboxItem env' v item' st = (ack1, st1)" by fastforce
  obtain acks1 where b: "pushOutbox v items st1 = (acks1, st')" and acks: "acks = ack1 # acks1"
    using "2.prems"(1) a by (auto split: prod.splits)
  have later: "office_later st1 st'" using pushOutbox_later[of st1 v items] b by simp
  show ?case
    using "2.prems"(2,3) acks "2.IH"[OF a[symmetric] b] applyOutboxItem_accepted[OF a] received_later[OF _ later] by auto
qed simp

lemma pushOutbox_received:
  "list_all (\<lambda>(env, item). received v item st \<and> pgText (oePg env) (piItemId item)) items \<Longrightarrow>
   pushOutbox v items st = (map (\<lambda>x. accepted_ack (piItemId (snd x))) items, st)"
  by (induction v items st rule: pushOutbox.induct) (auto simp: applyOutboxItem_received)

text \<open>A message that landed without its receipt: every later delivery violates the primary key of the messages.\<close>

definition chat_present :: "string \<Rightarrow> ostore \<Rightarrow> bool" where
  "chat_present i st \<longleftrightarrow> list_ex (\<lambda>r. cmID (srItem r) = i) (osChat st)"

lemma chat_present_later:
  assumes "chat_present i st" and "office_later st st'"
  shows "chat_present i st'"
proof -
  obtain us where "map (tag id) (osChat st') = map (tag id) (osChat st) @ us"
    using assms(2) by (auto simp: office_later_def grows_def)
  then have "set (map (tag id) (osChat st)) \<subseteq> set (map (tag id) (osChat st'))" by simp
  moreover have "chat_present i s \<longleftrightarrow> (\<exists>t \<in> set (map (tag id) (osChat s)). cmID (snd (snd t)) = i)" for s
    by (auto simp: chat_present_def list_ex_iff tag_def)
  ultimately show ?thesis using assms(1) by blast
qed

lemma landed_chat_present:
  "land_payload env v (PayloadChatMessage pm) st = Inr st' \<Longrightarrow> chat_present (pmId pm) st'"
  by (auto simp: land_payload_def oinsertChatMessage_def chat_present_def chatMessageToDomain_def split: if_splits)

lemma chat_rejected:
  assumes "chat_present (pmId pm) st" and "\<not> received v item st" and "piPayload item = PayloadChatMessage pm"
    and "pgText (oePg env) (piItemId item)"
  shows "applyOutboxItem env v item st = (rejectedAck (piItemId item) (SyncStore OErrStatement), st)"
  using assms
  by (simp add: applyOutboxItem_def hasOutboxReceipt_def received_def land_payload_def oinsertChatMessage_def
      chat_present_def chatMessageToDomain_def)

section \<open>Landed versions\<close>

text \<open>What a cascade may do to a landed row: invalidate it.\<close>

definition invalidated_row :: "landedVersion \<Rightarrow> landedVersion" where
  "invalidated_row l = l\<lparr>lvReport := (lvReport l)\<lparr>State := StateInvalidated\<rparr>\<rparr>"

definition may_invalidate :: "landedVersion list \<Rightarrow> landedVersion list \<Rightarrow> bool" where
  "may_invalidate rows rows' \<longleftrightarrow> list_all2 (\<lambda>l l'. l' = l \<or> l' = invalidated_row l) rows rows'"

lemma may_invalidate_refl [simp]: "may_invalidate rows rows"
  by (simp add: may_invalidate_def list_all2_same)

lemma invalidated_row_idem [simp]: "invalidated_row (invalidated_row l) = invalidated_row l"
  by (simp add: invalidated_row_def)

lemma may_invalidate_trans: "may_invalidate a b \<Longrightarrow> may_invalidate b c \<Longrightarrow> may_invalidate a c"
  unfolding may_invalidate_def
  by (rule list_all2_trans[where ?P1.0 = "\<lambda>l l'. l' = l \<or> l' = invalidated_row l"
        and ?P2.0 = "\<lambda>l l'. l' = l \<or> l' = invalidated_row l"]) auto

lemma invalidated_row_key [simp]: "lv_key (invalidated_row l) = lv_key l"
  by (simp add: invalidated_row_def lv_key_def)

lemma may_invalidate_find:
  assumes "may_invalidate rows rows'" and "find_row lv_key rows k = Some l"
  shows "find_row lv_key rows' k = Some l \<or> find_row lv_key rows' k = Some (invalidated_row l)"
  using assms unfolding may_invalidate_def by (induction rule: list_all2_induct) (auto simp: find_row_def split: if_splits)

lemma update_may_invalidate:
  "updateReportVersionState v i n StateInvalidated st = Inr st' \<Longrightarrow> may_invalidate (osVersions st) (osVersions st')"
  by (auto simp: updateReportVersionState_def may_invalidate_def list_all2_map2 invalidated_row_def intro!: list_all2_refl)

lemma office_cascade_step_rows: "may_invalidate (osVersions st) (osVersions (snd (office_cascade_step env v res r st)))"
proof -
  have notice: "osVersions st' = osVersions st" if "oinsertInvalidationNotice pg v i n rs t st = Inr st'" for pg i n rs t st st'
    using that by (auto simp: oinsertInvalidationNotice_def split: if_splits)
  have event: "osVersions st' = osVersions st" if "appendReportAuditEvent pg v e t orig st = Inr st'" for pg e t orig st st'
    using that by (auto simp: appendReportAuditEvent_def Let_def split: option.splits if_splits)
  have state: "State (fst (invalidate rules t r)) = StateInvalidated" for rules t by (simp add: invalidate_def Let_def)
  show ?thesis
    unfolding office_cascade_step_def
    by (auto split: option.split prod.split simp: attempt_def dest!: update_may_invalidate notice event split: sum.split)
      (metis state fst_conv update_may_invalidate)+
qed

lemma orunCascade_rows: "may_invalidate (osVersions st) (osVersions (snd (orunCascade env v sname st)))"
proof (cases "office_verdict env v sname st")
  case (Inr result)
  have "may_invalidate (osVersions st)
      (osVersions (snd (for_each (office_cascade_step env v result) (office_chain (oeSorter env) v sname st) st)))"
    by (rule for_each_inv[where P = "\<lambda>s. may_invalidate (osVersions st) (osVersions s)"])
      (auto intro: may_invalidate_trans office_cascade_step_rows)
  with Inr show ?thesis by (simp add: orunCascade_def)
qed (simp add: orunCascade_def)

text \<open>An accepted version is the row its message describes, unless the cascade has invalidated it since.\<close>

definition landed_row :: "pg \<Rightarrow> string \<Rightarrow> string \<Rightarrow> gotime \<Rightarrow> report \<Rightarrow> fields \<Rightarrow> landedVersion" where
  "landed_row pg v version now r fs =
     \<lparr>lvVesselID = v, lvReport = landed_report pg r fs, lvSchemaVersion = version, lvReceivedAt = pgTime pg now\<rparr>"

lemma landed_row_key [simp]: "lv_key (landed_row pg v version now r fs) = (v, ReportID r, VersionNo r)"
  by (simp add: landed_row_def lv_key_def landed_report_def)

lemma upsertReportVersion_InrD:
  "upsertReportVersion pg v r version now st = Inr st' \<Longrightarrow>
   \<exists>fs. pg_fields pg (Fields r) = Some fs \<and> st' = put_row (landed_row pg v version now r fs) st"
  by (auto simp: upsertReportVersion_def landed_row_def split: option.splits if_splits)

text \<open>The other payloads leave the landed versions alone.\<close>

lemma recordOutboxReceipt_versions: "recordOutboxReceipt pg v i n t st = Inr st' \<Longrightarrow> osVersions st' = osVersions st"
  by (auto simp: recordOutboxReceipt_def put_receipt_def split: if_splits)

lemma accepted_version:
  assumes "applyOutboxItem env v item st = (ack, st')" and "iaAccepted ack" and "\<not> received v item st"
    and "piPayload item = PayloadReportVersion pv" and "reportVersionToDomain (oePb env) pv = Inr r"
  obtains fs where "pg_fields (oePg env) (Fields r) = Some fs"
    and "may_invalidate (upsert_by lv_key (landed_row (oePg env) v (pvSchemaVersion pv) (oeNow env) r fs) (osVersions st))
           (osVersions st')"
proof -
  obtain st1 where up: "upsertReportVersion (oePg env) v r (pvSchemaVersion pv) (oeNow env) st = Inr st1"
    and rec: "recordOutboxReceipt (oePg env) v (piItemId item) (piSequenceNo item) (oeNow env)
        (snd (orunCascade env v (SchemaName r) st1)) = Inr st'"
    using assms by (auto simp: applyOutboxItem_def hasOutboxReceipt_def received_def land_payload_def
        split: sum.splits bool.splits if_splits)
  from upsertReportVersion_InrD[OF up] obtain fs where fs: "pg_fields (oePg env) (Fields r) = Some fs"
    and st1: "st1 = put_row (landed_row (oePg env) v (pvSchemaVersion pv) (oeNow env) r fs) st" by blast
  have "may_invalidate (osVersions st1) (osVersions st')"
    using orunCascade_rows[of st1 env v "SchemaName r"] recordOutboxReceipt_versions[OF rec] by simp
  then show ?thesis using that[OF fs] by (simp add: st1 put_row_def)
qed

section \<open>Streams deliver every row once\<close>

definition pulled :: "(string \<Rightarrow> 'i \<Rightarrow> bool) \<Rightarrow> ('a \<Rightarrow> 'i) \<Rightarrow> int \<Rightarrow> 'a streamRow list \<Rightarrow> 'a streamRow list" where
  "pulled P ident c rows = sort_key srSeq (filter (\<lambda>r. P (srVesselID r) (ident (srItem r)) \<and> srSeq r > c) rows)"

fun pulls :: "(string \<Rightarrow> 'i \<Rightarrow> bool) \<Rightarrow> ('a \<Rightarrow> 'i) \<Rightarrow> int \<Rightarrow> 'a streamRow list list \<Rightarrow> 'a streamRow list" where
  "pulls P ident c [] = []"
| "pulls P ident c (rows # rest) =
     (let out = pulled P ident c rows in out @ pulls P ident (next_cursor c out) rest)"

lemma sorted_stream: "stream_wf rows n \<Longrightarrow> sorted_wrt (\<lambda>a b. srSeq a < srSeq b) rows"
  by (simp add: stream_wf_def ids_ok_def sorted_wrt_map)

lemma pulled_filter:
  assumes "stream_wf rows n"
  shows "pulled P ident c rows = filter (\<lambda>r. P (srVesselID r) (ident (srItem r)) \<and> srSeq r > c) rows"
proof -
  have "sorted_wrt (\<lambda>a b. srSeq a < srSeq b) (filter Q rows)" for Q
    using sorted_stream[OF assms] by (rule sorted_wrt_filter)
  then have "sorted (map srSeq (filter Q rows))" for Q
    by (simp add: sorted_wrt_map sorted_wrt_mono_rel[where P = "\<lambda>a b. srSeq a < srSeq b"])
  then show ?thesis unfolding pulled_def by (rule sort_key_id_if_sorted)
qed

lemma next_cursor_Cons: "next_cursor c (r # rows) = next_cursor (if srSeq r > c then srSeq r else c) rows"
  by (simp add: next_cursor_def)

lemma next_cursor_ge: "c \<le> next_cursor c rows" "r \<in> set rows \<Longrightarrow> srSeq r \<le> next_cursor c rows"
proof -
  have "c \<le> next_cursor c rows \<and> (\<forall>r \<in> set rows. srSeq r \<le> next_cursor c rows)"
  proof (induction rows arbitrary: c)
    case (Cons x rows)
    from Cons.IH[of "if srSeq x > c then srSeq x else c"] show ?case
      unfolding next_cursor_Cons by (auto split: if_splits)
  qed (simp add: next_cursor_def)
  then show "c \<le> next_cursor c rows" "r \<in> set rows \<Longrightarrow> srSeq r \<le> next_cursor c rows" by auto
qed

lemma next_cursor_in: "next_cursor c rows = c \<or> next_cursor c rows \<in> srSeq ` set rows"
proof (induction rows arbitrary: c)
  case (Cons x rows)
  from Cons.IH[of "if srSeq x > c then srSeq x else c"] show ?case
    unfolding next_cursor_Cons by (auto split: if_splits)
qed (simp add: next_cursor_def)

lemma pulled_tags:
  assumes "stream_wf rows n"
  shows "map (tag ident) (pulled P ident c rows) = filter (\<lambda>(m, v, i). P v i \<and> m > c) (map (tag ident) rows)"
  unfolding pulled_filter[OF assms] by (induction rows) (auto simp: tag_def)

text \<open>A pull with the cursor of the one before continues where that stopped.\<close>

lemma pulled_again:
  assumes "stream_wf rows n" and g: "grows ident rows n rows' n'"
  shows "map (tag ident) (pulled P ident c rows) @ map (tag ident) (pulled P ident (next_cursor c (pulled P ident c rows)) rows') =
    map (tag ident) (pulled P ident c rows')"
proof -
  let ?c' = "next_cursor c (pulled P ident c rows)" and ?T = "\<lambda>c ts. filter (\<lambda>(m, v, i). P v i \<and> m > c) ts"
  obtain us where us: "map (tag ident) rows' = map (tag ident) rows @ us" "\<forall>u \<in> set us. n \<le> fst u"
    using g by (auto simp: grows_def)
  have old: "?T ?c' (map (tag ident) rows) = []"
  proof (rule ccontr)
    assume "?T ?c' (map (tag ident) rows) \<noteq> []"
    then obtain r where r: "r \<in> set rows" "P (srVesselID r) (ident (srItem r))" "srSeq r > ?c'"
      by (auto simp: filter_empty_conv tag_def)
    then have "r \<in> set (pulled P ident c rows)"
      using next_cursor_ge(1)[of c "pulled P ident c rows"] by (auto simp: pulled_filter[OF assms(1)])
    with r(3) next_cursor_ge(2)[of r "pulled P ident c rows" c] show False by simp
  qed
  have "?c' = c \<or> c \<le> ?c' \<and> ?c' < n"
    using next_cursor_in[of c "pulled P ident c rows"] next_cursor_ge(1)[of c "pulled P ident c rows"] assms(1)
    by (auto simp: pulled_filter[OF assms(1)] stream_wf_def ids_ok_def)
  then have new: "?T ?c' us = ?T c us" using us(2) by (auto intro!: filter_cong)
  show ?thesis
    using old new by (simp add: pulled_tags[OF assms(1)] pulled_tags[OF stream_wf_grows[OF assms]] us(1))
qed

locale stream =
  fixes rows :: "'s \<Rightarrow> 'a streamRow list"
    and counter :: "'s \<Rightarrow> int"
    and ident :: "'a \<Rightarrow> 'i"
    and later :: "'s \<Rightarrow> 's \<Rightarrow> bool"
    and wf :: "'s \<Rightarrow> bool"
  assumes later_grows: "later s s' \<Longrightarrow> grows ident (rows s) (counter s) (rows s') (counter s')"
    and wf_stream: "wf s \<Longrightarrow> stream_wf (rows s) (counter s)"
begin

text \<open>However pulls are spread over the history of a table, they deliver what one pull at the end would.\<close>

lemma pulls_deliver_once:
  assumes "sorted_wrt later ss" and "\<forall>s \<in> set ss. wf s" and "ss \<noteq> []"
  shows "map (tag ident) (pulls P ident c (map rows ss)) = map (tag ident) (pulled P ident c (rows (last ss)))"
  using assms
proof (induction ss arbitrary: c)
  case (Cons s ss)
  show ?case
  proof (cases "ss = []")
    case False
    then have "later s (last ss)" and "wf s" using Cons.prems by auto
    from pulled_again[OF wf_stream[OF this(2)] later_grows[OF this(1)]] False show ?thesis
      using Cons by (simp add: Let_def)
  qed (simp add: Let_def)
qed simp

lemma pulled_distinct:
  assumes "wf s"
  shows "distinct (map srSeq (pulled P ident c (rows s)))"
proof -
  have "distinct (map srSeq (rows s))" using wf_stream[OF assms] by (simp add: stream_wf_def ids_ok_distinct)
  then show ?thesis by (simp add: pulled_filter[OF wf_stream[OF assms]] distinct_map_filter)
qed

end

interpretation chat: stream osChat osNextChat id office_later streams_wf
  by unfold_locales (auto simp: office_later_def streams_wf_def)

interpretation notices: stream osNotices osNextNotice id office_later streams_wf
  by unfold_locales (auto simp: office_later_def streams_wf_def)

interpretation remarks: stream osRemarks osNextRemark "\<lambda>r. rmID (rrRemark r)" office_later streams_wf
  by unfold_locales (auto simp: office_later_def streams_wf_def)

interpretation commands: stream osCommands osNextCommand oucID office_later streams_wf
  by unfold_locales (auto simp: office_later_def streams_wf_def)

interpretation restores: stream osRestores osNextRestore rsoID office_later streams_wf
  by unfold_locales (auto simp: office_later_def streams_wf_def)

interpretation schemas: stream osSchemaVersions osNextSchemaVersion id office_later streams_wf
  by unfold_locales (auto simp: office_later_def streams_wf_def)

text \<open>What a vessel receives over a sequence of pulls.\<close>

fun session :: "(int \<Rightarrow> ostore \<Rightarrow> 'm list \<times> int) \<Rightarrow> int \<Rightarrow> ostore list \<Rightarrow> 'm list" where
  "session pull c [] = []"
| "session pull c (st # sts) = (case pull c st of (out, c) \<Rightarrow> out @ session pull c sts)"

lemma session_pulls:
  assumes "\<And>c st. pull c st = (let items = pulled P ident c (rows st) in (map f items, next_cursor c items))"
  shows "session pull c sts = map f (pulls P ident c (map rows sts))"
  by (induction sts arbitrary: c) (simp_all add: assms Let_def)

lemma pull_chat_pulled:
  "pullChatMessages env v c st =
   (let items = pulled (\<lambda>w m. w = v \<and> cmDirection m = ChatFromOffice) id c (osChat st)
    in (map (\<lambda>r. chatMessageFromDomain (oePb env) (srItem r)) items, next_cursor c items))"
  by (simp add: pullChatMessages_def listChatMessagesSince_def since_def pulled_def conj_ac)

lemma pull_notices_pulled:
  "pullInvalidationNotices env v c st =
   (let items = pulled (\<lambda>w n. w = v) id c (osNotices st)
    in (map (\<lambda>r. invalidationNoticeFromDomain (oePb env) (srItem r)) items, next_cursor c items))"
  by (simp add: pullInvalidationNotices_def listInvalidationNoticesSince_def since_def pulled_def)

lemma pull_remarks_pulled:
  "pullRemarks env v c st =
   (let items = pulled (\<lambda>w i. w = v) (\<lambda>r. rmID (rrRemark r)) c (osRemarks st)
    in (map (\<lambda>r. remarkFromDomain (oePb env) (rrRemark (srItem r))) items, next_cursor c items))"
  by (simp add: pullRemarks_def listRemarksSince_def since_def pulled_def)

lemma map_tag_cong:
  assumes "map (tag ident) xs = map (tag ident) ys" and "\<And>r. g r = f (ident (srItem r))"
  shows "map g xs = map g ys"
proof -
  have "map g zs = map (\<lambda>t. f (snd (snd t))) (map (tag ident) zs)" for zs
    by (simp add: tag_def assms(2))
  then show ?thesis by (simp only: assms(1))
qed

text \<open>Chat messages and notices never change, so they arrive as they are; a remark can be resolved after its delivery.\<close>

lemma session_chat:
  assumes "sorted_wrt office_later sts" and "\<forall>st \<in> set sts. streams_wf st" and "sts \<noteq> []"
  shows "session (pullChatMessages env v) c sts = fst (pullChatMessages env v c (last sts))"
  unfolding session_pulls[OF pull_chat_pulled] pull_chat_pulled Let_def fst_conv
  by (rule map_tag_cong[OF chat.pulls_deliver_once[OF assms], where f = "chatMessageFromDomain (oePb env)"]) simp

lemma session_notices:
  assumes "sorted_wrt office_later sts" and "\<forall>st \<in> set sts. streams_wf st" and "sts \<noteq> []"
  shows "session (pullInvalidationNotices env v) c sts = fst (pullInvalidationNotices env v c (last sts))"
  unfolding session_pulls[OF pull_notices_pulled] pull_notices_pulled Let_def fst_conv
  by (rule map_tag_cong[OF notices.pulls_deliver_once[OF assms], where f = "invalidationNoticeFromDomain (oePb env)"]) simp

lemma session_remarks:
  assumes "sorted_wrt office_later sts" and "\<forall>st \<in> set sts. streams_wf st" and "sts \<noteq> []"
  shows "map prId (session (pullRemarks env v) c sts) = map prId (fst (pullRemarks env v c (last sts)))"
  unfolding session_pulls[OF pull_remarks_pulled] pull_remarks_pulled Let_def fst_conv map_map
  by (rule map_tag_cong[OF remarks.pulls_deliver_once[OF assms], where f = "\<lambda>i. i"]) (simp add: remarkFromDomain_def)

section \<open>Check-ins, bundles and credentials\<close>

lemma syncStatus_InrD:
  assumes "syncStatus env v req st = (Inr t, st')"
  shows "osCommands st' = map (\<lambda>x. if srVesselID x = v \<and> oucID (srItem x) \<in> set (srqAppliedUserCommandIds req)
           then x\<lparr>srItem := (srItem x)\<lparr>oucAppliedAt := Some (pgTime (oePg env) (oeNow env)), oucTemporaryPassword := ''''\<rparr>\<rparr>
           else x) (osCommands st)"
    and "map roUsername (listVesselUsers v st') = sort (map vsuUsername (srqUsers req))"
    and "w \<noteq> v \<Longrightarrow> listVesselUsers w st' = listVesselUsers w st"
    and "\<exists>s. getVesselSyncStatus v st' = Inr s \<and> ssAppliedBundleVersion s = srqAppliedBundleVersion req"
proof -
  let ?pg = "oePg env" and ?t = "pgTime (oePg env) (oeNow env)"
  obtain st1 where st1: "upsertVesselSyncStatus ?pg \<lparr>ssVesselID = v, ssAppVersion = srqAppVersion req,
         ssLastSeenAt = oeNow env, ssAppliedBundleID = srqAppliedBundleId req,
         ssAppliedBundleVersion = srqAppliedBundleVersion req\<rparr> st = Inr st1"
    using assms by (auto simp: syncStatus_def attempt_def split: sum.splits)
  define st2 where "st2 = markRestoreCommandsApplied ?pg v (srqAppliedRestoreCommandIds req) (oeNow env) st1"
  define st3 where "st3 = markUserCommandsApplied ?pg v (srqAppliedUserCommandIds req) (oeNow env) st2"
  have st4: "replaceVesselUsers ?pg v (roster_rows (srqUsers req)) (oeNow env) st3 = Inr st'"
    using assms unfolding syncStatus_def st1 st2_def st3_def by (auto simp: attempt_def Let_def split: sum.splits)
  have frame2: "osCommands st2 = osCommands st" "osRoster st2 = osRoster st" "osSyncStatus st2 = osSyncStatus st1"
    using st1 by (auto simp: st2_def markRestoreCommandsApplied_def map_restores_def upsertVesselSyncStatus_def split: if_splits)
  have frame3: "osRoster st3 = osRoster st" "osSyncStatus st3 = osSyncStatus st1"
    by (auto simp: st3_def markUserCommandsApplied_def map_commands_def frame2)
  have frame4: "osCommands st' = osCommands st3" "osSyncStatus st' = osSyncStatus st3"
    using st4 by (auto simp: replaceVesselUsers_def Let_def split: if_splits)
  show "osCommands st' = map (\<lambda>x. if srVesselID x = v \<and> oucID (srItem x) \<in> set (srqAppliedUserCommandIds req)
           then x\<lparr>srItem := (srItem x)\<lparr>oucAppliedAt := Some ?t, oucTemporaryPassword := ''''\<rparr>\<rparr> else x) (osCommands st)"
    unfolding frame4 st3_def by (simp add: markUserCommandsApplied_def map_commands_def frame2 map_idI)
  have "osSyncStatus st' = upsert_by ssVesselID \<lparr>ssVesselID = v, ssAppVersion = srqAppVersion req,
         ssLastSeenAt = ?t, ssAppliedBundleID = srqAppliedBundleId req,
         ssAppliedBundleVersion = srqAppliedBundleVersion req\<rparr> (osSyncStatus st)"
    using st1 unfolding frame4 frame3 by (auto simp: upsertVesselSyncStatus_def split: if_splits)
  then show "\<exists>s. getVesselSyncStatus v st' = Inr s \<and> ssAppliedBundleVersion s = srqAppliedBundleVersion req"
    by (simp add: getVesselSyncStatus_def find_row_upsert_by)
  obtain rows where roster: "osRoster st' = filter (\<lambda>r. roVesselID r \<noteq> v) (osRoster st) @ rows"
    and rows: "\<forall>r \<in> set rows. roVesselID r = v" "map roUsername rows = map vsuUsername (srqUsers req)"
    using st4 by (auto simp: replaceVesselUsers_def roster_rows_def Let_def frame3 o_def split: if_splits)
  have mine: "filter (\<lambda>r. roVesselID r = v) (osRoster st') = rows"
    using rows(1) by (simp add: roster filter_empty_conv)
  have "map roUsername (sort_key roUsername rows) = sort (map roUsername rows)"
    using map_sort_key[of roUsername "\<lambda>x. x" rows] by simp
  then show "map roUsername (listVesselUsers v st') = sort (map vsuUsername (srqUsers req))"
    unfolding listVesselUsers_def mine rows(2) .
  show "listVesselUsers w st' = listVesselUsers w st" if "w \<noteq> v"
  proof -
    have "filter (\<lambda>r. roVesselID r = w) rows = []" using rows(1) that by (auto simp: filter_empty_conv)
    then show ?thesis using that by (simp add: listVesselUsers_def roster) (metis (mono_tags, lifting) filter_cong)
  qed
qed

text \<open>The bundle delivered is the resolution, for this vessel, of the one assigned to it.\<close>

lemma pullAssignedBundle_InrD:
  assumes "pullAssignedBundle env v c st = Inr (pb # pbs, n)"
  obtains vessel as a b where "getVessel v st = Inr vessel" and "listBundleAssignments (oeOrdAssignments env) st = Inr as"
    and "resolve as v (vrGroups vessel) = Some a" and "getConfigBundle (baBundleID a) st = Inr b"
    and "pbcContent pb = resolveFor b v (vrGroups vessel) n" and "c < n" and "pbs = []"
  using assms by (auto simp: pullAssignedBundle_def split: sum.splits option.splits if_splits)

lemma find_row_only:
  assumes "x \<in> set rows" and "\<And>y. y \<in> set rows \<Longrightarrow> key y = k \<Longrightarrow> y = x" and "key x = k"
  shows "find_row key rows k = Some x"
proof (cases "find_row key rows k")
  case None
  with assms(1,3) show ?thesis by (force simp: find_row_None_iff)
next
  case (Some y)
  with find_row_SomeD[OF this] assms(2) show ?thesis by blast
qed

text \<open>A token admits its vessel until the credential is revoked.\<close>

lemma authInterceptor_InrD:
  assumes "authInterceptor c h env header st = (Inr v, st')"
  shows "\<exists>cred \<in> set (osCredentials st). cdVesselID cred = v \<and> cdRevokedAt cred = None \<and>
    verifyPassword c (bearerToken header) (cdTokenHash cred) = Inr True"
  using assms
  by (auto simp: authInterceptor_def Let_def getVesselCredentialByLookupHash_def credential_verify_def
      split: if_splits sum.splits option.splits bool.splits dest!: find_row_SomeD)

lemma revoked_all:
  assumes "cred \<in> set (osCredentials (revokeVesselCredential pg v now st))" and "cdVesselID cred = v"
  shows "cdRevokedAt cred \<noteq> None"
proof -
  let ?f = "\<lambda>c. if cdVesselID c = v \<and> cdRevokedAt c = None then c\<lparr>cdRevokedAt := Some (pgTime pg now)\<rparr> else c"
  have "cred \<in> ?f ` set (osCredentials st)" using assms(1) unfolding revokeVesselCredential_def by simp
  then obtain x where "cred = ?f x" by (rule imageE)
  with assms(2) show ?thesis by (cases "cdVesselID x = v \<and> cdRevokedAt x = None") auto
qed

lemma minted_authenticates:
  assumes "crypto_ok c" and "mint c h t (Some token) v = Inr (cred, token)" and "upsertVesselCredential pg cred st = Inr st'"
    and "trim_space token = token" and "token \<noteq> ''''" and "distinct (map cdVesselID (osCredentials st))"
    and "cdTokenHash cred \<noteq> ''''"
  shows "fst (authInterceptor c h env (bearer_prefix @ token) st') = Inr v"
proof -
  obtain hash where hash: "hashPassword c token = Inr hash"
      "cred = \<lparr>cdVesselID = v, cdTokenHash = hash, cdTokenLookupHash = h token, cdIssuedAt = t, cdRevokedAt = None, cdLastUsedAt = None\<rparr>"
    using assms(2) by (auto simp: mint_def split: if_splits sum.splits)
  let ?cred = "cred\<lparr>cdIssuedAt := pgTime pg t\<rparr>"
  have st': "st' = st\<lparr>osCredentials := upsert_by cdVesselID ?cred (osCredentials st)\<rparr>"
    and other: "\<And>x. x \<in> set (osCredentials st) \<Longrightarrow> cdTokenLookupHash x = h token \<Longrightarrow> cdVesselID x = v"
    using assms(3) by (auto simp: upsertVesselCredential_def hash(2) list_ex_iff split: if_splits)
  have "bearerToken (bearer_prefix @ token) = token"
    using assms(4) by (simp add: bearerToken_def starts_with_def)
  moreover have "find_row cdTokenLookupHash (upsert_by cdVesselID ?cred (osCredentials st)) (h token) = Some ?cred"
  proof -
    let ?rows = "upsert_by cdVesselID ?cred (osCredentials st)"
    have "find_row cdVesselID ?rows v = Some ?cred" by (simp add: find_row_upsert_by hash(2))
    then have "?cred \<in> set ?rows" by (auto dest: find_row_SomeD)
    moreover have "x = ?cred" if "x \<in> set ?rows" "cdTokenLookupHash x = h token" for x
      using that other by (auto simp: upsert_by_def hash(2) list_ex_iff split: if_splits)
    ultimately show ?thesis by (rule find_row_only) (simp_all add: hash(2))
  qed
  moreover have "verifyPassword c token hash = Inr True" using assms(1) hash(1) by (rule verify_hash)
  ultimately show ?thesis
    using assms(5,7)
    by (simp add: authInterceptor_def getVesselCredentialByLookupHash_def credential_verify_def st' hash(2))
qed

end
