(* ===== verification/OfficeAgreement.thy ===== *)
theory OfficeAgreement
  imports OfficeSync VesselReports
begin

text \<open>
  The two ends of the sync protocol together: a vessel that has pushed its committed versions and runs the bundle the office
  resolved for it, and the office's landed rows (\<open>runCascade\<close> of \<open>vessel/httpapi/reports.go\<close> and of
  \<open>office/syncservice/cascade.go\<close>).

  Lemmas: a nil field map is as good as an empty one for the continuity rules; a push keeps the landed rows accurate and
  completes them; accurate and complete rows give the same chain and, with the same severities, the same verdict.
\<close>

section \<open>Nil and empty field maps\<close>

definition normal :: "vreport \<Rightarrow> vreport" where
  "normal r = r\<lparr>vFields := Some (case vFields r of None \<Rightarrow> [] | Some m \<Rightarrow> m)\<rparr>"

lemma normal_sel [simp]:
  "vReportID (normal r) = vReportID r" "vVersionNo (normal r) = vVersionNo r" "vSchemaName (normal r) = vSchemaName r"
  "vEventType (normal r) = vEventType r" "vEventTime (normal r) = vEventTime r"
  by (simp_all add: normal_def)

lemma r_Float_normal [simp]: "r_Float (normal r) name = r_Float r name"
  by (simp add: r_Float_def normal_def field_get_def split: option.split)

lemma evaluateTimeChain_normal [simp]: "evaluateTimeChain (normal r) (map_option normal prev) cfg = evaluateTimeChain r prev cfg"
  by (simp add: evaluateTimeChain_def split: option.split)

lemma consumption_normal [simp]: "consumption_of (normal r) fs = consumption_of r fs"
  by (simp add: consumption_of_def)

lemma rob_series_normal [simp]: "rob_series_findings (normal r) (normal pr) cfg s = rob_series_findings r pr cfg s"
  by (simp add: rob_series_findings_def split: option.split)

lemma evaluateROB_normal [simp]:
  "evaluateROBContinuity (normal r) (map_option normal prev) cfg = evaluateROBContinuity r prev cfg"
  by (cases prev) (simp_all add: evaluateROBContinuity_def cong: map_cong)

lemma neighbour_pass_normal: "neighbour_pass cfg (map_option normal prev) (map normal rs) m = neighbour_pass cfg prev rs m"
proof (induction rs arbitrary: prev m)
  case (Cons r rs)
  note ih = Cons.IH[of "Some r", simplified]
  show ?case by (simp add: Let_def ih)
qed simp

lemma ordering_finding_normal [simp]: "ordering_finding cfg g (normal r) = ordering_finding cfg g r"
  by (simp add: ordering_finding_def)

lemma ordering_pass_normal: "ordering_pass cfg g l (map normal chain) out = ordering_pass cfg g l chain out"
  by (induction chain arbitrary: l out) (simp_all add: Let_def)

lemma evaluateEventOrdering_normal: "evaluateEventOrdering (map normal chain) cfg = evaluateEventOrdering chain cfg"
  by (simp add: evaluateEventOrdering_def ordering_pass_normal)

lemma gm_update_map: "gm_update k (f v) (map (\<lambda>(k, v). (k, f v)) m) = map (\<lambda>(k, v). (k, f v)) (gm_update k v m)"
  by (induction k v m rule: gm_update.induct) auto

lemma by_minute_normal: "by_minute (map normal chain) = map (\<lambda>(k, rs). (k, map normal rs)) (by_minute chain)"
proof -
  let ?f = "map (\<lambda>(k, rs). (k, map normal rs))"
  have l: "gm_list (?f m) k = map normal (gm_list m k)" for m :: "(int, vreport list) gomap" and k
    by (simp add: gm_list_def map_of_map split: option.split)
  have a: "gm_append (minute_key (normal r)) (normal r) (?f m) = ?f (gm_append (minute_key r) r m)" for r m
    using gm_update_map[of "minute_key r" "map normal" "gm_list m (minute_key r) @ [r]" m]
    by (simp add: gm_append_def l minute_key_def)
  have "fold (\<lambda>r m. gm_append (minute_key r) r m) (map normal chain) (?f m) =
      ?f (fold (\<lambda>r m. gm_append (minute_key r) r m) chain m)" for m
    by (induction chain arbitrary: m) (simp_all add: a)
  from this[of "[]"] show ?thesis by (simp add: by_minute_def)
qed

lemma uniqueness_normal: "evaluateTimestampUniqueness (map normal chain) cfg = evaluateTimestampUniqueness chain cfg"
proof -
  let ?g = "\<lambda>r out. gm_append (vReportID r) (uniqueness_finding cfg r) out"
  have finding: "uniqueness_finding cfg (normal r) = uniqueness_finding cfg r" for r by (simp add: uniqueness_finding_def)
  have inner: "fold ?g (map normal rs) out = fold ?g rs out" for rs out
    by (induction rs arbitrary: out) (simp_all add: finding)
  have "uniqueness_buckets cfg (map (\<lambda>(k, rs). (k, map normal rs)) bs) = uniqueness_buckets cfg bs" for bs
  proof -
    let ?b = "\<lambda>(key :: int, reports) out. if length reports < 2 then out else fold ?g reports out"
    have "fold ?b (map (\<lambda>(k, rs). (k, map normal rs)) bs) out = fold ?b bs out" for out
      by (induction bs arbitrary: out) (auto simp: inner)
    then show ?thesis by (simp add: uniqueness_buckets_def)
  qed
  then show ?thesis by (simp add: evaluateTimestampUniqueness_def by_minute_normal)
qed

lemma revalidate_normal:
  assumes "slice_sort p"
  shows "revalidate p (map normal chain) cfg = revalidate p chain cfg"
proof -
  have "set (p (map vEventTime chain)) \<subseteq> {0..<length chain}"
    using slice_sort.permutes[OF assms, of "map vEventTime chain"] by (metis length_map mset_eq_setD set_upt order_refl)
  then have "sort_slice p vEventTime (map normal chain) = map normal (sort_slice p vEventTime chain)"
    by (auto simp: sort_slice_def o_def)
  then show ?thesis
    using neighbour_pass_normal[where prev = None]
    by (simp add: revalidate_def Let_def evaluateEventOrdering_normal uniqueness_normal)
qed

section \<open>The chain of both ends\<close>

definition core :: "report \<Rightarrow> vreport" where
  "core r = normal (toValidation r)"

lemma core_sel [simp]:
  "vReportID (core r) = ReportID r" "vVersionNo (core r) = VersionNo r" "vSchemaName (core r) = SchemaName r"
  "vEventTime (core r) = EventTime r"
  by (simp_all add: core_def toValidation_def)

definition committed :: "'b vstore \<Rightarrow> report list" where
  "committed st = filter (\<lambda>r. inChain (State r)) (vsReports st)"

text \<open>Every landed row of the vessel describes a committed version, and every committed version has a row.\<close>

definition accurate :: "string \<Rightarrow> 'b vstore \<Rightarrow> landedVersion list \<Rightarrow> bool" where
  "accurate v st rows \<longleftrightarrow> distinct (map lv_key rows) \<and>
     (\<forall>l \<in> set rows. lvVesselID l = v \<longrightarrow> inChain (State (lvReport l)) \<and> core (lvReport l) \<in> core ` set (committed st))"

definition has_version :: "string \<Rightarrow> report \<Rightarrow> landedVersion list \<Rightarrow> bool" where
  "has_version v r rows \<longleftrightarrow> (\<exists>l \<in> set rows. lvVesselID l = v \<and> core (lvReport l) = core r)"

definition mirrors :: "string \<Rightarrow> 'b vstore \<Rightarrow> ostore \<Rightarrow> bool" where
  "mirrors v st ost \<longleftrightarrow> accurate v st (osVersions ost) \<and> (\<forall>r \<in> set (committed st). has_version v r (osVersions ost))"

definition one_schema :: "'b vstore \<Rightarrow> bool" where
  "one_schema st \<longleftrightarrow> (\<forall>a \<in> set (committed st). \<forall>b \<in> set (committed st). ReportID a = ReportID b \<longrightarrow> SchemaName a = SchemaName b)"

lemma mirrors_cores:
  assumes "mirrors v st ost"
  shows "core ` set (vessel_reports v ost) = core ` set (committed st)"
  using assms by (fastforce simp: mirrors_def accurate_def has_version_def vessel_reports_def image_iff)

definition latest_cores :: "string \<Rightarrow> vreport set \<Rightarrow> vreport set" where
  "latest_cores sname C =
     {c \<in> C. vSchemaName c = sname \<and> (\<forall>x \<in> C. vReportID x = vReportID c \<longrightarrow> vVersionNo x \<le> vVersionNo c)}"

lemma latest_cores_image:
  "core ` {r \<in> R. SchemaName r = sname \<and> (\<forall>x \<in> R. ReportID x = ReportID r \<longrightarrow> VersionNo x \<le> VersionNo r)} =
   latest_cores sname (core ` R)"
  by (auto simp: latest_cores_def)

lemma vessel_chain_cores:
  assumes "slice_sort p"
  shows "core ` set (listCommittedChain p sname st) = latest_cores sname (core ` set (committed st))"
  unfolding latest_cores_image[symmetric]
  by (rule arg_cong[where f = "(`) core"])
    (auto simp: slice_sort.set_listCommittedChain[OF assms] committed_def is_latest_committed_def is_latest_def list_all_iff)

lemma office_chain_cores:
  assumes "slice_sort p" and "mirrors v st ost" and "one_schema st"
  shows "core ` set (office_chain p v sname ost) = latest_cores sname (core ` set (committed st))"
proof -
  let ?R = "set (vessel_reports v ost)"
  have schema: "SchemaName a = SchemaName b" if "a \<in> ?R" "b \<in> ?R" "ReportID a = ReportID b" for a b
  proof -
    have "core a \<in> core ` set (committed st)" "core b \<in> core ` set (committed st)"
      using mirrors_cores[OF assms(2)] that(1,2) by blast+
    then obtain a' b' where h: "a' \<in> set (committed st)" "core a = core a'" "b' \<in> set (committed st)" "core b = core b'"
      by blast
    have ids: "ReportID a = ReportID a'" "SchemaName a = SchemaName a'" "ReportID b = ReportID b'" "SchemaName b = SchemaName b'"
      using arg_cong[OF h(2), of vReportID] arg_cong[OF h(2), of vSchemaName] arg_cong[OF h(4), of vReportID]
        arg_cong[OF h(4), of vSchemaName] by simp_all
    have "ReportID a' = ReportID b' \<Longrightarrow> SchemaName a' = SchemaName b'"
      using assms(3) h(1,3) unfolding one_schema_def by blast
    then show ?thesis using ids that(3) by metis
  qed
  have inchain: "inChain (State r)" if "r \<in> ?R" for r
    using assms(2) that by (auto simp: mirrors_def accurate_def vessel_reports_def)
  have latest: "(\<forall>x \<in> ?R. SchemaName x = sname \<longrightarrow> ReportID x = ReportID r \<longrightarrow> VersionNo x \<le> VersionNo r) =
      (\<forall>x \<in> ?R. ReportID x = ReportID r \<longrightarrow> VersionNo x \<le> VersionNo r)" if "r \<in> ?R" "SchemaName r = sname" for r
  proof (intro ball_cong refl iffI impI)
    fix x
    assume "x \<in> ?R" and h: "SchemaName x = sname \<longrightarrow> ReportID x = ReportID r \<longrightarrow> VersionNo x \<le> VersionNo r" and i: "ReportID x = ReportID r"
    from schema[OF \<open>x \<in> ?R\<close> that(1) i] have "SchemaName x = sname" using that(2) by simp
    with h i show "VersionNo x \<le> VersionNo r" by blast
  qed blast
  have "set (office_chain p v sname ost) = {r \<in> ?R. inChain (State r) \<and> SchemaName r = sname \<and>
      (\<forall>x \<in> ?R. SchemaName x = sname \<longrightarrow> ReportID x = ReportID r \<longrightarrow> VersionNo x \<le> VersionNo r)}"
    by (auto simp: office_chain_def olistChain_def ochain_rows_def Let_def is_latest_def list_all_iff
        slice_sort.set_sort_slice[OF assms(1)])
  also have "\<dots> = {r \<in> ?R. SchemaName r = sname \<and> (\<forall>x \<in> ?R. ReportID x = ReportID r \<longrightarrow> VersionNo x \<le> VersionNo r)}"
    using inchain latest by blast
  finally have "set (office_chain p v sname ost) =
      {r \<in> ?R. SchemaName r = sname \<and> (\<forall>x \<in> ?R. ReportID x = ReportID r \<longrightarrow> VersionNo x \<le> VersionNo r)}" .
  then show ?thesis by (simp only: latest_cores_image mirrors_cores[OF assms(2)])
qed

lemma distinct_core:
  assumes "distinct (map report_key rs)"
  shows "distinct (map core rs)"
proof -
  have "map report_key rs = map (\<lambda>c. (vReportID c, vVersionNo c)) (map core rs)"
    by (simp add: report_key_def)
  with assms show ?thesis by (metis distinct_map)
qed

lemma distinct_report_filter: "distinct (map report_key rs) \<Longrightarrow> distinct (map report_key (filter P rs))"
  by (simp add: distinct_map_filter)

lemma vessel_reports_distinct:
  assumes "distinct (map lv_key (osVersions ost))"
  shows "distinct (map report_key (vessel_reports v ost))"
proof -
  let ?rows = "filter (\<lambda>l. lvVesselID l = v) (osVersions ost)"
  have "distinct (map lv_key ?rows)" using assms by (rule distinct_map_filter)
  moreover have "map lv_key ?rows = map (\<lambda>k. (v, k)) (map report_key (vessel_reports v ost))"
    by (auto simp: vessel_reports_def lv_key_def report_key_def)
  ultimately have "distinct (map (\<lambda>k. (v, k)) (map report_key (vessel_reports v ost)))" by simp
  then show ?thesis by (simp only: distinct_map)
qed

lemma chain_cores_mset:
  assumes "slice_sort p" and "slice_sort q" and "store_wf st" and "mirrors v st ost" and "one_schema st"
  shows "mset (map core (office_chain q v sname ost)) = mset (map core (listCommittedChain p sname st))"
proof -
  have "distinct (map report_key (vsReports st))" using assms(3) by (simp add: store_wf_def)
  then have v: "distinct (map core (listCommittedChain p sname st))"
    unfolding listCommittedChain_def
    by (intro distinct_core) (simp add: slice_sort.distinct_map_sort_slice[OF assms(1)] distinct_report_filter)
  have "distinct (map report_key (vessel_reports v ost))"
    using assms(4) by (simp add: vessel_reports_distinct mirrors_def accurate_def)
  then have o: "distinct (map core (office_chain q v sname ost))"
    unfolding office_chain_def olistChain_def ochain_rows_def Let_def
    by (intro distinct_core distinct_report_filter)
      (simp add: slice_sort.distinct_map_sort_slice[OF assms(2)] distinct_report_filter)
  have "set (map core (office_chain q v sname ost)) = set (map core (listCommittedChain p sname st))"
    by (simp only: set_map office_chain_cores[OF assms(2,4,5)] vessel_chain_cores[OF assms(1)])
  then show ?thesis using v o by (simp only: set_eq_iff_mset_eq_distinct)
qed

section \<open>Both cascades reach the same verdict\<close>

lemma revalidate_core:
  "slice_sort p \<Longrightarrow> revalidate p (map toValidation rs) cfg = revalidate p (map core rs) cfg"
  using revalidate_normal[of p "map toValidation rs" cfg] by (simp add: core_def[abs_def] o_def)

lemma chains_agree:
  assumes "slice_sort p" and "slice_sort q" and "store_wf st" and "mirrors v st ost" and "one_schema st"
    and "distinct (map EventTime (listCommittedChain p sname st))"
  shows "revalidate q (map toValidation (office_chain q v sname ost)) cfg =
    revalidate p (map toValidation (listCommittedChain p sname st)) cfg"
proof -
  let ?o = "map core (office_chain q v sname ost)" and ?v = "map core (listCommittedChain p sname st)"
  have m: "mset ?o = mset ?v" using assms(1-5) by (rule chain_cores_mset)
  have times: "map vEventTime ?v = map EventTime (listCommittedChain p sname st)" by (simp add: o_def)
  have d: "distinct (map vEventTime ?v)" unfolding times by (rule assms(6))
  have d': "distinct (map vEventTime ?o)" using m d by (metis mset_eq_imp_distinct_iff mset_map)
  have "revalidate q ?o cfg = revalidate stable_sorter ?o cfg" by (rule slice_sort.revalidate_sorter[OF assms(2) d'])
  also have "\<dots> = revalidate stable_sorter ?v cfg" by (rule stable.revalidate_input_order[OF d m])
  also have "\<dots> = revalidate p ?v cfg" by (rule slice_sort.revalidate_sorter[OF assms(1) d, symmetric])
  finally show ?thesis by (simp only: revalidate_core[OF assms(1)] revalidate_core[OF assms(2)])
qed

lemma configs_agree:
  assumes "config_wf ost" and "\<And>xs. mset (oeOrdSeverities oenv xs) = mset xs"
    and "mset (cbRuleSeverities b) = mset (osSeverities ost)"
  shows "validationConfigForVessel (oeOrdSeverities oenv) sname v gs ost = Inr (validationConfigFromBundle (Some (resolveFor b v gs n)) sname)"
proof -
  have ok: "severities_ok a" if "a \<in> set (cbRuleSeverities b)" for a
    using that assms(1) mset_eq_setD[OF assms(3)] by (auto simp: config_wf_def)
  show ?thesis
    using severities_order_irrelevant[OF assms(1,2)] severities_order_irrelevant[OF assms(1,3)]
    by (simp add: validationConfigForVessel_def list_severities_ok[OF assms(1,2)] resolved_config[OF ok])
qed

lemma verdicts_agree:
  assumes "slice_sort (envSorter env)" and "slice_sort (oeSorter oenv)" and "store_wf st" and "mirrors v st ost" and "one_schema st"
    and "distinct (map EventTime (listCommittedChain (envSorter env) sname st))"
    and "getVessel v ost = Inr vr" and "config_wf ost" and "\<And>xs. mset (oeOrdSeverities oenv xs) = mset xs"
    and "appliedBundle (envSorter env) (Some st) = Some (resolveFor b v (vrGroups vr) n)"
    and "mset (cbRuleSeverities b) = mset (osSeverities ost)"
  shows "office_verdict oenv v sname ost = Inr (cascade_result env sname st)"
  unfolding office_verdict_def cascade_result_def assms(7,10) sum.case configs_agree[OF assms(8,9,11), where n = n]
  by (simp only: sum.case chains_agree[OF assms(1-6)])

section \<open>A push completes the landed rows\<close>

text \<open>What the database returns of a committed version is what the vessel has.\<close>

definition stored_exactly :: "pg \<Rightarrow> report \<Rightarrow> bool" where
  "stored_exactly pg r \<longleftrightarrow> pgTime pg (EventTime r) = EventTime r \<and>
     (\<forall>m. pgFields pg m \<in> {None, Some m}) \<and> 0 \<le> VersionNo r \<and> VersionNo r < 2 ^ 31"

text \<open>A version item carries a committed version.\<close>

definition faithful :: "('w, 'ts) pblib \<Rightarrow> 'b vstore \<Rightarrow> ('w, 'ts) pbOutboxItem \<Rightarrow> bool" where
  "faithful pb st item \<longleftrightarrow> (\<forall>pv. piPayload item = PayloadReportVersion pv \<longrightarrow>
     (\<exists>r \<in> set (committed st). reportVersionFromDomain pb r = Inr pv))"

definition carries :: "('w, 'ts) pblib \<Rightarrow> report \<Rightarrow> ('w, 'ts) pbOutboxItem \<Rightarrow> bool" where
  "carries pb r item \<longleftrightarrow> (\<exists>pv. piPayload item = PayloadReportVersion pv \<and> reportVersionFromDomain pb r = Inr pv)"

lemma landed_core:
  assumes "stored_exactly pg r" and "pg_fields pg (Fields (wire_report r)) = Some fs"
  shows "core (lvReport (landed_row pg v ver now (wire_report r) fs)) = core r"
proof -
  let ?m = "case Fields r of None \<Rightarrow> [] | Some m \<Rightarrow> m"
  have "map_option Some (pgFields pg ?m) = Some fs" using assms(2) by (simp add: pg_fields_def wire_report_def)
  moreover have "pgFields pg ?m = None \<or> pgFields pg ?m = Some ?m" using assms(1) unfolding stored_exactly_def by blast
  ultimately have "fs = Some ?m" by auto
  moreover have "int32 (VersionNo r) = VersionNo r"
    using assms(1) by (intro int32_exact) (auto simp: stored_exactly_def)
  ultimately show ?thesis
    using assms(1)
    by (simp add: core_def toValidation_def normal_def landed_row_def landed_report_def wire_report_def stored_exactly_def)
qed

lemma core_key: "core a = core b \<Longrightarrow> ReportID a = ReportID b \<and> VersionNo a = VersionNo b"
  using core_sel(1,2) by metis

lemma invalidated_row_sel [simp]:
  "lvVesselID (invalidated_row l) = lvVesselID l" "core (lvReport (invalidated_row l)) = core (lvReport l)"
  "inChain (State (lvReport (invalidated_row l)))"
  by (simp_all add: invalidated_row_def core_def toValidation_def inChain_def)

lemma may_invalidate_keys: "may_invalidate rows rows' \<Longrightarrow> map lv_key rows' = map lv_key rows"
  unfolding may_invalidate_def by (induction rule: list_all2_induct) auto

lemma may_invalidate_members:
  assumes "may_invalidate rows rows'"
  shows "l' \<in> set rows' \<Longrightarrow> \<exists>l \<in> set rows. l' = l \<or> l' = invalidated_row l"
    and "l \<in> set rows \<Longrightarrow> l \<in> set rows' \<or> invalidated_row l \<in> set rows'"
  using assms unfolding may_invalidate_def by (induction rule: list_all2_induct) auto

lemma accurate_invalidate: "accurate v st rows \<Longrightarrow> may_invalidate rows rows' \<Longrightarrow> accurate v st rows'"
  unfolding accurate_def may_invalidate_keys
  by (auto dest!: may_invalidate_members(1) simp: may_invalidate_keys)

lemma has_version_invalidate: "has_version v r rows \<Longrightarrow> may_invalidate rows rows' \<Longrightarrow> has_version v r rows'"
  unfolding has_version_def by (metis invalidated_row_sel(1,2) may_invalidate_members(2))

text \<open>The row of a committed version replaces the row of that version only.\<close>

lemma accurate_upsert:
  assumes "accurate v st rows" and "r \<in> set (committed st)" and "core (lvReport l) = core r" and "lvVesselID l = v"
    and "inChain (State (lvReport l))"
  shows "accurate v st (upsert_by lv_key l rows)"
  using assms set_upsert_by[of lv_key l rows] distinct_upsert_by[of lv_key rows l] unfolding accurate_def by blast

lemma upsert_member: "l \<in> set (upsert_by key l rows)"
  by (auto simp: upsert_by_def list_ex_iff image_iff)

lemma upsert_other: "x \<in> set rows \<Longrightarrow> key x \<noteq> key l \<Longrightarrow> x \<in> set (upsert_by key l rows)"
  by (auto simp: upsert_by_def image_iff)

lemma has_version_upsert:
  assumes "store_wf st" and "has_version v r rows" and "r \<in> set (committed st)" and "r' \<in> set (committed st)"
    and "core (lvReport l) = core r'" and "lvVesselID l = v"
  shows "has_version v r (upsert_by lv_key l rows)"
proof -
  obtain x where x: "x \<in> set rows" "lvVesselID x = v" "core (lvReport x) = core r"
    using assms(2) by (auto simp: has_version_def)
  show ?thesis
  proof (cases "lv_key x = lv_key l")
    case True
    then have "report_key r = report_key r'"
      using core_key[OF x(3)] core_key[OF assms(5)] by (simp add: lv_key_def report_key_def)
    then have "r = r'" using assms(1,3,4) unfolding committed_def store_wf_def by (metis distinct_map filter_is_subset inj_onD subsetD)
    then show ?thesis using upsert_member[of l lv_key rows] assms(5,6) by (auto simp: has_version_def)
  next
    case False
    then show ?thesis using upsert_other[of x rows lv_key l] x by (auto simp: has_version_def)
  qed
qed

text \<open>One item of a batch.\<close>

lemma versions_after:
  assumes "applyOutboxItem env v item ost = (ack, ost')"
  obtains "osVersions ost' = osVersions ost"
  | pv r fs where "piPayload item = PayloadReportVersion pv" and "reportVersionToDomain (oePb env) pv = Inr r"
      and "pg_fields (oePg env) (Fields r) = Some fs"
      and "may_invalidate (upsert_by lv_key (landed_row (oePg env) v (pvSchemaVersion pv) (oeNow env) r fs) (osVersions ost))
             (osVersions ost')"
proof (cases "\<exists>st1. land_payload env v (piPayload item) ost = Inr st1 \<and> osVersions ost' = osVersions st1")
  case True
  then obtain st1 where st1: "land_payload env v (piPayload item) ost = Inr st1" "osVersions ost' = osVersions st1" by blast
  show ?thesis
  proof (cases "piPayload item")
    case (PayloadReportVersion pv)
    then obtain r st2 where r: "reportVersionToDomain (oePb env) pv = Inr r"
        "upsertReportVersion (oePg env) v r (pvSchemaVersion pv) (oeNow env) ost = Inr st2" "st1 = snd (orunCascade env v (SchemaName r) st2)"
      using st1(1) by (auto simp: land_payload_def split: sum.splits)
    from upsertReportVersion_InrD[OF r(2)] obtain fs where "pg_fields (oePg env) (Fields r) = Some fs"
        "st2 = put_row (landed_row (oePg env) v (pvSchemaVersion pv) (oeNow env) r fs) ost" by blast
    then show ?thesis
      using that(2)[OF PayloadReportVersion r(1)] orunCascade_rows[of st2 env v "SchemaName r"] st1(2) r(3) by (simp add: put_row_def)
  next
    case (PayloadAuditEvent pe)
    then show ?thesis
      using st1 that(1) by (auto simp: land_payload_def appendReportAuditEvent_def Let_def split: sum.splits option.splits if_splits)
  next
    case (PayloadChatMessage pm)
    then show ?thesis using st1 that(1) by (auto simp: land_payload_def oinsertChatMessage_def split: if_splits)
  next
    case PayloadNone
    then show ?thesis using st1 by (simp add: land_payload_def)
  qed
next
  case False
  then have "osVersions ost' = osVersions ost"
    using assms by (auto simp: applyOutboxItem_def split: sum.splits bool.splits dest: recordOutboxReceipt_versions)
  then show ?thesis by (rule that(1))
qed

text \<open>What a push leaves alone.\<close>

definition config_tables where
  "config_tables st = (osSeverities st, osCadence st, osProfiles st, osPolicies st, osAssignments st, osVessels st, osBundles st, osNextBundle st)"

definition push_frame :: "ostore \<Rightarrow> ostore \<Rightarrow> bool" where
  "push_frame st st' \<longleftrightarrow> osReceipts st' = osReceipts st \<and> config_tables st' = config_tables st"

lemma push_frame_refl [simp]: "push_frame st st"
  by (simp add: push_frame_def)

lemma push_frame_trans: "push_frame a b \<Longrightarrow> push_frame b c \<Longrightarrow> push_frame a c"
  by (simp add: push_frame_def)

lemma write_frames:
  "upsertReportVersion pg v r ver t st = Inr st' \<Longrightarrow> push_frame st st'"
  "appendReportAuditEvent pg v e t orig st = Inr st' \<Longrightarrow> push_frame st st'"
  "oinsertChatMessage pg v m st = Inr st' \<Longrightarrow> push_frame st st'"
  "oinsertInvalidationNotice pg v i n rs t st = Inr st' \<Longrightarrow> push_frame st st'"
  "updateReportVersionState v i n s st = Inr st' \<Longrightarrow> push_frame st st'"
  by (auto simp: upsertReportVersion_def put_row_def appendReportAuditEvent_def oinsertChatMessage_def
      oinsertInvalidationNotice_def updateReportVersionState_def push_frame_def config_tables_def Let_def
      split: option.splits if_splits)

lemma attempt_frame:
  assumes "\<And>st'. res = Inr st' \<Longrightarrow> push_frame st st'" and "\<And>st'. res = Inr st' \<Longrightarrow> push_frame st' (snd (k st'))"
  shows "push_frame st (snd (attempt st res k))"
  using assms by (cases res) (auto intro: push_frame_trans)

lemma orunCascade_frame: "push_frame st (snd (orunCascade env v sname st))"
proof (cases "office_verdict env v sname st")
  case (Inr result)
  have "push_frame st (snd (office_cascade_step env v result r st))" for r st
    unfolding office_cascade_step_def by (auto split: option.split prod.split intro!: attempt_frame intro: write_frames)
  then have "push_frame st (snd (for_each (office_cascade_step env v result) (office_chain (oeSorter env) v sname st) st))"
    by (intro for_each_inv[where P = "push_frame st"]) (auto intro: push_frame_trans)
  with Inr show ?thesis by (simp add: orunCascade_def)
qed (simp add: orunCascade_def)

lemma land_payload_frame: "land_payload env v p st = Inr st' \<Longrightarrow> push_frame st st'"
  by (auto simp: land_payload_def split: pbPayload.splits sum.splits
      intro: write_frames push_frame_trans[OF write_frames(1) orunCascade_frame])

lemma applyOutboxItem_config:
  "config_tables (snd (applyOutboxItem env v item st)) = config_tables st"
  by (auto simp: applyOutboxItem_def recordOutboxReceipt_def put_receipt_def config_tables_def push_frame_def
      split: sum.split bool.split if_splits dest!: land_payload_frame)

lemma pushOutbox_config: "config_tables (snd (pushOutbox v items st)) = config_tables st"
proof (induction v items st rule: pushOutbox.induct)
  case (2 v env item items st)
  obtain ack st1 where a: "applyOutboxItem env v item st = (ack, st1)" by fastforce
  obtain acks st2 where b: "pushOutbox v items st1 = (acks, st2)" by fastforce
  show ?case using "2.IH"[OF a[symmetric]] applyOutboxItem_config[of env v item st] a b by simp
qed simp

lemma received_after:
  assumes "applyOutboxItem env v item st = (ack, st')" and "received v item' st'"
  shows "received v item' st \<or> piItemId item' = piItemId item"
proof (cases "\<exists>st1. land_payload env v (piPayload item) st = Inr st1")
  case True
  then obtain st1 where st1: "land_payload env v (piPayload item) st = Inr st1" by blast
  have "osReceipts st1 = osReceipts st" using land_payload_frame[OF st1] by (simp add: push_frame_def)
  then show ?thesis
    using assms st1 receipts.look_put
    by (auto simp: applyOutboxItem_def received_def recordOutboxReceipt_def rc_key_def
        split: sum.splits bool.splits if_splits option.splits)
next
  case False
  then show ?thesis using assms by (auto simp: applyOutboxItem_def split: sum.splits bool.splits)
qed

text \<open>One item, and a batch.\<close>

definition push_setting :: "('w, 'ts) pblib \<Rightarrow> pg \<Rightarrow> 'b vstore \<Rightarrow> bool" where
  "push_setting pb pg st \<longleftrightarrow> pb_ok pb \<and> store_wf st \<and> (\<forall>r \<in> set (committed st). stored_exactly pg r)"

lemma faithful_landing:
  assumes "push_setting pb pg st" and "r \<in> set (committed st)" and "reportVersionFromDomain pb r = Inr pv"
    and "reportVersionToDomain pb pv = Inr r'" and "pg_fields pg (Fields r') = Some fs" and "accurate v st rows"
    and "may_invalidate (upsert_by lv_key (landed_row pg v ver now r' fs) rows) rows'"
  shows "accurate v st rows'" and "has_version v r rows'"
    and "x \<in> set (committed st) \<Longrightarrow> has_version v x rows \<Longrightarrow> has_version v x rows'"
proof -
  let ?l = "landed_row pg v ver now r' fs"
  have s: "pb_ok pb" "store_wf st" "stored_exactly pg r" using assms(1,2) by (auto simp: push_setting_def)
  have r': "r' = wire_report r" using report_roundtrip[OF s(1) assms(3)] assms(4) by simp
  have l: "core (lvReport ?l) = core r" "lvVesselID ?l = v" "inChain (State (lvReport ?l))"
    using landed_core[OF s(3)] assms(2,5) r' by (auto simp: landed_row_def landed_report_def committed_def)
  show "accurate v st rows'" using accurate_upsert[OF assms(6,2) l] assms(7) by (rule accurate_invalidate)
  have "has_version v r (upsert_by lv_key ?l rows)" using upsert_member[of ?l lv_key rows] l(1,2) by (auto simp: has_version_def)
  then show "has_version v r rows'" using assms(7) by (rule has_version_invalidate)
  show "has_version v x rows'" if "x \<in> set (committed st)" "has_version v x rows"
    using has_version_upsert[OF s(2) that(2,1) assms(2) l(1,2)] assms(7) by (rule has_version_invalidate)
qed

lemma push_item:
  assumes "applyOutboxItem env v item ost = (ack, ost')" and "runs_on pb pg env" and "push_setting pb pg st"
    and "faithful pb st item" and "accurate v st (osVersions ost)"
  shows "accurate v st (osVersions ost')"
    and "x \<in> set (committed st) \<Longrightarrow> has_version v x (osVersions ost) \<Longrightarrow> has_version v x (osVersions ost')"
    and "x \<in> set (committed st) \<Longrightarrow> carries pb x item \<Longrightarrow> iaAccepted ack \<Longrightarrow> \<not> received v item ost \<Longrightarrow>
      has_version v x (osVersions ost')"
proof -
  have env: "oePb env = pb" "oePg env = pg" using assms(2) by (auto simp: runs_on_def)
  have both: "accurate v st (osVersions ost') \<and>
      (\<forall>x \<in> set (committed st). has_version v x (osVersions ost) \<longrightarrow> has_version v x (osVersions ost'))"
    using assms(1)
  proof (cases rule: versions_after)
    case (2 pv r fs)
    obtain r0 where "r0 \<in> set (committed st)" "reportVersionFromDomain pb r0 = Inr pv"
      using assms(4) 2(1) by (auto simp: faithful_def)
    from faithful_landing[OF assms(3) this 2(2-3)[unfolded env] assms(5) 2(4)[unfolded env]] show ?thesis by blast
  qed (use assms(5) in simp)
  then show "accurate v st (osVersions ost')"
    and "x \<in> set (committed st) \<Longrightarrow> has_version v x (osVersions ost) \<Longrightarrow> has_version v x (osVersions ost')" by auto
  show "has_version v x (osVersions ost')"
    if x: "x \<in> set (committed st)" "carries pb x item" and acc: "iaAccepted ack" "\<not> received v item ost"
  proof -
  obtain pv where pv: "piPayload item = PayloadReportVersion pv" "reportVersionFromDomain pb x = Inr pv"
    using x(2) by (auto simp: carries_def)
  have reads: "reportVersionToDomain pb pv = Inr (wire_report x)"
    using assms(3) pv(2) by (intro report_roundtrip) (simp_all add: push_setting_def)
  from accepted_version[OF assms(1) acc pv(1) reads[folded env(1)]] obtain fs where
    "pg_fields pg (Fields (wire_report x)) = Some fs"
    "may_invalidate (upsert_by lv_key (landed_row pg v (pvSchemaVersion pv) (oeNow env) (wire_report x) fs) (osVersions ost)) (osVersions ost')"
    unfolding env by blast
  then show ?thesis by (rule faithful_landing(2)[OF assms(3) x(1) pv(2) reads _ assms(5)])
  qed
qed

lemma push_batch:
  assumes "pushOutbox v items ost = (acks, ost')" and "push_setting pb pg st" and "accurate v st (osVersions ost)"
    and "\<forall>(env, item) \<in> set items. runs_on pb pg env \<and> faithful pb st item"
    and "distinct (map (\<lambda>(env, item). piItemId item) items)"
  shows "accurate v st (osVersions ost')"
    and "\<forall>x \<in> set (committed st). has_version v x (osVersions ost) \<longrightarrow> has_version v x (osVersions ost')"
    and "\<forall>x \<in> set (committed st). \<forall>((env, item), ack) \<in> set (zip items acks).
      carries pb x item \<and> iaAccepted ack \<and> \<not> received v item ost \<longrightarrow> has_version v x (osVersions ost')"
proof -
  have "accurate v st (osVersions ost') \<and>
    (\<forall>x \<in> set (committed st). has_version v x (osVersions ost) \<longrightarrow> has_version v x (osVersions ost')) \<and>
    (\<forall>x \<in> set (committed st). \<forall>((env, item), ack) \<in> set (zip items acks).
      carries pb x item \<and> iaAccepted ack \<and> \<not> received v item ost \<longrightarrow> has_version v x (osVersions ost'))"
    using assms(1,3-5)
  proof (induction v items ost arbitrary: acks rule: pushOutbox.induct)
    case (2 v env item items ost)
    obtain ack ost1 where a: "applyOutboxItem env v item ost = (ack, ost1)" by fastforce
    obtain acks1 where b: "pushOutbox v items ost1 = (acks1, ost')" and acks: "acks = ack # acks1"
      using "2.prems"(1) a by (auto split: prod.splits)
    have h: "runs_on pb pg env" "faithful pb st item" using "2.prems"(3) by auto
    note item = push_item[OF a h(1) assms(2) h(2) "2.prems"(2)]
    have rest: "\<forall>(env, item) \<in> set items. runs_on pb pg env \<and> faithful pb st item"
      "distinct (map (\<lambda>(env, item). piItemId item) items)"
      using "2.prems"(3,4) by auto
    note ih = "2.IH"[OF a[symmetric] b item(1) rest]
    have fresh: "\<not> received v i ost1" if "(e, i) \<in> set items" "\<not> received v i ost" for e i
    proof
      assume "received v i ost1"
      with received_after[OF a] that(2) have "piItemId i = piItemId item" by blast
      with that(1) "2.prems"(4) show False by (force simp: image_iff)
    qed
    have "has_version v x (osVersions ost')" if x: "x \<in> set (committed st)"
      and z: "((e, i), k) \<in> set (zip ((env, item) # items) acks)" and c: "carries pb x i" "iaAccepted k" "\<not> received v i ost" for x e i k
    proof (cases "((e, i), k) = ((env, item), ack)")
      case True
      then show ?thesis using item(3)[OF x] ih x c by auto
    next
      case False
      then have z': "((e, i), k) \<in> set (zip items acks1)" using z acks by auto
      then have "(e, i) \<in> set items" by (rule set_zip_leftD)
      then show ?thesis using ih z' x c fresh by fastforce
    qed
    then show ?case using ih item(2) by blast
  qed auto
  then show "accurate v st (osVersions ost')"
    and "\<forall>x \<in> set (committed st). has_version v x (osVersions ost) \<longrightarrow> has_version v x (osVersions ost')"
    and "\<forall>x \<in> set (committed st). \<forall>((env, item), ack) \<in> set (zip items acks).
      carries pb x item \<and> iaAccepted ack \<and> \<not> received v item ost \<longrightarrow> has_version v x (osVersions ost')" by auto
qed

text \<open>After a push in which every committed version was accepted, or had been before, the landed rows mirror the vessel's.\<close>

definition push_covers ::
  "('w, 'ts) pblib \<Rightarrow> string \<Rightarrow> 'b vstore \<Rightarrow> ostore \<Rightarrow> (('w, 'ts) officeEnv \<times> ('w, 'ts) pbOutboxItem) list \<Rightarrow> itemAck list \<Rightarrow> bool" where
  "push_covers pb v st ost items acks \<longleftrightarrow>
     (\<forall>x \<in> set (committed st). has_version v x (osVersions ost) \<or>
        (\<exists>((env, item), ack) \<in> set (zip items acks). carries pb x item \<and> iaAccepted ack \<and> \<not> received v item ost))"

lemma push_completes:
  assumes "pushOutbox v items ost = (acks, ost')" and "push_setting pb pg st" and "accurate v st (osVersions ost)"
    and "\<forall>(env, item) \<in> set items. runs_on pb pg env \<and> faithful pb st item"
    and "distinct (map (\<lambda>(env, item). piItemId item) items)" and "push_covers pb v st ost items acks"
  shows "mirrors v st ost'"
proof -
  note batch = push_batch[OF assms(1-5)]
  have "has_version v x (osVersions ost')" if x: "x \<in> set (committed st)" for x
  proof -
    from assms(6) x consider "has_version v x (osVersions ost)"
      | env item ack where "((env, item), ack) \<in> set (zip items acks)" "carries pb x item" "iaAccepted ack" "\<not> received v item ost"
      unfolding push_covers_def by blast
    then show ?thesis using batch(2,3) x by cases blast+
  qed
  with batch(1) show ?thesis by (simp add: mirrors_def)
qed

lemma push_verdict:
  assumes "pushOutbox v items ost = (acks, ost')" and "push_setting pb pg st" and "accurate v st (osVersions ost)"
    and "\<forall>(env, item) \<in> set items. runs_on pb pg env \<and> faithful pb st item"
    and "distinct (map (\<lambda>(env, item). piItemId item) items)" and "push_covers pb v st ost items acks"
    and "slice_sort (envSorter env)" and "slice_sort (oeSorter oenv)" and "\<And>xs. mset (oeOrdSeverities oenv xs) = mset xs"
    and "one_schema st" and "distinct (map EventTime (listCommittedChain (envSorter env) sname st))"
    and "getVessel v ost = Inr vr" and "config_wf ost"
    and "appliedBundle (envSorter env) (Some st) = Some (resolveFor b v (vrGroups vr) n)"
    and "mset (cbRuleSeverities b) = mset (osSeverities ost)"
  shows "office_verdict oenv v sname ost' = Inr (cascade_result env sname st)"
proof -
  have tables: "config_tables ost' = config_tables ost" using pushOutbox_config[of v items ost] assms(1) by simp
  then have "config_wf ost'" "osSeverities ost' = osSeverities ost"
    using assms(13) by (auto simp: config_tables_def config_wf_def)
  moreover have "getVessel v ost' = Inr vr" using tables assms(12) by (simp add: config_tables_def getVessel_def)
  moreover have "mirrors v st ost'" using assms(1-6) by (rule push_completes)
  moreover have "store_wf st" using assms(2) by (simp add: push_setting_def)
  ultimately show ?thesis using assms(7-11,14,15) by (intro verdicts_agree) simp_all
qed

end
