(* ===== verification/VesselSync.thy ===== *)
theory VesselSync
  imports VesselServer OfficeAgreement
begin

text \<open>
  \<open>vessel/httpapi/sync.go\<close>: the sync cycle of a vessel, and the restore bundle of \<open>vessel/httpapi/backup.go\<close> and
  \<open>pkg/restorebundle\<close> that a restore command makes it apply.  The cycle pushes the outbox, takes acknowledged items off it
  and marks their reports as synced, pulls what is new, applies user and restore commands and reports its state.

  \<open>rpc\<close> gathers the answers of the calls the cycle makes: a value on the right, a failed call on the left.  The bundle a
  restore command names comes decrypted and decoded.  The cycle is a sequence of steps on the server's state; nothing else
  runs in between, which the code does not enforce (the last section shows what an interleaving costs).

  Lemmas: a pushed item carries the report it names; the cycle keeps the contract of the report handlers, so every state a
  server reaches satisfies it.
\<close>

section \<open>Restore bundles\<close>

record bundleReport =
  brReportID :: string
  brVersions :: "report list"
  brEvents :: "event list"
  brChat :: "chatMessage list"

record 'b restoreBundle =
  rbVesselID :: string
  rbVesselName :: string
  rbVesselIMO :: string
  rbGeneratedAt :: gotime
  rbReports :: "bundleReport list"
  rbConfigBundle :: "'b pulledConfigBundle option"

record restoreBundleImportResult =
  riReports :: int
  riVersions :: int
  riEvents :: int
  riChatMessages :: int
  riConfigBundleApplied :: bool

definition restore_version :: "report \<Rightarrow> 'b vstore \<Rightarrow> (store_error + unit) \<times> 'b vstore" where
  "restore_version r st = attempt st (saveReport r st) (\<lambda>st. (Inr (), st))"

definition restore_event :: "event \<Rightarrow> 'b vstore \<Rightarrow> (store_error + unit) \<times> 'b vstore" where
  "restore_event e st = attempt_val st (appendEvent e st) (\<lambda>_ st. (Inr (), st))"

definition restore_report :: "bundleReport \<Rightarrow> 'b vstore \<Rightarrow> (store_error + unit) \<times> 'b vstore" where
  "restore_report br st =
     andthen (for_each restore_version (brVersions br) st) (\<lambda>_ st.
     andthen (for_each restore_event (brEvents br) st) (\<lambda>_ st.
       (Inr (), fold insertChatMessage (brChat br) st)))"

definition applyRestoreBundle ::
  "'b restoreBundle \<Rightarrow> 'b vstore \<Rightarrow> (store_error + restoreBundleImportResult) \<times> 'b vstore" where
  "applyRestoreBundle b st =
     andthen (for_each restore_report (rbReports b) st) (\<lambda>_ st.
       (Inr \<lparr>riReports = int (length (rbReports b)),
             riVersions = int (sum_list (map (\<lambda>br. length (brVersions br)) (rbReports b))),
             riEvents = int (sum_list (map (\<lambda>br. length (brEvents br)) (rbReports b))),
             riChatMessages = int (sum_list (map (\<lambda>br. length (brChat br)) (rbReports b))),
             riConfigBundleApplied = (rbConfigBundle b \<noteq> None)\<rparr>,
        case rbConfigBundle b of None \<Rightarrow> st | Some cb \<Rightarrow> applyConfigBundle cb st))"

section \<open>Pushing the outbox\<close>

datatype cycle_error =
    CycleStore store_error
  | CycleProto proto_error
  | CycleNoEvent string
  | CycleNoChat string
  | CycleCall string

definition buildOutboxItem ::
  "('w, 'ts) pblib \<Rightarrow> outboxItem \<Rightarrow> 'b vstore \<Rightarrow> cycle_error + ('w, 'ts) pbOutboxItem" where
  "buildOutboxItem pb item st =
     (let wrap = (\<lambda>payload. \<lparr>piItemId = obItemID item, piSequenceNo = obSequenceNo item, piPayload = payload\<rparr>) in
      case obKind item of
        OutboxItemKindReportVersion \<Rightarrow>
          (case getReport (obReportID item) (obVersionNo item) st of
             Inl e \<Rightarrow> Inl (CycleStore e)
           | Inr r \<Rightarrow>
               (case reportVersionFromDomain pb r of
                  Inl e \<Rightarrow> Inl (CycleProto e)
                | Inr pv \<Rightarrow> Inr (wrap (PayloadReportVersion pv))))
      | OutboxItemKindReportAuditEvent \<Rightarrow>
          (case obReportEventID item of
             None \<Rightarrow> Inl (CycleNoEvent (obItemID item))
           | Some i \<Rightarrow>
               (case getEventByID i st of
                  Inl e \<Rightarrow> Inl (CycleStore e)
                | Inr e \<Rightarrow>
                    (case reportAuditEventFromDomain pb e of
                       Inl e \<Rightarrow> Inl (CycleProto e)
                     | Inr pe \<Rightarrow> Inr (wrap (PayloadAuditEvent pe)))))
      | OutboxItemKindChat \<Rightarrow>
          (case obChatMessageID item of
             None \<Rightarrow> Inl (CycleNoChat (obItemID item))
           | Some i \<Rightarrow>
               (case getChatMessage i st of
                  Inl e \<Rightarrow> Inl (CycleStore e)
                | Inr m \<Rightarrow> Inr (wrap (PayloadChatMessage (chatMessageFromDomain pb m))))))"

text \<open>An item that cannot be built is left out of the batch and stays queued.\<close>

definition build_items :: "('w, 'ts) pblib \<Rightarrow> outboxItem list \<Rightarrow> 'b vstore \<Rightarrow> ('w, 'ts) pbOutboxItem list" where
  "build_items pb pending st =
     concat (map (\<lambda>item. case buildOutboxItem pb item st of Inl _ \<Rightarrow> [] | Inr p \<Rightarrow> [p]) pending)"

definition markReportSynced :: "string \<Rightarrow> int \<Rightarrow> gotime \<Rightarrow> 'b vstore \<Rightarrow> (store_error + unit) \<times> 'b vstore" where
  "markReportSynced reportID versionNo at_time st =
     (case getReport reportID versionNo st of
        Inl e \<Rightarrow> (Inl e, st)
      | Inr r \<Rightarrow>
          (case markSynced at_time r of
             None \<Rightarrow> (Inr (), st)
           | Some (r, event) \<Rightarrow> save_and_append r event st))"

definition ack_step ::
  "gotime \<Rightarrow> outboxItem list \<Rightarrow> itemAck \<Rightarrow> 'b vstore \<Rightarrow> (store_error + unit) \<times> 'b vstore" where
  "ack_step now pending ack st =
     (if \<not> iaAccepted ack then (Inr (), st)
      else let st = ackOutboxItem (iaItemId ack) st in
        case find_row obItemID (rev pending) (iaItemId ack) of
          None \<Rightarrow> (Inr (), st)
        | Some item \<Rightarrow>
            if obKind item \<noteq> OutboxItemKindReportVersion then (Inr (), st)
            else markReportSynced (obReportID item) (obVersionNo item) now st)"

record ('w, 'ts, 'b) rpc =
  rpcPushOutbox :: "('w, 'ts) pbOutboxItem list \<Rightarrow> string + itemAck list"
  rpcPullInbox :: "inboxCursors \<Rightarrow> string + 'ts pullInboxResponse"
  rpcFetchRestoreBundle :: "string \<Rightarrow> string + 'b restoreBundle"
  rpcUploadAttachment :: "attachment \<Rightarrow> string option"
  rpcSyncStatus :: "syncStatusRequest \<Rightarrow> string + gotime"

definition as_cycle :: "(store_error + 'a) \<times> 's \<Rightarrow> (cycle_error + 'a) \<times> 's" where
  "as_cycle r = (case r of (Inl e, s) \<Rightarrow> (Inl (CycleStore e), s) | (Inr v, s) \<Rightarrow> (Inr v, s))"

definition pushOutboxBatch ::
  "('w, 'ts) pblib \<Rightarrow> ('w, 'ts, 'b) rpc \<Rightarrow> gotime \<Rightarrow> 'b vstore \<Rightarrow> (cycle_error + unit) \<times> 'b vstore" where
  "pushOutboxBatch pb c now st =
     (let pending = listOutboxItems st; items = build_items pb pending st in
      if pending = [] \<or> items = [] then (Inr (), st)
      else case rpcPushOutbox c items of
        Inl e \<Rightarrow> (Inl (CycleCall e), st)
      | Inr acks \<Rightarrow> as_cycle (for_each (ack_step now pending) acks st))"

section \<open>Attachments\<close>

text \<open>One failed upload does not stop the others; the first error is reported.\<close>

definition upload_step ::
  "('w, 'ts, 'b) rpc \<Rightarrow> gotime \<Rightarrow> attachment \<Rightarrow> string option \<times> 'b vstore \<Rightarrow> string option \<times> 'b vstore" where
  "upload_step c now a acc =
     (case acc of (firstErr, st) \<Rightarrow>
        case rpcUploadAttachment c a of
          Some e \<Rightarrow> (if firstErr = None then Some e else firstErr, st)
        | None \<Rightarrow> (firstErr, markAttachmentSynced (atID a) now st))"

definition pushAttachmentsBatch ::
  "slice_sorter \<Rightarrow> ('w, 'ts, 'b) rpc \<Rightarrow> gotime \<Rightarrow> 'b vstore \<Rightarrow> string option \<times> 'b vstore" where
  "pushAttachmentsBatch p c now st = fold (upload_step c now) (listPendingAttachments p st) (None, st)"

section \<open>Pulling the inbox\<close>

fun applyPulledRestoreCommands ::
  "('w, 'ts, 'b) rpc \<Rightarrow> 'ts pbRestoreCommand list \<Rightarrow> int \<Rightarrow> int \<Rightarrow> 'b vstore \<Rightarrow> (string list \<times> int) \<times> 'b vstore" where
  "applyPulledRestoreCommands c [] currentCursor nextCursor st = (([], nextCursor), st)"
| "applyPulledRestoreCommands c (rc # rcs) currentCursor nextCursor st =
     (case rpcFetchRestoreBundle c (prcCommandId rc) of
        Inl _ \<Rightarrow> (([], currentCursor), st)
      | Inr b \<Rightarrow>
          (case applyRestoreBundle b st of
             (Inl _, st) \<Rightarrow> (([], currentCursor), st)
           | (Inr _, st) \<Rightarrow>
               (case applyPulledRestoreCommands c rcs currentCursor nextCursor st of
                  ((ids, cursor), st) \<Rightarrow> ((prcCommandId rc # ids, cursor), st))))"

definition command_of_wire :: "'ts pbUserCommand \<Rightarrow> userCommand" where
  "command_of_wire c = \<lparr>ucAction = pucAction c, ucUsername = pucUsername c, ucRole = pucRole c,
     ucTemporaryPassword = pucTemporaryPassword c, ucActive = pucActive c, ucCanSubmit = pucCanSubmit c\<rparr>"

text \<open>A command that fails is skipped, and the cursor moves past it all the same.\<close>

fun applyPulledUserCommands ::
  "crypto \<Rightarrow> (nat \<Rightarrow> string option) \<Rightarrow> gotime \<Rightarrow> 'ts pbUserCommand list \<Rightarrow> user list \<Rightarrow> string list \<times> user list" where
  "applyPulledUserCommands cr uuid now [] us = ([], us)"
| "applyPulledUserCommands cr uuid now (c # cs) us =
     (let next_uuid = (\<lambda>n. uuid (n + 1)) in
      case applyUserCommand cr (uuid 0) now (command_of_wire c) us of
        Inl _ \<Rightarrow> applyPulledUserCommands cr next_uuid now cs us
      | Inr us \<Rightarrow> (case applyPulledUserCommands cr next_uuid now cs us of (ids, us) \<Rightarrow> (pucCommandId c # ids, us)))"

definition versions_of_wire ::
  "('w, 'ts) pblib \<Rightarrow> 'ts pbSchemaVersion list \<Rightarrow> proto_error + pulledSchemaVersion list" where
  "versions_of_wire pb vs = collect (\<lambda>v.
     case schemaNameFromKind (psSchemaKind v) of
       Inl e \<Rightarrow> Inl e
     | Inr name \<Rightarrow> Inr \<lparr>psvSchemaName = name, psvVersion = psVersion v, psvContent = psSchemaJson v,
                        psvPublishedAt = asTime pb (psPublishedAt v)\<rparr>) vs"

definition bundle_of_wire :: "('w, 'ts) pblib \<Rightarrow> 'ts pbConfigBundle \<Rightarrow> bundle_doc pulledConfigBundle" where
  "bundle_of_wire pb b = \<lparr>pcbBundleID = pbcBundleId b, pcbVersionNo = pbcVersionNo b, pcbContent = Doc (pbcContent b),
     pcbPublishedAt = asTime pb (pbcPublishedAt b)\<rparr>"

text \<open>What a cycle takes from outside beside the answers: clock, random identifiers, the order of maps and ties.\<close>

record cycleEnv =
  ceNow :: gotime
  ceCrypto :: crypto
  ceUUID :: "nat \<Rightarrow> string option"
  ceIter :: "remark_groups \<Rightarrow> remark_groups"
  ceSorter :: slice_sorter
  ceVersion :: string

record pullOutcome =
  poRestoreIDs :: "string list"
  poUserIDs :: "string list"
  poError :: "cycle_error option"

definition pull_failed :: "cycle_error \<Rightarrow> pullOutcome" where
  "pull_failed e = \<lparr>poRestoreIDs = [], poUserIDs = [], poError = Some e\<rparr>"

text \<open>The commands are applied first, then the pulled rows and the cursors.\<close>

definition pullInboxBatch ::
  "('w, 'ts) pblib \<Rightarrow> cycleEnv \<Rightarrow> ('w, 'ts, bundle_doc) rpc \<Rightarrow> user list \<Rightarrow> store \<Rightarrow> pullOutcome \<times> user list \<times> store" where
  "pullInboxBatch pb env c us st =
     (let current = getInboxCursors st in
      case rpcPullInbox c current of
        Inl e \<Rightarrow> (pull_failed (CycleCall e), us, st)
      | Inr resp \<Rightarrow>
     (case versions_of_wire pb (pirSchemaVersions resp) of
        Inl e \<Rightarrow> (pull_failed (CycleProto e), us, st)
      | Inr versions \<Rightarrow>
     (let bundles = map (bundle_of_wire pb) (pirConfigBundles resp);
          chat = map (chatMessageToDomain pb ChatFromOffice) (pirChatMessages resp);
          notices = map (invalidationNoticeToDomain pb) (pirInvalidationNotices resp);
          remarks = map (remarkToDomain pb) (pirRemarks resp);
          next = pirNextCursors resp
      in case applyPulledRestoreCommands c (pirRestoreCommands resp) (RestoreCommandCursor current) (RestoreCommandCursor next) st of
           ((restoreIDs, restoreCursor), st) \<Rightarrow>
         case applyPulledUserCommands (ceCrypto env) (ceUUID env) (ceNow env) (pirUserCommands resp) us of
           (userIDs, us) \<Rightarrow>
         case applyInboxPull (ceIter env) versions bundles chat notices remarks
                (next\<lparr>RestoreCommandCursor := restoreCursor\<rparr>) st of
           (res, st) \<Rightarrow>
             (\<lparr>poRestoreIDs = restoreIDs, poUserIDs = userIDs,
               poError = (case res of Inl e \<Rightarrow> Some (CycleStore e) | Inr _ \<Rightarrow> None)\<rparr>, us, st))))"

section \<open>The cycle\<close>

record syncStatusView =
  ssvEnrolled :: bool
  ssvLastAttempt :: "gotime option"
  ssvLastSuccess :: "gotime option"
  ssvLastError :: "cycle_error option"
  ssvOfficeTime :: "gotime option"

record syncServer =
  cyServer :: server
  cyStatus :: syncStatusView

definition not_enrolled :: syncStatusView where
  "not_enrolled = \<lparr>ssvEnrolled = False, ssvLastAttempt = None, ssvLastSuccess = None, ssvLastError = None, ssvOfficeTime = None\<rparr>"

definition status_request :: "cycleEnv \<Rightarrow> pullOutcome \<Rightarrow> user list \<Rightarrow> store \<Rightarrow> syncStatusRequest" where
  "status_request env outcome us st =
     (let applied = (case latestConfigBundle (ceSorter env) st of None \<Rightarrow> ('''', 0) | Some cb \<Rightarrow> (pcbBundleID cb, pcbVersionNo cb))
      in \<lparr>srqAppVersion = ceVersion env, srqAppliedBundleId = fst applied, srqAppliedBundleVersion = snd applied,
          srqAppliedRestoreCommandIds = poRestoreIDs outcome, srqAppliedUserCommandIds = poUserIDs outcome,
          srqUsers = buildVesselUserSummaries us\<rparr>)"

text \<open>The first error counts: of the push, the attachments, the pull and the report of the state, in this order.\<close>

definition first_error :: "cycle_error option list \<Rightarrow> cycle_error option" where
  "first_error es = (case filter (\<lambda>e. e \<noteq> None) es of [] \<Rightarrow> None | e # _ \<Rightarrow> e)"

definition error_of :: "'e + 'a \<Rightarrow> 'e option" where
  "error_of r = (case r of Inl e \<Rightarrow> Some e | Inr _ \<Rightarrow> None)"

text \<open>\<open>client\<close> is None for a vessel that is not enrolled or has no credential.\<close>

definition runSyncCycle ::
  "('w, 'ts) pblib \<Rightarrow> cycleEnv \<Rightarrow> ('w, 'ts, bundle_doc) rpc option \<Rightarrow> syncServer \<Rightarrow> syncStatusView \<times> syncServer" where
  "runSyncCycle pb env client cy =
     (case (client, svUsers (srvAccounts (cyServer cy))) of
        (Some c, Some us) \<Rightarrow>
          (let s = cyServer cy;
               stat = (cyStatus cy)\<lparr>ssvEnrolled := True, ssvLastAttempt := Some (ceNow env)\<rparr>
           in case pushOutboxBatch pb c (ceNow env) (srvStore s) of
                (pushed, st) \<Rightarrow>
              case pushAttachmentsBatch (ceSorter env) c (ceNow env) st of
                (attachErr, st) \<Rightarrow>
              case pullInboxBatch pb env c us st of
                (outcome, us, st) \<Rightarrow>
              let reported = rpcSyncStatus c (status_request env outcome us st);
                  err = first_error [error_of pushed, map_option CycleCall attachErr, poError outcome,
                                     map_option CycleCall (error_of reported)];
                  stat = (if err = None then stat\<lparr>ssvLastError := None, ssvLastSuccess := Some (ceNow env)\<rparr>
                          else stat\<lparr>ssvLastError := err\<rparr>);
                  stat = (case reported of Inl _ \<Rightarrow> stat | Inr t \<Rightarrow> stat\<lparr>ssvOfficeTime := Some t\<rparr>)
              in (stat, cy\<lparr>cyServer := s\<lparr>srvStore := st, srvAccounts := (srvAccounts s)\<lparr>svUsers := Some us\<rparr>\<rparr>,
                           cyStatus := stat\<rparr>))
      | _ \<Rightarrow> (not_enrolled, cy\<lparr>cyStatus := not_enrolled\<rparr>))"

definition StatusBadGateway :: int where "StatusBadGateway = 502"

datatype sync_handler_error = SyncUser user_error | SyncCycle cycle_error

definition sync_user :: "env \<Rightarrow> syncServer \<Rightarrow> (sync_handler_error failure + user) \<times> syncServer" where
  "sync_user env cy =
     (case authenticatedUser (envNow env) (envCookie env) (srvAccounts (cyServer cy)) of
        (res, sv) \<Rightarrow>
          (case res of Inl (c, m) \<Rightarrow> Inl (c, map_http_message SyncUser m) | Inr u \<Rightarrow> Inr u,
           cy\<lparr>cyServer := (cyServer cy)\<lparr>srvAccounts := sv\<rparr>\<rparr>))"

definition handleSyncNow ::
  "('w, 'ts) pblib \<Rightarrow> env \<Rightarrow> cycleEnv \<Rightarrow> ('w, 'ts, bundle_doc) rpc option \<Rightarrow> syncServer
   \<Rightarrow> (sync_handler_error, syncStatusView, syncServer) handled" where
  "handleSyncNow pb env cenv client cy =
     andthen (sync_user env cy) (\<lambda>_ cy.
       case runSyncCycle pb cenv client cy of (status, cy) \<Rightarrow>
         if \<not> ssvEnrolled status then writeError StatusBadRequest ''vessel is not enrolled with an office'' cy
         else case ssvLastError status of
             Some e \<Rightarrow> writeErrorText StatusBadGateway (SyncCycle e) cy
           | None \<Rightarrow> writeJSON StatusOK status cy)"

definition handleSyncStatus :: "env \<Rightarrow> syncServer \<Rightarrow> (sync_handler_error, syncStatusView, syncServer) handled" where
  "handleSyncStatus env cy = andthen (sync_user env cy) (\<lambda>_ cy. writeJSON StatusOK (cyStatus cy) cy)"

text \<open>\<open>handleImportRestoreBundle\<close>: what the office sends on a medium instead of the line.\<close>

datatype restore_failure = NoDRIdentity | RestoreUnreadable message

datatype restore_handler_error = RestoreUser user_error | RestoreRefused restore_failure | RestoreStore store_error

definition handleImportRestoreBundle ::
  "env \<Rightarrow> bool \<Rightarrow> restore_failure + bundle_doc restoreBundle \<Rightarrow> server
   \<Rightarrow> (restore_handler_error, restoreBundleImportResult, server) handled" where
  "handleImportRestoreBundle env confirm decrypted s =
     (case requireSuperAdmin (envNow env) (envCookie env) (srvAccounts s) of
        (Inl (c, m), sv) \<Rightarrow> (Inl (c, map_http_message RestoreUser m), s\<lparr>srvAccounts := sv\<rparr>)
      | (Inr _, sv) \<Rightarrow>
          guard (\<not> confirm) StatusBadRequest ''confirm=true is required'' (s\<lparr>srvAccounts := sv\<rparr>) (\<lambda>s.
          case decrypted of
            Inl e \<Rightarrow> writeErrorText (if e = NoDRIdentity then StatusConflict else StatusBadRequest) (RestoreRefused e) s
          | Inr b \<Rightarrow>
              (case applyRestoreBundle b (srvStore s) of
                 (Inl e, st) \<Rightarrow> writeErrorText StatusInternalServerError (RestoreStore e) (s\<lparr>srvStore := st\<rparr>)
               | (Inr result, st) \<Rightarrow> writeJSON StatusOK result (s\<lparr>srvStore := st\<rparr>))))"

section \<open>What a pushed item carries\<close>

text \<open>Version items name committed versions; the handlers queue a version only once it is committed.\<close>

definition outbox_committed :: "'b vstore \<Rightarrow> bool" where
  "outbox_committed st \<longleftrightarrow> (\<forall>item \<in> set (vsOutbox st). obKind item = OutboxItemKindReportVersion \<longrightarrow>
     committed_at st (obReportID item, obVersionNo item))"

lemma build_items_member:
  "p \<in> set (build_items pb pending st) \<longleftrightarrow> (\<exists>item \<in> set pending. buildOutboxItem pb item st = Inr p)"
  by (force simp: build_items_def split: sum.splits)

lemma buildOutboxItem_sel: "buildOutboxItem pb item st = Inr p \<Longrightarrow> piItemId p = obItemID item \<and> piSequenceNo p = obSequenceNo item"
  by (auto simp: buildOutboxItem_def Let_def split: outboxItemKind.splits sum.splits option.splits)

lemma buildOutboxItem_version:
  assumes "buildOutboxItem pb item st = Inr p" and "piPayload p = PayloadReportVersion pv"
  shows "obKind item = OutboxItemKindReportVersion \<and>
    (\<exists>r. getReport (obReportID item) (obVersionNo item) st = Inr r \<and> reportVersionFromDomain pb r = Inr pv)"
  using assms by (auto simp: buildOutboxItem_def Let_def split: outboxItemKind.splits sum.splits option.splits)

lemma getReport_look: "getReport i v st = Inr r \<longleftrightarrow> look_report st (i, v) = Some r"
  by (auto simp: getReport_def look_report_def split: option.splits)

lemma listOutboxItems_set [simp]: "set (listOutboxItems st) = set (vsOutbox st)"
  by (simp add: listOutboxItems_def)

text \<open>So the batch of a cycle is a batch as the office's landing needs it.\<close>

lemma built_faithful:
  assumes "store_wf st" and "outbox_committed st" and "p \<in> set (build_items pb (listOutboxItems st) st)"
  shows "faithful pb st p"
  unfolding faithful_def
proof (intro allI impI)
  fix pv assume pv: "piPayload p = PayloadReportVersion pv"
  obtain item where item: "item \<in> set (vsOutbox st)" "buildOutboxItem pb item st = Inr p"
    using assms(3) by (auto simp: build_items_member)
  from buildOutboxItem_version[OF item(2) pv] obtain r where
    r: "obKind item = OutboxItemKindReportVersion" "look_report st (obReportID item, obVersionNo item) = Some r"
      "reportVersionFromDomain pb r = Inr pv" by (auto simp: getReport_look)
  with assms(2) item(1) have "inChain (State r)" by (auto simp: outbox_committed_def committed_at_def)
  moreover have "r \<in> set (vsReports st)" using r(2) look_row[OF assms(1)] by simp
  ultimately show "\<exists>r \<in> set (committed st). reportVersionFromDomain pb r = Inr pv"
    using r(3) by (auto simp: committed_def)
qed

lemma built_ids:
  assumes "store_wf st"
  shows "distinct (map piItemId (build_items pb (listOutboxItems st) st))"
proof -
  have "distinct (map obItemID (vsOutbox st))" using assms by (simp add: store_wf_def)
  then have "distinct (map obItemID (listOutboxItems st))"
    unfolding listOutboxItems_def by (metis distinct_map mset_sort set_sort mset_eq_imp_distinct_iff)
  moreover have "map piItemId (build_items pb pending st) =
      map obItemID (filter (\<lambda>item. \<exists>p. buildOutboxItem pb item st = Inr p) pending)" for pending
    by (induction pending) (auto simp: build_items_def dest: buildOutboxItem_sel split: sum.split)
  ultimately show ?thesis by (simp add: distinct_map_filter)
qed

section \<open>The cycle keeps the contract of the report handlers\<close>

lemma markReportSynced_vstep: "vstep st (snd (markReportSynced i v t st))"
proof (cases "getReport i v st")
  case (Inr r)
  then have "look_report st (i, v) = Some r" by (simp add: getReport_look)
  moreover from this have "report_key r = (i, v)" by (auto simp: look_report_def dest: find_row_SomeD)
  ultimately have look: "look_report st (report_key r) = Some r" by simp
  show ?thesis
  proof (cases "markSynced t r")
    case (Some re)
    obtain r' e where re: "re = (r', e)" by fastforce
    have r': "report_key r' = report_key r" "inChain (State r')"
      using markSynced_SomeD[of t r r' e] Some by (auto simp: re report_key_def inChain_def)
    have "queue_only (\<lambda>st. attempt_val st (appendEvent e st) (\<lambda>_ st. (Inr (), st)))"
      by (rule queue_only_attempt_val[OF _ queue_only_done]) (rule appendEvent_only)
    then have "vstep st (snd (save_and_append r' e st))"
      unfolding save_and_append_def by (rule save_then_vstep[rotated]) (erule save_vstep, use r' look in auto)
    with Inr Some show ?thesis by (simp add: markReportSynced_def re)
  qed (simp add: markReportSynced_def Inr)
qed (simp add: markReportSynced_def)

lemma ack_step_vstep: "vstep st (snd (ack_step now pending ack st))"
  unfolding ack_step_def Let_def
  by (auto split: option.split intro: ack_vstep vstep_trans[OF ack_vstep markReportSynced_vstep])

lemma as_cycle_snd [simp]: "snd (as_cycle r) = snd r"
  by (auto simp: as_cycle_def split: prod.split sum.split)

lemma pushOutboxBatch_vstep: "vstep st (snd (pushOutboxBatch pb c now st))"
proof -
  have "vstep st (snd (for_each (ack_step now pending) acks st))" for pending acks
    by (rule for_each_inv[where P = "vstep st"]) (auto intro: vstep_trans[OF _ ack_step_vstep])
  then show ?thesis by (auto simp: pushOutboxBatch_def Let_def split: sum.split)
qed

lemma pushAttachmentsBatch_vstep: "vstep st (snd (pushAttachmentsBatch p c now st))"
proof -
  have step: "vsReports (snd (upload_step c now a acc)) = vsReports (snd acc) \<and>
      (store_wf (snd acc) \<longrightarrow> store_wf (snd (upload_step c now a acc)))" for a acc
    by (auto simp: upload_step_def markAttachmentSynced_def store_wf_attachments[unfolded markAttachmentSynced_def]
        split: prod.split option.split)
  have "vsReports (snd (fold (upload_step c now) as acc)) = vsReports (snd acc) \<and>
      (store_wf (snd acc) \<longrightarrow> store_wf (snd (fold (upload_step c now) as acc)))" for as acc
    by (induction as arbitrary: acc) (simp_all add: step)
  then show ?thesis unfolding pushAttachmentsBatch_def by (intro vstep_same_reports) (metis snd_conv)+
qed

text \<open>A restore bundle that lists the versions of each report from the first on, all of them committed.\<close>

definition complete_history :: "bundleReport \<Rightarrow> bool" where
  "complete_history br \<longleftrightarrow> map VersionNo (brVersions br) = map (\<lambda>n. int n + 1) [0..<length (brVersions br)] \<and>
     (\<forall>r \<in> set (brVersions br). ReportID r = brReportID br \<and> inChain (State r))"

definition restorable :: "'b restoreBundle \<Rightarrow> bool" where
  "restorable b \<longleftrightarrow> (\<forall>br \<in> set (rbReports b). complete_history br)"

lemma committed_at_vstep: "vstep st st' \<Longrightarrow> report_ok st \<Longrightarrow> committed_at st k \<Longrightarrow> committed_at st' k"
  unfolding vstep_def using committed_frozen_at by blast

lemma saved_committed: "saveReport r st = Inr st' \<Longrightarrow> inChain (State r) \<Longrightarrow> committed_at st' (report_key r)"
  using report_table.put_look_key[of r st st'] by (auto simp: committed_at_def upsert_row_def split: option.splits)

lemma restore_version_vstep:
  assumes "inChain (State r)" and "version_allowed st (ReportID r) (VersionNo r)"
  shows "vstep st (snd (restore_version r st))"
  unfolding restore_version_def
  by (rule attempt_inv[where P = "vstep st"]) (auto intro: save_vstep assms)

text \<open>Saved in order, each version finds the one before it.\<close>

lemma restore_versions_vstep:
  assumes "\<forall>r \<in> set rs. ReportID r = i \<and> inChain (State r)" and "map VersionNo rs = map (\<lambda>k. int k + n) [0..<length rs]"
    and "n = 1 \<or> 1 < n \<and> committed_at st (i, n - 1)"
  shows "vstep st (snd (for_each restore_version rs st))"
  using assms
proof (induction rs arbitrary: n st)
  case (Cons r rs)
  have r: "ReportID r = i" "inChain (State r)" "VersionNo r = n" using Cons.prems(1,2) by (simp_all add: upt_conv_Cons del: upt_Suc)
  have first: "vstep st (snd (restore_version r st))"
    by (rule restore_version_vstep) (use r Cons.prems(3) in \<open>auto simp: version_allowed_def\<close>)
  show ?case
    unfolding for_each.simps
  proof (rule andthen_inv)
    fix v st1 assume res: "restore_version r st = (Inr v, st1)" and s: "vstep st st1"
    then have "committed_at st1 (i, n)"
      using saved_committed[of r st st1] r by (auto simp: restore_version_def attempt_def report_key_def split: sum.splits)
    moreover have "map VersionNo rs = map (\<lambda>k. int k + (n + 1)) [0..<length rs]"
      using Cons.prems(2) by (simp add: upt_conv_Cons map_Suc_upt[symmetric] del: upt_Suc)
    moreover have "1 \<le> n" using Cons.prems(3) by auto
    ultimately have "vstep st1 (snd (for_each restore_version rs st1))"
      using Cons.prems(1) by (intro Cons.IH[of "n + 1"]) auto
    with s show "vstep st (snd (for_each restore_version rs st1))" by (rule vstep_trans)
  qed (use first in simp)
qed simp

lemma restore_event_vstep: "vstep st (snd (restore_event e st))"
proof -
  have "queue_only (restore_event e)"
    unfolding restore_event_def[abs_def] by (rule queue_only_attempt_val[OF _ queue_only_done]) (rule appendEvent_only)
  then show ?thesis by (rule queue_only_vstep)
qed

lemma insertChats_vstep: "vstep st (fold insertChatMessage ms st)"
proof (rule vstep_same_reports)
  show "vsReports (fold insertChatMessage ms st) = vsReports st"
    by (rule fold_frame) (simp add: insertChatMessage_def)
  show "store_wf st \<Longrightarrow> store_wf (fold insertChatMessage ms st)" by (rule store_wf_fold) (rule store_wf_inserts)
qed

lemma restore_report_vstep:
  assumes "complete_history br"
  shows "vstep st (snd (restore_report br st))"
proof -
  have v: "vstep st (snd (for_each restore_version (brVersions br) st))"
    by (rule restore_versions_vstep[of _ "brReportID br" 1]) (use assms in \<open>auto simp: complete_history_def\<close>)
  have e: "vstep s (snd (for_each restore_event es s))" for es and s :: "'a vstore"
    by (rule for_each_inv[where P = "vstep s"]) (auto intro: vstep_trans[OF _ restore_event_vstep])
  show ?thesis
    unfolding restore_report_def
  proof (rule andthen_inv[where P = "vstep st", OF v])
    fix u s1 assume s1: "vstep st s1"
    have "vstep s1 (snd (andthen (for_each restore_event (brEvents br) s1) (\<lambda>_ st. (Inr (), fold insertChatMessage (brChat br) st))))"
      by (rule andthen_inv[where P = "vstep s1", OF e]) (auto intro: vstep_trans insertChats_vstep)
    with s1 show "vstep st (snd (andthen (for_each restore_event (brEvents br) s1) (\<lambda>_ st. (Inr (), fold insertChatMessage (brChat br) st))))"
      by (rule vstep_trans)
  qed
qed

lemma applyRestoreBundle_vstep:
  assumes "restorable b"
  shows "vstep st (snd (applyRestoreBundle b st))"
  unfolding applyRestoreBundle_def
proof (rule andthen_inv)
  show "vstep st (snd (for_each restore_report (rbReports b) st))"
    by (rule for_each_inv[where P = "vstep st"])
      (use assms in \<open>auto simp: restorable_def intro: vstep_trans[OF _ restore_report_vstep]\<close>)
  have "vstep s (applyConfigBundle cb s)" for cb and s :: "'a vstore"
    by (rule vstep_same_reports) (simp add: applyConfigBundle_def, rule store_wf_inserts)
  then show "\<And>v s. vstep st s \<Longrightarrow> vstep st (snd (Inr \<lparr>riReports = int (length (rbReports b)),
             riVersions = int (sum_list (map (\<lambda>br. length (brVersions br)) (rbReports b))),
             riEvents = int (sum_list (map (\<lambda>br. length (brEvents br)) (rbReports b))),
             riChatMessages = int (sum_list (map (\<lambda>br. length (brChat br)) (rbReports b))),
             riConfigBundleApplied = (rbConfigBundle b \<noteq> None)\<rparr>,
        case rbConfigBundle b of None \<Rightarrow> s | Some cb \<Rightarrow> applyConfigBundle cb s))"
    by (auto split: option.split intro: vstep_trans)
qed

text \<open>The office answers a fetch with restorable bundles only.\<close>

definition rpc_restorable :: "('w, 'ts, 'b) rpc \<Rightarrow> bool" where
  "rpc_restorable c \<longleftrightarrow> (\<forall>i b. rpcFetchRestoreBundle c i = Inr b \<longrightarrow> restorable b)"

lemma applyPulledRestoreCommands_vstep:
  "rpc_restorable c \<Longrightarrow> vstep st (snd (applyPulledRestoreCommands c rcs cur nxt st))"
proof (induction c rcs cur nxt st rule: applyPulledRestoreCommands.induct)
  case (2 c rc rcs cur nxt st)
  show ?case
  proof (cases "rpcFetchRestoreBundle c (prcCommandId rc)")
    case (Inr b)
    obtain res st1 where a: "applyRestoreBundle b st = (res, st1)" by fastforce
    have s: "vstep st st1" using applyRestoreBundle_vstep[of b st] "2.prems" Inr a by (simp add: rpc_restorable_def)
    show ?thesis
    proof (cases res)
      case (Inr r)
      have "vstep st1 (snd (applyPulledRestoreCommands c rcs cur nxt st1))"
        using "2.IH"[OF \<open>rpcFetchRestoreBundle c _ = _\<close> a[symmetric] Inr "2.prems"] .
      with Inr s a show ?thesis using \<open>rpcFetchRestoreBundle c _ = _\<close> by (auto split: prod.split intro: vstep_trans)
    qed (use s a Inr in simp)
  qed simp
qed simp

lemma pullInboxBatch_vstep:
  assumes "rpc_restorable c" and "pullInboxBatch pb env c us st = (out, us', st')"
  shows "vstep st st'"
proof (cases "rpcPullInbox c (getInboxCursors st)")
  case (Inr resp)
  note resp = Inr
  show ?thesis
  proof (cases "versions_of_wire pb (pirSchemaVersions resp)")
    case (Inr versions)
    obtain ids cur st1 where r: "applyPulledRestoreCommands c (pirRestoreCommands resp)
        (RestoreCommandCursor (getInboxCursors st)) (RestoreCommandCursor (pirNextCursors resp)) st = ((ids, cur), st1)"
      by (metis prod.exhaust)
    have "vstep st st1" using applyPulledRestoreCommands_vstep[OF assms(1)] r by (metis snd_conv)
    moreover have "vstep st1 st'"
      using assms(2) resp Inr r applyInboxPull_vstep[of st1 "ceIter env" versions]
      by (auto simp: pullInboxBatch_def Let_def split: prod.splits) (metis snd_conv)
    ultimately show ?thesis by (rule vstep_trans)
  qed (use assms(2) resp in \<open>simp add: pullInboxBatch_def Let_def\<close>)
qed (use assms(2) in \<open>simp add: pullInboxBatch_def Let_def\<close>)

lemma runSyncCycle_vstep:
  assumes "\<forall>c. client = Some c \<longrightarrow> rpc_restorable c"
  shows "vstep (srvStore (cyServer cy)) (srvStore (cyServer (snd (runSyncCycle pb env client cy))))"
proof (cases client)
  case (Some c)
  show ?thesis
  proof (cases "svUsers (srvAccounts (cyServer cy))")
    case (Some us)
    obtain r1 st1 where a: "pushOutboxBatch pb c (ceNow env) (srvStore (cyServer cy)) = (r1, st1)" by fastforce
    obtain r2 st2 where b: "pushAttachmentsBatch (ceSorter env) c (ceNow env) st1 = (r2, st2)" by fastforce
    obtain out us' st3 where d: "pullInboxBatch pb env c us st2 = (out, us', st3)" by (metis prod.exhaust)
    have "vstep (srvStore (cyServer cy)) st1" using pushOutboxBatch_vstep a by (metis snd_conv)
    moreover have "vstep st1 st2" using pushAttachmentsBatch_vstep b by (metis snd_conv)
    moreover have "vstep st2 st3" using pullInboxBatch_vstep[OF _ d] assms \<open>client = Some c\<close> by simp
    ultimately have "vstep (srvStore (cyServer cy)) st3" using vstep_trans by blast
    then show ?thesis using \<open>client = Some c\<close> Some a b d by (simp add: runSyncCycle_def Let_def)
  qed (simp add: runSyncCycle_def Some)
qed (simp add: runSyncCycle_def)

section \<open>Everything a vessel server does\<close>

text \<open>
  The requests of its users, what happens to its accounts, and its sync cycles with whatever the office answers.  New
  report identifiers are fresh, and restore bundles list complete histories.
\<close>

abbreviation on_server :: "syncServer \<Rightarrow> server \<Rightarrow> syncServer" where
  "on_server cy s \<equiv> cy\<lparr>cyServer := s\<rparr>"

inductive vessel_step :: "('w, 'ts) pblib \<Rightarrow> crypto \<Rightarrow> syncServer \<Rightarrow> syncServer \<Rightarrow> bool" for pb c where
  create: "slice_sort (envSorter env) \<Longrightarrow> fresh_report env (srvStore (cyServer cy)) \<Longrightarrow>
    vessel_step pb c cy (on_server cy (snd (handleCreateReport env cbody (cyServer cy))))"
| save: "slice_sort (envSorter env) \<Longrightarrow> vessel_step pb c cy (on_server cy (snd (handleSaveSection env i sbody (cyServer cy))))"
| validate: "vessel_step pb c cy (on_server cy (snd (handleValidateReport env i vbody (cyServer cy))))"
| check: "vessel_step pb c cy (on_server cy (snd (handleCheckReport env i (cyServer cy))))"
| submission: "slice_sort (envSorter env) \<Longrightarrow> vessel_step pb c cy (on_server cy (snd (handleSubmitReport env i (cyServer cy))))"
| correction: "vessel_step pb c cy (on_server cy (snd (handleStartCorrection env i (cyServer cy))))"
| deletion: "slice_sort (envSorter env) \<Longrightarrow> vessel_step pb c cy (on_server cy (snd (handleDeleteReport env i (cyServer cy))))"
| acknowledgement: "vessel_step pb c cy (on_server cy (snd (handleAcknowledgeFinding env i abody (cyServer cy))))"
| chat: "vessel_step pb c cy (on_server cy (snd (handlePostChat env i pbody (cyServer cy))))"
| acquire: "vessel_step pb c cy (on_server cy (snd (handleAcquireLock env i sec (cyServer cy))))"
| release: "vessel_step pb c cy (on_server cy (snd (handleReleaseLock env i sec (cyServer cy))))"
| force_release: "vessel_step pb c cy (on_server cy (snd (handleForceReleaseLock env i sec (cyServer cy))))"
| account: "account_step c (srvAccounts (cyServer cy)) sv \<Longrightarrow> vessel_step pb c cy (on_server cy ((cyServer cy)\<lparr>srvAccounts := sv\<rparr>))"
| cycle: "\<forall>k. client = Some k \<longrightarrow> rpc_restorable k \<Longrightarrow> ceCrypto cenv = c \<Longrightarrow> vessel_step pb c cy (snd (runSyncCycle pb cenv client cy))"
| sync_now: "\<forall>k. client = Some k \<longrightarrow> rpc_restorable k \<Longrightarrow> ceCrypto cenv = c \<Longrightarrow>
    vessel_step pb c cy (snd (handleSyncNow pb env cenv client cy))"
| import: "\<forall>b. decrypted = Inr b \<longrightarrow> restorable b \<Longrightarrow>
    vessel_step pb c cy (on_server cy (snd (handleImportRestoreBundle env confirm decrypted (cyServer cy))))"

lemma sync_user_store: "srvStore (cyServer (snd (sync_user env cy))) = srvStore (cyServer cy)"
  by (simp add: sync_user_def split: prod.split)

lemma handleSyncNow_vstep:
  assumes "\<forall>k. client = Some k \<longrightarrow> rpc_restorable k"
  shows "vstep (srvStore (cyServer cy)) (srvStore (cyServer (snd (handleSyncNow pb env cenv client cy))))"
  unfolding handleSyncNow_def
proof (rule andthen_inv[where P = "\<lambda>s. vstep (srvStore (cyServer cy)) (srvStore (cyServer s))"])
  fix u and cy1 :: syncServer
  assume "vstep (srvStore (cyServer cy)) (srvStore (cyServer cy1))"
  with runSyncCycle_vstep[OF assms, of cy1 pb cenv]
  have "vstep (srvStore (cyServer cy)) (srvStore (cyServer (snd (runSyncCycle pb cenv client cy1))))"
    by (blast intro: vstep_trans)
  then show "vstep (srvStore (cyServer cy)) (srvStore (cyServer (snd (case runSyncCycle pb cenv client cy1 of (status, cy) \<Rightarrow>
         if \<not> ssvEnrolled status then writeError StatusBadRequest ''vessel is not enrolled with an office'' cy
         else case ssvLastError status of
             Some e \<Rightarrow> writeErrorText StatusBadGateway (SyncCycle e) cy
           | None \<Rightarrow> writeJSON StatusOK status cy))))"
    by (auto split: prod.split option.split)
qed (simp add: sync_user_store)

lemma handleImportRestoreBundle_hstep:
  assumes "\<forall>b. decrypted = Inr b \<longrightarrow> restorable b"
  shows "hstep s (snd (handleImportRestoreBundle env confirm decrypted s))"
proof -
  have "vstep st (snd (applyRestoreBundle b st))" if "decrypted = Inr b" for b and st :: store
    using assms that applyRestoreBundle_vstep by blast
  then show ?thesis
    by (auto simp: handleImportRestoreBundle_def hstep_def guard_def split: prod.split sum.split) (metis snd_conv)+
qed

lemma vessel_step_vstep: "vessel_step pb c cy cy' \<Longrightarrow> vstep (srvStore (cyServer cy)) (srvStore (cyServer cy'))"
proof (induction rule: vessel_step.induct)
  case (cycle client cenv cy)
  then show ?case by (intro runSyncCycle_vstep)
next
  case (sync_now client cenv cy env)
  then show ?case by (intro handleSyncNow_vstep)
qed (auto simp: hstep_def[symmetric] intro: handleCreateReport_hstep handleSaveSection_hstep handleValidateReport_hstep
    handleCheckReport_hstep handleSubmitReport_hstep handleStartCorrection_hstep handleDeleteReport_hstep
    handleAcknowledgeFinding_hstep handlePostChat_hstep handleLocks_hstep handleImportRestoreBundle_hstep hstep_same)

lemma vessel_steps_vstep: "(vessel_step pb c)\<^sup>*\<^sup>* cy cy' \<Longrightarrow> vstep (srvStore (cyServer cy)) (srvStore (cyServer cy'))"
  by (induction rule: rtranclp_induct) (auto intro: vstep_trans vessel_step_vstep)

section \<open>What an interleaving costs\<close>

text \<open>
  \<open>markReportSynced\<close> reads a report and saves it without holding \<open>writeMu\<close>.  A cascade that invalidates the report in between is
  overwritten: the row says synced and has lost its rules.
\<close>

lemma unserialised_sync:
  assumes "store_wf st" and "getReport i v st = Inr r" and "State r = StateSubmitted" and "fields_finite (Fields r)"
    and "invalidate rules t r = (bad, e1)" and "markSynced u r = Some (stale, e2)"
  shows "\<exists>st1 st2 x. saveReport bad st = Inr st1 \<and> saveReport stale st1 = Inr st2 \<and>
    getReport i v st2 = Inr x \<and> State x = StateSynced \<and> InvalidatedRules x = InvalidatedRules r"
proof -
  have look: "look_report st (i, v) = Some r" using assms(2) by (simp add: getReport_look)
  then have key: "report_key r = (i, v)" by (auto simp: look_report_def dest: find_row_SomeD)
  have bad: "report_key bad = (i, v)" "Fields bad = Fields r" "EventTime bad = EventTime r" "EventType bad = EventType r"
    using assms(5) key by (auto simp: invalidate_def Let_def report_key_def split: if_splits)
  have stale: "report_key stale = (i, v)" "Fields stale = Fields r" "EventTime stale = EventTime r" "EventType stale = EventType r"
      "State stale = StateSynced" "InvalidatedRules stale = InvalidatedRules r"
    using assms(3,6) key by (auto simp: markSynced_def Let_def report_key_def)
  have save: "\<exists>st'. saveReport n s = Inr st' \<and> look_report st' (i, v) = Some (upsert_row o' n)"
    if asm: "look_report s (i, v) = Some o'" "report_key n = (i, v)" "Fields n = Fields o'" "EventTime n = EventTime o'"
      "EventType n = EventType o'" "fields_finite (Fields n)" for s n o'
  proof -
    have "find_row report_key (vsReports s) (report_key n) = Some o'" using that(1,2) by (simp add: look_report_def)
    then obtain st' where st': "saveReport n s = Inr st'"
      using asm(3-6) by (simp add: saveReport_def trigger_aborts_def)
    then show ?thesis using report_table.put_look_key[OF st'] asm(1,2) by auto
  qed
  obtain st1 where st1: "saveReport bad st = Inr st1" "look_report st1 (i, v) = Some (upsert_row r bad)"
    using save[OF look bad] assms(4) bad(2) by auto
  obtain st2 where st2: "saveReport stale st1 = Inr st2" "look_report st2 (i, v) = Some (upsert_row (upsert_row r bad) stale)"
    using save[OF st1(2) stale(1)] stale bad assms(4) by (auto simp: upsert_row_def)
  then show ?thesis using st1 stale by (auto simp: getReport_look upsert_row_def)
qed

end
