(* ===== verification/OfficeAccounts.thy ===== *)
theory OfficeAccounts
  imports OfficeStore
begin

text \<open>
  The office's own accounts: \<open>office/auth\<close> (users and their combinable roles), the \<open>users\<close> table of
  \<open>office/store/users.go\<close>, and the handlers of \<open>office/httpapi\<close> that sign users in and administer them (\<open>auth.go\<close>,
  \<open>users.go\<close>, \<open>setup.go\<close>, \<open>server.go\<close>).  The session table is the vessel's (\<open>session.go\<close> is the same code).  What a
  request brings besides its body is one record: the clock, the cookie, the hash package, the database, the numbers drawn.

  Lemmas: the table stays well formed; whoever gains the Admin role gains it through a request of a signed-in, active Admin,
  or as the first account; a deactivated account is shut out with its session and let in again with it.
\<close>

section \<open>Roles and users\<close>

definition RoleAdmin :: role where "RoleAdmin = ''admin''"
definition RoleConfigManager :: role where "RoleConfigManager = ''configManager''"
definition RoleCommercialEditor :: role where "RoleCommercialEditor = ''commercialEditor''"
definition RoleReviewer :: role where "RoleReviewer = ''reviewer''"
definition RoleViewer :: role where "RoleViewer = ''viewer''"

lemmas role_defs = RoleAdmin_def RoleConfigManager_def RoleCommercialEditor_def RoleReviewer_def RoleViewer_def

definition allRoles :: "role list" where
  "allRoles = [RoleAdmin, RoleConfigManager, RoleCommercialEditor, RoleReviewer, RoleViewer]"

definition normalize_roles :: "role list \<Rightarrow> role list" where
  "normalize_roles rs = fold (\<lambda>r out. if r \<in> set out then out else out @ [r]) rs []"

datatype office_error =
    OErrUsernameRequired
  | OErrNoRole
  | OErrInvalidRole role
  | OErrPassword user_error
  | OErrUserID
  | OErrToken
  | OErrSession user_error
  | OErrUsers ostore_error

definition validateRoles :: "role list \<Rightarrow> office_error option" where
  "validateRoles rs =
     (if rs = [] then Some OErrNoRole
      else map_option OErrInvalidRole (List.find (\<lambda>r. r \<notin> set allRoles) rs))"

record officeUser =
  ouID :: string
  ouUsername :: string
  ouPasswordHash :: string
  ouRoles :: "role list"
  ouMustChangePassword :: bool
  ouActive :: bool
  ouCreatedAt :: gotime
  ouUpdatedAt :: gotime

definition onewUser ::
  "crypto \<Rightarrow> string option \<Rightarrow> gotime \<Rightarrow> string \<Rightarrow> string \<Rightarrow> role list \<Rightarrow> office_error + officeUser" where
  "onewUser c uuid now username temporaryPassword roles =
     (let username = trim_space username; roles = normalize_roles roles in
      if username = '''' then Inl OErrUsernameRequired
      else case validateRoles roles of
        Some e \<Rightarrow> Inl e
      | None \<Rightarrow>
     (case hashPassword c temporaryPassword of
        Inl e \<Rightarrow> Inl (OErrPassword e)
      | Inr hash \<Rightarrow>
     (case uuid of
        None \<Rightarrow> Inl OErrUserID
      | Some i \<Rightarrow>
          Inr \<lparr>ouID = i, ouUsername = username, ouPasswordHash = hash, ouRoles = roles, ouMustChangePassword = True,
               ouActive = True, ouCreatedAt = now, ouUpdatedAt = now\<rparr>)))"

definition setRoles :: "gotime \<Rightarrow> role list \<Rightarrow> officeUser \<Rightarrow> office_error + officeUser" where
  "setRoles now roles u =
     (let roles = normalize_roles roles in
      case validateRoles roles of Some e \<Rightarrow> Inl e | None \<Rightarrow> Inr (u\<lparr>ouRoles := roles, ouUpdatedAt := now\<rparr>))"

definition ochangePassword :: "crypto \<Rightarrow> gotime \<Rightarrow> string \<Rightarrow> officeUser \<Rightarrow> office_error + officeUser" where
  "ochangePassword c now newPassword u =
     (case hashPassword c newPassword of
        Inl e \<Rightarrow> Inl (OErrPassword e)
      | Inr hash \<Rightarrow> Inr (u\<lparr>ouPasswordHash := hash, ouMustChangePassword := False, ouUpdatedAt := now\<rparr>))"

definition oresetPassword :: "crypto \<Rightarrow> gotime \<Rightarrow> string \<Rightarrow> officeUser \<Rightarrow> office_error + officeUser" where
  "oresetPassword c now temporaryPassword u =
     (case hashPassword c temporaryPassword of
        Inl e \<Rightarrow> Inl (OErrPassword e)
      | Inr hash \<Rightarrow> Inr (u\<lparr>ouPasswordHash := hash, ouMustChangePassword := True, ouUpdatedAt := now\<rparr>))"

definition oauthenticate :: "crypto \<Rightarrow> string \<Rightarrow> officeUser \<Rightarrow> user_error + bool" where
  "oauthenticate c password u = verifyPassword c password (ouPasswordHash u)"

definition deactivate :: "gotime \<Rightarrow> officeUser \<Rightarrow> officeUser" where
  "deactivate now u = u\<lparr>ouActive := False, ouUpdatedAt := now\<rparr>"

definition reactivate :: "gotime \<Rightarrow> officeUser \<Rightarrow> officeUser" where
  "reactivate now u = u\<lparr>ouActive := True, ouUpdatedAt := now\<rparr>"

definition canManageUsers :: "officeUser \<Rightarrow> bool" where
  "canManageUsers u \<longleftrightarrow> RoleAdmin \<in> set (ouRoles u)"

definition canManageConfig :: "officeUser \<Rightarrow> bool" where
  "canManageConfig u \<longleftrightarrow> RoleConfigManager \<in> set (ouRoles u)"

definition canEditCommercialData :: "officeUser \<Rightarrow> bool" where
  "canEditCommercialData u \<longleftrightarrow> RoleCommercialEditor \<in> set (ouRoles u)"

definition canReview :: "officeUser \<Rightarrow> bool" where
  "canReview u \<longleftrightarrow> RoleReviewer \<in> set (ouRoles u)"

section \<open>The users table\<close>

definition stored_user :: "pg \<Rightarrow> officeUser \<Rightarrow> officeUser" where
  "stored_user pg u = u\<lparr>ouCreatedAt := pgTime pg (ouCreatedAt u), ouUpdatedAt := pgTime pg (ouUpdatedAt u)\<rparr>"

definition ocreateUser :: "pg \<Rightarrow> officeUser \<Rightarrow> officeUser list \<Rightarrow> ostore_error + officeUser list" where
  "ocreateUser pg u us =
     (if pgText pg (ouUsername u) \<and> \<not> list_ex (\<lambda>x. ouID x = ouID u \<or> ouUsername x = ouUsername u) us
      then Inr (us @ [stored_user pg u]) else Inl OErrStatement)"

definition oupdateUser :: "pg \<Rightarrow> officeUser \<Rightarrow> officeUser list \<Rightarrow> ostore_error + officeUser list" where
  "oupdateUser pg u us =
     (if \<not> pgText pg (ouUsername u) then Inl OErrStatement
      else if \<not> list_ex (\<lambda>x. ouID x = ouID u) us then Inl OErrNotFound
      else if list_ex (\<lambda>x. ouID x \<noteq> ouID u \<and> ouUsername x = ouUsername u) us then Inl OErrStatement
      else Inr (map (\<lambda>x. if ouID x = ouID u
             then (stored_user pg u)\<lparr>ouCreatedAt := ouCreatedAt x\<rparr> else x) us))"

definition ogetUser :: "string \<Rightarrow> officeUser list \<Rightarrow> ostore_error + officeUser" where
  "ogetUser i us = (case find_row ouID us i of None \<Rightarrow> Inl OErrNotFound | Some u \<Rightarrow> Inr u)"

text \<open>A name the database does not take as text is an error of the statement.\<close>

definition ogetUserByUsername :: "pg \<Rightarrow> string \<Rightarrow> officeUser list \<Rightarrow> ostore_error + officeUser" where
  "ogetUserByUsername pg n us =
     (if \<not> pgText pg n then Inl OErrStatement
      else case find_row ouUsername us n of None \<Rightarrow> Inl OErrNotFound | Some u \<Rightarrow> Inr u)"

definition ohasAnyUser :: "officeUser list \<Rightarrow> bool" where
  "ohasAnyUser us \<longleftrightarrow> us \<noteq> []"

definition olistUsers :: "officeUser list \<Rightarrow> officeUser list" where
  "olistUsers us = sort_key ouUsername us"

section \<open>Signing in\<close>

record officeServer =
  ofUsers :: "officeUser list"
  ofSessions :: sessions
  ofStore :: ostore

text \<open>The orders in which the database answers queries that leave them open.\<close>

record rowOrders =
  ordVessels :: "vesselRow list \<Rightarrow> vesselRow list"
  ordVersions :: "landedVersion list \<Rightarrow> landedVersion list"
  ordEnrollments :: "enrollment list \<Rightarrow> enrollment list"
  ordAssignments :: "bundleAssignment list \<Rightarrow> bundleAssignment list"
  ordCadence :: "cadenceRule list \<Rightarrow> cadenceRule list"
  ordSeverities :: "ruleSeverityAssignment list \<Rightarrow> ruleSeverityAssignment list"
  ordProfiles :: "profileAssignment list \<Rightarrow> profileAssignment list"
  ordPolicies :: "schemaFieldPolicy list \<Rightarrow> schemaFieldPolicy list"

record officeReq =
  oqNow :: gotime
  oqCookie :: "string option"
  oqCrypto :: crypto
  oqPg :: pg
  oqDummyHash :: string
  oqUUID :: "nat \<Rightarrow> string option" \<comment> \<open>the identifiers drawn, in order\<close>
  oqToken :: "nat \<Rightarrow> string option" \<comment> \<open>the random tokens drawn, in order\<close>
  oqSorter :: slice_sorter
  oqOrders :: rowOrders
  oqParse :: "string \<Rightarrow> schema option" \<comment> \<open>\<open>schema.Parse\<close>\<close>

type_synonym 'a office_handled = "(office_error, 'a, officeServer) handled"
type_synonym 'a office_step_of = "(office_error failure + 'a) \<times> officeServer"

definition oauthenticatedUser :: "officeReq \<Rightarrow> officeServer \<Rightarrow> ('e failure + officeUser) \<times> officeServer" where
  "oauthenticatedUser q s =
     (case oqCookie q of
        None \<Rightarrow> writeError StatusUnauthorized ''not logged in'' s
      | Some token \<Rightarrow>
          (case session_lookup (oqNow q) token (ofSessions s) of (found, ss) \<Rightarrow>
             let s = s\<lparr>ofSessions := ss\<rparr> in
             case found of
               None \<Rightarrow> writeError StatusUnauthorized ''session expired'' s
             | Some userID \<Rightarrow>
                 (case ogetUser userID (ofUsers s) of
                    Inl _ \<Rightarrow> writeError StatusUnauthorized ''session refers to an unknown user'' s
                  | Inr u \<Rightarrow> guard (\<not> ouActive u) StatusUnauthorized ''session expired'' s (\<lambda>s. (Inr u, s)))))"

definition requireAdmin :: "officeReq \<Rightarrow> officeServer \<Rightarrow> ('e failure + officeUser) \<times> officeServer" where
  "requireAdmin q s =
     andthen (oauthenticatedUser q s) (\<lambda>u s.
     guard (\<not> canManageUsers u) StatusForbidden ''only Admin may manage vessels and enrollment'' s (\<lambda>s. (Inr u, s)))"

definition requireReviewer :: "officeReq \<Rightarrow> officeServer \<Rightarrow> ('e failure + officeUser) \<times> officeServer" where
  "requireReviewer q s =
     andthen (oauthenticatedUser q s) (\<lambda>u s.
     guard (\<not> canReview u) StatusForbidden ''only Reviewer may flag fields with remarks'' s (\<lambda>s. (Inr u, s)))"

definition ostartSession :: "officeReq \<Rightarrow> string \<Rightarrow> officeServer \<Rightarrow> (office_error + string) \<times> officeServer" where
  "ostartSession q userID s =
     (case session_create (oqToken q 0) (oqNow q) userID (ofSessions s) of
        Inl e \<Rightarrow> (Inl (OErrSession e), s)
      | Inr (token, ss) \<Rightarrow> (Inr token, s\<lparr>ofSessions := ss\<rparr>))"

record officeUserView =
  ovID :: string
  ovUsername :: string
  ovRoles :: "role list"
  ovMustChangePassword :: bool
  ovActive :: bool
  ovCreatedAt :: gotime

definition otoUserView :: "officeUser \<Rightarrow> officeUserView" where
  "otoUserView u = \<lparr>ovID = ouID u, ovUsername = ouUsername u, ovRoles = ouRoles u,
     ovMustChangePassword = ouMustChangePassword u, ovActive = ouActive u, ovCreatedAt = ouCreatedAt u\<rparr>"

text \<open>A write to the table; the status of its failure is the handler's.\<close>

definition write_users ::
  "int \<Rightarrow> ostore_error + officeUser list \<Rightarrow> officeServer \<Rightarrow> (officeServer \<Rightarrow> 'a office_step_of) \<Rightarrow> 'a office_step_of" where
  "write_users status res s k =
     (case res of
        Inl e \<Rightarrow> writeErrorText status (OErrUsers e) s
      | Inr us \<Rightarrow> k (s\<lparr>ofUsers := us\<rparr>))"

definition ohandleLogin :: "officeReq \<Rightarrow> loginRequest option \<Rightarrow> officeServer \<Rightarrow> (officeUserView \<times> string) office_handled" where
  "ohandleLogin q body s =
     decode body s (\<lambda>req.
       let found = ogetUserByUsername (oqPg q) (lrUsername req) (ofUsers s);
           hash = (case found of Inr u \<Rightarrow> ouPasswordHash u | Inl _ \<Rightarrow> oqDummyHash q)
       in case verifyPassword (oqCrypto q) (lrPassword req) hash of
            Inl e \<Rightarrow> writeErrorText StatusInternalServerError (OErrPassword e) s
          | Inr match \<Rightarrow>
              (case found of
                 Inl _ \<Rightarrow> writeError StatusUnauthorized ''incorrect username or password'' s
               | Inr u \<Rightarrow>
                   guard (\<not> match \<or> \<not> ouActive u) StatusUnauthorized ''incorrect username or password'' s (\<lambda>s.
                     case ostartSession q (ouID u) s of
                       (Inl e, s) \<Rightarrow> writeErrorText StatusInternalServerError e s
                     | (Inr token, s) \<Rightarrow> writeJSON StatusOK (otoUserView u, token) s)))"

definition ohandleLogout :: "officeReq \<Rightarrow> officeServer \<Rightarrow> unit office_handled" where
  "ohandleLogout q s =
     (let s = (case oqCookie q of None \<Rightarrow> s | Some token \<Rightarrow> s\<lparr>ofSessions := session_revoke token (ofSessions s)\<rparr>)
      in writeJSON StatusNoContent () s)"

definition ohandleMe :: "officeReq \<Rightarrow> officeServer \<Rightarrow> officeUserView office_handled" where
  "ohandleMe q s = andthen (oauthenticatedUser q s) (\<lambda>u s. writeJSON StatusOK (otoUserView u) s)"

definition ohandleChangePassword ::
  "officeReq \<Rightarrow> changePasswordRequest option \<Rightarrow> officeServer \<Rightarrow> officeUserView office_handled" where
  "ohandleChangePassword q body s =
     andthen (oauthenticatedUser q s) (\<lambda>u s.
     decode body s (\<lambda>req.
       case oauthenticate (oqCrypto q) (cpCurrentPassword req) u of
         Inl e \<Rightarrow> writeErrorText StatusInternalServerError (OErrPassword e) s
       | Inr match \<Rightarrow>
           guard (\<not> match) StatusUnauthorized ''current password is incorrect'' s (\<lambda>s.
             case ochangePassword (oqCrypto q) (oqNow q) (cpNewPassword req) u of
               Inl e \<Rightarrow> writeErrorText StatusBadRequest e s
             | Inr u \<Rightarrow> write_users StatusInternalServerError (oupdateUser (oqPg q) u (ofUsers s)) s
                          (writeJSON StatusOK (otoUserView u)))))"

section \<open>Administration\<close>

definition ohandleListUsers :: "officeReq \<Rightarrow> officeServer \<Rightarrow> officeUserView list office_handled" where
  "ohandleListUsers q s =
     andthen (requireAdmin q s) (\<lambda>_ s. writeJSON StatusOK (map otoUserView (olistUsers (ofUsers s))) s)"

record officeCreateUserRequest =
  ocrUsername :: string
  ocrRoles :: "role list"

definition ohandleCreateUser ::
  "officeReq \<Rightarrow> officeCreateUserRequest option \<Rightarrow> officeServer \<Rightarrow> (officeUserView \<times> string) office_handled" where
  "ohandleCreateUser q body s =
     andthen (requireAdmin q s) (\<lambda>_ s.
     decode body s (\<lambda>req.
       case oqToken q 0 of
         None \<Rightarrow> writeErrorText StatusInternalServerError OErrToken s
       | Some temporaryPassword \<Rightarrow>
           (case onewUser (oqCrypto q) (oqUUID q 0) (oqNow q) (ocrUsername req) temporaryPassword (ocrRoles req) of
              Inl e \<Rightarrow> writeErrorText StatusBadRequest e s
            | Inr u \<Rightarrow> write_users StatusBadRequest (ocreateUser (oqPg q) u (ofUsers s)) s
                         (writeJSON StatusCreated (otoUserView u, temporaryPassword)))))"

text \<open>The common frame: the administrator, then the account the path names.\<close>

definition with_user ::
  "officeReq \<Rightarrow> string \<Rightarrow> officeServer \<Rightarrow> (officeUser \<Rightarrow> officeServer \<Rightarrow> 'a office_step_of) \<Rightarrow> 'a office_step_of" where
  "with_user q i s k =
     andthen (requireAdmin q s) (\<lambda>_ s.
       case ogetUser i (ofUsers s) of
         Inl _ \<Rightarrow> writeError StatusNotFound ''user not found'' s
       | Inr u \<Rightarrow> k u s)"

definition save_user :: "officeReq \<Rightarrow> officeUser \<Rightarrow> 'a \<Rightarrow> officeServer \<Rightarrow> 'a office_handled" where
  "save_user q u body s =
     write_users StatusInternalServerError (oupdateUser (oqPg q) u (ofUsers s)) s (writeJSON StatusOK body)"

definition ohandleUpdateUserRoles ::
  "officeReq \<Rightarrow> string \<Rightarrow> role list option \<Rightarrow> officeServer \<Rightarrow> officeUserView office_handled" where
  "ohandleUpdateUserRoles q i body s =
     with_user q i s (\<lambda>u s.
     decode body s (\<lambda>roles.
       case setRoles (oqNow q) roles u of
         Inl e \<Rightarrow> writeErrorText StatusBadRequest e s
       | Inr u \<Rightarrow> save_user q u (otoUserView u) s))"

definition ohandleDeactivateUser :: "officeReq \<Rightarrow> string \<Rightarrow> officeServer \<Rightarrow> officeUserView office_handled" where
  "ohandleDeactivateUser q i s =
     with_user q i s (\<lambda>u s. let u = deactivate (oqNow q) u in save_user q u (otoUserView u) s)"

definition ohandleReactivateUser :: "officeReq \<Rightarrow> string \<Rightarrow> officeServer \<Rightarrow> officeUserView office_handled" where
  "ohandleReactivateUser q i s =
     with_user q i s (\<lambda>u s. let u = reactivate (oqNow q) u in save_user q u (otoUserView u) s)"

definition ohandleResetUserPassword ::
  "officeReq \<Rightarrow> string \<Rightarrow> officeServer \<Rightarrow> (officeUserView \<times> string) office_handled" where
  "ohandleResetUserPassword q i s =
     with_user q i s (\<lambda>u s.
       case oqToken q 0 of
         None \<Rightarrow> writeErrorText StatusInternalServerError OErrToken s
       | Some temporaryPassword \<Rightarrow>
           (case oresetPassword (oqCrypto q) (oqNow q) temporaryPassword u of
              Inl e \<Rightarrow> writeErrorText StatusBadRequest e s
            | Inr u \<Rightarrow> save_user q u (otoUserView u, temporaryPassword) s))"

definition ohandleSetupStatus :: "officeServer \<Rightarrow> bool office_handled" where
  "ohandleSetupStatus s = writeJSON StatusOK (ohasAnyUser (ofUsers s)) s"

definition ohandleSetupAdmin :: "officeReq \<Rightarrow> loginRequest option \<Rightarrow> officeServer \<Rightarrow> (officeUserView \<times> string) office_handled" where
  "ohandleSetupAdmin q body s =
     guard (ohasAnyUser (ofUsers s)) StatusConflict ''a user already exists; use the login screen instead'' s (\<lambda>s.
     decode body s (\<lambda>req.
       case onewUser (oqCrypto q) (oqUUID q 0) (oqNow q) (lrUsername req) (lrPassword req) allRoles of
         Inl e \<Rightarrow> writeErrorText StatusBadRequest e s
       | Inr u \<Rightarrow>
           (let u = u\<lparr>ouMustChangePassword := False\<rparr> in
            write_users StatusInternalServerError (ocreateUser (oqPg q) u (ofUsers s)) s (\<lambda>s.
              case ostartSession q (ouID u) s of
                (Inl e, s) \<Rightarrow> writeErrorText StatusInternalServerError e s
              | (Inr token, s) \<Rightarrow> writeJSON StatusCreated (otoUserView u, token) s))))"

section \<open>Well-formed accounts\<close>

lemma normalize_roles_fold:
  "distinct out \<Longrightarrow>
   distinct (fold (\<lambda>r out. if r \<in> set out then out else out @ [r]) rs out) \<and>
   set (fold (\<lambda>r out. if r \<in> set out then out else out @ [r]) rs out) = set out \<union> set rs"
  by (induction rs arbitrary: out) auto

lemma normalize_roles_sel [simp]: "distinct (normalize_roles rs)" "set (normalize_roles rs) = set rs"
  using normalize_roles_fold[of "[]" rs] by (simp_all add: normalize_roles_def)

definition roles_ok :: "role list \<Rightarrow> bool" where
  "roles_ok rs \<longleftrightarrow> rs \<noteq> [] \<and> distinct rs \<and> set rs \<subseteq> set allRoles"

lemma validateRoles_ok: "validateRoles (normalize_roles rs) = None \<longleftrightarrow> roles_ok (normalize_roles rs)"
  by (auto simp: validateRoles_def roles_ok_def find_None_iff)

definition ouser_ok :: "officeUser \<Rightarrow> bool" where
  "ouser_ok u \<longleftrightarrow> roles_ok (ouRoles u) \<and> ouUsername u \<noteq> '''' \<and> trim_space (ouUsername u) = ouUsername u"

definition ousers_wf :: "officeUser list \<Rightarrow> bool" where
  "ousers_wf us \<longleftrightarrow> distinct (map ouID us) \<and> distinct (map ouUsername us) \<and> list_all ouser_ok us"

lemma onewUser_InrD:
  assumes "onewUser c uuid now n p rs = Inr u"
  shows "ouser_ok u" and "uuid = Some (ouID u)" and "ouUsername u = trim_space n" and "set (ouRoles u) = set rs"
    and "ouActive u" and "ouMustChangePassword u" and "hashPassword c p = Inr (ouPasswordHash u)"
proof -
  have "validateRoles (normalize_roles rs) = None"
    using assms by (auto simp: onewUser_def Let_def split: if_splits option.splits)
  then have "roles_ok (normalize_roles rs)" by (simp add: validateRoles_ok)
  then show "ouser_ok u" and "uuid = Some (ouID u)" and "ouUsername u = trim_space n" and "set (ouRoles u) = set rs"
    and "ouActive u" and "ouMustChangePassword u" and "hashPassword c p = Inr (ouPasswordHash u)"
    using assms by (auto simp: onewUser_def Let_def ouser_ok_def split: if_splits option.splits sum.splits)
qed

lemma setRoles_InrD: "setRoles now rs u = Inr u' \<Longrightarrow> \<exists>rs'. roles_ok rs' \<and> u' = u\<lparr>ouRoles := rs', ouUpdatedAt := now\<rparr>"
  by (auto simp: setRoles_def Let_def validateRoles_ok split: option.splits)

lemma stored_user_sel [simp]:
  "ouID (stored_user pg u) = ouID u" "ouUsername (stored_user pg u) = ouUsername u" "ouRoles (stored_user pg u) = ouRoles u"
  "ouActive (stored_user pg u) = ouActive u" "ouPasswordHash (stored_user pg u) = ouPasswordHash u"
  "ouMustChangePassword (stored_user pg u) = ouMustChangePassword u"
  by (simp_all add: stored_user_def)

text \<open>What one request may do to the table; \<open>a\<close> says whether an active Admin sent it.\<close>

inductive oaccount_change :: "bool \<Rightarrow> officeUser list \<Rightarrow> officeUser list \<Rightarrow> bool" where
  keep: "oaccount_change a us us"
| first: "ocreateUser pg u [] = Inr us' \<Longrightarrow> ouser_ok u \<Longrightarrow> oaccount_change a [] us'"
| add: "ocreateUser pg u us = Inr us' \<Longrightarrow> ouser_ok u \<Longrightarrow> oaccount_change True us us'"
| amend: "oupdateUser pg u us = Inr us' \<Longrightarrow> old \<in> set us \<Longrightarrow> ouID u = ouID old \<Longrightarrow> ouUsername u = ouUsername old \<Longrightarrow>
    ouRoles u = ouRoles old \<or> a \<and> roles_ok (ouRoles u) \<Longrightarrow> ouActive u = ouActive old \<or> a \<Longrightarrow> oaccount_change a us us'"

inductive_cases oaccount_changeE: "oaccount_change a us us'"

definition oset_row :: "pg \<Rightarrow> officeUser \<Rightarrow> officeUser list \<Rightarrow> officeUser list" where
  "oset_row pg u us = map (\<lambda>x. if ouID x = ouID u then (stored_user pg u)\<lparr>ouCreatedAt := ouCreatedAt x\<rparr> else x) us"

lemma oupdateUser_InrD: "oupdateUser pg u us = Inr us' \<Longrightarrow> us' = oset_row pg u us"
  by (auto simp: oupdateUser_def oset_row_def split: if_splits)

lemma ocreateUser_InrD:
  "ocreateUser pg u us = Inr us' \<Longrightarrow>
   us' = us @ [stored_user pg u] \<and> ouID u \<notin> ouID ` set us \<and> ouUsername u \<notin> ouUsername ` set us"
  by (auto simp: ocreateUser_def list_ex_iff split: if_splits)

lemma oset_row_map: "\<forall>x \<in> set us. ouID x = ouID u \<longrightarrow> f ((stored_user pg u)\<lparr>ouCreatedAt := ouCreatedAt x\<rparr>) = f x \<Longrightarrow>
   map f (oset_row pg u us) = map f us"
  by (auto simp: oset_row_def)

lemma oaccount_change_wf: "oaccount_change a us us' \<Longrightarrow> ousers_wf us \<Longrightarrow> ousers_wf us'"
proof (induction rule: oaccount_change.induct)
  case (amend pg u us us' old a)
  have us': "us' = oset_row pg u us" using amend(1) by (rule oupdateUser_InrD)
  have same: "x = old" if "x \<in> set us" "ouID x = ouID u" for x
    using that amend(2,3,7) by (metis (mono_tags, lifting) distinct_map inj_onD ousers_wf_def)
  have "map ouID us' = map ouID us" "map ouUsername us' = map ouUsername us"
    unfolding us' using same amend(4) by (auto intro!: oset_row_map)
  moreover have "ouser_ok old" using amend(2,7) by (auto simp: ousers_wf_def list_all_iff)
  then have "list_all ouser_ok us'"
    using amend(4,5,7) unfolding us' by (auto simp: oset_row_def ousers_wf_def list_all_iff ouser_ok_def)
  ultimately show ?case using amend(7) by (simp add: ousers_wf_def)
qed (auto simp: ousers_wf_def ouser_ok_def dest!: ocreateUser_InrD)

text \<open>Who may administer.\<close>

definition active_admins :: "officeUser list \<Rightarrow> string set" where
  "active_admins us = {ouID u | u. u \<in> set us \<and> ouActive u \<and> canManageUsers u}"

lemma active_admins_image:
  "active_admins us = fst ` set (filter (\<lambda>(i, a, rs). a \<and> RoleAdmin \<in> set rs) (map (\<lambda>u. (ouID u, ouActive u, ouRoles u)) us))"
  by (auto simp: active_admins_def canManageUsers_def filter_map image_image o_def)

lemma oaccount_change_admins:
  "oaccount_change a us us' \<Longrightarrow> \<not> a \<Longrightarrow> us \<noteq> [] \<Longrightarrow> ousers_wf us \<Longrightarrow> active_admins us' = active_admins us"
proof (induction rule: oaccount_change.induct)
  case (amend pg u us us' old a)
  have us': "us' = oset_row pg u us" using amend(1) by (rule oupdateUser_InrD)
  have same: "x = old" if "x \<in> set us" "ouID x = ouID u" for x
    using that amend(2,3,9) by (metis (mono_tags, lifting) distinct_map inj_onD ousers_wf_def)
  let ?f = "\<lambda>u. (ouID u, ouActive u, ouRoles u)"
  have "map ?f us' = map ?f us"
    unfolding us'
  proof (rule oset_row_map, intro ballI impI)
    fix x assume "x \<in> set us" and "ouID x = ouID u"
    then have "x = old" by (rule same)
    then show "?f ((stored_user pg u)\<lparr>ouCreatedAt := ouCreatedAt x\<rparr>) = ?f x" using amend(3,5,6,7) by auto
  qed
  then show ?case by (simp add: active_admins_image)
qed simp_all

section \<open>What a request does\<close>

text \<open>Whose request it is.\<close>

definition osigned_in :: "officeReq \<Rightarrow> officeServer \<Rightarrow> officeUser \<Rightarrow> bool" where
  "osigned_in q s u \<longleftrightarrow> (\<exists>token. oqCookie q = Some token \<and>
     session_lookup (oqNow q) token (ofSessions s) = (Some (ouID u), ofSessions s) \<and>
     ogetUser (ouID u) (ofUsers s) = Inr u \<and> ouActive u)"

definition by_admin :: "officeReq \<Rightarrow> officeServer \<Rightarrow> bool" where
  "by_admin q s \<longleftrightarrow> (\<exists>u. osigned_in q s u \<and> canManageUsers u)"

lemma session_lookup_Some: "session_lookup now token ss = (Some i, ss') \<Longrightarrow> ss' = ss"
  by (auto simp: session_lookup_def split: option.splits if_splits)

lemma ogetUser_InrD: "ogetUser i us = Inr u \<Longrightarrow> u \<in> set us \<and> ouID u = i"
  by (auto simp: ogetUser_def split: option.splits dest!: find_row_SomeD)

lemma oauthenticatedUser_Inr: "oauthenticatedUser q s = (Inr u, s') \<longleftrightarrow> s' = s \<and> osigned_in q s u"
  unfolding oauthenticatedUser_def osigned_in_def Let_def
  by (cases "oqCookie q"; simp add: writeError_def; cases "session_lookup (oqNow q) (the (oqCookie q)) (ofSessions s)";
      auto simp: guard_def writeError_def split: option.splits sum.splits if_splits dest: session_lookup_Some ogetUser_InrD)

lemma osigned_in_passes: "osigned_in q s u \<Longrightarrow> oauthenticatedUser q s = (Inr u, s)"
  by (simp add: oauthenticatedUser_Inr)

lemma osigned_in_unique: "osigned_in q s u \<Longrightarrow> osigned_in q s u' \<Longrightarrow> u' = u"
  unfolding osigned_in_def by (metis option.inject prod.inject sum.inject(2))

lemma osigned_inD: "osigned_in q s u \<Longrightarrow> u \<in> set (ofUsers s) \<and> ouActive u"
  by (auto simp: osigned_in_def dest: ogetUser_InrD)

lemma oauthenticatedUser_frame:
  "oauthenticatedUser q s = (r, s') \<Longrightarrow> ofUsers s' = ofUsers s \<and> ofStore s' = ofStore s"
  by (auto simp: oauthenticatedUser_def Let_def guard_def writeError_def split: option.splits prod.splits sum.splits if_splits)

lemma requireAdmin_frame: "requireAdmin q s = (r, s') \<Longrightarrow> ofUsers s' = ofUsers s \<and> ofStore s' = ofStore s"
  by (auto simp: requireAdmin_def andthen_def guard_def writeError_def dest: oauthenticatedUser_frame
      split: prod.splits sum.splits if_splits)

lemma requireReviewer_frame: "requireReviewer q s = (r, s') \<Longrightarrow> ofUsers s' = ofUsers s \<and> ofStore s' = ofStore s"
  by (auto simp: requireReviewer_def andthen_def guard_def writeError_def dest: oauthenticatedUser_frame
      split: prod.splits sum.splits if_splits)

lemma requireAdmin_Inr: "requireAdmin q s = (Inr u, s') \<longleftrightarrow> s' = s \<and> osigned_in q s u \<and> canManageUsers u"
  by (rule iffI) (auto simp: requireAdmin_def andthen_def guard_def writeError_def oauthenticatedUser_Inr osigned_in_passes
      split: prod.splits sum.splits if_splits dest: osigned_in_unique)

lemma requireReviewer_Inr: "requireReviewer q s = (Inr u, s') \<longleftrightarrow> s' = s \<and> osigned_in q s u \<and> canReview u"
  by (rule iffI) (auto simp: requireReviewer_def andthen_def guard_def writeError_def oauthenticatedUser_Inr osigned_in_passes
      split: prod.splits sum.splits if_splits dest: osigned_in_unique)

lemma by_admin_active: "by_admin q s \<Longrightarrow> active_admins (ofUsers s) \<noteq> {}"
  by (auto simp: by_admin_def active_admins_def dest: osigned_inD)

text \<open>A handler behind \<open>requireAdmin\<close> or \<open>authenticatedUser\<close>.\<close>

lemma behind_admin:
  assumes "\<And>u. osigned_in q s u \<Longrightarrow> canManageUsers u \<Longrightarrow> oaccount_change True (ofUsers s) (ofUsers (snd (k u s)))"
  shows "oaccount_change (by_admin q s) (ofUsers s) (ofUsers (snd (andthen (requireAdmin q s) k :: 'a office_step_of)))"
proof (cases "requireAdmin q s :: (office_error failure + officeUser) \<times> officeServer")
  case (Pair r s')
  show ?thesis
  proof (cases r)
    case (Inl e)
    then show ?thesis using requireAdmin_frame[OF Pair] Pair by (simp add: andthen_def keep)
  next
    case (Inr u)
    then have "s' = s" and u: "osigned_in q s u" "canManageUsers u" using Pair by (simp_all add: requireAdmin_Inr)
    moreover have "by_admin q s" using u by (auto simp: by_admin_def)
    ultimately show ?thesis using assms[OF u] Inr Pair by (simp add: andthen_def)
  qed
qed

lemma behind_sign_in:
  assumes "\<And>u. osigned_in q s u \<Longrightarrow> oaccount_change a (ofUsers s) (ofUsers (snd (k u s)))"
  shows "oaccount_change a (ofUsers s) (ofUsers (snd (andthen (oauthenticatedUser q s) k :: 'a office_step_of)))"
proof (cases "oauthenticatedUser q s :: (office_error failure + officeUser) \<times> officeServer")
  case (Pair r s')
  show ?thesis
  proof (cases r)
    case (Inl e)
    then show ?thesis using oauthenticatedUser_frame[OF Pair] Pair by (simp add: andthen_def keep)
  next
    case (Inr u)
    then have "s' = s" and "osigned_in q s u" using Pair by (simp_all add: oauthenticatedUser_Inr)
    then show ?thesis using assms Inr Pair by (simp add: andthen_def)
  qed
qed

lemma behind_write:
  assumes "\<And>us. res = Inr us \<Longrightarrow> oaccount_change a (ofUsers s) us"
    and "\<And>us. res = Inr us \<Longrightarrow> ofUsers (snd (k (s\<lparr>ofUsers := us\<rparr>))) = us"
  shows "oaccount_change a (ofUsers s) (ofUsers (snd (write_users status res s k)))"
  using assms by (auto simp: write_users_def intro: keep split: sum.split)

lemma behind_decode:
  "(\<And>r. body = Some r \<Longrightarrow> oaccount_change a (ofUsers s) (ofUsers (snd (k r)))) \<Longrightarrow>
   oaccount_change a (ofUsers s) (ofUsers (snd (decode body s k)))"
  by (auto simp: decode_def intro: keep split: option.split)

lemma behind_guard:
  "(\<not> bad \<Longrightarrow> oaccount_change a (ofUsers s) (ofUsers (snd (k s)))) \<Longrightarrow>
   oaccount_change a (ofUsers s) (ofUsers (snd (guard bad c m s k)))"
  by (auto simp: guard_def intro: keep)

lemma ostartSession_frame: "ostartSession q i s = (r, s') \<Longrightarrow> ofUsers s' = ofUsers s \<and> ofStore s' = ofStore s"
  by (auto simp: ostartSession_def split: sum.splits)

lemma save_user_change:
  assumes "ogetUser i (ofUsers s) = Inr old" and "ouID u = ouID old" and "ouUsername u = ouUsername old"
    and "ouRoles u = ouRoles old \<or> roles_ok (ouRoles u)"
  shows "oaccount_change True (ofUsers s) (ofUsers (snd (save_user q u body s)))"
proof -
  have "old \<in> set (ofUsers s)" using ogetUser_InrD[OF assms(1)] by simp
  then have "oaccount_change True (ofUsers s) us" if "oupdateUser (oqPg q) u (ofUsers s) = Inr us" for us
    using amend[OF that _ assms(2,3), of True] assms(4) by simp
  then show ?thesis unfolding save_user_def by (rule behind_write) simp_all
qed

lemma with_user_change:
  assumes "\<And>u. ogetUser i (ofUsers s) = Inr u \<Longrightarrow> oaccount_change True (ofUsers s) (ofUsers (snd (k u s)))"
  shows "oaccount_change (by_admin q s) (ofUsers s) (ofUsers (snd (with_user q i s k)))"
  unfolding with_user_def by (rule behind_admin) (auto intro: keep assms split: sum.split)

text \<open>Every request of the account interface.\<close>

inductive office_request :: "officeReq \<Rightarrow> officeServer \<Rightarrow> officeServer \<Rightarrow> bool" for q s where
  login: "office_request q s (snd (ohandleLogin q lbody s))"
| logout: "office_request q s (snd (ohandleLogout q s))"
| me: "office_request q s (snd (ohandleMe q s))"
| change_password: "office_request q s (snd (ohandleChangePassword q cbody s))"
| user_list: "office_request q s (snd (ohandleListUsers q s))"
| create_user: "office_request q s (snd (ohandleCreateUser q ubody s))"
| user_roles: "office_request q s (snd (ohandleUpdateUserRoles q i rbody s))"
| deactivation: "office_request q s (snd (ohandleDeactivateUser q i s))"
| reactivation: "office_request q s (snd (ohandleReactivateUser q i s))"
| password_reset: "office_request q s (snd (ohandleResetUserPassword q i s))"
| setup_status: "office_request q s (snd (ohandleSetupStatus s))"
| setup_admin: "office_request q s (snd (ohandleSetupAdmin q lbody s))"

lemma ohandleLogin_frame: "ofUsers (snd (ohandleLogin q body s)) = ofUsers s"
  by (auto simp: ohandleLogin_def decode_def guard_def Let_def split: option.split sum.split prod.split
      dest: ostartSession_frame)

lemma office_request_change: "office_request q s s' \<Longrightarrow> oaccount_change (by_admin q s) (ofUsers s) (ofUsers s')"
proof (induction rule: office_request.induct)
  case (login lbody)
  show ?case unfolding ohandleLogin_frame by (rule keep)
next
  case logout
  show ?case by (auto simp: ohandleLogout_def intro: keep split: option.split)
next
  case me
  show ?case unfolding ohandleMe_def by (rule behind_sign_in) (simp add: keep)
next
  case (change_password cbody)
  show ?case unfolding ohandleChangePassword_def
  proof (intro behind_sign_in behind_decode)
    fix u r assume "osigned_in q s u"
    then have u: "u \<in> set (ofUsers s)" by (simp add: osigned_inD)
    have pw: "oaccount_change (by_admin q s) (ofUsers s) us"
      if new: "ochangePassword c t p u = Inr u'" and us: "oupdateUser pg u' (ofUsers s) = Inr us" for c t p u' pg us
      using amend[OF us u] new by (auto simp: ochangePassword_def split: sum.splits)
    show "oaccount_change (by_admin q s) (ofUsers s) (ofUsers (snd (case oauthenticate (oqCrypto q) (cpCurrentPassword r) u of
         Inl e \<Rightarrow> writeErrorText StatusInternalServerError (OErrPassword e) s
       | Inr match \<Rightarrow>
           guard (\<not> match) StatusUnauthorized ''current password is incorrect'' s (\<lambda>s.
             case ochangePassword (oqCrypto q) (oqNow q) (cpNewPassword r) u of
               Inl e \<Rightarrow> writeErrorText StatusBadRequest e s
             | Inr u \<Rightarrow> write_users StatusInternalServerError (oupdateUser (oqPg q) u (ofUsers s)) s
                          (writeJSON StatusOK (otoUserView u))))))"
      by (auto simp: guard_def keep split: sum.split intro!: behind_write intro: pw)
  qed
next
  case user_list
  show ?case unfolding ohandleListUsers_def by (rule behind_admin) (simp add: keep)
next
  case (create_user ubody)
  show ?case unfolding ohandleCreateUser_def
    by (intro behind_admin behind_decode)
      (auto simp: keep intro!: behind_write intro: add dest: onewUser_InrD(1) split: option.split sum.split)
next
  case (user_roles i rbody)
  show ?case unfolding ohandleUpdateUserRoles_def
    by (intro with_user_change behind_decode)
      (auto intro!: keep save_user_change dest!: setRoles_InrD split: sum.split)
next
  case (deactivation i)
  show ?case unfolding ohandleDeactivateUser_def Let_def
    by (intro with_user_change save_user_change) (auto simp: deactivate_def)
next
  case (reactivation i)
  show ?case unfolding ohandleReactivateUser_def Let_def
    by (intro with_user_change save_user_change) (auto simp: reactivate_def)
next
  case (password_reset i)
  show ?case unfolding ohandleResetUserPassword_def
    by (intro with_user_change)
      (auto intro!: keep save_user_change simp: oresetPassword_def split: option.split sum.split)
next
  case setup_status
  show ?case by (simp add: ohandleSetupStatus_def keep)
next
  case (setup_admin lbody)
  show ?case unfolding ohandleSetupAdmin_def
  proof (intro behind_guard behind_decode)
    fix r assume "\<not> ohasAnyUser (ofUsers s)"
    then have empty: "ofUsers s = []" by (simp add: ohasAnyUser_def)
    have ok: "onewUser c i t n p rs = Inr u \<Longrightarrow> ouser_ok (u\<lparr>ouMustChangePassword := False\<rparr>)" for c i t n p rs u
      using onewUser_InrD(1)[of c i t n p rs u] by (simp add: ouser_ok_def)
    show "oaccount_change (by_admin q s) (ofUsers s) (ofUsers (snd (
       case onewUser (oqCrypto q) (oqUUID q 0) (oqNow q) (lrUsername r) (lrPassword r) allRoles of
         Inl e \<Rightarrow> writeErrorText StatusBadRequest e s
       | Inr u \<Rightarrow>
           (let u = u\<lparr>ouMustChangePassword := False\<rparr> in
            write_users StatusInternalServerError (ocreateUser (oqPg q) u (ofUsers s)) s (\<lambda>s.
              case ostartSession q (ouID u) s of
                (Inl e, s) \<Rightarrow> writeErrorText StatusInternalServerError e s
              | (Inr token, s) \<Rightarrow> writeJSON StatusCreated (otoUserView u, token) s)))))"
      by (auto simp: Let_def keep split: sum.split prod.split intro!: behind_write
          intro: first[OF _ ok, folded empty] dest!: ostartSession_frame)
  qed
qed

text \<open>Histories of requests, whoever sends them.\<close>

definition office_requests :: "officeServer \<Rightarrow> officeServer \<Rightarrow> bool" where
  "office_requests = (\<lambda>s s'. \<exists>q. office_request q s s')\<^sup>*\<^sup>*"

lemma office_requests_wf:
  assumes "office_requests s s'" and "ousers_wf (ofUsers s)"
  shows "ousers_wf (ofUsers s')"
  using assms(1) unfolding office_requests_def
  by (induction rule: rtranclp_induct) (use assms(2) office_request_change oaccount_change_wf in blast)+

lemma oaccount_change_nonempty: "oaccount_change a us us' \<Longrightarrow> us \<noteq> [] \<Longrightarrow> us' \<noteq> []"
  by (induction rule: oaccount_change.induct) (auto simp: oset_row_def dest!: ocreateUser_InrD oupdateUser_InrD)

text \<open>Without an active Admin nobody becomes one.\<close>

lemma office_requests_locked_out:
  assumes "office_requests s s'" and "ousers_wf (ofUsers s)" and "ofUsers s \<noteq> []" and "active_admins (ofUsers s) = {}"
  shows "ofUsers s' \<noteq> [] \<and> active_admins (ofUsers s') = {}"
proof -
  have "ousers_wf (ofUsers s') \<and> ofUsers s' \<noteq> [] \<and> active_admins (ofUsers s') = {}"
    using assms(1) unfolding office_requests_def
  proof (induction rule: rtranclp_induct)
    case (step s1 s2)
    then obtain q where "office_request q s1 s2" by blast
    then have ch: "oaccount_change (by_admin q s1) (ofUsers s1) (ofUsers s2)" by (rule office_request_change)
    moreover have "\<not> by_admin q s1" using step.IH by_admin_active by blast
    ultimately show ?case
      using step.IH oaccount_change_wf[OF ch] oaccount_change_nonempty[OF ch] oaccount_change_admins[OF ch] by auto
  qed (use assms in simp)
  then show ?thesis by blast
qed

section \<open>Deactivation\<close>

lemma ogetUser_set_row:
  "ogetUser i (oset_row pg u us) =
     (case ogetUser i us of Inl e \<Rightarrow> Inl e
      | Inr x \<Rightarrow> Inr (if i = ouID u then (stored_user pg u)\<lparr>ouCreatedAt := ouCreatedAt x\<rparr> else x))"
proof (induction us)
  case Nil
  show ?case by (simp add: ogetUser_def oset_row_def find_row_def)
next
  case (Cons x us)
  then show ?case by (auto simp: ogetUser_def oset_row_def find_row_def split: option.splits if_splits)
qed

text \<open>What the two answered requests have done to the table.\<close>

lemma save_user_InrD:
  "save_user q u body s = (Inr r, s') \<Longrightarrow> s' = s\<lparr>ofUsers := oset_row (oqPg q) u (ofUsers s)\<rparr>"
  by (auto simp: save_user_def write_users_def writeErrorText_def writeJSON_def split: sum.splits dest: oupdateUser_InrD)

lemma with_user_InrD:
  assumes "with_user q i s k = (Inr r, s')"
  obtains u where "by_admin q s" and "ogetUser i (ofUsers s) = Inr u" and "k u s = (Inr r, s')"
proof -
  obtain r1 s1 where 1: "requireAdmin q s = ((r1 :: office_error failure + officeUser), s1)" by fastforce
  show ?thesis
  proof (cases r1)
    case (Inl e)
    then show ?thesis using assms 1 by (simp add: with_user_def andthen_def)
  next
    case (Inr a)
    then have a: "s1 = s" "osigned_in q s a" "canManageUsers a" using 1 by (simp_all add: requireAdmin_Inr)
    then have "by_admin q s" by (auto simp: by_admin_def)
    then show ?thesis using assms 1 a(1) Inr that
      by (cases "ogetUser i (ofUsers s)") (auto simp: with_user_def andthen_def writeError_def)
  qed
qed

lemma deactivation_InrD:
  assumes "ohandleDeactivateUser q i s = (Inr r, s')"
  obtains u where "by_admin q s" and "ogetUser i (ofUsers s) = Inr u"
    and "s' = s\<lparr>ofUsers := oset_row (oqPg q) (deactivate (oqNow q) u) (ofUsers s)\<rparr>"
proof -
  obtain u where u: "by_admin q s" "ogetUser i (ofUsers s) = Inr u"
      "save_user q (deactivate (oqNow q) u) (otoUserView (deactivate (oqNow q) u)) s = (Inr r, s')"
    using assms unfolding ohandleDeactivateUser_def Let_def by (rule with_user_InrD)
  show ?thesis using u(1,2) save_user_InrD[OF u(3)] by (rule that)
qed

lemma reactivation_InrD:
  assumes "ohandleReactivateUser q i s = (Inr r, s')"
  obtains u where "by_admin q s" and "ogetUser i (ofUsers s) = Inr u"
    and "s' = s\<lparr>ofUsers := oset_row (oqPg q) (reactivate (oqNow q) u) (ofUsers s)\<rparr>"
proof -
  obtain u where u: "by_admin q s" "ogetUser i (ofUsers s) = Inr u"
      "save_user q (reactivate (oqNow q) u) (otoUserView (reactivate (oqNow q) u)) s = (Inr r, s')"
    using assms unfolding ohandleReactivateUser_def Let_def by (rule with_user_InrD)
  show ?thesis using u(1,2) save_user_InrD[OF u(3)] by (rule that)
qed

definition inactive :: "string \<Rightarrow> officeUser list \<Rightarrow> bool" where
  "inactive i us \<longleftrightarrow> (\<forall>u \<in> set us. ouID u = i \<longrightarrow> \<not> ouActive u)"

lemma deactivation_inactive: "ohandleDeactivateUser q i s = (Inr r, s') \<Longrightarrow> inactive i (ofUsers s')"
  by (erule deactivation_InrD) (auto simp: inactive_def oset_row_def deactivate_def dest: ogetUser_InrD)

lemma inactive_shut_out: "inactive i (ofUsers s) \<Longrightarrow> osigned_in q s u \<Longrightarrow> ouID u \<noteq> i"
  by (auto simp: inactive_def dest: osigned_inD)

lemma inactive_no_login:
  assumes "inactive i (ofUsers s)" and "ohandleLogin q body s = (Inr (c, view, token), s')"
  shows "ovID view \<noteq> i"
  using assms
  by (auto simp: ohandleLogin_def decode_def guard_def Let_def writeError_def writeErrorText_def writeJSON_def
      ogetUserByUsername_def inactive_def otoUserView_def
      split: option.splits sum.splits if_splits prod.splits dest!: find_row_SomeD)

lemma inactive_change:
  assumes "oaccount_change a us us'" and "\<not> a" and "inactive i us" and "us \<noteq> []" and "ousers_wf us"
  shows "inactive i us'"
  using assms
proof (induction rule: oaccount_change.induct)
  case (amend pg u us us' old a)
  have us': "us' = oset_row pg u us" using amend(1) by (rule oupdateUser_InrD)
  have "ouActive u = ouActive old" using amend(6,7) by simp
  then show ?case using amend(2,3,8) unfolding us' by (auto simp: inactive_def oset_row_def)
qed (auto simp: inactive_def)

text \<open>A reactivated account is signed in again by the cookie it had.\<close>

lemma reactivation_resumes:
  assumes re: "ohandleReactivateUser q i s = (Inr r, s')"
    and cookie: "oqCookie q' = Some token"
    and session: "session_lookup (oqNow q') token (ofSessions s) = (Some i, ofSessions s)"
  shows "\<exists>u. osigned_in q' s' u \<and> ouID u = i"
  using re
proof (rule reactivation_InrD)
  fix u assume u: "ogetUser i (ofUsers s) = Inr u"
    and s': "s' = s\<lparr>ofUsers := oset_row (oqPg q) (reactivate (oqNow q) u) (ofUsers s)\<rparr>"
  let ?u = "(stored_user (oqPg q) (reactivate (oqNow q) u))\<lparr>ouCreatedAt := ouCreatedAt u\<rparr>"
  have i: "ouID u = i" using u by (auto dest: ogetUser_InrD)
  then have "osigned_in q' s' ?u \<and> ouID ?u = i"
    unfolding osigned_in_def s' using u cookie session by (simp add: ogetUser_set_row reactivate_def)
  then show ?thesis by blast
qed

end
