(* ===== verification/OfficeFleet.thy ===== *)
theory OfficeFleet
  imports OfficeAccounts OfficeSync
begin

text \<open>
  The fleet as the office administers it: vessel profiles with their IMO numbers (\<open>office/vessels/vessel.go\<close>), the handlers
  of \<open>office/httpapi/vessels.go\<close>, enrollment from the issued code to the sync credential (\<open>enroll.go\<close>), and the commands
  an Admin queues for a vessel's crew (\<open>vesselusers.go\<close>).

  Lemmas: which mistakes an IMO number's check digit finds; every handler is a sequence of steps of the office's history, and the
  work of an Admin where it writes (\<open>fleet_effect\<close> and its rules, used for the other groups of handlers too).
\<close>

section \<open>Vessel profiles\<close>

datatype vessel_error =
    ErrIMOLength string
  | ErrIMODigits string
  | ErrIMOCheckDigit string int
  | ErrVesselName
  | ErrVesselType
  | ErrVesselID

definition imo_digits :: "string \<Rightarrow> int list" where
  "imo_digits imo = map digit_val imo"

definition imo_sum :: "int list \<Rightarrow> int" where
  "imo_sum ds = sum_list (map2 (*) ds [7, 6, 5, 4, 3, 2])"

definition validateIMO :: "string \<Rightarrow> vessel_error option" where
  "validateIMO imo =
     (if length imo \<noteq> 7 then Some (ErrIMOLength imo)
      else if \<not> list_all is_digit imo then Some (ErrIMODigits imo)
      else
        let ds = imo_digits imo; checkDigit = imo_sum ds mod 10
        in if checkDigit \<noteq> ds ! 6 then Some (ErrIMOCheckDigit imo checkDigit) else None)"

definition normalizeGroups :: "string list \<Rightarrow> string list" where
  "normalizeGroups groups =
     fold (\<lambda>g out. let g = trim_space g in if g = '''' \<or> g \<in> set out then out else out @ [g]) groups []"

definition newVessel ::
  "string option \<Rightarrow> gotime \<Rightarrow> string \<Rightarrow> string \<Rightarrow> string \<Rightarrow> string list \<Rightarrow> vessel_error + vesselRow" where
  "newVessel uuid now imo name vesselType groups =
     (let imo = trim_space imo in
      case validateIMO imo of
        Some e \<Rightarrow> Inl e
      | None \<Rightarrow>
          let name = trim_space name; vesselType = trim_space vesselType in
          if name = '''' then Inl ErrVesselName
          else if vesselType = '''' then Inl ErrVesselType
          else case uuid of
            None \<Rightarrow> Inl ErrVesselID
          | Some i \<Rightarrow> Inr \<lparr>vrID = i, vrIMO = imo, vrName = name, vrType = vesselType,
                           vrGroups = normalizeGroups groups, vrCreatedAt = now, vrUpdatedAt = now\<rparr>)"

definition updateProfile :: "gotime \<Rightarrow> string \<Rightarrow> string \<Rightarrow> string list \<Rightarrow> vesselRow \<Rightarrow> vessel_error + vesselRow" where
  "updateProfile now name vesselType groups v =
     (let name = trim_space name; vesselType = trim_space vesselType in
      if name = '''' then Inl ErrVesselName
      else if vesselType = '''' then Inl ErrVesselType
      else Inr (v\<lparr>vrName := name, vrType := vesselType, vrGroups := normalizeGroups groups, vrUpdatedAt := now\<rparr>))"

section \<open>Views\<close>

datatype fleet_error =
    FleetVessel vessel_error
  | FleetStore ostore_error
  | FleetScope compliance_error
  | FleetConfig config_error
  | FleetEnroll enrollment_error
  | FleetMint mint_error
  | FleetRandom

type_synonym 'a fleet_handled = "(fleet_error, 'a, officeServer) handled"
type_synonym 'a fleet_step_of = "(fleet_error failure + 'a) \<times> officeServer"

fun enrollment_state_text :: "enrollmentState \<Rightarrow> string" where
  "enrollment_state_text EnrollIssued = ''issued''"
| "enrollment_state_text EnrollEnrolled = ''enrolled''"
| "enrollment_state_text EnrollRevoked = ''revoked''"
| "enrollment_state_text (EnrollOther s) = s"

record vesselView =
  vwID :: string
  vwIMO :: string
  vwName :: string
  vwType :: string
  vwGroups :: "string list"
  vwEnrollmentState :: string
  vwCreatedAt :: gotime
  vwUpdatedAt :: gotime
  vwLastReportAt :: "gotime option"
  vwOverdueHours :: "float64 option"
  vwLastSyncAt :: "gotime option"
  vwAppVersion :: string
  vwAppliedBundleID :: string
  vwAppliedBundleVersion :: int

definition toVesselView ::
  "vesselRow \<Rightarrow> string \<Rightarrow> gotime option \<Rightarrow> float64 option \<Rightarrow> vesselSyncStatus option \<Rightarrow> vesselView" where
  "toVesselView v enrollState lastReportAt overdueHours sync =
     \<lparr>vwID = vrID v, vwIMO = vrIMO v, vwName = vrName v, vwType = vrType v, vwGroups = vrGroups v,
      vwEnrollmentState = enrollState, vwCreatedAt = vrCreatedAt v, vwUpdatedAt = vrUpdatedAt v,
      vwLastReportAt = lastReportAt, vwOverdueHours = overdueHours,
      vwLastSyncAt = map_option ssLastSeenAt sync,
      vwAppVersion = (case sync of None \<Rightarrow> '''' | Some s \<Rightarrow> ssAppVersion s),
      vwAppliedBundleID = (case sync of None \<Rightarrow> '''' | Some s \<Rightarrow> ssAppliedBundleID s),
      vwAppliedBundleVersion = (case sync of None \<Rightarrow> 0 | Some s \<Rightarrow> ssAppliedBundleVersion s)\<rparr>"

definition syncStatusFor :: "string \<Rightarrow> ostore \<Rightarrow> vesselSyncStatus option" where
  "syncStatusFor vesselID st = (case getVesselSyncStatus vesselID st of Inl _ \<Rightarrow> None | Inr s \<Rightarrow> Some s)"

definition overdueStatusFor ::
  "vesselRow \<Rightarrow> gotime option \<Rightarrow> cadenceRule list \<Rightarrow> gotime \<Rightarrow> gotime option \<times> float64 option" where
  "overdueStatusFor v lastReportAt rules now =
     (case lastReportAt of
        None \<Rightarrow> (None, None)
      | Some t \<Rightarrow>
          let cadence = effectiveCadence rules (vrID v) (vrGroups v); elapsed = duration_hours (time_sub now t)
          in if f64_le elapsed (crMaxGapHours cadence) then (Some t, None) else (Some t, Some elapsed))"

definition enrollmentStateOf :: "string \<Rightarrow> ostore \<Rightarrow> enrollment option \<times> string" where
  "enrollmentStateOf vesselID st =
     (case getEnrollment vesselID st of
        Inl _ \<Rightarrow> (None, ''notIssued'') | Inr e \<Rightarrow> (Some e, enrollment_state_text (enState e)))"

definition vessel_view :: "officeReq \<Rightarrow> cadenceRule list \<Rightarrow> ostore \<Rightarrow> vesselRow \<Rightarrow> vesselView" where
  "vessel_view q rules st v =
     (case overdueStatusFor v (gm_lookup (lastReportEventTimeByVessel st) (vrID v)) rules (oqNow q) of (lastAt, overdue) \<Rightarrow>
        toVesselView v (snd (enrollmentStateOf (vrID v) st)) lastAt overdue (syncStatusFor (vrID v) st))"

record enrollmentView =
  evwState :: string
  evwInitialMasterUsername :: string
  evwIssuedAt :: "gotime option"
  evwRevokedAt :: "gotime option"
  evwHasDRKey :: bool

definition toEnrollmentView :: "enrollment \<Rightarrow> enrollmentView" where
  "toEnrollmentView e =
     \<lparr>evwState = enrollment_state_text (enState e), evwInitialMasterUsername = enInitialMasterUsername e,
      evwIssuedAt = (if is_zero (enIssuedAt e) then None else Some (enIssuedAt e)), evwRevokedAt = enRevokedAt e,
      evwHasDRKey = (enDRPublicKey e \<noteq> '''')\<rparr>"

record bundleAssignmentView =
  bvBundleID :: string
  bvBundleLabel :: string
  bvPublishedAt :: gotime
  bvScope :: scope

definition resolveBundleAssignment :: "officeReq \<Rightarrow> vesselRow \<Rightarrow> ostore \<Rightarrow> fleet_error + bundleAssignmentView option" where
  "resolveBundleAssignment q v st =
     (case listBundleAssignments (ordAssignments (oqOrders q)) st of
        Inl e \<Rightarrow> Inl (FleetScope e)
      | Inr assignments \<Rightarrow>
     (case resolve assignments (vrID v) (vrGroups v) of
        None \<Rightarrow> Inr None
      | Some match \<Rightarrow>
     (case getConfigBundle (baBundleID match) st of
        Inl e \<Rightarrow> if e = ErrConfigNotFound then Inr None else Inl (FleetConfig e)
      | Inr b \<Rightarrow> Inr (Some \<lparr>bvBundleID = cbID b, bvBundleLabel = cbLabel b, bvPublishedAt = cbPublishedAt b,
                            bvScope = baScope match\<rparr>))))"

record restoreCommandView =
  rcvID :: string
  rcvReason :: string
  rcvIssuedBy :: string
  rcvIssuedAt :: gotime
  rcvFetchedAt :: "gotime option"
  rcvAppliedAt :: "gotime option"

definition toRestoreCommandView :: "restoreCommand \<Rightarrow> restoreCommandView" where
  "toRestoreCommandView c = \<lparr>rcvID = rsoID c, rcvReason = rsoReason c, rcvIssuedBy = rsoIssuedBy c,
     rcvIssuedAt = rsoIssuedAt c, rcvFetchedAt = rsoFetchedAt c, rcvAppliedAt = rsoAppliedAt c\<rparr>"

record vesselUserView =
  vuvUsername :: string
  vuvRole :: string
  vuvActive :: bool
  vuvCanSubmit :: bool
  vuvUpdatedAt :: gotime

definition toVesselUserView :: "rosterRow \<Rightarrow> vesselUserView" where
  "toVesselUserView u = \<lparr>vuvUsername = roUsername u, vuvRole = roRole u, vuvActive = roActive u,
     vuvCanSubmit = roCanSubmit u, vuvUpdatedAt = roUpdatedAt u\<rparr>"

record userCommandView =
  ucvID :: string
  ucvAction :: string
  ucvUsername :: string
  ucvRole :: string
  ucvIssuedBy :: string
  ucvIssuedAt :: gotime
  ucvFetchedAt :: "gotime option"
  ucvAppliedAt :: "gotime option"

definition toUserCommandView :: "officeUserCommand \<Rightarrow> userCommandView" where
  "toUserCommandView c = \<lparr>ucvID = oucID c, ucvAction = oucAction c, ucvUsername = oucUsername c, ucvRole = oucRole c,
     ucvIssuedBy = oucIssuedBy c, ucvIssuedAt = oucIssuedAt c, ucvFetchedAt = oucFetchedAt c,
     ucvAppliedAt = oucAppliedAt c\<rparr>"

section \<open>Vessel handlers\<close>

definition load_rules :: "officeReq \<Rightarrow> officeServer \<Rightarrow> cadenceRule list fleet_step_of" where
  "load_rules q s =
     (case listCadenceRules (ordCadence (oqOrders q)) (ofStore s) of
        Inl e \<Rightarrow> writeErrorText StatusInternalServerError (FleetScope e) s
      | Inr rules \<Rightarrow> (Inr rules, s))"

text \<open>A read that may not find its row, and a write.\<close>

definition fetch :: "ostore_error + 'v \<Rightarrow> string \<Rightarrow> officeServer \<Rightarrow> ('v \<Rightarrow> 'a fleet_step_of) \<Rightarrow> 'a fleet_step_of" where
  "fetch res missing s k =
     (case res of
        Inl e \<Rightarrow> if e = OErrNotFound then writeError StatusNotFound missing s
                 else writeErrorText StatusInternalServerError (FleetStore e) s
      | Inr v \<Rightarrow> k v)"

definition put_store :: "ostore_error + ostore \<Rightarrow> officeServer \<Rightarrow> (officeServer \<Rightarrow> 'a fleet_step_of) \<Rightarrow> 'a fleet_step_of" where
  "put_store res s k =
     (case res of
        Inl e \<Rightarrow> writeErrorText StatusInternalServerError (FleetStore e) s
      | Inr st \<Rightarrow> k (s\<lparr>ofStore := st\<rparr>))"

definition handleListVessels :: "officeReq \<Rightarrow> officeServer \<Rightarrow> vesselView list fleet_handled" where
  "handleListVessels q s =
     andthen (oauthenticatedUser q s) (\<lambda>_ s.
     andthen (load_rules q s) (\<lambda>rules s.
       writeJSON StatusOK (map (vessel_view q rules (ofStore s)) (listVessels (ordVessels (oqOrders q)) (ofStore s))) s))"

record createVesselRequest =
  cvIMO :: string
  cvName :: string
  cvType :: string
  cvGroups :: "string list"

definition handleCreateVessel :: "officeReq \<Rightarrow> createVesselRequest option \<Rightarrow> officeServer \<Rightarrow> vesselView fleet_handled" where
  "handleCreateVessel q body s =
     andthen (requireAdmin q s) (\<lambda>_ s.
     decode body s (\<lambda>req.
       case newVessel (oqUUID q 0) (oqNow q) (cvIMO req) (cvName req) (cvType req) (cvGroups req) of
         Inl e \<Rightarrow> writeErrorText StatusBadRequest (FleetVessel e) s
       | Inr v \<Rightarrow> put_store (createVessel (oqPg q) v (ofStore s)) s
                    (writeJSON StatusCreated (toVesselView v ''notIssued'' None None None))))"

record vesselDetailView =
  vdVessel :: vesselView
  vdEnrollment :: "enrollmentView option"
  vdBundleAssignment :: "bundleAssignmentView option"
  vdRestoreCommands :: "restoreCommandView list"
  vdVesselUsers :: "vesselUserView list"
  vdUserCommands :: "userCommandView list"

definition handleGetVessel :: "officeReq \<Rightarrow> string \<Rightarrow> officeServer \<Rightarrow> vesselDetailView fleet_handled" where
  "handleGetVessel q i s =
     andthen (oauthenticatedUser q s) (\<lambda>_ s. let st = ofStore s in
     fetch (getVessel i st) ''vessel not found'' s (\<lambda>v.
       case resolveBundleAssignment q v st of
         Inl e \<Rightarrow> writeErrorText StatusInternalServerError e s
       | Inr assigned \<Rightarrow>
           andthen (load_rules q s) (\<lambda>rules s.
             writeJSON StatusOK
               \<lparr>vdVessel = vessel_view q rules st v, vdEnrollment = map_option toEnrollmentView (fst (enrollmentStateOf (vrID v) st)),
                vdBundleAssignment = assigned,
                vdRestoreCommands = map toRestoreCommandView (listRestoreCommandsForVessel (oqSorter q) (vrID v) st),
                vdVesselUsers = map toVesselUserView (listVesselUsers (vrID v) st),
                vdUserCommands = map toUserCommandView (listUserCommandsForVessel (oqSorter q) (vrID v) st)\<rparr> s)))"

record updateVesselRequest =
  uvrName :: string
  uvrType :: string
  uvrGroups :: "string list"

definition handleUpdateVessel ::
  "officeReq \<Rightarrow> string \<Rightarrow> updateVesselRequest option \<Rightarrow> officeServer \<Rightarrow> vesselView fleet_handled" where
  "handleUpdateVessel q i body s =
     andthen (requireAdmin q s) (\<lambda>_ s.
     fetch (getVessel i (ofStore s)) ''vessel not found'' s (\<lambda>v.
     decode body s (\<lambda>req.
       case updateProfile (oqNow q) (uvrName req) (uvrType req) (uvrGroups req) v of
         Inl e \<Rightarrow> writeErrorText StatusBadRequest (FleetVessel e) s
       | Inr v \<Rightarrow>
           put_store (updateVessel (oqPg q) v (ofStore s)) s (\<lambda>s.
           andthen (load_rules q s) (\<lambda>rules s. writeJSON StatusOK (vessel_view q rules (ofStore s) v) s)))))"

section \<open>Enrollment handlers\<close>

record issueResultView =
  ivEnrollment :: enrollmentView
  ivCode :: string
  ivInitialMasterPassword :: string

definition issue_view :: "issueResult \<Rightarrow> issueResultView" where
  "issue_view r = \<lparr>ivEnrollment = toEnrollmentView (irEnrollment r), ivCode = irCode r,
     ivInitialMasterPassword = irInitialMasterPassword r\<rparr>"

definition handleIssueEnrollment ::
  "officeReq \<Rightarrow> string \<Rightarrow> string option \<Rightarrow> officeServer \<Rightarrow> issueResultView fleet_handled" where
  "handleIssueEnrollment q vesselID body s =
     andthen (requireAdmin q s) (\<lambda>_ s.
     fetch (getVessel vesselID (ofStore s)) ''vessel not found'' s (\<lambda>_.
     decode body s (\<lambda>username.
       case issue (oqCrypto q) (oqNow q) (oqToken q 0) (oqToken q 1) vesselID username of
         Inl e \<Rightarrow> writeErrorText StatusBadRequest (FleetEnroll e) s
       | Inr r \<Rightarrow> put_store (upsertEnrollment (oqPg q) (irEnrollment r) (ofStore s)) s
                    (writeJSON StatusCreated (issue_view r)))))"

definition with_store :: "(ostore \<Rightarrow> ostore) \<Rightarrow> officeServer \<Rightarrow> officeServer" where
  "with_store f s = s\<lparr>ofStore := f (ofStore s)\<rparr>"

definition handleReissueEnrollment ::
  "officeReq \<Rightarrow> string \<Rightarrow> string option \<Rightarrow> officeServer \<Rightarrow> issueResultView fleet_handled" where
  "handleReissueEnrollment q vesselID body s =
     andthen (requireAdmin q s) (\<lambda>_ s.
     fetch (getEnrollment vesselID (ofStore s)) ''vessel has no enrollment to re-issue; issue one first'' s (\<lambda>e.
     decode body s (\<lambda>username.
       case reissue (oqCrypto q) (oqNow q) (oqToken q 0) (oqToken q 1) username e of
         Inl e \<Rightarrow> writeErrorText StatusBadRequest (FleetEnroll e) s
       | Inr r \<Rightarrow>
           put_store (upsertEnrollment (oqPg q) (irEnrollment r) (ofStore s)) s (\<lambda>s.
             writeJSON StatusOK (issue_view r) (with_store (revokeVesselCredential (oqPg q) vesselID (oqNow q)) s)))))"

definition handleRevokeEnrollment :: "officeReq \<Rightarrow> string \<Rightarrow> officeServer \<Rightarrow> enrollmentView fleet_handled" where
  "handleRevokeEnrollment q vesselID s =
     andthen (requireAdmin q s) (\<lambda>_ s.
     fetch (getEnrollment vesselID (ofStore s)) ''vessel has no enrollment to revoke'' s (\<lambda>e.
       let e = revoke (oqNow q) e in
       put_store (upsertEnrollment (oqPg q) e (ofStore s)) s (\<lambda>s.
         writeJSON StatusOK (toEnrollmentView e) (with_store (revokeVesselCredential (oqPg q) vesselID (oqNow q)) s))))"

record redeemEnrollmentRequest =
  reCode :: string
  reDRPublicKey :: string

record redeemEnrollmentResponse =
  rrCredential :: string
  rrVesselName :: string
  rrVesselIMO :: string

text \<open>The vessel has no account here: the code is its only credential.  \<open>lookupHash\<close> is the SHA-256 of a token.\<close>

definition handleRedeemEnrollment ::
  "(string \<Rightarrow> string) \<Rightarrow> officeReq \<Rightarrow> redeemEnrollmentRequest option \<Rightarrow> officeServer \<Rightarrow> redeemEnrollmentResponse fleet_handled" where
  "handleRedeemEnrollment lookupHash q body s =
     decode body s (\<lambda>req.
     guard (reCode req = '''') StatusBadRequest ''code is required'' s (\<lambda>s.
       let candidates = listIssuedEnrollments (ordEnrollments (oqOrders q)) (ofStore s) in
       case redeem (oqCrypto q) (oqNow q) candidates (reCode req) of
         Inl e \<Rightarrow> if e = ErrCodeNotFound then writeError StatusUnauthorized ''code not recognized or already used'' s
                  else writeErrorText StatusInternalServerError (FleetEnroll e) s
       | Inr e \<Rightarrow>
      (case mint (oqCrypto q) lookupHash (oqNow q) (oqToken q 0) (enVesselID e) of
         Inl err \<Rightarrow> writeErrorText StatusInternalServerError (FleetMint err) s
       | Inr (cred, token) \<Rightarrow>
           let e = e\<lparr>enDRPublicKey := reDRPublicKey req\<rparr> in
      (case getVessel (enVesselID e) (ofStore s) of
         Inl err \<Rightarrow> writeErrorText StatusInternalServerError (FleetStore err) s
       | Inr v \<Rightarrow>
           put_store (upsertEnrollment (oqPg q) e (ofStore s)) s (\<lambda>s.
           put_store (upsertVesselCredential (oqPg q) cred (ofStore s)) s (\<lambda>s.
             writeJSON StatusOK \<lparr>rrCredential = token, rrVesselName = vrName v, rrVesselIMO = vrIMO v\<rparr> s))))))"

section \<open>Commands for a vessel's crew\<close>

definition require_vessel :: "string \<Rightarrow> officeServer \<Rightarrow> unit fleet_step_of" where
  "require_vessel vesselID s =
     (case getVessel vesselID (ofStore s) of
        Inl _ \<Rightarrow> writeError StatusNotFound ''vessel not found'' s | Inr _ \<Rightarrow> (Inr (), s))"

definition findVesselUser :: "string \<Rightarrow> string \<Rightarrow> ostore \<Rightarrow> rosterRow option" where
  "findVesselUser vesselID username st = List.find (\<lambda>u. roUsername u = username) (listVesselUsers vesselID st)"

record commandSpec =
  csAction :: string
  csUsername :: string
  csRole :: string
  csTemporaryPassword :: string
  csCanSubmit :: bool
  csActive :: bool

definition queue_command ::
  "officeReq \<Rightarrow> string \<Rightarrow> string \<Rightarrow> commandSpec \<Rightarrow> string \<Rightarrow> officeServer \<Rightarrow> (userCommandView \<times> string) fleet_handled" where
  "queue_command q vesselID issuedBy spec password s =
     (case oqUUID q 0 of
        None \<Rightarrow> writeErrorText StatusInternalServerError FleetRandom s
      | Some i \<Rightarrow>
          (let cmd = \<lparr>oucID = i, oucAction = csAction spec, oucUsername = csUsername spec, oucRole = csRole spec,
                     oucTemporaryPassword = csTemporaryPassword spec, oucCanSubmit = csCanSubmit spec,
                     oucActive = csActive spec, oucIssuedBy = issuedBy, oucIssuedAt = oqNow q, oucFetchedAt = None,
                     oucAppliedAt = None\<rparr>
           in put_store (queueUserCommand (oqPg q) vesselID cmd (ofStore s)) s
                (writeJSON StatusCreated (toUserCommandView cmd, password))))"

definition with_vessel ::
  "officeReq \<Rightarrow> string \<Rightarrow> officeServer \<Rightarrow> (officeUser \<Rightarrow> officeServer \<Rightarrow> 'a fleet_step_of) \<Rightarrow> 'a fleet_step_of" where
  "with_vessel q vesselID s k =
     andthen (requireAdmin q s) (\<lambda>admin s. andthen (require_vessel vesselID s) (\<lambda>_ s. k admin s))"

definition draw_password :: "officeReq \<Rightarrow> officeServer \<Rightarrow> (string \<Rightarrow> 'a fleet_step_of) \<Rightarrow> 'a fleet_step_of" where
  "draw_password q s k =
     (case oqToken q 0 of None \<Rightarrow> writeErrorText StatusInternalServerError FleetRandom s | Some p \<Rightarrow> k p)"

definition handleCreateVesselUser ::
  "officeReq \<Rightarrow> string \<Rightarrow> createUserRequest option \<Rightarrow> officeServer \<Rightarrow> (userCommandView \<times> string) fleet_handled" where
  "handleCreateVesselUser q vesselID body s =
     with_vessel q vesselID s (\<lambda>admin s.
     decode body s (\<lambda>req. let username = trim_space (crUsername req) in
     guard (username = '''') StatusBadRequest ''username is required'' s (\<lambda>s.
     guard (crRole req = RoleMaster) StatusBadRequest
       (''the Master account is created during the vessel'' @ [CHR 0x27] @ ''s own first-run setup, not remotely'') s (\<lambda>s.
     guard (\<not> isValidVesselRole (crRole req)) StatusBadRequest ''unknown role'' s (\<lambda>s.
     guard (findVesselUser vesselID username (ofStore s) \<noteq> None) StatusConflict
       ''that username already exists on this vessel as of its last sync'' s (\<lambda>s.
     draw_password q s (\<lambda>password.
       queue_command q vesselID (ouUsername admin)
         \<lparr>csAction = ''create'', csUsername = username, csRole = crRole req, csTemporaryPassword = password,
          csCanSubmit = False, csActive = False\<rparr> password s)))))))"

definition handleResetVesselUserPassword ::
  "officeReq \<Rightarrow> string \<Rightarrow> string \<Rightarrow> officeServer \<Rightarrow> (userCommandView \<times> string) fleet_handled" where
  "handleResetVesselUserPassword q vesselID username s =
     with_vessel q vesselID s (\<lambda>admin s.
     draw_password q s (\<lambda>password.
       queue_command q vesselID (ouUsername admin)
         \<lparr>csAction = ''resetPassword'', csUsername = username, csRole = '''', csTemporaryPassword = password,
          csCanSubmit = False, csActive = False\<rparr> password s))"

definition handleSetVesselUserRole ::
  "officeReq \<Rightarrow> string \<Rightarrow> string \<Rightarrow> role option \<Rightarrow> officeServer \<Rightarrow> (userCommandView \<times> string) fleet_handled" where
  "handleSetVesselUserRole q vesselID username body s =
     with_vessel q vesselID s (\<lambda>admin s.
     decode body s (\<lambda>role.
     guard (role = RoleMaster) StatusBadRequest
       ''promoting a crew member to Master must be done locally on the vessel, not remotely'' s (\<lambda>s.
     guard (\<not> isValidVesselRole role) StatusBadRequest ''unknown role'' s (\<lambda>s.
       queue_command q vesselID (ouUsername admin)
         \<lparr>csAction = ''setRole'', csUsername = username, csRole = role, csTemporaryPassword = '''',
          csCanSubmit = False, csActive = False\<rparr> '''' s))))"

definition handleSetVesselUserCanSubmit ::
  "officeReq \<Rightarrow> string \<Rightarrow> string \<Rightarrow> bool option \<Rightarrow> officeServer \<Rightarrow> (userCommandView \<times> string) fleet_handled" where
  "handleSetVesselUserCanSubmit q vesselID username body s =
     with_vessel q vesselID s (\<lambda>admin s.
     decode body s (\<lambda>b.
       queue_command q vesselID (ouUsername admin)
         \<lparr>csAction = ''setCanSubmit'', csUsername = username, csRole = '''', csTemporaryPassword = '''',
          csCanSubmit = b, csActive = False\<rparr> '''' s))"

definition handleSetVesselUserActive ::
  "officeReq \<Rightarrow> string \<Rightarrow> string \<Rightarrow> bool \<Rightarrow> officeServer \<Rightarrow> (userCommandView \<times> string) fleet_handled" where
  "handleSetVesselUserActive q vesselID username active s =
     with_vessel q vesselID s (\<lambda>admin s.
     guard (\<not> active \<and> (case findVesselUser vesselID username (ofStore s) of None \<Rightarrow> False | Some u \<Rightarrow> roRole u = RoleMaster))
       StatusBadRequest ''the Master account cannot be deactivated'' s (\<lambda>s.
       queue_command q vesselID (ouUsername admin)
         \<lparr>csAction = ''setActive'', csUsername = username, csRole = '''', csTemporaryPassword = '''',
          csCanSubmit = False, csActive = active\<rparr> '''' s))"

section \<open>The check digit\<close>

lemma digit_val_range: "is_digit c \<Longrightarrow> 0 \<le> digit_val c \<and> digit_val c \<le> 9"
  by (simp add: is_digit_def digit_val_def less_eq_char_def)

lemma digit_val_inj: "is_digit c \<Longrightarrow> is_digit d \<Longrightarrow> digit_val c = digit_val d \<Longrightarrow> c = d"
  by (simp add: is_digit_def digit_val_def)

lemma validateIMO_None:
  "validateIMO imo = None \<longleftrightarrow>
   length imo = 7 \<and> list_all is_digit imo \<and> imo_sum (imo_digits imo) mod 10 = imo_digits imo ! 6"
  by (simp add: validateIMO_def Let_def)

text \<open>The weight of a place; the last place is the check digit itself.\<close>

lemma imo_sum_seven:
  "imo_sum [a, b, c, d, e, f, g] = 7 * a + 6 * b + 5 * c + 4 * d + 3 * e + 2 * f"
  by (simp add: imo_sum_def)

lemma seven_letters:
  assumes "length imo = 7"
  obtains a b c d e f g where "imo = [a, b, c, d, e, f, g]"
  using assms by (auto simp: length_Suc_conv numeral_eq_Suc)

lemma place_cases: "(i::nat) < 7 \<longleftrightarrow> i = 0 \<or> i = 1 \<or> i = 2 \<or> i = 3 \<or> i = 4 \<or> i = 5 \<or> i = 6"
  by auto

lemma shift_mod: "(x::int) mod 10 = g \<Longrightarrow> (x + d) mod 10 = g \<longleftrightarrow> d mod 10 = 0"
  by presburger

text \<open>One wrong digit is missed exactly when the place's weight times the difference is a multiple of ten.\<close>

lemma wrong_digit:
  assumes "validateIMO imo = None" and "is_digit c" and "c \<noteq> imo ! i" and "i < 7"
  shows "validateIMO (imo[i := c]) = None \<longleftrightarrow>
    i < 6 \<and> (7 - int i) * (digit_val c - digit_val (imo ! i)) mod 10 = 0"
proof -
  obtain a0 a1 a2 a3 a4 a5 a6 where imo: "imo = [a0, a1, a2, a3, a4, a5, a6]"
    using assms(1) seven_letters[of imo] unfolding validateIMO_None by blast
  have ok: "(7 * digit_val a0 + 6 * digit_val a1 + 5 * digit_val a2 + 4 * digit_val a3 + 3 * digit_val a4 +
      2 * digit_val a5) mod 10 = digit_val a6" and digits: "list_all is_digit imo"
    using assms(1) by (simp_all add: validateIMO_None imo imo_digits_def imo_sum_seven)
  note step = shift_mod[OF ok]
  have check: "digit_val c \<noteq> digit_val a6" if "i = 6"
    using that assms(2,3) digits digit_val_inj by (auto simp: imo)
  show ?thesis
    using assms(4) unfolding place_cases
  proof (elim disjE)
    assume "i = 6"
    then show ?thesis using check ok by (simp add: validateIMO_None imo imo_digits_def imo_sum_seven)
  qed (use step[of "(7 - int i) * (digit_val c - digit_val (imo ! i))"] digits assms(2) in
      \<open>simp_all add: validateIMO_None imo imo_digits_def imo_sum_seven algebra_simps\<close>)
qed

lemma last_swap:
  "((s::int) + 2 * x) mod 10 = y \<Longrightarrow> x \<noteq> y \<Longrightarrow> 0 \<le> x \<Longrightarrow> x \<le> 9 \<Longrightarrow> 0 \<le> y \<Longrightarrow> y \<le> 9 \<Longrightarrow> (s + 2 * y) mod 10 \<noteq> x"
proof
  assume 1: "(s + 2 * x) mod 10 = y" and 2: "(s + 2 * y) mod 10 = x" and range: "x \<noteq> y" "0 \<le> x" "x \<le> 9" "0 \<le> y" "y \<le> 9"
  have "10 dvd (s + 2 * x) - y" using dvd_minus_mod[of 10 "s + 2 * x"] 1 by simp
  moreover have "10 dvd (s + 2 * y) - x" using dvd_minus_mod[of 10 "s + 2 * y"] 2 by simp
  ultimately have "10 dvd ((s + 2 * y) - x) - ((s + 2 * x) - y)" by (simp only: dvd_diff)
  then have "10 dvd 3 * (y - x)" by (simp add: algebra_simps)
  then have "10 dvd y - x" by presburger
  then show False using range by presburger
qed

lemma swapped_digits:
  assumes "validateIMO imo = None" and "imo ! i \<noteq> imo ! Suc i" and "i < 6"
  shows "validateIMO (imo[i := imo ! Suc i, Suc i := imo ! i]) \<noteq> None"
proof -
  obtain a0 a1 a2 a3 a4 a5 a6 where imo: "imo = [a0, a1, a2, a3, a4, a5, a6]"
    using assms(1) seven_letters[of imo] unfolding validateIMO_None by blast
  have ok: "(7 * digit_val a0 + 6 * digit_val a1 + 5 * digit_val a2 + 4 * digit_val a3 + 3 * digit_val a4 +
      2 * digit_val a5) mod 10 = digit_val a6" and digits: "list_all is_digit imo"
    using assms(1) by (simp_all add: validateIMO_None imo imo_digits_def imo_sum_seven)
  let ?x = "digit_val (imo ! i)" and ?y = "digit_val (imo ! Suc i)"
  have i: "i = 0 \<or> i = 1 \<or> i = 2 \<or> i = 3 \<or> i = 4 \<or> i = 5" using assms(3) by auto
  have "is_digit (imo ! i)" "is_digit (imo ! Suc i)" using digits i by (auto simp: imo)
  then have xy: "?x \<noteq> ?y" "0 \<le> ?x" "?x \<le> 9" "0 \<le> ?y" "?y \<le> 9"
    using digit_val_inj assms(2) digit_val_range by blast+
  then have "(?y - ?x) mod 10 \<noteq> 0" by presburger
  then have step: "(7 * digit_val a0 + 6 * digit_val a1 + 5 * digit_val a2 + 4 * digit_val a3 + 3 * digit_val a4 +
      2 * digit_val a5 + (?y - ?x)) mod 10 \<noteq> digit_val a6"
    using shift_mod[OF ok] by blast
  show ?thesis
    using i
  proof (elim disjE)
    assume "i = 5"
    then show ?thesis using last_swap[OF ok] xy by (simp add: validateIMO_None imo imo_digits_def imo_sum_seven)
  qed (use step in \<open>simp_all add: validateIMO_None imo imo_digits_def imo_sum_seven algebra_simps\<close>)
qed

section \<open>What a request does\<close>

text \<open>A request leaves the accounts alone; a write is a step of the office's history and the work of an Admin.\<close>

definition fleet_effect :: "('w, 'ts) pblib \<Rightarrow> pg \<Rightarrow> bool \<Rightarrow> officeServer \<Rightarrow> officeServer \<Rightarrow> bool" where
  "fleet_effect pb pg a s s' \<longleftrightarrow> ofUsers s' = ofUsers s \<and>
     (if a then (office_step pb pg)\<^sup>*\<^sup>* (ofStore s) (ofStore s') else ofStore s' = ofStore s)"

lemma fleet_same: "ofUsers s' = ofUsers s \<Longrightarrow> ofStore s' = ofStore s \<Longrightarrow> fleet_effect pb pg a s s'"
  by (simp add: fleet_effect_def)

lemma fleet_refl [simp]: "fleet_effect pb pg a s s"
  by (simp add: fleet_same)

lemma fleet_write:
  "office_step pb pg (ofStore s) st \<Longrightarrow> fleet_effect pb pg True (s\<lparr>ofStore := st\<rparr>) s' \<Longrightarrow> fleet_effect pb pg True s s'"
  by (auto simp: fleet_effect_def intro: converse_rtranclp_into_rtranclp)

lemma fleet_admin:
  assumes "\<And>u. osigned_in q s u \<Longrightarrow> canManageUsers u \<Longrightarrow> fleet_effect pb pg True s (snd (k u s))"
  shows "fleet_effect pb pg (by_admin q s) s (snd (andthen (requireAdmin q s) k :: ('e failure + 'a) \<times> officeServer))"
proof (cases "requireAdmin q s :: ('e failure + officeUser) \<times> officeServer")
  case (Pair r s')
  show ?thesis
  proof (cases r)
    case (Inl e)
    then show ?thesis using requireAdmin_frame[OF Pair] Pair by (simp add: andthen_def fleet_same)
  next
    case (Inr u)
    then have u: "s' = s" "osigned_in q s u" "canManageUsers u" using Pair by (simp_all add: requireAdmin_Inr)
    then have "by_admin q s" by (auto simp: by_admin_def)
    then show ?thesis using assms[OF u(2,3)] u(1) Inr Pair by (simp add: andthen_def)
  qed
qed

lemma fleet_signed_in:
  assumes "\<And>u. osigned_in q s u \<Longrightarrow> fleet_effect pb pg a s (snd (k u s))"
  shows "fleet_effect pb pg a s (snd (andthen (oauthenticatedUser q s) k :: ('e failure + 'a) \<times> officeServer))"
proof (cases "oauthenticatedUser q s :: ('e failure + officeUser) \<times> officeServer")
  case (Pair r s')
  show ?thesis
  proof (cases r)
    case (Inl e)
    then show ?thesis using oauthenticatedUser_frame[OF Pair] Pair by (simp add: andthen_def fleet_same)
  next
    case (Inr u)
    then have "s' = s" "osigned_in q s u" using Pair by (simp_all add: oauthenticatedUser_Inr)
    then show ?thesis using assms Inr Pair by (simp add: andthen_def)
  qed
qed

lemma fleet_reader:
  assumes "\<And>u. snd (k u s) = s"
  shows "fleet_effect pb pg a s (snd (andthen (oauthenticatedUser q s) k :: ('e failure + 'a) \<times> officeServer))"
  by (rule fleet_signed_in) (simp add: assms)

lemma load_rules_snd [simp]: "snd (andthen (load_rules q s) k) = (case fst (load_rules q s) of Inl _ \<Rightarrow> s | Inr r \<Rightarrow> snd (k r s))"
  by (auto simp: load_rules_def andthen_def writeErrorText_def split: sum.split)

lemma fleet_put:
  "(\<And>st. res = Inr st \<Longrightarrow> office_step pb pg (ofStore s) st) \<Longrightarrow>
   (\<And>st. res = Inr st \<Longrightarrow> fleet_effect pb pg True (s\<lparr>ofStore := st\<rparr>) (snd (k (s\<lparr>ofStore := st\<rparr>)))) \<Longrightarrow>
   fleet_effect pb pg True s (snd (put_store res s k))"
  by (auto simp: put_store_def intro: fleet_write split: sum.split)

lemma fleet_fetch: "(\<And>v. res = Inr v \<Longrightarrow> fleet_effect pb pg a s (snd (k v))) \<Longrightarrow> fleet_effect pb pg a s (snd (fetch res m s k))"
  by (auto simp: fetch_def split: sum.split)

lemma fleet_decode: "(\<And>r. body = Some r \<Longrightarrow> fleet_effect pb pg a s (snd (k r))) \<Longrightarrow> fleet_effect pb pg a s (snd (decode body s k))"
  by (auto simp: decode_def split: option.split)

lemma fleet_guard: "fleet_effect pb pg a s (snd (k s)) \<Longrightarrow> fleet_effect pb pg a s (snd (guard bad c m s k))"
  by (simp add: guard_def)

lemma fleet_password: "(\<And>p. fleet_effect pb pg a s (snd (k p))) \<Longrightarrow> fleet_effect pb pg a s (snd (draw_password q s k))"
  by (auto simp: draw_password_def split: option.split)

lemma fleet_sum:
  "(\<And>e. r = Inl e \<Longrightarrow> fleet_effect pb pg a s (snd (f e))) \<Longrightarrow> (\<And>v. r = Inr v \<Longrightarrow> fleet_effect pb pg a s (snd (g v))) \<Longrightarrow>
   fleet_effect pb pg a s (snd (case r of Inl e \<Rightarrow> f e | Inr v \<Rightarrow> g v))"
  by (auto split: sum.split)

lemma fleet_queue: "oqPg q = pg \<Longrightarrow> fleet_effect pb pg True s (snd (queue_command q v by_user spec p s))"
  unfolding queue_command_def Let_def
  by (auto split: option.split intro!: fleet_put intro: office_step.user_command)

lemma fleet_vessel:
  assumes "\<And>u. osigned_in q s u \<Longrightarrow> canManageUsers u \<Longrightarrow> fleet_effect pb pg True s (snd (k u s))"
  shows "fleet_effect pb pg (by_admin q s) s (snd (with_vessel q v s k))"
  unfolding with_vessel_def
  by (rule fleet_admin) (auto simp: require_vessel_def andthen_def writeError_def assms split: sum.split)

lemmas fleet_rules = fleet_decode fleet_fetch fleet_guard fleet_put fleet_password fleet_sum fleet_queue

text \<open>Every request of the fleet's administration; redeeming a code is not among them.\<close>

inductive fleet_request :: "officeReq \<Rightarrow> officeServer \<Rightarrow> officeServer \<Rightarrow> bool" for q s where
  vessel_list: "fleet_request q s (snd (handleListVessels q s))"
| vessel_create: "fleet_request q s (snd (handleCreateVessel q cbody s))"
| vessel_get: "fleet_request q s (snd (handleGetVessel q i s))"
| vessel_update: "fleet_request q s (snd (handleUpdateVessel q i pbody s))"
| enrollment_issue: "fleet_request q s (snd (handleIssueEnrollment q i name s))"
| enrollment_reissue: "fleet_request q s (snd (handleReissueEnrollment q i name s))"
| enrollment_revoke: "fleet_request q s (snd (handleRevokeEnrollment q i s))"
| crew_create: "fleet_request q s (snd (handleCreateVesselUser q i ubody s))"
| crew_reset: "fleet_request q s (snd (handleResetVesselUserPassword q i username s))"
| crew_role: "fleet_request q s (snd (handleSetVesselUserRole q i username rbody s))"
| crew_submit: "fleet_request q s (snd (handleSetVesselUserCanSubmit q i username bbody s))"
| crew_active: "fleet_request q s (snd (handleSetVesselUserActive q i username active s))"

lemma fleet_revocation: "fleet_effect pb (oqPg q) True s (with_store (revokeVesselCredential (oqPg q) v (oqNow q)) s)"
  using office_step.revocation[of pb "oqPg q" "ofStore s" v "oqNow q"]
  by (auto simp: fleet_effect_def with_store_def)

lemma fleet_request_effect: "fleet_request q s s' \<Longrightarrow> fleet_effect pb (oqPg q) (by_admin q s) s s'"
proof (induction rule: fleet_request.induct)
  case vessel_list
  show ?case unfolding handleListVessels_def by (rule fleet_reader) (simp split: sum.split)
next
  case (vessel_create cbody)
  show ?case unfolding handleCreateVessel_def
    by (intro fleet_admin fleet_rules) (auto intro: office_step.new_vessel)
next
  case (vessel_get i)
  show ?case unfolding handleGetVessel_def Let_def
    by (rule fleet_reader) (simp add: fetch_def split: sum.split)
next
  case (vessel_update i pbody)
  show ?case unfolding handleUpdateVessel_def
    by (intro fleet_admin fleet_rules) (auto intro: office_step.vessel_profile split: sum.split)
next
  case (enrollment_issue i name)
  show ?case unfolding handleIssueEnrollment_def
    by (intro fleet_admin fleet_rules) (auto intro: office_step.enrolment)
next
  case (enrollment_reissue i name)
  show ?case unfolding handleReissueEnrollment_def
    by (intro fleet_admin fleet_rules) (auto intro: office_step.enrolment fleet_revocation)
next
  case (enrollment_revoke i)
  show ?case unfolding handleRevokeEnrollment_def Let_def
    by (intro fleet_admin fleet_rules) (auto intro: office_step.enrolment fleet_revocation)
next
  case (crew_create i ubody)
  show ?case unfolding handleCreateVesselUser_def Let_def by (intro fleet_vessel fleet_rules refl)
next
  case (crew_reset i username)
  show ?case unfolding handleResetVesselUserPassword_def by (intro fleet_vessel fleet_rules refl)
next
  case (crew_role i username rbody)
  show ?case unfolding handleSetVesselUserRole_def by (intro fleet_vessel fleet_rules refl)
next
  case (crew_submit i username bbody)
  show ?case unfolding handleSetVesselUserCanSubmit_def by (intro fleet_vessel fleet_rules refl)
next
  case (crew_active i username active)
  show ?case unfolding handleSetVesselUserActive_def by (intro fleet_vessel fleet_rules refl)
qed

text \<open>Redeeming a code needs no account; it writes only for the vessel whose code it is.\<close>

lemma redeem_effect:
  "fleet_effect pb (oqPg q) (\<exists>req e. body = Some req \<and> redeem (oqCrypto q) (oqNow q)
       (listIssuedEnrollments (ordEnrollments (oqOrders q)) (ofStore s)) (reCode req) = Inr e)
     s (snd (handleRedeemEnrollment h q body s))"
proof (cases "\<exists>req e. body = Some req \<and> redeem (oqCrypto q) (oqNow q)
       (listIssuedEnrollments (ordEnrollments (oqOrders q)) (ofStore s)) (reCode req) = Inr e")
  case False
  then have "snd (handleRedeemEnrollment h q body s) = s"
    by (auto simp: handleRedeemEnrollment_def decode_def guard_def Let_def split: option.split sum.split)
  then show ?thesis by simp
next
  case True
  have "fleet_effect pb (oqPg q) True s (snd (handleRedeemEnrollment h q body s))"
    unfolding handleRedeemEnrollment_def Let_def
    by (intro fleet_decode fleet_guard fleet_sum)
      (auto intro!: fleet_sum fleet_put intro: office_step.enrolment office_step.credential split: prod.split)
  then show ?thesis using True by simp
qed

end
