(* ===== verification/OfficeEnrollment.thy ===== *)
theory OfficeEnrollment
  imports OfficeFleet
begin

text \<open>
  Histories of the requests of \<open>OfficeFleet\<close>: enrollments against the credentials handed out for them
  (\<open>office/httpapi/vessels.go\<close>, \<open>enroll.go\<close>), and the queue of commands for a vessel's crew (\<open>vesselusers.go\<close>).

  Lemmas: a live credential belongs to an enrolled vessel as long as nobody issues over an existing enrollment; a redeemed code
  is spent and its token admits exactly its vessel; a revoked vessel is shut out; what is queued here can always be delivered and
  makes nobody a Master.
\<close>

section \<open>Invariants of the store\<close>

text \<open>The same rules for a property of the store alone.\<close>

lemma st_admin:
  assumes "P (ofStore s)" and "\<And>u. osigned_in q s u \<Longrightarrow> canManageUsers u \<Longrightarrow> P (ofStore (snd (k u s)))"
  shows "P (ofStore (snd (andthen (requireAdmin q s) k :: 'a fleet_step_of)))"
proof (cases "requireAdmin q s :: (fleet_error failure + officeUser) \<times> officeServer")
  case (Pair r s')
  show ?thesis
  proof (cases r)
    case (Inl e)
    then show ?thesis using requireAdmin_frame[OF Pair] Pair assms(1) by (simp add: andthen_def)
  next
    case (Inr u)
    then have "s' = s" "osigned_in q s u" "canManageUsers u" using Pair by (simp_all add: requireAdmin_Inr)
    then show ?thesis using assms(2) Inr Pair by (simp add: andthen_def)
  qed
qed

lemma st_fetch: "P (ofStore s) \<Longrightarrow> (\<And>v. res = Inr v \<Longrightarrow> P (ofStore (snd (k v)))) \<Longrightarrow> P (ofStore (snd (fetch res m s k)))"
  by (auto simp: fetch_def split: sum.split)

lemma st_put:
  "P (ofStore s) \<Longrightarrow> (\<And>st. res = Inr st \<Longrightarrow> P (ofStore (snd (k (s\<lparr>ofStore := st\<rparr>))))) \<Longrightarrow> P (ofStore (snd (put_store res s k)))"
  by (auto simp: put_store_def split: sum.split)

lemma st_decode: "P (ofStore s) \<Longrightarrow> (\<And>r. body = Some r \<Longrightarrow> P (ofStore (snd (k r)))) \<Longrightarrow> P (ofStore (snd (decode body s k)))"
  by (auto simp: decode_def split: option.split)

lemma st_guard: "P (ofStore s) \<Longrightarrow> (\<not> bad \<Longrightarrow> P (ofStore (snd (k s)))) \<Longrightarrow> P (ofStore (snd (guard bad c m s k)))"
  by (simp add: guard_def)

lemma st_password: "P (ofStore s) \<Longrightarrow> (\<And>p. P (ofStore (snd (k p)))) \<Longrightarrow> P (ofStore (snd (draw_password q s k)))"
  by (auto simp: draw_password_def split: option.split)

lemma st_sum:
  "(\<And>e. r = Inl e \<Longrightarrow> P (ofStore (snd (f e)))) \<Longrightarrow> (\<And>v. r = Inr v \<Longrightarrow> P (ofStore (snd (g v)))) \<Longrightarrow>
   P (ofStore (snd (case r of Inl e \<Rightarrow> f e | Inr v \<Rightarrow> g v)))"
  by (auto split: sum.split)

lemma st_vessel:
  assumes "P (ofStore s)" and "\<And>u. P (ofStore (snd (k u s)))"
  shows "P (ofStore (snd (with_vessel q v s k)))"
  unfolding with_vessel_def
  by (rule st_admin[where P = P]) (auto simp: require_vessel_def andthen_def writeError_def assms split: sum.split)

section \<open>Enrollment and credentials\<close>

definition enrollment_of :: "string \<Rightarrow> ostore \<Rightarrow> enrollment option" where
  "enrollment_of v st = find_row enVesselID (osEnrollments st) v"

definition live :: "string \<Rightarrow> ostore \<Rightarrow> bool" where
  "live v st \<longleftrightarrow> (\<exists>c \<in> set (osCredentials st). cdVesselID c = v \<and> cdRevokedAt c = None)"

definition live_enrolled :: "ostore \<Rightarrow> bool" where
  "live_enrolled st \<longleftrightarrow> (\<forall>v. live v st \<longrightarrow> (\<exists>e. enrollment_of v st = Some e \<and> enState e = EnrollEnrolled))"

lemma in_upsert_by:
  "x \<in> set (upsert_by key v rows) \<longleftrightarrow> x = v \<or> x \<in> set rows \<and> key x \<noteq> key v"
  by (auto simp: upsert_by_def list_ex_iff)

lemma live_revoke [simp]:
  "live v' (revokeVesselCredential pg v now st) \<longleftrightarrow> v' \<noteq> v \<and> live v' st"
  "enrollment_of v' (revokeVesselCredential pg v now st) = enrollment_of v' st"
  by (auto simp: live_def revokeVesselCredential_def enrollment_of_def image_iff split: if_splits)

lemma live_upsert:
  "upsertVesselCredential pg cred st = Inr st' \<Longrightarrow> live v st' \<Longrightarrow> v = cdVesselID cred \<or> live v st"
  by (fastforce simp: upsertVesselCredential_def live_def in_upsert_by split: if_splits)

lemma enrollment_of_upsert_credential:
  "upsertVesselCredential pg cred st = Inr st' \<Longrightarrow> enrollment_of v st' = enrollment_of v st"
  by (auto simp: upsertVesselCredential_def enrollment_of_def split: if_splits)

definition stored_enrollment :: "pg \<Rightarrow> enrollment \<Rightarrow> enrollment" where
  "stored_enrollment pg e = e\<lparr>enIssuedAt := pgTime pg (enIssuedAt e), enRevokedAt := map_option (pgTime pg) (enRevokedAt e),
     enUpdatedAt := pgTime pg (enUpdatedAt e)\<rparr>"

lemma stored_enrollment_sel [simp]:
  "enState (stored_enrollment pg e) = enState e" "enVesselID (stored_enrollment pg e) = enVesselID e"
  "enCodeHash (stored_enrollment pg e) = enCodeHash e"
  by (simp_all add: stored_enrollment_def)

lemma upsertEnrollment_InrD:
  assumes "upsertEnrollment pg e st = Inr st'"
  shows "enrollment_of v st' = (if v = enVesselID e then Some (stored_enrollment pg e) else enrollment_of v st)"
    and "live v st' = live v st"
  using assms
  by (auto simp: upsertEnrollment_def enrollment_of_def find_row_upsert_by stored_enrollment_def live_def split: if_splits)

text \<open>The four requests.\<close>

lemma reissue_live:
  assumes "live_enrolled (ofStore s)"
  shows "live_enrolled (ofStore (snd (handleReissueEnrollment q v body s)))"
proof -
  have step: "live_enrolled (revokeVesselCredential (oqPg q) v (oqNow q) st)"
    if "getEnrollment v (ofStore s) = Inr e" "reissue (oqCrypto q) (oqNow q) (oqToken q 0) (oqToken q 1) name e = Inr r"
      "upsertEnrollment (oqPg q) (irEnrollment r) (ofStore s) = Inr st" for e name r st
  proof -
    have "enVesselID (irEnrollment r) = v"
      using reissue_InrD(5)[OF that(2)] that(1) by (auto simp: getEnrollment_def split: option.splits dest: find_row_SomeD)
    then show ?thesis using assms upsertEnrollment_InrD[OF that(3)] by (simp add: live_enrolled_def)
  qed
  note st = st_admin[where P = live_enrolled] st_fetch[where P = live_enrolled] st_put[where P = live_enrolled]
    st_decode[where P = live_enrolled] st_sum[where P = live_enrolled]
  show ?thesis unfolding handleReissueEnrollment_def
    by (intro st) (simp_all add: assms with_store_def step)
qed

lemma revocation_live:
  assumes "live_enrolled (ofStore s)"
  shows "live_enrolled (ofStore (snd (handleRevokeEnrollment q v s)))"
proof -
  have step: "live_enrolled (revokeVesselCredential (oqPg q) v (oqNow q) st)"
    if "getEnrollment v (ofStore s) = Inr e" "upsertEnrollment (oqPg q) (revoke (oqNow q) e) (ofStore s) = Inr st" for e st
  proof -
    have "enVesselID (revoke (oqNow q) e) = v"
      using that(1) by (auto simp: revoke_def getEnrollment_def split: option.splits dest: find_row_SomeD)
    then show ?thesis using assms upsertEnrollment_InrD[OF that(2)] by (simp add: live_enrolled_def)
  qed
  note st = st_admin[where P = live_enrolled] st_fetch[where P = live_enrolled] st_put[where P = live_enrolled]
  show ?thesis unfolding handleRevokeEnrollment_def Let_def
    by (intro st) (simp_all add: assms with_store_def step)
qed

lemma first_issue_live:
  assumes "live_enrolled (ofStore s)" and "enrollment_of v (ofStore s) = None"
  shows "live_enrolled (ofStore (snd (handleIssueEnrollment q v body s)))"
proof -
  have step: "live_enrolled st"
    if "issue (oqCrypto q) (oqNow q) (oqToken q 0) (oqToken q 1) v name = Inr r"
      "upsertEnrollment (oqPg q) (irEnrollment r) (ofStore s) = Inr st" for name r st
  proof -
    have "enVesselID (irEnrollment r) = v" using that(1) by (rule issue_InrD(2))
    then show ?thesis using assms upsertEnrollment_InrD[OF that(2)] by (auto simp: live_enrolled_def)
  qed
  note st = st_admin[where P = live_enrolled] st_fetch[where P = live_enrolled] st_put[where P = live_enrolled]
    st_decode[where P = live_enrolled] st_sum[where P = live_enrolled]
  show ?thesis unfolding handleIssueEnrollment_def
    by (intro st) (simp_all add: assms step)
qed

lemma redeem_writes:
  assumes "\<And>x. set (ordEnrollments (oqOrders q) x) = set x"
    and "redeem (oqCrypto q) (oqNow q) (listIssuedEnrollments (ordEnrollments (oqOrders q)) st) code = Inr e'"
  obtains e where "e \<in> set (osEnrollments st)" and "enState e = EnrollIssued" and "verifyCode (oqCrypto q) code e = Inr True"
    and "e' = enrol_now (oqNow q) e"
proof -
  obtain xs e ys where e: "listIssuedEnrollments (ordEnrollments (oqOrders q)) st = xs @ e # ys"
      "verifyCode (oqCrypto q) code e = Inr True" "e' = enrol_now (oqNow q) e"
    using redeem_InrD[OF assms(2)] by blast
  then have "e \<in> set (listIssuedEnrollments (ordEnrollments (oqOrders q)) st)" by simp
  then have "e \<in> set (osEnrollments st)" and "enState e = EnrollIssued" using assms(1) by (simp_all add: listIssuedEnrollments_def)
  then show ?thesis using e(2,3) by (rule that)
qed

lemma redeem_live:
  assumes "live_enrolled (ofStore s)"
  shows "live_enrolled (ofStore (snd (handleRedeemEnrollment h q body s)))"
proof -
  have one: "live_enrolled st"
    if "upsertEnrollment (oqPg q) e (ofStore s) = Inr st" "enState e = EnrollEnrolled" for e st
    using assms upsertEnrollment_InrD[OF that(1)] that(2) by (simp add: live_enrolled_def)
  have two: "live_enrolled st'"
    if "upsertEnrollment (oqPg q) e (ofStore s) = Inr st" "enState e = EnrollEnrolled"
      "upsertVesselCredential (oqPg q) cred st = Inr st'" "cdVesselID cred = enVesselID e" for e st st' cred
    unfolding live_enrolled_def
  proof (intro allI impI)
    note up = that
    fix w assume "live w st'"
    then consider "w = enVesselID e" | "live w st" using live_upsert[OF up(3)] up(4) by auto
    then have "\<exists>x. enrollment_of w st = Some x \<and> enState x = EnrollEnrolled"
    proof cases
      case 1
      then show ?thesis using upsertEnrollment_InrD(1)[OF up(1)] up(2) by simp
    next
      case 2
      then show ?thesis using one[OF up(1,2)] by (simp add: live_enrolled_def)
    qed
    then show "\<exists>x. enrollment_of w st' = Some x \<and> enState x = EnrollEnrolled"
      by (simp add: enrollment_of_upsert_credential[OF up(3)])
  qed
  have minted: "cdVesselID cred = v" if "mint c h t r v = Inr (cred, token)" for c t r v cred token
    using that by (auto simp: mint_def split: if_splits option.splits sum.splits)
  have enrolled: "enState e = EnrollEnrolled" if "redeem c t es code = Inr e" for c t es code e
    using redeem_InrD[OF that] by (auto simp: enrol_now_def)
  have first: "live_enrolled st"
    if "redeem c t es code = Inr e" "upsertEnrollment (oqPg q) (e\<lparr>enDRPublicKey := k\<rparr>) (ofStore s) = Inr st" for c t es code e k st
    using one[OF that(2)] enrolled[OF that(1)] by simp
  have both: "live_enrolled st'"
    if "redeem c t es code = Inr e" "mint c' h t' r (enVesselID e) = Inr (cred, token)"
      "upsertEnrollment (oqPg q) (e\<lparr>enDRPublicKey := k\<rparr>) (ofStore s) = Inr st" "upsertVesselCredential (oqPg q) cred st = Inr st'"
    for c t es code e k st st' c' t' r cred token
    using two[OF that(3) _ that(4)] enrolled[OF that(1)] minted[OF that(2)] by simp
  note st = st_decode[where P = live_enrolled] st_guard[where P = live_enrolled] st_put[where P = live_enrolled]
    st_sum[where P = live_enrolled]
  show ?thesis unfolding handleRedeemEnrollment_def Let_def
    by (intro st) (auto simp: assms intro!: st intro: first both split: prod.split)
qed

text \<open>The other requests do not touch enrollments or credentials.\<close>

definition same_enrollments :: "ostore \<Rightarrow> ostore \<Rightarrow> bool" where
  "same_enrollments st st' \<longleftrightarrow> osEnrollments st' = osEnrollments st \<and> osCredentials st' = osCredentials st"

lemma same_enrollments_refl [simp]: "same_enrollments st st"
  by (simp add: same_enrollments_def)

lemma same_enrollments_live: "same_enrollments st st' \<Longrightarrow> live_enrolled st \<Longrightarrow> live_enrolled st'"
  by (simp add: same_enrollments_def live_enrolled_def live_def enrollment_of_def)

lemma other_writes:
  "createVessel pg vr st = Inr st' \<Longrightarrow> same_enrollments st st'"
  "updateVessel pg vr st = Inr st' \<Longrightarrow> same_enrollments st st'"
  "queueUserCommand pg v uc st = Inr st' \<Longrightarrow> same_enrollments st st'"
  by (auto simp: createVessel_def updateVessel_def queueUserCommand_def same_enrollments_def split: if_splits)

lemma queue_same: "same_enrollments (ofStore s) (ofStore (snd (queue_command q v by_user spec p s)))"
  by (auto simp: queue_command_def put_store_def Let_def other_writes split: option.split sum.split)

lemma reader_same:
  assumes "\<And>u. snd (k u s) = s"
  shows "same_enrollments (ofStore s) (ofStore (snd (andthen (oauthenticatedUser q s) k :: 'a fleet_step_of)))"
  using fleet_reader[where k = k and q = q and s = s and a = False and pb = undefined and pg = undefined, OF assms]
  by (simp add: fleet_effect_def)

lemma other_requests:
  "same_enrollments (ofStore s) (ofStore (snd (handleCreateVessel q cbody s)))" (is ?one)
  "same_enrollments (ofStore s) (ofStore (snd (handleUpdateVessel q i pbody s)))" (is ?two)
  "same_enrollments (ofStore s) (ofStore (snd (handleCreateVesselUser q i ubody s)))" (is ?three)
  "same_enrollments (ofStore s) (ofStore (snd (handleResetVesselUserPassword q i username s)))" (is ?four)
  "same_enrollments (ofStore s) (ofStore (snd (handleSetVesselUserRole q i username rbody s)))" (is ?five)
  "same_enrollments (ofStore s) (ofStore (snd (handleSetVesselUserCanSubmit q i username bbody s)))" (is ?six)
  "same_enrollments (ofStore s) (ofStore (snd (handleSetVesselUserActive q i username active s)))" (is ?seven)
proof -
  let ?P = "same_enrollments (ofStore s)"
  note st = st_admin[where P = ?P] st_fetch[where P = ?P] st_put[where P = ?P] st_decode[where P = ?P] st_sum[where P = ?P]
    st_guard[where P = ?P] st_password[where P = ?P] st_vessel[where P = ?P] queue_same
  show ?one unfolding handleCreateVessel_def by (intro st) (auto intro: other_writes)
  show ?two unfolding handleUpdateVessel_def by (intro st) (auto intro: other_writes split: sum.split)
  show ?three unfolding handleCreateVesselUser_def Let_def by (intro st) simp_all
  show ?four unfolding handleResetVesselUserPassword_def by (intro st) simp_all
  show ?five unfolding handleSetVesselUserRole_def by (intro st) simp_all
  show ?six unfolding handleSetVesselUserCanSubmit_def by (intro st) simp_all
  show ?seven unfolding handleSetVesselUserActive_def by (intro st) simp_all
qed

inductive credential_request :: "officeReq \<Rightarrow> officeServer \<Rightarrow> officeServer \<Rightarrow> bool" for q s where
  redemption: "credential_request q s (snd (handleRedeemEnrollment h q body s))"
| issuing: "enrollment_of i (ofStore s) = None \<Longrightarrow> credential_request q s (snd (handleIssueEnrollment q i name s))"
| reissuing: "credential_request q s (snd (handleReissueEnrollment q i name s))"
| revoking: "credential_request q s (snd (handleRevokeEnrollment q i s))"
| listing: "credential_request q s (snd (handleListVessels q s))"
| creating: "credential_request q s (snd (handleCreateVessel q cbody s))"
| getting: "credential_request q s (snd (handleGetVessel q i s))"
| updating: "credential_request q s (snd (handleUpdateVessel q i pbody s))"
| crew_creating: "credential_request q s (snd (handleCreateVesselUser q i ubody s))"
| crew_resetting: "credential_request q s (snd (handleResetVesselUserPassword q i username s))"
| crew_role_setting: "credential_request q s (snd (handleSetVesselUserRole q i username rbody s))"
| crew_submit_setting: "credential_request q s (snd (handleSetVesselUserCanSubmit q i username bbody s))"
| crew_active_setting: "credential_request q s (snd (handleSetVesselUserActive q i username active s))"

lemma credential_request_live:
  assumes "credential_request q s s'" and "live_enrolled (ofStore s)"
  shows "live_enrolled (ofStore s')"
  using assms(1)
proof cases
  case redemption
  then show ?thesis by (simp add: redeem_live assms(2))
next
  case issuing
  then show ?thesis by (simp add: first_issue_live assms(2))
next
  case reissuing
  then show ?thesis by (simp add: reissue_live assms(2))
next
  case revoking
  then show ?thesis by (simp add: revocation_live assms(2))
next
  case listing
  then show ?thesis unfolding handleListVessels_def
    by (auto intro!: same_enrollments_live[OF _ assms(2)] reader_same split: sum.split)
next
  case getting
  then show ?thesis unfolding handleGetVessel_def Let_def
    by (auto intro!: same_enrollments_live[OF _ assms(2)] reader_same simp: fetch_def split: sum.split)
qed (simp_all add: same_enrollments_live[OF other_requests(1) assms(2)] same_enrollments_live[OF other_requests(2) assms(2)]
    same_enrollments_live[OF other_requests(3) assms(2)] same_enrollments_live[OF other_requests(4) assms(2)]
    same_enrollments_live[OF other_requests(5) assms(2)] same_enrollments_live[OF other_requests(6) assms(2)]
    same_enrollments_live[OF other_requests(7) assms(2)])

text \<open>Issuing over an existing enrollment is the exception: the credential stays alive, its enrollment is no longer enrolled.\<close>

lemma issue_keeps_credentials: "osCredentials (ofStore (snd (handleIssueEnrollment q v body s))) = osCredentials (ofStore s)"
proof -
  let ?P = "\<lambda>st. osCredentials st = osCredentials (ofStore s)"
  have up: "osCredentials st' = osCredentials st" if "upsertEnrollment pg e st = Inr st'" for pg e st st'
    using that by (auto simp: upsertEnrollment_def split: if_splits)
  note st = st_admin[where P = ?P] st_fetch[where P = ?P] st_put[where P = ?P] st_decode[where P = ?P] st_sum[where P = ?P]
  show ?thesis unfolding handleIssueEnrollment_def by (intro st) (auto dest: up)
qed

text \<open>A revoked or re-issued vessel is shut out whatever token it shows.\<close>

lemma shut_out:
  assumes "\<And>c. c \<in> set (osCredentials st) \<Longrightarrow> cdVesselID c = v \<Longrightarrow> cdRevokedAt c \<noteq> None"
  shows "fst (authInterceptor cr h env header st) \<noteq> Inr v"
proof
  assume "fst (authInterceptor cr h env header st) = Inr v"
  then obtain st' where "authInterceptor cr h env header st = (Inr v, st')" by (metis prod.collapse)
  then show False using authInterceptor_InrD assms by blast
qed

lemma put_store_InrD:
  "put_store res s k = (Inr x, s') \<Longrightarrow> \<exists>st. res = Inr st \<and> k (s\<lparr>ofStore := st\<rparr>) = (Inr x, s')"
  by (auto simp: put_store_def writeErrorText_def split: sum.splits)

lemma fetch_InrD: "fetch res m s k = (Inr x, s') \<Longrightarrow> \<exists>v. res = Inr v \<and> k v = (Inr x, s')"
  by (auto simp: fetch_def writeError_def writeErrorText_def split: sum.splits if_splits)

lemma admin_InrD:
  "andthen (requireAdmin q s) k = (Inr x, s') \<Longrightarrow> \<exists>u. osigned_in q s u \<and> canManageUsers u \<and> k u s = (Inr x, s')"
  by (auto simp: andthen_def requireAdmin_Inr split: prod.splits sum.splits)

lemma decode_InrD: "decode body s k = (Inr x, s') \<Longrightarrow> \<exists>r. body = Some r \<and> k r = (Inr x, s')"
  by (auto simp: decode_def writeError_def split: option.splits)

lemma guard_InrD: "guard bad c m s k = (Inr x, s') \<Longrightarrow> \<not> bad \<and> k s = (Inr x, s')"
  by (auto simp: guard_def writeError_def split: if_splits)

lemmas answered = put_store_InrD fetch_InrD admin_InrD decode_InrD guard_InrD

lemma revocation_answered:
  assumes "handleRevokeEnrollment q v s = (Inr r, s')"
  shows "\<exists>st. ofStore s' = revokeVesselCredential (oqPg q) v (oqNow q) st"
  using assms unfolding handleRevokeEnrollment_def Let_def
  by (auto simp: with_store_def writeJSON_def dest!: answered)

lemma reissue_answered:
  assumes "handleReissueEnrollment q v body s = (Inr r, s')"
  shows "\<exists>st. ofStore s' = revokeVesselCredential (oqPg q) v (oqNow q) st"
  using assms unfolding handleReissueEnrollment_def
  by (auto simp: with_store_def writeJSON_def writeErrorText_def split: sum.splits dest!: answered) blast

lemma revoked_shut_out:
  "handleRevokeEnrollment q v s = (Inr r, s') \<or> handleReissueEnrollment q v body s = (Inr r', s') \<Longrightarrow>
   fst (authInterceptor cr h env header (ofStore s')) \<noteq> Inr v"
  using revoked_all by (intro shut_out) (metis revocation_answered reissue_answered)

section \<open>Redeeming a code\<close>

lemma redemption_answered:
  assumes "handleRedeemEnrollment h q body s = (Inr r, s')"
  obtains req e cred token v st where "body = Some req"
    and "redeem (oqCrypto q) (oqNow q) (listIssuedEnrollments (ordEnrollments (oqOrders q)) (ofStore s)) (reCode req) = Inr e"
    and "mint (oqCrypto q) h (oqNow q) (oqToken q 0) (enVesselID e) = Inr (cred, token)"
    and "getVessel (enVesselID e) (ofStore s) = Inr v"
    and "upsertEnrollment (oqPg q) (e\<lparr>enDRPublicKey := reDRPublicKey req\<rparr>) (ofStore s) = Inr st"
    and "upsertVesselCredential (oqPg q) cred st = Inr (ofStore s')"
    and "r = (StatusOK, \<lparr>rrCredential = token, rrVesselName = vrName v, rrVesselIMO = vrIMO v\<rparr>)"
  using assms unfolding handleRedeemEnrollment_def Let_def
  by (auto simp: writeJSON_def writeError_def writeErrorText_def split: sum.splits prod.splits if_splits dest!: answered)

lemma mint_InrD: "mint c h t r v = Inr (cred, token) \<Longrightarrow> r = Some token \<and> cdVesselID cred = v \<and> createHash c token = Some (cdTokenHash cred)"
  by (auto simp: mint_def hashPassword_Inr split: if_splits option.splits sum.splits)

lemma redemption_contract:
  assumes "handleRedeemEnrollment h q (Some req) s = (Inr r, s')"
    and "crypto_ok (oqCrypto q)" and "\<And>p. p \<noteq> '''' \<Longrightarrow> createHash (oqCrypto q) p \<noteq> Some ''''"
    and "\<And>x. set (ordEnrollments (oqOrders q) x) = set x"
    and "\<And>t. oqToken q 0 = Some t \<Longrightarrow> trim_space t = t \<and> t \<noteq> ''''"
    and "distinct (map cdVesselID (osCredentials (ofStore s)))"
  shows "\<exists>e e' v. e \<in> set (osEnrollments (ofStore s)) \<and> enState e = EnrollIssued \<and>
    verifyCode (oqCrypto q) (reCode req) e = Inr True \<and>
    enrollment_of (enVesselID e) (ofStore s') = Some e' \<and> enState e' = EnrollEnrolled \<and> enCodeHash e' = '''' \<and>
    getVessel (enVesselID e) (ofStore s) = Inr v \<and> rrVesselName (snd r) = vrName v \<and> rrVesselIMO (snd r) = vrIMO v \<and>
    fst (authInterceptor (oqCrypto q) h env (bearer_prefix @ rrCredential (snd r)) (ofStore s')) = Inr (enVesselID e)"
  using assms(1)
proof (rule redemption_answered)
  fix req' e0 cred token v st
  assume req: "Some req = Some req'"
    and e0: "redeem (oqCrypto q) (oqNow q) (listIssuedEnrollments (ordEnrollments (oqOrders q)) (ofStore s)) (reCode req') = Inr e0"
    and cred: "mint (oqCrypto q) h (oqNow q) (oqToken q 0) (enVesselID e0) = Inr (cred, token)"
    and v: "getVessel (enVesselID e0) (ofStore s) = Inr v"
    and st: "upsertEnrollment (oqPg q) (e0\<lparr>enDRPublicKey := reDRPublicKey req'\<rparr>) (ofStore s) = Inr st"
    and done_: "upsertVesselCredential (oqPg q) cred st = Inr (ofStore s')"
    and r: "r = (StatusOK, \<lparr>rrCredential = token, rrVesselName = vrName v, rrVesselIMO = vrIMO v\<rparr>)"
  obtain e where e: "e \<in> set (osEnrollments (ofStore s))" "enState e = EnrollIssued"
      "verifyCode (oqCrypto q) (reCode req') e = Inr True" "e0 = enrol_now (oqNow q) e"
    using assms(4) e0 by (rule redeem_writes)
  have id: "enVesselID e0 = enVesselID e" using e(4) by (simp add: enrol_now_def)
  have minted: "oqToken q 0 = Some token" "createHash (oqCrypto q) token = Some (cdTokenHash cred)"
    using mint_InrD[OF cred] by simp_all
  have "osCredentials st = osCredentials (ofStore s)" using st by (auto simp: upsertEnrollment_def split: if_splits)
  then have "distinct (map cdVesselID (osCredentials st))" using assms(6) by simp
  moreover note token = assms(5)[OF minted(1)]
  moreover have "cdTokenHash cred \<noteq> ''''" using assms(3)[of token] minted(2) token by auto
  ultimately have auth: "fst (authInterceptor (oqCrypto q) h env (bearer_prefix @ token) (ofStore s')) = Inr (enVesselID e)"
    using minted_authenticates[OF assms(2) cred[unfolded minted(1)] done_] id by simp
  have "enrollment_of (enVesselID e) (ofStore s') =
      Some (stored_enrollment (oqPg q) (e0\<lparr>enDRPublicKey := reDRPublicKey req'\<rparr>))"
    using upsertEnrollment_InrD(1)[OF st] enrollment_of_upsert_credential[OF done_] id by simp
  then show ?thesis
    using e(1-3) v auth req r id e(4) by (intro exI[of _ e] exI[of _ v] exI) (auto simp: enrol_now_def)
qed

section \<open>The queue of commands\<close>

text \<open>A command the vessel can be sent, and that makes nobody a Master.\<close>

definition orderly :: "officeUserCommand \<Rightarrow> bool" where
  "orderly c \<longleftrightarrow> oucAction c \<in> set (map fst userCommandActionByString) \<and>
     (oucAction c \<in> {''create'', ''setRole''} \<longrightarrow> isValidVesselRole (oucRole c) \<and> oucRole c \<noteq> RoleMaster) \<and>
     (oucAction c = ''create'' \<longrightarrow> oucUsername c \<noteq> '''' \<and> trim_space (oucUsername c) = oucUsername c)"

definition queue_ok :: "ostore \<Rightarrow> bool" where
  "queue_ok st \<longleftrightarrow> (\<forall>r \<in> set (osCommands st). orderly (srItem r))"

lemma queue_ok_same: "osCommands st' = osCommands st \<Longrightarrow> queue_ok st \<Longrightarrow> queue_ok st'"
  by (simp add: queue_ok_def)

lemma same_queue:
  "createVessel pg vr st = Inr st' \<Longrightarrow> osCommands st' = osCommands st"
  "updateVessel pg vr st = Inr st' \<Longrightarrow> osCommands st' = osCommands st"
  "upsertEnrollment pg en st = Inr st' \<Longrightarrow> osCommands st' = osCommands st"
  "osCommands (revokeVesselCredential pg v now st) = osCommands st"
  by (auto simp: createVessel_def updateVessel_def upsertEnrollment_def revokeVesselCredential_def split: if_splits)

lemma queue_command_ok:
  assumes "queue_ok (ofStore s)" and "csAction spec \<in> set (map fst userCommandActionByString)"
    and "csAction spec \<in> {''create'', ''setRole''} \<longrightarrow> isValidVesselRole (csRole spec) \<and> csRole spec \<noteq> RoleMaster"
    and "csAction spec = ''create'' \<longrightarrow> csUsername spec \<noteq> '''' \<and> trim_space (csUsername spec) = csUsername spec"
  shows "queue_ok (ofStore (snd (queue_command q v by_user spec p s)))"
  using assms
  by (auto simp: queue_command_def put_store_def Let_def queueUserCommand_def queue_ok_def orderly_def
      split: option.split sum.split if_splits)

lemma fleet_request_queue:
  assumes "fleet_request q s s'" and "queue_ok (ofStore s)"
  shows "queue_ok (ofStore s')"
proof -
  note st = st_admin[where P = queue_ok] st_fetch[where P = queue_ok] st_put[where P = queue_ok] st_decode[where P = queue_ok]
    st_sum[where P = queue_ok] st_guard[where P = queue_ok] st_password[where P = queue_ok] st_vessel[where P = queue_ok]
  note same = queue_ok_same[OF same_queue(1) assms(2)] queue_ok_same[OF same_queue(2) assms(2)]
    queue_ok_same[OF same_queue(3) assms(2)]
  have revoked: "queue_ok (revokeVesselCredential (oqPg q) v (oqNow q) st)" if "upsertEnrollment (oqPg q) en (ofStore s) = Inr st"
    for v en st
    by (rule queue_ok_same[OF same_queue(4)]) (rule same(3)[OF that])
  have reader: "ofStore (snd (andthen (oauthenticatedUser q s) k)) = ofStore s" if "\<And>u. snd (k u s) = s"
    for k :: "officeUser \<Rightarrow> officeServer \<Rightarrow> 'a fleet_step_of"
    using fleet_reader[where k = k and q = q and s = s and a = False and pb = undefined and pg = undefined, OF that]
    by (simp add: fleet_effect_def)
  have known: "''create'' \<in> fst ` set userCommandActionByString" "''resetPassword'' \<in> fst ` set userCommandActionByString"
    "''setRole'' \<in> fst ` set userCommandActionByString" "''setCanSubmit'' \<in> fst ` set userCommandActionByString"
    "''setActive'' \<in> fst ` set userCommandActionByString"
    by (simp_all add: userCommandActionByString_def)
  show ?thesis
    using assms(1)
  proof cases
    case vessel_list
    then show ?thesis unfolding handleListVessels_def using assms(2) by (simp add: reader split: sum.split)
  next
    case (vessel_create cbody)
    then show ?thesis unfolding vessel_create handleCreateVessel_def by (intro st) (auto simp: assms(2) dest: same)
  next
    case (vessel_get i)
    then show ?thesis unfolding handleGetVessel_def Let_def using assms(2) by (simp add: reader fetch_def split: sum.split)
  next
    case (vessel_update i pbody)
    then show ?thesis unfolding vessel_update handleUpdateVessel_def
      by (intro st) (auto simp: assms(2) dest: same split: sum.split)
  next
    case (enrollment_issue i name)
    then show ?thesis unfolding enrollment_issue handleIssueEnrollment_def by (intro st) (auto simp: assms(2) dest: same)
  next
    case (enrollment_reissue i name)
    then show ?thesis unfolding enrollment_reissue handleReissueEnrollment_def
      by (intro st) (auto simp: assms(2) with_store_def dest: revoked)
  next
    case (enrollment_revoke i)
    then show ?thesis unfolding enrollment_revoke handleRevokeEnrollment_def Let_def
      by (intro st) (auto simp: assms(2) with_store_def dest: revoked)
  next
    case (crew_create i ubody)
    then show ?thesis unfolding crew_create handleCreateVesselUser_def Let_def
      by (intro st queue_command_ok) (simp_all add: assms(2) known trim_space_idem)
  next
    case (crew_reset i username)
    then show ?thesis unfolding crew_reset handleResetVesselUserPassword_def
      by (intro st queue_command_ok) (simp_all add: assms(2) known)
  next
    case (crew_role i username rbody)
    then show ?thesis unfolding crew_role handleSetVesselUserRole_def
      by (intro st queue_command_ok) (simp_all add: assms(2) known)
  next
    case (crew_submit i username bbody)
    then show ?thesis unfolding crew_submit handleSetVesselUserCanSubmit_def
      by (intro st queue_command_ok) (simp_all add: assms(2) known)
  next
    case (crew_active i username active)
    then show ?thesis unfolding crew_active handleSetVesselUserActive_def
      by (intro st queue_command_ok) (simp_all add: assms(2) known)
  qed
qed

text \<open>What the sync service hands out of such a queue.\<close>

lemma pull_commands_ok:
  assumes "\<forall>r \<in> set rs. orderly (srItem r)"
  shows "\<exists>out. fst (pull_commands env rs st) = Inr out \<and> map pucCommandId out = map (\<lambda>r. oucID (srItem r)) rs \<and>
    (\<forall>c \<in> set out. pucAction c \<noteq> UserCommandActionUnspecified \<and>
       (pucAction c \<in> {UserCommandActionCreate, UserCommandActionSetRole} \<longrightarrow> pucRole c \<noteq> RoleMaster))"
  using assms
proof (induction rs arbitrary: st)
  case (Cons r rs)
  then have "orderly (srItem r)" by simp
  then obtain a where a: "userCommandActionFromString (oucAction (srItem r)) = Inr a" "a \<noteq> UserCommandActionUnspecified"
      "a \<in> {UserCommandActionCreate, UserCommandActionSetRole} \<longrightarrow> oucRole (srItem r) \<noteq> RoleMaster"
    by (auto simp: orderly_def userCommandActionFromString_def userCommandActionByString_def)
  let ?st = "markUserCommandFetched (oePg env) (oucID (srItem r)) (oeNow env) st"
  obtain out where out: "fst (pull_commands env rs ?st) = Inr out" "map pucCommandId out = map (\<lambda>r. oucID (srItem r)) rs"
      "\<forall>c \<in> set out. pucAction c \<noteq> UserCommandActionUnspecified \<and>
         (pucAction c \<in> {UserCommandActionCreate, UserCommandActionSetRole} \<longrightarrow> pucRole c \<noteq> RoleMaster)"
    using Cons by fastforce
  obtain st' where "pull_commands env rs ?st = (Inr out, st')" using out(1) by (metis prod.collapse)
  then show ?case using a out(2,3) by (simp add: userCommandToWire_def andthen_def)
qed simp

end
