(* ===== verification/OfficeReview.thy ===== *)
theory OfficeReview
  imports OfficeAccounts OfficeSync "HOL-Library.While_Combinator"
begin

text \<open>
  What the office says about reports: sets of remarks (\<open>office/httpapi/remarks.go\<close>), the chat of a report (\<open>chat.go\<close>)
  and the review marks (\<open>reportreviews.go\<close>).  A remark set is a run of separate statements: the remarks, the state of the
  latest version, an audit event, and a chat message that names the flagged fields, cut to the length a message may have.

  Lemmas: the cut keeps whole characters; the message of a remark set is never too long; a remark set that answers with success
  has done all of its writes, and each prefix of them is what a failure can leave.
\<close>

section \<open>Cutting text\<close>

text \<open>Strings are their bytes.  \<open>utf8_size s\<close> is the length of the character \<open>s\<close> starts with, 0 when its bytes are none.\<close>

definition byte_in :: "nat \<Rightarrow> nat \<Rightarrow> char \<Rightarrow> bool" where
  "byte_in lo hi c \<longleftrightarrow> lo \<le> of_char c \<and> of_char c \<le> hi"

definition continuation :: "char \<Rightarrow> bool" where
  "continuation c \<longleftrightarrow> byte_in 0x80 0xBF c"

text \<open>The range of the second byte depends on the first.\<close>

definition second_byte :: "char \<Rightarrow> char \<Rightarrow> bool" where
  "second_byte a b \<longleftrightarrow> (let n = of_char a :: nat in
     byte_in (if n = 0xE0 then 0xA0 else if n = 0xF0 then 0x90 else 0x80)
             (if n = 0xED then 0x9F else if n = 0xF4 then 0x8F else 0xBF) b)"

definition lead_size :: "char \<Rightarrow> nat" where
  "lead_size c = (if byte_in 0 0x7F c then 1 else if byte_in 0xC2 0xDF c then 2 else if byte_in 0xE0 0xEF c then 3
     else if byte_in 0xF0 0xF4 c then 4 else 0)"

definition utf8_size :: "string \<Rightarrow> nat" where
  "utf8_size s = (case s of [] \<Rightarrow> 0 | a # t \<Rightarrow>
     let n = lead_size a in
     if n = 0 \<or> n = 1 then n
     else if length t + 1 < n then 0
     else if second_byte a (hd t) \<and> list_all continuation (take (n - 2) (tl t)) then n else 0)"

text \<open>\<open>utf8.DecodeLastRuneInString\<close> finds a character that ends the string.\<close>

definition ends_in_rune :: "string \<Rightarrow> bool" where
  "ends_in_rune s \<longleftrightarrow> list_ex (\<lambda>k. k \<le> length s \<and> utf8_size (drop (length s - k) s) = k) [1, 2, 3, 4]"

function drop_broken :: "string \<Rightarrow> string" where
  "drop_broken b = (if b = [] \<or> ends_in_rune b then b else drop_broken (butlast b))"
  by pat_completeness auto

termination
  by (relation "measure length") auto

declare drop_broken.simps [simp del]

definition truncateBytes :: "string \<Rightarrow> nat \<Rightarrow> string" where
  "truncateBytes s maxBytes = (if length s \<le> maxBytes then s else drop_broken (take maxBytes s))"

section \<open>Remark sets\<close>

datatype review_error = ReviewDomain domain_error | ReviewStore ostore_error | ReviewRandom

type_synonym 'a review_handled = "(review_error, 'a, officeServer) handled"
type_synonym 'a review_step = "(review_error failure + 'a) \<times> officeServer"

record oremarkView =
  orvID :: string
  orvReportID :: string
  orvVersionNo :: int
  orvFieldName :: string
  orvBody :: string
  orvAuthor :: string
  orvCreatedAt :: gotime
  orvResolved :: bool

definition toRemarkView :: "remark \<Rightarrow> oremarkView" where
  "toRemarkView r = \<lparr>orvID = rmID r, orvReportID = rmReportID r, orvVersionNo = rmVersionNo r, orvFieldName = rmFieldName r,
     orvBody = rmBody r, orvAuthor = rmAuthor r, orvCreatedAt = rmCreatedAt r, orvResolved = rmResolved r\<rparr>"

fun join_with :: "string \<Rightarrow> string list \<Rightarrow> string" where
  "join_with sep [] = ''''"
| "join_with sep [x] = x"
| "join_with sep (x # xs) = x @ sep @ join_with sep xs"

definition remarkChatSummary :: "string list \<Rightarrow> remark list \<Rightarrow> string" where
  "remarkChatSummary labels remarks =
     (let shown = (if length labels > 3 then take 3 labels else labels);
          suffix = (if length labels > 3 then '' (+'' @ decimal (length labels - 3) @ '' more)'' else '''');
          msg = ''Flagged: '' @ join_with '', '' shown @ suffix;
          msg = (case remarks of [r] \<Rightarrow> msg @ [CHR 0x0A] @ rmBody r | _ \<Rightarrow> msg)
      in truncateBytes msg maxChatBodyBytes)"

text \<open>A label of the latest version of the schema where it has one, else the name of the field.\<close>

definition fieldLabels :: "officeReq \<Rightarrow> ostore \<Rightarrow> string \<Rightarrow> string list \<Rightarrow> string list" where
  "fieldLabels q st sname names =
     (case latestSchemaVersion (oqSorter q) sname st of
        Inl _ \<Rightarrow> names
      | Inr sv \<Rightarrow>
     (case oqParse q (svContent sv) of
        None \<Rightarrow> names
      | Some sch \<Rightarrow>
          let byName = map_of (rev (map (\<lambda>f. (fieldName f, fieldLabel f)) (schemaFields sch)))
          in map (\<lambda>n. case byName n of None \<Rightarrow> n | Some label \<Rightarrow> if label = '''' then n else label) names))"

record remarkFieldInput =
  rfiFieldName :: string
  rfiBody :: string

definition build_remarks ::
  "officeReq \<Rightarrow> string \<Rightarrow> int \<Rightarrow> string \<Rightarrow> remarkFieldInput list \<Rightarrow> remark list option" where
  "build_remarks q reportID versionNo author inputs =
     those (map (\<lambda>(i, f). map_option (\<lambda>uid. \<lparr>rmID = uid, rmReportID = reportID, rmVersionNo = versionNo,
       rmFieldName = rfiFieldName f, rmBody = rfiBody f, rmAuthor = author, rmCreatedAt = oqNow q, rmResolved = False\<rparr>)
         (oqUUID q (i + 1))) (enumerate 0 inputs))"

text \<open>The report the lifecycle method sees has an identity and a state, nothing else.\<close>

definition stub_report :: "string \<Rightarrow> int \<Rightarrow> state \<Rightarrow> report" where
  "stub_report i n s = \<lparr>ReportID = i, VersionNo = n, SchemaName = '''', EventType = '''', EventTime = zero_time,
     Fields = None, State = s, InvalidatedFrom = StateZero, InvalidatedRules = [], CreatedAt = zero_time, CreatedBy = '''',
     UpdatedAt = zero_time, SubmittedAt = zero_time, SubmittedBy = ''''\<rparr>"

definition put_review :: "ostore_error + ostore \<Rightarrow> officeServer \<Rightarrow> (officeServer \<Rightarrow> 'a review_step) \<Rightarrow> 'a review_step" where
  "put_review res s k =
     (case res of
        Inl e \<Rightarrow> writeErrorText StatusInternalServerError (ReviewStore e) s
      | Inr st \<Rightarrow> k (s\<lparr>ofStore := st\<rparr>))"

definition handleCreateRemarkSet ::
  "officeReq \<Rightarrow> string \<Rightarrow> string \<Rightarrow> remarkFieldInput list option \<Rightarrow> officeServer \<Rightarrow> oremarkView list review_handled" where
  "handleCreateRemarkSet q vesselID reportID body s =
     andthen (requireReviewer q s) (\<lambda>user s.
     decode body s (\<lambda>inputs.
     guard (inputs = []) StatusBadRequest ''at least one remark is required'' s (\<lambda>s.
       let versions = listReportVersions vesselID reportID (ofStore s) in
     guard (versions = []) StatusNotFound ''report not found'' s (\<lambda>s.
       let latest = last versions; names = map rfiFieldName inputs in
       case oqUUID q 0 of
         None \<Rightarrow> writeErrorText StatusInternalServerError ReviewRandom s
       | Some setID \<Rightarrow>
      (case build_remarks q reportID (VersionNo latest) (ouUsername user) inputs of
         None \<Rightarrow> writeErrorText StatusInternalServerError ReviewRandom s
       | Some remarks \<Rightarrow>
      (case insertRemarkSet (oqPg q) vesselID remarks setID (ofStore s) of
         (Inl e, st) \<Rightarrow> writeErrorText StatusInternalServerError (ReviewStore e) (s\<lparr>ofStore := st\<rparr>)
       | (Inr _, st) \<Rightarrow> let s = s\<lparr>ofStore := st\<rparr> in
      (case markRemarked names (ouUsername user) (oqNow q) (stub_report reportID (VersionNo latest) (State latest)) of
         Inl e \<Rightarrow> writeErrorText StatusConflict (ReviewDomain e) s
       | Inr (report, e) \<Rightarrow>
           put_review (updateReportVersionState vesselID reportID (VersionNo latest) (State report) (ofStore s)) s (\<lambda>s.
           put_review (appendReportAuditEvent (oqPg q) vesselID e (oqNow q) OriginOffice (ofStore s)) s (\<lambda>s.
             let labels = fieldLabels q (ofStore s) (SchemaName latest) names in
             case newChatMessage (oqUUID q (length inputs + 1)) (oqNow q) reportID (ouUsername user)
                    (remarkChatSummary labels remarks) ChatFromOffice of
               Inl e \<Rightarrow> writeErrorText StatusInternalServerError (ReviewDomain e) s
             | Inr m \<Rightarrow>
                 put_review (oinsertChatMessage (oqPg q) vesselID m (ofStore s)) s
                   (writeJSON StatusCreated (map toRemarkView remarks)))))))))))"

definition ohandleListRemarks :: "officeReq \<Rightarrow> string \<Rightarrow> string \<Rightarrow> officeServer \<Rightarrow> oremarkView list review_handled" where
  "ohandleListRemarks q vesselID reportID s =
     andthen (oauthenticatedUser q s) (\<lambda>_ s.
       writeJSON StatusOK (map toRemarkView (olistRemarks vesselID reportID (ofStore s))) s)"

definition handleSetRemarkResolved :: "officeReq \<Rightarrow> string \<Rightarrow> bool option \<Rightarrow> officeServer \<Rightarrow> bool review_handled" where
  "handleSetRemarkResolved q i body s =
     andthen (requireReviewer q s) (\<lambda>_ s.
     decode body s (\<lambda>b.
       writeJSON StatusOK b (s\<lparr>ofStore := setRemarkResolved (oqPg q) (oqNow q) i b (ofStore s)\<rparr>)))"

section \<open>Chat and review marks\<close>

record ochatMessageView =
  ocvID :: string
  ocvReportID :: string
  ocvSender :: string
  ocvBody :: string
  ocvSentAt :: gotime
  ocvDirection :: chatDirection

definition otoChatMessageView :: "chatMessage \<Rightarrow> ochatMessageView" where
  "otoChatMessageView m = \<lparr>ocvID = cmID m, ocvReportID = cmReportID m, ocvSender = cmSender m, ocvBody = cmBody m,
     ocvSentAt = cmSentAt m, ocvDirection = cmDirection m\<rparr>"

definition ohandleListChat :: "officeReq \<Rightarrow> string \<Rightarrow> string \<Rightarrow> officeServer \<Rightarrow> ochatMessageView list review_handled" where
  "ohandleListChat q vesselID reportID s =
     andthen (oauthenticatedUser q s) (\<lambda>_ s.
       writeJSON StatusOK (map otoChatMessageView (olistChatMessages (oqSorter q) vesselID reportID (ofStore s))) s)"

definition ohandlePostChat ::
  "officeReq \<Rightarrow> string \<Rightarrow> string \<Rightarrow> string option \<Rightarrow> officeServer \<Rightarrow> ochatMessageView review_handled" where
  "ohandlePostChat q vesselID reportID body s =
     andthen (oauthenticatedUser q s) (\<lambda>user s.
     decode body s (\<lambda>text.
       case newChatMessage (oqUUID q 0) (oqNow q) reportID (ouUsername user) text ChatFromOffice of
         Inl e \<Rightarrow> writeErrorText StatusBadRequest (ReviewDomain e) s
       | Inr m \<Rightarrow> put_review (oinsertChatMessage (oqPg q) vesselID m (ofStore s)) s
                    (writeJSON StatusCreated (otoChatMessageView m))))"

record markReviewedItem =
  mriVesselID :: string
  mriReportID :: string

text \<open>The items one after the other; an item that fails ends the request, with those before it marked.\<close>

definition mark_item :: "officeReq \<Rightarrow> string \<Rightarrow> markReviewedItem \<Rightarrow> ostore \<Rightarrow> (ostore_error + unit) \<times> ostore" where
  "mark_item q reviewedBy item st =
     attempt st (markReviewed (oqPg q) (oqNow q) (mriVesselID item) (mriReportID item) reviewedBy st) (\<lambda>st. (Inr (), st))"

definition handleBulkMarkReviewed :: "officeReq \<Rightarrow> markReviewedItem list option \<Rightarrow> officeServer \<Rightarrow> int review_handled" where
  "handleBulkMarkReviewed q body s =
     andthen (requireReviewer q s) (\<lambda>user s.
     decode body s (\<lambda>items.
     guard (items = []) StatusBadRequest ''at least one item is required'' s (\<lambda>s.
       case for_each (mark_item q (ouUsername user)) items (ofStore s) of
         (Inl e, st) \<Rightarrow> writeErrorText StatusInternalServerError (ReviewStore e) (s\<lparr>ofStore := st\<rparr>)
       | (Inr _, st) \<Rightarrow> writeJSON StatusOK (int (length items)) (s\<lparr>ofStore := st\<rparr>))))"

section \<open>The cut keeps whole characters\<close>

definition is_rune :: "string \<Rightarrow> bool" where
  "is_rune c \<longleftrightarrow> c \<noteq> [] \<and> utf8_size c = length c"

text \<open>The shape of a character: a lead byte that gives its length, then continuation bytes.\<close>

lemma continuation_not_lead: "continuation c \<Longrightarrow> lead_size c = 0"
  by (auto simp: continuation_def lead_size_def byte_in_def)

lemma second_continuation: "second_byte a b \<Longrightarrow> continuation b"
  by (auto simp: second_byte_def continuation_def byte_in_def Let_def split: if_splits)

lemma lead_size_le: "lead_size a \<le> 4"
  by (simp add: lead_size_def)

lemma utf8_size_pos:
  assumes "utf8_size s = n" and "0 < n"
  obtains a t where "s = a # t" and "lead_size a = n" and "n \<le> length s" and "list_all continuation (take (n - 1) t)"
proof (cases s)
  case (Cons a t)
  have lead: "lead_size a = n" and len: "n \<le> length s"
    using assms by (auto simp: utf8_size_def Cons Let_def split: if_splits)
  have "list_all continuation (take (n - 1) t)"
  proof (cases "n = 1")
    case False
    then have "second_byte a (hd t)" "list_all continuation (take (n - 2) (tl t))" "t \<noteq> []"
      using assms lead len by (auto simp: utf8_size_def Cons Let_def split: if_splits)
    moreover have "take (n - 1) t = hd t # take (n - 2) (tl t)"
      using \<open>t \<noteq> []\<close> False assms(2) by (cases t) (auto simp: take_Cons' numeral_2_eq_2)
    ultimately show ?thesis by (simp add: second_continuation)
  qed simp
  then show ?thesis using that Cons lead len by blast
qed (use assms in \<open>simp add: utf8_size_def\<close>)

lemma rune_shape:
  assumes "is_rune c"
  obtains a t where "c = a # t" and "lead_size a = length c" and "list_all continuation t" and "length c \<le> 4"
proof -
  obtain a t where 1: "c = a # t" "lead_size a = length c" "list_all continuation (take (length c - 1) t)"
    using assms utf8_size_pos[of c "length c"] by (auto simp: is_rune_def)
  moreover have "take (length c - 1) t = t" using 1(1) by simp
  moreover have "length c \<le> 4" using lead_size_le[of a] 1(2) by simp
  ultimately show ?thesis using that by metis
qed

text \<open>No character ends in the middle of another.\<close>

lemma rune_prefix_not_end:
  assumes "is_rune c" and "p \<noteq> []" and "p \<noteq> c" and "c = p @ r" and "length p < length c"
  shows "\<not> ends_in_rune (w @ p)"
proof
  assume "ends_in_rune (w @ p)"
  then obtain k where "k \<in> set [1, 2, 3, 4]" and k': "k \<le> length (w @ p)" "utf8_size (drop (length (w @ p) - k) (w @ p)) = k"
    unfolding ends_in_rune_def list_ex_iff by blast
  then have k: "0 < k" "k \<le> length (w @ p)" "utf8_size (drop (length (w @ p) - k) (w @ p)) = k" by auto
  let ?s = "drop (length (w @ p) - k) (w @ p)"
  obtain a t where s: "?s = a # t" "lead_size a = k" "list_all continuation (take (k - 1) t)"
    using utf8_size_pos[OF k(3,1)] by metis
  have len: "length ?s = k" using k(2) by simp
  then have "length (a # t) = k" unfolding s(1) .
  then have t: "take (k - 1) t = t" by simp
  obtain b u where c: "c = b # u" "lead_size b = length c" "list_all continuation u" using rune_shape[OF assms(1)] by metis
  have p: "p = b # take (length p - 1) u"
    using assms(2,4) c(1) by (cases p) auto
  have rest: "list_all continuation (take (length p - 1) u)"
    using c(3) by (metis append_take_drop_id list_all_append)
  show False
  proof (cases "k \<le> length p")
    case True
    then have s': "?s = drop (length p - k) p" by simp
    show ?thesis
    proof (cases "k = length p")
      case True
      then have "a = b" using s(1) s' p by simp
      then show ?thesis using s(2) c(2) True assms(5) by simp
    next
      case False
      then have "length p - k > 0" using True by simp
      then have "?s = drop (length p - k - 1) (take (length p - 1) u)" using s' p by (metis drop_Cons' neq0_conv)
      then have "list_all continuation ?s" using rest by (metis append_take_drop_id list_all_append)
      then have "list_all continuation (a # t)" unfolding s(1) .
      then show ?thesis using s(2) continuation_not_lead[of a] k(1) by simp
    qed
  next
    case False
    then have "?s = drop (length (w @ p) - k) w @ p" and "length (w @ p) - k < length w" using k(2) by simp_all
    then obtain x where "t = x @ p" using s(1) by (cases "drop (length (w @ p) - k) w") auto
    then have "list_all continuation p" using s(3)[unfolded t] by simp
    moreover have "hd p = b" using p by (metis list.sel(1))
    ultimately have "continuation b" using assms(2) by (cases p) auto
    then show ?thesis using continuation_not_lead[of b] c(2) assms(1) by (simp add: is_rune_def)
  qed
qed

lemma one_to_four: "0 < (n::nat) \<Longrightarrow> n \<le> 4 \<Longrightarrow> n \<in> {1, 2, 3, 4}"
  by auto

lemma ends_in_runes:
  assumes "list_all is_rune cs" and "cs \<noteq> []"
  shows "ends_in_rune (concat cs)"
proof -
  obtain ds c where cs: "cs = ds @ [c]" using assms(2) by (metis append_butlast_last_id)
  then have "is_rune c" using assms(1) by simp
  moreover from this obtain a t where "c = a # t" "length c \<le> 4" using rune_shape by metis
  then have "length c \<in> {1, 2, 3, 4}" using one_to_four[of "length c"] by simp
  ultimately show ?thesis unfolding ends_in_rune_def list_ex_iff
    by (intro bexI[of _ "length c"]) (auto simp: cs is_rune_def)
qed

lemma drop_broken_runes:
  assumes "list_all is_rune cs" and "p = [] \<or> (is_rune c \<and> c = p @ r \<and> r \<noteq> [])"
  shows "drop_broken (concat cs @ p) = concat cs"
  using assms(2)
proof (induction p arbitrary: r rule: rev_induct)
  case Nil
  then show ?case using assms(1) ends_in_runes[of cs] by (cases "cs = []") (simp_all add: drop_broken.simps)
next
  case (snoc x p)
  then have c: "is_rune c" "c = (p @ [x]) @ r" "r \<noteq> []" by auto
  then have "\<not> ends_in_rune (concat cs @ (p @ [x]))"
    by (intro rune_prefix_not_end[of c "p @ [x]" r]) auto
  then have "drop_broken (concat cs @ p @ [x]) = drop_broken (concat cs @ p)"
    by (subst drop_broken.simps) (simp add: butlast_append)
  then show ?case using snoc.IH[of "x # r"] c by simp
qed

text \<open>The characters that fit, and the beginning of the next.\<close>

fun fitting :: "nat \<Rightarrow> string list \<Rightarrow> string list" where
  "fitting n [] = []"
| "fitting n (c # cs) = (if length c \<le> n then c # fitting (n - length c) cs else [])"

lemma take_fitting:
  "list_all is_rune cs \<Longrightarrow> \<exists>p. take n (concat cs) = concat (fitting n cs) @ p \<and>
     (p = [] \<or> (\<exists>c r. is_rune c \<and> c = p @ r \<and> r \<noteq> []))"
proof (induction n cs rule: fitting.induct)
  case (2 n c cs)
  show ?case
  proof (cases "length c \<le> n")
    case True
    then obtain p where "take (n - length c) (concat cs) = concat (fitting (n - length c) cs) @ p"
        "p = [] \<or> (\<exists>c r. is_rune c \<and> c = p @ r \<and> r \<noteq> [])"
      using 2 by auto
    then show ?thesis using True by (intro exI[of _ p]) simp
  next
    case False
    then show ?thesis using 2(2) by (intro exI[of _ "take n c"] conjI disjI2 exI[of _ c] exI[of _ "drop n c"]) simp_all
  qed
qed simp

lemma list_all_fitting: "list_all P cs \<Longrightarrow> list_all P (fitting n cs)"
  by (induction n cs rule: fitting.induct) auto

lemma fitting_all: "length (concat cs) \<le> n \<Longrightarrow> fitting n cs = cs"
  by (induction n cs rule: fitting.induct) auto

lemma truncate_runes:
  assumes "list_all is_rune cs"
  shows "truncateBytes (concat cs) n = concat (fitting n cs)"
proof -
  obtain p where p: "take n (concat cs) = concat (fitting n cs) @ p" "p = [] \<or> (\<exists>c r. is_rune c \<and> c = p @ r \<and> r \<noteq> [])"
    using take_fitting[OF assms] by blast
  have "drop_broken (concat (fitting n cs) @ p) = concat (fitting n cs)"
    using p(2) drop_broken_runes[OF list_all_fitting[OF assms]] by blast
  then show ?thesis using p(1) fitting_all[of cs n] by (simp add: truncateBytes_def)
qed

text \<open>The loop as the code writes it: it ends because every round takes a byte away.\<close>

lemma drop_broken_loop: "while_option (\<lambda>b. b \<noteq> [] \<and> \<not> ends_in_rune b) butlast b = Some (drop_broken b)"
proof (induction b rule: drop_broken.induct)
  case (1 b)
  show ?case
  proof (cases "b = [] \<or> ends_in_rune b")
    case True
    then show ?thesis by (subst while_option_unfold, subst drop_broken.simps) auto
  next
    case False
    then show ?thesis using 1 by (subst while_option_unfold, subst drop_broken.simps) auto
  qed
qed

text \<open>Whatever the bytes, the cut is a beginning of the text that fits, and keeps an ASCII beginning.\<close>

lemma drop_broken_prefix: "\<exists>r. b = drop_broken b @ r"
proof (induction b rule: drop_broken.induct)
  case (1 b)
  show ?case
  proof (cases "b = [] \<or> ends_in_rune b")
    case True
    then show ?thesis by (subst drop_broken.simps) simp
  next
    case False
    then obtain r where "butlast b = drop_broken (butlast b) @ r" using 1 by blast
    then have "butlast b @ [last b] = (drop_broken (butlast b) @ r) @ [last b]" by (rule arg_cong[where f = "\<lambda>x. x @ [last b]"])
    moreover have "butlast b @ [last b] = b" using False by simp
    moreover have "drop_broken (butlast b) = drop_broken b" using False by (subst (2) drop_broken.simps) simp
    ultimately show ?thesis by (metis append.assoc)
  qed
qed

lemma truncate_prefix: "\<exists>r. s = truncateBytes s n @ r" "length (truncateBytes s n) \<le> n"
proof -
  obtain r where r: "take n s = drop_broken (take n s) @ r" using drop_broken_prefix by blast
  then show "\<exists>r. s = truncateBytes s n @ r"
    unfolding truncateBytes_def by (metis append.assoc append_Nil2 append_take_drop_id)
  have "length (drop_broken (take n s)) \<le> length (take n s)" by (metis r length_append le_add1)
  then show "length (truncateBytes s n) \<le> n" by (auto simp: truncateBytes_def)
qed

lemma summary_fits: "length (remarkChatSummary labels remarks) \<le> maxChatBodyBytes"
  unfolding remarkChatSummary_def Let_def by (rule truncate_prefix(2))

section \<open>A remark set\<close>

lemma those_map_Some: "those (map f xs) = Some ys \<Longrightarrow> list_all2 (\<lambda>x y. f x = Some y) xs ys"
proof (induction xs arbitrary: ys)
  case (Cons x xs)
  then show ?case by (cases "f x") (auto split: option.splits)
qed simp

lemma build_remarks_sel:
  assumes "build_remarks q i n author inputs = Some rs"
  shows "map (\<lambda>r. (rmFieldName r, rmBody r)) rs = map (\<lambda>f. (rfiFieldName f, rfiBody f)) inputs"
    and "\<forall>r \<in> set rs. rmReportID r = i \<and> rmVersionNo r = n \<and> rmAuthor r = author \<and> \<not> rmResolved r"
proof -
  have all: "list_all2 (\<lambda>(k, f) r. rmFieldName r = rfiFieldName f \<and> rmBody r = rfiBody f \<and> rmReportID r = i \<and>
      rmVersionNo r = n \<and> rmAuthor r = author \<and> \<not> rmResolved r) (enumerate 0 inputs) rs"
    using those_map_Some[OF assms[unfolded build_remarks_def]] by (rule list_all2_mono) auto
  have "map (\<lambda>(k, f). (rfiFieldName f, rfiBody f)) (enumerate 0 inputs) = map (\<lambda>r. (rmFieldName r, rmBody r)) rs"
    using all by (induction rule: list_all2_induct) auto
  moreover have "map (\<lambda>(k, f). (rfiFieldName f, rfiBody f)) (enumerate 0 inputs) = map (\<lambda>f. (rfiFieldName f, rfiBody f)) inputs"
    by (rule nth_equalityI) (auto simp: nth_enumerate_eq)
  ultimately show "map (\<lambda>r. (rmFieldName r, rmBody r)) rs = map (\<lambda>f. (rfiFieldName f, rfiBody f)) inputs" by simp
  show "\<forall>r \<in> set rs. rmReportID r = i \<and> rmVersionNo r = n \<and> rmAuthor r = author \<and> \<not> rmResolved r"
    using all by (induction rule: list_all2_induct) auto
qed

lemma insertRemarkSet_InrD:
  "insertRemarkSet pg v rs setID st = (Inr u, st') \<Longrightarrow>
   \<exists>rows. st' = st\<lparr>osRemarks := osRemarks st @ rows, osNextRemark := osNextRemark st + int (length rs)\<rparr> \<and>
     map (\<lambda>x. (srVesselID x, rrSetID (srItem x), rrRemark (srItem x))) rows =
     map (\<lambda>r. (v, setID, r\<lparr>rmCreatedAt := pgTime pg (rmCreatedAt r)\<rparr>)) rs"
proof (induction rs arbitrary: st)
  case (Cons r rs)
  let ?row = "\<lparr>srSeq = osNextRemark st, srVesselID = v,
    srItem = \<lparr>rrRemark = r\<lparr>rmCreatedAt := pgTime pg (rmCreatedAt r)\<rparr>, rrSetID = setID, rrResolvedAt = None\<rparr>\<rparr>"
  let ?st = "st\<lparr>osRemarks := osRemarks st @ [?row], osNextRemark := osNextRemark st + 1\<rparr>"
  have "insertRemarkSet pg v rs setID ?st = (Inr u, st')"
    using Cons.prems by (auto simp: insertRemarkSet_def insert_remark_def split: if_splits)
  then obtain rows where "st' = ?st\<lparr>osRemarks := osRemarks ?st @ rows, osNextRemark := osNextRemark ?st + int (length rs)\<rparr>"
      "map (\<lambda>x. (srVesselID x, rrSetID (srItem x), rrRemark (srItem x))) rows =
       map (\<lambda>r. (v, setID, r\<lparr>rmCreatedAt := pgTime pg (rmCreatedAt r)\<rparr>)) rs"
    using Cons.IH by blast
  then show ?case by (intro exI[of _ "?row # rows"]) simp
qed (auto simp: insertRemarkSet_def)

lemma reviewer_InrD:
  "andthen (requireReviewer q s) k = (Inr x, s') \<Longrightarrow> \<exists>u. osigned_in q s u \<and> canReview u \<and> k u s = (Inr x, s')"
  by (auto simp: andthen_def requireReviewer_Inr split: prod.splits sum.splits)

lemma put_review_InrD: "put_review res s k = (Inr x, s') \<Longrightarrow> \<exists>st. res = Inr st \<and> k (s\<lparr>ofStore := st\<rparr>) = (Inr x, s')"
  by (auto simp: put_review_def writeErrorText_def split: sum.splits)

lemma decode_answered: "decode body s k = (Inr x, s') \<Longrightarrow> \<exists>r. body = Some r \<and> k r = (Inr x, s')"
  by (auto simp: decode_def writeError_def split: option.splits)

lemma guard_answered: "guard bad c m s k = (Inr x, s') \<Longrightarrow> \<not> bad \<and> k s = (Inr x, s')"
  by (auto simp: guard_def writeError_def split: if_splits)

lemmas review_answered = reviewer_InrD put_review_InrD decode_answered guard_answered

text \<open>The writes of an answered request, in their order.\<close>

lemma remark_set_answered:
  assumes "handleCreateRemarkSet q v i (Some inputs) s = (Inr r, s')"
  obtains u setID rs st1 rep e st2 st3 m where "osigned_in q s u" and "canReview u" and "inputs \<noteq> []"
    and "listReportVersions v i (ofStore s) \<noteq> []"
    and "build_remarks q i (VersionNo (last (listReportVersions v i (ofStore s)))) (ouUsername u) inputs = Some rs"
    and "insertRemarkSet (oqPg q) v rs setID (ofStore s) = (Inr (), st1)"
    and "markRemarked (map rfiFieldName inputs) (ouUsername u) (oqNow q)
           (stub_report i (VersionNo (last (listReportVersions v i (ofStore s)))) (State (last (listReportVersions v i (ofStore s))))) =
         Inr (rep, e)"
    and "updateReportVersionState v i (VersionNo (last (listReportVersions v i (ofStore s)))) (State rep) st1 = Inr st2"
    and "appendReportAuditEvent (oqPg q) v e (oqNow q) OriginOffice st2 = Inr st3"
    and "newChatMessage (oqUUID q (Suc (length inputs))) (oqNow q) i (ouUsername u)
           (remarkChatSummary (fieldLabels q st3 (SchemaName (last (listReportVersions v i (ofStore s)))) (map rfiFieldName inputs)) rs)
           ChatFromOffice = Inr m"
    and "oinsertChatMessage (oqPg q) v m st3 = Inr (ofStore s')"
    and "r = (StatusCreated, map toRemarkView rs)"
  using assms unfolding handleCreateRemarkSet_def
  by (auto simp: Let_def writeJSON_def writeErrorText_def split: option.splits sum.splits prod.splits
      dest!: review_answered intro: that)

lemma remark_set_contract:
  assumes "handleCreateRemarkSet q v i (Some inputs) s = (Inr r, s')"
  shows "\<exists>u latest rows ev msg. osigned_in q s u \<and> canReview u \<and>
    listReportVersions v i (ofStore s) \<noteq> [] \<and> latest = last (listReportVersions v i (ofStore s)) \<and> inChain (State latest) \<and>
    osRemarks (ofStore s') = osRemarks (ofStore s) @ rows \<and>
    map (\<lambda>x. (rmFieldName (rrRemark (srItem x)), rmBody (rrRemark (srItem x)))) rows =
      map (\<lambda>f. (rfiFieldName f, rfiBody f)) inputs \<and>
    (\<forall>x \<in> set rows. srVesselID x = v \<and> rmReportID (rrRemark (srItem x)) = i \<and>
       rmVersionNo (rrRemark (srItem x)) = VersionNo latest \<and> rmAuthor (rrRemark (srItem x)) = ouUsername u) \<and>
    osVersions (ofStore s') = map (\<lambda>l. if lv_key l = (v, i, VersionNo latest)
       then l\<lparr>lvReport := (lvReport l)\<lparr>State := StateRemarked\<rparr>\<rparr> else l) (osVersions (ofStore s)) \<and>
    osEvents (ofStore s') = osEvents (ofStore s) @ [ev] \<and> evType (arEvent ev) = EventRemarked \<and> arOrigin ev = OriginOffice \<and>
    osChat (ofStore s') = osChat (ofStore s) @ [msg] \<and> srVesselID msg = v \<and> cmReportID (srItem msg) = i \<and>
      cmDirection (srItem msg) = ChatFromOffice \<and> length (cmBody (srItem msg)) \<le> maxChatBodyBytes"
  using assms
proof (rule remark_set_answered)
  let ?latest = "last (listReportVersions v i (ofStore s))"
  fix u setID rs st1 rep e st2 st3 m
  assume u: "osigned_in q s u" "canReview u" and versions: "listReportVersions v i (ofStore s) \<noteq> []"
    and rs: "build_remarks q i (VersionNo ?latest) (ouUsername u) inputs = Some rs"
    and st1: "insertRemarkSet (oqPg q) v rs setID (ofStore s) = (Inr (), st1)"
    and rep: "markRemarked (map rfiFieldName inputs) (ouUsername u) (oqNow q) (stub_report i (VersionNo ?latest) (State ?latest)) =
      Inr (rep, e)"
    and st2: "updateReportVersionState v i (VersionNo ?latest) (State rep) st1 = Inr st2"
    and st3: "appendReportAuditEvent (oqPg q) v e (oqNow q) OriginOffice st2 = Inr st3"
    and m: "newChatMessage (oqUUID q (Suc (length inputs))) (oqNow q) i (ouUsername u)
      (remarkChatSummary (fieldLabels q st3 (SchemaName ?latest) (map rfiFieldName inputs)) rs) ChatFromOffice = Inr m"
    and st4: "oinsertChatMessage (oqPg q) v m st3 = Inr (ofStore s')"
  have state: "inChain (State ?latest)" "State rep = StateRemarked"
    using markRemarked_SomeD[OF rep] by (simp_all add: stub_report_def)
  have ev: "evType e = EventRemarked" using rep by (auto simp: markRemarked_def Let_def split: if_splits)
  obtain rows where rows: "st1 = ofStore s\<lparr>osRemarks := osRemarks (ofStore s) @ rows, osNextRemark := osNextRemark (ofStore s) + int (length rs)\<rparr>"
      "map (\<lambda>x. (srVesselID x, rrSetID (srItem x), rrRemark (srItem x))) rows =
       map (\<lambda>r. (v, setID, r\<lparr>rmCreatedAt := pgTime (oqPg q) (rmCreatedAt r)\<rparr>)) rs"
    using insertRemarkSet_InrD[OF st1] by blast
  have two: "st2 = st1\<lparr>osVersions := map (\<lambda>l. if lv_key l = (v, i, VersionNo ?latest)
       then l\<lparr>lvReport := (lvReport l)\<lparr>State := StateRemarked\<rparr>\<rparr> else l) (osVersions st1)\<rparr>"
    using st2 state(2) by (simp add: updateReportVersionState_def)
  obtain row where three: "st3 = st2\<lparr>osEvents := osEvents st2 @ [row]\<rparr>" "evType (arEvent row) = EventRemarked" "arOrigin row = OriginOffice"
    using st3 ev by (auto simp: appendReportAuditEvent_def Let_def split: if_splits option.splits)
  let ?msg = "\<lparr>srSeq = osNextChat st3, srVesselID = v, srItem = m\<lparr>cmSentAt := pgTime (oqPg q) (cmSentAt m)\<rparr>\<rparr>"
  have after: "ofStore s' = st3\<lparr>osChat := osChat st3 @ [?msg], osNextChat := osNextChat st3 + 1\<rparr>"
    using st4 by (simp add: oinsertChatMessage_def split: if_splits)
  obtain msg where four: "osChat (ofStore s') = osChat st3 @ [msg]" "srVesselID msg = v" "cmReportID (srItem msg) = cmReportID m"
      "cmDirection (srItem msg) = cmDirection m" "cmBody (srItem msg) = cmBody m" "osRemarks (ofStore s') = osRemarks st3"
      "osVersions (ofStore s') = osVersions st3" "osEvents (ofStore s') = osEvents st3"
    by (rule that[of ?msg]) (simp_all add: after)
  have chat: "cmReportID m = i" "cmDirection m = ChatFromOffice" "length (cmBody m) \<le> maxChatBodyBytes"
    using m by (auto simp: newChatMessage_def summary_fits split: if_splits option.splits)
  have items: "map (\<lambda>x. (srVesselID x, rrRemark (srItem x))) rows = map (\<lambda>r. (v, r\<lparr>rmCreatedAt := pgTime (oqPg q) (rmCreatedAt r)\<rparr>)) rs"
    using arg_cong[OF rows(2), of "map (\<lambda>(a, b, c). (a, c))"] by (simp add: o_def)
  have "map (\<lambda>x. (rmFieldName (rrRemark (srItem x)), rmBody (rrRemark (srItem x)))) rows =
      map (\<lambda>r. (rmFieldName r, rmBody r)) rs"
    using arg_cong[OF items, of "map (\<lambda>(a, r). (rmFieldName r, rmBody r))"] by (simp add: o_def)
  then have content: "map (\<lambda>x. (rmFieldName (rrRemark (srItem x)), rmBody (rrRemark (srItem x)))) rows =
      map (\<lambda>f. (rfiFieldName f, rfiBody f)) inputs"
    using build_remarks_sel(1)[OF rs] by simp
  have owner: "srVesselID x = v \<and> rmReportID (rrRemark (srItem x)) = i \<and> rmVersionNo (rrRemark (srItem x)) = VersionNo ?latest \<and>
      rmAuthor (rrRemark (srItem x)) = ouUsername u" if "x \<in> set rows" for x
  proof -
    have "(srVesselID x, rrRemark (srItem x)) \<in> set (map (\<lambda>x. (srVesselID x, rrRemark (srItem x))) rows)" using that by simp
    then show ?thesis unfolding items using build_remarks_sel(2)[OF rs] by auto
  qed
  show ?thesis
    using u versions state(1) four three two rows(1) chat content owner
    by (intro exI[of _ u] exI[of _ ?latest] exI[of _ rows] exI[of _ row] exI[of _ msg]) simp
qed

end
