(* ===== verification/OfficeRecovery.thy ===== *)
theory OfficeRecovery
  imports VesselSync OfficeFleet
begin

text \<open>
  Recovery of a vessel that lost its data.  \<open>office/restorebundle\<close> puts together what the office holds of one vessel; an Admin
  downloads it or queues a restore command (\<open>office/httpapi/restorebundle.go\<close>), and the vessel fetches it with its own credential
  (\<open>office/syncservice/restorebundle.go\<close>).  \<open>seal\<close> is the encoding of the bundle and its encryption to the vessel's key.  The import on
  the vessel is in \<open>VesselSync\<close>.

  Lemmas: an import of reports the store does not have cannot fail and adds exactly them; a bundle of an office that mirrors a vessel
  brings back every committed report, into a store the office again mirrors.
\<close>

section \<open>The bundle\<close>

definition resolvedConfigBundle ::
  "(bundleAssignment list \<Rightarrow> bundleAssignment list) \<Rightarrow> string \<Rightarrow> ostore \<Rightarrow> sync_error + bundle_doc pulledConfigBundle option" where
  "resolvedConfigBundle ordA vesselID st =
     (case getVessel vesselID st of
        Inl e \<Rightarrow> Inl (SyncStore e)
      | Inr vessel \<Rightarrow>
     (case listBundleAssignments ordA st of
        Inl e \<Rightarrow> Inl (SyncScope e)
      | Inr assignments \<Rightarrow>
     (case resolve assignments vesselID (vrGroups vessel) of
        None \<Rightarrow> Inr None
      | Some match \<Rightarrow>
     (case getConfigBundleCursor (baBundleID match) st of
        Inl e \<Rightarrow> Inl (SyncConfig e)
      | Inr cursor \<Rightarrow>
     (case getConfigBundle (baBundleID match) st of
        Inl e \<Rightarrow> Inl (SyncConfig e)
      | Inr b \<Rightarrow> Inr (Some \<lparr>pcbBundleID = cbID b, pcbVersionNo = cursor,
                            pcbContent = Doc (resolveFor b vesselID (vrGroups vessel) cursor),
                            pcbPublishedAt = cbPublishedAt b\<rparr>))))))"

definition bundle_report :: "slice_sorter \<Rightarrow> string \<Rightarrow> ostore \<Rightarrow> reportListRow \<Rightarrow> bundleReport" where
  "bundle_report p vesselID st row =
     (let i = ReportID (rlReport row) in
      \<lparr>brReportID = i, brVersions = listReportVersions vesselID i st, brEvents = map fst (listReportAuditEvents p vesselID i st),
       brChat = olistChatMessages p vesselID i st\<rparr>)"

definition buildBundle ::
  "(landedVersion list \<Rightarrow> landedVersion list) \<Rightarrow> (bundleAssignment list \<Rightarrow> bundleAssignment list) \<Rightarrow> slice_sorter \<Rightarrow> pg \<Rightarrow> gotime
   \<Rightarrow> string \<Rightarrow> string \<Rightarrow> string \<Rightarrow> ostore \<Rightarrow> sync_error + bundle_doc restoreBundle" where
  "buildBundle ordV ordA p pg now vesselID vesselName vesselIMO st =
     (case listReports ordV pg (no_filter\<lparr>rfVesselID := Some vesselID\<rparr>) st of
        Inl e \<Rightarrow> Inl (SyncStore e)
      | Inr latest \<Rightarrow>
     (case resolvedConfigBundle ordA vesselID st of
        Inl e \<Rightarrow> Inl e
      | Inr cb \<Rightarrow> Inr \<lparr>rbVesselID = vesselID, rbVesselName = vesselName, rbVesselIMO = vesselIMO, rbGeneratedAt = now,
                        rbReports = map (bundle_report p vesselID st) latest, rbConfigBundle = cb\<rparr>))"

section \<open>The handlers\<close>

datatype recovery_error =
    RecoverySync sync_error
  | RecoveryStore ostore_error
  | RecoverySeal
  | RecoveryRandom

type_synonym 'a recovery_handled = "(recovery_error, 'a, officeServer) handled"

definition requireVesselWithDRKey ::
  "string \<Rightarrow> officeServer \<Rightarrow> (recovery_error failure + vesselRow \<times> string) \<times> officeServer" where
  "requireVesselWithDRKey vesselID s =
     (case getVessel vesselID (ofStore s) of
        Inl _ \<Rightarrow> writeError StatusNotFound ''vessel not found'' s
      | Inr v \<Rightarrow>
          (case getEnrollment vesselID (ofStore s) of
             Inl _ \<Rightarrow> writeError StatusConflict ''this vessel has no restore-bundle key on file yet'' s
           | Inr e \<Rightarrow>
               if enDRPublicKey e = '''' then writeError StatusConflict ''this vessel has no restore-bundle key on file yet'' s
               else (Inr (v, enDRPublicKey e), s)))"

definition handleGenerateRestoreBundle ::
  "(bundle_doc restoreBundle \<Rightarrow> string \<Rightarrow> string option) \<Rightarrow> officeReq \<Rightarrow> string \<Rightarrow> officeServer \<Rightarrow> string recovery_handled" where
  "handleGenerateRestoreBundle seal q vesselID s =
     andthen (requireAdmin q s) (\<lambda>_ s.
     andthen (requireVesselWithDRKey vesselID s) (\<lambda>(v, key) s.
       case buildBundle (ordVersions (oqOrders q)) (ordAssignments (oqOrders q)) (oqSorter q) (oqPg q) (oqNow q)
              (vrID v) (vrName v) (vrIMO v) (ofStore s) of
         Inl e \<Rightarrow> writeErrorText StatusInternalServerError (RecoverySync e) s
       | Inr b \<Rightarrow>
           (case seal b key of
              None \<Rightarrow> writeErrorText StatusInternalServerError RecoverySeal s
            | Some c \<Rightarrow> writeJSON StatusOK c s)))"

definition defaultPushRestoreBundleReason :: string where
  "defaultPushRestoreBundleReason = ''Restore bundle pushed from office''"

text \<open>A request without a body has no reason; the inner option is a body that does not decode.\<close>

definition handlePushRestoreBundle ::
  "officeReq \<Rightarrow> string \<Rightarrow> string option option \<Rightarrow> officeServer \<Rightarrow> restoreCommandView recovery_handled" where
  "handlePushRestoreBundle q vesselID body s =
     andthen (requireAdmin q s) (\<lambda>user s.
     andthen (requireVesselWithDRKey vesselID s) (\<lambda>_ s.
     decode (case body of None \<Rightarrow> Some '''' | Some b \<Rightarrow> b) s (\<lambda>reason.
       let reason = trim_space reason;
           reason = (if reason = '''' then defaultPushRestoreBundleReason else reason) in
       case oqUUID q 0 of
         None \<Rightarrow> writeErrorText StatusInternalServerError RecoveryRandom s
       | Some i \<Rightarrow>
           let cmd = \<lparr>rsoID = i, rsoReason = reason, rsoIssuedBy = ouUsername user, rsoIssuedAt = oqNow q,
                      rsoFetchedAt = None, rsoAppliedAt = None\<rparr> in
           (case queueRestoreCommand (oqPg q) vesselID cmd (ofStore s) of
              Inl e \<Rightarrow> writeErrorText StatusInternalServerError (RecoveryStore e) s
            | Inr st \<Rightarrow> writeJSON StatusCreated (toRestoreCommandView cmd) (s\<lparr>ofStore := st\<rparr>)))))"

datatype fetch_error = FetchNotFound | FetchPrecondition | FetchInternal recovery_error

definition fetchRestoreBundle ::
  "(bundle_doc restoreBundle \<Rightarrow> string \<Rightarrow> string option) \<Rightarrow> (landedVersion list \<Rightarrow> landedVersion list) \<Rightarrow> ('w, 'ts) officeEnv
   \<Rightarrow> string \<Rightarrow> string \<Rightarrow> ostore \<Rightarrow> (fetch_error + string) \<times> ostore" where
  "fetchRestoreBundle seal ordV env vesselID commandID st =
     (case getRestoreCommand commandID vesselID st of
        Inl e \<Rightarrow> (Inl (if e = OErrNotFound then FetchNotFound else FetchInternal (RecoveryStore e)), st)
      | Inr cmd \<Rightarrow>
     (case getVessel vesselID st of
        Inl e \<Rightarrow> (Inl (FetchInternal (RecoveryStore e)), st)
      | Inr vessel \<Rightarrow>
     (case getEnrollment vesselID st of
        Inl _ \<Rightarrow> (Inl FetchPrecondition, st)
      | Inr e \<Rightarrow>
          if enDRPublicKey e = '''' then (Inl FetchPrecondition, st)
          else
     (case buildBundle ordV (oeOrdAssignments env) (oeSorter env) (oePg env) (oeNow env) (vrID vessel) (vrName vessel) (vrIMO vessel) st of
        Inl e \<Rightarrow> (Inl (FetchInternal (RecoverySync e)), st)
      | Inr b \<Rightarrow>
     (case seal b (enDRPublicKey e) of
        None \<Rightarrow> (Inl (FetchInternal RecoverySeal), st)
      | Some c \<Rightarrow> (Inr c, markRestoreCommandFetched (oePg env) (rsoID cmd) (oeNow env) st))))))"

section \<open>Requests and calls in the history of the office\<close>

inductive recovery_request :: "officeReq \<Rightarrow> officeServer \<Rightarrow> officeServer \<Rightarrow> bool" for q s where
  bundle_download: "recovery_request q s (snd (handleGenerateRestoreBundle seal q i s))"
| bundle_push: "recovery_request q s (snd (handlePushRestoreBundle q i rbody s))"

lemma recovery_vessel:
  "(\<And>x. fleet_effect pb pg a s (snd (k x s))) \<Longrightarrow> fleet_effect pb pg a s (snd (andthen (requireVesselWithDRKey v s) k))"
  by (auto simp: requireVesselWithDRKey_def andthen_def writeError_def split: sum.split)

lemma recovery_request_effect: "recovery_request q s s' \<Longrightarrow> fleet_effect pb (oqPg q) (by_admin q s) s s'"
proof (induction rule: recovery_request.induct)
  case (bundle_download seal i)
  show ?case unfolding handleGenerateRestoreBundle_def
    by (intro fleet_admin recovery_vessel) (auto split: sum.split option.split)
next
  case (bundle_push i rbody)
  have queued: "fleet_effect pb (oqPg q) True s (s\<lparr>ofStore := st\<rparr>)"
    if "queueRestoreCommand (oqPg q) i cmd (ofStore s) = Inr st" for cmd st
    by (rule fleet_write[OF office_step.restore_command[OF that]]) simp
  show ?case unfolding handlePushRestoreBundle_def Let_def
    by (intro fleet_admin recovery_vessel fleet_decode) (auto intro: queued split: sum.split option.split)
qed

lemma fetch_history: "(office_step pb (oePg env))\<^sup>*\<^sup>* st (snd (fetchRestoreBundle seal ordV env v i st))"
  by (auto simp: fetchRestoreBundle_def intro: office_step.fetch split: sum.split option.split)

section \<open>What an import does\<close>

text \<open>Versions a store does not have are added as they are.\<close>

lemma restore_versions_fresh:
  assumes "distinct (map report_key rs)" and "report_key ` set rs \<inter> report_key ` set (vsReports st) = {}"
    and "\<forall>r \<in> set rs. fields_finite (Fields r)"
  shows "for_each restore_version rs st = (Inr (), st\<lparr>vsReports := vsReports st @ rs\<rparr>)"
  using assms
proof (induction rs arbitrary: st)
  case (Cons r rs)
  have "find_row report_key (vsReports st) (report_key r) = None" using Cons.prems(2) by (auto simp: find_row_None_iff)
  then have "restore_version r st = (Inr (), st\<lparr>vsReports := vsReports st @ [r]\<rparr>)"
    using Cons.prems(3) by (simp add: restore_version_def saveReport_def attempt_def)
  moreover have "for_each restore_version rs (st\<lparr>vsReports := vsReports st @ [r]\<rparr>) =
      (Inr (), st\<lparr>vsReports := (vsReports st @ [r]) @ rs\<rparr>)"
    using Cons.prems by (subst Cons.IH) auto
  ultimately show ?case by (simp add: andthen_def)
qed simp

lemma restore_events_add:
  assumes "\<forall>e \<in> set es. json_finite_obj (case evDetail e of None \<Rightarrow> [] | Some d \<Rightarrow> d)"
  shows "\<exists>st'. for_each restore_event es st = (Inr (), st') \<and> vsReports st' = vsReports st \<and> vsConfigBundles st' = vsConfigBundles st"
  using assms
proof (induction es arbitrary: st)
  case (Cons e es)
  obtain st1 where "restore_event e st = (Inr (), st1)" "vsReports st1 = vsReports st" "vsConfigBundles st1 = vsConfigBundles st"
    using Cons.prems by (simp add: restore_event_def attempt_val_def appendEvent_def Let_def)
  then show ?case using Cons.IH[of st1] Cons.prems by (simp add: andthen_def)
qed simp

definition details_finite :: "bundleReport \<Rightarrow> bool" where
  "details_finite br \<longleftrightarrow> (\<forall>e \<in> set (brEvents br). json_finite_obj (case evDetail e of None \<Rightarrow> [] | Some d \<Rightarrow> d))"

lemma restore_report_adds:
  assumes "distinct (map report_key (brVersions br))" and "report_key ` set (brVersions br) \<inter> report_key ` set (vsReports st) = {}"
    and "\<forall>r \<in> set (brVersions br). fields_finite (Fields r)" and "details_finite br"
  shows "\<exists>st'. restore_report br st = (Inr (), st') \<and> vsReports st' = vsReports st @ brVersions br \<and>
    vsConfigBundles st' = vsConfigBundles st"
proof -
  let ?st1 = "st\<lparr>vsReports := vsReports st @ brVersions br\<rparr>"
  obtain st2 where st2: "for_each restore_event (brEvents br) ?st1 = (Inr (), st2)" "vsReports st2 = vsReports st @ brVersions br"
      "vsConfigBundles st2 = vsConfigBundles st"
    using restore_events_add[of "brEvents br" ?st1] assms(4) by (auto simp: details_finite_def)
  have "vsReports (fold insertChatMessage ms st2) = vsReports st2" "vsConfigBundles (fold insertChatMessage ms st2) = vsConfigBundles st2"
    for ms by (rule fold_frame, simp add: insertChatMessage_def)+
  then show ?thesis
    using restore_versions_fresh[OF assms(1-3)] st2 by (simp add: restore_report_def andthen_def)
qed

lemma restore_reports_add:
  assumes "distinct (map report_key (concat (map brVersions brs)))"
    and "report_key ` set (concat (map brVersions brs)) \<inter> report_key ` set (vsReports st) = {}"
    and "\<forall>br \<in> set brs. details_finite br \<and> (\<forall>r \<in> set (brVersions br). fields_finite (Fields r))"
  shows "\<exists>st'. for_each restore_report brs st = (Inr (), st') \<and> vsReports st' = vsReports st @ concat (map brVersions brs) \<and>
    vsConfigBundles st' = vsConfigBundles st"
  using assms
proof (induction brs arbitrary: st)
  case (Cons br brs)
  obtain st1 where st1: "restore_report br st = (Inr (), st1)" "vsReports st1 = vsReports st @ brVersions br"
      "vsConfigBundles st1 = vsConfigBundles st"
    using restore_report_adds[of br st] Cons.prems by auto
  have "\<exists>st'. for_each restore_report brs st1 = (Inr (), st') \<and> vsReports st' = vsReports st1 @ concat (map brVersions brs) \<and>
      vsConfigBundles st' = vsConfigBundles st1"
  proof (rule Cons.IH)
    let ?K = "report_key ` set (concat (map brVersions brs))"
    have "?K \<inter> report_key ` set (brVersions br) = {}" using Cons.prems(1) by (simp add: Int_commute)
    moreover have "?K \<inter> report_key ` set (vsReports st) = {}" using Cons.prems(2) by (simp add: image_Un Int_Un_distrib2)
    ultimately show "?K \<inter> report_key ` set (vsReports st1) = {}" by (simp add: st1(2) image_Un Int_Un_distrib)
  qed (use Cons.prems in simp_all)
  then show ?case using st1 by (auto simp: andthen_def)
qed simp

lemma applyRestoreBundle_fresh:
  fixes b :: "'b restoreBundle"
  assumes "distinct (map report_key (concat (map brVersions (rbReports b))))"
    and "\<forall>br \<in> set (rbReports b). details_finite br \<and> (\<forall>r \<in> set (brVersions br). fields_finite (Fields r))"
  shows "\<exists>res st'. applyRestoreBundle b empty_vstore = (Inr res, st') \<and> vsReports st' = concat (map brVersions (rbReports b)) \<and>
    vsConfigBundles (st' :: 'b vstore) = (case rbConfigBundle b of None \<Rightarrow> [] | Some cb \<Rightarrow> [cb])"
proof -
  obtain st1 where "for_each restore_report (rbReports b) (empty_vstore :: 'b vstore) = (Inr (), st1)"
      "vsReports st1 = concat (map brVersions (rbReports b))" "vsConfigBundles st1 = []"
    using restore_reports_add[OF assms(1) _ assms(2), of empty_vstore] by (auto simp: empty_vstore_def)
  then show ?thesis
    by (auto simp: applyRestoreBundle_def andthen_def applyConfigBundle_def insert_absent_def split: option.split)
qed


section \<open>What the office sends\<close>

lemma row_versions:
  assumes "distinct (map lv_key (osVersions ost))"
  shows "distinct (map report_key (listReportVersions v i ost))"
    and "set (listReportVersions v i ost) = {r \<in> set (vessel_reports v ost). ReportID r = i}"
proof -
  have "distinct (map report_key (vessel_reports v ost))"
    using assms unfolding vessel_reports_def
    by (auto simp: distinct_map inj_on_def lv_key_def report_key_def intro!: distinct_filter)
  then have "distinct (map report_key (filter (\<lambda>r. ReportID r = i) (vessel_reports v ost)))" by (rule distinct_map_filter)
  then show "distinct (map report_key (listReportVersions v i ost))" unfolding listReportVersions_def by (simp add: distinct_map)
qed (auto simp: listReportVersions_def)


lemma latest_landed_reports:
  assumes "distinct (map lv_key rows)"
  shows "inj_on (\<lambda>l. ReportID (lvReport l)) {l \<in> set (latest_landed rows). lvVesselID l = v}"
    and "(\<lambda>l. ReportID (lvReport l)) ` {l \<in> set (latest_landed rows). lvVesselID l = v} =
      (\<lambda>l. ReportID (lvReport l)) ` {l \<in> set rows. lvVesselID l = v}"
proof -
  have same: "l = l'" if "l \<in> set rows" "l' \<in> set rows" "lv_key l = lv_key l'" for l l'
    using assms that by (auto simp: distinct_map inj_on_def)
  show "inj_on (\<lambda>l. ReportID (lvReport l)) {l \<in> set (latest_landed rows). lvVesselID l = v}"
  proof (rule inj_onI)
    fix l l' assume l: "l \<in> {l \<in> set (latest_landed rows). lvVesselID l = v}" "l' \<in> {l \<in> set (latest_landed rows). lvVesselID l = v}"
      "ReportID (lvReport l) = ReportID (lvReport l')"
    then have "VersionNo (lvReport l) = VersionNo (lvReport l')"
      by (force simp: latest_landed_def list_all_iff intro: antisym)
    then show "l = l'" using l by (intro same) (auto simp: latest_landed_def lv_key_def)
  qed
  have found: "\<exists>x \<in> set (latest_landed rows). lvVesselID x = v \<and> ReportID (lvReport x) = ReportID (lvReport l)"
    if l: "l \<in> set rows" "lvVesselID l = v" for l
  proof -
    let ?A = "{x \<in> set rows. lvVesselID x = v \<and> ReportID (lvReport x) = ReportID (lvReport l)}"
    have "finite ?A" "?A \<noteq> {}" using l by auto
    then obtain m where m: "m \<in> ?A" "\<forall>y \<in> ?A. VersionNo (lvReport y) \<le> VersionNo (lvReport m)"
      using obtains_MAX[of ?A "\<lambda>x. VersionNo (lvReport x)"] by (metis (no_types, lifting) Max_ge finite_imageI imageI)
    then have "m \<in> set (latest_landed rows)" by (auto simp: latest_landed_def list_all_iff)
    then show ?thesis using m(1) by auto
  qed
  show "(\<lambda>l. ReportID (lvReport l)) ` {l \<in> set (latest_landed rows). lvVesselID l = v} =
      (\<lambda>l. ReportID (lvReport l)) ` {l \<in> set rows. lvVesselID l = v}" (is "?L = ?R")
  proof
    show "?L \<subseteq> ?R" by (rule image_mono) (auto simp: latest_landed_def)
    show "?R \<subseteq> ?L"
    proof
      fix i assume "i \<in> ?R"
      then obtain l where l: "l \<in> set rows" "lvVesselID l = v" "i = ReportID (lvReport l)" by auto
      obtain x where "x \<in> set (latest_landed rows)" "lvVesselID x = v" "ReportID (lvReport x) = ReportID (lvReport l)"
        using found[OF l(1,2)] by blast
      then show "i \<in> ?L" using l(3) by (intro image_eqI[of _ _ x]) simp_all
    qed
  qed
qed

lemma listed_row:
  assumes "find_row vrID (osVessels st) v = Some vr"
  shows "map_option (\<lambda>row. ReportID (rlReport row))
      (Option.bind (list_row st l) (\<lambda>(u, row). if passes pg (no_filter\<lparr>rfVesselID := Some v\<rparr>) u row then Some row else None)) =
    (if lvVesselID l = v then Some (ReportID (lvReport l)) else None)"
  using assms
  by (cases "find_row vrID (osVessels st) (lvVesselID l)") (auto simp: list_row_def passes_def no_filter_def if_set_def Let_def)

lemma listed_rows:
  assumes "find_row vrID (osVessels st) v = Some vr"
  shows "map (\<lambda>row. ReportID (rlReport row))
      (List.map_filter (\<lambda>l. Option.bind (list_row st l) (\<lambda>(u, row). if passes pg (no_filter\<lparr>rfVesselID := Some v\<rparr>) u row then Some row else None)) ls) =
    map (\<lambda>l. ReportID (lvReport l)) (filter (\<lambda>l. lvVesselID l = v) ls)"
proof (induction ls)
  case (Cons l ls)
  then show ?case using listed_row[OF assms, where pg = pg and l = l] by (auto simp: map_filter_simps split: option.split if_splits)
qed (simp add: map_filter_simps)

lemma listReports_vessel:
  assumes "listReports ord pg (no_filter\<lparr>rfVesselID := Some v\<rparr>) st = Inr rows" and "\<And>xs. mset (ord xs) = mset xs"
    and "getVessel v st = Inr vr" and "distinct (map lv_key (osVersions st))"
  shows "distinct (map (\<lambda>row. ReportID (rlReport row)) rows)"
    and "(\<lambda>row. ReportID (rlReport row)) ` set rows = ReportID ` set (vessel_reports v st)"
proof -
  let ?ids = "map (\<lambda>row. ReportID (rlReport row))" and ?ls = "ord (latest_landed (osVersions st))"
  have vessel: "find_row vrID (osVessels st) v = Some vr" using assms(3) by (auto simp: getVessel_def split: option.splits)
  have "mset (?ids rows) = mset (map (\<lambda>l. ReportID (lvReport l)) (filter (\<lambda>l. lvVesselID l = v) ?ls))"
    using assms(1) unfolding listed_rows[OF vessel, of pg ?ls, symmetric]
    by (auto simp: listReports_def no_filter_def Let_def split: if_splits)
  also have "\<dots> = mset (map (\<lambda>l. ReportID (lvReport l)) (filter (\<lambda>l. lvVesselID l = v) (latest_landed (osVersions st))))"
    by (simp add: assms(2))
  finally have perm: "mset (?ids rows) = mset (map (\<lambda>l. ReportID (lvReport l)) (filter (\<lambda>l. lvVesselID l = v) (latest_landed (osVersions st))))" .
  have "distinct (latest_landed (osVersions st))"
    using assms(4) by (auto simp: latest_landed_def distinct_map)
  then have "distinct (map (\<lambda>l. ReportID (lvReport l)) (filter (\<lambda>l. lvVesselID l = v) (latest_landed (osVersions st))))"
    using latest_landed_reports(1)[OF assms(4), of v] by (simp add: distinct_map)
  then show "distinct (?ids rows)" using perm by (metis mset_eq_imp_distinct_iff)
  have "set (?ids rows) = (\<lambda>l. ReportID (lvReport l)) ` {l \<in> set (latest_landed (osVersions st)). lvVesselID l = v}"
    using arg_cong[OF perm, of set_mset] by (auto simp: image_iff)
  then show "(\<lambda>row. ReportID (rlReport row)) ` set rows = ReportID ` set (vessel_reports v st)"
    unfolding latest_landed_reports(2)[OF assms(4)] by (auto simp: vessel_reports_def image_iff)
qed


text \<open>The versions of all reports in a bundle are the landed rows of the vessel, each once.\<close>

lemma concat_by_report:
  assumes "distinct is" and "\<And>i. i \<in> set is \<Longrightarrow> distinct (map report_key (f i)) \<and> (\<forall>r \<in> set (f i). ReportID r = i)"
  shows "distinct (map report_key (concat (map f is)))"
  using assms
proof (induction "is")
  case (Cons i js)
  have "report_key ` set (f i) \<inter> report_key ` set (concat (map f js)) = {}"
  proof (rule equals0I)
    fix k assume "k \<in> report_key ` set (f i) \<inter> report_key ` set (concat (map f js))"
    then obtain r r' j where "r \<in> set (f i)" "j \<in> set js" "r' \<in> set (f j)" "report_key r = report_key r'" by auto
    moreover from this have "ReportID r = i" "ReportID r' = j" using Cons.prems(2)[of i] Cons.prems(2)[of j] by auto
    ultimately show False using Cons.prems(1) by (auto simp: report_key_def)
  qed
  then show ?case using Cons by auto
qed simp

lemma bundled_versions:
  assumes "buildBundle ordV ordA p pg now v name imo ost = Inr b" and "\<And>xs. mset (ordV xs) = mset xs"
    and "getVessel v ost = Inr vr" and "distinct (map lv_key (osVersions ost))"
  shows "distinct (map report_key (concat (map brVersions (rbReports b))))"
    and "set (concat (map brVersions (rbReports b))) = set (vessel_reports v ost)"
proof -
  obtain rows where rows: "listReports ordV pg (no_filter\<lparr>rfVesselID := Some v\<rparr>) ost = Inr rows"
      "rbReports b = map (bundle_report p v ost) rows"
    using assms(1) by (auto simp: buildBundle_def split: sum.splits)
  note listed = listReports_vessel[OF rows(1) assms(2,3,4)]
  let ?is = "map (\<lambda>row. ReportID (rlReport row)) rows"
  have all: "map brVersions (rbReports b) = map (\<lambda>i. listReportVersions v i ost) ?is"
    by (simp add: rows(2) bundle_report_def Let_def)
  show "distinct (map report_key (concat (map brVersions (rbReports b))))"
    unfolding all by (rule concat_by_report[OF listed(1)]) (use row_versions[OF assms(4)] in auto)
  show "set (concat (map brVersions (rbReports b))) = set (vessel_reports v ost)"
    unfolding all using listed(2) by (auto simp: row_versions(2)[OF assms(4)])
qed


text \<open>A strictly sorted list in which every number but the first has its predecessor.\<close>

lemma contiguous:
  "sorted_wrt (<) ws \<Longrightarrow> \<forall>n \<in> set ws. n = m \<or> m < n \<and> n - 1 \<in> set ws \<Longrightarrow> ws = map (\<lambda>k. int k + m) [0..<length ws]"
proof (induction ws arbitrary: m)
  case (Cons w ws)
  have w: "w = m"
  proof (rule ccontr)
    assume "w \<noteq> m"
    then have "w - 1 \<in> set (w # ws)" using Cons.prems(2) by auto
    then show False using Cons.prems(1) by auto
  qed
  have "\<forall>n \<in> set ws. n = m + 1 \<or> m + 1 < n \<and> n - 1 \<in> set ws"
  proof
    fix n assume n: "n \<in> set ws"
    then have "m < n" using Cons.prems(1) w by simp
    moreover from this have "n - 1 \<in> set (w # ws)" using Cons.prems(2) n by auto
    moreover have "m < k" if "k \<in> set ws" for k using Cons.prems(1) w that by simp
    ultimately show "n = m + 1 \<or> m + 1 < n \<and> n - 1 \<in> set ws" using w by fastforce
  qed
  then have "ws = map (\<lambda>k. int k + (m + 1)) [0..<length ws]" using Cons.prems(1) by (intro Cons.IH) auto
  moreover have "map (\<lambda>k. int k + m) [0..<length (w # ws)] = w # map (\<lambda>k. int k + (m + 1)) [0..<length ws]"
    using w by (simp add: map_upt_Suc ac_simps del: upt_Suc)
  ultimately show ?case by simp
qed simp

lemma committed_predecessor:
  assumes "report_ok st" and "r \<in> set (committed st)"
  shows "VersionNo r = 1 \<or> 1 < VersionNo r \<and> (\<exists>x \<in> set (committed st). ReportID x = ReportID r \<and> VersionNo x = VersionNo r - 1)"
proof -
  have r: "r \<in> set (vsReports st)" using assms(2) by (simp add: committed_def)
  have wf: "distinct (map report_key (vsReports st))" "versions_ok st" using assms(1) by (auto simp: report_ok_def store_wf_def)
  have "look_report st (report_key r) = Some r" unfolding look_report_def by (rule find_row_unique[OF wf(1) r])
  then have "version_allowed st (ReportID r) (VersionNo r)" using wf(2) unfolding versions_ok_def by blast
  then show ?thesis
    by (auto simp: version_allowed_def committed_at_def look_report_def committed_def report_key_def dest!: find_row_SomeD)
qed

lemma mirrored_keys:
  assumes "mirrors v st ost"
  shows "(\<lambda>r. (ReportID r, VersionNo r)) ` set (vessel_reports v ost) = (\<lambda>r. (ReportID r, VersionNo r)) ` set (committed st)"
  using arg_cong[OF mirrors_cores[OF assms], of "\<lambda>C. (\<lambda>c. (vReportID c, vVersionNo c)) ` C"] by (simp add: image_image)

lemma bundle_restorable:
  assumes "buildBundle ordV ordA p pg now v name imo ost = Inr b" and "mirrors v st ost" and "report_ok st"
  shows "restorable b"
  unfolding restorable_def
proof
  fix br assume "br \<in> set (rbReports b)"
  then obtain i where br: "brReportID br = i" "brVersions br = listReportVersions v i ost"
    using assms(1) by (auto simp: buildBundle_def bundle_report_def Let_def split: sum.splits)
  have keys: "distinct (map lv_key (osVersions ost))" using assms(2) by (simp add: mirrors_def accurate_def)
  note L = row_versions[OF keys, of v i]
  have ids: "ReportID r = i \<and> inChain (State r)" if "r \<in> set (listReportVersions v i ost)" for r
    using that assms(2) L(2) by (auto simp: mirrors_def accurate_def vessel_reports_def)
  let ?ws = "map VersionNo (listReportVersions v i ost)"
  have "distinct ?ws"
    using L(1) ids by (auto simp: distinct_map inj_on_def report_key_def)
  moreover have "sorted ?ws" by (simp add: listReportVersions_def)
  ultimately have "sorted_wrt (<) ?ws" by (simp add: strict_sorted_iff)
  moreover have "\<forall>n \<in> set ?ws. n = 1 \<or> 1 < n \<and> n - 1 \<in> set ?ws"
  proof
    fix n assume "n \<in> set ?ws"
    then have "(i, n) \<in> (\<lambda>r. (ReportID r, VersionNo r)) ` set (vessel_reports v ost)" by (auto simp: L(2))
    then obtain r where r: "r \<in> set (committed st)" "ReportID r = i" "VersionNo r = n" unfolding mirrored_keys[OF assms(2)] by auto
    have "(i, n - 1) \<in> (\<lambda>r. (ReportID r, VersionNo r)) ` set (committed st) \<Longrightarrow> n - 1 \<in> set ?ws"
      unfolding mirrored_keys[OF assms(2), symmetric] by (auto simp: L(2))
    moreover have "(i, n - 1) \<in> (\<lambda>r. (ReportID r, VersionNo r)) ` set (committed st)"
      if "x \<in> set (committed st)" "ReportID x = i" "VersionNo x = n - 1" for x
      using that by (intro image_eqI[of _ _ x]) simp_all
    ultimately show "n = 1 \<or> 1 < n \<and> n - 1 \<in> set ?ws" using committed_predecessor[OF assms(3) r(1)] r(2,3) by blast
  qed
  ultimately have "?ws = map (\<lambda>k. int k + 1) [0..<length ?ws]" by (rule contiguous)
  then show "complete_history br" using ids by (simp add: complete_history_def br)
qed

text \<open>What the office built brings everything back.\<close>

lemma same_core_finite: "core r = core r' \<Longrightarrow> fields_finite (Fields r) = fields_finite (Fields r')"
  by (auto simp: core_def normal_def toValidation_def fields_finite_def split: option.splits)

lemma recovery:
  assumes "buildBundle ordV ordA p pg now v name imo ost = Inr b" and "mirrors v st ost" and "report_ok st"
    and "\<And>xs. mset (ordV xs) = mset xs" and "slice_sort p" and "getVessel v ost = Inr vr"
    and "\<forall>a \<in> set (osEvents ost). json_finite_obj (case evDetail (arEvent a) of None \<Rightarrow> [] | Some d \<Rightarrow> d)"
  shows "\<exists>res st'. applyRestoreBundle b empty_vstore = (Inr res, st') \<and> report_ok st' \<and> committed st' = vsReports st' \<and>
    core ` set (committed st') = core ` set (committed st) \<and> mirrors v st' ost \<and>
    vsConfigBundles st' = (case rbConfigBundle b of None \<Rightarrow> [] | Some cb \<Rightarrow> [cb])"
proof -
  have keys: "distinct (map lv_key (osVersions ost))" using assms(2) by (simp add: mirrors_def accurate_def)
  note bundled = bundled_versions[OF assms(1,4,6) keys]
  have landed: "inChain (State r) \<and> fields_finite (Fields r)" if r: "r \<in> set (vessel_reports v ost)" for r
  proof -
    obtain l where "l \<in> set (osVersions ost)" "lvVesselID l = v" "r = lvReport l"
      using r by (auto simp: vessel_reports_def)
    then have "inChain (State r)" "core r \<in> core ` set (committed st)" using assms(2) by (auto simp: mirrors_def accurate_def)
    then obtain x where "x \<in> set (committed st)" "core r = core x" "inChain (State r)" by blast
    moreover have "fields_finite (Fields x)" if "x \<in> set (committed st)" for x
      using assms(3) that by (auto simp: report_ok_def rows_finite_def committed_def)
    ultimately show ?thesis using same_core_finite by blast
  qed
  have versions: "fields_finite (Fields r)" if "br \<in> set (rbReports b)" "r \<in> set (brVersions br)" for br r
    using landed bundled(2) that by auto
  have details: "details_finite br" if "br \<in> set (rbReports b)" for br
    using that assms(1,7)
    by (auto simp: buildBundle_def bundle_report_def details_finite_def listReportAuditEvents_def
        slice_sort.set_sort_slice[OF assms(5)] Let_def split: sum.splits)
  obtain res st' where st': "applyRestoreBundle b empty_vstore = (Inr res, st')"
      "vsReports st' = concat (map brVersions (rbReports b))"
      "vsConfigBundles st' = (case rbConfigBundle b of None \<Rightarrow> [] | Some cb \<Rightarrow> [cb])"
    using applyRestoreBundle_fresh[OF bundled(1)] versions details by blast
  have rows: "set (vsReports st') = set (vessel_reports v ost)" using bundled(2) st'(2) by simp
  have "vstep empty_vstore st'" using applyRestoreBundle_vstep[OF bundle_restorable[OF assms(1-3)], of empty_vstore] st'(1) by simp
  moreover have "vsReports (empty_vstore :: store) = []" by (simp add: empty_vstore_def)
  then have "report_ok (empty_vstore :: store)"
    by (simp add: report_ok_def store_wf_empty versions_ok_def rows_finite_def look_report_def find_row_def)
  ultimately have ok: "report_ok st'" by (simp add: vstep_def)
  have committed: "committed st' = vsReports st'" using landed rows by (simp add: committed_def filter_id_conv)
  have "core ` set (committed st') = core ` set (committed st)" unfolding committed rows by (rule mirrors_cores[OF assms(2)])
  moreover from this have "mirrors v st' ost"
    using assms(2) committed rows by (auto simp: mirrors_def accurate_def has_version_def vessel_reports_def image_iff)
  ultimately show ?thesis using st' ok committed by blast
qed

end
