(* ===== verification/OfficeSettings.thy ===== *)
theory OfficeSettings
  imports OfficeFleet OfficeAgreement
begin

text \<open>
  The configuration screens of \<open>office/httpapi\<close>: profiles, cadence and severities by scope (\<open>compliance.go\<close>), the composition,
  publication and assignment of configuration bundles (\<open>configbundle.go\<close>).  Maps of a request body are lists of their entries, in
  the order Go ranges over them.

  Lemmas: who writes is a Config Manager, and writes one row the constructors accept; what a publication stores; a published and
  assigned bundle reaches the vessel with the rows that were live.
\<close>

section \<open>Requests and replies\<close>

datatype settings_error =
    SettingsScope compliance_error
  | SettingsConfig config_error
  | SettingsStore ostore_error
  | SettingsBundle bundle_error

type_synonym 'a settings_step = "(settings_error failure + 'a) \<times> officeServer"
type_synonym 'a settings_handled = "(settings_error, 'a, officeServer) handled"

text \<open>A value with an error ends the handler with a status, or goes on.\<close>

definition check_value :: "int \<Rightarrow> ('x \<Rightarrow> 'e) \<Rightarrow> 'x + 'v \<Rightarrow> officeServer
    \<Rightarrow> ('v \<Rightarrow> ('e failure + 'a) \<times> officeServer) \<Rightarrow> ('e failure + 'a) \<times> officeServer" where
  "check_value status err res s k = (case res of Inl e \<Rightarrow> writeErrorText status (err e) s | Inr v \<Rightarrow> k v)"

text \<open>A write to the store.\<close>

definition put_value :: "('x \<Rightarrow> 'e) \<Rightarrow> 'x + ostore \<Rightarrow> officeServer
    \<Rightarrow> (officeServer \<Rightarrow> ('e failure + 'a) \<times> officeServer) \<Rightarrow> ('e failure + 'a) \<times> officeServer" where
  "put_value err res s k = check_value StatusInternalServerError err res s (\<lambda>st. k (s\<lparr>ofStore := st\<rparr>))"

definition requireConfigManager :: "officeReq \<Rightarrow> officeServer \<Rightarrow> ('e failure + officeUser) \<times> officeServer" where
  "requireConfigManager q s =
     andthen (oauthenticatedUser q s) (\<lambda>user s.
     guard (\<not> canManageConfig user) StatusForbidden ''only Config Manager may author schema versions and field policy'' s (\<lambda>s.
       (Inr user, s)))"

definition to_scope_type :: "string \<Rightarrow> scopeType" where
  "to_scope_type t =
     (if t = ''fleet'' then ScopeFleet else if t = ''group'' then ScopeGroup else if t = ''vessel'' then ScopeVessel
      else ScopeTypeOther t)"

record scopeView =
  swType :: string
  swKey :: string

definition scope_type_text :: "scopeType \<Rightarrow> string" where
  "scope_type_text t = (case t of ScopeFleet \<Rightarrow> ''fleet'' | ScopeGroup \<Rightarrow> ''group'' | ScopeVessel \<Rightarrow> ''vessel'' | ScopeTypeOther s \<Rightarrow> s)"

definition toScopeView :: "scope \<Rightarrow> scopeView" where
  "toScopeView s = \<lparr>swType = scope_type_text (scType s), swKey = scKey s\<rparr>"

definition toScope :: "scopeView \<Rightarrow> compliance_error + scope" where
  "toScope v =
     (case to_scope_type (swType v) of
        ScopeFleet \<Rightarrow> Inr fleetScope
      | ScopeGroup \<Rightarrow> groupScope (swKey v)
      | ScopeVessel \<Rightarrow> vesselScope (swKey v)
      | t \<Rightarrow> Inr \<lparr>scType = t, scKey = swKey v\<rparr>)"

section \<open>Regulatory profiles\<close>

record profileAssignmentView =
  pavScope :: scopeView
  pavProfiles :: "string list"
  pavUpdatedAt :: gotime

definition toProfileAssignmentView :: "profileAssignment \<Rightarrow> profileAssignmentView" where
  "toProfileAssignmentView a =
     \<lparr>pavScope = toScopeView (paScope a), pavProfiles = map profile_text (paProfiles a), pavUpdatedAt = paUpdatedAt a\<rparr>"

definition handleListProfileAssignments :: "officeReq \<Rightarrow> officeServer \<Rightarrow> profileAssignmentView list settings_handled" where
  "handleListProfileAssignments q s =
     andthen (oauthenticatedUser q s) (\<lambda>_ s.
     check_value StatusInternalServerError SettingsScope (listProfileAssignments (ordProfiles (oqOrders q)) (ofStore s)) s (\<lambda>list.
       writeJSON StatusOK (map toProfileAssignmentView list) s))"

record saveProfileAssignmentRequest =
  sprScope :: scopeView
  sprProfiles :: "string list"

definition handleSaveProfileAssignment ::
  "officeReq \<Rightarrow> saveProfileAssignmentRequest option \<Rightarrow> officeServer \<Rightarrow> profileAssignmentView settings_handled" where
  "handleSaveProfileAssignment q body s =
     andthen (requireConfigManager q s) (\<lambda>_ s.
     decode body s (\<lambda>r.
     check_value StatusBadRequest SettingsScope (toScope (sprScope r)) s (\<lambda>sc.
     check_value StatusBadRequest SettingsScope (newProfileAssignment (oqNow q) sc (map to_profile (sprProfiles r))) s (\<lambda>a.
     put_value SettingsConfig (saveProfileAssignment (oqPg q) a (ofStore s)) s (\<lambda>s.
       writeJSON StatusOK (toProfileAssignmentView a) s)))))"

section \<open>Cadence\<close>

record cadenceRuleView =
  cavScope :: scopeView
  cavMinReportIntervalHours :: float64
  cavMaxGapHours :: float64
  cavUpdatedAt :: gotime

definition toCadenceRuleView :: "cadenceRule \<Rightarrow> cadenceRuleView" where
  "toCadenceRuleView r =
     \<lparr>cavScope = toScopeView (crScope r), cavMinReportIntervalHours = crMinReportIntervalHours r,
      cavMaxGapHours = crMaxGapHours r, cavUpdatedAt = crUpdatedAt r\<rparr>"

definition handleListCadenceRules :: "officeReq \<Rightarrow> officeServer \<Rightarrow> cadenceRuleView list settings_handled" where
  "handleListCadenceRules q s =
     andthen (oauthenticatedUser q s) (\<lambda>_ s.
     check_value StatusInternalServerError SettingsScope (listCadenceRules (ordCadence (oqOrders q)) (ofStore s)) s (\<lambda>list.
       writeJSON StatusOK (map toCadenceRuleView list) s))"

record saveCadenceRuleRequest =
  scrScope :: scopeView
  scrMinReportIntervalHours :: float64
  scrMaxGapHours :: float64

definition handleSaveCadenceRule ::
  "officeReq \<Rightarrow> saveCadenceRuleRequest option \<Rightarrow> officeServer \<Rightarrow> cadenceRuleView settings_handled" where
  "handleSaveCadenceRule q body s =
     andthen (requireConfigManager q s) (\<lambda>_ s.
     decode body s (\<lambda>r.
     check_value StatusBadRequest SettingsScope (toScope (scrScope r)) s (\<lambda>sc.
     check_value StatusBadRequest SettingsScope
       (newCadenceRule (oqNow q) sc (scrMinReportIntervalHours r) (scrMaxGapHours r)) s (\<lambda>rule.
     put_value SettingsConfig (saveCadenceRule (oqPg q) rule (ofStore s)) s (\<lambda>s.
       writeJSON StatusOK (toCadenceRuleView rule) s)))))"

section \<open>Severities\<close>

record ruleCatalog =
  rcatOverridable :: "string list"
  rcatHard :: "string list"

definition handleListOverridableRules :: "officeReq \<Rightarrow> officeServer \<Rightarrow> ruleCatalog settings_handled" where
  "handleListOverridableRules q s =
     andthen (oauthenticatedUser q s) (\<lambda>_ s.
       writeJSON StatusOK \<lparr>rcatOverridable = overridableRuleIDs, rcatHard = hardRuleIDs\<rparr> s)"

record ruleSeverityAssignmentView =
  savScope :: scopeView
  savSeverities :: "(string, string) gomap"
  savUpdatedAt :: gotime

definition toRuleSeverityAssignmentView :: "ruleSeverityAssignment \<Rightarrow> ruleSeverityAssignmentView" where
  "toRuleSeverityAssignmentView a =
     \<lparr>savScope = toScopeView (rsScope a), savSeverities = gm_map severity_text (rsSeverities a), savUpdatedAt = rsUpdatedAt a\<rparr>"

definition handleListRuleSeverityAssignments :: "officeReq \<Rightarrow> officeServer \<Rightarrow> ruleSeverityAssignmentView list settings_handled" where
  "handleListRuleSeverityAssignments q s =
     andthen (oauthenticatedUser q s) (\<lambda>_ s.
     check_value StatusInternalServerError SettingsScope
       (listRuleSeverityAssignments (ordSeverities (oqOrders q)) (ofStore s)) s (\<lambda>list.
       writeJSON StatusOK (map toRuleSeverityAssignmentView list) s))"

record saveRuleSeverityAssignmentRequest =
  ssrScope :: scopeView
  ssrSeverities :: "(string, string) gomap"

text \<open>A loop over the entries of a map that stops at the first refusal.\<close>

fun each_entry :: "('x \<Rightarrow> 'p \<Rightarrow> 'e + 'p) \<Rightarrow> 'x list \<Rightarrow> 'p \<Rightarrow> 'e + 'p" where
  "each_entry f [] p = Inr p"
| "each_entry f (x # xs) p = (case f x p of Inl e \<Rightarrow> Inl e | Inr p \<Rightarrow> each_entry f xs p)"

definition set_severities ::
  "gotime \<Rightarrow> (string, string) gomap \<Rightarrow> ruleSeverityAssignment \<Rightarrow> compliance_error + ruleSeverityAssignment" where
  "set_severities now = each_entry (\<lambda>(ruleID, sev). setSeverity now ruleID (to_severity sev))"

definition handleSaveRuleSeverityAssignment ::
  "officeReq \<Rightarrow> saveRuleSeverityAssignmentRequest option \<Rightarrow> officeServer \<Rightarrow> ruleSeverityAssignmentView settings_handled" where
  "handleSaveRuleSeverityAssignment q body s =
     andthen (requireConfigManager q s) (\<lambda>_ s.
     decode body s (\<lambda>r.
     check_value StatusBadRequest SettingsScope (toScope (ssrScope r)) s (\<lambda>sc.
     check_value StatusBadRequest SettingsScope (newRuleSeverityAssignment sc) s (\<lambda>a.
     check_value StatusBadRequest SettingsScope (set_severities (oqNow q) (ssrSeverities r) a) s (\<lambda>a.
     put_value SettingsConfig (saveRuleSeverityAssignment (oqPg q) a (ofStore s)) s (\<lambda>s.
       writeJSON StatusOK (toRuleSeverityAssignmentView a) s))))))"

section \<open>Bundles\<close>

text \<open>The latest version of each schema with its field policies, in the order of the names.\<close>

fun compose_schemas ::
  "officeReq \<Rightarrow> ostore \<Rightarrow> string list \<Rightarrow> settings_error + schemaVersionRef list \<times> schemaFieldPolicy list" where
  "compose_schemas q st [] = Inr ([], [])"
| "compose_schemas q st (name # names) =
     (case latestSchemaVersion (oqSorter q) name st of
        Inl e \<Rightarrow> Inl (SettingsStore e)
      | Inr latest \<Rightarrow>
     (case listFieldPolicyAssignments (ordPolicies (oqOrders q)) name (svVersion latest) st of
        Inl e \<Rightarrow> Inl (SettingsScope e)
      | Inr assignments \<Rightarrow>
     (case compose_schemas q st names of
        Inl e \<Rightarrow> Inl e
      | Inr (versions, policies) \<Rightarrow>
          Inr (\<lparr>svrSchemaName = svSchemaName latest, svrVersion = svVersion latest, svrID = svID latest\<rparr> # versions,
               assignments @ policies))))"

definition composeCurrentBundle :: "officeReq \<Rightarrow> ostore \<Rightarrow> settings_error + configBundle" where
  "composeCurrentBundle q st =
     (case compose_schemas q st (listSchemaNames st) of
        Inl e \<Rightarrow> Inl e
      | Inr (schemaVersions, fieldPolicies) \<Rightarrow>
     (case listProfileAssignments (ordProfiles (oqOrders q)) st of
        Inl e \<Rightarrow> Inl (SettingsScope e)
      | Inr profiles \<Rightarrow>
     (case listCadenceRules (ordCadence (oqOrders q)) st of
        Inl e \<Rightarrow> Inl (SettingsScope e)
      | Inr cadence \<Rightarrow>
     (case listRuleSeverityAssignments (ordSeverities (oqOrders q)) st of
        Inl e \<Rightarrow> Inl (SettingsScope e)
      | Inr severities \<Rightarrow> Inr (compose schemaVersions fieldPolicies profiles cadence severities [])))))"

record configBundleSummaryView =
  bsvID :: string
  bsvLabel :: string
  bsvSchemaVersionCount :: nat
  bsvFieldPolicyRows :: nat
  bsvRegulatoryProfileRows :: nat
  bsvCadenceRuleRows :: nat
  bsvRuleSeverityRows :: nat
  bsvPublishedAt :: gotime
  bsvPublishedBy :: string

definition toConfigBundleSummaryView :: "configBundle \<Rightarrow> configBundleSummaryView" where
  "toConfigBundleSummaryView b =
     \<lparr>bsvID = cbID b, bsvLabel = cbLabel b, bsvSchemaVersionCount = length (cbSchemaVersions b),
      bsvFieldPolicyRows = length (cbFieldPolicies b), bsvRegulatoryProfileRows = length (cbRegulatoryProfiles b),
      bsvCadenceRuleRows = length (cbCadenceRules b), bsvRuleSeverityRows = length (cbRuleSeverities b),
      bsvPublishedAt = cbPublishedAt b, bsvPublishedBy = cbPublishedBy b\<rparr>"

definition handleListConfigBundles :: "officeReq \<Rightarrow> officeServer \<Rightarrow> configBundleSummaryView list settings_handled" where
  "handleListConfigBundles q s =
     andthen (oauthenticatedUser q s) (\<lambda>_ s.
       writeJSON StatusOK (map toConfigBundleSummaryView (listConfigBundles (oqSorter q) (ofStore s))) s)"

definition handlePreviewConfigBundle :: "officeReq \<Rightarrow> officeServer \<Rightarrow> configBundleSummaryView settings_handled" where
  "handlePreviewConfigBundle q s =
     andthen (oauthenticatedUser q s) (\<lambda>_ s.
     check_value StatusInternalServerError id (composeCurrentBundle q (ofStore s)) s (\<lambda>composed.
       writeJSON StatusOK (toConfigBundleSummaryView composed) s))"

text \<open>The body is the label.\<close>

definition handlePublishConfigBundle :: "officeReq \<Rightarrow> string option \<Rightarrow> officeServer \<Rightarrow> configBundleSummaryView settings_handled" where
  "handlePublishConfigBundle q body s =
     andthen (oauthenticatedUser q s) (\<lambda>user s.
     guard (\<not> canManageConfig user) StatusForbidden ''only Config Manager may publish config bundles'' s (\<lambda>s.
     decode body s (\<lambda>label.
     check_value StatusInternalServerError id (composeCurrentBundle q (ofStore s)) s (\<lambda>composed.
     check_value StatusBadRequest SettingsBundle (publish (oqUUID q 0) (oqNow q) (Some composed) label (ouID user)) s (\<lambda>b.
     put_value SettingsConfig (createConfigBundle (oqPg q) b (ofStore s)) s (\<lambda>s.
       writeJSON StatusCreated (toConfigBundleSummaryView b) s))))))"

section \<open>Assignments of bundles\<close>

text \<open>A bundle that cannot be read leaves its label and time out of the view.\<close>

definition assignment_view :: "configBundle option \<Rightarrow> bundleAssignment \<Rightarrow> bundleAssignmentView" where
  "assignment_view b a =
     \<lparr>bvBundleID = baBundleID a, bvBundleLabel = (case b of None \<Rightarrow> '''' | Some b \<Rightarrow> cbLabel b),
      bvPublishedAt = (case b of None \<Rightarrow> zero_time | Some b \<Rightarrow> cbPublishedAt b), bvScope = baScope a\<rparr>"

definition handleListBundleAssignments :: "officeReq \<Rightarrow> officeServer \<Rightarrow> bundleAssignmentView list settings_handled" where
  "handleListBundleAssignments q s =
     andthen (oauthenticatedUser q s) (\<lambda>_ s.
     check_value StatusInternalServerError SettingsScope (listBundleAssignments (ordAssignments (oqOrders q)) (ofStore s)) s (\<lambda>list.
       writeJSON StatusOK
         (map (\<lambda>a. assignment_view (case getConfigBundle (baBundleID a) (ofStore s) of Inl _ \<Rightarrow> None | Inr b \<Rightarrow> Some b) a) list) s))"

record saveBundleAssignmentRequest =
  sbrScope :: scopeView
  sbrBundleID :: string

definition handleSaveBundleAssignment ::
  "officeReq \<Rightarrow> saveBundleAssignmentRequest option \<Rightarrow> officeServer \<Rightarrow> bundleAssignmentView settings_handled" where
  "handleSaveBundleAssignment q body s =
     andthen (requireConfigManager q s) (\<lambda>_ s.
     decode body s (\<lambda>r.
     check_value StatusBadRequest SettingsScope (toScope (sbrScope r)) s (\<lambda>sc.
       case getConfigBundle (sbrBundleID r) (ofStore s) of
         Inl e \<Rightarrow>
           if e = ErrConfigNotFound then writeError StatusNotFound ''bundle not found'' s
           else writeErrorText StatusInternalServerError (SettingsConfig e) s
       | Inr b \<Rightarrow>
           check_value StatusBadRequest SettingsBundle (newBundleAssignment (oqNow q) sc (sbrBundleID r)) s (\<lambda>a.
           put_value SettingsConfig (saveBundleAssignment (oqPg q) a (ofStore s)) s (\<lambda>s.
             writeJSON StatusOK (assignment_view (Some b) a) s)))))"

section \<open>The requests\<close>

definition by_config :: "officeReq \<Rightarrow> officeServer \<Rightarrow> bool" where
  "by_config q s \<longleftrightarrow> (\<exists>u. osigned_in q s u \<and> canManageConfig u)"

text \<open>JSON has no NaN and no infinities.\<close>

definition cadence_body :: "saveCadenceRuleRequest option \<Rightarrow> bool" where
  "cadence_body body \<longleftrightarrow> (\<forall>r. body = Some r \<longrightarrow> is_finite (scrMinReportIntervalHours r) \<and> is_finite (scrMaxGapHours r))"

inductive settings_request :: "officeReq \<Rightarrow> officeServer \<Rightarrow> officeServer \<Rightarrow> bool" for q s where
  profile_list: "settings_request q s (snd (handleListProfileAssignments q s))"
| profile_save: "settings_request q s (snd (handleSaveProfileAssignment q prbody s))"
| cadence_list: "settings_request q s (snd (handleListCadenceRules q s))"
| cadence_save: "cadence_body cdbody \<Longrightarrow> settings_request q s (snd (handleSaveCadenceRule q cdbody s))"
| rule_list: "settings_request q s (snd (handleListOverridableRules q s))"
| severity_list: "settings_request q s (snd (handleListRuleSeverityAssignments q s))"
| severity_save: "settings_request q s (snd (handleSaveRuleSeverityAssignment q svbody s))"
| published_list: "settings_request q s (snd (handleListConfigBundles q s))"
| bundle_preview: "settings_request q s (snd (handlePreviewConfigBundle q s))"
| bundle_publish: "settings_request q s (snd (handlePublishConfigBundle q label s))"
| assignment_list: "settings_request q s (snd (handleListBundleAssignments q s))"
| assignment_save: "settings_request q s (snd (handleSaveBundleAssignment q bdbody s))"

lemma fleet_check:
  "(\<And>v. res = Inr v \<Longrightarrow> fleet_effect pb pg a s (snd (k v))) \<Longrightarrow> fleet_effect pb pg a s (snd (check_value c err res s k))"
  by (auto simp: check_value_def split: sum.split)

lemma fleet_put_value:
  "(\<And>st. res = Inr st \<Longrightarrow> office_step pb pg (ofStore s) st) \<Longrightarrow>
   (\<And>st. res = Inr st \<Longrightarrow> fleet_effect pb pg True (s\<lparr>ofStore := st\<rparr>) (snd (k (s\<lparr>ofStore := st\<rparr>)))) \<Longrightarrow>
   fleet_effect pb pg True s (snd (put_value err res s k))"
  by (auto simp: put_value_def check_value_def intro: fleet_write split: sum.split)

lemma fleet_config:
  assumes "\<And>u. osigned_in q s u \<Longrightarrow> canManageConfig u \<Longrightarrow> fleet_effect pb pg True s (snd (k u s))"
  shows "fleet_effect pb pg (by_config q s) s
    (snd (andthen (oauthenticatedUser q s) (\<lambda>u s. guard (\<not> canManageConfig u) c m s (k u)) :: ('e failure + 'a) \<times> officeServer))"
proof (rule fleet_signed_in)
  fix u assume u: "osigned_in q s u"
  show "fleet_effect pb pg (by_config q s) s (snd (guard (\<not> canManageConfig u) c m s (k u)))"
  proof (cases "canManageConfig u")
    case True
    then have "by_config q s" using u by (auto simp: by_config_def)
    then show ?thesis using assms[OF u True] True by simp
  qed simp
qed

lemma andthen_requireConfigManager:
  "andthen (requireConfigManager q s) k = andthen (oauthenticatedUser q s) (\<lambda>u s. guard (\<not> canManageConfig u) StatusForbidden
     ''only Config Manager may author schema versions and field policy'' s (k u))"
  by (auto simp: requireConfigManager_def andthen_def guard_def writeError_def split: prod.splits sum.splits)

lemma fleet_manager:
  assumes "\<And>u. osigned_in q s u \<Longrightarrow> canManageConfig u \<Longrightarrow> fleet_effect pb pg True s (snd (k u s))"
  shows "fleet_effect pb pg (by_config q s) s (snd (andthen (requireConfigManager q s) k :: ('e failure + 'a) \<times> officeServer))"
  unfolding andthen_requireConfigManager by (rule fleet_config) (rule assms)

lemma each_entry_inv: "each_entry f xs p = Inr p' \<Longrightarrow> P p \<Longrightarrow> (\<And>x p p'. f x p = Inr p' \<Longrightarrow> P p \<Longrightarrow> P p') \<Longrightarrow> P p'"
  by (induction xs arbitrary: p) (auto split: sum.splits)

lemma trim_space_Nil: "trim_space [] = []"
  by code_simp

lemma toScope_ok: "toScope v = Inr sc \<Longrightarrow> validateScope sc = None \<Longrightarrow> scope_ok sc"
  by (auto simp: toScope_def scope_ok_def groupScope_def vesselScope_def fleetScope_def validateScope_def Let_def trim_space_idem trim_space_Nil
      split: scopeType.splits if_splits)

lemma new_rows_valid:
  "newProfileAssignment now sc ps = Inr a \<Longrightarrow> paScope a = sc \<and> validateScope sc = None"
  "newCadenceRule now sc x y = Inr r \<Longrightarrow> crScope r = sc \<and> crMaxGapHours r = y \<and> validateScope sc = None \<and> \<not> f64_le y (F64 0)"
  "newRuleSeverityAssignment sc = Inr sa \<Longrightarrow> severities_ok sa \<and> rsScope sa = sc \<and> validateScope sc = None"
  "newBundleAssignment now sc i = Inr ba \<Longrightarrow> baScope ba = sc \<and> baBundleID ba = trim_space i \<and> validateScope sc = None"
  by (auto simp: newProfileAssignment_def newCadenceRule_def newRuleSeverityAssignment_def newBundleAssignment_def Let_def severities_ok_def
      split: option.splits sum.splits if_splits)

lemma set_severities_ok:
  "set_severities now m a = Inr a' \<Longrightarrow> severities_ok a \<Longrightarrow> severities_ok a' \<and> rsScope a' = rsScope a"
  unfolding set_severities_def
  by (erule each_entry_inv[where P = "\<lambda>x. severities_ok x \<and> rsScope x = rsScope a"])
    (auto dest: setSeverity_ok, auto simp: setSeverity_def split: if_splits)

lemma finite_positive: "is_finite y \<Longrightarrow> \<not> f64_le y (F64 0) \<Longrightarrow> f64_gt y (F64 0)"
  by (cases y) (auto simp: f64_le_def f64_lt_def f64_eq_def)

lemma settings_request_effect: "settings_request q s s' \<Longrightarrow> fleet_effect pb (oqPg q) (by_config q s) s s'"
proof (induction rule: settings_request.induct)
  case profile_list
  show ?case unfolding handleListProfileAssignments_def by (rule fleet_signed_in, rule fleet_check) simp
next
  case (profile_save prbody)
  show ?case unfolding handleSaveProfileAssignment_def
    by (intro fleet_manager fleet_decode fleet_check fleet_put_value)
      (auto intro!: office_step.configuration config_step.profiles dest: new_rows_valid toScope_ok)
next
  case cadence_list
  show ?case unfolding handleListCadenceRules_def by (rule fleet_signed_in, rule fleet_check) simp
next
  case (cadence_save cdbody)
  then show ?case unfolding handleSaveCadenceRule_def
    by (intro fleet_manager fleet_decode fleet_check fleet_put_value)
      (auto simp: cadence_body_def intro!: office_step.configuration config_step.cadence finite_positive dest: new_rows_valid toScope_ok)
next
  case rule_list
  show ?case unfolding handleListOverridableRules_def by (rule fleet_signed_in) simp
next
  case severity_list
  show ?case unfolding handleListRuleSeverityAssignments_def by (rule fleet_signed_in, rule fleet_check) simp
next
  case (severity_save svbody)
  show ?case unfolding handleSaveRuleSeverityAssignment_def
    by (intro fleet_manager fleet_decode fleet_check fleet_put_value)
      (auto intro!: office_step.configuration config_step.severities dest!: new_rows_valid set_severities_ok dest: toScope_ok)
next
  case published_list
  show ?case unfolding handleListConfigBundles_def by (rule fleet_signed_in) simp
next
  case bundle_preview
  show ?case unfolding handlePreviewConfigBundle_def by (rule fleet_signed_in, rule fleet_check) simp
next
  case (bundle_publish label)
  show ?case unfolding handlePublishConfigBundle_def
    by (intro fleet_config fleet_decode fleet_check fleet_put_value) (auto intro: office_step.configuration config_step.publication)
next
  case assignment_list
  show ?case unfolding handleListBundleAssignments_def by (rule fleet_signed_in, rule fleet_check) simp
next
  case (assignment_save bdbody)
  show ?case unfolding handleSaveBundleAssignment_def
    by (intro fleet_manager fleet_decode fleet_check fleet_sum fleet_put_value)
      (auto intro!: office_step.configuration config_step.assignment dest: new_rows_valid toScope_ok)
qed

section \<open>The configuration under the history of the office\<close>

text \<open>What is not a configuration request leaves these tables alone; bundles are only added.\<close>

definition settings_tables where
  "settings_tables st = (osSeverities st, osCadence st, osProfiles st, osPolicies st, osAssignments st, osBundles st)"

definition settings_later :: "ostore \<Rightarrow> ostore \<Rightarrow> bool" where
  "settings_later st st' \<longleftrightarrow> (config_wf st \<longrightarrow> config_wf st') \<and> (\<exists>bs. osBundles st' = osBundles st @ bs)"

lemma settings_later_refl [simp]: "settings_later st st"
  by (simp add: settings_later_def)

lemma settings_later_trans: "settings_later a b \<Longrightarrow> settings_later b c \<Longrightarrow> settings_later a c"
  by (auto simp: settings_later_def)

lemma same_settings: "settings_tables st' = settings_tables st \<Longrightarrow> settings_later st st'"
  by (auto simp: settings_later_def settings_tables_def config_wf_def)

lemma config_step_settings: "config_step pg st st' \<Longrightarrow> settings_later st st'"
proof -
  assume step: "config_step pg st st'"
  then have "\<exists>bs. osBundles st' = osBundles st @ bs"
    by (elim config_stepE)
      (auto simp: saveRuleSeverityAssignment_def saveCadenceRule_def saveProfileAssignment_def saveFieldPolicy_def
        createConfigBundle_def saveBundleAssignment_def map_sum_Inr split: if_splits)
  then show ?thesis using config_step_wf[OF step] by (simp add: settings_later_def)
qed

lemma push_settings: "settings_tables (snd (pushOutbox v items st)) = settings_tables st"
  using pushOutbox_config[of v items st] by (simp add: config_tables_def settings_tables_def)

lemma frame_settings: "push_frame st st' \<Longrightarrow> settings_tables st' = settings_tables st"
  by (simp add: push_frame_def config_tables_def settings_tables_def)

lemma write_settings:
  "setRemarkResolved pg now i b st = st1 \<Longrightarrow> settings_tables st1 = settings_tables st"
  "queueUserCommand pg v uc st = Inr st' \<Longrightarrow> settings_tables st' = settings_tables st"
  "queueRestoreCommand pg v rc st = Inr st' \<Longrightarrow> settings_tables st' = settings_tables st"
  "markRestoreCommandFetched pg i now st = st1 \<Longrightarrow> settings_tables st1 = settings_tables st"
  "createSchemaVersion pg sv st = Inr st' \<Longrightarrow> settings_tables st' = settings_tables st"
  "upsertVesselCredential pg cred st = Inr st' \<Longrightarrow> settings_tables st' = settings_tables st"
  "revokeVesselCredential pg v now st = st1 \<Longrightarrow> settings_tables st1 = settings_tables st"
  "createVessel pg vr st = Inr st' \<Longrightarrow> settings_tables st' = settings_tables st"
  "updateVessel pg vr st = Inr st' \<Longrightarrow> settings_tables st' = settings_tables st"
  "upsertEnrollment pg en st = Inr st' \<Longrightarrow> settings_tables st' = settings_tables st"
  "markReviewed pg now v i by_user st = Inr st' \<Longrightarrow> settings_tables st' = settings_tables st"
  by (auto simp: settings_tables_def setRemarkResolved_def queueUserCommand_def queueRestoreCommand_def
      markRestoreCommandFetched_def map_restores_def createSchemaVersion_def upsertVesselCredential_def
      revokeVesselCredential_def createVessel_def stored_vessel_def updateVessel_def upsertEnrollment_def markReviewed_def Let_def
      split: if_splits)

lemma remarks_settings: "settings_tables (snd (insertRemarkSet pg v rs setID st)) = settings_tables st"
  unfolding insertRemarkSet_def
  by (rule for_each_inv[where P = "\<lambda>x. settings_tables x = settings_tables st"])
    (auto simp: insert_remark_def settings_tables_def)

lemma fetched_settings: "settings_tables (markUserCommandFetched pg i now st) = settings_tables st"
  by (simp add: markUserCommandFetched_def map_commands_def settings_tables_def)

lemma pull_commands_settings: "settings_tables (snd (pull_commands env rs st)) = settings_tables st"
proof (induction env rs st rule: pull_commands.induct)
  case (2 env r rs st)
  have "settings_tables (snd (pull_commands env rs (markUserCommandFetched (oePg env) (oucID (srItem r)) (oeNow env) st))) =
      settings_tables st" if "userCommandToWire (oePb env) (srItem r) = Inr c" for c
    using "2.IH"[OF that] by (simp add: fetched_settings)
  then show ?case
    by (auto split: sum.split intro: andthen_inv[where P = "\<lambda>x. settings_tables x = settings_tables st"])
qed simp

lemma call_settings:
  "settings_tables (snd (pullInbox env v c st)) = settings_tables st"
  "settings_tables (snd (syncStatus env v req st)) = settings_tables st"
  "settings_tables (snd (authInterceptor cr h env header st)) = settings_tables st"
proof -
  have "settings_tables (snd (pullUserCommands env v k st)) = settings_tables st" for k
    unfolding pullUserCommands_def Let_def
    by (rule andthen_inv[where P = "\<lambda>x. settings_tables x = settings_tables st"]) (auto simp: pull_commands_settings)
  then show "settings_tables (snd (pullInbox env v c st)) = settings_tables st"
    unfolding pullInbox_def Let_def
    by (auto split: sum.split prod.split intro!: andthen_inv[where P = "\<lambda>x. settings_tables x = settings_tables st"])
  show "settings_tables (snd (syncStatus env v req st)) = settings_tables st"
    by (auto simp: syncStatus_def upsertVesselSyncStatus_def markRestoreCommandsApplied_def map_restores_def
        markUserCommandsApplied_def map_commands_def replaceVesselUsers_def settings_tables_def attempt_def Let_def)
  show "settings_tables (snd (authInterceptor cr h env header st)) = settings_tables st"
    by (auto simp: authInterceptor_def touchVesselCredentialLastUsed_def settings_tables_def Let_def split: sum.split bool.split)
qed

lemma office_step_settings: "office_step pb pg st st' \<Longrightarrow> settings_later st st'"
proof (induction rule: office_step.induct)
  case configuration
  then show ?case by (rule config_step_settings)
qed (auto intro!: same_settings simp: push_settings remarks_settings call_settings
    intro: write_settings frame_settings write_frames land_payload_frame)

lemma office_steps_settings: "(office_step pb pg)\<^sup>*\<^sup>* st st' \<Longrightarrow> settings_later st st'"
  by (induction rule: rtranclp_induct) (auto intro: settings_later_trans office_step_settings)

section \<open>Publication\<close>

lemma check_value_succeeded [succeeded]:
  "check_value c err res s k = (Inr v, s') \<longleftrightarrow> (\<exists>x. res = Inr x \<and> k x = (Inr v, s'))"
  by (cases res) (simp_all add: check_value_def writeErrorText_def)

lemma put_value_succeeded [succeeded]:
  "put_value err res s k = (Inr v, s') \<longleftrightarrow> (\<exists>st. res = Inr st \<and> k (s\<lparr>ofStore := st\<rparr>) = (Inr v, s'))"
  by (simp add: put_value_def check_value_succeeded)

lemma requireConfigManager_Inr:
  "requireConfigManager q s = (Inr u, s') \<longleftrightarrow> s' = s \<and> osigned_in q s u \<and> canManageConfig u"
  by (auto simp: requireConfigManager_def succeeded oauthenticatedUser_Inr)

lemma publish_answered:
  assumes "handlePublishConfigBundle q body s = (Inr r, s')"
  obtains u label composed b where "osigned_in q s u" "canManageConfig u" "body = Some label"
    "composeCurrentBundle q (ofStore s) = Inr composed"
    "publish (oqUUID q 0) (oqNow q) (Some composed) label (ouID u) = Inr b"
    "createConfigBundle (oqPg q) b (ofStore s) = Inr (ofStore s')" "s' = s\<lparr>ofStore := ofStore s'\<rparr>"
    "r = (StatusCreated, toConfigBundleSummaryView b)"
  using assms by (cases r) (auto simp: handlePublishConfigBundle_def succeeded oauthenticatedUser_Inr)

text \<open>The live rows, each once, and the latest version of each schema.\<close>

lemma list_rows_ok:
  assumes "config_wf st" and "\<And>xs. mset (ordP xs) = mset xs" and "\<And>xs. mset (ordC xs) = mset xs"
    and "\<And>xs. mset (ordF xs) = mset xs"
  shows "listProfileAssignments ordP st = Inr (ordP (osProfiles st))"
    and "listCadenceRules ordC st = Inr (ordC (osCadence st))"
    and "listFieldPolicyAssignments ordF n v st =
      Inr (ordF (filter (\<lambda>p. fpSchemaName p = n \<and> fpSchemaVersion p = v) (osPolicies st)))"
  unfolding listProfileAssignments_def listCadenceRules_def listFieldPolicyAssignments_def
  using assms(1) mset_eq_setD[OF assms(2)] mset_eq_setD[OF assms(3)] mset_eq_setD[OF assms(4)]
  by (intro list_scoped_ok; force simp: config_wf_def)+

definition faithful_orders :: "officeReq \<Rightarrow> bool" where
  "faithful_orders q \<longleftrightarrow> (\<forall>xs. mset (ordProfiles (oqOrders q) xs) = mset xs) \<and> (\<forall>xs. mset (ordCadence (oqOrders q) xs) = mset xs) \<and>
     (\<forall>xs. mset (ordSeverities (oqOrders q) xs) = mset xs) \<and> (\<forall>xs. mset (ordPolicies (oqOrders q) xs) = mset xs) \<and>
     slice_sort (oqSorter q)"

lemma latest_name:
  assumes "slice_sort p" and "latestSchemaVersion p n st = Inr row"
  shows "svSchemaName row = n \<and> row \<in> srItem ` set (osSchemaVersions st)"
proof -
  have "row \<in> set (listSchemaVersions p n st)" using assms(2) by (auto simp: latestSchemaVersion_def split: list.splits)
  then show ?thesis by (auto simp: listSchemaVersions_def slice_sort.set_sort_slice[OF assms(1)])
qed

lemma compose_schemas_names:
  assumes "compose_schemas q st names = Inr (versions, policies)" and "slice_sort (oqSorter q)"
  shows "map svrSchemaName versions = names \<and>
    (\<forall>v \<in> set versions. \<exists>row. latestSchemaVersion (oqSorter q) (svrSchemaName v) st = Inr row \<and>
       v = \<lparr>svrSchemaName = svSchemaName row, svrVersion = svVersion row, svrID = svID row\<rparr>)"
  using assms(1)
proof (induction names arbitrary: versions policies)
  case (Cons n names)
  then show ?case using latest_name[OF assms(2)] by (auto split: sum.splits prod.splits)
qed simp

lemma compose_current:
  assumes "composeCurrentBundle q st = Inr c" and "config_wf st" and "faithful_orders q"
  shows "mset (cbRuleSeverities c) = mset (osSeverities st)" and "mset (cbCadenceRules c) = mset (osCadence st)"
    and "mset (cbRegulatoryProfiles c) = mset (osProfiles st)" and "map svrSchemaName (cbSchemaVersions c) = listSchemaNames st"
    and "\<forall>v \<in> set (cbSchemaVersions c). \<exists>row. latestSchemaVersion (oqSorter q) (svrSchemaName v) st = Inr row \<and>
       v = \<lparr>svrSchemaName = svSchemaName row, svrVersion = svVersion row, svrID = svID row\<rparr>"
proof -
  have ord: "mset (ordProfiles (oqOrders q) xs) = mset xs" "mset (ordCadence (oqOrders q) ys) = mset ys"
      "mset (ordSeverities (oqOrders q) zs) = mset zs" "mset (ordPolicies (oqOrders q) ws) = mset ws" for xs ys zs ws
    using assms(3) by (simp_all add: faithful_orders_def)
  obtain versions policies where v: "compose_schemas q st (listSchemaNames st) = Inr (versions, policies)"
      "c = compose versions policies (ordProfiles (oqOrders q) (osProfiles st)) (ordCadence (oqOrders q) (osCadence st))
         (ordSeverities (oqOrders q) (osSeverities st)) []"
    using assms(1) list_rows_ok[OF assms(2) ord(1) ord(2) ord(4)] list_severities_ok[OF assms(2) ord(3)]
    by (auto simp: composeCurrentBundle_def split: sum.splits prod.splits)
  then show "mset (cbRuleSeverities c) = mset (osSeverities st)" and "mset (cbCadenceRules c) = mset (osCadence st)"
    and "mset (cbRegulatoryProfiles c) = mset (osProfiles st)"
    by (simp_all add: compose_def ord)
  show "map svrSchemaName (cbSchemaVersions c) = listSchemaNames st"
    and "\<forall>v \<in> set (cbSchemaVersions c). \<exists>row. latestSchemaVersion (oqSorter q) (svrSchemaName v) st = Inr row \<and>
       v = \<lparr>svrSchemaName = svSchemaName row, svrVersion = svVersion row, svrID = svID row\<rparr>"
    using compose_schemas_names[OF v(1)] assms(3) by (auto simp: v(2) compose_def faithful_orders_def)
qed

text \<open>A configuration that is well formed can always be composed.\<close>

lemma compose_total:
  assumes "config_wf st" and "faithful_orders q"
  shows "\<exists>c. composeCurrentBundle q st = Inr c"
proof -
  have ord: "mset (ordProfiles (oqOrders q) xs) = mset xs" "mset (ordCadence (oqOrders q) ys) = mset ys"
      "mset (ordSeverities (oqOrders q) zs) = mset zs" "mset (ordPolicies (oqOrders q) ws) = mset ws" and "slice_sort (oqSorter q)"
      for xs ys zs ws
    using assms(2) by (simp_all add: faithful_orders_def)
  note rows = list_rows_ok[OF assms(1) ord(1) ord(2) ord(4)] list_severities_ok[OF assms(1) ord(3)]
  have "\<exists>x. compose_schemas q st names = Inr x" if "set names \<subseteq> set (listSchemaNames st)" for names
    using that
  proof (induction names)
    case (Cons n names)
    then obtain x where "x \<in> set (osSchemaVersions st)" "svSchemaName (srItem x) = n" by (auto simp: listSchemaNames_def)
    then have "srItem x \<in> set (listSchemaVersions (oqSorter q) n st)"
      by (simp add: listSchemaVersions_def slice_sort.set_sort_slice[OF \<open>slice_sort (oqSorter q)\<close>])
    then obtain row where "latestSchemaVersion (oqSorter q) n st = Inr row"
      by (cases "listSchemaVersions (oqSorter q) n st") (auto simp: latestSchemaVersion_def)
    then show ?case using Cons by (auto simp: rows split: prod.splits)
  qed simp
  then obtain x where "compose_schemas q st (listSchemaNames st) = Inr x" by blast
  then show ?thesis by (cases x) (simp add: composeCurrentBundle_def rows)
qed

text \<open>Who was assigned a bundle pulls it.\<close>

lemma assignment_answered:
  assumes "handleSaveBundleAssignment q (Some r) s = (Inr x, s')"
  obtains u sc b a where "osigned_in q s u" "canManageConfig u" "toScope (sbrScope r) = Inr sc"
    "getConfigBundle (sbrBundleID r) (ofStore s) = Inr b" "newBundleAssignment (oqNow q) sc (sbrBundleID r) = Inr a"
    "saveBundleAssignment (oqPg q) a (ofStore s) = Inr (ofStore s')"
  using assms
  by (cases x; cases "getConfigBundle (sbrBundleID r) (ofStore s)")
    (auto simp: handleSaveBundleAssignment_def succeeded requireConfigManager_Inr split: if_splits)

lemma assigned_resolves:
  assumes "saveBundleAssignment pg a st = Inr st'" and "config_wf st" and "\<And>xs. mset (ord xs) = mset xs"
    and "baScope a = \<lparr>scType = ScopeVessel, scKey = v\<rparr>" and "scope_ok (baScope a)"
  shows "\<exists>as a'. listBundleAssignments ord st' = Inr as \<and> resolve as v gs = Some a' \<and> baBundleID a' = baBundleID a"
proof -
  let ?a = "a\<lparr>baAssignedAt := pgTime pg (baAssignedAt a)\<rparr>"
  have rows: "osAssignments st' = upsert_by baScope ?a (osAssignments st)"
    using assms(1) by (auto simp: saveBundleAssignment_def map_sum_Inr dest: save_scoped_Inr)
  have wf: "config_wf st'" by (rule config_step_wf[OF config_step.assignment[OF assms(1,5)] assms(2)])
  have list: "listBundleAssignments ord st' = Inr (ord (osAssignments st'))"
    unfolding listBundleAssignments_def using wf mset_eq_setD[OF assms(3)]
    by (intro list_scoped_ok) (force simp: config_wf_def)+
  have "find_row baScope (osAssignments st') (baScope a) = Some ?a" unfolding rows by (simp add: find_row_upsert_by)
  then have a: "?a \<in> set (osAssignments st')" by (auto dest: find_row_SomeD)
  have distinct: "distinct (map baScope (osAssignments st'))" using wf by (simp add: config_wf_def)
  define P :: "bundleAssignment \<Rightarrow> bool" where "P = (\<lambda>x. scType (baScope x) = ScopeVessel \<and> scKey (baScope x) = v)"
  have P: "P x \<longleftrightarrow> baScope x = baScope a" for x by (cases "baScope x") (simp add: P_def assms(4))
  have members: "set (ord (osAssignments st')) = set (osAssignments st')" by (rule mset_eq_setD[OF assms(3)])
  obtain x where x: "List.find P (ord (osAssignments st')) = Some x"
    using a by (cases "List.find P (ord (osAssignments st'))") (auto simp: find_None_iff members P)
  then have "x \<in> set (osAssignments st')" "baScope x = baScope a" using find_SomeD[OF x] by (auto simp: members P)
  then have "x = ?a" using distinct a by (auto simp: distinct_map inj_on_def)
  then show ?thesis using x list by (auto simp: resolve_def P_def)
qed

end
