(* ===== verification/OfficeSchemas.thy ===== *)
theory OfficeSchemas
  imports OfficeSettings
begin

text \<open>
  The schema registry and the field policies of its schemas: what an upload goes through (\<open>office/schemaversions\<close>,
  \<open>office/httpapi/schemaversions.go\<close>), and the field policy screen with its migration assistant (\<open>office/httpapi/fieldpolicy.go\<close>).
  \<open>validates\<close> is the validator of the meta-schema, \<open>event_types\<close> the embedded list of event types, absent when it does not load.

  Lemmas: a published version is never replaced; a saved policy leaves the fields the schema locks alone, and reads back.
\<close>

section \<open>Uploads\<close>

definition SourceProjectCurated :: string where "SourceProjectCurated = ''projectCurated''"
definition SourceCompanyEdited :: string where "SourceCompanyEdited = ''companyEdited''"

datatype version_error =
    ErrInvalidUpload
  | ErrParseUpload
  | ErrParseCurrent string string
  | ErrSchemaNameRequired
  | ErrVersionRequired
  | ErrUnknownSource string
  | ErrContentRequired
  | ErrVersionPublishedBy
  | ErrVersionID

record uploadPreview =
  upParsed :: schema
  upDiff :: "schema_diff option"

definition prepareUpload ::
  "(string \<Rightarrow> bool) \<Rightarrow> (string \<Rightarrow> schema option) \<Rightarrow> schemaVersionRow option \<Rightarrow> string \<Rightarrow> version_error + uploadPreview" where
  "prepareUpload validates parse current content =
     (if \<not> validates content then Inl ErrInvalidUpload
      else case parse content of
        None \<Rightarrow> Inl ErrParseUpload
      | Some parsed \<Rightarrow>
     (case current of
        None \<Rightarrow> Inr \<lparr>upParsed = parsed, upDiff = None\<rparr>
      | Some cur \<Rightarrow>
     (case parse (svContent cur) of
        None \<Rightarrow> Inl (ErrParseCurrent (svSchemaName cur) (svVersion cur))
      | Some currentParsed \<Rightarrow> Inr \<lparr>upParsed = parsed, upDiff = Some (diffSchemas currentParsed parsed)\<rparr>)))"

definition publishVersion ::
  "string option \<Rightarrow> gotime \<Rightarrow> string \<Rightarrow> string \<Rightarrow> string \<Rightarrow> string \<Rightarrow> string \<Rightarrow> version_error + schemaVersionRow" where
  "publishVersion uuid now sname version source content publishedBy =
     (let sname = trim_space sname; version = trim_space version; publishedBy' = trim_space publishedBy in
      if sname = '''' then Inl ErrSchemaNameRequired
      else if version = '''' then Inl ErrVersionRequired
      else if source \<notin> {SourceProjectCurated, SourceCompanyEdited} then Inl (ErrUnknownSource source)
      else if content = '''' then Inl ErrContentRequired
      else if publishedBy' = '''' then Inl ErrVersionPublishedBy
      else case uuid of
        None \<Rightarrow> Inl ErrVersionID
      | Some i \<Rightarrow> Inr \<lparr>svID = i, svSchemaName = sname, svVersion = version, svSource = source, svContent = content,
                       svPublishedAt = now, svPublishedBy = publishedBy'\<rparr>)"

section \<open>Views\<close>

datatype schemas_error =
    SchemasStore ostore_error
  | SchemasScope compliance_error
  | SchemasConfig config_error
  | SchemasParse string string
  | SchemasUpload version_error
  | SchemasPolicy fieldpolicy_error
  | SchemasField string fieldpolicy_error
  | SchemasNoEvents string string
  | SchemasEventTypes

type_synonym 'a schemas_handled = "(schemas_error, 'a, officeServer) handled"

record schemaVersionSummaryView =
  ssvSchemaName :: string
  ssvVersion :: string
  ssvSource :: string
  ssvPublishedAt :: gotime
  ssvPublishedBy :: string
  ssvFieldCount :: nat

definition parse_version :: "officeReq \<Rightarrow> schemaVersionRow \<Rightarrow> schemas_error + schema" where
  "parse_version q sv =
     (case oqParse q (svContent sv) of None \<Rightarrow> Inl (SchemasParse (svSchemaName sv) (svVersion sv)) | Some p \<Rightarrow> Inr p)"

definition toSchemaVersionSummaryView :: "officeReq \<Rightarrow> schemaVersionRow \<Rightarrow> schemas_error + schemaVersionSummaryView" where
  "toSchemaVersionSummaryView q sv =
     map_sum id (\<lambda>parsed. \<lparr>ssvSchemaName = svSchemaName sv, ssvVersion = svVersion sv, ssvSource = svSource sv,
       ssvPublishedAt = svPublishedAt sv, ssvPublishedBy = svPublishedBy sv, ssvFieldCount = length (schemaFields parsed)\<rparr>)
       (parse_version q sv)"

definition field_type_text :: "field_type \<Rightarrow> string" where
  "field_type_text t =
     (case t of FieldTypeText \<Rightarrow> ''text'' | FieldTypeWholeNumber \<Rightarrow> ''wholeNumber'' | FieldTypeDecimal \<Rightarrow> ''decimal''
      | FieldTypeDate \<Rightarrow> ''date'' | FieldTypeTime \<Rightarrow> ''time'' | FieldTypeDateTime \<Rightarrow> ''dateTime''
      | FieldTypeBoolean \<Rightarrow> ''boolean'' | FieldTypeEnum \<Rightarrow> ''enum'' | FieldTypeOther s \<Rightarrow> s)"

record schemaFieldView =
  sfvName :: string
  sfvLabel :: string
  sfvType :: string
  sfvUnit :: "string option"
  sfvSchemaMandatory :: bool
  sfvRelevance :: string
  sfvSection :: string
  sfvAppliesToEvents :: "string list"

definition toFieldView :: "field \<Rightarrow> schemaFieldView" where
  "toFieldView f =
     \<lparr>sfvName = fieldName f, sfvLabel = fieldLabel f, sfvType = field_type_text (fieldType f), sfvUnit = fieldUnit f,
      sfvSchemaMandatory = fieldSchemaMandatory f, sfvRelevance = fieldRelevance f, sfvSection = fieldSection f,
      sfvAppliesToEvents = fieldAppliesToEvents f\<rparr>"

record schemaDetailView =
  sdvSchemaName :: string
  sdvVersion :: string
  sdvSections :: "string list"
  sdvFields :: "schemaFieldView list"

definition toSchemaDetailView :: "officeReq \<Rightarrow> schemaVersionRow \<Rightarrow> schemas_error + schemaDetailView" where
  "toSchemaDetailView q sv =
     map_sum id (\<lambda>parsed. \<lparr>sdvSchemaName = svSchemaName sv, sdvVersion = svVersion sv, sdvSections = schemaSections parsed,
       sdvFields = map toFieldView (schemaFields parsed)\<rparr>) (parse_version q sv)"

record schemaDiffView =
  dvAdded :: "schemaFieldView list"
  dvRemoved :: "schemaFieldView list"
  dvTypeChanged :: "string list"
  dvMandatorinessChanged :: "string list"
  dvEnumChanged :: "string list"

definition toSchemaDiffView :: "schema_diff \<Rightarrow> schemaDiffView" where
  "toSchemaDiffView d =
     \<lparr>dvAdded = map toFieldView (diffAdded d), dvRemoved = map toFieldView (diffRemoved d),
      dvTypeChanged = map changeName (diffTypeChanged d), dvMandatorinessChanged = map changeName (diffMandatorinessChanged d),
      dvEnumChanged = map changeName (diffEnumChanged d)\<rparr>"

section \<open>The registry's handlers\<close>

text \<open>The loops over a list of rows that end at the first error.\<close>

fun each_row :: "('x \<Rightarrow> 'e + 'v) \<Rightarrow> 'x list \<Rightarrow> 'e + 'v list" where
  "each_row f [] = Inr []"
| "each_row f (x # xs) =
     (case f x of Inl e \<Rightarrow> Inl e | Inr v \<Rightarrow> (case each_row f xs of Inl e \<Rightarrow> Inl e | Inr vs \<Rightarrow> Inr (v # vs)))"

definition latest_summary :: "officeReq \<Rightarrow> ostore \<Rightarrow> string \<Rightarrow> schemas_error + schemaVersionSummaryView" where
  "latest_summary q st name =
     (case latestSchemaVersion (oqSorter q) name st of
        Inl e \<Rightarrow> Inl (SchemasStore e)
      | Inr sv \<Rightarrow> toSchemaVersionSummaryView q sv)"

definition handleListLatestSchemaVersions :: "officeReq \<Rightarrow> officeServer \<Rightarrow> schemaVersionSummaryView list schemas_handled" where
  "handleListLatestSchemaVersions q s =
     andthen (oauthenticatedUser q s) (\<lambda>_ s.
     check_value StatusInternalServerError id (each_row (latest_summary q (ofStore s)) (listSchemaNames (ofStore s))) s (\<lambda>out.
       writeJSON StatusOK out s))"

definition handleListSchemaVersionHistory ::
  "officeReq \<Rightarrow> string \<Rightarrow> officeServer \<Rightarrow> schemaVersionSummaryView list schemas_handled" where
  "handleListSchemaVersionHistory q name s =
     andthen (oauthenticatedUser q s) (\<lambda>_ s.
     check_value StatusInternalServerError id
       (each_row (toSchemaVersionSummaryView q) (listSchemaVersions (oqSorter q) name (ofStore s))) s (\<lambda>out.
       writeJSON StatusOK out s))"

text \<open>A read that may find nothing.\<close>

definition find_version ::
  "ostore_error + schemaVersionRow \<Rightarrow> string \<Rightarrow> officeServer \<Rightarrow> (schemaVersionRow \<Rightarrow> 'a schemas_handled) \<Rightarrow> 'a schemas_handled" where
  "find_version res missing s k =
     (case res of
        Inl e \<Rightarrow>
          if e = OErrNotFound then writeError StatusNotFound missing s
          else writeErrorText StatusInternalServerError (SchemasStore e) s
      | Inr sv \<Rightarrow> k sv)"

definition handleGetSchemaVersion :: "officeReq \<Rightarrow> string \<Rightarrow> string \<Rightarrow> officeServer \<Rightarrow> schemaDetailView schemas_handled" where
  "handleGetSchemaVersion q name version s =
     andthen (oauthenticatedUser q s) (\<lambda>_ s.
     find_version (getSchemaVersion name version (ofStore s)) ''schema version not found'' s (\<lambda>sv.
     check_value StatusInternalServerError id (toSchemaDetailView q sv) s (\<lambda>view.
       writeJSON StatusOK view s)))"

text \<open>The reply is the name of the file and the bytes as they were uploaded.\<close>

definition handleDownloadSchemaVersion ::
  "officeReq \<Rightarrow> string \<Rightarrow> string \<Rightarrow> officeServer \<Rightarrow> (string \<times> string) schemas_handled" where
  "handleDownloadSchemaVersion q name version s =
     andthen (oauthenticatedUser q s) (\<lambda>_ s.
     find_version (getSchemaVersion name version (ofStore s)) ''schema version not found'' s (\<lambda>sv.
       writeJSON StatusOK (name @ ''-'' @ version @ ''.json'', svContent sv) s))"

record schemaUploadPreviewResponse =
  prValid :: bool
  prError :: "version_error option"
  prParsedName :: string
  prParsedVersion :: string
  prDiff :: "schemaDiffView option"

definition handlePreviewSchemaUpload ::
  "(string \<Rightarrow> bool) \<Rightarrow> officeReq \<Rightarrow> string \<Rightarrow> string option \<Rightarrow> officeServer \<Rightarrow> schemaUploadPreviewResponse schemas_handled" where
  "handlePreviewSchemaUpload validates q name body s =
     andthen (requireConfigManager q s) (\<lambda>_ s.
     decode body s (\<lambda>content.
       let current = latestSchemaVersion (oqSorter q) name (ofStore s) in
       case (case current of Inl e \<Rightarrow> (if e = OErrNotFound then Inr None else Inl e) | Inr sv \<Rightarrow> Inr (Some sv)) of
         Inl e \<Rightarrow> writeErrorText StatusInternalServerError (SchemasStore e) s
       | Inr current \<Rightarrow>
          (case prepareUpload validates (oqParse q) current content of
             Inl e \<Rightarrow> writeJSON StatusOK \<lparr>prValid = False, prError = Some e, prParsedName = '''', prParsedVersion = '''', prDiff = None\<rparr> s
           | Inr p \<Rightarrow> writeJSON StatusOK \<lparr>prValid = True, prError = None, prParsedName = schemaName (upParsed p),
                 prParsedVersion = schemaVersion (upParsed p), prDiff = map_option toSchemaDiffView (upDiff p)\<rparr> s)))"

record schemaPublishRequest =
  spVersion :: string
  spContent :: string

definition handlePublishSchemaVersion ::
  "(string \<Rightarrow> bool) \<Rightarrow> officeReq \<Rightarrow> string \<Rightarrow> schemaPublishRequest option \<Rightarrow> officeServer \<Rightarrow> schemaVersionSummaryView schemas_handled" where
  "handlePublishSchemaVersion validates q name body s =
     andthen (oauthenticatedUser q s) (\<lambda>user s.
     guard (\<not> canManageConfig user) StatusForbidden ''only Config Manager may author schema versions and field policy'' s (\<lambda>s.
     decode body s (\<lambda>r.
       if \<not> validates (spContent r) then writeErrorText StatusBadRequest (SchemasUpload ErrInvalidUpload) s
       else
         case (case latestSchemaVersion (oqSorter q) name (ofStore s) of
                 Inl e \<Rightarrow> (if e = OErrNotFound then Inr SourceProjectCurated else Inl e)
               | Inr _ \<Rightarrow> Inr SourceCompanyEdited) of
           Inl e \<Rightarrow> writeErrorText StatusInternalServerError (SchemasStore e) s
         | Inr source \<Rightarrow>
             check_value StatusBadRequest SchemasUpload
               (publishVersion (oqUUID q 0) (oqNow q) name (spVersion r) source (spContent r) (ouID user)) s (\<lambda>sv.
             put_value SchemasStore (createSchemaVersion (oqPg q) sv (ofStore s)) s (\<lambda>s.
             check_value StatusInternalServerError id (toSchemaVersionSummaryView q sv) s (\<lambda>view.
               writeJSON StatusCreated view s))))))"

section \<open>Field policies\<close>

definition eventTypesEnumRef :: string where "eventTypesEnumRef = ''event-types''"

text \<open>Without a field that names the enumeration there are no events to choose from; the second component is nil then.\<close>

definition eventVocabulary ::
  "string list option \<Rightarrow> schema \<Rightarrow> schemas_error + string list \<times> (string, bool) gomap option" where
  "eventVocabulary event_types parsed =
     (if \<not> list_ex (\<lambda>f. fieldEnumRef f = Some eventTypesEnumRef) (schemaFields parsed) then Inr ([], None)
      else case event_types of
        None \<Rightarrow> Inl SchemasEventTypes
      | Some codes \<Rightarrow> Inr (codes, Some (name_set codes)))"

record fieldPolicyMigrationView =
  mvFromVersion :: string
  mvNewFields :: "string list"
  mvRemovedFields :: "string list"

record fieldPolicyView =
  fpvSchemaName :: string
  fpvVersion :: string
  fpvScope :: scopeView
  fpvFields :: "schemaFieldView list"
  fpvPolicy :: "(string, string) gomap"
  fpvPrefill :: "(string, string) gomap"
  fpvEvents :: "(string, string list) gomap"
  fpvEventTypes :: "string list"
  fpvMigration :: "fieldPolicyMigrationView option"

record fieldPolicyAssignmentView =
  fvScope :: scopeView
  fvVersion :: string
  fvPolicy :: nat
  fvPrefill :: nat
  fvUpdatedAt :: gotime

definition stringifyPolicy :: "fieldPolicy \<Rightarrow> (string, string) gomap" where
  "stringifyPolicy = gm_map policy_state_text"

definition stringifyPrefill :: "(string, prefillClass) gomap \<Rightarrow> (string, string) gomap" where
  "stringifyPrefill = gm_map prefill_text"

definition policy_view ::
  "string \<Rightarrow> schemaVersionRow \<Rightarrow> scope \<Rightarrow> schemaDetailView \<Rightarrow> schemaFieldPolicy \<Rightarrow> string list \<Rightarrow> fieldPolicyMigrationView option
   \<Rightarrow> fieldPolicyView" where
  "policy_view name latest sc detail p types migration =
     \<lparr>fpvSchemaName = name, fpvVersion = svVersion latest, fpvScope = toScopeView sc, fpvFields = sdvFields detail,
      fpvPolicy = stringifyPolicy (fpPolicy p), fpvPrefill = stringifyPrefill (fpPrefill p), fpvEvents = fpEvents p,
      fpvEventTypes = types, fpvMigration = migration\<rparr>"

text \<open>The query parameters \<open>scopeType\<close> and \<open>scopeKey\<close>, empty when absent.\<close>

definition scopeFromQuery :: "string \<Rightarrow> string \<Rightarrow> compliance_error + scope" where
  "scopeFromQuery t key = (if t = '''' then Inr fleetScope else toScope \<lparr>swType = t, swKey = key\<rparr>)"

definition buildMigration ::
  "officeReq \<Rightarrow> scope \<Rightarrow> string \<Rightarrow> schemaVersionRow \<Rightarrow> schemaVersionRow \<Rightarrow> ostore
   \<Rightarrow> schemas_error + schemaFieldPolicy \<times> fieldPolicyMigrationView" where
  "buildMigration q sc name latest previous st =
     (case oqParse q (svContent previous) of
        None \<Rightarrow> Inl (SchemasParse name (svVersion previous))
      | Some oldParsed \<Rightarrow>
     (case oqParse q (svContent latest) of
        None \<Rightarrow> Inl (SchemasParse name (svVersion latest))
      | Some newParsed \<Rightarrow>
          let oldPolicy = loadFieldPolicy sc name (svVersion previous) st;
              result = migrate oldPolicy (svVersion latest) (diffSchemas oldParsed newParsed)
          in Inr (mrNewPolicy result, \<lparr>mvFromVersion = svVersion previous, mvNewFields = mrNewFields result,
                    mvRemovedFields = mrRemovedFields result\<rparr>)))"

text \<open>What the screen shows: the saved policy, or the migration of the previous version's where nothing is saved.\<close>

definition shown_policy ::
  "officeReq \<Rightarrow> scope \<Rightarrow> string \<Rightarrow> schemaVersionRow \<Rightarrow> ostore \<Rightarrow> schemas_error + schemaFieldPolicy \<times> fieldPolicyMigrationView option" where
  "shown_policy q sc name latest st =
     (let saved = loadFieldPolicy sc name (svVersion latest) st in
      if fpPolicy saved = [] \<and> fpPrefill saved = [] \<and> fpEvents saved = []
      then (case listSchemaVersions (oqSorter q) name st of
              _ # previous # _ \<Rightarrow> map_sum id (\<lambda>(p, m). (p, Some m)) (buildMigration q sc name latest previous st)
            | _ \<Rightarrow> Inr (saved, None))
      else Inr (saved, None))"

definition handleGetFieldPolicy ::
  "string list option \<Rightarrow> officeReq \<Rightarrow> string \<Rightarrow> string \<Rightarrow> string \<Rightarrow> officeServer \<Rightarrow> fieldPolicyView schemas_handled" where
  "handleGetFieldPolicy event_types q name scopeType scopeKey s =
     andthen (oauthenticatedUser q s) (\<lambda>_ s.
     check_value StatusBadRequest SchemasScope (scopeFromQuery scopeType scopeKey) s (\<lambda>sc.
     find_version (latestSchemaVersion (oqSorter q) name (ofStore s)) ''schema not found'' s (\<lambda>latest.
     check_value StatusInternalServerError id (toSchemaDetailView q latest) s (\<lambda>detail.
     check_value StatusInternalServerError id (parse_version q latest) s (\<lambda>parsed.
     check_value StatusInternalServerError id (eventVocabulary event_types parsed) s (\<lambda>(types, _).
     check_value StatusInternalServerError id (shown_policy q sc name latest (ofStore s)) s (\<lambda>(p, migration).
       writeJSON StatusOK (policy_view name latest sc detail p types migration) s)))))))"

definition version_assignments ::
  "officeReq \<Rightarrow> string \<Rightarrow> ostore \<Rightarrow> schemaVersionRow \<Rightarrow> schemas_error + fieldPolicyAssignmentView list" where
  "version_assignments q name st v =
     map_sum SchemasScope (map (\<lambda>a. \<lparr>fvScope = toScopeView (fpScope a), fvVersion = fpSchemaVersion a,
         fvPolicy = length (fpPolicy a), fvPrefill = length (fpPrefill a), fvUpdatedAt = fpUpdatedAt a\<rparr>))
       (listFieldPolicyAssignments (ordPolicies (oqOrders q)) name (svVersion v) st)"

definition handleListFieldPolicyAssignments ::
  "officeReq \<Rightarrow> string \<Rightarrow> officeServer \<Rightarrow> fieldPolicyAssignmentView list schemas_handled" where
  "handleListFieldPolicyAssignments q name s =
     andthen (oauthenticatedUser q s) (\<lambda>_ s.
     check_value StatusInternalServerError id
       (each_row (version_assignments q name (ofStore s)) (listSchemaVersions (oqSorter q) name (ofStore s))) s (\<lambda>out.
       writeJSON StatusOK (concat out) s))"

section \<open>Saving a field policy\<close>

record saveFieldPolicyRequest =
  sfrScope :: scopeView
  sfrPolicy :: "(string, string) gomap"
  sfrPrefill :: "(string, string) gomap"
  sfrEvents :: "(string, string list) gomap"

definition to_prefill_class :: "string \<Rightarrow> prefillClass" where
  "to_prefill_class s =
     (if s = ''none'' then PrefillNone else if s = ''carryForward'' then PrefillCarryForward
      else if s = ''computed'' then PrefillComputed else if s = ''ghost'' then PrefillGhost else PrefillClassOther s)"

text \<open>A field the version does not have, or locks, is skipped.\<close>

definition open_field :: "schema \<Rightarrow> string \<Rightarrow> bool" where
  "open_field parsed name \<longleftrightarrow>
     (case fieldByName parsed name of None \<Rightarrow> False | Some f \<Rightarrow> \<not> fieldSchemaMandatory f)"

definition save_state :: "schema \<Rightarrow> string \<times> string \<Rightarrow> schemaFieldPolicy \<Rightarrow> schemas_error + schemaFieldPolicy" where
  "save_state parsed e p =
     (case e of (name, st) \<Rightarrow>
        if open_field parsed name then map_sum (SchemasField name) id (setPolicy name (to_policy_state st) False p) else Inr p)"

definition save_prefill :: "string \<times> string \<Rightarrow> schemaFieldPolicy \<Rightarrow> schemas_error + schemaFieldPolicy" where
  "save_prefill e p = (case e of (name, c) \<Rightarrow> map_sum (SchemasField name) id (setPrefillClass name (to_prefill_class c) p))"

definition save_events ::
  "schema \<Rightarrow> string \<Rightarrow> (string, bool) gomap option \<Rightarrow> string \<times> string list \<Rightarrow> schemaFieldPolicy
   \<Rightarrow> schemas_error + schemaFieldPolicy" where
  "save_events parsed sname validEvents e p =
     (case e of (name, evs) \<Rightarrow>
        if \<not> open_field parsed name then Inr p
        else if validEvents = None then Inl (SchemasNoEvents name sname)
        else map_sum (SchemasField name) id (setEvents name evs validEvents p))"

definition handleSaveFieldPolicy ::
  "string list option \<Rightarrow> officeReq \<Rightarrow> string \<Rightarrow> saveFieldPolicyRequest option \<Rightarrow> officeServer \<Rightarrow> fieldPolicyView schemas_handled" where
  "handleSaveFieldPolicy event_types q name body s =
     andthen (requireConfigManager q s) (\<lambda>_ s.
     find_version (latestSchemaVersion (oqSorter q) name (ofStore s)) ''schema not found'' s (\<lambda>latest.
     check_value StatusInternalServerError id (parse_version q latest) s (\<lambda>parsed.
     decode body s (\<lambda>r.
     check_value StatusBadRequest SchemasScope (if swType (sfrScope r) = '''' then Inr fleetScope else toScope (sfrScope r)) s (\<lambda>sc.
     check_value StatusBadRequest SchemasPolicy (newFieldPolicy sc name (svVersion latest)) s (\<lambda>p.
     check_value StatusBadRequest id (each_entry (save_state parsed) (sfrPolicy r) p) s (\<lambda>p.
     check_value StatusBadRequest id (each_entry save_prefill (sfrPrefill r) p) s (\<lambda>p.
     check_value StatusInternalServerError id (eventVocabulary event_types parsed) s (\<lambda>(types, validEvents).
     check_value StatusBadRequest id (each_entry (save_events parsed name validEvents) (sfrEvents r) p) s (\<lambda>p.
     put_value SchemasConfig (saveFieldPolicy (oqPg q) p (ofStore s)) s (\<lambda>s.
     check_value StatusInternalServerError id (toSchemaDetailView q latest) s (\<lambda>detail.
       writeJSON StatusOK (policy_view name latest sc detail p types None) s))))))))))))"

section \<open>The requests\<close>

inductive schemas_request :: "officeReq \<Rightarrow> officeServer \<Rightarrow> officeServer \<Rightarrow> bool" for q s where
  latest_list: "schemas_request q s (snd (handleListLatestSchemaVersions q s))"
| version_history: "schemas_request q s (snd (handleListSchemaVersionHistory q name s))"
| version_get: "schemas_request q s (snd (handleGetSchemaVersion q name version s))"
| version_download: "schemas_request q s (snd (handleDownloadSchemaVersion q name version s))"
| upload_preview: "schemas_request q s (snd (handlePreviewSchemaUpload validates q name content s))"
| version_publish: "schemas_request q s (snd (handlePublishSchemaVersion validates q name spbody s))"
| policy_get: "schemas_request q s (snd (handleGetFieldPolicy event_types q name scopeType scopeKey s))"
| policy_list: "schemas_request q s (snd (handleListFieldPolicyAssignments q name s))"
| policy_save: "schemas_request q s (snd (handleSaveFieldPolicy event_types q name fpbody s))"

lemma fleet_find:
  "(\<And>v. res = Inr v \<Longrightarrow> fleet_effect pb pg a s (snd (k v))) \<Longrightarrow> fleet_effect pb pg a s (snd (find_version res m s k))"
  by (auto simp: find_version_def split: sum.split)

lemma map_sum_InrD: "map_sum f id x = Inr y \<Longrightarrow> x = Inr y"
  by (cases x) auto

lemma newFieldPolicy_valid:
  "newFieldPolicy sc n v = Inr p \<Longrightarrow> p = newUnchecked sc n v \<and> validateScope sc = None"
  by (auto simp: newFieldPolicy_def split: option.splits)

text \<open>What a row keeps from the setters: its key and its validity.\<close>

definition row_ok :: "scope \<Rightarrow> string \<Rightarrow> string \<Rightarrow> schemaFieldPolicy \<Rightarrow> bool" where
  "row_ok sc n v p \<longleftrightarrow> policy_ok p \<and> fpScope p = sc \<and> fpSchemaName p = n \<and> fpSchemaVersion p = v"

lemma setters_row_ok:
  "setPolicy f st b p = Inr p' \<Longrightarrow> row_ok sc n v p \<Longrightarrow> row_ok sc n v p'"
  "setPrefillClass f c p = Inr p' \<Longrightarrow> row_ok sc n v p \<Longrightarrow> row_ok sc n v p'"
  "setEvents f evs ve p = Inr p' \<Longrightarrow> row_ok sc n v p \<Longrightarrow> row_ok sc n v p'"
  unfolding row_ok_def
  by (auto dest: setPolicy_ok setPrefillClass_ok setEvents_ok)
    (auto simp: setPolicy_def setPrefillClass_def setEvents_def split: if_splits sum.splits)

lemma save_entries_ok:
  "each_entry (save_state parsed) m p = Inr p' \<Longrightarrow> row_ok sc n v p \<Longrightarrow> row_ok sc n v p'"
  "each_entry save_prefill m p = Inr p' \<Longrightarrow> row_ok sc n v p \<Longrightarrow> row_ok sc n v p'"
  "each_entry (save_events parsed sname ve) es p = Inr p' \<Longrightarrow> row_ok sc n v p \<Longrightarrow> row_ok sc n v p'"
  by (erule each_entry_inv[where P = "row_ok sc n v"];
      auto simp: save_state_def save_prefill_def save_events_def split: if_splits dest!: map_sum_InrD intro: setters_row_ok)+

lemma saved_row_ok:
  assumes "newFieldPolicy sc n v = Inr p0" and "each_entry (save_state parsed) m p0 = Inr p1"
    and "each_entry save_prefill m' p1 = Inr p2" and "each_entry (save_events parsed sname ve) es p2 = Inr p3"
  shows "row_ok sc n v p3"
proof -
  have "row_ok sc n v p0" using newFieldPolicy_valid[OF assms(1)] by (simp add: row_ok_def) (simp add: newUnchecked_def)
  then show ?thesis using assms(2-4) save_entries_ok by metis
qed

lemma requested_scope_ok:
  "(if b then Inr fleetScope else toScope w) = Inr sc \<Longrightarrow> validateScope sc = None \<Longrightarrow> scope_ok sc"
  by (auto split: if_splits intro: toScope_ok) (simp add: scope_ok_def fleetScope_def trim_space_Nil)

lemma schemas_request_effect: "schemas_request q s s' \<Longrightarrow> fleet_effect pb (oqPg q) (by_config q s) s s'"
proof (induction rule: schemas_request.induct)
  case latest_list
  show ?case unfolding handleListLatestSchemaVersions_def by (rule fleet_signed_in, rule fleet_check) simp
next
  case (version_history name)
  show ?case unfolding handleListSchemaVersionHistory_def by (rule fleet_signed_in, rule fleet_check) simp
next
  case (version_get name version)
  show ?case unfolding handleGetSchemaVersion_def by (rule fleet_signed_in, rule fleet_find, rule fleet_check) simp
next
  case (version_download name version)
  show ?case unfolding handleDownloadSchemaVersion_def by (rule fleet_signed_in, rule fleet_find) simp
next
  case (upload_preview validates name content)
  show ?case unfolding handlePreviewSchemaUpload_def Let_def
    by (intro fleet_manager fleet_decode fleet_sum) (simp_all split: sum.split)
next
  case (version_publish validates name spbody)
  show ?case unfolding handlePublishSchemaVersion_def
    by (rule fleet_config, rule fleet_decode, split if_split, intro conjI impI, simp, intro fleet_sum fleet_check fleet_put_value)
      (auto intro: office_step.schema_version)
next
  case (policy_get event_types name scopeType scopeKey)
  show ?case unfolding handleGetFieldPolicy_def
    by (rule fleet_signed_in, intro fleet_check fleet_find) (auto intro: fleet_check)
next
  case (policy_list name)
  show ?case unfolding handleListFieldPolicyAssignments_def by (rule fleet_signed_in, rule fleet_check) simp
next
  case (policy_save event_types name fpbody)
  have saved: "office_step pb (oqPg q) (ofStore s) st"
    if "saveFieldPolicy (oqPg q) p (ofStore s) = Inr st" "row_ok sc n v p" "scope_ok sc" for p st sc n v
    using that by (intro office_step.configuration config_step.policy) (auto simp: row_ok_def)
  show ?case unfolding handleSaveFieldPolicy_def
  proof (intro fleet_manager fleet_find fleet_check fleet_decode, goal_cases)
    case (1 u latest parsed r sc p0 p1 p2 v)
    obtain types ve where v: "v = (types, ve)" by fastforce
    have "scope_ok sc" using requested_scope_ok[OF 1(6)] newFieldPolicy_valid[OF 1(7)] by simp
    then show ?case unfolding v prod.case
      by (intro fleet_check fleet_put_value) (auto intro!: saved[OF _ saved_row_ok[OF 1(7,8,9)]] split: sum.split)
  qed
qed

section \<open>A published version stays\<close>

lemma publication_answered:
  assumes "handlePublishSchemaVersion validates q name (Some r) s = (Inr (c, view), s')"
  obtains u source sv where "osigned_in q s u" "canManageConfig u" "validates (spContent r)"
    "publishVersion (oqUUID q 0) (oqNow q) name (spVersion r) source (spContent r) (ouID u) = Inr sv"
    "createSchemaVersion (oqPg q) sv (ofStore s) = Inr (ofStore s')"
    "toSchemaVersionSummaryView q sv = Inr view"
  using assms
  by (cases "latestSchemaVersion (oqSorter q) name (ofStore s)")
    (auto simp: handlePublishSchemaVersion_def succeeded oauthenticatedUser_Inr split: if_splits)

lemma publishVersion_sel:
  "publishVersion uuid now n v source content u = Inr sv \<Longrightarrow>
   svSchemaName sv = trim_space n \<and> svVersion sv = trim_space v \<and> svContent sv = content"
  by (auto simp: publishVersion_def Let_def split: if_splits option.splits)

lemma summary_sel:
  "toSchemaVersionSummaryView q sv = Inr view \<Longrightarrow> ssvSchemaName view = svSchemaName sv \<and> ssvVersion view = svVersion sv"
  by (auto simp: toSchemaVersionSummaryView_def map_sum_Inr)

lemma version_row_stays:
  assumes "createSchemaVersion pg sv st = Inr st1" and "office_later st1 st2"
  shows "\<exists>sv'. getSchemaVersion (svSchemaName sv) (svVersion sv) st2 = Inr sv' \<and> svContent sv' = svContent sv"
proof -
  let ?P = "\<lambda>x. svSchemaName (srItem x) = svSchemaName sv \<and> svVersion (srItem x) = svVersion sv"
  let ?row = "\<lparr>srSeq = osNextSchemaVersion st, srVesselID = '''', srItem = sv\<lparr>svPublishedAt := pgTime pg (svPublishedAt sv)\<rparr>\<rparr>"
  have new: "\<forall>x \<in> set (osSchemaVersions st). \<not> ?P x" and rows: "osSchemaVersions st1 = osSchemaVersions st @ [?row]"
    using assms(1) by (auto simp: createSchemaVersion_def list_ex_iff split: if_splits)
  obtain us where "map (tag id) (osSchemaVersions st2) = map (tag id) (osSchemaVersions st1) @ us"
    using assms(2) by (auto simp: office_later_def grows_def)
  then obtain xs ys where later: "osSchemaVersions st2 = xs @ ys" "map (tag id) xs = map (tag id) (osSchemaVersions st1)"
    by (auto simp: map_eq_append_conv)
  have tag: "tag id a = tag id b \<longleftrightarrow> a = b" for a b :: "schemaVersionRow streamRow" by (cases a; cases b) (auto simp: tag_def)
  have "xs = osSchemaVersions st1"
    using later(2) by (intro list.inj_map_strong[of _ _ "tag id" "tag id"]) (simp_all add: tag)
  moreover have "List.find ?P (osSchemaVersions st) = None" using new by (simp add: find_None_iff)
  ultimately have "List.find ?P (osSchemaVersions st2) = Some ?row" unfolding later(1) by (simp add: rows find_append)
  then show ?thesis by (simp add: getSchemaVersion_def)
qed

lemma taken_version_refused:
  assumes "getSchemaVersion (trim_space n) (trim_space v) (ofStore s) = Inr sv'"
    and "handlePublishSchemaVersion validates q n (Some r) s = (Inr x, s')" and "trim_space (spVersion r) = trim_space v"
  shows False
proof -
  obtain c view where x: "x = (c, view)" by fastforce
  show False using assms(2)[unfolded x]
  proof (rule publication_answered)
    fix u source sv
    assume sv: "publishVersion (oqUUID q 0) (oqNow q) n (spVersion r) source (spContent r) (ouID u) = Inr sv"
      "createSchemaVersion (oqPg q) sv (ofStore s) = Inr (ofStore s')"
    have "\<exists>x \<in> set (osSchemaVersions (ofStore s)). svSchemaName (srItem x) = svSchemaName sv \<and> svVersion (srItem x) = svVersion sv"
      using assms(1,3) publishVersion_sel[OF sv(1)] by (auto simp: getSchemaVersion_def split: option.splits dest!: find_SomeD)
    then show False using sv(2) by (auto simp: createSchemaVersion_def list_ex_iff split: if_splits)
  qed
qed

section \<open>What a saved field policy holds\<close>

lemma text_of_class [simp]:
  "policy_state_text (to_policy_state t) = t" "prefill_text (to_prefill_class t) = t"
  by (simp_all add: policy_state_text_def to_policy_state_def prefill_text_def to_prefill_class_def)

lemma text_of_scope [simp]: "scope_type_text (to_scope_type t) = t"
  by (simp add: scope_type_text_def to_scope_type_def)

lemma states_saved:
  assumes "each_entry (save_state parsed) m p = Inr p'" and "distinct (map fst m)"
  shows "fpEvents p' = fpEvents p \<and> fpPrefill p' = fpPrefill p \<and>
    gm_lookup (fpPolicy p') f = (case gm_lookup m f of
      Some t \<Rightarrow> if open_field parsed f then Some (to_policy_state t) else gm_lookup (fpPolicy p) f
    | None \<Rightarrow> gm_lookup (fpPolicy p) f)"
  using assms
proof (induction m arbitrary: p)
  case (Cons e m)
  obtain n t where e: "e = (n, t)" by fastforce
  obtain p1 where p1: "save_state parsed e p = Inr p1" "each_entry (save_state parsed) m p1 = Inr p'"
    using Cons.prems(1) by (auto split: sum.splits)
  have step: "fpEvents p1 = fpEvents p \<and> fpPrefill p1 = fpPrefill p \<and>
      gm_lookup (fpPolicy p1) f = (if f = n \<and> open_field parsed n then Some (to_policy_state t) else gm_lookup (fpPolicy p) f)"
    using p1(1) by (auto simp: save_state_def e setPolicy_def dest!: map_sum_InrD split: if_splits)
  have "n \<notin> fst ` set m" using Cons.prems(2) by (auto simp: e)
  then have "gm_lookup m n = None" by (induction m) auto
  then show ?case using Cons.IH[OF p1(2)] Cons.prems(2) step by (auto simp: e split: option.splits)
qed simp

lemma prefills_saved:
  assumes "each_entry save_prefill m p = Inr p'" and "distinct (map fst m)"
  shows "fpEvents p' = fpEvents p \<and> fpPolicy p' = fpPolicy p \<and>
    gm_lookup (fpPrefill p') f = (case gm_lookup m f of
      Some t \<Rightarrow> if t = ''none'' then None else Some (to_prefill_class t)
    | None \<Rightarrow> gm_lookup (fpPrefill p) f)"
  using assms
proof (induction m arbitrary: p)
  case (Cons e m)
  obtain n t where e: "e = (n, t)" by fastforce
  obtain p1 where p1: "save_prefill e p = Inr p1" "each_entry save_prefill m p1 = Inr p'"
    using Cons.prems(1) by (auto split: sum.splits)
  have none: "to_prefill_class t = PrefillNone \<longleftrightarrow> t = ''none''" by (simp add: to_prefill_class_def)
  have step: "fpEvents p1 = fpEvents p \<and> fpPolicy p1 = fpPolicy p \<and> gm_lookup (fpPrefill p1) f =
      (if f = n then if t = ''none'' then None else Some (to_prefill_class t) else gm_lookup (fpPrefill p) f)"
    using p1(1) by (auto simp: save_prefill_def e setPrefillClass_def none dest!: map_sum_InrD split: if_splits)
  have "n \<notin> fst ` set m" using Cons.prems(2) by (auto simp: e)
  then have "gm_lookup m n = None" by (induction m) auto
  then show ?case using Cons.IH[OF p1(2)] Cons.prems(2) step by (auto simp: e split: option.splits)
qed simp

lemma scan_events_wildcard: "scan_events ve evs = Inr w \<Longrightarrow> w \<longleftrightarrow> allEvents \<in> set evs"
  by (induction evs) (auto split: if_splits)

lemma events_saved:
  assumes "each_entry (save_events parsed sname ve) m p = Inr p'" and "distinct (map fst m)"
  shows "fpPrefill p' = fpPrefill p \<and> fpPolicy p' = fpPolicy p \<and>
    gm_lookup (fpEvents p') f = (case gm_lookup m f of
      Some evs \<Rightarrow> if \<not> open_field parsed f then gm_lookup (fpEvents p) f
        else if evs = [] \<or> allEvents \<in> set evs then None else Some evs
    | None \<Rightarrow> gm_lookup (fpEvents p) f)"
  using assms
proof (induction m arbitrary: p)
  case (Cons e m)
  obtain n evs where e: "e = (n, evs)" by fastforce
  obtain p1 where p1: "save_events parsed sname ve e p = Inr p1" "each_entry (save_events parsed sname ve) m p1 = Inr p'"
    using Cons.prems(1) by (auto split: sum.splits)
  have step: "fpPrefill p1 = fpPrefill p \<and> fpPolicy p1 = fpPolicy p \<and> gm_lookup (fpEvents p1) f =
      (if f = n \<and> open_field parsed n then if evs = [] \<or> allEvents \<in> set evs then None else Some evs else gm_lookup (fpEvents p) f)"
    using p1(1) by (auto simp: save_events_def e setEvents_def dest!: map_sum_InrD scan_events_wildcard split: if_splits sum.splits)
  have "n \<notin> fst ` set m" using Cons.prems(2) by (auto simp: e)
  then have "gm_lookup m n = None" by (induction m) auto
  then show ?case using Cons.IH[OF p1(2)] Cons.prems(2) step by (auto simp: e split: option.splits)
qed simp

lemma save_answered:
  assumes "handleSaveFieldPolicy event_types q name (Some r) s = (Inr (c, view), s')"
  obtains latest parsed sc p0 p1 p2 p3 types ve detail where
    "latestSchemaVersion (oqSorter q) name (ofStore s) = Inr latest" "parse_version q latest = Inr parsed"
    "(if swType (sfrScope r) = '''' then Inr fleetScope else toScope (sfrScope r)) = Inr sc"
    "newFieldPolicy sc name (svVersion latest) = Inr p0" "each_entry (save_state parsed) (sfrPolicy r) p0 = Inr p1"
    "each_entry save_prefill (sfrPrefill r) p1 = Inr p2" "eventVocabulary event_types parsed = Inr (types, ve)"
    "each_entry (save_events parsed name ve) (sfrEvents r) p2 = Inr p3"
    "saveFieldPolicy (oqPg q) p3 (ofStore s) = Inr (ofStore s')" "toSchemaDetailView q latest = Inr detail"
    "view = policy_view name latest sc detail p3 types None"
  using assms
  by (cases "latestSchemaVersion (oqSorter q) name (ofStore s)")
    (auto simp: handleSaveFieldPolicy_def find_version_def succeeded requireConfigManager_Inr split: prod.splits if_splits)

lemma save_exact:
  assumes "handleSaveFieldPolicy event_types q name (Some r) s = (Inr (c, view), s')"
    and "distinct (map fst (sfrPolicy r))" and "distinct (map fst (sfrPrefill r))" and "distinct (map fst (sfrEvents r))"
  shows "\<exists>latest parsed. latestSchemaVersion (oqSorter q) name (ofStore s) = Inr latest \<and>
    oqParse q (svContent latest) = Some parsed \<and>
    gm_lookup (fpvPolicy view) f = (if open_field parsed f then gm_lookup (sfrPolicy r) f else None) \<and>
    gm_lookup (fpvPrefill view) f = (case gm_lookup (sfrPrefill r) f of Some t \<Rightarrow> if t = ''none'' then None else Some t | None \<Rightarrow> None) \<and>
    gm_lookup (fpvEvents view) f = (case gm_lookup (sfrEvents r) f of
      Some evs \<Rightarrow> if open_field parsed f \<and> evs \<noteq> [] \<and> allEvents \<notin> set evs then Some evs else None | None \<Rightarrow> None)"
proof -
  obtain latest parsed sc p0 p1 p2 p3 types ve detail where a:
      "latestSchemaVersion (oqSorter q) name (ofStore s) = Inr latest" "parse_version q latest = Inr parsed"
      "newFieldPolicy sc name (svVersion latest) = Inr p0" "each_entry (save_state parsed) (sfrPolicy r) p0 = Inr p1"
      "each_entry save_prefill (sfrPrefill r) p1 = Inr p2" "each_entry (save_events parsed name ve) (sfrEvents r) p2 = Inr p3"
      "view = policy_view name latest sc detail p3 types None"
    using save_answered[OF assms(1)] by metis
  have p0: "fpPolicy p0 = []" "fpPrefill p0 = []" "fpEvents p0 = []"
    using newFieldPolicy_valid[OF a(3)] by (simp_all add: newUnchecked_def)
  have "oqParse q (svContent latest) = Some parsed" using a(2) by (auto simp: parse_version_def split: option.splits)
  then show ?thesis
    using a(1) states_saved[OF a(4) assms(2), of f] prefills_saved[OF a(5) assms(3), of f] events_saved[OF a(6) assms(4), of f]
    by (auto simp: a(7) policy_view_def stringifyPolicy_def stringifyPrefill_def p0 split: option.splits)
qed

text \<open>Reading the screen again shows what was saved.\<close>

lemma toScope_view: "scope_ok sc \<Longrightarrow> toScope (toScopeView sc) = Inr sc"
  by (cases sc; cases "scType sc")
    (auto simp: toScope_def toScopeView_def scope_type_text_def to_scope_type_def scope_ok_def validateScope_def fleetScope_def
      groupScope_def vesselScope_def Let_def split: if_splits)

lemma saved_policy_shown:
  assumes "handleSaveFieldPolicy event_types q name (Some r) s = (Inr (c, view), s')"
    and "osigned_in q' s' u" and "oqSorter q' = oqSorter q" and "oqParse q' = oqParse q"
    and "\<not> (fpvPolicy view = [] \<and> fpvPrefill view = [] \<and> fpvEvents view = [])"
  shows "handleGetFieldPolicy event_types q' name (swType (fpvScope view)) (swKey (fpvScope view)) s' = (Inr (StatusOK, view), s')"
proof -
  obtain latest parsed sc p0 p1 p2 p3 types ve detail where a:
      "latestSchemaVersion (oqSorter q) name (ofStore s) = Inr latest" "parse_version q latest = Inr parsed"
      "(if swType (sfrScope r) = '''' then Inr fleetScope else toScope (sfrScope r)) = Inr sc"
      "newFieldPolicy sc name (svVersion latest) = Inr p0" "each_entry (save_state parsed) (sfrPolicy r) p0 = Inr p1"
      "each_entry save_prefill (sfrPrefill r) p1 = Inr p2" "eventVocabulary event_types parsed = Inr (types, ve)"
      "each_entry (save_events parsed name ve) (sfrEvents r) p2 = Inr p3"
      "saveFieldPolicy (oqPg q) p3 (ofStore s) = Inr (ofStore s')" "toSchemaDetailView q latest = Inr detail"
      "view = policy_view name latest sc detail p3 types None"
    using save_answered[OF assms(1)] by metis
  have ok: "scope_ok sc" using requested_scope_ok[OF a(3)] newFieldPolicy_valid[OF a(4)] by simp
  have key: "fp_key p3 = (sc, name, svVersion latest)"
    using saved_row_ok[OF a(4,5,6,8)] by (simp add: row_ok_def fp_key_def)
  have store: "osPolicies (ofStore s') = upsert_by fp_key (p3\<lparr>fpUpdatedAt := pgTime (oqPg q) (fpUpdatedAt p3)\<rparr>) (osPolicies (ofStore s))"
      "osSchemaVersions (ofStore s') = osSchemaVersions (ofStore s)"
    using a(9) by (auto simp: saveFieldPolicy_def map_sum_Inr dest: save_scoped_Inr)
  have load: "loadFieldPolicy sc name (svVersion latest) (ofStore s') = p3\<lparr>fpUpdatedAt := pgTime (oqPg q) (fpUpdatedAt p3)\<rparr>"
    using key by (simp add: loadFieldPolicy_def store(1) find_row_upsert_by fp_key_def)
  have empty: "\<not> (fpPolicy p3 = [] \<and> fpPrefill p3 = [] \<and> fpEvents p3 = [])"
    using assms(5) by (auto simp: a(11) policy_view_def stringifyPolicy_def stringifyPrefill_def gm_map_def)
  then have shown: "shown_policy q' sc name latest (ofStore s') = Inr (p3\<lparr>fpUpdatedAt := pgTime (oqPg q) (fpUpdatedAt p3)\<rparr>, None)"
    by (auto simp: shown_policy_def load Let_def)
  have scope: "scopeFromQuery (swType (toScopeView sc)) (swKey (toScopeView sc)) = Inr sc"
    using toScope_view[OF ok] ok
    by (auto simp: scopeFromQuery_def toScopeView_def scope_type_text_def scope_ok_def validateScope_def split: scopeType.splits)
  have same: "latestSchemaVersion (oqSorter q') name (ofStore s') = Inr latest" "parse_version q' latest = Inr parsed"
      "toSchemaDetailView q' latest = Inr detail"
    using a(1,2,10) assms(3,4)
    by (simp_all add: latestSchemaVersion_def listSchemaVersions_def store(2) parse_version_def toSchemaDetailView_def)
  show ?thesis
    using osigned_in_passes[OF assms(2), where ?'a = schemas_error]
    by (simp add: handleGetFieldPolicy_def andthen_def check_value_def find_version_def same a(7) shown scope a(11)
        policy_view_def writeJSON_def)
qed

text \<open>But a save that leaves nothing set is not seen as one: the migration of the previous version is offered again.\<close>

lemma empty_save_migrates:
  assumes "fpPolicy p = []" and "fpPrefill p = []" and "fpEvents p = []" and "fp_key p = (sc, name, svVersion latest)"
    and "saveFieldPolicy pg p st = Inr st'" and "listSchemaVersions (oqSorter q) name st = latest # previous # older"
  shows "shown_policy q sc name latest st' = map_sum id (\<lambda>(p, m). (p, Some m)) (buildMigration q sc name latest previous st')"
proof -
  have store: "osPolicies st' = upsert_by fp_key (p\<lparr>fpUpdatedAt := pgTime pg (fpUpdatedAt p)\<rparr>) (osPolicies st)"
      "osSchemaVersions st' = osSchemaVersions st"
    using assms(5) by (auto simp: saveFieldPolicy_def map_sum_Inr dest: save_scoped_Inr)
  have "loadFieldPolicy sc name (svVersion latest) st' = p\<lparr>fpUpdatedAt := pgTime pg (fpUpdatedAt p)\<rparr>"
    using assms(4) by (simp add: loadFieldPolicy_def store(1) find_row_upsert_by fp_key_def)
  moreover have "listSchemaVersions (oqSorter q) name st' = latest # previous # older"
    using assms(6) by (simp add: listSchemaVersions_def store(2))
  ultimately show ?thesis using assms(1-3) by (simp add: shown_policy_def)
qed

end
