(* ===== verification/OfficeReports.thy ===== *)
theory OfficeReports
  imports OfficeSettings
begin

text \<open>
  The reports explorer of the office (\<open>office/httpapi/reports.go\<close>): the filter of a request, the list with its health cells, one
  report with its versions and events; and the reports the office writes itself (\<open>commercial.go\<close>).

  Lemmas: the caches of the health evaluator change no cell; a cell counts what a vessel with the live configuration finds itself; what
  a commercial report leaves in the store.
\<close>

section \<open>Query parameters\<close>

text \<open>\<open>time.Parse(time.RFC3339, s)\<close>: a fraction of the second may follow, of which nine digits count.\<close>

fun fraction_digits :: "string \<Rightarrow> string \<times> string" where
  "fraction_digits (m # d # s) =
     (if (m = CHR ''.'' \<or> m = CHR '','') \<and> is_digit d then (takeWhile is_digit (d # s), dropWhile is_digit (d # s))
      else ('''', m # d # s))"
| "fraction_digits s = ('''', s)"

definition parse_fraction :: "string \<Rightarrow> int \<times> string" where
  "parse_fraction s =
     (case fraction_digits s of (ds, rest) \<Rightarrow>
        (fold (\<lambda>c n. n * 10 + digit_val c) (take 9 (ds @ replicate 9 (CHR ''0''))) 0, rest))"

text \<open>The zone is \<open>Z\<close>, or a sign with hours and minutes; its offset is in minutes.\<close>

fun parse_zone :: "string \<Rightarrow> int option" where
  "parse_zone [z] = (if z = CHR ''Z'' then Some 0 else None)"
| "parse_zone [sg, a, b, c, d, e] =
     (if \<not> list_all is_digit [a, b, d, e] \<or> c \<noteq> CHR '':'' then None
      else let h = digit_val a * 10 + digit_val b; m = digit_val d * 10 + digit_val e in
        if 24 < h \<or> 60 < m then None
        else if sg = CHR ''+'' then Some (h * 60 + m)
        else if sg = CHR ''-'' then Some (- (h * 60 + m)) else None)"
| "parse_zone _ = None"

definition number_in :: "int \<Rightarrow> int \<Rightarrow> (int \<times> string) option \<Rightarrow> (int \<times> string) option" where
  "number_in lo hi x = (case x of None \<Rightarrow> None | Some (n, s) \<Rightarrow> if n < lo \<or> hi < n then None else Some (n, s))"

definition parse_rfc3339 :: "string \<Rightarrow> gotime option" where
  "parse_rfc3339 s =
     Option.bind (getyear s) (\<lambda>(y, s).
     Option.bind (skip_char (CHR ''-'') s) (\<lambda>s.
     Option.bind (number_in 1 12 (getnum s True)) (\<lambda>(mo, s).
     Option.bind (skip_char (CHR ''-'') s) (\<lambda>s.
     Option.bind (getnum s True) (\<lambda>(d, s).
     Option.bind (skip_char (CHR ''T'') s) (\<lambda>s.
     Option.bind (number_in 0 23 (getnum s False)) (\<lambda>(h, s).
     Option.bind (skip_char (CHR '':'') s) (\<lambda>s.
     Option.bind (number_in 0 59 (getnum s True)) (\<lambda>(mi, s).
     Option.bind (skip_char (CHR '':'') s) (\<lambda>s.
     Option.bind (number_in 0 59 (getnum s True)) (\<lambda>(sec, s).
     (case parse_fraction s of (ns, s) \<Rightarrow>
     Option.bind (parse_zone s) (\<lambda>off.
       if d < 1 \<or> days_in mo y < d then None
       else Some (time_date y mo d h mi + sec * second + ns - off * minute))))))))))))))"

text \<open>\<open>strconv.ParseBool\<close>.\<close>

definition parse_bool :: "string \<Rightarrow> bool option" where
  "parse_bool s =
     (if s \<in> {''1'', ''t'', ''T'', ''true'', ''TRUE'', ''True''} then Some True
      else if s \<in> {''0'', ''f'', ''F'', ''false'', ''FALSE'', ''False''} then Some False else None)"

datatype reports_error =
    ReportsStore ostore_error
  | ReportsScope compliance_error
  | ReportsDomain domain_error
  | ReportsParse string string
  | ReportsQuery string string

type_synonym 'a reports_step = "(reports_error failure + 'a) \<times> officeServer"
type_synonym 'a reports_handled = "(reports_error, 'a, officeServer) handled"

text \<open>A parameter that is absent is empty.\<close>

record reportQuery =
  rqVesselID :: string
  rqGroup :: string
  rqState :: string
  rqEventType :: string
  rqSchema :: string
  rqDateFrom :: string
  rqDateTo :: string
  rqInvalidatedOnly :: string
  rqHasRemarks :: string

definition text_param :: "string \<Rightarrow> string option" where
  "text_param v = (if v = '''' then None else Some v)"

definition parsed_param :: "string \<Rightarrow> (string \<Rightarrow> 'v option) \<Rightarrow> string \<Rightarrow> reports_error + 'v option" where
  "parsed_param name parse v =
     (if v = '''' then Inr None else case parse v of None \<Rightarrow> Inl (ReportsQuery name v) | Some x \<Rightarrow> Inr (Some x))"

definition parseReportFilter :: "reportQuery \<Rightarrow> reports_error + reportFilter" where
  "parseReportFilter p =
     (let f = no_filter\<lparr>rfVesselID := text_param (rqVesselID p), rfGroupID := text_param (rqGroup p),
                rfState := text_param (rqState p), rfEventType := text_param (rqEventType p),
                rfSchemaName := text_param (rqSchema p)\<rparr> in
      case parsed_param ''dateFrom'' parse_rfc3339 (rqDateFrom p) of Inl e \<Rightarrow> Inl e | Inr t1 \<Rightarrow>
      (case parsed_param ''dateTo'' parse_rfc3339 (rqDateTo p) of Inl e \<Rightarrow> Inl e | Inr t2 \<Rightarrow>
      (case parsed_param ''invalidatedOnly'' parse_bool (rqInvalidatedOnly p) of Inl e \<Rightarrow> Inl e | Inr b1 \<Rightarrow>
      (case parsed_param ''hasRemarks'' parse_bool (rqHasRemarks p) of Inl e \<Rightarrow> Inl e | Inr b2 \<Rightarrow>
        Inr (f\<lparr>rfDateFrom := t1, rfDateTo := t2, rfInvalidatedOnly := b1, rfHasRemarks := b2\<rparr>)))))"

section \<open>Health\<close>

record healthView =
  hvErrors :: nat
  hvWarnings :: nat

record healthContext =
  hcSchema :: schema
  hcPolicy :: fieldPolicy
  hcEvents :: fieldEvents
  hcCfg :: config

definition loadSchemaHealthContext ::
  "officeReq \<Rightarrow> ostore \<Rightarrow> string \<Rightarrow> string \<Rightarrow> string list \<Rightarrow> reports_error + healthContext" where
  "loadSchemaHealthContext q st sname vesselID vesselGroups =
     (case latestSchemaVersion (oqSorter q) sname st of
        Inl e \<Rightarrow> Inl (ReportsStore e)
      | Inr latest \<Rightarrow>
     (case oqParse q (svContent latest) of
        None \<Rightarrow> Inl (ReportsParse sname (svVersion latest))
      | Some sch \<Rightarrow>
     (case listFieldPolicyAssignments (ordPolicies (oqOrders q)) sname (svVersion latest) st of
        Inl e \<Rightarrow> Inl (ReportsScope e)
      | Inr assignments \<Rightarrow>
          let eff = effectiveFieldPolicy assignments vesselID vesselGroups sname (svVersion latest) in
     (case validationConfigForVessel (ordSeverities (oqOrders q)) sname vesselID vesselGroups st of
        Inl e \<Rightarrow> Inl (ReportsScope e)
      | Inr cfg \<Rightarrow> Inr \<lparr>hcSchema = sch, hcPolicy = fpPolicy eff, hcEvents = fpEvents eff, hcCfg = cfg\<rparr>))))"

text \<open>The two rule families of a single report.\<close>

definition report_findings :: "healthContext \<Rightarrow> vreport \<Rightarrow> findings" where
  "report_findings hc vr =
     evaluateFieldRules vr (hcSchema hc) (hcPolicy hc) (hcEvents hc) @ evaluatePlausibilityRules vr (Some (hcCfg hc)) None"

definition count_health :: "findings \<Rightarrow> healthView" where
  "count_health fs =
     \<lparr>hvErrors = length (filter (\<lambda>f. Severity f = SeverityError) fs),
      hvWarnings = length (filter (\<lambda>f. Severity f = SeverityWarning) fs)\<rparr>"

record healthEvaluator =
  evContexts :: "(string, reports_error + healthContext) gomap"
  evGroups :: "(string, string list) gomap"

definition newHealthEvaluator :: healthEvaluator where
  "newHealthEvaluator = \<lparr>evContexts = [], evGroups = []\<rparr>"

definition vesselGroups :: "ostore \<Rightarrow> string \<Rightarrow> healthEvaluator \<Rightarrow> string list \<times> healthEvaluator" where
  "vesselGroups st vesselID ev =
     (case gm_lookup (evGroups ev) vesselID of
        Some g \<Rightarrow> (g, ev)
      | None \<Rightarrow>
          let g = (case getVessel vesselID st of Inl _ \<Rightarrow> [] | Inr v \<Rightarrow> vrGroups v)
          in (g, ev\<lparr>evGroups := gm_update vesselID g (evGroups ev)\<rparr>))"

definition row_health :: "officeReq \<Rightarrow> ostore \<Rightarrow> reportListRow \<Rightarrow> healthEvaluator \<Rightarrow> healthView \<times> healthEvaluator" where
  "row_health q st row ev =
     (let r = rlReport row; key = SchemaName r @ [CHR 0x00] @ rlVesselID row in
      case (case gm_lookup (evContexts ev) key of
              Some hc \<Rightarrow> (hc, ev)
            | None \<Rightarrow>
                (case vesselGroups st (rlVesselID row) ev of (groups, ev) \<Rightarrow>
                   let hc = loadSchemaHealthContext q st (SchemaName r) (rlVesselID row) groups
                   in (hc, ev\<lparr>evContexts := gm_update key hc (evContexts ev)\<rparr>))) of
        (hc, ev) \<Rightarrow>
          (case hc of
             Inl _ \<Rightarrow> \<lparr>hvErrors = 0, hvWarnings = 0\<rparr>
           | Inr hc \<Rightarrow> count_health (report_findings hc (toValidation r)), ev))"

section \<open>The list\<close>

record reportListItemView =
  rivVesselID :: string
  rivVesselName :: string
  rivVesselIMO :: string
  rivReportID :: string
  rivVersionNo :: int
  rivSchemaName :: string
  rivEventType :: string
  rivState :: state
  rivEventTime :: gotime
  rivSubmittedAt :: "gotime option"
  rivReviewed :: bool
  rivHasRemarks :: bool
  rivHealth :: healthView

definition unless_zero :: "gotime \<Rightarrow> gotime option" where
  "unless_zero t = (if is_zero t then None else Some t)"

definition toReportListItemView :: "reportListRow \<Rightarrow> healthView \<Rightarrow> reportListItemView" where
  "toReportListItemView row health = (let r = rlReport row in
     \<lparr>rivVesselID = rlVesselID row, rivVesselName = rlVesselName row, rivVesselIMO = rlVesselIMO row, rivReportID = ReportID r,
      rivVersionNo = VersionNo r, rivSchemaName = SchemaName r, rivEventType = EventType r, rivState = State r,
      rivEventTime = EventTime r, rivSubmittedAt = unless_zero (SubmittedAt r), rivReviewed = rlReviewed row,
      rivHasRemarks = rlHasRemarks row, rivHealth = health\<rparr>)"

fun list_items :: "officeReq \<Rightarrow> ostore \<Rightarrow> reportListRow list \<Rightarrow> healthEvaluator \<Rightarrow> reportListItemView list" where
  "list_items q st [] ev = []"
| "list_items q st (row # rows) ev =
     (case row_health q st row ev of (health, ev) \<Rightarrow> toReportListItemView row health # list_items q st rows ev)"

definition ohandleListReports :: "officeReq \<Rightarrow> reportQuery \<Rightarrow> officeServer \<Rightarrow> reportListItemView list reports_handled" where
  "ohandleListReports q p s =
     andthen (oauthenticatedUser q s) (\<lambda>_ s.
     check_value StatusBadRequest id (parseReportFilter p) s (\<lambda>f.
     check_value StatusInternalServerError ReportsStore (listReports (ordVersions (oqOrders q)) (oqPg q) f (ofStore s)) s (\<lambda>rows.
       writeJSON StatusOK (list_items q (ofStore s) rows newHealthEvaluator) s)))"

section \<open>One report\<close>

record oreportView =
  orpReportID :: string
  orpVersionNo :: int
  orpSchemaName :: string
  orpEventType :: string
  orpEventTime :: gotime
  orpFields :: fields
  orpState :: state
  orpSubmittedAt :: "gotime option"

definition otoReportView :: "report \<Rightarrow> oreportView" where
  "otoReportView r =
     \<lparr>orpReportID = ReportID r, orpVersionNo = VersionNo r, orpSchemaName = SchemaName r, orpEventType = EventType r,
      orpEventTime = EventTime r, orpFields = Fields r, orpState = State r, orpSubmittedAt = unless_zero (SubmittedAt r)\<rparr>"

record reportDetailView =
  rdVesselID :: string
  rdVesselName :: string
  rdVesselIMO :: string
  rdLatest :: oreportView
  rdVersions :: "int list"

definition ohandleGetReport :: "officeReq \<Rightarrow> string \<Rightarrow> string \<Rightarrow> officeServer \<Rightarrow> reportDetailView reports_handled" where
  "ohandleGetReport q vesselID reportID s =
     andthen (oauthenticatedUser q s) (\<lambda>_ s.
       let versions = listReportVersions vesselID reportID (ofStore s) in
       guard (versions = []) StatusNotFound ''report not found'' s (\<lambda>s.
       check_value StatusInternalServerError ReportsStore (getVessel vesselID (ofStore s)) s (\<lambda>v.
         writeJSON StatusOK
           \<lparr>rdVesselID = vrID v, rdVesselName = vrName v, rdVesselIMO = vrIMO v,
            rdLatest = otoReportView (List.last versions), rdVersions = map VersionNo versions\<rparr> s)))"

record oeventView =
  oevVersionNo :: int
  oevType :: event_type
  oevAt :: gotime
  oevActor :: string
  oevDetail :: fields
  oevOrigin :: eventOrigin

definition otoEventViews :: "(event \<times> eventOrigin) list \<Rightarrow> oeventView list" where
  "otoEventViews = map (\<lambda>(e, origin).
     \<lparr>oevVersionNo = evVersionNo e, oevType = evType e, oevAt = evAt e, oevActor = evActor e, oevDetail = evDetail e,
      oevOrigin = origin\<rparr>)"

definition ohandleListReportEvents :: "officeReq \<Rightarrow> string \<Rightarrow> string \<Rightarrow> officeServer \<Rightarrow> oeventView list reports_handled" where
  "ohandleListReportEvents q vesselID reportID s =
     andthen (oauthenticatedUser q s) (\<lambda>_ s.
       writeJSON StatusOK (otoEventViews (listReportAuditEvents (oqSorter q) vesselID reportID (ofStore s))) s)"

definition ohandleListReportVersions :: "officeReq \<Rightarrow> string \<Rightarrow> string \<Rightarrow> officeServer \<Rightarrow> oreportView list reports_handled" where
  "ohandleListReportVersions q vesselID reportID s =
     andthen (oauthenticatedUser q s) (\<lambda>_ s.
       writeJSON StatusOK (map otoReportView (listReportVersions vesselID reportID (ofStore s))) s)"

section \<open>Commercial reports\<close>

definition StatusUnprocessableEntity :: int where "StatusUnprocessableEntity = 422"

definition commercialSchemaLabels :: "(string, string) gomap" where
  "commercialSchemaLabels = [(''commercial-period'', ''Commercial Period''), (''cargo-nomination'', ''Cargo Nomination'')]"

definition requireCommercialEditor :: "officeReq \<Rightarrow> officeServer \<Rightarrow> ('e failure + officeUser) \<times> officeServer" where
  "requireCommercialEditor q s =
     andthen (oauthenticatedUser q s) (\<lambda>user s.
     guard (\<not> canEditCommercialData user) StatusForbidden ''only Commercial Editor may author commercial data'' s (\<lambda>s.
       (Inr user, s)))"

record createCommercialReportRequest =
  ccrVesselID :: string
  ccrFields :: fields

record ofindingView =
  ofvRuleID :: string
  ofvSeverity :: string
  ofvField :: string
  ofvMessage :: message

definition otoFindingViews :: "findings \<Rightarrow> ofindingView list" where
  "otoFindingViews = map (\<lambda>f.
     \<lparr>ofvRuleID = RuleID f, ofvSeverity = severity_text (Severity f), ofvField = Field f, ofvMessage = Message f\<rparr>)"

record createCommercialReportResponse =
  ccrReport :: "oreportView option"
  ccrFindings :: "ofindingView list"

text \<open>The events of the new report, one write each.\<close>

fun put_events ::
  "officeReq \<Rightarrow> string \<Rightarrow> event list \<Rightarrow> officeServer \<Rightarrow> (officeServer \<Rightarrow> 'a reports_step) \<Rightarrow> 'a reports_step" where
  "put_events q v [] s k = k s"
| "put_events q v (e # es) s k =
     put_value ReportsStore (appendReportAuditEvent (oqPg q) v e (oqNow q) OriginOffice (ofStore s)) s (\<lambda>s. put_events q v es s k)"

definition handleCreateCommercialReport ::
  "officeReq \<Rightarrow> string \<Rightarrow> createCommercialReportRequest option \<Rightarrow> officeServer \<Rightarrow> createCommercialReportResponse reports_handled" where
  "handleCreateCommercialReport q sname body s =
     andthen (requireCommercialEditor q s) (\<lambda>user s.
       case gm_lookup commercialSchemaLabels sname of
         None \<Rightarrow> writeError StatusNotFound ''unknown commercial schema'' s
       | Some label \<Rightarrow>
     decode body s (\<lambda>req.
       case getVessel (ccrVesselID req) (ofStore s) of
         Inl e \<Rightarrow>
           if e = OErrNotFound then writeError StatusBadRequest ''unknown vessel'' s
           else writeErrorText StatusInternalServerError (ReportsStore e) s
       | Inr vessel \<Rightarrow>
     check_value StatusInternalServerError id
       (loadSchemaHealthContext q (ofStore s) sname (ccrVesselID req) (vrGroups vessel)) s (\<lambda>hc.
     check_value StatusBadRequest ReportsDomain
       (newReport (oqUUID q 0) (oqNow q) sname label (oqNow q) (ccrFields req) (ouUsername user)) s (\<lambda>(report, createdEvent).
       let findings = report_findings hc (toValidation report) in
       case markReady (oqNow q) findings report of
         (report, readyEvent, Some e) \<Rightarrow>
           writeJSON StatusUnprocessableEntity \<lparr>ccrReport = None, ccrFindings = otoFindingViews findings\<rparr> s
       | (report, readyEvent, None) \<Rightarrow>
     check_value StatusInternalServerError ReportsDomain (submit (oqNow q) (ouUsername user) report) s (\<lambda>(report, submitEvent).
     put_value ReportsStore
       (upsertReportVersion (oqPg q) (ccrVesselID req) report (schemaVersion (hcSchema hc)) (oqNow q) (ofStore s)) s (\<lambda>s.
     put_events q (ccrVesselID req) [createdEvent, readyEvent, submitEvent] s (\<lambda>s.
       writeJSON StatusCreated \<lparr>ccrReport = Some (otoReportView report), ccrFindings = otoFindingViews findings\<rparr> s)))))))"

section \<open>What the requests do\<close>

definition by_commercial :: "officeReq \<Rightarrow> officeServer \<Rightarrow> bool" where
  "by_commercial q s \<longleftrightarrow> (\<exists>u. osigned_in q s u \<and> canEditCommercialData u)"

inductive reports_request :: "officeReq \<Rightarrow> officeServer \<Rightarrow> officeServer \<Rightarrow> bool" for q s where
  explorer: "reports_request q s (snd (ohandleListReports q p s))"
| report_detail: "reports_request q s (snd (ohandleGetReport q v i s))"
| audit_trail: "reports_request q s (snd (ohandleListReportEvents q v i s))"
| version_history: "reports_request q s (snd (ohandleListReportVersions q v i s))"
| commercial_report: "reports_request q s (snd (handleCreateCommercialReport q sname ccbody s))"

lemma fleet_commercial:
  assumes "\<And>u. osigned_in q s u \<Longrightarrow> canEditCommercialData u \<Longrightarrow> fleet_effect pb pg True s (snd (k u s))"
  shows "fleet_effect pb pg (by_commercial q s) s (snd (andthen (requireCommercialEditor q s) k :: ('e failure + 'a) \<times> officeServer))"
proof -
  have split: "andthen (requireCommercialEditor q s) k = andthen (oauthenticatedUser q s) (\<lambda>u s.
      guard (\<not> canEditCommercialData u) StatusForbidden ''only Commercial Editor may author commercial data'' s (k u))"
    by (auto simp: requireCommercialEditor_def andthen_def guard_def writeError_def split: prod.splits sum.splits)
  show ?thesis
    unfolding split
  proof (rule fleet_signed_in)
    fix u assume u: "osigned_in q s u"
    show "fleet_effect pb pg (by_commercial q s) s (snd (guard (\<not> canEditCommercialData u) StatusForbidden
        ''only Commercial Editor may author commercial data'' s (k u)))"
    proof (cases "canEditCommercialData u")
      case True
      then have "by_commercial q s" using u by (auto simp: by_commercial_def)
      then show ?thesis using assms[OF u True] True by simp
    qed simp
  qed
qed

lemma fleet_put_events:
  "(\<And>s. fleet_effect pb (oqPg q) True s (snd (k s))) \<Longrightarrow> fleet_effect pb (oqPg q) True s (snd (put_events q v es s k))"
  by (induction es arbitrary: s) (auto intro!: fleet_put_value intro: office_step.office_event)

lemma reports_request_effect: "reports_request q s s' \<Longrightarrow> fleet_effect pb (oqPg q) (by_commercial q s) s s'"
proof (induction rule: reports_request.induct)
  case (explorer p)
  show ?case unfolding ohandleListReports_def by (intro fleet_signed_in fleet_check) simp
next
  case (report_detail v i)
  show ?case unfolding ohandleGetReport_def Let_def by (intro fleet_signed_in fleet_guard fleet_check) simp
next
  case (audit_trail v i)
  show ?case unfolding ohandleListReportEvents_def by (rule fleet_signed_in) simp
next
  case (version_history v i)
  show ?case unfolding ohandleListReportVersions_def by (rule fleet_signed_in) simp
next
  case (commercial_report sname ccbody)
  show ?case unfolding handleCreateCommercialReport_def
  proof (rule fleet_commercial, split option.split, intro conjI allI impI fleet_decode fleet_sum)
    fix u label req vessel
    show "fleet_effect pb (oqPg q) True s (snd (check_value StatusInternalServerError id
       (loadSchemaHealthContext q (ofStore s) sname (ccrVesselID req) (vrGroups vessel)) s (\<lambda>hc.
     check_value StatusBadRequest ReportsDomain
       (newReport (oqUUID q 0) (oqNow q) sname label (oqNow q) (ccrFields req) (ouUsername u)) s (\<lambda>(report, createdEvent).
       let findings = report_findings hc (toValidation report) in
       case markReady (oqNow q) findings report of
         (report, readyEvent, Some e) \<Rightarrow>
           writeJSON StatusUnprocessableEntity \<lparr>ccrReport = None, ccrFindings = otoFindingViews findings\<rparr> s
       | (report, readyEvent, None) \<Rightarrow>
     check_value StatusInternalServerError ReportsDomain (submit (oqNow q) (ouUsername u) report) s (\<lambda>(report, submitEvent).
     put_value ReportsStore
       (upsertReportVersion (oqPg q) (ccrVesselID req) report (schemaVersion (hcSchema hc)) (oqNow q) (ofStore s)) s (\<lambda>s.
     put_events q (ccrVesselID req) [createdEvent, readyEvent, submitEvent] s (\<lambda>s.
       writeJSON StatusCreated \<lparr>ccrReport = Some (otoReportView report), ccrFindings = otoFindingViews findings\<rparr> s)))))))"
      unfolding Let_def
      by (intro fleet_check)
        (auto split: prod.split option.split intro!: fleet_check fleet_put_value fleet_put_events office_step.commercial
          simp del: put_events.simps)
  qed simp_all
qed

section \<open>The caches of the health evaluator\<close>

definition groups_of :: "ostore \<Rightarrow> string \<Rightarrow> string list" where
  "groups_of st v = (case getVessel v st of Inl _ \<Rightarrow> [] | Inr vr \<Rightarrow> vrGroups vr)"

text \<open>What a cell shows, without caches.\<close>

definition health_of :: "officeReq \<Rightarrow> ostore \<Rightarrow> reportListRow \<Rightarrow> healthView" where
  "health_of q st row =
     (case loadSchemaHealthContext q st (SchemaName (rlReport row)) (rlVesselID row) (groups_of st (rlVesselID row)) of
        Inl _ \<Rightarrow> \<lparr>hvErrors = 0, hvWarnings = 0\<rparr>
      | Inr hc \<Rightarrow> count_health (report_findings hc (toValidation (rlReport row))))"

definition evaluator_ok :: "officeReq \<Rightarrow> ostore \<Rightarrow> healthEvaluator \<Rightarrow> bool" where
  "evaluator_ok q st ev \<longleftrightarrow>
     (\<forall>v g. gm_lookup (evGroups ev) v = Some g \<longrightarrow> g = groups_of st v) \<and>
     (\<forall>k hc. gm_lookup (evContexts ev) k = Some hc \<longrightarrow>
       (\<exists>n v. k = n @ CHR 0x00 # v \<and> CHR 0x00 \<notin> set n \<and> hc = loadSchemaHealthContext q st n v (groups_of st v)))"

lemma vesselGroups_ok:
  assumes "vesselGroups st v ev = (g, ev')" and "evaluator_ok q st ev"
  shows "g = groups_of st v \<and> evaluator_ok q st ev'"
proof (cases "gm_lookup (evGroups ev) v")
  case None
  then have "g = groups_of st v" "ev' = ev\<lparr>evGroups := gm_update v (groups_of st v) (evGroups ev)\<rparr>"
    using assms(1) by (auto simp: vesselGroups_def groups_of_def Let_def)
  then show ?thesis using assms(2) by (auto simp: evaluator_ok_def gm_lookup_update)
qed (use assms in \<open>auto simp: vesselGroups_def evaluator_ok_def\<close>)

lemma key_unique:
  assumes "n @ x # v = n' @ x # v'" and "x \<notin> set n" and "x \<notin> set n'"
  shows "n = n' \<and> v = v'"
proof -
  have "takeWhile (\<lambda>y. y \<noteq> x) (m @ x # w) = m" if "x \<notin> set m" for m w
    using that by (subst takeWhile_append2) auto
  then have "n = n'" using assms by metis
  then show ?thesis using assms(1) by simp
qed

lemma row_health_ok:
  assumes "row_health q st row ev = (h, ev')" and "evaluator_ok q st ev" and "CHR 0x00 \<notin> set (SchemaName (rlReport row))"
  shows "h = health_of q st row \<and> evaluator_ok q st ev'"
proof -
  let ?n = "SchemaName (rlReport row)" and ?v = "rlVesselID row"
  let ?key = "?n @ [CHR 0x00] @ ?v" and ?hc = "loadSchemaHealthContext q st ?n ?v (groups_of st ?v)"
  show ?thesis
  proof (cases "gm_lookup (evContexts ev) ?key")
    case (Some hc)
    then obtain n v where "?key = n @ CHR 0x00 # v" "CHR 0x00 \<notin> set n" "hc = loadSchemaHealthContext q st n v (groups_of st v)"
      using assms(2) unfolding evaluator_ok_def by blast
    then have "hc = ?hc" using key_unique[of ?n "CHR 0x00" ?v n v] assms(3) by simp
    then show ?thesis using assms(1,2) Some by (auto simp: row_health_def health_of_def split: sum.splits)
  next
    case None
    obtain g ev1 where g: "vesselGroups st ?v ev = (g, ev1)" by fastforce
    then have ok: "g = groups_of st ?v" "evaluator_ok q st ev1" using vesselGroups_ok assms(2) by blast+
    then have "evaluator_ok q st (ev1\<lparr>evContexts := gm_update ?key ?hc (evContexts ev1)\<rparr>)"
      using assms(3) unfolding evaluator_ok_def by (auto simp: gm_lookup_update)
    then show ?thesis using assms(1) None g ok by (auto simp: row_health_def health_of_def Let_def split: sum.splits)
  qed
qed

lemma list_items_ok:
  "evaluator_ok q st ev \<Longrightarrow> \<forall>row \<in> set rows. CHR 0x00 \<notin> set (SchemaName (rlReport row)) \<Longrightarrow>
   list_items q st rows ev = map (\<lambda>row. toReportListItemView row (health_of q st row)) rows"
proof (induction rows arbitrary: ev)
  case (Cons row rows)
  obtain h ev' where h: "row_health q st row ev = (h, ev')" by fastforce
  then have "h = health_of q st row \<and> evaluator_ok q st ev'" using row_health_ok Cons.prems by simp
  then show ?case using Cons h by simp
qed simp

lemma new_evaluator_ok: "evaluator_ok q st newHealthEvaluator"
  by (simp add: evaluator_ok_def newHealthEvaluator_def)

section \<open>The cell and the vessel's own check\<close>

lemma evaluateFieldRules_cong:
  assumes "\<And>n. gm_lookup p n = gm_lookup p' n"
  shows "evaluateFieldRules r sch p events = evaluateFieldRules r sch p' events"
proof -
  have "stateForEvent p n m rel events ev = stateForEvent p' n m rel events ev" for n m rel ev
    by (simp add: stateForEvent_def stateFor_def assms)
  then have "evaluateField r p events = evaluateField r p' events" by (intro ext) (simp add: evaluateField_def)
  then show ?thesis by (simp add: evaluateFieldRules_def)
qed

text \<open>The composed policies of a schema's latest version are the rows the office lists for it.\<close>

lemma compose_schemas_policies:
  assumes "compose_schemas q st names = Inr (versions, policies)" and "distinct names" and "n \<in> set names"
    and "latestSchemaVersion (oqSorter q) n st = Inr latest" and wf: "config_wf st" and orders: "faithful_orders q"
  shows "filter (\<lambda>a. fpSchemaName a = n \<and> fpSchemaVersion a = svVersion latest) policies =
      ordPolicies (oqOrders q) (filter (\<lambda>a. fpSchemaName a = n \<and> fpSchemaVersion a = svVersion latest) (osPolicies st))"
    and "List.find (\<lambda>sv. svrSchemaName sv = n) versions =
      Some \<lparr>svrSchemaName = n, svrVersion = svVersion latest, svrID = svID latest\<rparr>"
    and "set policies \<subseteq> set (osPolicies st)"
proof -
  let ?rows = "\<lambda>k w. ordPolicies (oqOrders q) (filter (\<lambda>a. fpSchemaName a = k \<and> fpSchemaVersion a = w) (osPolicies st))"
  have ord: "mset (ordProfiles (oqOrders q) xs) = mset xs" "mset (ordCadence (oqOrders q) ys) = mset ys"
      "mset (ordPolicies (oqOrders q) ws) = mset ws" and sorter: "slice_sort (oqSorter q)" for xs ys ws
    using orders by (simp_all add: faithful_orders_def)
  note listed = list_rows_ok(3)[OF wf ord]
  have members: "set (?rows k w) = {a \<in> set (osPolicies st). fpSchemaName a = k \<and> fpSchemaVersion a = w}" for k w
    using mset_eq_setD[OF ord(3)] by auto
  have latest: "svSchemaName latest = n" using latest_name[OF sorter assms(4)] by simp
  have policies: "set ps \<subseteq> {a \<in> set (osPolicies st). fpSchemaName a \<in> set ns}"
    if "compose_schemas q st ns = Inr (vs, ps)" for ns vs ps
    using that
  proof (induction ns arbitrary: vs ps)
    case (Cons k ns)
    then show ?case by (fastforce simp: listed members split: sum.splits prod.splits)
  qed simp
  then show "set policies \<subseteq> set (osPolicies st)" using assms(1) by blast
  have "filter (\<lambda>a. fpSchemaName a = n \<and> fpSchemaVersion a = svVersion latest) policies = ?rows n (svVersion latest) \<and>
    List.find (\<lambda>sv. svrSchemaName sv = n) versions =
      Some \<lparr>svrSchemaName = n, svrVersion = svVersion latest, svrID = svID latest\<rparr>"
    using assms(1-3)
  proof (induction names arbitrary: versions policies)
    case (Cons m names)
    obtain l vs ps where parts: "latestSchemaVersion (oqSorter q) m st = Inr l" "compose_schemas q st names = Inr (vs, ps)"
        "policies = ?rows m (svVersion l) @ ps"
        "versions = \<lparr>svrSchemaName = svSchemaName l, svrVersion = svVersion l, svrID = svID l\<rparr> # vs"
      using Cons.prems(1) by (auto simp: listed split: sum.splits prod.splits)
    have l: "svSchemaName l = m" using latest_name[OF sorter parts(1)] by simp
    show ?case
    proof (cases "m = n")
      case True
      then have "filter (\<lambda>a. fpSchemaName a = n \<and> fpSchemaVersion a = svVersion latest) ps = []"
        using policies[OF parts(2)] Cons.prems(2) by (auto simp: filter_empty_conv)
      moreover have "filter (\<lambda>a. fpSchemaName a = n \<and> fpSchemaVersion a = svVersion latest) (?rows n (svVersion latest)) =
          ?rows n (svVersion latest)"
        using members by (auto simp: filter_id_conv)
      moreover have "l = latest" using parts(1) assms(4) True by simp
      ultimately show ?thesis using parts(3,4) latest True by simp
    next
      case False
      then have "filter (\<lambda>a. fpSchemaName a = n \<and> fpSchemaVersion a = svVersion latest) (?rows m (svVersion l)) = []"
        using members by (auto simp: filter_empty_conv)
      then show ?thesis using Cons.IH[OF parts(2)] Cons.prems(2,3) False parts(3,4) l by auto
    qed
  qed simp
  then show "filter (\<lambda>a. fpSchemaName a = n \<and> fpSchemaVersion a = svVersion latest) policies = ?rows n (svVersion latest)"
    and "List.find (\<lambda>sv. svrSchemaName sv = n) versions =
      Some \<lparr>svrSchemaName = n, svrVersion = svVersion latest, svrID = svID latest\<rparr>" by blast+
qed

text \<open>What a vessel runs that applied a bundle of the live configuration is what the office evaluates with.\<close>

lemma health_context:
  assumes wf: "config_wf st" and orders: "faithful_orders q" and "composeCurrentBundle q st = Inr c"
    and "publish uuid t (Some c) label by_user = Inr b" and "latestSchemaVersion (oqSorter q) sname st = Inr latest"
    and "oqParse q (svContent latest) = Some sch"
    and "fieldConfigFromBundle (Some (resolveFor (b\<lparr>cbPublishedAt := t'\<rparr>) v gs n)) sname = (policy, events, prefill)"
  obtains hc where "loadSchemaHealthContext q st sname v gs = Inr hc" "hcSchema hc = sch" "hcEvents hc = events"
    "\<And>f. gm_lookup (hcPolicy hc) f = gm_lookup (toFieldPolicy policy) f"
    "hcCfg hc = validationConfigFromBundle (Some (resolveFor (b\<lparr>cbPublishedAt := t'\<rparr>) v gs n)) sname"
proof -
  let ?b = "b\<lparr>cbPublishedAt := t'\<rparr>"
  have ord: "mset (ordProfiles (oqOrders q) xs) = mset xs" "mset (ordCadence (oqOrders q) ys) = mset ys"
      "mset (ordPolicies (oqOrders q) ws) = mset ws" "mset (ordSeverities (oqOrders q) zs) = mset zs"
      and sorter: "slice_sort (oqSorter q)" for xs ys ws zs
    using orders by (simp_all add: faithful_orders_def)
  have b: "cbFieldPolicies ?b = cbFieldPolicies c" "cbSchemaVersions ?b = cbSchemaVersions c" "cbRuleSeverities ?b = cbRuleSeverities c"
    using assms(4) by (auto simp: publish_def Let_def split: if_splits option.splits)
  obtain versions policies where parts: "compose_schemas q st (listSchemaNames st) = Inr (versions, policies)"
      "cbFieldPolicies c = policies" "cbSchemaVersions c = versions"
    using assms(3) by (auto simp: composeCurrentBundle_def compose_def split: sum.splits prod.splits)
  have "sname \<in> set (listSchemaNames st)"
    using latest_name[OF sorter assms(5)] by (auto simp: listSchemaNames_def)
  note composed = compose_schemas_policies[OF parts(1) _ this assms(5) wf orders]
  have distinct: "distinct (listSchemaNames st)" by (simp add: listSchemaNames_def)
  let ?assignments = "ordPolicies (oqOrders q) (filter (\<lambda>a. fpSchemaName a = sname \<and> fpSchemaVersion a = svVersion latest) (osPolicies st))"
  have same: "effectiveFieldPolicy policies v gs sname (svVersion latest) = effectiveFieldPolicy ?assignments v gs sname (svVersion latest)"
  proof -
    have "filter (\<lambda>a. fpSchemaName a = sname \<and> fpSchemaVersion a = svVersion latest) ?assignments = ?assignments"
      using mset_eq_setD[OF ord(3)] by (auto simp: filter_id_conv)
    then show ?thesis unfolding effectiveFieldPolicy_def using composed(1)[OF distinct] by simp
  qed
  have ok: "policy_ok a" if "a \<in> set (cbFieldPolicies ?b)" for a
    using that composed(3)[OF distinct] wf unfolding b parts by (auto simp: config_wf_def)
  have find: "List.find (\<lambda>sv. svrSchemaName sv = sname) (cbSchemaVersions ?b) =
      Some \<lparr>svrSchemaName = sname, svrVersion = svVersion latest, svrID = svID latest\<rparr>"
    unfolding b parts by (rule composed(2)[OF distinct])
  note policy = resolved_policy[OF find ok assms(7), unfolded b parts(2) same schemaVersionRef.select_convs]
  let ?eff = "effectiveFieldPolicy ?assignments v gs sname (svVersion latest)"
  have config: "validationConfigForVessel (ordSeverities (oqOrders q)) sname v gs st =
      Inr (validationConfigFromBundle (Some (resolveFor ?b v gs n)) sname)"
  proof -
    have sevs: "severities_ok a" if "a \<in> set (cbRuleSeverities ?b)" for a
      using that wf mset_eq_setD[OF compose_current(1)[OF assms(3) wf orders]] unfolding b by (auto simp: config_wf_def)
    have vessel: "validationConfigFromBundle (Some (resolveFor ?b v gs n)) sname =
        (validationConfigFor sname)\<lparr>Severities := effectiveSeverities (cbRuleSeverities ?b) v gs\<rparr>"
      by (rule resolved_config) (rule sevs)
    show ?thesis
      unfolding validationConfigForVessel_def list_severities_ok[OF wf ord(4)] vessel b(3) sum.case
        severities_order_irrelevant[OF wf ord(4)] severities_order_irrelevant[OF wf compose_current(1)[OF assms(3) wf orders]] ..
  qed
  have "loadSchemaHealthContext q st sname v gs = Inr \<lparr>hcSchema = sch, hcPolicy = fpPolicy ?eff, hcEvents = fpEvents ?eff,
      hcCfg = validationConfigFromBundle (Some (resolveFor ?b v gs n)) sname\<rparr>"
    by (simp add: loadSchemaHealthContext_def assms(5,6) list_rows_ok(3)[OF wf ord(1,2,3)] config Let_def)
  then show ?thesis
    by (rule that) (simp_all add: policy)
qed

definition continuityRuleIDs :: "string set" where
  "continuityRuleIDs = {RuleTimeChain, RuleROBContinuity, RuleEventOrdering, RuleTimestampUniqueness}"

lemmas rule_id_defs = RuleTimeChain_def RuleROBContinuity_def RuleEventOrdering_def RuleTimestampUniqueness_def
  RuleFieldRequired_def RuleFieldType_def RuleFieldMaxLength_def RuleFieldFormat_def RuleTimeBucketSum_def RuleImpliedSpeed_def
  RuleNoDistanceStationary_def RuleConsumptionSchemeExclusive_def RulePositionRequired_def RulePositionConsistency_def

lemma continuity_rule_ids: "f \<in> set (evaluateContinuity r chain cfg) \<Longrightarrow> RuleID f \<in> continuityRuleIDs"
proof -
  have pass: "RuleID f \<in> continuityRuleIDs" if "f \<in> set (precheck_pass c r prev ms)" for c prev ms
    using that RuleID_continuity
    by (induction c r prev ms rule: precheck_pass.induct) (auto simp: continuityRuleIDs_def split: if_splits)
  have order: "RuleID f \<in> continuityRuleIDs" if "f \<in> set (gm_list (evaluateEventOrdering ms c) i)" for ms c i
    using that RuleID_continuity(3) by (simp add: gm_list_evaluateEventOrdering continuityRuleIDs_def)
  assume "f \<in> set (evaluateContinuity r chain cfg)"
  then show ?thesis using pass order RuleID_continuity(4) by (auto simp: evaluateContinuity_def Let_def continuityRuleIDs_def)
qed

lemma rule_ids:
  "f \<in> set (evaluateTimeBucketSum r cfg) \<Longrightarrow> RuleID f = RuleTimeBucketSum"
  "f \<in> set (evaluateImpliedSpeed r cfg) \<Longrightarrow> RuleID f = RuleImpliedSpeed"
  "f \<in> set (evaluateNoDistanceStationary r cfg) \<Longrightarrow> RuleID f = RuleNoDistanceStationary"
  "f \<in> set (evaluateConsumptionSchemeExclusivity r cfg None) \<Longrightarrow> RuleID f = RuleConsumptionSchemeExclusive"
  "f \<in> set (evaluatePositionRequired r cfg) \<Longrightarrow> RuleID f \<in> {RulePositionRequired, RulePositionConsistency}"
  "f \<in> set (checkFieldFormat r fld) \<Longrightarrow> RuleID f \<in> {RuleFieldType, RuleFieldMaxLength, RuleFieldFormat}"
proof -
  have range: "RuleID f = RulePositionConsistency" if "f \<in> set (check_range r cfg fld bad m)" for fld bad m
    using that by (auto simp: check_range_def positionConsistencyFinding_def split: option.splits if_splits)
  have hemisphere: "RuleID f = RulePositionConsistency" if "f \<in> set (check_hemisphere r cfg fld a b m)" for fld a b m
    using that by (auto simp: check_hemisphere_def positionConsistencyFinding_def split: option.splits if_splits)
  have position: "RuleID f = RulePositionConsistency" if "f \<in> set (positionConsistency r cfg)"
    using that unfolding positionConsistency_def set_append by (elim UnE) (erule range | erule hemisphere)+
  then show "f \<in> set (evaluatePositionRequired r cfg) \<Longrightarrow> RuleID f \<in> {RulePositionRequired, RulePositionConsistency}"
    unfolding evaluatePositionRequired_def Let_def set_append by (elim UnE) (auto split: if_splits)
  have texts: "RuleID f \<in> {RuleFieldType, RuleFieldMaxLength, RuleFieldFormat}" if "f \<in> set (check_text fld v)" for v
    using that by (auto simp: check_text_def typeErr_def Let_def split: option.splits if_splits)
  have times: "RuleID f \<in> {RuleFieldType, RuleFieldMaxLength, RuleFieldFormat}" if "f \<in> set (check_datetime l fld v)" for l v
    using that by (auto simp: check_datetime_def typeErr_def Let_def split: option.splits if_splits)
  show "f \<in> set (checkFieldFormat r fld) \<Longrightarrow> RuleID f \<in> {RuleFieldType, RuleFieldMaxLength, RuleFieldFormat}"
    unfolding checkFieldFormat_def Let_def
    by (cases "fieldType fld"; simp only: field_type.case;
        (erule texts | erule times | (auto simp: typeErr_def split: option.splits if_splits)))
qed (auto simp: evaluateTimeBucketSum_def evaluateImpliedSpeed_def evaluateNoDistanceStationary_def
    evaluateConsumptionSchemeExclusivity_def Let_def split: option.splits prod.splits if_splits)

lemma single_report_rules: "f \<in> set (report_findings hc r) \<Longrightarrow> RuleID f \<notin> continuityRuleIDs"
proof -
  assume "f \<in> set (report_findings hc r)"
  then have "f \<in> set (evaluateFieldRules r (hcSchema hc) (hcPolicy hc) (hcEvents hc)) \<or>
      f \<in> set (evaluatePlausibilityRules r (Some (hcCfg hc)) None)"
    by (simp add: report_findings_def)
  then show ?thesis
  proof
    assume "f \<in> set (evaluateFieldRules r (hcSchema hc) (hcPolicy hc) (hcEvents hc))"
    then obtain fld where "f \<in> set (evaluateField r (hcPolicy hc) (hcEvents hc) fld)" by (auto simp: evaluateFieldRules_def)
    then have "RuleID f \<in> {RuleFieldRequired, RuleFieldType, RuleFieldMaxLength, RuleFieldFormat}"
      using rule_ids(6)[of f r fld] by (auto simp: evaluateField_def Let_def split: if_splits)
    then show ?thesis by (auto simp: continuityRuleIDs_def rule_id_defs)
  next
    assume "f \<in> set (evaluatePlausibilityRules r (Some (hcCfg hc)) None)"
    then have "RuleID f \<in> {RuleTimeBucketSum, RuleImpliedSpeed, RuleNoDistanceStationary, RuleConsumptionSchemeExclusive,
        RulePositionRequired, RulePositionConsistency}"
      unfolding evaluatePlausibilityRules_def Let_def set_append
      using rule_ids(1-5)[of f r "config_or_default (Some (hcCfg hc))"] by blast
    then show ?thesis by (auto simp: continuityRuleIDs_def rule_id_defs)
  qed
qed

text \<open>The cell shows what the vessel's own check finds in the report, but for the rules that need the chain.\<close>

lemma health_is_check:
  assumes "config_wf st" and "faithful_orders q" and "composeCurrentBundle q st = Inr c"
    and "publish uuid t (Some c) label by_user = Inr b" and "latestSchemaVersion (oqSorter q) (SchemaName r) st = Inr latest"
    and "oqParse q (svContent latest) = Some sch" and "envLoad env (SchemaName r) = Some sch"
    and "appliedBundle (envSorter env) (Some vst) = Some (resolveFor (b\<lparr>cbPublishedAt := t'\<rparr>) (rlVesselID row) (groups_of st (rlVesselID row)) n)"
    and "toValidation (rlReport row) = toValidation r" and "evaluateReport env vst r = Inr (findings, rest)"
  shows "health_of q st row = count_health (filter (\<lambda>f. RuleID f \<notin> continuityRuleIDs) findings)"
proof -
  let ?v = "rlVesselID row" and ?gs = "groups_of st (rlVesselID row)"
  let ?w = "resolveFor (b\<lparr>cbPublishedAt := t'\<rparr>) ?v ?gs n"
  obtain policy events prefill where cfg: "fieldConfigFromBundle (Some ?w) (SchemaName r) = (policy, events, prefill)"
    by (cases "fieldConfigFromBundle (Some ?w) (SchemaName r)")
  obtain hc where hc: "loadSchemaHealthContext q st (SchemaName r) ?v ?gs = Inr hc" "hcSchema hc = sch" "hcEvents hc = events"
      "\<And>f. gm_lookup (hcPolicy hc) f = gm_lookup (toFieldPolicy policy) f"
      "hcCfg hc = validationConfigFromBundle (Some ?w) (SchemaName r)"
    by (rule health_context[OF assms(1-6) cfg]) (rule that)
  let ?chain = "evaluateContinuity (toValidation r) (map toValidation (listCommittedChain (envSorter env) (SchemaName r) vst)) (Some (hcCfg hc))"
  have "findings = report_findings hc (toValidation r) @ ?chain"
    using assms(7,8,10) cfg hc evaluateFieldRules_cong[OF hc(4), of "toValidation r" sch events]
    by (auto simp: evaluateReport_def report_findings_def Let_def)
  moreover have "filter (\<lambda>f. RuleID f \<notin> continuityRuleIDs) ?chain = []" using continuity_rule_ids by (auto simp: filter_empty_conv)
  moreover have "filter (\<lambda>f. RuleID f \<notin> continuityRuleIDs) (report_findings hc (toValidation r)) = report_findings hc (toValidation r)"
    using single_report_rules by (auto simp: filter_id_conv)
  moreover have "SchemaName (rlReport row) = SchemaName r" using assms(9) by (simp add: toValidation_def)
  ultimately show ?thesis by (simp add: health_of_def hc(1) assms(9))
qed

section \<open>What a commercial report leaves\<close>

lemma requireCommercialEditor_Inr:
  "requireCommercialEditor q s = (Inr u, s') \<longleftrightarrow> s' = s \<and> osigned_in q s u \<and> canEditCommercialData u"
  by (auto simp: requireCommercialEditor_def succeeded oauthenticatedUser_Inr)

lemma put_events_InrD:
  assumes "put_events q v es s k = (Inr x, s')"
  obtains rows where "k (s\<lparr>ofStore := (ofStore s)\<lparr>osEvents := osEvents (ofStore s) @ rows\<rparr>\<rparr>) = (Inr x, s')"
    "map (\<lambda>r. (arVesselID r, evReportID (arEvent r), evType (arEvent r), arOrigin r)) rows =
     map (\<lambda>e. (v, evReportID e, evType e, OriginOffice)) es"
  using assms
proof (induction es arbitrary: s thesis)
  case Nil
  then show ?case using Nil.prems(1)[of "[]"] by simp
next
  case (Cons e es)
  obtain st where st: "appendReportAuditEvent (oqPg q) v e (oqNow q) OriginOffice (ofStore s) = Inr st"
      and rest: "put_events q v es (s\<lparr>ofStore := st\<rparr>) k = (Inr x, s')"
    using Cons.prems(2) by (auto simp: put_value_succeeded)
  obtain row where row: "st = (ofStore s)\<lparr>osEvents := osEvents (ofStore s) @ [row]\<rparr>"
      "(arVesselID row, evReportID (arEvent row), evType (arEvent row), arOrigin row) = (v, evReportID e, evType e, OriginOffice)"
    using st by (auto simp: appendReportAuditEvent_def Let_def split: option.splits if_splits)
  obtain rows where rows: "k ((s\<lparr>ofStore := st\<rparr>)\<lparr>ofStore := st\<lparr>osEvents := osEvents st @ rows\<rparr>\<rparr>) = (Inr x, s')"
      "map (\<lambda>r. (arVesselID r, evReportID (arEvent r), evType (arEvent r), arOrigin r)) rows =
       map (\<lambda>e. (v, evReportID e, evType e, OriginOffice)) es"
    using Cons.IH[OF _ rest] by auto
  show ?case using rows row by (intro Cons.prems(1)[of "row # rows"]) simp_all
qed

lemma commercial_answered:
  assumes "handleCreateCommercialReport q sname (Some req) s = (Inr (c, resp), s')"
  obtains u label vessel hc draft created where "osigned_in q s u" "canEditCommercialData u"
    "gm_lookup commercialSchemaLabels sname = Some label" "getVessel (ccrVesselID req) (ofStore s) = Inr vessel"
    "loadSchemaHealthContext q (ofStore s) sname (ccrVesselID req) (vrGroups vessel) = Inr hc"
    "newReport (oqUUID q 0) (oqNow q) sname label (oqNow q) (ccrFields req) (ouUsername u) = Inr (draft, created)"
    "ccrFindings resp = otoFindingViews (report_findings hc (toValidation draft))"
    "c = StatusUnprocessableEntity \<and> s' = s \<and> ccrReport resp = None \<and> hasErrors (report_findings hc (toValidation draft)) \<or>
     c = StatusCreated \<and> \<not> hasErrors (report_findings hc (toValidation draft)) \<and>
     (\<exists>report st rows. report = draft\<lparr>UpdatedAt := oqNow q, State := StateSubmitted, SubmittedAt := oqNow q,
          SubmittedBy := ouUsername u, UpdatedAt := oqNow q\<rparr> \<and>
        upsertReportVersion (oqPg q) (ccrVesselID req) report (schemaVersion (hcSchema hc)) (oqNow q) (ofStore s) = Inr st \<and>
        s' = s\<lparr>ofStore := st\<lparr>osEvents := osEvents st @ rows\<rparr>\<rparr> \<and> ccrReport resp = Some (otoReportView report) \<and>
        map (\<lambda>r. (arVesselID r, evReportID (arEvent r), evType (arEvent r), arOrigin r)) rows =
          map (\<lambda>t. (ccrVesselID req, ReportID draft, t, OriginOffice)) [EventCreated, EventHealthCheckResult, EventSubmitted])"
proof -
  note unfold = handleCreateCommercialReport_def succeeded requireCommercialEditor_Inr
  obtain label where label: "gm_lookup commercialSchemaLabels sname = Some label"
    using assms by (cases "gm_lookup commercialSchemaLabels sname") (auto simp: unfold writeError_def)
  obtain vessel where vessel: "getVessel (ccrVesselID req) (ofStore s) = Inr vessel"
    using assms label by (cases "getVessel (ccrVesselID req) (ofStore s)") (auto simp: unfold writeError_def writeErrorText_def split: if_splits)
  obtain u hc draft created where a: "osigned_in q s u" "canEditCommercialData u"
    "gm_lookup commercialSchemaLabels sname = Some label" "getVessel (ccrVesselID req) (ofStore s) = Inr vessel"
    "loadSchemaHealthContext q (ofStore s) sname (ccrVesselID req) (vrGroups vessel) = Inr hc"
    "newReport (oqUUID q 0) (oqNow q) sname label (oqNow q) (ccrFields req) (ouUsername u) = Inr (draft, created)"
    and rest: "(case markReady (oqNow q) (report_findings hc (toValidation draft)) draft of
         (report, readyEvent, Some e) \<Rightarrow>
           writeJSON StatusUnprocessableEntity
             \<lparr>ccrReport = None, ccrFindings = otoFindingViews (report_findings hc (toValidation draft))\<rparr> s
       | (report, readyEvent, None) \<Rightarrow>
     check_value StatusInternalServerError ReportsDomain (submit (oqNow q) (ouUsername u) report) s (\<lambda>(report, submitEvent).
     put_value ReportsStore
       (upsertReportVersion (oqPg q) (ccrVesselID req) report (schemaVersion (hcSchema hc)) (oqNow q) (ofStore s)) s (\<lambda>s.
     put_events q (ccrVesselID req) [created, readyEvent, submitEvent] s (\<lambda>s.
       writeJSON StatusCreated \<lparr>ccrReport = Some (otoReportView report),
         ccrFindings = otoFindingViews (report_findings hc (toValidation draft))\<rparr> s)))) = (Inr (c, resp), s')"
    using assms label vessel by (auto simp: unfold Let_def simp del: put_events.simps)
  note draft = newReport_SomeD[OF a(6)]
  obtain report readyEvent err where m: "markReady (oqNow q) (report_findings hc (toValidation draft)) draft = (report, readyEvent, err)"
    by (cases "markReady (oqNow q) (report_findings hc (toValidation draft)) draft") auto
  then have ready: "evReportID readyEvent = ReportID draft" "evType readyEvent = EventHealthCheckResult"
    using draft(6) by (auto simp: markReady_def Let_def split: if_splits)
  have not_in: "\<not> inChain (State draft)" using draft(6) by (simp add: inChain_def)
  show ?thesis
  proof (cases err)
    case (Some e)
    then have "hasErrors (report_findings hc (toValidation draft))" using not_in by (rule_tac markReady_cases[OF m]) auto
    then show ?thesis using rest m Some by (intro that[OF a]) (auto simp: writeJSON_def)
  next
    case None
    then have clean: "\<not> hasErrors (report_findings hc (toValidation draft))"
        "report = draft\<lparr>UpdatedAt := oqNow q, State := StateReady\<rparr>"
      using not_in by (rule_tac markReady_cases[OF m]; auto)+
    obtain sent submitEvent st where sent: "submit (oqNow q) (ouUsername u) report = Inr (sent, submitEvent)"
        "upsertReportVersion (oqPg q) (ccrVesselID req) sent (schemaVersion (hcSchema hc)) (oqNow q) (ofStore s) = Inr st"
        "put_events q (ccrVesselID req) [created, readyEvent, submitEvent] (s\<lparr>ofStore := st\<rparr>) (\<lambda>s.
           writeJSON StatusCreated \<lparr>ccrReport = Some (otoReportView sent),
             ccrFindings = otoFindingViews (report_findings hc (toValidation draft))\<rparr> s) = (Inr (c, resp), s')"
      using rest unfolding m None by (auto simp: succeeded simp del: put_events.simps)
    have sent_row: "sent = draft\<lparr>UpdatedAt := oqNow q, State := StateSubmitted, SubmittedAt := oqNow q,
        SubmittedBy := ouUsername u, UpdatedAt := oqNow q\<rparr>"
      using submit_SomeD[OF sent(1)] clean(2) by simp
    have events: "map (\<lambda>e. (ccrVesselID req, evReportID e, evType e, OriginOffice)) [created, readyEvent, submitEvent] =
        map (\<lambda>t. (ccrVesselID req, ReportID draft, t, OriginOffice)) [EventCreated, EventHealthCheckResult, EventSubmitted]"
      using sent(1) clean(2) draft ready a(6) by (auto simp: submit_def newReport_def Let_def split: if_splits option.splits)
    have "\<exists>rows. c = StatusCreated \<and> ccrReport resp = Some (otoReportView sent) \<and>
        ccrFindings resp = otoFindingViews (report_findings hc (toValidation draft)) \<and>
        s' = s\<lparr>ofStore := st\<lparr>osEvents := osEvents st @ rows\<rparr>\<rparr> \<and>
        map (\<lambda>r. (arVesselID r, evReportID (arEvent r), evType (arEvent r), arOrigin r)) rows =
          map (\<lambda>e. (ccrVesselID req, evReportID e, evType e, OriginOffice)) [created, readyEvent, submitEvent]"
      by (rule put_events_InrD[OF sent(3), simplified]) (auto simp: writeJSON_def)
    then show ?thesis
      using clean(1) sent(2) sent_row events
      by (intro that[OF a]) (auto simp: writeJSON_def intro!: exI[of _ sent] exI[of _ st] exI[of _ rows])
  qed
qed

end
