(* ===== verification/OfficeOverview.thy ===== *)
theory OfficeOverview
  imports OfficeReports
begin

text \<open>
  The fleet at a glance (\<open>office/httpapi\<close>): which configuration every vessel runs (\<open>vesselconfigs.go\<close>), the group tags
  (\<open>vesselgroups.go\<close>), the map (\<open>vesselpositions.go\<close>), and the dashboard (\<open>dashboard.go\<close>, with \<open>pkg/fieldproject\<close>).  A calendar day is its
  number since 1970; the code formats it.

  Lemmas: the effect of renaming and deleting a tag, vessel by vessel; when a vessel counts as synced; how the numbers of the dashboard
  add up, and which reports its first day leaves out.
\<close>

section \<open>Vessel configurations\<close>

record fleetConfigView =
  fcvVesselID :: string
  fcvVesselName :: string
  fcvIMO :: string
  fcvStatus :: string
  fcvAssignedBundleLabel :: string
  fcvActiveSince :: "gotime option"

definition config_status :: "configBundle \<Rightarrow> vesselSyncStatus option \<Rightarrow> string" where
  "config_status b sync =
     (let applied = (case sync of None \<Rightarrow> '''' | Some x \<Rightarrow> ssAppliedBundleID x) in
      if applied = '''' then ''pendingSync'' else if applied = cbID b then ''synced'' else ''outOfDate'')"

definition config_view :: "bundleAssignment list \<Rightarrow> ostore \<Rightarrow> vesselRow \<Rightarrow> fleet_error + fleetConfigView" where
  "config_view assignments st v =
     (let view = \<lparr>fcvVesselID = vrID v, fcvVesselName = vrName v, fcvIMO = vrIMO v, fcvStatus = ''unassigned'',
                  fcvAssignedBundleLabel = '''', fcvActiveSince = None\<rparr> in
      case resolve assignments (vrID v) (vrGroups v) of
        None \<Rightarrow> Inr view
      | Some found \<Rightarrow>
     (case getConfigBundle (baBundleID found) st of
        Inl e \<Rightarrow> if e = ErrConfigNotFound then Inr view else Inl (FleetConfig e)
      | Inr b \<Rightarrow> Inr (view\<lparr>fcvStatus := config_status b (syncStatusFor (vrID v) st), fcvAssignedBundleLabel := cbLabel b,
                            fcvActiveSince := Some (cbPublishedAt b)\<rparr>)))"

fun config_views :: "bundleAssignment list \<Rightarrow> ostore \<Rightarrow> vesselRow list \<Rightarrow> fleet_error + fleetConfigView list" where
  "config_views assignments st [] = Inr []"
| "config_views assignments st (v # vs) =
     (case config_view assignments st v of
        Inl e \<Rightarrow> Inl e
      | Inr view \<Rightarrow> map_sum id (\<lambda>views. view # views) (config_views assignments st vs))"

definition handleListVesselConfigs :: "officeReq \<Rightarrow> officeServer \<Rightarrow> fleetConfigView list fleet_handled" where
  "handleListVesselConfigs q s =
     andthen (oauthenticatedUser q s) (\<lambda>_ s.
     check_value StatusInternalServerError FleetScope (listBundleAssignments (ordAssignments (oqOrders q)) (ofStore s)) s (\<lambda>assignments.
     check_value StatusInternalServerError id (config_views assignments (ofStore s) (listVessels (ordVessels (oqOrders q)) (ofStore s))) s
       (\<lambda>views. writeJSON StatusOK views s)))"

section \<open>Vessel groups\<close>

text \<open>Every vessel that carries the tag is rewritten, one write each.\<close>

definition rewrite_groups :: "officeReq \<Rightarrow> (string list \<Rightarrow> string list) \<Rightarrow> vesselRow \<Rightarrow> ostore \<Rightarrow> (fleet_error + unit) \<times> ostore" where
  "rewrite_groups q f v st =
     (case updateProfile (oqNow q) (vrName v) (vrType v) (f (vrGroups v)) v of
        Inl e \<Rightarrow> (Inl (FleetVessel e), st)
      | Inr v \<Rightarrow> (case updateVessel (oqPg q) v st of Inl e \<Rightarrow> (Inl (FleetStore e), st) | Inr st \<Rightarrow> (Inr (), st)))"

definition rename_tag :: "string \<Rightarrow> string \<Rightarrow> string list \<Rightarrow> string list" where
  "rename_tag old new = map (\<lambda>g. if g = old then new else g)"

definition regroup :: "officeReq \<Rightarrow> string \<Rightarrow> (string list \<Rightarrow> string list) \<Rightarrow> officeServer \<Rightarrow> nat fleet_handled" where
  "regroup q grp f s =
     check_value StatusInternalServerError FleetStore (listVesselsByGroup (ordVessels (oqOrders q)) (oqPg q) grp (ofStore s)) s (\<lambda>list.
       case for_each (rewrite_groups q f) list (ofStore s) of
         (Inl e, st) \<Rightarrow> writeErrorText StatusInternalServerError e (s\<lparr>ofStore := st\<rparr>)
       | (Inr _, st) \<Rightarrow> writeJSON StatusOK (length list) (s\<lparr>ofStore := st\<rparr>))"

record renameVesselGroupRequest =
  rgFrom :: string
  rgTo :: string

definition handleRenameVesselGroup :: "officeReq \<Rightarrow> renameVesselGroupRequest option \<Rightarrow> officeServer \<Rightarrow> nat fleet_handled" where
  "handleRenameVesselGroup q body s =
     andthen (requireAdmin q s) (\<lambda>_ s.
     decode body s (\<lambda>r.
     guard (rgFrom r = '''' \<or> rgTo r = '''') StatusBadRequest ''from and to are both required'' s
       (regroup q (rgFrom r) (rename_tag (rgFrom r) (rgTo r)))))"

definition handleDeleteVesselGroup :: "officeReq \<Rightarrow> string option \<Rightarrow> officeServer \<Rightarrow> nat fleet_handled" where
  "handleDeleteVesselGroup q body s =
     andthen (requireAdmin q s) (\<lambda>_ s.
     decode body s (\<lambda>grp.
     guard (grp = '''') StatusBadRequest ''group is required'' s (regroup q grp (filter (\<lambda>g. g \<noteq> grp)))))"

section \<open>Positions\<close>

definition as_number :: "json option \<Rightarrow> float64 option" where
  "as_number v = (case v of Some (JNum x) \<Rightarrow> Some x | _ \<Rightarrow> None)"

text \<open>\<open>c | 0x20\<close> on a byte.\<close>

definition lower_byte :: "char \<Rightarrow> nat" where
  "lower_byte c = or (of_char c) 32"

definition asHemisphere :: "json option \<Rightarrow> char \<Rightarrow> char \<Rightarrow> float64 option" where
  "asHemisphere v positive negative =
     (case v of
        Some (JStr (c # _)) \<Rightarrow>
          if lower_byte c = lower_byte positive then Some (F64 1)
          else if lower_byte c = lower_byte negative then Some (F64 (- 1)) else None
      | _ \<Rightarrow> None)"

definition parseLogAbstractPosition :: "fields \<Rightarrow> (float64 \<times> float64) option" where
  "parseLogAbstractPosition fs =
     (case (as_number (field_get fs ''Latitude_Degree''), as_number (field_get fs ''Latitude_Minutes''),
            asHemisphere (field_get fs ''Latitude_North_South'') (CHR ''N'') (CHR ''S''),
            as_number (field_get fs ''Longitude_Degree''), as_number (field_get fs ''Longitude_Minutes''),
            asHemisphere (field_get fs ''Longitude_East_West'') (CHR ''E'') (CHR ''W'')) of
        (Some latDeg, Some latMin, Some latHemi, Some lonDeg, Some lonMin, Some lonHemi) \<Rightarrow>
          let lat = f64_mul (f64_add latDeg (f64_div latMin (F64 60))) latHemi;
              lon = f64_mul (f64_add lonDeg (f64_div lonMin (F64 60))) lonHemi
          in if f64_lt lat (F64 (- 90)) \<or> f64_gt lat (F64 90) \<or> f64_lt lon (F64 (- 180)) \<or> f64_gt lon (F64 180) then None
             else Some (lat, lon)
      | _ \<Rightarrow> None)"

definition reportFilterForGroup :: "string \<Rightarrow> reportFilter" where
  "reportFilterForGroup grp = no_filter\<lparr>rfGroupID := text_param grp\<rparr>"

definition group_vessels :: "officeReq \<Rightarrow> string \<Rightarrow> ostore \<Rightarrow> ostore_error + vesselRow list" where
  "group_vessels q grp st =
     (if grp \<noteq> '''' then listVesselsByGroup (ordVessels (oqOrders q)) (oqPg q) grp st
      else Inr (listVessels (ordVessels (oqOrders q)) st))"

definition unreviewed_remarked :: "officeReq \<Rightarrow> string \<Rightarrow> ostore \<Rightarrow> ostore_error + reportListRow list" where
  "unreviewed_remarked q grp st =
     listReports (ordVersions (oqOrders q)) (oqPg q)
       ((reportFilterForGroup grp)\<lparr>rfState := Some ''remarked'', rfReviewed := Some False\<rparr>) st"

definition vesselsWithUnreviewedRemarks :: "officeReq \<Rightarrow> string \<Rightarrow> ostore \<Rightarrow> ostore_error + (string, bool) gomap" where
  "vesselsWithUnreviewedRemarks q grp st =
     map_sum id (\<lambda>rows. fold (\<lambda>row. gm_update (rlVesselID row) True) rows []) (unreviewed_remarked q grp st)"

record vesselPositionView =
  vpVesselID :: string
  vpVesselName :: string
  vpVesselIMO :: string
  vpGroups :: "string list"
  vpLat :: float64
  vpLon :: float64
  vpStatus :: string
  vpAsOf :: gotime

definition enrolled :: "ostore \<Rightarrow> vesselRow \<Rightarrow> bool" where
  "enrolled st v \<longleftrightarrow> snd (enrollmentStateOf (vrID v) st) = ''enrolled''"

definition overdue_of :: "officeReq \<Rightarrow> cadenceRule list \<Rightarrow> ostore \<Rightarrow> vesselRow \<Rightarrow> gotime option \<times> float64 option" where
  "overdue_of q rules st v = overdueStatusFor v (gm_lookup (lastReportEventTimeByVessel st) (vrID v)) rules (oqNow q)"

definition position_view ::
  "officeReq \<Rightarrow> cadenceRule list \<Rightarrow> (string, bool) gomap \<Rightarrow> ostore \<Rightarrow> vesselRow \<Rightarrow> vesselPositionView option" where
  "position_view q rules remarked st v =
     (if \<not> enrolled st v then None
      else case gm_lookup (latestLogAbstractFieldsByVessel (ordVersions (oqOrders q)) st) (vrID v) of
        None \<Rightarrow> None
      | Some row \<Rightarrow>
     (case parseLogAbstractPosition (laFields row) of
        None \<Rightarrow> None
      | Some (lat, lon) \<Rightarrow>
          Some \<lparr>vpVesselID = vrID v, vpVesselName = vrName v, vpVesselIMO = vrIMO v, vpGroups = vrGroups v, vpLat = lat, vpLon = lon,
            vpStatus = (if snd (overdue_of q rules st v) \<noteq> None then ''overdue''
                        else if gm_lookup remarked (vrID v) = Some True then ''remarked'' else ''ok''),
            vpAsOf = laEventTime row\<rparr>))"

definition handleListVesselPositions :: "officeReq \<Rightarrow> string \<Rightarrow> officeServer \<Rightarrow> vesselPositionView list fleet_handled" where
  "handleListVesselPositions q grp s =
     andthen (oauthenticatedUser q s) (\<lambda>_ s.
     check_value StatusInternalServerError FleetStore (group_vessels q grp (ofStore s)) s (\<lambda>vs.
     andthen (load_rules q s) (\<lambda>rules s.
     check_value StatusInternalServerError FleetStore (vesselsWithUnreviewedRemarks q grp (ofStore s)) s (\<lambda>remarked.
       writeJSON StatusOK (List.map_filter (position_view q rules remarked (ofStore s)) vs) s))))"

section \<open>Projection of a field\<close>

datatype projected = KindNull | KindString string | KindNumber float64 | KindBool bool

text \<open>\<open>None\<close> is the error.\<close>

definition project :: "field \<Rightarrow> json option \<Rightarrow> projected option" where
  "project f v =
     (if v = None \<or> v = Some JNull then Some KindNull
      else case fieldType f of
        FieldTypeWholeNumber \<Rightarrow> map_option KindNumber (as_number v)
      | FieldTypeDecimal \<Rightarrow> map_option KindNumber (as_number v)
      | FieldTypeBoolean \<Rightarrow> (case v of Some (JBool b) \<Rightarrow> Some (KindBool b) | _ \<Rightarrow> None)
      | FieldTypeOther _ \<Rightarrow> None
      | _ \<Rightarrow> (case v of Some (JStr x) \<Rightarrow> Some (KindString x) | _ \<Rightarrow> None))"

section \<open>The dashboard\<close>

definition day_length :: duration where "day_length = 24 * hour"

definition day_of :: "gotime \<Rightarrow> int" where "day_of t = t div day_length"

text \<open>\<open>sort.Slice\<close> with the greater value first: the key of an element is how many are greater.\<close>

definition sort_greatest :: "slice_sorter \<Rightarrow> ('a \<Rightarrow> float64) \<Rightarrow> 'a list \<Rightarrow> 'a list" where
  "sort_greatest p f xs = sort_slice p (\<lambda>x. int (length (filter (\<lambda>y. f64_gt (f y) (f x)) xs))) xs"

record overdueVesselView =
  ovvVesselID :: string
  ovvVesselName :: string
  ovvVesselIMO :: string
  ovvGroups :: "string list"
  ovvLastReportAt :: gotime
  ovvOverdueHours :: float64

record overdueScan =
  scOverdue :: "overdueVesselView list"
  scEnrolled :: nat
  scCompliant :: nat

definition overdue_step :: "officeReq \<Rightarrow> cadenceRule list \<Rightarrow> ostore \<Rightarrow> vesselRow \<Rightarrow> overdueScan \<Rightarrow> overdueScan" where
  "overdue_step q rules st v sc =
     (if \<not> enrolled st v then sc
      else let sc = sc\<lparr>scEnrolled := scEnrolled sc + 1\<rparr> in
        case overdue_of q rules st v of
          (Some lastAt, Some hours) \<Rightarrow>
            sc\<lparr>scOverdue := scOverdue sc @ [\<lparr>ovvVesselID = vrID v, ovvVesselName = vrName v, ovvVesselIMO = vrIMO v,
                 ovvGroups = vrGroups v, ovvLastReportAt = lastAt, ovvOverdueHours = hours\<rparr>]\<rparr>
        | _ \<Rightarrow> sc\<lparr>scCompliant := scCompliant sc + 1\<rparr>)"

definition overdue_scan :: "officeReq \<Rightarrow> cadenceRule list \<Rightarrow> ostore \<Rightarrow> vesselRow list \<Rightarrow> overdueScan" where
  "overdue_scan q rules st vs = fold (overdue_step q rules st) vs \<lparr>scOverdue = [], scEnrolled = 0, scCompliant = 0\<rparr>"

definition dashboardOverdueVesselCap :: nat where "dashboardOverdueVesselCap = 10"
definition dashboardTrendDays :: nat where "dashboardTrendDays = 7"
definition dashboardOperationsDefaultDays :: int where "dashboardOperationsDefaultDays = 30"
definition dashboardOperationsMaxDays :: int where "dashboardOperationsMaxDays = 365"

definition compliance_percent :: "overdueScan \<Rightarrow> float64" where
  "compliance_percent sc =
     (if scEnrolled sc > 0
      then f64_mul (f64_div (f64_of_int (int (scCompliant sc))) (f64_of_int (int (scEnrolled sc)))) (F64 100)
      else F64 100)"

record dataQualityPoint =
  dqDay :: int
  dqErrors :: nat
  dqWarnings :: nat

fun points_by_day ::
  "officeReq \<Rightarrow> ostore \<Rightarrow> reportListRow list \<Rightarrow> healthEvaluator \<Rightarrow> (int, dataQualityPoint) gomap \<Rightarrow> (int, dataQualityPoint) gomap" where
  "points_by_day q st [] ev byDay = byDay"
| "points_by_day q st (row # rows) ev byDay =
     (case row_health q st row ev of (health, ev) \<Rightarrow>
        let day = day_of (EventTime (rlReport row));
            point = (case gm_lookup byDay day of Some p \<Rightarrow> p | None \<Rightarrow> \<lparr>dqDay = day, dqErrors = 0, dqWarnings = 0\<rparr>)
        in points_by_day q st rows ev
             (gm_update day (point\<lparr>dqErrors := dqErrors point + hvErrors health,
                                   dqWarnings := dqWarnings point + hvWarnings health\<rparr>) byDay))"

definition trend_from :: "gotime \<Rightarrow> gotime" where
  "trend_from now = now + (1 - int dashboardTrendDays) * day_length"

definition trend_points :: "gotime \<Rightarrow> (int, dataQualityPoint) gomap \<Rightarrow> dataQualityPoint list" where
  "trend_points trendFrom byDay =
     map (\<lambda>i. let day = day_of (trendFrom + int i * day_length) in
            case gm_lookup byDay day of Some p \<Rightarrow> p | None \<Rightarrow> \<lparr>dqDay = day, dqErrors = 0, dqWarnings = 0\<rparr>)
       [0..<dashboardTrendDays]"

text \<open>\<open>strconv.Atoi\<close>; a number too large for it is too large for its use.\<close>

definition atoi :: "string \<Rightarrow> int option" where
  "atoi s =
     (case (case s of c # r \<Rightarrow> if c = CHR ''-'' then (- 1, r) else if c = CHR ''+'' then (1, r) else (1, s) | [] \<Rightarrow> (1, s)) of (sg, ds) \<Rightarrow>
        if ds \<noteq> [] \<and> list_all is_digit ds then Some (sg * fold (\<lambda>c n. n * 10 + digit_val c) ds 0) else None)"

definition ops_days :: "string \<Rightarrow> int" where
  "ops_days raw =
     (case atoi raw of
        Some n \<Rightarrow> if n > 0 \<and> n \<le> dashboardOperationsMaxDays then n else dashboardOperationsDefaultDays
      | None \<Rightarrow> dashboardOperationsDefaultDays)"

record operationsRow =
  opVesselID :: string
  opVesselName :: string
  opVesselIMO :: string
  opTotalDistanceNM :: float64
  opTotalConsumptionMt :: float64
  opReportCount :: nat

text \<open>\<open>strings.Contains\<close>.\<close>

definition contains_text :: "string \<Rightarrow> string \<Rightarrow> bool" where
  "contains_text s sub \<longleftrightarrow> list_ex (\<lambda>i. take (length sub) (drop i s) = sub) [0..<Suc (length s)]"

definition consumption_fields :: "schema option \<Rightarrow> field list" where
  "consumption_fields sch =
     (case sch of
        None \<Rightarrow> []
      | Some sch \<Rightarrow> filter (\<lambda>f. fieldType f = FieldTypeDecimal \<and> fieldUnit f = Some ''mt'' \<and> contains_text (fieldName f) ''Consumption'')
                     (schemaFields sch))"

text \<open>Adding the number a field holds, if it holds one.\<close>

definition add_field :: "fields \<Rightarrow> field \<Rightarrow> float64 \<Rightarrow> float64" where
  "add_field fs f sum_so_far = (case project f (field_get fs (fieldName f)) of Some (KindNumber n) \<Rightarrow> f64_add sum_so_far n | _ \<Rightarrow> sum_so_far)"

definition operations_step ::
  "field option \<Rightarrow> field list \<Rightarrow> reportListRow \<Rightarrow> (string, operationsRow) gomap \<times> string list
   \<Rightarrow> (string, operationsRow) gomap \<times> string list" where
  "operations_step distanceField consumptionFields row acc =
     (case acc of (byVessel, order) \<Rightarrow>
        let fs = Fields (rlReport row);
            (agg, order) = (case gm_lookup byVessel (rlVesselID row) of
               Some a \<Rightarrow> (a, order)
             | None \<Rightarrow> (\<lparr>opVesselID = rlVesselID row, opVesselName = rlVesselName row, opVesselIMO = rlVesselIMO row,
                          opTotalDistanceNM = F64 0, opTotalConsumptionMt = F64 0, opReportCount = 0\<rparr>, order @ [rlVesselID row]));
            agg = agg\<lparr>opReportCount := opReportCount agg + 1,
                      opTotalDistanceNM := (case distanceField of None \<Rightarrow> opTotalDistanceNM agg | Some f \<Rightarrow> add_field fs f (opTotalDistanceNM agg)),
                      opTotalConsumptionMt := fold (add_field fs) consumptionFields (opTotalConsumptionMt agg)\<rparr>
        in (gm_update (rlVesselID row) agg byVessel, order))"

definition dashboardOperationsOverview ::
  "officeReq \<Rightarrow> string \<Rightarrow> int \<Rightarrow> ostore \<Rightarrow> ostore_error + operationsRow list" where
  "dashboardOperationsOverview q grp days st =
     (case listReports (ordVersions (oqOrders q)) (oqPg q)
        ((reportFilterForGroup grp)\<lparr>rfSchemaName := Some ''log-abstract'', rfDateFrom := Some (oqNow q - days * day_length)\<rparr>) st of
        Inl e \<Rightarrow> Inl e
      | Inr rows \<Rightarrow>
          if rows = [] then Inr []
          else
            (let sch = (case latestSchemaVersion (oqSorter q) ''log-abstract'' st of
                          Inl _ \<Rightarrow> None | Inr latest \<Rightarrow> oqParse q (svContent latest));
                 distanceField = Option.bind sch (\<lambda>sch. fieldByName sch ''Distance'');
                 (byVessel, order) = fold (operations_step distanceField (consumption_fields sch)) rows ([], [])
             in Inr (sort_greatest (oqSorter q) opTotalConsumptionMt (List.map_filter (gm_lookup byVessel) order))))"

record dashboardView =
  dvOverdueVessels :: "overdueVesselView list"
  dvOverdueVesselCount :: nat
  dvEnrolledVesselCount :: nat
  dvCompliancePercent :: float64
  dvReportsNeedingReview :: nat
  dvDataQualityTrend :: "dataQualityPoint list"
  dvOperationsOverview :: "operationsRow list"
  dvOperationsPeriodDays :: int

definition handleGetDashboard :: "officeReq \<Rightarrow> string \<Rightarrow> string \<Rightarrow> officeServer \<Rightarrow> dashboardView fleet_handled" where
  "handleGetDashboard q grp opsDays s =
     andthen (oauthenticatedUser q s) (\<lambda>_ s.
     check_value StatusInternalServerError FleetStore (group_vessels q grp (ofStore s)) s (\<lambda>vs.
     andthen (load_rules q s) (\<lambda>rules s.
       let scan = overdue_scan q rules (ofStore s) vs; overdue = sort_greatest (oqSorter q) ovvOverdueHours (scOverdue scan) in
     check_value StatusInternalServerError FleetStore (unreviewed_remarked q grp (ofStore s)) s (\<lambda>needingReview.
     check_value StatusInternalServerError FleetStore (listReports (ordVersions (oqOrders q)) (oqPg q)
         ((reportFilterForGroup grp)\<lparr>rfDateFrom := Some (trend_from (oqNow q))\<rparr>) (ofStore s)) s (\<lambda>trendRows.
     check_value StatusInternalServerError FleetStore (dashboardOperationsOverview q grp (ops_days opsDays) (ofStore s)) s (\<lambda>operations.
       writeJSON StatusOK
         \<lparr>dvOverdueVessels = take dashboardOverdueVesselCap overdue, dvOverdueVesselCount = length overdue,
          dvEnrolledVesselCount = scEnrolled scan, dvCompliancePercent = compliance_percent scan,
          dvReportsNeedingReview = length needingReview,
          dvDataQualityTrend = trend_points (trend_from (oqNow q)) (points_by_day q (ofStore s) trendRows newHealthEvaluator []),
          dvOperationsOverview = operations, dvOperationsPeriodDays = ops_days opsDays\<rparr> s))))))"

section \<open>What the requests do\<close>

inductive overview_request :: "officeReq \<Rightarrow> officeServer \<Rightarrow> officeServer \<Rightarrow> bool" for q s where
  config_overview: "overview_request q s (snd (handleListVesselConfigs q s))"
| group_rename: "overview_request q s (snd (handleRenameVesselGroup q rnbody s))"
| group_delete: "overview_request q s (snd (handleDeleteVesselGroup q dlbody s))"
| fleet_map: "overview_request q s (snd (handleListVesselPositions q grp s))"
| fleet_dashboard: "overview_request q s (snd (handleGetDashboard q grp days s))"

lemma rewritten_steps: "(office_step pb (oqPg q))\<^sup>*\<^sup>* st (snd (for_each (rewrite_groups q f) vs st))"
proof (rule for_each_inv[where P = "\<lambda>x. (office_step pb (oqPg q))\<^sup>*\<^sup>* st x"])
  fix v x assume steps: "(office_step pb (oqPg q))\<^sup>*\<^sup>* st x"
  then show "(office_step pb (oqPg q))\<^sup>*\<^sup>* st (snd (rewrite_groups q f v x))"
    by (auto simp: rewrite_groups_def split: sum.split intro: rtranclp.rtrancl_into_rtrancl office_step.vessel_profile)
qed simp

lemma fleet_regroup: "fleet_effect pb (oqPg q) True s (snd (regroup q grp f s))"
  unfolding regroup_def
proof (rule fleet_check)
  fix vs :: "vesselRow list"
  obtain res st where each: "for_each (rewrite_groups q f) vs (ofStore s) = (res, st)" by fastforce
  then have "(office_step pb (oqPg q))\<^sup>*\<^sup>* (ofStore s) st" using rewritten_steps by (metis snd_conv)
  then have "fleet_effect pb (oqPg q) True s (s\<lparr>ofStore := st\<rparr>)" by (simp add: fleet_effect_def)
  then show "fleet_effect pb (oqPg q) True s (snd (case for_each (rewrite_groups q f) vs (ofStore s) of
       (Inl e, st) \<Rightarrow> writeErrorText StatusInternalServerError e (s\<lparr>ofStore := st\<rparr>)
     | (Inr _, st) \<Rightarrow> writeJSON StatusOK (length vs) (s\<lparr>ofStore := st\<rparr>)))"
    unfolding each by (simp split: sum.split)
qed

lemma fleet_rules_loaded:
  "(\<And>r. fleet_effect pb pg a s (snd (k r s))) \<Longrightarrow> fleet_effect pb pg a s (snd (andthen (load_rules q s) k))"
  by (auto split: sum.split)

lemma overview_request_effect: "overview_request q s s' \<Longrightarrow> fleet_effect pb (oqPg q) (by_admin q s) s s'"
proof (induction rule: overview_request.induct)
  case config_overview
  show ?case unfolding handleListVesselConfigs_def by (intro fleet_signed_in fleet_check) simp
next
  case (group_rename rnbody)
  show ?case unfolding handleRenameVesselGroup_def by (intro fleet_admin fleet_decode fleet_guard fleet_regroup)
next
  case (group_delete dlbody)
  show ?case unfolding handleDeleteVesselGroup_def by (intro fleet_admin fleet_decode fleet_guard fleet_regroup)
next
  case (fleet_map grp)
  show ?case unfolding handleListVesselPositions_def by (intro fleet_signed_in fleet_check fleet_rules_loaded) simp
next
  case (fleet_dashboard grp days)
  show ?case unfolding handleGetDashboard_def Let_def by (intro fleet_signed_in fleet_check fleet_rules_loaded) simp
qed

section \<open>Tags\<close>

lemma normalizeGroups_set: "set (normalizeGroups gs) = trim_space ` set gs - {[]}"
proof -
  have "set (fold (\<lambda>g out. let g = trim_space g in if g = [] \<or> g \<in> set out then out else out @ [g]) gs out) =
      set out \<union> (trim_space ` set gs - {[]})" for out
    by (induction gs arbitrary: out) (auto simp: Let_def)
  then show ?thesis by (simp add: normalizeGroups_def)
qed

definition regrouped :: "officeReq \<Rightarrow> (string list \<Rightarrow> string list) \<Rightarrow> string set \<Rightarrow> vesselRow \<Rightarrow> vesselRow" where
  "regrouped q f ids x =
     (if vrID x \<in> ids
      then x\<lparr>vrName := trim_space (vrName x), vrType := trim_space (vrType x), vrGroups := normalizeGroups (f (vrGroups x)),
             vrUpdatedAt := pgTime (oqPg q) (oqNow q)\<rparr>
      else x)"

lemma regrouped_id [simp]: "vrID (regrouped q f ids x) = vrID x"
  by (simp add: regrouped_def)

lemma rewritten_one:
  assumes "rewrite_groups q f v st = (Inr u, st1)" and "v \<in> set (osVessels st)" and "distinct (map vrID (osVessels st))"
  shows "st1 = st\<lparr>osVessels := map (regrouped q f {vrID v}) (osVessels st)\<rparr>"
proof (cases "updateProfile (oqNow q) (vrName v) (vrType v) (f (vrGroups v)) v")
  case (Inl e)
  then show ?thesis using assms(1) by (simp add: rewrite_groups_def)
next
  case (Inr v')
  have new: "vrID v' = vrID v" "vrName v' = trim_space (vrName v)" "vrType v' = trim_space (vrType v)"
      "vrGroups v' = normalizeGroups (f (vrGroups v))" "vrUpdatedAt v' = oqNow q"
    using Inr by (auto simp: updateProfile_def Let_def split: if_splits)
  have one: "x = v" if "x \<in> set (osVessels st)" "vrID x = vrID v" for x
    using that assms(2,3) by (auto simp: distinct_map inj_on_def)
  have put: "updateVessel (oqPg q) v' st = Inr st1" using assms(1) by (simp add: rewrite_groups_def Inr split: sum.splits)
  let ?put = "\<lambda>x. if vrID x = vrID v
             then x\<lparr>vrName := vrName v', vrType := vrType v', vrGroups := vrGroups v', vrUpdatedAt := pgTime (oqPg q) (vrUpdatedAt v')\<rparr>
             else x"
  have st1: "st1 = st\<lparr>osVessels := map ?put (osVessels st)\<rparr>"
    using put
    by (simp add: updateVessel_def new(1) split: if_splits)
  have rows: "?put x = regrouped q f {vrID v} x" if "x \<in> set (osVessels st)" for x
  proof (cases "vrID x = vrID v")
    case True
    then have "x = v" using one that by simp
    then show ?thesis by (simp add: regrouped_def new)
  qed (simp add: regrouped_def)
  have "map ?put (osVessels st) = map (regrouped q f {vrID v}) (osVessels st)" by (rule map_cong[OF refl rows])
  then show ?thesis by (simp only: st1)
qed

text \<open>When the loop ends well, every listed vessel has its new tags and nothing else has changed.\<close>

lemma rewritten:
  assumes "for_each (rewrite_groups q f) vs st = (Inr u, st')" and "distinct (map vrID vs)" and "set vs \<subseteq> set (osVessels st)"
    and "distinct (map vrID (osVessels st))"
  shows "st' = st\<lparr>osVessels := map (regrouped q f (vrID ` set vs)) (osVessels st)\<rparr>"
  using assms
proof (induction vs arbitrary: st)
  case Nil
  have "map (regrouped q f {}) xs = xs" for xs by (induction xs) (simp_all add: regrouped_def)
  then show ?case using Nil.prems(1) by simp
next
  case (Cons v vs)
  obtain st1 where first: "rewrite_groups q f v st = (Inr (), st1)" and rest: "for_each (rewrite_groups q f) vs st1 = (Inr u, st')"
    using Cons.prems(1) by (simp add: andthen_def split: prod.splits sum.splits)
  have st1_rows: "st1 = st\<lparr>osVessels := map (regrouped q f {vrID v}) (osVessels st)\<rparr>"
    using rewritten_one[OF first] Cons.prems(3,4) by simp
  have others: "regrouped q f {vrID v} w = w" if "w \<in> set vs" for w
  proof -
    have "vrID w \<noteq> vrID v" using that Cons.prems(2) by (metis distinct.simps(2) image_eqI list.set_map list.simps(9))
    then show ?thesis by (simp add: regrouped_def)
  qed
  have "set vs \<subseteq> set (osVessels st1)"
  proof
    fix w assume "w \<in> set vs"
    then have "regrouped q f {vrID v} w \<in> set (osVessels st1)" using Cons.prems(3) by (auto simp: st1_rows)
    then show "w \<in> set (osVessels st1)" using others \<open>w \<in> set vs\<close> by simp
  qed
  moreover have "distinct (map vrID (osVessels st1))" using Cons.prems(4) by (simp add: st1_rows comp_def)
  ultimately have "st' = st1\<lparr>osVessels := map (regrouped q f (vrID ` set vs)) (osVessels st1)\<rparr>"
    using Cons.IH[OF rest] Cons.prems(2) by simp
  moreover have "regrouped q f (vrID ` set vs) (regrouped q f {vrID v} x) = regrouped q f (vrID ` set (v # vs)) x" for x
    using Cons.prems(2) by (auto simp: regrouped_def)
  ultimately show ?case by (simp add: st1_rows comp_def)
qed

lemma regroup_answered:
  assumes "regroup q grp f s = (Inr (c, n), s')" and "distinct (map vrID (osVessels (ofStore s)))"
    and "\<And>xs. mset (ordVessels (oqOrders q) xs) = mset xs"
  shows "n = length (filter (\<lambda>v. grp \<in> set (vrGroups v)) (osVessels (ofStore s)))"
    and "ofStore s' = (ofStore s)\<lparr>osVessels :=
      map (\<lambda>v. if grp \<in> set (vrGroups v) then regrouped q f {vrID v} v else v) (osVessels (ofStore s))\<rparr>"
proof -
  let ?rows = "filter (\<lambda>v. grp \<in> set (vrGroups v)) (osVessels (ofStore s))"
  let ?vs = "sort_key vrName (ordVessels (oqOrders q) ?rows)"
  obtain u st where each: "for_each (rewrite_groups q f) ?vs (ofStore s) = (Inr u, st)" "n = length ?vs" "s' = s\<lparr>ofStore := st\<rparr>"
    using assms(1)
    by (auto simp: regroup_def check_value_def listVesselsByGroup_def writeErrorText_def writeJSON_def split: prod.splits sum.splits if_splits)
  have members: "mset ?vs = mset ?rows" by (simp add: assms(3))
  then have set: "set ?vs = set ?rows" and len: "length ?vs = length ?rows" by (metis mset_eq_setD, metis mset_eq_length)
  have "distinct (map vrID ?rows)" using assms(2) by (simp add: distinct_map_filter)
  moreover have "mset (map vrID ?vs) = mset (map vrID ?rows)" using members by (metis mset_map)
  ultimately have "distinct (map vrID ?vs)" using mset_eq_imp_distinct_iff by blast
  then have st: "st = (ofStore s)\<lparr>osVessels := map (regrouped q f (vrID ` set ?vs)) (osVessels (ofStore s))\<rparr>"
    using rewritten[OF each(1)] assms(2) set by auto
  show "n = length ?rows" by (simp only: each(2) len)
  have each_row: "regrouped q f (vrID ` set ?rows) v = (if grp \<in> set (vrGroups v) then regrouped q f {vrID v} v else v)"
    if "v \<in> set (osVessels (ofStore s))" for v
    using that assms(2) by (auto simp: regrouped_def distinct_map inj_on_def)
  have "map (regrouped q f (vrID ` set ?vs)) (osVessels (ofStore s)) =
      map (\<lambda>v. if grp \<in> set (vrGroups v) then regrouped q f {vrID v} v else v) (osVessels (ofStore s))"
    unfolding set by (rule map_cong[OF refl each_row])
  then show "ofStore s' = (ofStore s)\<lparr>osVessels :=
      map (\<lambda>v. if grp \<in> set (vrGroups v) then regrouped q f {vrID v} v else v) (osVessels (ofStore s))\<rparr>"
    by (simp add: each(3) st)
qed


section \<open>How the dashboard adds up\<close>

text \<open>Rounding keeps a number between zero and a bound that is an integer.\<close>

lemma f64_round_upto:
  assumes "0 \<le> q" and "q \<le> of_int n" and "n \<le> 2 ^ 52"
  shows "\<exists>r. f64_round q = F64 r \<and> 0 \<le> r \<and> r \<le> of_int n"
proof (cases "q = 0")
  case True
  then show ?thesis using assms by simp
next
  case False
  then have pos: "0 < q" using assms(1) by simp
  define e where "e = ulp_exp q"
  have "pow2 (ilog2 q) \<le> q" using ilog2_bounds(1)[OF pos] .
  also have "q \<le> of_int (2 ^ 52)" using assms(2,3) by (meson of_int_le_iff order_trans)
  also have "of_int (2 ^ 52) = pow2 52" using pow2_nat[of 52] by simp
  finally have "ilog2 q \<le> 52" by (simp only: pow2_mono_iff)
  then have e: "e \<le> 0" using pos by (simp add: e_def ulp_exp_def)
  have whole: "of_int n / pow2 e = of_int (n * 2 ^ nat (- e))"
    using e pow2_nat[of "nat (- e)"] pow2_add[of e "- e"] by (simp add: field_simps pow2_pos[THEN less_imp_neq, symmetric])
  let ?k = "round_half_even (q / pow2 e)"
  have "q / pow2 e \<le> of_int n / pow2 e" using assms(2) pow2_pos[of e] by (simp add: divide_right_mono)
  then have "?k \<le> n * 2 ^ nat (- e)" unfolding whole by (rule round_half_even_le)
  then have "of_int ?k \<le> of_int n / pow2 e" unfolding whole of_int_le_iff .
  then have hi: "of_int ?k * pow2 e \<le> of_int n" using pow2_pos[of e] by (simp add: pos_le_divide_eq)
  have "0 \<le> ?k" using assms(1) pow2_pos[of e] by (intro round_half_even_ge) simp
  then have lo: "0 \<le> of_int ?k * pow2 e" using pow2_pos[of e] by simp
  have "(of_int n :: rat) \<le> of_int (2 ^ 52)" using assms(3) by (simp only: of_int_le_iff)
  also have "\<dots> = pow2 52" using pow2_nat[of 52] by simp
  also have "\<dots> < pow2 1024" by simp
  finally have "\<bar>of_int ?k * pow2 e\<bar> < pow2 1024" using hi lo by linarith
  then show ?thesis using False hi lo assms(1) by (auto simp: f64_round_def Let_def e_def[symmetric])
qed

lemma percent_upto:
  assumes "a \<le> b" and "0 < b" and "b \<le> 2 ^ 52"
  shows "\<exists>r. f64_mul (f64_div (f64_of_int (int a)) (f64_of_int (int b))) (F64 100) = F64 r \<and> 0 \<le> r \<and> r \<le> 100"
    and "a = b \<Longrightarrow> f64_mul (f64_div (f64_of_int (int a)) (f64_of_int (int b))) (F64 100) = F64 100"
proof -
  have nums: "f64_of_int (int a) = F64 (of_nat a)" "f64_of_int (int b) = F64 (of_nat b)"
    using assms f64_of_int_exact[of "int a"] f64_of_int_exact[of "int b"] by simp_all
  have one: "f64_round 1 = F64 1" "f64_round 100 = F64 100"
    using f64_round_of_int[of 1] f64_round_of_int[of 100] by simp_all
  have ratio: "0 \<le> (of_nat a :: rat) / of_nat b" "(of_nat a :: rat) / of_nat b \<le> of_int 1"
    using assms by (simp_all add: divide_le_eq)
  obtain r where r: "f64_div (F64 (of_nat a)) (F64 (of_nat b)) = F64 r" "0 \<le> r" "r \<le> 1"
  proof (cases "a = 0")
    case True
    then show thesis using assms(2) by (intro that[of 0]) (simp_all add: f64_div_def)
  next
    case False
    obtain r where "f64_round (of_nat a / of_nat b) = F64 r" "0 \<le> r" "r \<le> 1" using f64_round_upto[OF ratio] by auto
    then show thesis using False assms(2) by (intro that[of r]) (simp_all add: f64_div_def)
  qed
  show "\<exists>r. f64_mul (f64_div (f64_of_int (int a)) (f64_of_int (int b))) (F64 100) = F64 r \<and> 0 \<le> r \<and> r \<le> 100"
    using f64_round_upto[of "r * 100" 100] r by (auto simp: nums f64_mul_def)
  show "f64_mul (f64_div (f64_of_int (int a)) (f64_of_int (int b))) (F64 100) = F64 100" if "a = b"
    using assms(2) that by (simp add: nums f64_div_def f64_mul_def one)
qed

definition overdue_now :: "officeReq \<Rightarrow> cadenceRule list \<Rightarrow> ostore \<Rightarrow> vesselRow \<Rightarrow> bool" where
  "overdue_now q rules st v \<longleftrightarrow> snd (overdue_of q rules st v) \<noteq> None"

text \<open>Every enrolled vessel is counted once: as overdue, or as compliant.\<close>

lemma overdue_scan_counts:
  "scEnrolled (overdue_scan q rules st vs) = length (filter (enrolled st) vs)"
  "scCompliant (overdue_scan q rules st vs) + length (scOverdue (overdue_scan q rules st vs)) = length (filter (enrolled st) vs)"
  "map ovvVesselID (scOverdue (overdue_scan q rules st vs)) =
     map vrID (filter (\<lambda>v. enrolled st v \<and> overdue_now q rules st v) vs)"
proof -
  have both: "fst (overdue_of q rules st v) \<noteq> None" if "snd (overdue_of q rules st v) \<noteq> None" for v
    using that by (auto simp: overdue_of_def overdueStatusFor_def Let_def split: option.splits if_splits)
  have "scEnrolled (fold (overdue_step q rules st) vs sc) = scEnrolled sc + length (filter (enrolled st) vs) \<and>
      scCompliant (fold (overdue_step q rules st) vs sc) + length (scOverdue (fold (overdue_step q rules st) vs sc)) =
        scCompliant sc + length (scOverdue sc) + length (filter (enrolled st) vs) \<and>
      map ovvVesselID (scOverdue (fold (overdue_step q rules st) vs sc)) =
        map ovvVesselID (scOverdue sc) @ map vrID (filter (\<lambda>v. enrolled st v \<and> overdue_now q rules st v) vs)" for sc
  proof (induction vs arbitrary: sc)
    case (Cons v vs)
    obtain a b where ab: "overdue_of q rules st v = (a, b)" by fastforce
    show ?case using Cons both[of v] ab
      by (cases "enrolled st v"; cases a; cases b) (simp_all add: overdue_step_def overdue_now_def Let_def)
  qed simp
  from this[of "\<lparr>scOverdue = [], scEnrolled = 0, scCompliant = 0\<rparr>"] show
    "scEnrolled (overdue_scan q rules st vs) = length (filter (enrolled st) vs)"
    "scCompliant (overdue_scan q rules st vs) + length (scOverdue (overdue_scan q rules st vs)) = length (filter (enrolled st) vs)"
    "map ovvVesselID (scOverdue (overdue_scan q rules st vs)) =
     map vrID (filter (\<lambda>v. enrolled st v \<and> overdue_now q rules st v) vs)"
    by (simp_all add: overdue_scan_def)
qed

lemma compliance_bounds:
  assumes "length vs \<le> 2 ^ 52"
  shows "\<exists>r. compliance_percent (overdue_scan q rules st vs) = F64 r \<and> 0 \<le> r \<and> r \<le> 100"
    and "\<forall>v \<in> set vs. enrolled st v \<longrightarrow> \<not> overdue_now q rules st v \<Longrightarrow>
      compliance_percent (overdue_scan q rules st vs) = F64 100"
proof -
  note counts = overdue_scan_counts[where q = q and rules = rules and st = st and vs = vs]
  have le: "length (filter (enrolled st) vs) \<le> 2 ^ 52" using assms length_filter_le[of "enrolled st" vs] by linarith
  show "\<exists>r. compliance_percent (overdue_scan q rules st vs) = F64 r \<and> 0 \<le> r \<and> r \<le> 100"
    using percent_upto(1)[of "scCompliant (overdue_scan q rules st vs)" "length (filter (enrolled st) vs)"] counts(1,2) le
    by (auto simp: compliance_percent_def)
  assume none: "\<forall>v \<in> set vs. enrolled st v \<longrightarrow> \<not> overdue_now q rules st v"
  then have "map ovvVesselID (scOverdue (overdue_scan q rules st vs)) = []" using counts(3) by (auto simp: filter_empty_conv)
  then have "scCompliant (overdue_scan q rules st vs) = length (filter (enrolled st) vs)" using counts(2) by simp
  then show "compliance_percent (overdue_scan q rules st vs) = F64 100"
    using percent_upto(2)[of "length (filter (enrolled st) vs)" "length (filter (enrolled st) vs)"] counts(1) le
    by (auto simp: compliance_percent_def)
qed

lemma sort_greatest_descends:
  assumes "slice_sort p"
  shows "mset (sort_greatest p f xs) = mset xs" and "sorted_wrt (\<lambda>x y. \<not> f64_gt (f y) (f x)) (sort_greatest p f xs)"
proof -
  let ?k = "\<lambda>x. int (length (filter (\<lambda>y. f64_gt (f y) (f x)) xs))"
  let ?ys = "sort_slice p ?k xs"
  show "mset (sort_greatest p f xs) = mset xs"
    unfolding sort_greatest_def by (rule slice_sort.mset_sort_slice[OF assms])
  have no_more: "\<not> f64_gt (f y) (f x)" if "x \<in> set ?ys" "y \<in> set ?ys" "?k x \<le> ?k y" for x y
  proof
    assume gt: "f64_gt (f y) (f x)"
    have y: "y \<in> set xs" using that(2) unfolding slice_sort.set_sort_slice[OF assms] .
    have "filter (\<lambda>z. f64_gt (f z) (f y)) xs = filter (\<lambda>z. f64_gt (f z) (f y)) (filter (\<lambda>z. f64_gt (f z) (f x)) xs)"
      unfolding filter_filter by (rule filter_cong) (use gt f64_lt_trans[of "f x" "f y"] in blast)+
    also have "length \<dots> < length (filter (\<lambda>z. f64_gt (f z) (f x)) xs)"
      using y gt by (intro length_filter_less[of y]) auto
    finally show False using that(3) by simp
  qed
  have keys: "sorted_wrt (\<lambda>x y. ?k x \<le> ?k y) ?ys"
    using slice_sort.sorted_sort_slice[OF assms, of ?k xs] unfolding sorted_map .
  have "sorted_wrt (\<lambda>x y. \<not> f64_gt (f y) (f x)) ?ys"
    by (rule sorted_wrt_mono_rel[OF _ keys]) (rule no_more)
  then show "sorted_wrt (\<lambda>x y. \<not> f64_gt (f y) (f x)) (sort_greatest p f xs)" by (simp only: sort_greatest_def)
qed

text \<open>The trend: seven days in a row, each with what the cells of its reports add up to.\<close>

definition on_day :: "int \<Rightarrow> reportListRow \<Rightarrow> bool" where
  "on_day day row \<longleftrightarrow> day_of (EventTime (rlReport row)) = day"

definition point_of :: "(int, dataQualityPoint) gomap \<Rightarrow> int \<Rightarrow> dataQualityPoint" where
  "point_of byDay day = (case gm_lookup byDay day of Some p \<Rightarrow> p | None \<Rightarrow> \<lparr>dqDay = day, dqErrors = 0, dqWarnings = 0\<rparr>)"

lemma point_of_update: "point_of (gm_update d p byDay) day = (if day = d then p else point_of byDay day)"
  by (simp add: point_of_def)

lemma points_by_day_ok:
  assumes "evaluator_ok q st ev" and "\<forall>row \<in> set rows. CHR 0x00 \<notin> set (SchemaName (rlReport row))"
  shows "point_of (points_by_day q st rows ev byDay) day =
    (point_of byDay day)
      \<lparr>dqErrors := dqErrors (point_of byDay day) + sum_list (map (hvErrors \<circ> health_of q st) (filter (on_day day) rows)),
       dqWarnings := dqWarnings (point_of byDay day) + sum_list (map (hvWarnings \<circ> health_of q st) (filter (on_day day) rows))\<rparr>"
  using assms
proof (induction rows arbitrary: ev byDay)
  case (Cons row rows)
  obtain h ev' where h: "row_health q st row ev = (h, ev')" by fastforce
  then have ok: "h = health_of q st row" "evaluator_ok q st ev'" using row_health_ok Cons.prems by simp_all
  show ?case
    using Cons.IH[OF ok(2)] Cons.prems(2) unfolding points_by_day.simps h prod.case ok(1) point_of_def[symmetric]
    by (simp add: on_day_def Let_def add.assoc point_of_update)
qed simp

lemma day_after: "day_of (t + int i * day_length) = day_of t + int i"
proof -
  have "day_length \<noteq> 0" by (simp add: day_length_def duration_defs)
  then show ?thesis by (simp add: day_of_def)
qed

lemma trend_sums:
  assumes "\<forall>row \<in> set rows. CHR 0x00 \<notin> set (SchemaName (rlReport row))"
  shows "trend_points t (points_by_day q st rows newHealthEvaluator []) =
    map (\<lambda>i. \<lparr>dqDay = day_of t + int i,
               dqErrors = sum_list (map (hvErrors \<circ> health_of q st) (filter (on_day (day_of t + int i)) rows)),
               dqWarnings = sum_list (map (hvWarnings \<circ> health_of q st) (filter (on_day (day_of t + int i)) rows))\<rparr>)
      [0..<dashboardTrendDays]"
  using assms
  by (simp add: trend_points_def Let_def day_after point_of_def[symmetric] points_by_day_ok[OF new_evaluator_ok])
    (simp add: point_of_def)

lemma ops_days_range: "0 < ops_days raw \<and> ops_days raw \<le> dashboardOperationsMaxDays"
  by (auto simp: ops_days_def dashboardOperationsDefaultDays_def dashboardOperationsMaxDays_def split: option.split)

lemma load_rules_Inr: "load_rules q s = (Inr rules, s') \<longleftrightarrow> s' = s \<and> listCadenceRules (ordCadence (oqOrders q)) (ofStore s) = Inr rules"
  by (auto simp: load_rules_def writeErrorText_def split: sum.splits)

lemma dashboard_answered:
  assumes "handleGetDashboard q grp days s = (Inr (c, d), s')"
  obtains vs rules needing rows operations where "group_vessels q grp (ofStore s) = Inr vs"
    "listCadenceRules (ordCadence (oqOrders q)) (ofStore s) = Inr rules"
    "unreviewed_remarked q grp (ofStore s) = Inr needing"
    "listReports (ordVersions (oqOrders q)) (oqPg q) ((reportFilterForGroup grp)\<lparr>rfDateFrom := Some (trend_from (oqNow q))\<rparr>)
       (ofStore s) = Inr rows"
    "dashboardOperationsOverview q grp (ops_days days) (ofStore s) = Inr operations" "s' = s" "c = StatusOK"
    "d = (let scan = overdue_scan q rules (ofStore s) vs; overdue = sort_greatest (oqSorter q) ovvOverdueHours (scOverdue scan) in
       \<lparr>dvOverdueVessels = take dashboardOverdueVesselCap overdue, dvOverdueVesselCount = length overdue,
        dvEnrolledVesselCount = scEnrolled scan, dvCompliancePercent = compliance_percent scan,
        dvReportsNeedingReview = length needing,
        dvDataQualityTrend = trend_points (trend_from (oqNow q)) (points_by_day q (ofStore s) rows newHealthEvaluator []),
        dvOperationsOverview = operations, dvOperationsPeriodDays = ops_days days\<rparr>)"
proof -
  show thesis
    using assms by (auto simp: handleGetDashboard_def succeeded oauthenticatedUser_Inr load_rules_Inr Let_def intro!: that)
qed

end
