(* ===== verification/OfficeHistory.thy ===== *)
theory OfficeHistory
  imports OfficeEnrollment OfficeReview OfficeRecovery OfficeSchemas OfficeOverview
begin

text \<open>
  The office server as a whole: the requests of \<open>OfficeAccounts\<close>, \<open>OfficeFleet\<close>, \<open>OfficeReview\<close>, \<open>OfficeRecovery\<close>,
  \<open>OfficeSettings\<close>, \<open>OfficeSchemas\<close>, \<open>OfficeReports\<close> and \<open>OfficeOverview\<close>, the redemption of codes, and the calls of the sync
  service and the configuration on the store they share, as one step relation.

  Lemmas: the store moves along the history of \<open>OfficeSync\<close>, so that what holds over that history holds under the server; a
  request of nobody signed in changes nothing, but the redemption of a code it knows and the first account.
\<close>

section \<open>Review requests\<close>

inductive review_request :: "officeReq \<Rightarrow> officeServer \<Rightarrow> officeServer \<Rightarrow> bool" for q s where
  remark_set: "review_request q s (snd (handleCreateRemarkSet q v i rbody s))"
| remark_list: "review_request q s (snd (ohandleListRemarks q v i s))"
| remark_resolution: "review_request q s (snd (handleSetRemarkResolved q i bbody s))"
| chat_list: "review_request q s (snd (ohandleListChat q v i s))"
| chat_post: "review_request q s (snd (ohandlePostChat q v i tbody s))"
| bulk_review: "review_request q s (snd (handleBulkMarkReviewed q mbody s))"

definition someone :: "officeReq \<Rightarrow> officeServer \<Rightarrow> bool" where
  "someone q s \<longleftrightarrow> (\<exists>u. osigned_in q s u)"

lemma fleet_effect_mono: "fleet_effect pb pg a s s' \<Longrightarrow> (a \<Longrightarrow> b) \<Longrightarrow> fleet_effect pb pg b s s'"
  by (auto simp: fleet_effect_def split: if_splits)

lemma fleet_one: "office_step pb pg (ofStore s) st \<Longrightarrow> fleet_effect pb pg True s (s\<lparr>ofStore := st\<rparr>)"
  by (auto simp: fleet_effect_def)

lemma fleet_steps:
  "(office_step pb pg)\<^sup>*\<^sup>* (ofStore s) st \<Longrightarrow> fleet_effect pb pg True (s\<lparr>ofStore := st\<rparr>) s' \<Longrightarrow> fleet_effect pb pg True s s'"
  by (auto simp: fleet_effect_def)

lemma review_reviewer:
  assumes "\<And>u. osigned_in q s u \<Longrightarrow> fleet_effect pb pg True s (snd (k u s))"
  shows "fleet_effect pb pg (someone q s) s (snd (andthen (requireReviewer q s) k :: 'a review_step))"
proof (cases "requireReviewer q s :: (review_error failure + officeUser) \<times> officeServer")
  case (Pair r s')
  show ?thesis
  proof (cases r)
    case (Inl e)
    then show ?thesis using requireReviewer_frame[OF Pair] Pair by (simp add: andthen_def fleet_same)
  next
    case (Inr u)
    then have u: "s' = s" "osigned_in q s u" using Pair by (simp_all add: requireReviewer_Inr)
    then have "someone q s" by (auto simp: someone_def)
    then show ?thesis using assms[OF u(2)] u(1) Inr Pair by (simp add: andthen_def)
  qed
qed

lemma review_signed_in:
  assumes "\<And>u. osigned_in q s u \<Longrightarrow> fleet_effect pb pg True s (snd (k u s))"
  shows "fleet_effect pb pg (someone q s) s (snd (andthen (oauthenticatedUser q s) k :: 'a review_step))"
proof (cases "oauthenticatedUser q s :: (review_error failure + officeUser) \<times> officeServer")
  case (Pair r s')
  show ?thesis
  proof (cases r)
    case (Inl e)
    then show ?thesis using oauthenticatedUser_frame[OF Pair] Pair by (simp add: andthen_def fleet_same)
  next
    case (Inr u)
    then have u: "s' = s" "osigned_in q s u" using Pair by (simp_all add: oauthenticatedUser_Inr)
    then have "someone q s" by (auto simp: someone_def)
    then show ?thesis using assms[OF u(2)] u(1) Inr Pair by (simp add: andthen_def)
  qed
qed

lemma review_put:
  "(\<And>st. res = Inr st \<Longrightarrow> office_step pb pg (ofStore s) st) \<Longrightarrow>
   (\<And>st. res = Inr st \<Longrightarrow> fleet_effect pb pg True (s\<lparr>ofStore := st\<rparr>) (snd (k (s\<lparr>ofStore := st\<rparr>)))) \<Longrightarrow>
   fleet_effect pb pg True s (snd (put_review res s k))"
  by (auto simp: put_review_def intro: fleet_write split: sum.split)

lemma review_decode: "(\<And>r. body = Some r \<Longrightarrow> fleet_effect pb pg a s (snd (k r))) \<Longrightarrow> fleet_effect pb pg a s (snd (decode body s k))"
  by (auto simp: decode_def split: option.split)

lemma review_guard: "fleet_effect pb pg a s (snd (k s)) \<Longrightarrow> fleet_effect pb pg a s (snd (guard bad c m s k))"
  by (simp add: guard_def)

lemma marked_steps: "(office_step pb (oqPg q))\<^sup>*\<^sup>* st (snd (for_each (mark_item q by_user) items st))"
proof (induction items arbitrary: st)
  case (Cons x items)
  show ?case
  proof (cases "markReviewed (oqPg q) (oqNow q) (mriVesselID x) (mriReportID x) by_user st")
    case (Inr st')
    then have "office_step pb (oqPg q) st st'" by (rule office_step.review)
    then show ?thesis using Cons[of st'] Inr by (simp add: mark_item_def converse_rtranclp_into_rtranclp)
  qed (simp add: mark_item_def)
qed simp

lemma remark_set_effect: "fleet_effect pb (oqPg q) (someone q s) s (snd (handleCreateRemarkSet q v i rbody s))"
proof -
  have rest: "fleet_effect pb (oqPg q) True s (snd (case markRemarked names author t (stub_report i n st) of
         Inl e \<Rightarrow> writeErrorText StatusConflict (ReviewDomain e) s
       | Inr (report, e) \<Rightarrow>
           put_review (updateReportVersionState v i n (State report) (ofStore s)) s (\<lambda>s.
           put_review (appendReportAuditEvent (oqPg q) v e t OriginOffice (ofStore s)) s (\<lambda>s.
             let labels = fieldLabels q (ofStore s) sname names in
             case newChatMessage uid t i author (remarkChatSummary labels remarks) ChatFromOffice of
               Inl e \<Rightarrow> writeErrorText StatusInternalServerError (ReviewDomain e) s
             | Inr m \<Rightarrow>
                 put_review (oinsertChatMessage (oqPg q) v m (ofStore s)) s
                   (writeJSON StatusCreated (map toRemarkView remarks))))))"
    for s names author t n st sname uid remarks
  proof (cases "markRemarked names author t (stub_report i n st)")
    case (Inr x)
    then obtain report e where x: "x = (report, e)" "State report = StateRemarked"
      by (cases x) (auto dest: markRemarked_SomeD)
    show ?thesis unfolding Inr x(1) sum.case prod.case Let_def
      by (intro review_put)
        (auto simp: x(2) intro: office_step.remarked office_step.office_event office_step.chat intro!: review_put split: sum.split)
  qed simp
  show ?thesis unfolding handleCreateRemarkSet_def Let_def
  proof (intro review_reviewer review_decode review_guard, split option.split, intro conjI allI impI, goal_cases)
    case (2 u inputs setID)
    let ?n = "VersionNo (last (listReportVersions v i (ofStore s)))"
    show ?case
    proof (cases "build_remarks q i ?n (ouUsername u) inputs")
      case (Some rs)
      obtain res st where ins: "insertRemarkSet (oqPg q) v rs setID (ofStore s) = (res, st)" by fastforce
      then have step: "office_step pb (oqPg q) (ofStore s) st" using office_step.remarks by (metis snd_conv)
      show ?thesis
      proof (cases res)
        case (Inl e)
        then show ?thesis unfolding Some option.case ins by (simp add: fleet_one[OF step])
      next
        case (Inr x)
        show ?thesis unfolding Some option.case ins Inr prod.case sum.case
          by (rule fleet_write[OF step]) (rule rest[unfolded Let_def])
      qed
    qed simp
  qed simp
qed

lemma review_request_effect: "review_request q s s' \<Longrightarrow> fleet_effect pb (oqPg q) (someone q s) s s'"
proof (induction rule: review_request.induct)
  case (remark_set v i rbody)
  show ?case by (rule remark_set_effect)
next
  case (remark_list v i)
  show ?case unfolding ohandleListRemarks_def by (rule review_signed_in) simp
next
  case (remark_resolution i bbody)
  show ?case unfolding handleSetRemarkResolved_def
    by (intro review_reviewer review_decode) (auto intro: fleet_one office_step.resolution)
next
  case (chat_list v i)
  show ?case unfolding ohandleListChat_def by (rule review_signed_in) simp
next
  case (chat_post v i tbody)
  show ?case unfolding ohandlePostChat_def
    by (intro review_signed_in review_decode) (auto intro!: review_put intro: office_step.chat split: sum.split)
next
  case (bulk_review mbody)
  show ?case unfolding handleBulkMarkReviewed_def
  proof (intro review_reviewer review_decode review_guard)
    fix u items
    obtain res st where each: "for_each (mark_item q (ouUsername u)) items (ofStore s) = (res, st)" by fastforce
    then have steps: "(office_step pb (oqPg q))\<^sup>*\<^sup>* (ofStore s) st" using marked_steps by (metis snd_conv)
    then have "fleet_effect pb (oqPg q) True s (s\<lparr>ofStore := st\<rparr>)" by (simp add: fleet_effect_def)
    then show "fleet_effect pb (oqPg q) True s (snd (case for_each (mark_item q (ouUsername u)) items (ofStore s) of
         (Inl e, st) \<Rightarrow> writeErrorText StatusInternalServerError (ReviewStore e) (s\<lparr>ofStore := st\<rparr>)
       | (Inr _, st) \<Rightarrow> writeJSON StatusOK (int (length items)) (s\<lparr>ofStore := st\<rparr>)))"
      unfolding each by (simp split: sum.split)
  qed
qed

section \<open>The server\<close>

text \<open>The requests that need a signed-in user, and write to the store only.\<close>

inductive gated_request :: "officeReq \<Rightarrow> officeServer \<Rightarrow> officeServer \<Rightarrow> bool" for q s where
  gated_fleet: "fleet_request q s s' \<Longrightarrow> gated_request q s s'"
| gated_review: "review_request q s s' \<Longrightarrow> gated_request q s s'"
| gated_recovery: "recovery_request q s s' \<Longrightarrow> gated_request q s s'"
| gated_settings: "settings_request q s s' \<Longrightarrow> gated_request q s s'"
| gated_schemas: "schemas_request q s s' \<Longrightarrow> gated_request q s s'"
| gated_reports: "reports_request q s s' \<Longrightarrow> gated_request q s s'"
| gated_overview: "overview_request q s s' \<Longrightarrow> gated_request q s s'"

lemma by_admin_someone: "by_admin q s \<Longrightarrow> someone q s" "by_config q s \<Longrightarrow> someone q s"
    "by_commercial q s \<Longrightarrow> someone q s"
  by (auto simp: someone_def by_admin_def by_config_def by_commercial_def)

lemma gated_request_effect: "gated_request q s s' \<Longrightarrow> fleet_effect pb (oqPg q) (someone q s) s s'"
  by (induction rule: gated_request.induct)
    (blast intro: review_request_effect fleet_effect_mono[OF fleet_request_effect] fleet_effect_mono[OF recovery_request_effect]
      fleet_effect_mono[OF settings_request_effect] fleet_effect_mono[OF schemas_request_effect]
      fleet_effect_mono[OF reports_request_effect] fleet_effect_mono[OF overview_request_effect] by_admin_someone)+

text \<open>Accounts, sessions and the store; the sync service and the configuration requests work on the store beside the handlers.\<close>

inductive office_server_step :: "('w, 'ts) pblib \<Rightarrow> pg \<Rightarrow> officeServer \<Rightarrow> officeServer \<Rightarrow> bool" for pb pg where
  account: "oqPg q = pg \<Longrightarrow> office_request q s s' \<Longrightarrow> office_server_step pb pg s s'"
| gated: "oqPg q = pg \<Longrightarrow> gated_request q s s' \<Longrightarrow> office_server_step pb pg s s'"
| redemption: "oqPg q = pg \<Longrightarrow> office_server_step pb pg s (snd (handleRedeemEnrollment h q body s))"
| service: "office_step pb pg (ofStore s) st \<Longrightarrow> office_server_step pb pg s (s\<lparr>ofStore := st\<rparr>)"

text \<open>The account requests leave the store alone.\<close>

lemma account_store_rules:
  "ofStore (snd (requireAdmin q s)) = ofStore s" "ofStore (snd (oauthenticatedUser q s)) = ofStore s"
  "ofStore (snd (ostartSession q i s)) = ofStore s"
  using requireAdmin_frame[of q s "fst (requireAdmin q s)"] oauthenticatedUser_frame[of q s "fst (oauthenticatedUser q s)"]
    ostartSession_frame[of q i s "fst (ostartSession q i s)"]
  by (metis prod.collapse requireAdmin_frame, metis prod.collapse oauthenticatedUser_frame, metis prod.collapse)

lemma write_users_store: "(\<And>us. ofStore (snd (k (s\<lparr>ofUsers := us\<rparr>))) = st) \<Longrightarrow> ofStore s = st \<Longrightarrow>
   ofStore (snd (write_users c res s k)) = st"
  by (auto simp: write_users_def split: sum.split)

lemma andthen_store: "ofStore (snd r) = st \<Longrightarrow> (\<And>v s. ofStore s = st \<Longrightarrow> ofStore (snd (k v s)) = st) \<Longrightarrow> ofStore (snd (andthen r k)) = st"
  by (auto simp: andthen_def split: prod.splits sum.splits)

lemma decode_store: "(\<And>r. ofStore (snd (k r)) = st) \<Longrightarrow> ofStore s = st \<Longrightarrow> ofStore (snd (decode body s k)) = st"
  by (auto simp: decode_def split: option.split)

lemma guard_store: "ofStore (snd (k s)) = st \<Longrightarrow> ofStore s = st \<Longrightarrow> ofStore (snd (guard bad c m s k)) = st"
  by (simp add: guard_def)

lemma with_user_store: "(\<And>u s'. ofStore s' = ofStore s \<Longrightarrow> ofStore (snd (k u s')) = ofStore s) \<Longrightarrow>
   ofStore (snd (with_user q i s k)) = ofStore s"
  unfolding with_user_def by (rule andthen_store) (auto simp: account_store_rules split: sum.split)

lemma save_user_store: "ofStore (snd (save_user q u b s)) = ofStore s"
  unfolding save_user_def by (rule write_users_store) simp_all

lemma session_reply_store:
  "ofStore (snd (case ostartSession q i s of (Inl e, s) \<Rightarrow> writeErrorText c e s | (Inr t, s) \<Rightarrow> writeJSON c' (f t) s)) = ofStore s"
  using ostartSession_frame by (auto split: prod.split sum.split)

lemma office_request_store: "office_request q s s' \<Longrightarrow> ofStore s' = ofStore s"
proof (induction rule: office_request.induct)
  case (login lbody)
  show ?case unfolding ohandleLogin_def Let_def
    by (intro decode_store) (auto intro!: guard_store simp: session_reply_store split: sum.split)
next
  case logout
  show ?case by (simp add: ohandleLogout_def Let_def split: option.split)
next
  case me
  show ?case unfolding ohandleMe_def by (rule andthen_store) (simp_all add: account_store_rules)
next
  case (change_password cbody)
  show ?case unfolding ohandleChangePassword_def
    by (intro andthen_store decode_store) (auto intro!: guard_store write_users_store simp: account_store_rules split: sum.split)
next
  case user_list
  show ?case unfolding ohandleListUsers_def by (rule andthen_store) (simp_all add: account_store_rules)
next
  case (create_user ubody)
  show ?case unfolding ohandleCreateUser_def
    by (intro andthen_store decode_store) (auto intro!: write_users_store simp: account_store_rules split: sum.split option.split)
next
  case (user_roles i rbody)
  show ?case unfolding ohandleUpdateUserRoles_def
    by (rule with_user_store) (auto intro!: decode_store simp: save_user_store split: sum.split)
next
  case (deactivation i)
  show ?case unfolding ohandleDeactivateUser_def Let_def by (rule with_user_store) (simp add: save_user_store)
next
  case (reactivation i)
  show ?case unfolding ohandleReactivateUser_def Let_def by (rule with_user_store) (simp add: save_user_store)
next
  case (password_reset i)
  show ?case unfolding ohandleResetUserPassword_def
    by (rule with_user_store) (auto simp: save_user_store split: sum.split option.split)
next
  case setup_status
  show ?case by (simp add: ohandleSetupStatus_def)
next
  case (setup_admin lbody)
  show ?case unfolding ohandleSetupAdmin_def Let_def
    by (intro guard_store decode_store) (auto intro!: write_users_store simp: session_reply_store split: sum.split)
qed

lemma office_server_step_effect:
  assumes "office_server_step pb pg s s'"
  shows "(office_step pb pg)\<^sup>*\<^sup>* (ofStore s) (ofStore s')" and "\<exists>a. oaccount_change a (ofUsers s) (ofUsers s')"
proof -
  have effect: "(office_step pb pg)\<^sup>*\<^sup>* (ofStore s) (ofStore s') \<and> ofUsers s' = ofUsers s"
    if "fleet_effect pb pg a s s'" for a s s'
    using that by (auto simp: fleet_effect_def split: if_splits)
  have "(office_step pb pg)\<^sup>*\<^sup>* (ofStore s) (ofStore s') \<and> (\<exists>a. oaccount_change a (ofUsers s) (ofUsers s'))"
    using assms
  proof cases
    case (account q)
    then show ?thesis using office_request_change office_request_store by fastforce
  next
    case (gated q)
    then show ?thesis using effect[OF gated_request_effect[of q s s' pb, unfolded gated(1)]] keep by auto
  next
    case (redemption q h body)
    then show ?thesis using effect[OF redeem_effect[of pb q body s h, unfolded redemption(2)]] keep by auto
  next
    case (service st)
    then show ?thesis using keep by auto
  qed
  then show "(office_step pb pg)\<^sup>*\<^sup>* (ofStore s) (ofStore s')" and "\<exists>a. oaccount_change a (ofUsers s) (ofUsers s')" by blast+
qed

lemma office_history:
  assumes "(office_server_step pb pg)\<^sup>*\<^sup>* s s'"
  shows "(office_step pb pg)\<^sup>*\<^sup>* (ofStore s) (ofStore s')" and "ousers_wf (ofUsers s) \<Longrightarrow> ousers_wf (ofUsers s')"
proof -
  have "(office_step pb pg)\<^sup>*\<^sup>* (ofStore s) (ofStore s') \<and> (ousers_wf (ofUsers s) \<longrightarrow> ousers_wf (ofUsers s'))"
    using assms
  proof (induction rule: rtranclp_induct)
    case (step s1 s2)
    then show ?case using office_server_step_effect[OF step.hyps(2)] oaccount_change_wf by (meson rtranclp_trans)
  qed simp
  then show "(office_step pb pg)\<^sup>*\<^sup>* (ofStore s) (ofStore s')" and "ousers_wf (ofUsers s) \<Longrightarrow> ousers_wf (ofUsers s')" by blast+
qed

lemma office_history_settings:
  "(office_server_step pb pg)\<^sup>*\<^sup>* s s' \<Longrightarrow> settings_later (ofStore s) (ofStore s')"
  using office_history(1) by (rule office_steps_settings)

section \<open>Nobody signed in\<close>

lemma anonymous_gates:
  fixes k k' :: "officeUser \<Rightarrow> officeServer \<Rightarrow> 'a office_step_of"
  assumes "\<not> someone q s"
  shows "ofUsers (snd (andthen (oauthenticatedUser q s) k)) = ofUsers s"
    and "ofUsers (snd (andthen (requireAdmin q s) k')) = ofUsers s"
proof -
  obtain r :: "office_error failure + officeUser" and s1 where r: "oauthenticatedUser q s = (r, s1)" by fastforce
  with assms have "\<nexists>u. r = Inr u" by (auto simp: oauthenticatedUser_Inr someone_def)
  then show "ofUsers (snd (andthen (oauthenticatedUser q s) k)) = ofUsers s"
    using r oauthenticatedUser_frame[OF r] by (cases r) (auto simp: andthen_def)
  obtain r' :: "office_error failure + officeUser" and s2 where r': "requireAdmin q s = (r', s2)" by fastforce
  with assms have "\<nexists>u. r' = Inr u" by (auto simp: requireAdmin_Inr someone_def)
  then show "ofUsers (snd (andthen (requireAdmin q s) k')) = ofUsers s"
    using r' requireAdmin_frame[OF r'] by (cases r') (auto simp: andthen_def)
qed

lemma anonymous_account:
  assumes "office_request q s s'" and "\<not> someone q s" and "ofUsers s \<noteq> []"
  shows "ofUsers s' = ofUsers s"
  using assms(1)
proof cases
  case (login lbody)
  then show ?thesis by (simp add: ohandleLogin_frame)
next
  case logout
  then show ?thesis by (simp add: ohandleLogout_def Let_def split: option.split)
next
  case setup_status
  then show ?thesis by (simp add: ohandleSetupStatus_def)
next
  case (setup_admin lbody)
  then show ?thesis using assms(3) by (simp add: ohandleSetupAdmin_def ohasAnyUser_def)
qed (simp_all add: ohandleMe_def ohandleChangePassword_def ohandleListUsers_def ohandleCreateUser_def with_user_def
    ohandleUpdateUserRoles_def ohandleDeactivateUser_def ohandleReactivateUser_def ohandleResetUserPassword_def
    anonymous_gates[OF assms(2)])

lemma anonymous_other: "gated_request q s s' \<Longrightarrow> \<not> someone q s \<Longrightarrow> ofStore s' = ofStore s \<and> ofUsers s' = ofUsers s"
  using gated_request_effect[of q s s' undefined] by (auto simp: fleet_effect_def)

lemma users_kept: "gated_request q s s' \<Longrightarrow> ofUsers s' = ofUsers s"
  using gated_request_effect[of q s s' undefined] by (auto simp: fleet_effect_def split: if_splits)

lemma authority:
  assumes "office_request q s s' \<or> gated_request q s s'"
    and "ofUsers s \<noteq> []" and "ousers_wf (ofUsers s)"
  shows "(\<not> someone q s \<longrightarrow> ofStore s' = ofStore s \<and> ofUsers s' = ofUsers s) \<and>
    (\<not> by_admin q s \<longrightarrow> active_admins (ofUsers s') = active_admins (ofUsers s))"
  using assms(1)
proof (elim disjE)
  assume r: "office_request q s s'"
  show ?thesis
    using anonymous_account[OF r _ assms(2)] office_request_store[OF r]
      oaccount_change_admins[OF office_request_change[OF r] _ assms(2,3)] by blast
qed (use anonymous_other[of q s s'] users_kept[of q s s'] in auto)

lemma config_authority:
  "settings_request q s s' \<or> schemas_request q s s' \<Longrightarrow> \<not> by_config q s \<Longrightarrow> ofStore s' = ofStore s"
  using settings_request_effect[of q s s' undefined] schemas_request_effect[of q s s' undefined] by (auto simp: fleet_effect_def)

section \<open>From a publication to the vessel\<close>

lemma bundle_row_stays:
  assumes "createConfigBundle pg b st = Inr st1" and "osBundles st2 = osBundles st1 @ bs"
  shows "getConfigBundle (cbID b) st2 = Inr (b\<lparr>cbPublishedAt := pgTime pg (cbPublishedAt b)\<rparr>)"
    and "getConfigBundleCursor (cbID b) st2 = Inr (osNextBundle st)"
proof -
  let ?P = "\<lambda>x. cbID (snd x) = cbID b" and ?row = "(osNextBundle st, b\<lparr>cbPublishedAt := pgTime pg (cbPublishedAt b)\<rparr>)"
  have "\<forall>x \<in> set (osBundles st). \<not> ?P x" and rows: "osBundles st1 = osBundles st @ [?row]"
    using assms(1) by (auto simp: createConfigBundle_def list_ex_iff split: if_splits)
  then have "List.find ?P (osBundles st) = None" by (auto simp: find_None_iff)
  then have "List.find ?P (osBundles st2) = Some ?row" by (simp add: assms(2) rows find_append)
  then show "getConfigBundle (cbID b) st2 = Inr (b\<lparr>cbPublishedAt := pgTime pg (cbPublishedAt b)\<rparr>)"
    and "getConfigBundleCursor (cbID b) st2 = Inr (osNextBundle st)"
    by (simp_all add: getConfigBundle_def getConfigBundleCursor_def)
qed

lemma delivered_severities:
  assumes "config_wf st" and "mset (cbRuleSeverities b) = mset (osSeverities st)"
  shows "bRuleSeverities (resolveFor b v gs n) = gm_map severity_text (effectiveSeverities (osSeverities st) v gs)"
  using severities_order_irrelevant[OF assms] by (simp add: resolveFor_def Let_def)

lemma saved_assignment:
  assumes "saveBundleAssignment pg a st = Inr st'" and "baScope a = \<lparr>scType = ScopeVessel, scKey = v\<rparr>"
  shows "osBundles st' = osBundles st" and "\<exists>vr. getVessel v st' = Inr vr"
  using assms
  by (auto simp: saveBundleAssignment_def map_sum_Inr save_scoped_def scope_accepted_def known_vessel_def list_ex_iff getVessel_def
      find_row_None_iff image_iff split: option.splits if_splits)

lemma assigned_to_vessel:
  assumes "handleSaveBundleAssignment q (Some \<lparr>sbrScope = \<lparr>swType = ''vessel'', swKey = v\<rparr>, sbrBundleID = i\<rparr>) s = (Inr r, s')"
    and "trim_space v = v"
  shows "\<exists>a. newBundleAssignment (oqNow q) \<lparr>scType = ScopeVessel, scKey = v\<rparr> i = Inr a \<and>
    saveBundleAssignment (oqPg q) a (ofStore s) = Inr (ofStore s')"
  using assms(1)
proof (rule assignment_answered)
  fix u sc b a
  assume "toScope (sbrScope \<lparr>sbrScope = \<lparr>swType = ''vessel'', swKey = v\<rparr>, sbrBundleID = i\<rparr>) = Inr sc"
  then have sc: "sc = \<lparr>scType = ScopeVessel, scKey = v\<rparr>"
    by (auto simp: toScope_def to_scope_type_def vesselScope_def assms(2) Let_def split: if_splits)
  assume "newBundleAssignment (oqNow q) sc (sbrBundleID \<lparr>sbrScope = \<lparr>swType = ''vessel'', swKey = v\<rparr>, sbrBundleID = i\<rparr>) = Inr a"
    and "saveBundleAssignment (oqPg q) a (ofStore s) = Inr (ofStore s')"
  then show ?thesis unfolding sc by (intro exI[of _ a]) simp
qed

lemma published_delivery:
  assumes "handlePublishConfigBundle q body s = (Inr (c, view), s1)" and "(office_server_step pb pg)\<^sup>*\<^sup>* s1 s2"
    and "handleSaveBundleAssignment q' (Some \<lparr>sbrScope = \<lparr>swType = ''vessel'', swKey = v\<rparr>, sbrBundleID = bsvID view\<rparr>) s2 = (Inr r, s3)"
    and "config_wf (ofStore s)" and "faithful_orders q" and "\<And>xs. mset (oeOrdAssignments env xs) = mset xs"
    and "trim_space v = v" and "trim_space (bsvID view) = bsvID view" and "cursor < osNextBundle (ofStore s)"
  shows "\<exists>b vr msg. getVessel v (ofStore s3) = Inr vr \<and>
    pullAssignedBundle env v cursor (ofStore s3) = Inr ([msg], osNextBundle (ofStore s)) \<and> pbcBundleId msg = bsvID view \<and>
    pbcContent msg = resolveFor b v (vrGroups vr) (osNextBundle (ofStore s)) \<and>
    mset (cbCadenceRules b) = mset (osCadence (ofStore s)) \<and> mset (cbRegulatoryProfiles b) = mset (osProfiles (ofStore s)) \<and>
    map svrSchemaName (cbSchemaVersions b) = listSchemaNames (ofStore s) \<and>
    bRuleSeverities (pbcContent msg) = gm_map severity_text (effectiveSeverities (osSeverities (ofStore s)) v (vrGroups vr))"
  using assms(1)
proof (rule publish_answered)
  fix u label composed b
  assume p: "composeCurrentBundle q (ofStore s) = Inr composed"
      "publish (oqUUID q 0) (oqNow q) (Some composed) label (ouID u) = Inr b"
      "createConfigBundle (oqPg q) b (ofStore s) = Inr (ofStore s1)" "(c, view) = (StatusCreated, toConfigBundleSummaryView b)"
  note rows = compose_current[OF p(1) assms(4,5)]
  have b: "cbRuleSeverities b = cbRuleSeverities composed" "cbCadenceRules b = cbCadenceRules composed"
      "cbRegulatoryProfiles b = cbRegulatoryProfiles composed" "cbSchemaVersions b = cbSchemaVersions composed"
    using p(2) by (auto simp: publish_def Let_def split: if_splits option.splits)
  have i: "bsvID view = cbID b" using p(4) by (simp add: toConfigBundleSummaryView_def)
  have later: "settings_later (ofStore s1) (ofStore s2)" by (rule office_history_settings[OF assms(2)])
  have wf: "config_wf (ofStore s2)"
    using later config_step_wf[OF config_step.publication[OF p(3)] assms(4)] by (simp add: settings_later_def)
  obtain a where a: "newBundleAssignment (oqNow q') \<lparr>scType = ScopeVessel, scKey = v\<rparr> (bsvID view) = Inr a"
      "saveBundleAssignment (oqPg q') a (ofStore s2) = Inr (ofStore s3)"
    using assigned_to_vessel[OF assms(3,7)] by blast
  have scope: "baScope a = \<lparr>scType = ScopeVessel, scKey = v\<rparr>" "baBundleID a = cbID b" "scope_ok (baScope a)"
    using new_rows_valid(4)[OF a(1)] assms(7,8) by (auto simp: scope_ok_def i)
  obtain vr where vr: "getVessel v (ofStore s3) = Inr vr" using saved_assignment(2)[OF a(2) scope(1)] by blast
  obtain as a' where as: "listBundleAssignments (oeOrdAssignments env) (ofStore s3) = Inr as"
      "resolve as v (vrGroups vr) = Some a'" "baBundleID a' = cbID b"
    using assigned_resolves[OF a(2) wf assms(6) scope(1,3), of "vrGroups vr"] scope(2) by auto
  obtain bs where "osBundles (ofStore s3) = osBundles (ofStore s1) @ bs"
    using later saved_assignment(1)[OF a(2) scope(1)] by (auto simp: settings_later_def)
  note stored = bundle_row_stays[OF p(3) this]
  let ?b = "b\<lparr>cbPublishedAt := pgTime (oqPg q) (cbPublishedAt b)\<rparr>"
  let ?msg = "\<lparr>pbcBundleId = cbID b, pbcVersionNo = osNextBundle (ofStore s),
      pbcContent = resolveFor ?b v (vrGroups vr) (osNextBundle (ofStore s)),
      pbcPublishedAt = Some (TimestampNew (oePb env) (cbPublishedAt ?b))\<rparr>"
  show ?thesis
  proof (intro exI conjI)
    show "getVessel v (ofStore s3) = Inr vr" by (rule vr)
    show "pullAssignedBundle env v cursor (ofStore s3) = Inr ([?msg], osNextBundle (ofStore s))"
      using assms(9) by (simp add: pullAssignedBundle_def vr as stored)
    show "bRuleSeverities (pbcContent ?msg) = gm_map severity_text (effectiveSeverities (osSeverities (ofStore s)) v (vrGroups vr))"
      unfolding pbConfigBundle.simps by (rule delivered_severities[OF assms(4)]) (simp add: b rows(1))
    show "pbcContent ?msg = resolveFor ?b v (vrGroups vr) (osNextBundle (ofStore s))" by simp
  qed (simp_all add: i b rows)
qed

end
