(* ===== verification/Spec2Isabelle.thy ===== *)
theory Spec2Isabelle
  imports VesselSync Voyage OfficeHistory
begin

text \<open>
  A verification library of ovl, which collects the event reports of ships.  A server on the ship (\<open>vessel/\<close>) keeps the
  reports its crew writes, checks them, and works without a connection; the server of the company (\<open>office/\<close>) receives what
  ships push, checks it again, and hands out what ships pull: configuration, remarks, chat, notices and commands.  Both share
  \<open>pkg/\<close>: the report aggregate (\<open>pkg/domain\<close>), the rule engine (\<open>pkg/validation\<close>), the schemas (\<open>pkg/schema\<close>) and the wire
  conversions (\<open>pkg/syncproto\<close>).

  \<^bold>\<open>Conventions.\<close>  A Go struct is a record, an enumeration a datatype or its string, a pointer or a nil-able map an option, a
  map an association list without repeated keys (\<open>gomap\<close> in \<open>Prelude\<close>), so that iteration order is visible and can be shown
  irrelevant.  An error return is the left of a sum, a panic is \<open>None\<close>, an HTTP handler a function from the request and the
  server's state to a response and the state it leaves (\<open>Http\<close>).  A statement of a handler is a binder (\<open>andthen\<close>, \<open>guard\<close>,
  \<open>decode\<close>), in the order of the code, and every early return is a branch.  A write that is not in a transaction with the
  next one changes the state on its own, and a failure of the next one leaves it changed.  Numbers are \<open>int\<close> where the values cannot
  reach the limits of their width, cut to 32 bits where the wire cuts them, and binary64 with its rounding for \<open>float64\<close>.

  \<^bold>\<open>Foundations.\<close>  \<open>Prelude\<close>: association lists as Go maps, loops with failures (\<open>for_each\<close>, \<open>attempt\<close>), the collections of hints.
  \<open>Float64\<close>: binary64 values, exact up to rounding, with the error bounds of an operation.  \<open>GoTime\<close>: instants in
  nanoseconds, durations, the layouts the program parses.  \<open>GoValue\<close>: decoded JSON and its deep equality.  \<open>Tables\<close>: the contracts of a
  database table as locales, \<open>insert_table\<close> (an insertion that ignores a known key) and \<open>upsert_table\<close>, interpreted on the tables
  of both stores.  \<open>Http\<close>: responses and the frame rules of the binders.

  \<^bold>\<open>The rule engine.\<close>  \<open>Schema\<close> (\<open>schema.go\<close>, \<open>diff.go\<close>), \<open>ValReport\<close>, \<open>Policy\<close>, \<open>FieldRules\<close>, \<open>Plausibility\<close> and \<open>Continuity\<close>
  translate \<open>pkg/validation\<close>.  Go's \<open>sort.Slice\<close> may order equal keys as it likes: it is an argument with the contract
  \<open>slice_sort\<close>, interpreted on a stable sorter and on one that turns ties around.  The lemmas characterise when each group of rules blocks,
  and show the pre-submit check and the cascade over the chain of reports to agree, independent of ties and of the order of the rows.

  \<^bold>\<open>The vessel.\<close>  \<open>Domain\<close> (\<open>pkg/domain\<close>): reports, their lifecycle, events, chat, remarks and notices.  \<open>VesselStore\<close>
  (\<open>vessel/store\<close>): the SQLite tables as lists of rows, the trigger that protects committed versions, the transactions of a
  pulled batch.  \<open>ConfigWire\<close> (\<open>pkg/configwire\<close>, \<open>vessel/httpapi/configbundle.go\<close>): the bundle a vessel works with.  \<open>Users\<close>: accounts,
  passwords, sessions, login, administration and the office's commands.  \<open>Locks\<close>: the section locks with their subscribers.
  \<open>VesselReports\<close>: the report handlers of \<open>vessel/httpapi\<close>.  \<open>VesselServer\<close>: what a request that succeeded went through, and runs
  of requests.  \<open>VesselSync\<close>: the sync cycle and the import of a restore bundle.  \<open>Voyage\<close>: the view of the current voyage.  The chain of
  lemmas is: each write keeps \<open>store_wf\<close> and the data of committed versions (\<open>frozen\<close>), so does each handler (\<open>vstep\<close>, \<open>hstep\<close>), so does
  each run, with the sync cycle interrupted anywhere.

  \<^bold>\<open>The protocol.\<close>  \<open>SyncProto\<close> (\<open>pkg/syncproto/convert.go\<close>): the conversions and when they fail.  The protobuf library is an argument
  with the contract \<open>pb_ok\<close>: what it packs it unpacks.

  \<^bold>\<open>The office.\<close>  \<open>Compliance\<close>, \<open>FieldPolicyScope\<close> and \<open>ConfigBundle\<close>: configuration by scope, its resolution for one vessel, composition and
  publication of bundles; \<open>Enrollment\<close>: codes.  \<open>OfficeStore\<close> and \<open>OfficeConfig\<close>: the Postgres tables, with what Postgres does to a
  value as the argument \<open>pg\<close> (precision of times, characters and numbers it refuses).  \<open>OfficeSync\<close> (\<open>office/syncservice\<close>): landing
  of pushed items, the cascade, every stream a vessel pulls, the interceptor that authenticates vessels; the relation \<open>office_step\<close> collects
  what else writes to the store, and \<open>office_later\<close> what all of it keeps: receipts stay, streams only grow at their end.  \<open>OfficeAgreement\<close>: the
  landed rows against the store of the vessel they came from.  \<open>OfficeAccounts\<close>, \<open>OfficeFleet\<close>, \<open>OfficeEnrollment\<close> and \<open>OfficeReview\<close>: the
  administration of users, vessels, enrollments and crews, and the review of reports, request by request.  \<open>OfficeRecovery\<close>
  (\<open>office/restorebundle\<close>): what a vessel that lost its data gets back.  \<open>OfficeSettings\<close> (\<open>compliance.go\<close>, \<open>configbundle.go\<close>): the
  screens of rule severities, cadence, profiles and bundles, with the composition of a bundle from the tables.  \<open>OfficeSchemas\<close>
  (\<open>schemaversions.go\<close>, \<open>fieldpolicy.go\<close>): publication of schema versions, field policies and their migration.  \<open>OfficeHistory\<close>: runs
  of the server as sequences of all of these, and what a request can do that is not authenticated or not an administrator's.

  \<^bold>\<open>This theory\<close> holds the properties and, for each that has hypotheses, a witness: a concrete state at which they hold, evaluated from the definitions.

  \<^bold>\<open>Termination and bounds.\<close>  No definition has fuel: the loops of the code run over lists, or take a byte away in every round
  (\<open>drop_broken\<close>, with the loop as \<open>while_option\<close> in \<open>drop_broken_loop\<close>).  Only the 32-bit version number of the wire and Postgres
  \<open>integer\<close> columns are cut or refused; counters of streams are unbounded here and 64 bits in the database.

  \<^bold>\<open>What is assumed of code outside.\<close>  \<open>crypto_ok\<close>: a hash verifies exactly the password it was made of.  \<open>pb_ok\<close>: see above.
  \<open>slice_sort\<close>: a sorted permutation.  Clocks, random identifiers and tokens are arguments, and a property that needs them fresh says so.
  Whatever order a query without ORDER BY returns its rows in is an argument, too.

  \<^bold>\<open>Not modelled.\<close>  Generated code (protobuf, GraphQL), the RPC transport and its compression, file access (attachments, backups,
  CSV and archive export, embedded schemas, the pages), encryption, the polling of sensors and of ship-management systems, process start,
  the event stream of presence, and the test device under \<open>cmd/\<close>.  Of the office's HTTP interface dashboards, report lists and
  exports, vessel groups and positions, API keys and notifications are left out.
  Concurrency is interleaving of whole requests, and of the writes of a sync cycle with requests: two handlers do not
  interleave within their bodies, which the vessel's mutex ensures for the handlers that take it.
\<close>

section \<open>Concrete inputs\<close>

text \<open>Small reports, stores and requests at which the properties below are evaluated.\<close>

definition ex_report :: "string \<Rightarrow> gotime \<Rightarrow> vreport" where
  "ex_report uid t = \<lparr>vReportID = uid, vVersionNo = 1, vSchemaName = ''log-abstract'',
     vEventType = ''Arrival'', vEventTime = t, vFields = Some []\<rparr>"

definition ex_row :: "string \<Rightarrow> state \<Rightarrow> gotime \<Rightarrow> report" where
  "ex_row uid s t = \<lparr>ReportID = uid, VersionNo = 1, SchemaName = ''log-abstract'', EventType = ''Arrival'',
     EventTime = t, Fields = Some [], State = s, InvalidatedFrom = StateZero, InvalidatedRules = [],
     CreatedAt = 0, CreatedBy = ''mate'', UpdatedAt = 0, SubmittedAt = zero_time, SubmittedBy = ''''\<rparr>"

definition ex_user :: "string \<Rightarrow> role \<Rightarrow> user" where
  "ex_user n ro = \<lparr>uID = n @ ''-id'', uUsername = n, uPasswordHash = ''password1'', uRole = ro, uCanSubmit = False,
     uMustChangePassword = False, uActive = True, uCreatedAt = 0, uUpdatedAt = 0\<rparr>"

text \<open>The Master is signed in with the session token \<open>t\<close>.\<close>

definition ex_accounts :: userServer where
  "ex_accounts = \<lparr>svUsers = Some [ex_user ''master'' RoleMaster, ex_user ''mate'' ''chiefOfficer''],
     svSessions = [(''t'', \<lparr>seUserID = ''master-id'', seExpiresAt = hour\<rparr>)]\<rparr>"

definition ex_uuid :: "int \<Rightarrow> string" where
  "ex_uuid i = (if i < 0 then CHR ''n'' else CHR ''p'') # replicate (nat \<bar>i\<bar>) CHR ''x''"

definition ex_env :: env where
  "ex_env = \<lparr>envNow = minute, envCookie = Some ''t'', envReportID = Some ''c'', envChatID = Some ''m'',
     envUUID = (\<lambda>i. Some (ex_uuid i)), envSorter = stable_sorter, envIter = id,
     envLoad = (\<lambda>_. None)\<rparr>"

definition ex_store :: "report list \<Rightarrow> store" where
  "ex_store rs = empty_vstore\<lparr>vsReports := rs\<rparr>"

definition ex_server :: "report list \<Rightarrow> server" where
  "ex_server rs = \<lparr>srvAccounts = ex_accounts, srvStore = ex_store rs, srvLocks = newLockManager\<rparr>"

definition ex_crypto :: crypto where
  "ex_crypto = \<lparr>createHash = Some, comparePasswordAndHash = (\<lambda>p h. Some (p = h))\<rparr>"

lemma ex_crypto_ok [simp]: "crypto_ok ex_crypto"
  by (simp add: crypto_ok_def ex_crypto_def)

lemma ex_env_sorter [simp]: "envSorter ex_env = stable_sorter" "slice_sort stable_sorter"
  by (simp_all add: ex_env_def slice_sort_stable)

lemma ex_row_sel [simp]:
  "ReportID (ex_row i s t) = i" "VersionNo (ex_row i s t) = 1" "State (ex_row i s t) = s"
  "Fields (ex_row i s t) = Some []" "EventTime (ex_row i s t) = t" "SchemaName (ex_row i s t) = ''log-abstract''"
  by (simp_all add: ex_row_def)

text \<open>A store whose rows are first versions with distinct identifiers is well formed.\<close>

lemma ex_store_ok:
  assumes "distinct (map report_key rs)" and "\<forall>r \<in> set rs. VersionNo r = 1 \<and> fields_finite (Fields r)"
  shows "report_ok (ex_store rs)"
proof -
  have "store_wf (ex_store rs)" using assms(1) by (simp add: ex_store_def store_wf_def empty_vstore_def)
  moreover have "rows_finite (ex_store rs)" using assms(2) by (simp add: ex_store_def rows_finite_def)
  moreover have "versions_ok (ex_store rs)"
    using assms(2) by (auto simp: versions_ok_def version_allowed_def look_report_def ex_store_def dest!: find_row_SomeD)
  ultimately show ?thesis by (simp add: report_ok_def)
qed

lemma ex_uuid_inj [simp]: "ex_uuid i = ex_uuid j \<longleftrightarrow> i = j"
proof
  assume e: "ex_uuid i = ex_uuid j"
  have "nat \<bar>i\<bar> = nat \<bar>j\<bar>" using arg_cong[OF e, of length] by (simp add: ex_uuid_def)
  moreover have "i < 0 \<longleftrightarrow> j < 0" using arg_cong[OF e, of hd] by (simp add: ex_uuid_def split: if_splits)
  ultimately show "i = j" by linarith
qed simp

lemma ex_ids_fresh [simp]: "ids_fresh ex_env (ex_store rs)"
  by (auto simp: ids_fresh_def ex_env_def ex_store_def empty_vstore_def)

section \<open>The rule engine\<close>


text \<open>
  C31. The result of cascade revalidation does not depend on the order of its input or on how
  \<open>sort.Slice\<close> treats ties, as long as no two reports have the same event time.
\<close>

theorem cascade_deterministic:
  assumes "slice_sort p" and "distinct (map vEventTime chain)" and "mset chain' = mset chain"
  shows "revalidate p chain' cfg = revalidate stable_sorter chain cfg"
  using slice_sort.revalidate_input_order[OF assms, of cfg] slice_sort.revalidate_sorter[OF assms(1,2), of cfg]
  by simp

theorem cascade_deterministic_witness:
  "revalidate reversing_sorter [ex_report ''b'' hour, ex_report ''a'' 0] None =
   revalidate stable_sorter [ex_report ''a'' 0, ex_report ''b'' hour] None"
  by (rule cascade_deterministic)
    (simp_all add: slice_sort_reversing ex_report_def duration_defs)

text \<open>
  With the severities the program ships, a cascade invalidates a report exactly when
  another report of the chain has the same event minute, and records timestamp uniqueness as the only rule.
\<close>

theorem default_cascade_invalidates:
  assumes "slice_sort p" and "Severities (config_or_default cfg) = []"
  shows "gm_list (revalidate p chain cfg) i =
    (if \<exists>r \<in> set chain. vReportID r = i \<and> shares_minute chain r then [RuleTimestampUniqueness] else [])"
  using assms by (rule slice_sort.revalidate_default)

theorem default_cascade_invalidates_witness:
  "gm_list (revalidate stable_sorter [ex_report ''a'' 0, ex_report ''b'' second, ex_report ''c'' hour]
     (Some (validationConfigFor ''log-abstract''))) ''a'' = [RuleTimestampUniqueness]"
  by (subst default_cascade_invalidates)
    (simp_all add: config_or_default_def shares_minute_def minute_key_def ex_report_def time_unix_def duration_defs
      signed_divide_int_def)

text \<open>
  C32. The field rules block a report exactly when some field that is not hidden by the policy
  for the report's event is empty though mandatory, or holds a value that does not conform to the field's type,
  length or layout.
\<close>

theorem field_rules_block_iff:
  "hasErrors (evaluateFieldRules r sch policy events) \<longleftrightarrow>
   (\<exists>f \<in> set (schemaFields sch). field_state policy events r f \<noteq> FieldHidden \<and>
     (if isEmpty r (fieldName f) then mandatory (field_state policy events r f)
      else \<not> conforms f (field_get (vFields r) (fieldName f))))"
  by (auto simp: evaluateFieldRules_def hasErrors_concat hasErrors_evaluateField)


text \<open>
  C34. The readiness report has one entry, in the order of the enabled profiles, for each profile that
  some visible field serves, and lists as missing exactly the visible empty fields the profile needs, in schema order.
\<close>

theorem readiness_exact:
  "evaluateRegulatoryReadiness r fs enabled pol ev =
   map (\<lambda>p. \<lparr>Profile = p, MissingFields = map fieldName
          (filter (\<lambda>f. field_state pol ev r f \<noteq> FieldHidden \<and> requires p f \<and> isEmpty r (fieldName f)) fs)\<rparr>)
     (filter (\<lambda>p. \<exists>f \<in> set fs. field_state pol ev r f \<noteq> FieldHidden \<and> touches p f) enabled)"
  by (rule evaluateRegulatoryReadiness_eq)

text \<open>
  Two schema versions without duplicate fields have an empty diff exactly when they agree on
  the set of fields with their types, mandatoriness and enums; labels, units, lengths and sections do not count.
\<close>

theorem schema_diff_empty_iff:
  assumes "distinct (map fieldName (schemaFields b))" and "distinct (map fieldName (schemaFields a))"
  shows "diff_empty (diffSchemas b a) \<longleftrightarrow> diff_key ` set (schemaFields b) = diff_key ` set (schemaFields a)"
  using assms by (rule diff_empty_keys)

definition ex_schema :: "string list \<Rightarrow> schema" where
  "ex_schema names = \<lparr>schemaName = ''s'', schemaOvdVersion = ''1'', schemaVersion = ''1'', schemaSections = [''deck''],
     schemaFields = map (\<lambda>n. \<lparr>fieldName = n, fieldLabel = n, fieldType = FieldTypeText, fieldUnit = None, fieldMaxLength = None,
       fieldEnumRef = None, fieldSchemaMandatory = False, fieldMandatoryNote = None, fieldRelevance = '''',
       fieldSection = ''deck'', fieldAppliesToEvents = [], fieldDescription = '''', fieldUnsupportedByDnv = False\<rparr>) names\<rparr>"

theorem schema_diff_empty_iff_witness:
  "diff_empty (diffSchemas (ex_schema [''A'', ''B'']) (ex_schema [''B'', ''A''])) \<and>
   \<not> diff_empty (diffSchemas (ex_schema [''A'']) (ex_schema [''A'', ''B'']))"
  by (subst schema_diff_empty_iff, simp add: ex_schema_def, simp add: ex_schema_def,
      subst schema_diff_empty_iff, simp add: ex_schema_def, simp add: ex_schema_def)
    (auto simp: ex_schema_def diff_key_def)

section \<open>Reports on the vessel\<close>

text \<open>
  C4. A submission that succeeds was made by a signed-in user with the permission to submit, of a
  version that was ready; afterwards that version is committed and an item that carries it is queued for the office.
\<close>

theorem submission_contract:
  assumes "handleSubmitReport env i s = (Inr v, s')" and "slice_sort (envSorter env)" and "report_ok (srvStore s)"
  shows "\<exists>u r it. signed_in_as env s u \<and> canSubmitReports u \<and> getLatestVersion i (srvStore s) = Inr r \<and>
    State r = StateReady \<and> committed_at (srvStore s') (i, VersionNo r) \<and>
    it \<in> set (vsOutbox (srvStore s')) \<and> obKind it = OutboxItemKindReportVersion \<and>
    obReportID it = i \<and> obVersionNo it = VersionNo r"
  using assms by (rule submitted_is_queued)

text \<open>
  C17. A user with the permission can submit a report that is ready: no constraint, trigger or
  marshalling error and no error of the cascade that follows makes the request fail.
\<close>

theorem submission_succeeds:
  assumes "slice_sort (envSorter env)" and "report_ok (srvStore s)" and "ids_fresh env (srvStore s)"
    and "signed_in_as env s u" and "canSubmitReports u" and "getLatestVersion i (srvStore s) = Inr r" and "State r = StateReady"
  shows "\<exists>v s'. handleSubmitReport env i s = (Inr v, s')"
  using assms by (rule handleSubmitReport_succeeds)

lemma ex_signed_in: "signed_in_as ex_env (ex_server rs) (ex_user ''master'' RoleMaster)"
  by (simp add: signed_in_as_def signed_in_def requireStore_def authenticatedUser_def ex_env_def ex_server_def
      ex_accounts_def session_lookup_def getUser_def find_row_def ex_user_def duration_defs)

lemma ex_latest: "getLatestVersion ''a'' (ex_store [ex_row ''a'' st t]) = Inr (ex_row ''a'' st t)"
  by (simp add: getLatestVersion_def latest_version_def versions_of_def ex_store_def)

lemma ex_server_sel [simp]: "srvStore (ex_server rs) = ex_store rs" "srvLocks (ex_server rs) = newLockManager"
  by (simp_all add: ex_server_def)

lemma ex_one_ok [simp]: "report_ok (ex_store [ex_row i st t])"
  by (rule ex_store_ok) (simp_all add: fields_finite_def)

lemma ex_can_submit [simp]: "canSubmitReports (ex_user n RoleMaster)"
  by (simp add: canSubmitReports_def ex_user_def)

theorem submission_succeeds_witness:
  "\<exists>v s'. handleSubmitReport ex_env ''a'' (ex_server [ex_row ''a'' StateReady 0]) = (Inr v, s')"
  by (rule submission_succeeds[OF _ _ _ ex_signed_in, where r = "ex_row ''a'' StateReady 0"]) (simp_all add: ex_latest)

lemma ex_submit: "\<exists>v s'. handleSubmitReport ex_env ''a'' (ex_server [ex_row ''a'' StateReady 0]) = (Inr v, s')"
  by (rule handleSubmitReport_succeeds[OF _ _ _ ex_signed_in, where r = "ex_row ''a'' StateReady 0"]) (simp_all add: ex_latest)

theorem submission_contract_witness:
  "\<exists>v s' it. handleSubmitReport ex_env ''a'' (ex_server [ex_row ''a'' StateReady 0]) = (Inr v, s') \<and>
     it \<in> set (vsOutbox (srvStore s')) \<and> obKind it = OutboxItemKindReportVersion \<and> obReportID it = ''a''"
proof -
  obtain v s' where h: "handleSubmitReport ex_env ''a'' (ex_server [ex_row ''a'' StateReady 0]) = (Inr v, s')"
    using ex_submit by blast
  from submission_contract[OF h] h show ?thesis by auto
qed

text \<open>
  C5. A cascade pass over a well-formed store always runs to its end, whatever it invalidates: the
  trigger that protects committed data never fires and every item is queued.  Its effect on the table of reports is to
  replace each report of the chain that \<open>Revalidate\<close> flags with new rules by its invalidated form, all else unchanged.
\<close>

theorem cascade_pass_total:
  assumes "slice_sort (envSorter env)" and "store_wf st" and "rows_finite st" and "ids_fresh env st"
  shows "\<exists>st'. runCascade env sname st = (Inr (), st') \<and>
    vsReports st' = map (cascade_rows env sname st) (vsReports st)"
  using runCascade_succeeds[OF assms] runCascade_rows[OF assms(1,2)] by blast

lemma ex_two_ok: "report_ok (ex_store [ex_row ''a'' StateSubmitted 0, ex_row ''b'' StateSubmitted 0])"
  by (rule ex_store_ok) (simp_all add: fields_finite_def report_key_def)

theorem cascade_pass_total_witness:
  "\<exists>st'. runCascade ex_env ''log-abstract'' (ex_store [ex_row ''a'' StateSubmitted 0, ex_row ''b'' StateSubmitted 0]) = (Inr (), st') \<and>
     length (vsReports st') = 2"
  using cascade_pass_total[of ex_env "ex_store [ex_row ''a'' StateSubmitted 0, ex_row ''b'' StateSubmitted 0]" "''log-abstract''"]
    ex_two_ok by (auto simp: report_ok_def) (auto simp: ex_store_def)

text \<open>
  C22. A second pass right after a first one, at any later time, changes nothing at all: no row, no
  audit event, no outbox item.
\<close>

theorem cascade_pass_idempotent:
  assumes "slice_sort (envSorter env)" and "store_wf st" and "runCascade env sname st = (Inr (), st')"
    and "envSorter env' = envSorter env"
  shows "runCascade env' sname st' = (Inr (), st')"
  using assms by (rule runCascade_idempotent)

theorem cascade_pass_idempotent_witness:
  "\<exists>st'. runCascade ex_env ''log-abstract'' (ex_store [ex_row ''a'' StateSubmitted 0, ex_row ''b'' StateSubmitted 0]) = (Inr (), st') \<and>
     runCascade (ex_env\<lparr>envNow := hour\<rparr>) ''log-abstract'' st' = (Inr (), st')"
proof -
  have ok: "store_wf (ex_store [ex_row ''a'' StateSubmitted 0, ex_row ''b'' StateSubmitted 0])"
    "rows_finite (ex_store [ex_row ''a'' StateSubmitted 0, ex_row ''b'' StateSubmitted 0])"
    using ex_two_ok by (simp_all add: report_ok_def)
  obtain st' where st': "runCascade ex_env ''log-abstract'' (ex_store [ex_row ''a'' StateSubmitted 0, ex_row ''b'' StateSubmitted 0]) = (Inr (), st')"
    using runCascade_succeeds[OF _ ok, of ex_env "''log-abstract''"] by auto
  from cascade_pass_idempotent[OF _ ok(1) this, of "ex_env\<lparr>envNow := hour\<rparr>"] st' show ?thesis by auto
qed






text \<open>
  C24. A correction that succeeds started from a committed latest version; the new latest version
  is a draft with the next number and the same field values, and the version it corrects is as it was.
\<close>

theorem correction_contract:
  assumes "handleStartCorrection env i s = (Inr v, s')" and "report_ok (srvStore s)"
  shows "\<exists>r nxt. getLatestVersion i (srvStore s) = Inr r \<and> inChain (State r) \<and>
    getLatestVersion i (srvStore s') = Inr nxt \<and> VersionNo nxt = VersionNo r + 1 \<and> State nxt = StateDraft \<and>
    Fields nxt = Fields r \<and> look_report (srvStore s') (report_key r) = Some r"
  by (rule correction_effect[OF assms]) blast

lemma handleStartCorrection_succeeds:
  assumes "report_ok (srvStore s)" and "ids_fresh env (srvStore s)" and "signed_in_as env s u"
    and "getLatestVersion i (srvStore s) = Inr r" and "inChain (State r)" and "VersionNo r \<le> 2 ^ 52" "0 \<le> VersionNo r"
  shows "\<exists>v s'. handleStartCorrection env i s = (Inr v, s')"
proof -
  obtain nxt e where n: "newCorrection (envNow env) (uUsername u) r = Inr (nxt, e)"
      "evDetail e = mk_detail [(''newVersionNo'', json_of_int (VersionNo r + 1))]"
    using assms(5) by (auto simp: newCorrection_def inChain_def Let_def)
  have fin: "json_finite (json_of_int (VersionNo r + 1))"
    using assms(6,7) by (simp add: json_of_int_def f64_of_int_exact)
  have row: "look_report (srvStore s) (report_key r) = Some r" using assms(1,4) by (rule getLatest_look)
  then have "r \<in> set (vsReports (srvStore s))" by (auto simp: look_report_def dest: find_row_SomeD)
  then have ff: "fields_finite (Fields nxt)"
    using assms(1) newCorrection_SomeD[OF n(1)] by (auto simp: report_ok_def rows_finite_def)
  have "report_key x \<noteq> report_key nxt" if "x \<in> set (vsReports (srvStore s))" for x
    using getLatest_sel(2)[OF assms(4) that] getLatest_sel(1)[OF assms(4)] newCorrection_SomeD[OF n(1)]
    by (auto simp: report_key_def)
  then have "find_row report_key (vsReports (srvStore s)) (report_key nxt) = None" by (force simp: find_row_None_iff)
  then obtain st1 where st1: "saveReport nxt (srvStore s) = Inr st1" using ff by (auto simp: saveReport_def)
  have wf1: "store_wf st1" using assms(1) st1 by (auto simp: report_ok_def intro: store_wf_saveReport)
  have f1: "ids_fresh env st1" using assms(2) by (simp add: ids_fresh_def saveReport_frame[OF st1])
  obtain j st2 where st2: "appendEvent e st1 = Inr (j, st2)" using n(2) fin by (simp add: appendEvent_def mk_detail_def)
  obtain it st3 where "enqueue_audit env r j st2 = Inr (it, st3)"
    using enqueue_audit_succeeds[OF store_wf_appendEvent[OF wf1 st2]] f1 by (metis appendEvent_fresh[OF st2])
  then have "attempt (srvStore s) (saveReport nxt (srvStore s)) (record_event env r e) = (Inr (), st3)"
    by (simp add: st1 st2 record_event_def)
  then show ?thesis using assms(3,4) n(1) by (fastforce simp: handleStartCorrection_def succeeded)
qed

lemma ex_correct: "\<exists>v s'. handleStartCorrection ex_env ''a'' (ex_server [ex_row ''a'' StateRemarked 0]) = (Inr v, s')"
  by (rule handleStartCorrection_succeeds[OF _ _ ex_signed_in, where r = "ex_row ''a'' StateRemarked 0"])
    (simp_all add: ex_latest inChain_def)

theorem correction_contract_witness:
  "\<exists>v s' nxt. handleStartCorrection ex_env ''a'' (ex_server [ex_row ''a'' StateRemarked 0]) = (Inr v, s') \<and>
     getLatestVersion ''a'' (srvStore s') = Inr nxt \<and> VersionNo nxt = 2"
proof -
  obtain v s' where h: "handleStartCorrection ex_env ''a'' (ex_server [ex_row ''a'' StateRemarked 0]) = (Inr v, s')"
    using ex_correct by blast
  from correction_contract[OF h] h show ?thesis by (auto simp: ex_latest)
qed

text \<open>
  C27. A save with a changed field in a section that another user holds a live lock on is answered
  with a conflict and writes nothing.
\<close>

theorem save_respects_locks:
  assumes "signed_in_as env s u" and "getLatestVersion i (srvStore s) = Inr r" and "\<not> inChain (State r)"
    and "envLoad env (SchemaName r) = Some sch" and "\<forall>xs. set (envIter env xs) = set xs"
    and "f \<in> fst ` set (ssrChanges req)" and "gm_lookup (section_by_field sch) f = Some sec"
    and "holds (envNow env) w (ReportID r, sec) (srvLocks s)" and "w \<noteq> uID u"
  shows "(\<exists>l. fst (handleSaveSection env i (Some req) s) = Inl (StatusConflict, ErrorText (lock_conflict_error l))) \<and>
    srvStore (snd (handleSaveSection env i (Some req) s)) = srvStore s"
  using save_refused[OF assms(1-4) _ assms(6-9)] assms(5) by blast

definition ex_locked :: server where
  "ex_locked = (ex_server [ex_row ''a'' StateDraft 0])\<lparr>srvLocks :=
     snd (lock_acquire 0 ''a'' ''deck'' ''mate-id'' ''mate'' ''chiefOfficer'' newLockManager)\<rparr>"

theorem save_respects_locks_witness:
  "srvStore (snd (handleSaveSection (ex_env\<lparr>envLoad := (\<lambda>_. Some (ex_schema [''A'']))\<rparr>) ''a''
      (Some \<lparr>ssrSection = ''engine'', ssrChanges = [(''A'', JBool True)]\<rparr>) ex_locked)) =
   ex_store [ex_row ''a'' StateDraft 0]"
proof -
  let ?env = "ex_env\<lparr>envLoad := (\<lambda>_. Some (ex_schema [''A'']))\<rparr>"
  have st: "srvStore ex_locked = ex_store [ex_row ''a'' StateDraft 0]" by (simp add: ex_locked_def)
  have u: "signed_in_as ?env ex_locked (ex_user ''master'' RoleMaster)"
    using ex_signed_in[of "[ex_row ''a'' StateDraft 0]"]
    by (simp add: signed_in_as_def signed_in_def ex_locked_def ex_env_def split: prod.splits)
  have "holds (envNow ?env) ''mate-id'' (''a'', ''deck'') (srvLocks ex_locked)"
    by (simp add: ex_locked_def holds_def lock_acquire_def newLockManager_def ex_env_def lock_expired_def
        lockTTL_def duration_defs Let_def gm_lookup_update)
  then have "srvStore (snd (handleSaveSection ?env ''a'' (Some \<lparr>ssrSection = ''engine'', ssrChanges = [(''A'', JBool True)]\<rparr>) ex_locked)) =
      srvStore ex_locked"
    using save_respects_locks[OF u, of "''a''" "ex_row ''a'' StateDraft 0" "ex_schema [''A'']" "''A''"
        "\<lparr>ssrSection = ''engine'', ssrChanges = [(''A'', JBool True)]\<rparr>" "''deck''" "''mate-id''"]
    by (simp add: st ex_latest inChain_def ex_env_def ex_schema_def section_by_field_def ex_user_def gm_lookup_update)
  then show ?thesis by (simp add: st)
qed

text \<open>
  In a well-formed store only the latest version of a report is a draft or ready.
\<close>

theorem editable_is_latest_version:
  assumes "report_ok st" and "look_report st k = Some r" and "\<not> inChain (State r)"
  shows "getLatestVersion (ReportID r) st = Inr r"
  using assms by (rule editable_is_latest)

lemma ex_look: "look_report (ex_store [ex_row i st t]) (i, 1) = Some (ex_row i st t)"
  by (simp add: look_report_def ex_store_def find_row_def report_key_def)

theorem editable_is_latest_version_witness:
  "getLatestVersion ''a'' (ex_store [ex_row ''a'' StateDraft 0]) = Inr (ex_row ''a'' StateDraft 0)"
  using editable_is_latest_version[OF ex_one_ok ex_look, of "''a''" StateDraft 0] by (simp add: inChain_def)


text \<open>
  C6. Once committed, a version stays committed through any sequence of lifecycle steps,
  with the fields, event time, event type and submission it was committed with.
\<close>

theorem committed_version_immutable:
  assumes "lifecycle\<^sup>*\<^sup>* r r'" and "inChain (State r)"
  shows "inChain (State r') \<and> Fields r' = Fields r \<and> EventTime r' = EventTime r \<and> EventType r' = EventType r \<and>
    SubmittedAt r' = SubmittedAt r \<and> SubmittedBy r' = SubmittedBy r"
  using assms by (rule lifecycle_star_committed)

theorem committed_version_immutable_witness:
  "Fields (fst (invalidate [''rule''] hour (ex_row ''a'' StateSubmitted 0))) = Some []"
proof -
  obtain r' e where i: "invalidate [''rule''] hour (ex_row ''a'' StateSubmitted 0) = (r', e)" by fastforce
  have "lifecycle\<^sup>*\<^sup>* (ex_row ''a'' StateSubmitted 0) r'" using lifecycle.invalidated[OF i] by blast
  from committed_version_immutable[OF this] show ?thesis by (simp add: i inChain_def)
qed

text \<open>
  C29. Saving a section panics exactly when the report has the nil field map and some new value
  differs from the absent one: assigning to a nil map.
\<close>

theorem save_section_aborts_iff:
  assumes "distinct (map fst changes)"
  shows "saveSection now section changes actor r = None \<longleftrightarrow>
    Fields r = None \<and> (\<exists>c \<in> set changes. changed None c)"
  using assms by (rule saveSection_panics_iff)

theorem save_section_aborts_iff_witness:
  "saveSection 0 ''deck'' [(''A'', JBool True)] ''mate'' ((ex_row ''a'' StateDraft 0)\<lparr>Fields := None\<rparr>) = None"
  by (subst save_section_aborts_iff) (simp_all add: changed_def any_value_def)

text \<open>
  The report after a save does not depend on the order in which Go ranges over the
  map of changes.
\<close>

theorem save_section_order_irrelevant:
  assumes "distinct (map fst changes)" and "mset changes' = mset changes" and "Fields r = Some m" and "gm_wf m"
    and "saveSection now section changes actor r = Some (r1, e1)"
    and "saveSection now section changes' actor r = Some (r2, e2)"
  shows "r1 = r2"
  using assms by (rule saveSection_order)

theorem save_section_order_irrelevant_witness:
  "fst (the (saveSection 0 ''deck'' [(''A'', JBool True), (''B'', JNull)] ''mate'' (ex_row ''a'' StateDraft 0))) =
   fst (the (saveSection 0 ''deck'' [(''B'', JNull), (''A'', JBool True)] ''mate'' (ex_row ''a'' StateDraft 0)))"
proof -
  let ?c = "[(''A'', JBool True), (''B'', JNull)]" let ?d = "[(''B'', JNull), (''A'', JBool True)]"
  have "saveSection 0 ''deck'' c ''mate'' (ex_row ''a'' StateDraft 0) \<noteq> None" if "distinct (map fst c)" for c
    using that by (simp add: saveSection_panics_iff)
  then obtain r1 e1 r2 e2 where r: "saveSection 0 ''deck'' ?c ''mate'' (ex_row ''a'' StateDraft 0) = Some (r1, e1)"
      "saveSection 0 ''deck'' ?d ''mate'' (ex_row ''a'' StateDraft 0) = Some (r2, e2)" by fastforce
  have "r1 = r2" by (rule save_section_order_irrelevant[OF _ _ _ _ r, where m = "[]"]) simp_all
  then show ?thesis by (simp add: r)
qed

text \<open>
  C16. Applying what the office sends keeps the store well formed and leaves the fields, event
  time, event type and submission of every committed version as they are.
\<close>

theorem pull_keeps_committed_data:
  assumes "report_ok st"
  shows "report_ok (snd (applyInboxPull iter svs cbs msgs notices rms c st)) \<and>
    committed_frozen st (snd (applyInboxPull iter svs cbs msgs notices rms c st))"
  using applyInboxPull_vstep[of st iter svs cbs msgs notices rms c] assms by (simp add: vstep_def)

theorem pull_keeps_committed_data_witness:
  "report_ok (snd (applyInboxPull id [] [] []
      [\<lparr>inReportID = ''a'', inVersionNo = 1, inBrokenRules = [''rule''], inComputedAt = hour\<rparr>] [] zero_cursors
      (ex_store [ex_row ''a'' StateSubmitted 0])))"
  using pull_keeps_committed_data[OF ex_one_ok] by blast

text \<open>
  C38. An invalidation notice is applied to the latest version of its report, whatever version
  it names and whatever that version's state: a draft correction too becomes invalidated, and so a member of the chain
  that was never submitted.
\<close>

theorem notice_hits_latest_version:
  assumes "store_wf st" and "getLatestVersion (inReportID n) st = Inr r" and "fields_finite (Fields r)"
    and "State r \<noteq> StateInvalidated"
  shows "\<exists>r'. look_report (snd (applyInvalidationNotice n st)) (report_key r) = Some r' \<and>
    State r' = StateInvalidated \<and> InvalidatedFrom r' = State r \<and> same_data r r'"
  using assms by (rule applyInvalidationNotice_latest)

theorem notice_hits_latest_version_witness:
  "\<exists>r'. look_report (snd (applyInvalidationNotice
       \<lparr>inReportID = ''a'', inVersionNo = 0, inBrokenRules = [''rule''], inComputedAt = hour\<rparr>
       (ex_store [ex_row ''a'' StateDraft 0]))) (''a'', 1) = Some r' \<and>
     State r' = StateInvalidated \<and> InvalidatedFrom r' = StateDraft"
proof -
  have ok: "store_wf (ex_store [ex_row ''a'' StateDraft 0])" using ex_one_ok[of "''a''" StateDraft 0] by (simp add: report_ok_def)
  show ?thesis
    using notice_hits_latest_version[OF ok, of "\<lparr>inReportID = ''a'', inVersionNo = 0, inBrokenRules = [''rule''], inComputedAt = hour\<rparr>"
        "ex_row ''a'' StateDraft 0"]
    by (auto simp: ex_latest fields_finite_def report_key_def)
qed



section \<open>Accounts and sessions\<close>

text \<open>
  C7. Whatever sequence of local requests and office commands a vessel with accounts runs through, the
  table of accounts stays well formed (unique identifiers and names, valid roles, at most one Master, who is active) and
  no account becomes Master that was not Master before: a Master the office demotes cannot be replaced.
\<close>

theorem masters_never_created:
  assumes "(account_step c)\<^sup>*\<^sup>* sv sv'" and "svUsers sv = Some us" and "users_wf us" and "us \<noteq> []"
  shows "\<exists>us'. svUsers sv' = Some us' \<and> users_wf us' \<and> us' \<noteq> [] \<and> set (master_ids us') \<subseteq> set (master_ids us)"
  using assms by (rule account_steps_masters)

definition ex_command :: userCommand where
  "ex_command = \<lparr>ucAction = UserCommandActionSetRole, ucUsername = ''master'', ucRole = ''chiefOfficer'',
     ucTemporaryPassword = '''', ucActive = False, ucCanSubmit = False\<rparr>"

lemma ex_users_wf: "users_wf [ex_user ''master'' RoleMaster, ex_user ''mate'' ''chiefOfficer'']"
  by (simp add: users_wf_def user_ok_def master_ids_def ex_user_def isSuperAdmin_def RoleMaster_def role_valid_def defaultRoles_def)
    (code_simp)

theorem masters_never_created_witness:
  "\<exists>us'. applyUserCommand ex_crypto None hour ex_command (the (svUsers ex_accounts)) = Inr us' \<and> master_ids us' = [] \<and> users_wf us'"
proof -
  obtain us' where us': "applyUserCommand ex_crypto None hour ex_command (the (svUsers ex_accounts)) = Inr us'" "master_ids us' = []"
    by (simp add: applyUserCommand_def applySetRoleCommand_def ex_command_def ex_accounts_def ex_user_def change_by_name_def
        getUserByUsername_def find_row_def setRole_def validateRole_def role_valid_def defaultRoles_def RoleMaster_def
        updateUser_def master_ids_def isSuperAdmin_def)
  have "account_step ex_crypto ex_accounts (ex_accounts\<lparr>svUsers := Some us'\<rparr>)"
    using us'(1) by (intro account_step.office[where us = "the (svUsers ex_accounts)"]) (simp_all add: ex_accounts_def)
  then have "(account_step ex_crypto)\<^sup>*\<^sup>* ex_accounts (ex_accounts\<lparr>svUsers := Some us'\<rparr>)" by blast
  from masters_never_created[OF this _ ex_users_wf] us' show ?thesis by (auto simp: ex_accounts_def)
qed

text \<open>
  A login succeeds exactly when the name is known, the account active, the password the one whose
  hash is stored, and the source of session tokens works.
\<close>

theorem login_succeeds_iff:
  "(\<exists>v. fst (handleLogin c dummy rnd now (Some req) sv) = Inr v) \<longleftrightarrow>
   (\<exists>us u. svUsers sv = Some us \<and> getUserByUsername (lrUsername req) us = Inr u \<and> uActive u \<and>
      verifyPassword c (lrPassword req) (uPasswordHash u) = Inr True \<and> rnd \<noteq> None)"
  by (rule handleLogin_succeeds_iff)

text \<open>
  A login with an unknown name and one with a wrong password get the same answer and leave the
  server in the same state, so the answer does not reveal which names exist.
\<close>

theorem login_refusal_uniform:
  assumes "svUsers sv = Some us" and "\<And>h. comparePasswordAndHash c (lrPassword req) h \<noteq> None"
    and "\<And>u. getUserByUsername (lrUsername req) us = Inr u \<Longrightarrow> verifyPassword c (lrPassword req) (uPasswordHash u) \<noteq> Inr True"
  shows "handleLogin c dummy rnd now (Some req) sv =
    writeError StatusUnauthorized ''incorrect username or password'' sv"
  using assms by (rule handleLogin_refusal)

theorem login_refusal_uniform_witness:
  "handleLogin ex_crypto ''x'' (Some ''u'') hour (Some \<lparr>lrUsername = ''nobody'', lrPassword = ''password1''\<rparr>) ex_accounts =
   writeError StatusUnauthorized ''incorrect username or password'' ex_accounts"
  by (rule login_refusal_uniform[where us = "the (svUsers ex_accounts)"])
    (simp_all add: ex_accounts_def ex_crypto_def getUserByUsername_def find_row_def ex_user_def)

text \<open>
  C36. The temporary password shown to the Master after a reset logs its user in, and the session
  it starts tells the client that the password must be changed.
\<close>

theorem reset_password_logs_in:
  assumes "crypto_ok c" and "svUsers sv = Some us" and "users_wf us" and "u \<in> set us" and "uActive u"
    and "handleResetUserPassword c rnd now cookie (uID u) sv = (Inr (status, password), sv')"
  shows "\<exists>view token. fst (handleLogin c dummy (Some tok) t (Some \<lparr>lrUsername = uUsername u, lrPassword = password\<rparr>) sv') =
      Inr (StatusOK, view, token) \<and> uvID view = uID u \<and> uvMustChangePassword view"
  using assms by (rule reset_then_login)


lemma ex_authenticated: "authenticatedUser minute (Some ''t'') ex_accounts = (Inr (ex_user ''master'' RoleMaster), ex_accounts)"
  by (simp add: authenticatedUser_def requireStore_def ex_accounts_def session_lookup_def getUser_def find_row_def ex_user_def duration_defs)

lemma ex_admin: "requireSuperAdmin minute (Some ''t'') ex_accounts = (Inr (the (svUsers ex_accounts)), ex_accounts)"
proof -
  have "requireStore ex_accounts = (Inr (the (svUsers ex_accounts)), ex_accounts)" by (simp add: requireStore_def ex_accounts_def)
  moreover have "isSuperAdmin (ex_user ''master'' RoleMaster)" by (simp add: isSuperAdmin_def ex_user_def)
  ultimately show ?thesis by (simp add: requireSuperAdmin_def ex_authenticated)
qed




lemma ex_reset: "\<exists>sv'. handleResetUserPassword ex_crypto id minute (Some ''t'') ''mate-id'' ex_accounts =
    (Inr (StatusOK, generateTemporaryPassword id), sv')"
proof -
  let ?u = "ex_user ''mate'' ''chiefOfficer''"
  have p: "hashPassword ex_crypto (generateTemporaryPassword id) = Inr (generateTemporaryPassword id)"
    using generateTemporaryPassword_valid[of id] by (simp add: hashPassword_Inr) (simp add: ex_crypto_def)
  then obtain u' where u': "resetPassword ex_crypto minute (generateTemporaryPassword id) ?u = Inr u'"
    by (simp add: resetPassword_def)
  have m: "getUser ''mate-id'' (the (svUsers ex_accounts)) = Inr ?u"
    by (simp add: ex_accounts_def getUser_def find_row_def ex_user_def)
  obtain us' where "updateUser u' (the (svUsers ex_accounts)) = Inr us'"
    using resetPassword_InrD[OF u'] by (simp add: ex_accounts_def updateUser_def) (simp add: ex_user_def)
  then show ?thesis
    by (simp add: handleResetUserPassword_def ex_admin m u' store_users_def writeJSON_def Let_def)
qed

theorem reset_password_logs_in_witness:
  "\<exists>sv' view token. fst (handleLogin ex_crypto ''x'' (Some ''u'') hour
      (Some \<lparr>lrUsername = ''mate'', lrPassword = generateTemporaryPassword id\<rparr>) sv') = Inr (StatusOK, view, token) \<and>
    uvMustChangePassword view"
proof -
  obtain sv' where r: "handleResetUserPassword ex_crypto id minute (Some ''t'') (uID (ex_user ''mate'' ''chiefOfficer'')) ex_accounts =
      (Inr (StatusOK, generateTemporaryPassword id), sv')" using ex_reset by (auto simp: ex_user_def)
  from reset_password_logs_in[OF ex_crypto_ok _ ex_users_wf _ _ r, of "''x''" "''u''" hour]
  have "\<exists>view token. fst (handleLogin ex_crypto ''x'' (Some ''u'') hour (Some \<lparr>lrUsername = uUsername (ex_user ''mate'' ''chiefOfficer''),
      lrPassword = generateTemporaryPassword id\<rparr>) sv') = Inr (StatusOK, view, token) \<and> uvMustChangePassword view"
    by (auto simp: ex_accounts_def) (auto simp: ex_user_def)
  then show ?thesis by (auto simp: ex_user_def)
qed

section \<open>Section locks\<close>

text \<open>
  C28. An attempt to acquire a section succeeds exactly when nobody else holds a live lock on it, and one
  that is refused changes nothing, so two users never hold the same section at the same time.
\<close>

theorem lock_exclusive:
  "(snd (fst (lock_acquire now r s u n ro m)) \<longleftrightarrow> \<not> (\<exists>v. v \<noteq> u \<and> holds now v (r, s) m)) \<and>
   (\<not> snd (fst (lock_acquire now r s u n ro m)) \<longrightarrow> snd (lock_acquire now r s u n ro m) = m)"
  using acquire_refused_iff acquire_refused_same by metis

theorem lock_exclusive_witness:
  "snd (lock_acquire minute ''a'' ''deck'' ''master-id'' ''master'' RoleMaster (srvLocks ex_locked)) = srvLocks ex_locked"
proof -
  have "holds minute ''mate-id'' (''a'', ''deck'') (srvLocks ex_locked)"
    by (simp add: ex_locked_def holds_def lock_acquire_def newLockManager_def lock_expired_def lockTTL_def duration_defs Let_def)
  then have "\<not> snd (fst (lock_acquire minute ''a'' ''deck'' ''master-id'' ''master'' RoleMaster (srvLocks ex_locked)))"
    by (subst conjunct1[OF lock_exclusive]) (auto intro!: exI[of _ "''mate-id''"])
  then show ?thesis using lock_exclusive by blast
qed

text \<open>
  A sweep, in whatever order Go ranges over the locks, returns exactly the expired locks and
  leaves exactly the others; no live lock ends because of it.
\<close>

theorem sweep_removes_expired:
  assumes "gm_wf (lmLocks m)" and "\<And>xs. set (iter xs) = set xs"
  shows "(l \<in> set (fst (lock_sweep iter now m)) \<longleftrightarrow>
      (\<exists>k. gm_lookup (lmLocks m) k = Some l \<and> lock_expired now (lmTTL m) l)) \<and>
    (holds now u k (snd (lock_sweep iter now m)) \<longleftrightarrow> holds now u k m)"
  using sweep_returns[OF assms] sweep_keeps_holder[OF assms(1)] by blast

theorem sweep_removes_expired_witness:
  "\<exists>l. l \<in> set (fst (lock_sweep rev hour (srvLocks ex_locked))) \<and> slUserID l = ''mate-id''"
proof -
  have wf: "gm_wf (lmLocks (srvLocks ex_locked))"
    by (simp add: ex_locked_def lock_acquire_def newLockManager_def Let_def gm_wf_def)
  have "\<exists>l. gm_lookup (lmLocks (srvLocks ex_locked)) (''a'', ''deck'') = Some l \<and>
      lock_expired hour (lmTTL (srvLocks ex_locked)) l \<and> slUserID l = ''mate-id''"
    by (simp add: ex_locked_def lock_acquire_def newLockManager_def lock_expired_def lockTTL_def duration_defs Let_def)
  then show ?thesis using conjunct1[OF sweep_removes_expired[OF wf, of rev]] by auto
qed

section \<open>The wire format and the voyage view\<close>

definition ex_pb :: "((string, json) gomap, int) pblib" where
  "ex_pb = \<lparr>NewStruct = Some, StructAsMap = id, TimestampNew = id, TimestampAsTime = id\<rparr>"




text \<open>
  A report converts exactly when its schema is one of the five the protocol knows, its state is a
  state of the lifecycle and the protobuf library accepts its field values.
\<close>

theorem wire_accepts_iff:
  "(\<exists>pv. reportVersionFromDomain pb r = Inr pv) \<longleftrightarrow>
   SchemaName r \<in> fst ` set schemaKindByName \<and> (\<forall>t. State r \<noteq> StateOther t) \<and> newStruct pb (Fields r) \<noteq> None"
  by (rule reportVersionFromDomain_succeeds_iff)

definition ex_leg :: report where
  "ex_leg = (ex_row ''a'' StateSubmitted 0)\<lparr>Fields := Some [(''Distance'', JNum (F64 30)), (''Distance_To_Go'', JNum (F64 90)),
     (''Voyage_Number'', JStr ''7'')]\<rparr>"

text \<open>
  C40. A voyage view that shows a progress shows one of at most 100 percent, and only for a voyage
  with a number, a distance sailed and a distance remaining.
\<close>

theorem voyage_progress_at_most_100:
  assumes "computeVoyageSummary p upper rs = Some v" and "vyProgressPercent v = Some pct"
  shows "\<not> f64_gt pct (F64 100) \<and> vyDistanceSailed v \<noteq> None \<and> vyDistanceRemaining v \<noteq> None \<and> vyVoyageNumber v \<noteq> ''''"
  using voyage_progress_bounded[OF assms] by blast

lemma f64_round_ints: "f64_round 30 = F64 30" "f64_round 90 = F64 90" "f64_round 120 = F64 120"
  using f64_round_of_int[of 30] f64_round_of_int[of 90] f64_round_of_int[of 120] by simp_all

theorem voyage_progress_at_most_100_witness:
  "\<exists>v pct. computeVoyageSummary stable_sorter id [ex_leg] = Some v \<and> vyProgressPercent v = Some pct \<and> \<not> f64_gt pct (F64 100)"
proof -
  obtain v pct where v: "computeVoyageSummary stable_sorter id [ex_leg] = Some v" "vyProgressPercent v = Some pct"
    by (simp add: computeVoyageSummary_def Let_def)
       (simp add: ex_leg_def ex_row_def toValidation_def r_String_def r_Float_def field_get_def string_or_empty_def distances_def
         map_filter_simps f64_round_ints sort_slice_def stable_sorter_def Let_def)
  from voyage_progress_at_most_100[OF v] v show ?thesis by blast
qed

text \<open>
  The severity a vessel applies to a rule is the one of its configuration bundle where the
  bundle has one, and the rule's own default otherwise.
\<close>

theorem bundle_decides_severity:
  "severity_of (validationConfigFromBundle b sname) ruleID deflt =
   (case Option.bind b (\<lambda>b. gm_lookup (bRuleSeverities b) ruleID) of None \<Rightarrow> deflt | Some s \<Rightarrow> to_severity s)"
  by (rule severity_from_bundle)

section \<open>The office\<close>

definition ex_pg :: pg where
  "ex_pg = \<lparr>pgTime = id, pgText = (\<lambda>_. True), pgFields = Some\<rparr>"

definition ex_vessel :: vesselRow where
  "ex_vessel = \<lparr>vrID = ''v'', vrIMO = ''9074729'', vrName = ''Nord'', vrType = ''tanker'', vrGroups = [], vrCreatedAt = 0,
     vrUpdatedAt = 0\<rparr>"

definition ex_ostore :: "landedVersion list \<Rightarrow> enrollment list \<Rightarrow> ostore" where
  "ex_ostore rows es = \<lparr>osVessels = [ex_vessel], osVersions = rows, osEvents = [], osReceipts = [], osChat = [], osNextChat = 1,
     osNotices = [], osNextNotice = 1, osRemarks = [], osNextRemark = 1, osCommands = [], osNextCommand = 1, osRoster = [],
     osSeverities = [], osCadence = [], osProfiles = [], osPolicies = [], osBundles = [], osNextBundle = 1, osAssignments = [],
     osSchemaVersions = [], osNextSchemaVersion = 1, osRestores = [], osNextRestore = 1, osSyncStatus = [], osCredentials = [],
     osEnrollments = es, osReviews = []\<rparr>"

definition ex_officer :: "role list \<Rightarrow> officeUser" where
  "ex_officer rs = \<lparr>ouID = ''adm'', ouUsername = ''ada'', ouPasswordHash = ''password1'', ouRoles = rs, ouMustChangePassword = False,
     ouActive = True, ouCreatedAt = 0, ouUpdatedAt = 0\<rparr>"

text \<open>One user, signed in with the token \<open>t\<close>.\<close>

definition ex_office :: "role list \<Rightarrow> ostore \<Rightarrow> officeServer" where
  "ex_office rs st = \<lparr>ofUsers = [ex_officer rs], ofSessions = [(''t'', \<lparr>seUserID = ''adm'', seExpiresAt = hour\<rparr>)], ofStore = st\<rparr>"

definition ex_req :: "string option \<Rightarrow> officeReq" where
  "ex_req cookie = \<lparr>oqNow = minute, oqCookie = cookie, oqCrypto = ex_crypto, oqPg = ex_pg, oqDummyHash = ''x'',
     oqUUID = (\<lambda>n. Some (ex_uuid (int n))), oqToken = (\<lambda>n. Some ''token-token''), oqSorter = stable_sorter,
     oqOrders = \<lparr>ordVessels = id, ordVersions = id, ordEnrollments = id, ordAssignments = id, ordCadence = id,
       ordSeverities = id, ordProfiles = id, ordPolicies = id\<rparr>, oqParse = (\<lambda>_. None)\<rparr>"

lemma ex_req_sel [simp]:
  "oqNow (ex_req k) = minute" "oqCookie (ex_req k) = k" "oqCrypto (ex_req k) = ex_crypto" "oqPg (ex_req k) = ex_pg"
  "oqUUID (ex_req k) n = Some (ex_uuid (int n))" "oqToken (ex_req k) n = Some ''token-token''" "ordEnrollments (oqOrders (ex_req k)) = id"
  "oqSorter (ex_req k) = stable_sorter"
  by (simp_all add: ex_req_def)

lemma ex_osigned_in: "osigned_in (ex_req (Some ''t'')) (ex_office rs st) (ex_officer rs)"
  by (simp add: osigned_in_def ex_office_def session_lookup_def ogetUser_def find_row_def ex_officer_def duration_defs)


definition ex_oenv :: "((string, json) gomap, int) officeEnv" where
  "ex_oenv = \<lparr>oePb = ex_pb, oePg = ex_pg, oeSorter = stable_sorter, oeOrdSeverities = id, oeOrdAssignments = id, oeNow = minute,
     oeCascadeNow = minute\<rparr>"

definition ex_chat :: chatMessage where
  "ex_chat = \<lparr>cmID = ''m'', cmReportID = ''a'', cmSender = ''mate'', cmBody = ''aye'', cmSentAt = 0, cmDirection = ChatFromVessel\<rparr>"



text \<open>
  C15. A vessel that pulls again and again while the server works, each time from the cursor it was given, gets
  every chat message, notice and remark exactly once: all its answers together are what one pull at the end answers.
\<close>

theorem streams_deliver_once:
  assumes "sorted_wrt (\<lambda>s s'. (office_server_step pb pg)\<^sup>*\<^sup>* s s') ss" and "ss \<noteq> []" and "streams_wf (ofStore (hd ss))"
  shows "session (pullChatMessages env v) c (map ofStore ss) = fst (pullChatMessages env v c (ofStore (last ss))) \<and>
    session (pullInvalidationNotices env v) c (map ofStore ss) = fst (pullInvalidationNotices env v c (ofStore (last ss))) \<and>
    map prId (session (pullRemarks env v) c (map ofStore ss)) = map prId (fst (pullRemarks env v c (ofStore (last ss))))"
proof -
  have later: "office_later (ofStore s) (ofStore s')" if "(office_server_step pb pg)\<^sup>*\<^sup>* s s'" for s s'
    using office_history(1)[OF that] by (rule office_steps_later)
  have sorted: "sorted_wrt office_later (map ofStore ss)"
    unfolding sorted_wrt_map by (rule sorted_wrt_mono_rel[OF _ assms(1)]) (rule later)
  have wf: "\<forall>st \<in> set (map ofStore ss). streams_wf st"
  proof (cases ss)
    case (Cons s rest)
    have "streams_wf (ofStore s')" if "s' \<in> set rest" for s'
      using assms(1,3) that streams_wf_later[OF later[of s s']] by (simp add: Cons)
    then show ?thesis using assms(3) by (simp add: Cons)
  qed simp
  note pulls = session_chat[OF sorted wf] session_notices[OF sorted wf] session_remarks[OF sorted wf]
  show ?thesis using pulls[of env v c] assms(2) by (simp add: last_map)
qed

definition ex_answer :: chatMessage where
  "ex_answer = ex_chat\<lparr>cmID := ''n'', cmDirection := ChatFromOffice\<rparr>"

theorem streams_deliver_once_witness:
  "\<exists>st. oinsertChatMessage ex_pg ''v'' ex_answer (ex_ostore [] []) = Inr st \<and>
     session (pullChatMessages ex_oenv ''v'') 0 [ex_ostore [] [], st, st] = [chatMessageFromDomain ex_pb ex_answer]"
proof -
  let ?st = "(ex_ostore [] [])\<lparr>osChat := [\<lparr>srSeq = 1, srVesselID = ''v'', srItem = ex_answer\<rparr>], osNextChat := 2\<rparr>"
  have ins: "oinsertChatMessage ex_pg ''v'' ex_answer (ex_ostore [] []) = Inr ?st"
    by (simp add: oinsertChatMessage_def ex_ostore_def known_vessel_def ex_vessel_def ex_pg_def ex_answer_def ex_chat_def)
  have "office_step ex_pb ex_pg (ofStore (ex_office [] (ex_ostore [] []))) ?st"
    using office_step.chat[OF ins] by (simp add: ex_office_def)
  from office_server_step.service[OF this]
  have "office_server_step ex_pb ex_pg (ex_office [] (ex_ostore [] [])) (ex_office [] ?st)"
    by (simp add: ex_office_def)
  then have "sorted_wrt (\<lambda>s s'. (office_server_step ex_pb ex_pg)\<^sup>*\<^sup>* s s')
      [ex_office [] (ex_ostore [] []), ex_office [] ?st, ex_office [] ?st]"
    by simp
  from streams_deliver_once[OF this, of ex_oenv "''v''" 0] ins show ?thesis
    by (simp add: ex_office_def streams_wf_def stream_wf_def ex_ostore_def pullChatMessages_def listChatMessagesSince_def since_def
        ex_answer_def ex_oenv_def next_cursor_def Let_def)
qed

text \<open>
  C19. From the empty table on, whatever requests the server serves: identifiers and user names are unique, no
  name is empty or surrounded by blanks, and every user has some of the five roles, each once.
\<close>

theorem office_accounts_typed:
  assumes "(office_server_step pb pg)\<^sup>*\<^sup>* s s'" and "ofUsers s = []"
  shows "distinct (map ouID (ofUsers s')) \<and> distinct (map ouUsername (ofUsers s')) \<and>
    (\<forall>u \<in> set (ofUsers s'). ouRoles u \<noteq> [] \<and> distinct (ouRoles u) \<and> set (ouRoles u) \<subseteq> set allRoles \<and>
       ouUsername u \<noteq> '''' \<and> trim_space (ouUsername u) = ouUsername u)"
proof -
  have "ousers_wf (ofUsers s')" using assms by (intro office_history(2)[OF assms(1)]) (simp add: ousers_wf_def)
  then show ?thesis by (simp add: ousers_wf_def ouser_ok_def roles_ok_def list_all_iff)
qed

theorem office_accounts_typed_witness:
  "\<exists>s u. ohandleSetupAdmin (ex_req None) (Some \<lparr>lrUsername = '' ada '', lrPassword = ''password1''\<rparr>)
       ((ex_office [] (ex_ostore [] []))\<lparr>ofUsers := []\<rparr>) = (Inr (StatusCreated, otoUserView u, ''token-token''), s) \<and>
     ofUsers s = [u] \<and> ouRoles u = allRoles \<and> distinct (ouRoles u) \<and> trim_space (ouUsername u) = ouUsername u"
proof -
  let ?q = "ex_req None" and ?s = "(ex_office [] (ex_ostore [] []))\<lparr>ofUsers := []\<rparr>"
  let ?body = "Some \<lparr>lrUsername = '' ada '', lrPassword = ''password1''\<rparr>"
  have "oqPg ?q = ex_pg" by simp
  then have step: "(office_server_step ex_pb ex_pg)\<^sup>*\<^sup>* ?s (snd (ohandleSetupAdmin ?q ?body ?s))"
    by (intro r_into_rtranclp office_server_step.account[OF _ office_request.setup_admin])
  have name: "trim_space '' ada '' = ''ada''" by code_simp
  have roles: "normalize_roles allRoles = allRoles" "validateRoles allRoles = None" by code_simp+
  let ?u = "(ex_officer allRoles)\<lparr>ouID := ex_uuid 0, ouCreatedAt := minute, ouUpdatedAt := minute\<rparr>"
  have answer: "fst (ohandleSetupAdmin ?q ?body ?s) = Inr (StatusCreated, otoUserView ?u, ''token-token'')"
      "ofUsers (snd (ohandleSetupAdmin ?q ?body ?s)) = [?u]"
    by (simp_all add: ohandleSetupAdmin_def ohasAnyUser_def ex_office_def onewUser_def name roles hashPassword_def validatePassword_def
        minPasswordLength_def maxPasswordLength_def ex_crypto_def write_users_def ocreateUser_def ex_pg_def stored_user_def
        ostartSession_def session_create_def otoUserView_def writeJSON_def ex_officer_def Let_def)
  show ?thesis using office_accounts_typed[OF step] answer
    by (intro exI[of _ "snd (ohandleSetupAdmin ?q ?body ?s)"] exI[of _ ?u]) (simp add: ex_office_def prod_eq_iff ex_officer_def)
qed

text \<open>
  C14. A request of nobody signed in changes neither the store nor the accounts, a request of nobody who is an
  active Admin changes nothing about who is one, and a request to the configuration screens of nobody who is an active Config Manager
  leaves the store as it was; setting up the first account and redeeming a code are the exceptions.
\<close>

theorem authority_needed:
  assumes "office_request q s s' \<or> gated_request q s s'" and "ofUsers s \<noteq> []" and "ousers_wf (ofUsers s)"
  shows "((\<nexists>u. osigned_in q s u) \<longrightarrow> ofStore s' = ofStore s \<and> ofUsers s' = ofUsers s) \<and>
    ((\<nexists>u. osigned_in q s u \<and> canManageUsers u) \<longrightarrow> active_admins (ofUsers s') = active_admins (ofUsers s)) \<and>
    (settings_request q s s' \<or> schemas_request q s s' \<longrightarrow> (\<nexists>u. osigned_in q s u \<and> canManageConfig u) \<longrightarrow>
       ofStore s' = ofStore s)"
  using authority[OF assms] config_authority[of q s s'] by (simp add: someone_def by_admin_def by_config_def)

theorem authority_needed_witness:
  "active_admins (ofUsers (snd (ohandleUpdateUserRoles (ex_req (Some ''t'')) ''adm'' (Some [RoleAdmin])
     (ex_office [RoleViewer] (ex_ostore [] []))))) = {}"
proof -
  let ?q = "ex_req (Some ''t'')" and ?s = "ex_office [RoleViewer] (ex_ostore [] [])"
  have viewer: "\<not> canManageUsers u" if "osigned_in ?q ?s u" for u
  proof -
    have "u = ex_officer [RoleViewer]" using osigned_in_unique[OF that ex_osigned_in] by simp
    then show ?thesis by (simp add: ex_officer_def canManageUsers_def role_defs)
  qed
  have trimmed: "trim_space ''ada'' = ''ada''" by code_simp
  have wf: "ousers_wf (ofUsers ?s)" "ofUsers ?s \<noteq> []"
    by (simp_all add: ousers_wf_def ex_office_def ex_officer_def ouser_ok_def roles_ok_def allRoles_def role_defs trimmed)
  have step: "office_request ?q ?s (snd (ohandleUpdateUserRoles ?q ''adm'' (Some [RoleAdmin]) ?s))"
    by (rule office_request.user_roles)
  show ?thesis
    using authority_needed[OF disjI1[OF step] wf(2,1)] viewer
    by (auto simp: ex_office_def active_admins_def ex_officer_def canManageUsers_def role_defs)
qed


definition ex_enrollment :: enrollment where
  "ex_enrollment = \<lparr>enVesselID = ''v'', enState = EnrollIssued, enCodeHash = ''code-code'', enInitialMasterUsername = ''master'',
     enInitialMasterPasswordHash = ''x'', enDRPublicKey = '''', enIssuedAt = 0, enRevokedAt = None, enUpdatedAt = 0\<rparr>"

definition ex_redemption :: redeemEnrollmentRequest where
  "ex_redemption = \<lparr>reCode = ''code-code'', reDRPublicKey = ''k''\<rparr>"

definition ex_credential :: credential where
  "ex_credential = \<lparr>cdVesselID = ''v'', cdTokenHash = ''token-token'', cdTokenLookupHash = ''token-token'',
     cdIssuedAt = minute, cdRevokedAt = None, cdLastUsedAt = None\<rparr>"

definition ex_redeemed :: ostore where
  "ex_redeemed = (ex_ostore [] [ex_enrollment\<lparr>enState := EnrollEnrolled, enCodeHash := '''', enDRPublicKey := ''k'', enUpdatedAt := minute\<rparr>])
     \<lparr>osCredentials := [ex_credential]\<rparr>"

lemma ex_redeem:
  "handleRedeemEnrollment id (ex_req None) (Some ex_redemption) (ex_office rs (ex_ostore [] [ex_enrollment])) =
   (Inr (StatusOK, \<lparr>rrCredential = ''token-token'', rrVesselName = ''Nord'', rrVesselIMO = ''9074729''\<rparr>), ex_office rs ex_redeemed)"
  by (simp add: handleRedeemEnrollment_def decode_def guard_def ex_redemption_def ex_office_def ex_ostore_def listIssuedEnrollments_def
      ex_enrollment_def verifyCode_def verifyPassword_def ex_crypto_def enrol_now_def mint_def hashPassword_def validatePassword_def
      minPasswordLength_def maxPasswordLength_def
      getVessel_def find_row_def ex_vessel_def put_store_def upsertEnrollment_def upsert_by_def ex_pg_def
      upsertVesselCredential_def known_vessel_def writeJSON_def ex_redeemed_def ex_credential_def Let_def)



text \<open>
  C20. A code that is answered with a credential was the code of an enrollment waiting for it; the vessel is
  then enrolled, no code opens its enrollment any more, and the credential handed out signs in as that vessel and no other.
\<close>

theorem redeemed_code_enrolls:
  assumes "handleRedeemEnrollment h q (Some req) s = (Inr r, s')"
    and "crypto_ok (oqCrypto q)" and "\<And>p. p \<noteq> '''' \<Longrightarrow> createHash (oqCrypto q) p \<noteq> Some ''''"
    and "\<And>x. set (ordEnrollments (oqOrders q) x) = set x"
    and "\<And>t. oqToken q 0 = Some t \<Longrightarrow> trim_space t = t \<and> t \<noteq> ''''"
    and "distinct (map cdVesselID (osCredentials (ofStore s)))"
  shows "\<exists>e e' v. e \<in> set (osEnrollments (ofStore s)) \<and> enState e = EnrollIssued \<and>
    verifyCode (oqCrypto q) (reCode req) e = Inr True \<and>
    enrollment_of (enVesselID e) (ofStore s') = Some e' \<and> enState e' = EnrollEnrolled \<and> enCodeHash e' = '''' \<and>
    getVessel (enVesselID e) (ofStore s) = Inr v \<and> rrVesselName (snd r) = vrName v \<and> rrVesselIMO (snd r) = vrIMO v \<and>
    fst (authInterceptor (oqCrypto q) h env (bearer_prefix @ rrCredential (snd r)) (ofStore s')) = Inr (enVesselID e)"
  by (rule redemption_contract[OF assms(1,2) _ _ _ assms(6)]) (simp_all add: assms)

theorem redeemed_code_enrolls_witness:
  "\<exists>e e'. verifyCode ex_crypto ''code-code'' e = Inr True \<and> enrollment_of (enVesselID e) ex_redeemed = Some e' \<and>
     enState e' = EnrollEnrolled \<and> enCodeHash e' = '''' \<and>
     fst (authInterceptor ex_crypto id ex_oenv (bearer_prefix @ ''token-token'') ex_redeemed) = Inr (enVesselID e)"
proof -
  let ?q = "ex_req None" and ?s = "ex_office [] (ex_ostore [] [ex_enrollment])"
  have token: "trim_space t = t \<and> t \<noteq> ''''" if "oqToken ?q 0 = Some t" for t
  proof -
    have "trim_space ''token-token'' = ''token-token''" by code_simp
    then show ?thesis using that by auto
  qed
  have "createHash (oqCrypto ?q) p \<noteq> Some ''''" if "p \<noteq> ''''" for p using that by (simp add: ex_crypto_def)
  moreover have "set (ordEnrollments (oqOrders ?q) x) = set x" for x by simp
  moreover have "distinct (map cdVesselID (osCredentials (ofStore ?s)))" by (simp add: ex_office_def ex_ostore_def)
  ultimately show ?thesis
    using redeemed_code_enrolls[OF ex_redeem[of "[]"] _ _ _ token, where env = ex_oenv]
    by (simp add: ex_office_def ex_redemption_def) blast
qed

text \<open>
  C21. After an answered revocation or re-issue no token signs in as the vessel, whatever it was given before.
\<close>

theorem revocation_shuts_out:
  assumes "handleRevokeEnrollment q v s = (Inr r, s') \<or> handleReissueEnrollment q v body s = (Inr r', s')"
  shows "fst (authInterceptor cr h env header (ofStore s')) \<noteq> Inr v"
  using assms by (rule revoked_shut_out)

theorem revocation_shuts_out_witness:
  "\<exists>r s'. handleRevokeEnrollment (ex_req (Some ''t'')) ''v'' (ex_office [RoleAdmin] ex_redeemed) = (Inr r, s') \<and>
     fst (authInterceptor ex_crypto id ex_oenv (bearer_prefix @ ''token-token'') (ofStore s')) \<noteq> Inr ''v''"
proof -
  let ?q = "ex_req (Some ''t'')" and ?s = "ex_office [RoleAdmin] ex_redeemed"
  have store: "ofStore ?s = ex_redeemed" by (simp add: ex_office_def)
  have "(requireAdmin ?q ?s :: officeUser fleet_step_of) = (Inr (ex_officer [RoleAdmin]), ?s)"
    unfolding requireAdmin_Inr using ex_osigned_in by (simp add: ex_officer_def canManageUsers_def)
  moreover obtain e where e: "getEnrollment ''v'' ex_redeemed = Inr e" "enVesselID e = ''v''"
    by (simp add: ex_redeemed_def ex_ostore_def getEnrollment_def find_row_def ex_enrollment_def)
  moreover obtain st where "upsertEnrollment ex_pg (revoke minute e) ex_redeemed = Inr st"
    using e(2) by (simp add: ex_redeemed_def ex_ostore_def upsertEnrollment_def revoke_def ex_pg_def known_vessel_def ex_vessel_def)
  ultimately have "\<exists>r s'. handleRevokeEnrollment ?q ''v'' ?s = (Inr r, s')"
    by (simp add: handleRevokeEnrollment_def andthen_def fetch_def store put_store_def writeJSON_def Let_def)
  then show ?thesis using revocation_shuts_out by blast
qed

text \<open>
  C25. Whatever the office's administrators queued for the crews, starting from an empty queue, a vessel
  that asks gets every command after its cursor, in order: the conversion never fails, and no command makes anybody a Master.
\<close>

theorem crew_commands_deliverable:
  assumes "(\<lambda>s s'. \<exists>q. fleet_request q s s')\<^sup>*\<^sup>* s s'" and "osCommands (ofStore s) = []"
  shows "\<exists>out. fst (pullUserCommands env v cursor (ofStore s')) = Inr (out, next_cursor cursor (listUserCommandsSince v cursor (ofStore s'))) \<and>
    map pucCommandId out = map (\<lambda>r. oucID (srItem r)) (listUserCommandsSince v cursor (ofStore s')) \<and>
    (\<forall>c \<in> set out. pucAction c \<noteq> UserCommandActionUnspecified \<and>
       (pucAction c \<in> {UserCommandActionCreate, UserCommandActionSetRole} \<longrightarrow> pucRole c \<noteq> RoleMaster))"
proof -
  have "queue_ok (ofStore s')" using assms(1)
  proof (induction rule: rtranclp_induct)
    case base
    show ?case by (simp add: queue_ok_def assms(2))
  next
    case (step t u)
    then show ?case by (blast intro: fleet_request_queue)
  qed
  then have "\<forall>r \<in> set (listUserCommandsSince v cursor (ofStore s')). orderly (srItem r)"
    by (auto simp: queue_ok_def listUserCommandsSince_def since_def)
  from pull_commands_ok[OF this, of env "ofStore s'"] show ?thesis
    by (fastforce simp: pullUserCommands_def andthen_def Let_def split: prod.split)
qed

theorem crew_commands_deliverable_witness:
  "\<exists>s out. s = snd (handleResetVesselUserPassword (ex_req (Some ''t'')) ''v'' ''mate'' (ex_office [RoleAdmin] (ex_ostore [] []))) \<and>
     length (osCommands (ofStore s)) = 1 \<and> fst (pullUserCommands ex_oenv ''v'' 0 (ofStore s)) = Inr (out, 1) \<and>
     map pucCommandId out = [ex_uuid 0]"
proof -
  let ?q = "ex_req (Some ''t'')" and ?s = "ex_office [RoleAdmin] (ex_ostore [] [])"
  let ?s' = "snd (handleResetVesselUserPassword ?q ''v'' ''mate'' ?s)"
  let ?c = "\<lparr>oucID = ex_uuid 0, oucAction = ''resetPassword'', oucUsername = ''mate'', oucRole = '''', oucTemporaryPassword = ''token-token'',
     oucCanSubmit = False, oucActive = False, oucIssuedBy = ''ada'', oucIssuedAt = minute, oucFetchedAt = None, oucAppliedAt = None\<rparr>"
  have store: "ofStore ?s = ex_ostore [] []" by (simp add: ex_office_def)
  have admin: "(requireAdmin ?q ?s :: officeUser fleet_step_of) = (Inr (ex_officer [RoleAdmin]), ?s)"
    unfolding requireAdmin_Inr using ex_osigned_in by (simp add: ex_officer_def canManageUsers_def)
  have vessel: "getVessel ''v'' (ex_ostore [] []) = Inr ex_vessel" by (simp add: getVessel_def ex_ostore_def find_row_def ex_vessel_def)
  have queue: "osCommands (ofStore ?s') = [\<lparr>srSeq = 1, srVesselID = ''v'', srItem = ?c\<rparr>]"
    by (simp add: handleResetVesselUserPassword_def with_vessel_def andthen_def admin require_vessel_def store vessel
        draw_password_def queue_command_def put_store_def writeJSON_def Let_def)
      (simp add: queueUserCommand_def ex_ostore_def known_vessel_def ex_vessel_def ex_pg_def ex_officer_def)
  have "(\<lambda>s s'. \<exists>q. fleet_request q s s')\<^sup>*\<^sup>* ?s ?s'"
    by (rule r_into_rtranclp) (blast intro: fleet_request.crew_reset)
  moreover have "osCommands (ofStore ?s) = []" by (simp add: ex_office_def ex_ostore_def)
  ultimately obtain out where "fst (pullUserCommands ex_oenv ''v'' 0 (ofStore ?s')) =
      Inr (out, next_cursor 0 (listUserCommandsSince ''v'' 0 (ofStore ?s')))"
      "map pucCommandId out = map (\<lambda>r. oucID (srItem r)) (listUserCommandsSince ''v'' 0 (ofStore ?s'))"
    using crew_commands_deliverable by blast
  then show ?thesis using queue by (intro exI[of _ ?s'] exI[of _ out]) (simp add: listUserCommandsSince_def since_def next_cursor_def)
qed

text \<open>
  The check digit of an IMO number catches a wrong digit except where the weight of the place times the
  difference is a multiple of ten, and it catches every swap of two neighbours, the check digit included.
\<close>

theorem imo_check_digit:
  assumes "validateIMO imo = None"
  shows "(\<forall>i < 7. \<forall>c. is_digit c \<and> c \<noteq> imo ! i \<longrightarrow>
      (validateIMO (imo[i := c]) = None \<longleftrightarrow> i < 6 \<and> (7 - int i) * (digit_val c - digit_val (imo ! i)) mod 10 = 0)) \<and>
    (\<forall>i < 6. imo ! i \<noteq> imo ! Suc i \<longrightarrow> validateIMO (imo[i := imo ! Suc i, Suc i := imo ! i]) \<noteq> None)"
proof (intro conjI allI impI)
  fix i c assume "i < 7" "is_digit c \<and> c \<noteq> imo ! i"
  then show "validateIMO (imo[i := c]) = None \<longleftrightarrow> i < 6 \<and> (7 - int i) * (digit_val c - digit_val (imo ! i)) mod 10 = 0"
    by (intro wrong_digit[OF assms]) simp_all
next
  fix i assume "i < 6" "imo ! i \<noteq> imo ! Suc i"
  then show "validateIMO (imo[i := imo ! Suc i, Suc i := imo ! i]) \<noteq> None" by (intro swapped_digits[OF assms])
qed

theorem imo_check_digit_witness:
  "validateIMO ''9074729'' = None \<and> validateIMO ''9054729'' = None \<and> validateIMO ''9704729'' \<noteq> None"
proof -
  have ok: "validateIMO ''9074729'' = None" by code_simp
  note caught = imo_check_digit[OF ok]
  show ?thesis
    using ok conjunct1[OF caught, rule_format, of 2 "CHR ''5''"] conjunct2[OF caught, rule_format, of 1]
    by (simp add: is_digit_def digit_val_def less_eq_char_def)
qed

text \<open>
  C37. The loop that shortens a message ends whatever the bytes, and what it leaves fits the limit; of a text of whole
  characters it keeps exactly the characters that fit.
\<close>

theorem truncation_ends:
  "(\<exists>b. while_option (\<lambda>b. b \<noteq> [] \<and> \<not> ends_in_rune b) butlast (take n s) = Some b \<and>
      truncateBytes s n = (if length s \<le> n then s else b)) \<and>
   length (truncateBytes s n) \<le> n \<and>
   (\<forall>cs. s = concat cs \<longrightarrow> list_all is_rune cs \<longrightarrow> truncateBytes s n = concat (fitting n cs))"
  using drop_broken_loop[of "take n s"] truncate_prefix(2) truncate_runes by (auto simp: truncateBytes_def)

theorem truncation_ends_witness:
  "truncateBytes [CHR ''a'', CHR 0xE2, CHR 0x82, CHR 0xAC, CHR ''b''] 3 = ''a''"
proof -
  let ?cs = "[[CHR ''a''], [CHR 0xE2, CHR 0x82, CHR 0xAC], [CHR ''b'']]"
  have "list_all is_rune ?cs" by code_simp
  then show ?thesis using conjunct2[OF conjunct2[OF truncation_ends[of 3 "concat ?cs"]], rule_format, OF refl] by simp
qed

text \<open>
  C26. An answered remark set was made by an active reviewer on a report the office holds in a committed state: it
  adds one remark per flagged field, marks exactly the latest version as remarked, records one event, and adds one chat message
  within the limit; nothing else about reports changes.
\<close>

theorem remark_set_lands:
  assumes "handleCreateRemarkSet q v i (Some inputs) s = (Inr r, s')"
  shows "\<exists>u latest rows ev msg. osigned_in q s u \<and> canReview u \<and>
    listReportVersions v i (ofStore s) \<noteq> [] \<and> latest = last (listReportVersions v i (ofStore s)) \<and> inChain (State latest) \<and>
    osRemarks (ofStore s') = osRemarks (ofStore s) @ rows \<and>
    map (\<lambda>x. (rmFieldName (rrRemark (srItem x)), rmBody (rrRemark (srItem x)))) rows =
      map (\<lambda>f. (rfiFieldName f, rfiBody f)) inputs \<and>
    (\<forall>x \<in> set rows. srVesselID x = v \<and> rmReportID (rrRemark (srItem x)) = i \<and>
       rmVersionNo (rrRemark (srItem x)) = VersionNo latest \<and> rmAuthor (rrRemark (srItem x)) = ouUsername u) \<and>
    osVersions (ofStore s') = map (\<lambda>l. if lv_key l = (v, i, VersionNo latest)
       then l\<lparr>lvReport := (lvReport l)\<lparr>State := StateRemarked\<rparr>\<rparr> else l) (osVersions (ofStore s)) \<and>
    osEvents (ofStore s') = osEvents (ofStore s) @ [ev] \<and> evType (arEvent ev) = EventRemarked \<and> arOrigin ev = OriginOffice \<and>
    osChat (ofStore s') = osChat (ofStore s) @ [msg] \<and> srVesselID msg = v \<and> cmReportID (srItem msg) = i \<and>
      cmDirection (srItem msg) = ChatFromOffice \<and> length (cmBody (srItem msg)) \<le> maxChatBodyBytes"
  using assms by (rule remark_set_contract)

definition ex_landed :: "report \<Rightarrow> landedVersion" where
  "ex_landed r = landed_row ex_pg ''v'' ''1'' minute r (Some [])"

theorem remark_set_lands_witness:
  "\<exists>r s'. handleCreateRemarkSet (ex_req (Some ''t'')) ''v'' ''a'' (Some [\<lparr>rfiFieldName = ''ME_Hours'', rfiBody = ''why''\<rparr>])
       (ex_office [RoleReviewer] (ex_ostore [ex_landed (ex_row ''a'' StateSubmitted 0)] [])) = (Inr r, s') \<and>
     map (\<lambda>l. State (lvReport l)) (osVersions (ofStore s')) = [StateRemarked]"
proof -
  let ?q = "ex_req (Some ''t'')" and ?st = "ex_ostore [ex_landed (ex_row ''a'' StateSubmitted 0)] []"
  let ?s = "ex_office [RoleReviewer] ?st" and ?in = "[\<lparr>rfiFieldName = ''ME_Hours'', rfiBody = ''why''\<rparr>]"
  have store: "ofStore ?s = ?st" by (simp add: ex_office_def)
  have reviewer: "(requireReviewer ?q ?s :: officeUser review_step) = (Inr (ex_officer [RoleReviewer]), ?s)"
    unfolding requireReviewer_Inr using ex_osigned_in by (simp add: ex_officer_def canReview_def)
  have versions: "listReportVersions ''v'' ''a'' ?st = [lvReport (ex_landed (ex_row ''a'' StateSubmitted 0))]"
    by (simp add: listReportVersions_def vessel_reports_def ex_ostore_def ex_landed_def landed_row_def landed_report_def)
  let ?r = "\<lparr>rmID = ex_uuid 1, rmReportID = ''a'', rmVersionNo = 1, rmFieldName = ''ME_Hours'', rmBody = ''why'', rmAuthor = ''ada'',
      rmCreatedAt = minute, rmResolved = False\<rparr>"
  have built: "build_remarks ?q ''a'' 1 ''ada'' ?in = Some [?r]" by (simp add: build_remarks_def enumerate_eq_zip)
  obtain st1 where st1: "insertRemarkSet ex_pg ''v'' [?r] (ex_uuid 0) ?st = (Inr (), st1)" "known_vessel st1 ''v''" "osChat st1 = []"
    by (simp add: insertRemarkSet_def insert_remark_def known_vessel_def ex_ostore_def ex_vessel_def ex_pg_def pgInt4_def)
  obtain rep e where rep: "markRemarked [''ME_Hours''] ''ada'' minute (stub_report ''a'' 1 StateSubmitted) = Inr (rep, e)"
      "json_finite_obj (case evDetail e of None \<Rightarrow> [] | Some d \<Rightarrow> d)" "evVersionNo e = 1"
    by (simp add: markRemarked_def stub_report_def inChain_def mk_detail_def)
  have latest: "State (lvReport (ex_landed (ex_row ''a'' StateSubmitted 0))) = StateSubmitted"
      "VersionNo (lvReport (ex_landed (ex_row ''a'' StateSubmitted 0))) = 1"
    by (simp_all add: ex_landed_def landed_row_def landed_report_def)
  have officer: "ouUsername (ex_officer [RoleReviewer]) = ''ada''" by (simp add: ex_officer_def)
  let ?vs = "map (\<lambda>l. if lv_key l = (''v'', ''a'', 1) then l\<lparr>lvReport := (lvReport l)\<lparr>State := State rep\<rparr>\<rparr> else l) (osVersions st1)"
  have pg: "pgText ex_pg t" "pgInt4 1" "pgFields ex_pg m = Some m" for t m by (simp_all add: ex_pg_def pgInt4_def)
  obtain st3 where st3: "appendReportAuditEvent ex_pg ''v'' e minute OriginOffice (st1\<lparr>osVersions := ?vs\<rparr>) = Inr st3"
      "known_vessel st3 ''v''" "osChat st3 = []"
    using rep(2,3) st1(2,3) by (simp add: appendReportAuditEvent_def known_vessel_def pg Let_def)
  have "\<exists>r s'. handleCreateRemarkSet ?q ''v'' ''a'' (Some ?in) ?s = (Inr r, s')"
    by (simp add: handleCreateRemarkSet_def andthen_def reviewer decode_def guard_def store versions latest officer built st1(1)
        rep(1) put_review_def updateReportVersionState_def st3 newChatMessage_def summary_fits[THEN leD] oinsertChatMessage_def pg
        writeJSON_def Let_def)
  then obtain r s' where answered: "handleCreateRemarkSet ?q ''v'' ''a'' (Some ?in) ?s = (Inr r, s')" by blast
  from remark_set_lands[OF answered]
  have "map (\<lambda>l. State (lvReport l)) (osVersions (ofStore s')) = [StateRemarked]"
    by (auto simp: store versions) (simp add: ex_ostore_def ex_landed_def landed_row_def landed_report_def lv_key_def)
  then show ?thesis using answered by (intro exI[of _ r] exI[of _ s'] conjI)
qed






text \<open>
  C10. A vessel lost its data, and the office holds exactly its committed versions: importing the bundle the office
  builds into an empty store succeeds, brings back what every committed version recorded, leaves a well-formed store that the office
  mirrors again, and installs the configuration the office resolved.
\<close>

theorem restore_recovers:
  assumes "buildBundle ordV ordA p pg now v name imo ost = Inr b" and "mirrors v st ost" and "report_ok st"
    and "\<And>xs. mset (ordV xs) = mset xs" and "slice_sort p" and "getVessel v ost = Inr vr"
    and "\<forall>a \<in> set (osEvents ost). json_finite_obj (case evDetail (arEvent a) of None \<Rightarrow> [] | Some d \<Rightarrow> d)"
  shows "\<exists>res st'. applyRestoreBundle b empty_vstore = (Inr res, st') \<and> report_ok st' \<and> committed st' = vsReports st' \<and>
    core ` set (committed st') = core ` set (committed st) \<and> mirrors v st' ost \<and>
    vsConfigBundles st' = (case rbConfigBundle b of None \<Rightarrow> [] | Some cb \<Rightarrow> [cb])"
  by (rule recovery[OF assms(1-3) _ assms(5-7)]) (rule assms(4))

theorem restore_recovers_witness:
  "\<exists>b res st'. buildBundle id id stable_sorter ex_pg minute ''v'' ''Nord'' ''9074729''
       (ex_ostore [ex_landed (ex_row ''a'' StateSubmitted 0)] []) = Inr b \<and>
     applyRestoreBundle b empty_vstore = (Inr res, st') \<and> length (committed st') = 1 \<and>
     core ` set (committed st') = {core (ex_row ''a'' StateSubmitted 0)}"
proof -
  let ?r = "ex_row ''a'' StateSubmitted 0"
  let ?ost = "ex_ostore [ex_landed ?r] []" and ?st = "ex_store [?r]"
  have committed: "committed ?st = [?r]" by (simp add: committed_def ex_store_def inChain_def)
  have core: "core (lvReport (ex_landed ?r)) = core ?r"
    by (simp add: ex_landed_def landed_row_def landed_report_def ex_pg_def core_def normal_def toValidation_def ex_row_def)
  have row: "lvVesselID (ex_landed ?r) = ''v''" "State (lvReport (ex_landed ?r)) = StateSubmitted"
    by (simp_all add: ex_landed_def landed_row_def landed_report_def)
  have rows: "osVersions ?ost = [ex_landed ?r]" "osEvents ?ost = []" "osAssignments ?ost = []" by (simp_all add: ex_ostore_def)
  have vessel: "getVessel ''v'' ?ost = Inr ex_vessel" by (simp add: getVessel_def find_row_def ex_ostore_def ex_vessel_def)
  obtain b where b: "buildBundle id id stable_sorter ex_pg minute ''v'' ''Nord'' ''9074729'' ?ost = Inr b"
    by (simp add: buildBundle_def resolvedConfigBundle_def vessel listReports_def no_filter_def if_set_def listBundleAssignments_def
        rows resolve_def)
  have mirrors: "mirrors ''v'' ?st ?ost"
    by (simp add: mirrors_def accurate_def has_version_def rows committed core row inChain_def)
  have ok: "report_ok ?st" by (rule ex_store_ok) (simp_all add: fields_finite_def)
  obtain res and st' :: store where st': "applyRestoreBundle b empty_vstore = (Inr res, st')" "report_ok st'"
      "core ` set (committed st') = core ` set (committed ?st)" "committed st' = vsReports st'"
    using restore_recovers[OF b mirrors ok _ slice_sort_stable vessel] by (auto simp: rows)
  have distinct: "distinct (map report_key (committed st'))"
    using st'(2) by (simp add: st'(4) report_ok_def store_wf_def)
  have "report_key x = (''a'', 1)" if "core x \<in> core ` set (committed st')" for x
  proof -
    have c: "core x = core ?r" using that unfolding st'(3) committed by simp
    show ?thesis using arg_cong[OF c, of vReportID] arg_cong[OF c, of vVersionNo] by (simp add: report_key_def)
  qed
  then have "report_key ` set (committed st') \<subseteq> {(''a'', 1)}" by blast
  moreover have "committed st' \<noteq> []" using st'(3) committed by auto
  ultimately have "set (map report_key (committed st')) = {(''a'', 1)}" by (cases "committed st'") auto
  then have "length (committed st') = 1" using distinct_card[OF distinct] by simp
  then show ?thesis using b st'(1,3) committed by (intro exI conjI) simp_all
qed

section \<open>Configuration\<close>

text \<open>
  C8. From empty configuration tables on, whatever the server serves: a bundle can always be composed from
  what is saved, no scope has two rows of severities, only rules the company may tune have a severity, and only a known one, and no
  cadence rule allows a gap of zero hours.
\<close>

theorem configuration_stays_valid:
  assumes "(office_server_step pb pg)\<^sup>*\<^sup>* s s'" and "faithful_orders q"
    and "osSeverities (ofStore s) = []" and "osCadence (ofStore s) = []" and "osProfiles (ofStore s) = []"
    and "osPolicies (ofStore s) = []" and "osAssignments (ofStore s) = []"
  shows "(\<exists>c. composeCurrentBundle q (ofStore s') = Inr c) \<and>
    distinct (map rsScope (osSeverities (ofStore s'))) \<and>
    (\<forall>a \<in> set (osSeverities (ofStore s')). \<forall>(rule, sev) \<in> set (rsSeverities a).
       rule \<in> set overridableRuleIDs \<and> rule \<notin> set hardRuleIDs \<and> sev \<in> {SeverityError, SeverityWarning, SeverityInfo}) \<and>
    (\<forall>r \<in> set (osCadence (ofStore s')). f64_gt (crMaxGapHours r) (F64 0))"
proof -
  have "config_wf (ofStore s)" using assms(3-7) by (simp add: config_wf_def)
  then have wf: "config_wf (ofStore s')" using office_history_settings[OF assms(1)] by (simp add: settings_later_def)
  have "rule \<in> set overridableRuleIDs \<and> rule \<notin> set hardRuleIDs \<and> sev \<in> {SeverityError, SeverityWarning, SeverityInfo}"
    if "severities_ok a" "(rule, sev) \<in> set (rsSeverities a)" for a rule sev
  proof -
    have "gm_lookup (rsSeverities a) rule = Some sev"
      using that by (intro map_of_is_SomeI gm_wf_distinct) (simp_all add: severities_ok_def)
    then show ?thesis using that(1) hard_not_overridable by (auto simp: severities_ok_def known_severity_def)
  qed
  then show ?thesis using compose_total[OF wf assms(2)] wf by (auto simp: config_wf_def)
qed

lemma ex_faithful: "faithful_orders (ex_req k)"
  by (simp add: faithful_orders_def ex_req_def slice_sort_stable)

definition ex_manager :: "ostore \<Rightarrow> officeServer" where
  "ex_manager st = ex_office [RoleConfigManager] st"

lemma ex_manager_store [simp]: "ofStore (ex_manager st) = st" "(ex_manager st)\<lparr>ofStore := st'\<rparr> = ex_manager st'"
  by (simp_all add: ex_manager_def ex_office_def)

lemma ex_manager_signed_in:
  "oauthenticatedUser (ex_req (Some ''t'')) (ex_manager st) = (Inr (ex_officer [RoleConfigManager]), ex_manager st)"
  "requireConfigManager (ex_req (Some ''t'')) (ex_manager st) = (Inr (ex_officer [RoleConfigManager]), ex_manager st)"
  "canManageConfig (ex_officer [RoleConfigManager])" "ouID (ex_officer [RoleConfigManager]) = ''adm''"
proof -
  show manager: "canManageConfig (ex_officer [RoleConfigManager])" "ouID (ex_officer [RoleConfigManager]) = ''adm''"
    by (simp_all add: canManageConfig_def ex_officer_def)
  show "oauthenticatedUser (ex_req (Some ''t'')) (ex_manager st) = (Inr (ex_officer [RoleConfigManager]), ex_manager st)"
    unfolding oauthenticatedUser_Inr ex_manager_def using ex_osigned_in by simp
  show "requireConfigManager (ex_req (Some ''t'')) (ex_manager st) = (Inr (ex_officer [RoleConfigManager]), ex_manager st)"
    unfolding requireConfigManager_Inr ex_manager_def using ex_osigned_in manager by simp
qed

theorem configuration_stays_valid_witness:
  "\<exists>s'. snd (handleSaveRuleSeverityAssignment (ex_req (Some ''t''))
         (Some \<lparr>ssrScope = \<lparr>swType = ''group'', swKey = '' lng ''\<rparr>, ssrSeverities = [(RuleImpliedSpeed, ''info'')]\<rparr>)
         (ex_manager (ex_ostore [] []))) = s' \<and>
     map (\<lambda>a. (scKey (rsScope a), rsSeverities a)) (osSeverities (ofStore s')) = [(''lng'', [(RuleImpliedSpeed, SeverityInfo)])] \<and>
     (\<exists>c. composeCurrentBundle (ex_req (Some ''t'')) (ofStore s') = Inr c)"
proof -
  let ?q = "ex_req (Some ''t'')" and ?s = "ex_manager (ex_ostore [] [])"
  let ?body = "Some \<lparr>ssrScope = \<lparr>swType = ''group'', swKey = '' lng ''\<rparr>, ssrSeverities = [(RuleImpliedSpeed, ''info'')]\<rparr>"
  let ?s' = "snd (handleSaveRuleSeverityAssignment ?q ?body ?s)"
  have "settings_request ?q ?s ?s'" by (rule settings_request.severity_save)
  then have step: "(office_server_step ex_pb ex_pg)\<^sup>*\<^sup>* ?s ?s'"
    by (intro r_into_rtranclp office_server_step.gated[where q = ?q] gated_request.gated_settings) simp_all
  have trimmed: "trim_space '' lng '' = ''lng''" by code_simp
  have rule: "RuleImpliedSpeed \<notin> set hardRuleIDs" "RuleImpliedSpeed \<in> set overridableRuleIDs" by code_simp+
  have "map (\<lambda>a. (scKey (rsScope a), rsSeverities a)) (osSeverities (ofStore ?s')) = [(''lng'', [(RuleImpliedSpeed, SeverityInfo)])]"
    by (simp add: handleSaveRuleSeverityAssignment_def andthen_def ex_manager_signed_in check_value_def toScope_def to_scope_type_def
        groupScope_def trimmed newRuleSeverityAssignment_def validateScope_def set_severities_def setSeverity_def rule to_severity_def
        put_value_def saveRuleSeverityAssignment_def save_scoped_def scope_accepted_def ex_pg_def ex_ostore_def upsert_by_def
        writeJSON_def Let_def)
  then show ?thesis using configuration_stays_valid[OF step ex_faithful] by (simp add: ex_ostore_def)
qed



text \<open>
  C12. A saved field policy holds exactly what was asked for the fields the latest version does not lock: states
  as given, prefill classes other than \<open>none\<close>, and event lists that narrow; whatever the order in which Go ranges over the request.
  Unless all of it is empty, opening the screen again shows it.
\<close>

theorem field_policy_saved:
  assumes "handleSaveFieldPolicy event_types q name (Some r) s = (Inr (c, view), s')"
    and "distinct (map fst (sfrPolicy r))" and "distinct (map fst (sfrPrefill r))" and "distinct (map fst (sfrEvents r))"
    and "osigned_in q' s' u" and "oqSorter q' = oqSorter q" and "oqParse q' = oqParse q"
  shows "\<exists>latest parsed. latestSchemaVersion (oqSorter q) name (ofStore s) = Inr latest \<and>
    oqParse q (svContent latest) = Some parsed \<and>
    (\<forall>f. gm_lookup (fpvPolicy view) f = (if open_field parsed f then gm_lookup (sfrPolicy r) f else None) \<and>
      gm_lookup (fpvPrefill view) f = (case gm_lookup (sfrPrefill r) f of Some t \<Rightarrow> if t = ''none'' then None else Some t | None \<Rightarrow> None) \<and>
      gm_lookup (fpvEvents view) f = (case gm_lookup (sfrEvents r) f of
        Some evs \<Rightarrow> if open_field parsed f \<and> evs \<noteq> [] \<and> allEvents \<notin> set evs then Some evs else None | None \<Rightarrow> None)) \<and>
    (\<not> (fpvPolicy view = [] \<and> fpvPrefill view = [] \<and> fpvEvents view = []) \<longrightarrow>
      handleGetFieldPolicy event_types q' name (swType (fpvScope view)) (swKey (fpvScope view)) s' = (Inr (StatusOK, view), s'))"
proof -
  note exact = save_exact[OF assms(1-4)]
  obtain latest parsed where latest: "latestSchemaVersion (oqSorter q) name (ofStore s) = Inr latest"
      "oqParse q (svContent latest) = Some parsed"
    using exact by blast
  show ?thesis
    using exact latest saved_policy_shown[OF assms(1,5-7)] by (intro exI[of _ latest] exI[of _ parsed]) auto
qed

definition ex_field :: "string \<Rightarrow> bool \<Rightarrow> field" where
  "ex_field n locked = \<lparr>fieldName = n, fieldLabel = n, fieldType = FieldTypeText, fieldUnit = None, fieldMaxLength = None,
     fieldEnumRef = None, fieldSchemaMandatory = locked, fieldMandatoryNote = None, fieldRelevance = '''', fieldSection = '''',
     fieldAppliesToEvents = [], fieldDescription = '''', fieldUnsupportedByDnv = False\<rparr>"

definition ex_fields :: schema where
  "ex_fields = \<lparr>schemaName = ''log-abstract'', schemaOvdVersion = '''', schemaVersion = ''1'', schemaSections = [],
     schemaFields = [ex_field ''a'' False, ex_field ''b'' True]\<rparr>"

definition ex_version :: schemaVersionRow where
  "ex_version = \<lparr>svID = ''sv'', svSchemaName = ''log-abstract'', svVersion = ''1'', svSource = SourceProjectCurated,
     svContent = ''{}'', svPublishedAt = 0, svPublishedBy = ''adm''\<rparr>"

definition ex_registry :: ostore where
  "ex_registry = (ex_ostore [] [])\<lparr>osSchemaVersions := [\<lparr>srSeq = 1, srVesselID = '''', srItem = ex_version\<rparr>],
     osNextSchemaVersion := 2\<rparr>"

definition ex_config_req :: officeReq where
  "ex_config_req = (ex_req (Some ''t''))\<lparr>oqParse := (\<lambda>_. Some ex_fields)\<rparr>"

lemma ex_config_req_sel [simp]:
  "oqSorter ex_config_req = stable_sorter" "oqParse ex_config_req c = Some ex_fields" "oqPg ex_config_req = ex_pg"
  "oqUUID ex_config_req n = Some (ex_uuid (int n))" "oqNow ex_config_req = minute"
  by (simp_all add: ex_config_req_def)

lemma ex_config_signed_in:
  "osigned_in ex_config_req (ex_manager st) (ex_officer [RoleConfigManager])"
  "requireConfigManager ex_config_req (ex_manager st) = (Inr (ex_officer [RoleConfigManager]), ex_manager st)"
  "oauthenticatedUser ex_config_req (ex_manager st) = (Inr (ex_officer [RoleConfigManager]), ex_manager st)"
proof -
  show s: "osigned_in ex_config_req (ex_manager st) (ex_officer [RoleConfigManager])"
    using ex_osigned_in[of "[RoleConfigManager]" st] by (simp add: ex_config_req_def osigned_in_def ex_manager_def)
  show "requireConfigManager ex_config_req (ex_manager st) = (Inr (ex_officer [RoleConfigManager]), ex_manager st)"
    "oauthenticatedUser ex_config_req (ex_manager st) = (Inr (ex_officer [RoleConfigManager]), ex_manager st)"
    unfolding requireConfigManager_Inr oauthenticatedUser_Inr using s ex_manager_signed_in(3) by simp_all
qed

lemma ex_latest_version: "latestSchemaVersion stable_sorter ''log-abstract'' ex_registry = Inr ex_version"
  by (simp add: latestSchemaVersion_def listSchemaVersions_def ex_registry_def ex_version_def sort_slice_def stable_sorter_def)

theorem field_policy_saved_witness:
  "\<exists>view s'. handleSaveFieldPolicy None ex_config_req ''log-abstract''
       (Some \<lparr>sfrScope = \<lparr>swType = '''', swKey = ''''\<rparr>, sfrPolicy = [(''b'', ''hidden''), (''a'', ''hidden''), (''c'', ''hidden'')],
          sfrPrefill = [], sfrEvents = []\<rparr>) (ex_manager ex_registry) = (Inr (StatusOK, view), s') \<and>
     gm_lookup (fpvPolicy view) ''a'' = Some ''hidden'' \<and> gm_lookup (fpvPolicy view) ''b'' = None \<and>
     gm_lookup (fpvPolicy view) ''c'' = None \<and>
     handleGetFieldPolicy None ex_config_req ''log-abstract'' ''fleet'' '''' s' = (Inr (StatusOK, view), s')"
proof -
  let ?r = "\<lparr>sfrScope = \<lparr>swType = '''', swKey = ''''\<rparr>, sfrPolicy = [(''b'', ''hidden''), (''a'', ''hidden''), (''c'', ''hidden'')],
      sfrPrefill = [], sfrEvents = []\<rparr>"
  let ?p = "(newUnchecked fleetScope ''log-abstract'' ''1'')\<lparr>fpPolicy := [(''a'', FieldHidden)]\<rparr>"
  have "open_field ex_fields ''a''" "\<not> open_field ex_fields ''b''" "\<not> open_field ex_fields ''c''"
    by (simp_all add: open_field_def fieldByName_def ex_fields_def ex_field_def)
  then have p: "each_entry (save_state ex_fields) (sfrPolicy ?r) (newUnchecked fleetScope ''log-abstract'' ''1'') = Inr ?p"
    by (simp add: save_state_def setPolicy_def to_policy_state_def newUnchecked_def)
  have new: "newFieldPolicy fleetScope ''log-abstract'' ''1'' = Inr (newUnchecked fleetScope ''log-abstract'' ''1'')"
    by (simp add: newFieldPolicy_def validateScope_def fleetScope_def)
  have vocabulary: "eventVocabulary None ex_fields = Inr ([], None)"
    by (simp add: eventVocabulary_def ex_fields_def ex_field_def)
  have version: "svVersion ex_version = ''1''" by (simp add: ex_version_def)
  obtain st where st: "saveFieldPolicy ex_pg ?p ex_registry = Inr st"
    by (simp add: saveFieldPolicy_def save_scoped_def newUnchecked_def validateScope_def fleetScope_def scope_accepted_def ex_pg_def)
  obtain view where save: "handleSaveFieldPolicy None ex_config_req ''log-abstract'' (Some ?r) (ex_manager ex_registry) =
      (Inr (StatusOK, view), ex_manager st)" "fpvScope view = toScopeView fleetScope"
    using p by (simp add: handleSaveFieldPolicy_def andthen_def ex_config_signed_in find_version_def ex_latest_version check_value_def
        parse_version_def new version vocabulary put_value_def st toSchemaDetailView_def writeJSON_def policy_view_def)
  have scope: "swType (fpvScope view) = ''fleet''" "swKey (fpvScope view) = ''''"
    by (simp_all add: save(2) toScopeView_def scope_type_text_def fleetScope_def)
  note exact = field_policy_saved[OF save(1) _ _ _ ex_config_signed_in(1) refl refl]
  have "gm_lookup (fpvPolicy view) ''a'' = Some ''hidden'' \<and> gm_lookup (fpvPolicy view) ''b'' = None \<and>
      gm_lookup (fpvPolicy view) ''c'' = None \<and>
      (\<not> (fpvPolicy view = [] \<and> fpvPrefill view = [] \<and> fpvEvents view = []) \<longrightarrow>
        handleGetFieldPolicy None ex_config_req ''log-abstract'' ''fleet'' '''' (ex_manager st) = (Inr (StatusOK, view), ex_manager st))"
    using exact \<open>open_field ex_fields ''a''\<close> \<open>\<not> open_field ex_fields ''b''\<close> \<open>\<not> open_field ex_fields ''c''\<close> by (auto simp: scope)
  then show ?thesis using save(1) by (intro exI[of _ view] exI[of _ "ex_manager st"]) auto
qed

text \<open>
  C13. What was published under a name and a version is what a download returns ever after, byte for byte, and
  nobody can publish the same version of the same schema again.
\<close>

theorem published_schema_stays:
  assumes "handlePublishSchemaVersion validates q name (Some r) s = (Inr (c, view), s1)"
    and "(office_server_step pb pg)\<^sup>*\<^sup>* s1 s2" and "osigned_in q' s2 u"
  shows "(\<exists>file. handleDownloadSchemaVersion q' (trim_space name) (ssvVersion view) s2 = (Inr (StatusOK, file, spContent r), s2)) \<and>
    (trim_space (spVersion r') = ssvVersion view \<longrightarrow>
       (\<nexists>x s3. handlePublishSchemaVersion validates' q'' name (Some r') s2 = (Inr x, s3)))"
  using assms(1)
proof (rule publication_answered)
  fix u' source sv
  assume p: "publishVersion (oqUUID q 0) (oqNow q) name (spVersion r) source (spContent r) (ouID u') = Inr sv"
    "createSchemaVersion (oqPg q) sv (ofStore s) = Inr (ofStore s1)" "toSchemaVersionSummaryView q sv = Inr view"
  note sel = publishVersion_sel[OF p(1)] summary_sel[OF p(3)]
  have "office_later (ofStore s1) (ofStore s2)" using office_history(1)[OF assms(2)] by (rule office_steps_later)
  then obtain sv' where row: "getSchemaVersion (trim_space name) (trim_space (spVersion r)) (ofStore s2) = Inr sv'"
      "svContent sv' = spContent r"
    using version_row_stays[OF p(2)] sel by auto
  have "handleDownloadSchemaVersion q' (trim_space name) (ssvVersion view) s2 =
      (Inr (StatusOK, trim_space name @ ''-'' @ ssvVersion view @ ''.json'', spContent r), s2)"
    using osigned_in_passes[OF assms(3), where ?'a = schemas_error] sel row
    by (simp add: handleDownloadSchemaVersion_def andthen_def find_version_def writeJSON_def)
  moreover have "\<nexists>x s3. handlePublishSchemaVersion validates' q'' name (Some r') s2 = (Inr x, s3)"
    if "trim_space (spVersion r') = ssvVersion view"
    using taken_version_refused[OF row(1), of validates' q'' r'] that sel by auto
  ultimately show ?thesis by blast
qed

theorem published_schema_stays_witness:
  "\<exists>view s1 file. handlePublishSchemaVersion (\<lambda>_. True) ex_config_req ''log-abstract'' (Some \<lparr>spVersion = ''2'', spContent = ''{ }''\<rparr>)
       (ex_manager ex_registry) = (Inr (StatusCreated, view), s1) \<and>
     handleDownloadSchemaVersion ex_config_req ''log-abstract'' ''2'' s1 = (Inr (StatusOK, file, ''{ }''), s1)"
proof -
  let ?sv = "\<lparr>svID = ex_uuid 0, svSchemaName = ''log-abstract'', svVersion = ''2'', svSource = SourceCompanyEdited,
      svContent = ''{ }'', svPublishedAt = minute, svPublishedBy = ''adm''\<rparr>"
  have trims: "trim_space ''adm'' = ''adm''" "trim_space ''log-abstract'' = ''log-abstract''" "trim_space ''2'' = ''2''"
    by code_simp+
  have sv: "publishVersion (Some (ex_uuid 0)) minute ''log-abstract'' ''2'' SourceCompanyEdited ''{ }'' ''adm'' = Inr ?sv"
    by (simp add: publishVersion_def trims)
  have "ex_uuid 0 \<noteq> ''sv''" by (simp add: ex_uuid_def)
  then obtain st where st: "createSchemaVersion ex_pg ?sv ex_registry = Inr st"
    by (simp add: createSchemaVersion_def ex_registry_def ex_version_def ex_pg_def)
  obtain view where publish: "handlePublishSchemaVersion (\<lambda>_. True) ex_config_req ''log-abstract''
      (Some \<lparr>spVersion = ''2'', spContent = ''{ }''\<rparr>) (ex_manager ex_registry) = (Inr (StatusCreated, view), ex_manager st)"
      "ssvVersion view = ''2''"
    by (simp add: handlePublishSchemaVersion_def andthen_def ex_config_signed_in ex_manager_signed_in ex_latest_version check_value_def sv
        put_value_def st toSchemaVersionSummaryView_def parse_version_def writeJSON_def)
  show ?thesis
    using published_schema_stays[OF publish(1) rtranclp.rtrancl_refl ex_config_signed_in(1)] publish trims(2)
    by (intro exI[of _ view] exI[of _ "ex_manager st"]) auto
qed

end
